(* ===== verification/Prelude.thy ===== *)
theory Prelude
  imports Main "HOL-Library.Word" "HOL-Library.Monad_Syntax"
begin

unbundle bit_operations_syntax

text \<open>
  The vocabulary every component of the model shares.

  \<^item> A C function that can stop the machine (a \<open>panic\<close>, or an access outside an
    object, which the C language leaves undefined) is a function into \<open>option\<close>, and
    \<open>None\<close> is exactly that outcome. The state is passed explicitly.
  \<^item> A C function that returns an error number is a function into \<open>(errno + 'a) \<times> 's\<close>:
    \<open>Inl e\<close> for the error \<open>e\<close>, \<open>Inr x\<close> for the return value 0 with the value \<open>x\<close>
    stored through the pointer argument. The state is returned in both cases, because the
    code does not undo what it did before an error.
  \<^item> \<open>bindE m f\<close> is the idiom \<open>err = m; if (err) return err; f\<close>.
  \<^item> \<open>returns m Q\<close> says that \<open>m\<close> does not stop the machine and its result
    satisfies \<open>Q\<close>; \<open>when_returns m Q\<close> only says the latter. The rules for both are
    equations that follow the program text.
  \<^item> Bytes are \<open>8 word\<close>, and blocks of memory that the code reads both as bytes and
    as integers are byte lists with little-endian access functions.
\<close>

type_synonym byte = "8 word"

named_theorems ret_simps \<open>equations of returns and when_returns over the program text\<close>

section \<open>Sequencing\<close>

definition bindE ::
    "(('e + 'a) \<times> 's) option \<Rightarrow> ('a \<Rightarrow> 's \<Rightarrow> (('e + 'b) \<times> 's) option) \<Rightarrow> (('e + 'b) \<times> 's) option" where
  "bindE m f = Option.bind m (\<lambda>(r, s). case r of Inl e \<Rightarrow> Some (Inl e, s) | Inr x \<Rightarrow> f x s)"

definition returns :: "'a option \<Rightarrow> ('a \<Rightarrow> bool) \<Rightarrow> bool" where
  "returns m Q = (case m of None \<Rightarrow> False | Some x \<Rightarrow> Q x)"

definition when_returns :: "'a option \<Rightarrow> ('a \<Rightarrow> bool) \<Rightarrow> bool" where
  "when_returns m Q = (case m of None \<Rightarrow> True | Some x \<Rightarrow> Q x)"

lemma returns_Some [simp]: "returns (Some x) Q = Q x"
  by (simp add: returns_def)

lemma returns_None [simp]: "\<not> returns None Q"
  by (simp add: returns_def)

lemma when_returns_Some [simp]: "when_returns (Some x) Q = Q x"
  by (simp add: when_returns_def)

lemma when_returns_None [simp]: "when_returns None Q"
  by (simp add: when_returns_def)

lemma returns_bind [ret_simps]:
  "returns (Option.bind m f) Q = returns m (\<lambda>x. returns (f x) Q)"
  by (cases m) simp_all

lemma when_returns_bind [ret_simps]:
  "when_returns (Option.bind m f) Q = when_returns m (\<lambda>x. when_returns (f x) Q)"
  by (cases m) simp_all

lemma returns_bindE [ret_simps]:
  "returns (bindE m f) Q
     = returns m (\<lambda>(r, s). case r of Inl e \<Rightarrow> Q (Inl e, s) | Inr x \<Rightarrow> returns (f x s) Q)"
  by (cases m) (auto simp: bindE_def split: sum.splits)

lemma returns_bindEI:
  assumes "returns m (\<lambda>(r, s). P r s)" and "\<And>x s. P (Inr x) s \<Longrightarrow> returns (f x s) Q" and "\<And>e s. P (Inl e) s \<Longrightarrow> Q (Inl e, s)"
  shows "returns (bindE m f) Q"
  using assms by (cases m) (auto simp: bindE_def returns_def split: sum.splits)

lemma returns_bindI: "returns m P \<Longrightarrow> (\<And>x. P x \<Longrightarrow> returns (f x) Q) \<Longrightarrow> returns (Option.bind m f) Q"
  by (cases m) (simp_all add: returns_def)

lemma returns_map_option: "returns (map_option f m) Q = returns m (\<lambda>x. Q (f x))"
  by (cases m) (simp_all add: returns_def)

lemma when_returns_bindE [ret_simps]:
  "when_returns (bindE m f) Q
     = when_returns m (\<lambda>(r, s). case r of Inl e \<Rightarrow> Q (Inl e, s) | Inr x \<Rightarrow> when_returns (f x s) Q)"
  by (cases m) (auto simp: bindE_def split: sum.splits)

lemma returns_mono: "returns m P \<Longrightarrow> (\<And>x. P x \<Longrightarrow> Q x) \<Longrightarrow> returns m Q"
  by (cases m) simp_all

lemma when_returns_mono: "when_returns m P \<Longrightarrow> (\<And>x. P x \<Longrightarrow> Q x) \<Longrightarrow> when_returns m Q"
  by (cases m) simp_all

lemma returns_mono2:
  "returns m P \<Longrightarrow> (\<And>r s. P (r, s) \<Longrightarrow> Q (r, s)) \<Longrightarrow> returns m Q"
  by (cases m) auto

lemma when_returns_mono2:
  "when_returns m P \<Longrightarrow> (\<And>r s. P (r, s) \<Longrightarrow> Q (r, s)) \<Longrightarrow> when_returns m Q"
  by (cases m) auto

lemma returns_when: "returns m Q \<Longrightarrow> when_returns m Q"
  by (cases m) simp_all

lemma returnsE: "returns m Q \<Longrightarrow> (\<And>x. m = Some x \<Longrightarrow> Q x \<Longrightarrow> R) \<Longrightarrow> R"
  by (cases m) simp_all

lemma when_returnsD: "when_returns m Q \<Longrightarrow> m = Some x \<Longrightarrow> Q x"
  by simp

lemma when_returnsI: "(\<And>x. m = Some x \<Longrightarrow> Q x) \<Longrightarrow> when_returns m Q"
  by (cases m) simp_all

lemma returns_conj: "returns m P \<Longrightarrow> when_returns m Q \<Longrightarrow> returns m (\<lambda>x. P x \<and> Q x)"
  by (cases m) simp_all

lemma bindE_Inl [simp]: "bindE (Some (Inl e, s)) f = Some (Inl e, s)"
  by (simp add: bindE_def)

lemma bindE_Inr [simp]: "bindE (Some (Inr x, s)) f = f x s"
  by (simp add: bindE_def)

lemma bindE_None [simp]: "bindE None f = None"
  by (simp add: bindE_def)

text \<open>Functions by recursion may call themselves below \<open>bindE\<close>.\<close>

lemma bindE_cong [fundef_cong]:
  assumes "m = m'" and "\<And>x s. m' = Some (Inr x, s) \<Longrightarrow> f x s = g x s"
  shows "bindE m f = bindE m' g"
  using assms by (cases m') (auto simp: bindE_def split: sum.splits)

text \<open>Loops written with \<open>partial_function\<close> may call themselves below \<open>bindE\<close>.\<close>

lemma bindE_mono [partial_function_mono]:
  assumes "mono_option B" and "\<And>x s. mono_option (\<lambda>f. C f x s)"
  shows "mono_option (\<lambda>f. bindE (B f) (C f))"
proof (rule monotoneI)
  fix f g :: "'a \<Rightarrow> 'b option" assume fg: "fun_ord option_ord f g"
  have B: "option_ord (B f) (B g)" using assms(1) by (rule monotoneD) (rule fg)
  have C: "option_ord (C f x s) (C g x s)" for x s using assms(2) by (rule monotoneD) (rule fg)
  show "option_ord (bindE (B f) (C f)) (bindE (B g) (C g))"
  proof (cases "B f")
    case None
    then show ?thesis by (simp add: flat_ord_def)
  next
    case (Some y)
    with B have "B g = Some y" by (simp add: flat_ord_def)
    with Some C show ?thesis by (cases y; cases "fst y") (simp_all add: flat_ord_def)
  qed
qed

section \<open>Integers in memory\<close>

text \<open>
  Little-endian access to a byte list, as the 386 reads an \<open>unsigned short\<close> or an
  \<open>unsigned int\<close> through a cast pointer. The stores reduce their argument modulo the
  width, as the assignment does.
\<close>

definition rd16 :: "byte list \<Rightarrow> nat \<Rightarrow> nat" where
  "rd16 l i = unat (l ! i) + 256 * unat (l ! (i + 1))"

definition rd32 :: "byte list \<Rightarrow> nat \<Rightarrow> nat" where
  "rd32 l i = rd16 l i + 65536 * rd16 l (i + 2)"

definition wr16 :: "byte list \<Rightarrow> nat \<Rightarrow> nat \<Rightarrow> byte list" where
  "wr16 l i v = l[i := of_nat v, i + 1 := of_nat (v div 256)]"

definition wr32 :: "byte list \<Rightarrow> nat \<Rightarrow> nat \<Rightarrow> byte list" where
  "wr32 l i v = wr16 (wr16 l i v) (i + 2) (v div 65536)"

lemma length_wr16 [simp]: "length (wr16 l i v) = length l"
  by (simp add: wr16_def)

lemma length_wr32 [simp]: "length (wr32 l i v) = length l"
  by (simp add: wr32_def)

lemma unat_byte_of_nat: "unat (of_nat v :: byte) = v mod 256"
  by (simp add: unat_of_nat)

lemma rd16_less: "rd16 l i < 65536"
proof -
  have "unat (l ! i) < 256" and "unat (l ! (i + 1)) < 256"
    using unsigned_less [of "l ! i"] unsigned_less [of "l ! (i + 1)"] by simp_all
  then show ?thesis
    by (simp add: rd16_def)
qed

lemma rd32_less: "rd32 l i < 2 ^ 32"
  using rd16_less [of l i] rd16_less [of l "i + 2"] by (simp add: rd32_def)

lemma rd16_wr16_same: "i + 1 < length l \<Longrightarrow> rd16 (wr16 l i v) i = v mod 65536"
proof -
  assume "i + 1 < length l"
  then have "rd16 (wr16 l i v) i = v mod 256 + 256 * (v div 256 mod 256)"
    by (simp add: rd16_def wr16_def unat_byte_of_nat)
  also have "\<dots> = v mod (256 * 256)"
    by (simp only: mod_mult2_eq ac_simps)
  finally show ?thesis by simp
qed

lemma rd16_wr16_other: "j + 1 < i \<or> i + 1 < j \<Longrightarrow> rd16 (wr16 l i v) j = rd16 l j"
  by (auto simp: rd16_def wr16_def nth_list_update)

lemma rd32_wr32_same: "i + 3 < length l \<Longrightarrow> rd32 (wr32 l i v) i = v mod 2 ^ 32"
proof -
  assume len: "i + 3 < length l"
  then have "rd32 (wr32 l i v) i = v mod 65536 + 65536 * (v div 65536 mod 65536)"
    by (simp add: rd32_def wr32_def rd16_wr16_same rd16_wr16_other)
  also have "\<dots> = v mod (65536 * 65536)"
    by (simp only: mod_mult2_eq ac_simps)
  finally show ?thesis by simp
qed

lemma rd32_wr32_other: "j + 3 < i \<or> i + 3 < j \<Longrightarrow> rd32 (wr32 l i v) j = rd32 l j"
  by (auto simp: rd32_def wr32_def rd16_wr16_other)

lemma rd16_take [simp]: "i + 1 < n \<Longrightarrow> rd16 (take n l) i = rd16 l i"
  by (simp add: rd16_def)

lemma rd16_replicate_0: "i + 1 < n \<Longrightarrow> rd16 (replicate n 0) i = 0"
  by (simp add: rd16_def)

lemma rd32_replicate_0: "i + 3 < n \<Longrightarrow> rd32 (replicate n 0) i = 0"
  by (simp add: rd32_def rd16_replicate_0)

text \<open>The bytes of an integer, and of a sequence of integers, as they lie in memory.\<close>

definition le16 :: "nat \<Rightarrow> byte list" where
  "le16 v = [of_nat v, of_nat (v div 256)]"

definition le32 :: "nat \<Rightarrow> byte list" where
  "le32 v = le16 v @ le16 (v div 65536)"

definition le32s :: "nat list \<Rightarrow> byte list" where
  "le32s vs = concat (map le32 vs)"

definition rd32s :: "byte list \<Rightarrow> nat \<Rightarrow> nat \<Rightarrow> nat list" where
  "rd32s l i n = map (\<lambda>k. rd32 l (i + 4 * k)) [0..<n]"

lemma length_le16 [simp]: "length (le16 v) = 2"
  by (simp add: le16_def)

lemma length_le32 [simp]: "length (le32 v) = 4"
  by (simp add: le32_def)

lemma length_le32s [simp]: "length (le32s vs) = 4 * length vs"
  by (induction vs) (simp_all add: le32s_def)

lemma length_rd32s [simp]: "length (rd32s l i n) = n"
  by (simp add: rd32s_def)

lemma rd16_append1: "i + 1 < length xs \<Longrightarrow> rd16 (xs @ ys) i = rd16 xs i"
  by (simp add: rd16_def nth_append)

lemma rd16_append2: "rd16 (xs @ ys) (length xs + i) = rd16 ys i"
  by (simp add: rd16_def nth_append)

lemma rd32_append1: "i + 3 < length xs \<Longrightarrow> rd32 (xs @ ys) i = rd32 xs i"
  by (simp add: rd32_def rd16_append1)

lemma rd32_append2: "rd32 (xs @ ys) (length xs + i) = rd32 ys i"
  using rd16_append2 [of xs ys i] rd16_append2 [of xs ys "i + 2"]
  by (simp add: rd32_def add.assoc)

lemma rd16_le16: "rd16 (le16 v @ ys) 0 = v mod 65536"
proof -
  have "rd16 (le16 v @ ys) 0 = v mod 256 + 256 * (v div 256 mod 256)"
    by (simp add: rd16_def le16_def unat_byte_of_nat)
  also have "\<dots> = v mod (256 * 256)"
    by (simp only: mod_mult2_eq ac_simps)
  finally show ?thesis by simp
qed

lemma rd32_le32: "rd32 (le32 v @ ys) 0 = v mod 2 ^ 32"
proof -
  have "rd16 (le16 v @ le16 (v div 65536) @ ys) (length (le16 v) + 0) = v div 65536 mod 65536"
    by (simp only: rd16_append2 rd16_le16)
  then have "rd32 (le32 v @ ys) 0 = v mod 65536 + 65536 * (v div 65536 mod 65536)"
    unfolding rd32_def le32_def append_assoc length_le16 add_0 add_0_right rd16_le16 by argo
  also have "\<dots> = v mod (65536 * 65536)"
    by (simp only: mod_mult2_eq ac_simps)
  finally show ?thesis by simp
qed

lemma rd32_le32s:
  "k < length vs \<Longrightarrow> rd32 (le32s vs @ ys) (4 * k) = vs ! k mod 2 ^ 32"
proof (induction vs arbitrary: k)
  case Nil
  then show ?case by simp
next
  case (Cons v vs)
  show ?case
  proof (cases k)
    case 0
    then show ?thesis
      using rd32_le32 [of v "le32s vs @ ys"] by (simp add: le32s_def)
  next
    case (Suc j)
    then have "rd32 (le32s (v # vs) @ ys) (4 * k) = rd32 (le32s vs @ ys) (4 * j)"
      using rd32_append2 [of "le32 v" "le32s vs @ ys" "4 * j"] by (simp add: le32s_def)
    with Suc Cons show ?thesis by simp
  qed
qed

lemma rd32s_le32s:
  "(\<forall>v \<in> set vs. v < 2 ^ 32) \<Longrightarrow> n = length vs \<Longrightarrow> rd32s (le32s vs @ ys) 0 n = vs"
  by (rule nth_equalityI) (simp_all add: rd32s_def rd32_le32s)

lemma rd32s_append2: "rd32s (xs @ ys) (length xs + i) n = rd32s ys i n"
  using rd32_append2 [of xs ys] by (simp add: rd32s_def add.assoc)

text \<open>Reading back what was stored, and storing what was read.\<close>

lemma word8_256 [simp]: "(256 :: byte) = 0" "(65536 :: byte) = 0"
  by simp_all

lemma le16_rd16: "le16 (rd16 b i) = [b ! i, b ! (i + 1)]"
proof -
  have "unat (b ! i) < 256" using unsigned_less [of "b ! i"] by simp
  then have "(unat (b ! i) + 256 * unat (b ! (i + 1))) div 256 = unat (b ! (i + 1))" by simp
  then show ?thesis by (simp add: le16_def rd16_def)
qed

lemma le16_add_high: "le16 (v + 65536 * w) = le16 v"
proof -
  have "(v + 65536 * w) div 256 = v div 256 + 256 * w" by (simp add: div_add1_eq)
  then show ?thesis by (simp add: le16_def)
qed

lemma le32_rd32: "le32 (rd32 b i) = [b ! i, b ! (i + 1), b ! (i + 2), b ! (i + 3)]"
proof -
  have "rd32 b i div 65536 = rd16 b (i + 2)"
    using rd16_less [of b i] by (simp add: rd32_def)
  then show ?thesis
    by (simp add: le32_def rd32_def le16_add_high le16_rd16 numeral_3_eq_3)
qed

lemma rd32s_Suc: "rd32s b i (Suc n) = rd32s b i n @ [rd32 b (i + 4 * n)]"
  by (simp add: rd32s_def)

lemma rd32s_add: "rd32s b i (m + n) = rd32s b i m @ rd32s b (i + 4 * m) n"
  by (induction n) (simp_all add: rd32s_Suc algebra_simps, simp add: rd32s_def)

lemma le32s_append: "le32s (xs @ ys) = le32s xs @ le32s ys"
  by (simp add: le32s_def)

lemma le32s_single: "le32s [v] = le32 v"
  by (simp add: le32s_def)

lemma take4_drop: "k + 4 \<le> length b \<Longrightarrow> take 4 (drop k b) = [b ! k, b ! (k + 1), b ! (k + 2), b ! (k + 3)]"
  by (rule nth_equalityI) (auto simp: nth_Cons numeral_eq_Suc split: nat.splits)

lemma le32s_rd32s: "i + 4 * n \<le> length b \<Longrightarrow> le32s (rd32s b i n) = take (4 * n) (drop i b)"
proof (induction n)
  case 0
  then show ?case by (simp add: le32s_def rd32s_def)
next
  case (Suc n)
  have "le32s (rd32s b i (Suc n)) = take (4 * n) (drop i b) @ take 4 (drop (i + 4 * n) b)"
    using Suc by (simp add: rd32s_Suc le32s_append le32s_single le32_rd32 take4_drop)
  then show ?case
    using take_add [of "4 * n" 4 "drop i b"] by (simp add: add.commute)
qed

lemma rd16_le16s: "length xs = n \<Longrightarrow> rd16 (xs @ le16 v @ ys) n = v mod 65536"
  using rd16_append2 [of xs "le16 v @ ys" 0] by (simp add: rd16_le16)

lemma of_nat_unat_word16: "of_nat (unat (w :: 16 word) mod 65536) = w"
proof -
  have "unat w < 65536" using unsigned_less [of w] by simp
  then show ?thesis by simp
qed

lemma rd32_le32s_at: "4 * k = i \<Longrightarrow> k < length vs \<Longrightarrow> rd32 (le32s vs @ ys) i = vs ! k mod 2 ^ 32"
  using rd32_le32s by blast

lemma rd32s_le32s_at:
  "i = 4 * length xs \<Longrightarrow> n = length vs \<Longrightarrow> (\<forall>v \<in> set vs. v < 2 ^ 32)
     \<Longrightarrow> rd32s (le32s (xs @ vs @ zs) @ ys) i n = vs"
  using rd32s_append2 [of "le32s xs" "le32s vs @ le32s zs @ ys" 0 n] rd32s_le32s [of vs n "le32s zs @ ys"]
  by (simp add: le32s_append)

section \<open>Overwriting a part of a list\<close>

definition splice :: "nat \<Rightarrow> 'a list \<Rightarrow> 'a list \<Rightarrow> 'a list" where
  "splice i new old = take i old @ new @ drop (i + length new) old"

lemma length_splice [simp]: "i + length new \<le> length old \<Longrightarrow> length (splice i new old) = length old"
  by (simp add: splice_def)

section \<open>Strings\<close>

definition bytes :: "string \<Rightarrow> byte list" where
  "bytes s = map of_char s"

end
