(* ===== verification/Kstate.thy ===== *)
theory Kstate
  imports Prelude
begin

text \<open>
  The data of the kernel, from \<open>include/xenus/fs.h\<close>, \<open>include/xenus/process.h\<close> and the
  other headers: one record per struct and one record \<open>kst\<close> for the kernel's global
  variables.

  \<^item> A global array is a function from its index, and a pointer into an array is the
    index; the null pointer is \<open>None\<close> where the code tests for it. \<open>cinode\<close>, the static
    inode of the console in \<open>proc_init\<close>, is index \<open>MAXINODES\<close>, just past the table,
    and \<open>csuper\<close>, its super block, index \<open>MAXMOUNTS\<close>.
  \<^item> Block and inode numbers, which the code only compares, divides and indexes with,
    are \<open>nat\<close>; every sum of them that can exceed 32 bits has its reduction written out.
    File sizes and positions, mode bits, user numbers and link counts, whose width and
    sign matter to the code, are words of their width.
  \<^item> Fields of C type \<open>int\<close> that only hold a truth value are \<open>bool\<close>. The dirty field
    of an inode is a level (0, 1 or 2) and stays a number.
  \<^item> Page tables of processes are kept apart from the bytes of physical memory, in
    \<open>ptmem\<close>, indexed by the address of the table and the number of the entry. \<open>pg_dir\<close>,
    \<open>pg_tab\<close> and \<open>itab\<close> are the kernel's own tables at their fixed addresses.
  \<^item> \<open>pg_flist\<close> is the part of the array below \<open>pg_fcount\<close>, which is its length.
  \<^item> \<open>heap_bp\<close> is the static variable \<open>bp\<close> of \<open>sbrk\<close>.
\<close>

section \<open>Error numbers\<close>

datatype errno =
    ENOENT | EACCES | EPERM | E2BIG | EBUSY | ECHILD | EEXIST | EFAULT | EFBIG | EINTR
  | EINVAL | ENOMEM | EMFILE | EMLINK | EAGAIN | ENAMETOOLONG | ENFILE | ENODEV | ENOEXEC
  | EIO | ENOSPC | ENOSYS | ENOTDIR | ENOTEMPTY | ENOTTY | EPIPE | EROFS | ESPIPE | ESRCH
  | EXDEV | ERANGE | EBADF | EISDIR | ETXTBSY | ENXIO

fun errno_num :: "errno \<Rightarrow> nat" where
  "errno_num ENOENT = 1" | "errno_num EACCES = 2" | "errno_num EPERM = 3"
| "errno_num E2BIG = 4" | "errno_num EBUSY = 5" | "errno_num ECHILD = 6"
| "errno_num EEXIST = 7" | "errno_num EFAULT = 8" | "errno_num EFBIG = 9"
| "errno_num EINTR = 10" | "errno_num EINVAL = 11" | "errno_num ENOMEM = 12"
| "errno_num EMFILE = 13" | "errno_num EMLINK = 14" | "errno_num EAGAIN = 15"
| "errno_num ENAMETOOLONG = 16" | "errno_num ENFILE = 17" | "errno_num ENODEV = 18"
| "errno_num ENOEXEC = 19" | "errno_num EIO = 20" | "errno_num ENOSPC = 21"
| "errno_num ENOSYS = 22" | "errno_num ENOTDIR = 23" | "errno_num ENOTEMPTY = 24"
| "errno_num ENOTTY = 25" | "errno_num EPIPE = 26" | "errno_num EROFS = 27"
| "errno_num ESPIPE = 28" | "errno_num ESRCH = 29" | "errno_num EXDEV = 30"
| "errno_num ERANGE = 31" | "errno_num EBADF = 32" | "errno_num EISDIR = 33"
| "errno_num ETXTBSY = 34" | "errno_num ENXIO = 35"

section \<open>Limits and flags\<close>

abbreviation (input) "MAXMOUNTS \<equiv> (8::nat)"
abbreviation (input) "MAXINODES \<equiv> (200::nat)"
abbreviation (input) "MAXFILES \<equiv> (150::nat)"
abbreviation (input) "OPEN_MAX \<equiv> (20::nat)"
abbreviation (input) "MAXFDS \<equiv> OPEN_MAX"
abbreviation (input) "BLK_SIZE \<equiv> (512::nat)"
abbreviation (input) "MAXBDEVS \<equiv> (16::nat)"
abbreviation (input) "MAXCDEVS \<equiv> (16::nat)"
abbreviation (input) "BCWIDTH \<equiv> (131::nat)"
abbreviation (input) "BCDEPTH \<equiv> (4::nat)"
abbreviation (input) "BMAP0_SIZE \<equiv> (64::nat)"
abbreviation (input) "BMAP1_SIZE \<equiv> (32::nat)"
abbreviation (input) "BMAP2_SIZE \<equiv> (25::nat)"
abbreviation (input) "MAXPROCS \<equiv> (50::nat)"
abbreviation (input) "MAXUPROC \<equiv> (25::nat)"
abbreviation (input) "NAME_MAX \<equiv> (28::nat)"
abbreviation (input) "PATH_MAX \<equiv> (256::nat)"
abbreviation (input) "NLINK_MAX \<equiv> (32767::nat)"
abbreviation (input) "PIPE_BUF \<equiv> (4096::nat)"
abbreviation (input) "USER_BASE \<equiv> (0x04000000::nat)"
abbreviation (input) "HEAP_BASE \<equiv> (0x04c00000::nat)"
abbreviation (input) "HEAP_SIZE \<equiv> (0x00400000::nat)"
abbreviation (input) "ITAB_BASE \<equiv> (0x00100000::nat)"
abbreviation (input) "PDIR_BASE \<equiv> (0x00001000::nat)"
abbreviation (input) "PTAB_BASE \<equiv> (0x04800000::nat)"
abbreviation (input) "MAXPG \<equiv> (16384::nat)"
abbreviation (input) "USER_SIZE \<equiv> (0x00400000::nat)"

text \<open>File modes of \<open>sys/stat.h\<close> (octal in the header).\<close>

abbreviation (input) "S_IFMT \<equiv> (0xF000 :: 16 word)"
abbreviation (input) "S_IFIFO \<equiv> (0x1000 :: 16 word)"
abbreviation (input) "S_IFCHR \<equiv> (0x2000 :: 16 word)"
abbreviation (input) "S_IFDIR \<equiv> (0x4000 :: 16 word)"
abbreviation (input) "S_IFBLK \<equiv> (0x6000 :: 16 word)"
abbreviation (input) "S_IFREG \<equiv> (0x8000 :: 16 word)"

definition S_ISREG :: "16 word \<Rightarrow> bool" where "S_ISREG m \<longleftrightarrow> m AND S_IFMT = S_IFREG"
definition S_ISDIR :: "16 word \<Rightarrow> bool" where "S_ISDIR m \<longleftrightarrow> m AND S_IFMT = S_IFDIR"
definition S_ISCHR :: "16 word \<Rightarrow> bool" where "S_ISCHR m \<longleftrightarrow> m AND S_IFMT = S_IFCHR"
definition S_ISBLK :: "16 word \<Rightarrow> bool" where "S_ISBLK m \<longleftrightarrow> m AND S_IFMT = S_IFBLK"
definition S_ISFIFO :: "16 word \<Rightarrow> bool" where "S_ISFIFO m \<longleftrightarrow> m AND S_IFMT = S_IFIFO"

abbreviation (input) "R_OK \<equiv> (4 :: 32 word)"
abbreviation (input) "W_OK \<equiv> (2 :: 32 word)"
abbreviation (input) "X_OK \<equiv> (1 :: 32 word)"

abbreviation (input) "O_RDONLY \<equiv> (0 :: 32 word)"
abbreviation (input) "O_WRONLY \<equiv> (1 :: 32 word)"
abbreviation (input) "O_RDWR \<equiv> (2 :: 32 word)"
abbreviation (input) "O_CREAT \<equiv> (0x40 :: 32 word)"
abbreviation (input) "O_EXCL \<equiv> (0x80 :: 32 word)"
abbreviation (input) "O_TRUNC \<equiv> (0x200 :: 32 word)"
abbreviation (input) "O_APPEND \<equiv> (0x400 :: 32 word)"
abbreviation (input) "O_NDELAY \<equiv> (0x800 :: 32 word)"

definition major :: "nat \<Rightarrow> nat" where "major dev = dev div 256"
definition minor :: "nat \<Rightarrow> nat" where "minor dev = dev mod 256"
definition makedev :: "nat \<Rightarrow> nat \<Rightarrow> nat" where "makedev mj mn = mj * 256 + mn"

section \<open>Structs\<close>

record blk_buffer =
  b_refcnt :: nat
  b_valid :: bool
  b_dirty :: bool
  b_dev :: nat
  b_blk :: nat
  b_data :: "byte list"

text \<open>
  The super block. On the disk and in memory it is ten 32-bit words; \<open>nfree\<close> is
  \<open>-1\<close>, that is \<open>2 ^ 32 - 1\<close>, while the free blocks have not been counted.
\<close>

record super =
  s_mounted :: nat
  s_ro :: nat
  s_dev :: nat
  s_bitmap :: nat
  s_dblock :: nat
  s_nblocks :: nat
  s_freeblk :: nat
  s_nfree :: nat
  s_root :: nat
  s_time :: nat

abbreviation (input) "UNCOUNTED \<equiv> (0xFFFFFFFF :: nat)"

record disk_inode =
  bmap0 :: "nat list"
  bmap1 :: "nat list"
  bmap2 :: "nat list"
  d_atime :: "32 word"
  d_mtime :: "32 word"
  d_ctime :: "32 word"
  d_size :: "32 word"
  d_blocks :: "16 word"
  d_uid :: "16 word"
  d_gid :: "16 word"
  d_rdev :: "16 word"
  d_mode :: "16 word"
  d_nlink :: "16 word"

record inode =
  i_ino :: nat
  i_dirty :: nat
  i_refcnt :: int
  i_sb :: nat
  i_mnt_dir :: "nat option"
  i_mnt_root :: "nat option"
  i_d :: disk_inode
  pipe_wrp :: nat
  pipe_rdp :: nat
  pipe_buf :: nat
  pipe_datlen :: nat
  pipe_readers :: int
  pipe_writers :: int

text \<open>The functions a \<open>struct file\<close> can point to; \<open>None\<close> is the null pointer.\<close>

datatype rw_op = Reg_rw | Blk_rw | Chr_rw | Pipe_rw

datatype ioctl_op = Blk_ioctl | Chr_ioctl

record kfile =
  f_read :: "rw_op option"
  f_write :: "rw_op option"
  f_ioctl :: "ioctl_op option"
  f_ino :: "nat option"
  f_refcnt :: int
  f_flags :: "32 word"
  f_pos :: "32 word"

record fd =
  fd_file :: "nat option"
  fd_cloexec :: int

record systime =
  st_time :: "32 word"
  st_ticks :: int

record tms =
  tms_utime :: "32 word"
  tms_stime :: "32 word"
  tms_cutime :: "32 word"
  tms_cstime :: "32 word"

text \<open>
  A process, without the saved kernel context (\<open>kstate\<close>) and the saved state of the
  floating point unit (\<open>fpust\<close>), which only assembly code looks into.
\<close>

record process =
  p_pid :: int
  p_psid :: int
  p_euid :: "16 word"
  p_ruid :: "16 word"
  p_egid :: "16 word"
  p_rgid :: "16 word"
  p_exit_status :: "16 word"
  p_exited :: bool
  p_time_slice :: int
  p_comm :: "byte list"
  p_parent :: nat
  p_alarm :: systime
  p_times :: tms
  p_fslimit :: nat
  p_umask :: "32 word"
  p_linkmode :: nat
  p_namlen :: nat
  p_tty :: "nat option"
  p_cwd :: nat
  p_root :: nat
  p_fd :: "nat \<Rightarrow> fd"
  p_sig_proc :: "nat \<Rightarrow> 32 word"
  p_sig_ign :: "32 word"
  p_sig_usr :: "32 word"
  p_sig :: "32 word"
  p_sigret :: nat
  p_sigret1 :: nat
  p_errp :: nat
  p_kstk :: nat
  p_size :: nat
  p_ptab :: nat
  p_brk :: nat
  p_stk :: nat
  p_astk :: nat
  p_base :: nat
  p_end :: nat
  p_compat :: nat
  p_cpname :: "byte list option"

text \<open>The registers of the user program, as they lie on the kernel stack.\<close>

record intr_regs =
  r_gs :: nat
  r_fs :: nat
  r_es :: nat
  r_ds :: nat
  r_ebp :: nat
  r_edi :: nat
  r_esi :: nat
  r_edx :: nat
  r_ecx :: nat
  r_ebx :: nat
  r_eax :: nat
  r_eip :: nat
  r_cs :: nat
  r_eflags :: nat
  r_esp :: nat
  r_ss :: nat

text \<open>
  The block devices. A driver reads and writes \<open>disk\<close>: the sectors of every device
  and a number standing for the state of the controllers and media, through which a
  driver may fail at one time and not at another. A driver function is null or given;
  a read stores its data also when it fails.
\<close>

record disk =
  sectors :: "nat \<Rightarrow> nat \<Rightarrow> byte list"
  hw :: nat

record blk_driver =
  bd_read :: "(nat \<Rightarrow> nat \<Rightarrow> disk \<Rightarrow> errno option \<times> byte list \<times> disk) option"
  bd_write :: "(nat \<Rightarrow> nat \<Rightarrow> byte list \<Rightarrow> disk \<Rightarrow> errno option \<times> disk) option"

type_synonym bref = "nat \<times> nat" \<comment> \<open>a buffer: its row and its slot in \<open>blk_buf\<close>\<close>

record kst =
  bufs :: "bref \<Rightarrow> blk_buffer"
  blk_nind :: nat
  disk :: disk
  blk_driver :: "nat \<Rightarrow> blk_driver"
  supers :: "nat \<Rightarrow> super"
  freedirt :: "nat \<Rightarrow> bool list option"
  freemap :: "nat \<Rightarrow> byte list option"
  inodes :: "nat \<Rightarrow> inode"
  files :: "nat \<Rightarrow> kfile"
  procs :: "nat \<Rightarrow> process"
  pact :: "nat list"
  curr :: nat
  phys :: "nat \<Rightarrow> byte"
  ptmem :: "nat \<Rightarrow> nat \<Rightarrow> nat"
  pg_flist :: "nat list"
  pg_dir :: "nat \<Rightarrow> nat"
  pg_tab :: "nat \<Rightarrow> nat"
  itab :: "nat \<Rightarrow> nat"
  heap_bp :: nat
  k_time :: "32 word"
  k_ticks :: nat
  boottime :: "32 word"
  dosync :: bool
  nidle :: int
  resched :: bool
  sched_next :: nat
  nextpid :: int
  uregs :: intr_regs
  kmalloc :: "nat \<Rightarrow> bool" \<comment> \<open>whether the kernel heap can satisfy a request of this size\<close>

section \<open>Zeroed memory\<close>

text \<open>
  C's static objects are zero before they are assigned. These are the zeroed structs, and
  the kernel's variables as they are before \<open>main\<close> runs, with a given disk and drivers.
\<close>

definition zero_buf :: blk_buffer where
  "zero_buf = \<lparr>b_refcnt = 0, b_valid = False, b_dirty = False, b_dev = 0, b_blk = 0,
     b_data = replicate BLK_SIZE 0\<rparr>"

definition zero_super :: super where
  "zero_super = \<lparr>s_mounted = 0, s_ro = 0, s_dev = 0, s_bitmap = 0, s_dblock = 0, s_nblocks = 0,
     s_freeblk = 0, s_nfree = 0, s_root = 0, s_time = 0\<rparr>"

definition zero_dinode :: disk_inode where
  "zero_dinode = \<lparr>bmap0 = replicate BMAP0_SIZE 0, bmap1 = replicate BMAP1_SIZE 0,
     bmap2 = replicate BMAP2_SIZE 0, d_atime = 0, d_mtime = 0, d_ctime = 0, d_size = 0,
     d_blocks = 0, d_uid = 0, d_gid = 0, d_rdev = 0, d_mode = 0, d_nlink = 0\<rparr>"

definition zero_inode :: inode where
  "zero_inode = \<lparr>i_ino = 0, i_dirty = 0, i_refcnt = 0, i_sb = 0, i_mnt_dir = None,
     i_mnt_root = None, i_d = zero_dinode, pipe_wrp = 0, pipe_rdp = 0, pipe_buf = 0,
     pipe_datlen = 0, pipe_readers = 0, pipe_writers = 0\<rparr>"

definition zero_file :: kfile where
  "zero_file = \<lparr>f_read = None, f_write = None, f_ioctl = None, f_ino = None, f_refcnt = 0,
     f_flags = 0, f_pos = 0\<rparr>"

definition zero_process :: process where
  "zero_process = \<lparr>p_pid = 0, p_psid = 0, p_euid = 0, p_ruid = 0, p_egid = 0, p_rgid = 0,
     p_exit_status = 0, p_exited = False, p_time_slice = 0, p_comm = replicate (NAME_MAX + 1) 0, p_parent = 0,
     p_alarm = \<lparr>st_time = 0, st_ticks = 0\<rparr>,
     p_times = \<lparr>tms_utime = 0, tms_stime = 0, tms_cutime = 0, tms_cstime = 0\<rparr>, p_fslimit = 0, p_umask = 0,
     p_linkmode = 0, p_namlen = 0, p_tty = None, p_cwd = 0, p_root = 0,
     p_fd = (\<lambda>_. \<lparr>fd_file = None, fd_cloexec = 0\<rparr>), p_sig_proc = (\<lambda>_. 0), p_sig_ign = 0,
     p_sig_usr = 0, p_sig = 0, p_sigret = 0, p_sigret1 = 0, p_errp = 0, p_kstk = 0, p_size = 0, p_ptab = 0, p_brk = 0,
     p_stk = 0, p_astk = 0, p_base = 0, p_end = 0,
     p_compat = 0, p_cpname = None\<rparr>"

definition zero_regs :: intr_regs where
  "zero_regs = \<lparr>r_gs = 0, r_fs = 0, r_es = 0, r_ds = 0, r_ebp = 0, r_edi = 0, r_esi = 0, r_edx = 0,
     r_ecx = 0, r_ebx = 0, r_eax = 0, r_eip = 0, r_cs = 0, r_eflags = 0, r_esp = 0, r_ss = 0\<rparr>"

definition zero_kst :: "disk \<Rightarrow> (nat \<Rightarrow> blk_driver) \<Rightarrow> kst" where
  "zero_kst dk drv = \<lparr>bufs = (\<lambda>_. zero_buf), blk_nind = 0, disk = dk, blk_driver = drv,
     supers = (\<lambda>_. zero_super), freedirt = (\<lambda>_. None), freemap = (\<lambda>_. None),
     inodes = (\<lambda>_. zero_inode), files = (\<lambda>_. zero_file), procs = (\<lambda>_. zero_process),
     pact = [], curr = 0, phys = (\<lambda>_. 0), ptmem = (\<lambda>_ _. 0), pg_flist = [],
     pg_dir = (\<lambda>_. 0), pg_tab = (\<lambda>_. 0), itab = (\<lambda>_. 0), heap_bp = HEAP_BASE,
     k_time = 0, k_ticks = 0, boottime = 0, dosync = False, nidle = 0,
     resched = False, sched_next = 0, nextpid = 1, uregs = zero_regs, kmalloc = (\<lambda>_. True)\<rparr>"

text \<open>A disk of zeroes without a driver, for examples that do no input or output.\<close>

definition no_disk :: disk where
  "no_disk = \<lparr>sectors = (\<lambda>_ _. replicate BLK_SIZE 0), hw = 0\<rparr>"

definition no_driver :: "nat \<Rightarrow> blk_driver" where
  "no_driver = (\<lambda>_. \<lparr>bd_read = None, bd_write = None\<rparr>)"

section \<open>Updates in place\<close>

definition upd_buf :: "bref \<Rightarrow> (blk_buffer \<Rightarrow> blk_buffer) \<Rightarrow> kst \<Rightarrow> kst" where
  "upd_buf b f s = s\<lparr>bufs := (bufs s)(b := f (bufs s b))\<rparr>"

definition upd_super :: "nat \<Rightarrow> (super \<Rightarrow> super) \<Rightarrow> kst \<Rightarrow> kst" where
  "upd_super i f s = s\<lparr>supers := (supers s)(i := f (supers s i))\<rparr>"

definition upd_inode :: "nat \<Rightarrow> (inode \<Rightarrow> inode) \<Rightarrow> kst \<Rightarrow> kst" where
  "upd_inode i f s = s\<lparr>inodes := (inodes s)(i := f (inodes s i))\<rparr>"

definition upd_d :: "nat \<Rightarrow> (disk_inode \<Rightarrow> disk_inode) \<Rightarrow> kst \<Rightarrow> kst" where
  "upd_d i f = upd_inode i (\<lambda>ip. ip\<lparr>i_d := f (i_d ip)\<rparr>)"

definition upd_file :: "nat \<Rightarrow> (kfile \<Rightarrow> kfile) \<Rightarrow> kst \<Rightarrow> kst" where
  "upd_file i f s = s\<lparr>files := (files s)(i := f (files s i))\<rparr>"

definition upd_proc :: "nat \<Rightarrow> (process \<Rightarrow> process) \<Rightarrow> kst \<Rightarrow> kst" where
  "upd_proc i f s = s\<lparr>procs := (procs s)(i := f (procs s i))\<rparr>"

definition upd_curr :: "(process \<Rightarrow> process) \<Rightarrow> kst \<Rightarrow> kst" where
  "upd_curr f s = upd_proc (curr s) f s"

definition upd_fd :: "nat \<Rightarrow> (fd \<Rightarrow> fd) \<Rightarrow> kst \<Rightarrow> kst" where
  "upd_fd n f = upd_curr (\<lambda>p. p\<lparr>p_fd := (p_fd p)(n := f (p_fd p n))\<rparr>)"

abbreviation cur :: "kst \<Rightarrow> process" where
  "cur s \<equiv> procs s (curr s)"

abbreviation i_dev :: "kst \<Rightarrow> nat \<Rightarrow> nat" where
  "i_dev s i \<equiv> s_dev (supers s (i_sb (inodes s i)))"

lemmas upd_defs = upd_buf_def upd_super_def upd_inode_def upd_d_def upd_file_def upd_proc_def
  upd_curr_def upd_fd_def

text \<open>What an update leaves as it is.\<close>

lemma upd_buf_simps [simp]:
  "blk_nind (upd_buf b f s) = blk_nind s" "disk (upd_buf b f s) = disk s"
  "blk_driver (upd_buf b f s) = blk_driver s" "supers (upd_buf b f s) = supers s"
  "freedirt (upd_buf b f s) = freedirt s" "freemap (upd_buf b f s) = freemap s"
  "inodes (upd_buf b f s) = inodes s" "files (upd_buf b f s) = files s"
  "procs (upd_buf b f s) = procs s" "pact (upd_buf b f s) = pact s"
  "curr (upd_buf b f s) = curr s" "phys (upd_buf b f s) = phys s"
  "ptmem (upd_buf b f s) = ptmem s" "pg_flist (upd_buf b f s) = pg_flist s"
  "pg_dir (upd_buf b f s) = pg_dir s" "pg_tab (upd_buf b f s) = pg_tab s"
  "itab (upd_buf b f s) = itab s" "heap_bp (upd_buf b f s) = heap_bp s"
  "k_time (upd_buf b f s) = k_time s" "k_ticks (upd_buf b f s) = k_ticks s"
  "boottime (upd_buf b f s) = boottime s" "dosync (upd_buf b f s) = dosync s"
  "kmalloc (upd_buf b f s) = kmalloc s"
  "nidle (upd_buf b f s) = nidle s" "resched (upd_buf b f s) = resched s" "sched_next (upd_buf b f s) = sched_next s"
  "nextpid (upd_buf b f s) = nextpid s" "uregs (upd_buf b f s) = uregs s"
  "bufs (upd_buf b f s) = (bufs s)(b := f (bufs s b))"
  by (simp_all add: upd_defs)

lemma upd_super_simps [simp]:
  "bufs (upd_super i f s) = bufs s" "blk_nind (upd_super i f s) = blk_nind s"
  "disk (upd_super i f s) = disk s" "blk_driver (upd_super i f s) = blk_driver s"
  "freedirt (upd_super i f s) = freedirt s" "freemap (upd_super i f s) = freemap s"
  "inodes (upd_super i f s) = inodes s" "files (upd_super i f s) = files s"
  "procs (upd_super i f s) = procs s" "pact (upd_super i f s) = pact s"
  "curr (upd_super i f s) = curr s" "phys (upd_super i f s) = phys s"
  "ptmem (upd_super i f s) = ptmem s" "pg_flist (upd_super i f s) = pg_flist s"
  "pg_dir (upd_super i f s) = pg_dir s" "pg_tab (upd_super i f s) = pg_tab s"
  "itab (upd_super i f s) = itab s" "heap_bp (upd_super i f s) = heap_bp s"
  "k_time (upd_super i f s) = k_time s" "k_ticks (upd_super i f s) = k_ticks s"
  "boottime (upd_super i f s) = boottime s" "dosync (upd_super i f s) = dosync s"
  "kmalloc (upd_super i f s) = kmalloc s"
  "nidle (upd_super i f s) = nidle s" "resched (upd_super i f s) = resched s" "sched_next (upd_super i f s) = sched_next s"
  "nextpid (upd_super i f s) = nextpid s" "uregs (upd_super i f s) = uregs s"
  "supers (upd_super i f s) = (supers s)(i := f (supers s i))"
  by (simp_all add: upd_defs)

lemma upd_inode_simps [simp]:
  "bufs (upd_inode i f s) = bufs s" "blk_nind (upd_inode i f s) = blk_nind s"
  "disk (upd_inode i f s) = disk s" "blk_driver (upd_inode i f s) = blk_driver s"
  "supers (upd_inode i f s) = supers s" "freedirt (upd_inode i f s) = freedirt s"
  "freemap (upd_inode i f s) = freemap s" "files (upd_inode i f s) = files s"
  "procs (upd_inode i f s) = procs s" "pact (upd_inode i f s) = pact s"
  "curr (upd_inode i f s) = curr s" "phys (upd_inode i f s) = phys s"
  "ptmem (upd_inode i f s) = ptmem s" "pg_flist (upd_inode i f s) = pg_flist s"
  "pg_dir (upd_inode i f s) = pg_dir s" "pg_tab (upd_inode i f s) = pg_tab s"
  "itab (upd_inode i f s) = itab s" "heap_bp (upd_inode i f s) = heap_bp s"
  "k_time (upd_inode i f s) = k_time s" "k_ticks (upd_inode i f s) = k_ticks s"
  "boottime (upd_inode i f s) = boottime s" "dosync (upd_inode i f s) = dosync s"
  "kmalloc (upd_inode i f s) = kmalloc s"
  "nidle (upd_inode i f s) = nidle s" "resched (upd_inode i f s) = resched s" "sched_next (upd_inode i f s) = sched_next s"
  "nextpid (upd_inode i f s) = nextpid s" "uregs (upd_inode i f s) = uregs s"
  "inodes (upd_inode i f s) = (inodes s)(i := f (inodes s i))"
  by (simp_all add: upd_defs)

lemma upd_d_simps [simp]:
  "bufs (upd_d i f s) = bufs s" "blk_nind (upd_d i f s) = blk_nind s"
  "disk (upd_d i f s) = disk s" "blk_driver (upd_d i f s) = blk_driver s"
  "supers (upd_d i f s) = supers s" "freedirt (upd_d i f s) = freedirt s"
  "freemap (upd_d i f s) = freemap s" "files (upd_d i f s) = files s"
  "procs (upd_d i f s) = procs s" "pact (upd_d i f s) = pact s" "curr (upd_d i f s) = curr s"
  "phys (upd_d i f s) = phys s" "ptmem (upd_d i f s) = ptmem s"
  "pg_flist (upd_d i f s) = pg_flist s" "pg_dir (upd_d i f s) = pg_dir s"
  "pg_tab (upd_d i f s) = pg_tab s" "itab (upd_d i f s) = itab s"
  "heap_bp (upd_d i f s) = heap_bp s" "k_time (upd_d i f s) = k_time s"
  "k_ticks (upd_d i f s) = k_ticks s" "boottime (upd_d i f s) = boottime s"
  "dosync (upd_d i f s) = dosync s" "kmalloc (upd_d i f s) = kmalloc s"
  "nidle (upd_d i f s) = nidle s" "resched (upd_d i f s) = resched s" "sched_next (upd_d i f s) = sched_next s"
  "nextpid (upd_d i f s) = nextpid s" "uregs (upd_d i f s) = uregs s"
  "inodes (upd_d i f s) = (inodes s)(i := (inodes s i)\<lparr>i_d := f (i_d (inodes s i))\<rparr>)"
  by (simp_all add: upd_defs)

lemma upd_file_simps [simp]:
  "bufs (upd_file i f s) = bufs s" "blk_nind (upd_file i f s) = blk_nind s"
  "disk (upd_file i f s) = disk s" "blk_driver (upd_file i f s) = blk_driver s"
  "supers (upd_file i f s) = supers s" "freedirt (upd_file i f s) = freedirt s"
  "freemap (upd_file i f s) = freemap s" "inodes (upd_file i f s) = inodes s"
  "procs (upd_file i f s) = procs s" "pact (upd_file i f s) = pact s"
  "curr (upd_file i f s) = curr s" "phys (upd_file i f s) = phys s"
  "ptmem (upd_file i f s) = ptmem s" "pg_flist (upd_file i f s) = pg_flist s"
  "pg_dir (upd_file i f s) = pg_dir s" "pg_tab (upd_file i f s) = pg_tab s"
  "itab (upd_file i f s) = itab s" "heap_bp (upd_file i f s) = heap_bp s"
  "k_time (upd_file i f s) = k_time s" "k_ticks (upd_file i f s) = k_ticks s"
  "boottime (upd_file i f s) = boottime s" "dosync (upd_file i f s) = dosync s"
  "kmalloc (upd_file i f s) = kmalloc s"
  "nidle (upd_file i f s) = nidle s" "resched (upd_file i f s) = resched s" "sched_next (upd_file i f s) = sched_next s"
  "nextpid (upd_file i f s) = nextpid s" "uregs (upd_file i f s) = uregs s"
  "files (upd_file i f s) = (files s)(i := f (files s i))"
  by (simp_all add: upd_defs)

lemma upd_proc_simps [simp]:
  "bufs (upd_proc i f s) = bufs s" "blk_nind (upd_proc i f s) = blk_nind s"
  "disk (upd_proc i f s) = disk s" "blk_driver (upd_proc i f s) = blk_driver s"
  "supers (upd_proc i f s) = supers s" "freedirt (upd_proc i f s) = freedirt s"
  "freemap (upd_proc i f s) = freemap s" "inodes (upd_proc i f s) = inodes s"
  "files (upd_proc i f s) = files s" "pact (upd_proc i f s) = pact s"
  "curr (upd_proc i f s) = curr s" "phys (upd_proc i f s) = phys s"
  "ptmem (upd_proc i f s) = ptmem s" "pg_flist (upd_proc i f s) = pg_flist s"
  "pg_dir (upd_proc i f s) = pg_dir s" "pg_tab (upd_proc i f s) = pg_tab s"
  "itab (upd_proc i f s) = itab s" "heap_bp (upd_proc i f s) = heap_bp s"
  "k_time (upd_proc i f s) = k_time s" "k_ticks (upd_proc i f s) = k_ticks s"
  "boottime (upd_proc i f s) = boottime s" "dosync (upd_proc i f s) = dosync s"
  "kmalloc (upd_proc i f s) = kmalloc s"
  "nidle (upd_proc i f s) = nidle s" "resched (upd_proc i f s) = resched s" "sched_next (upd_proc i f s) = sched_next s"
  "nextpid (upd_proc i f s) = nextpid s" "uregs (upd_proc i f s) = uregs s"
  "procs (upd_proc i f s) = (procs s)(i := f (procs s i))"
  by (simp_all add: upd_defs)

lemma upd_curr_simps [simp]:
  "bufs (upd_curr f s) = bufs s" "blk_nind (upd_curr f s) = blk_nind s"
  "disk (upd_curr f s) = disk s" "blk_driver (upd_curr f s) = blk_driver s"
  "supers (upd_curr f s) = supers s" "freedirt (upd_curr f s) = freedirt s"
  "freemap (upd_curr f s) = freemap s" "inodes (upd_curr f s) = inodes s"
  "files (upd_curr f s) = files s" "pact (upd_curr f s) = pact s" "curr (upd_curr f s) = curr s"
  "phys (upd_curr f s) = phys s" "ptmem (upd_curr f s) = ptmem s"
  "pg_flist (upd_curr f s) = pg_flist s" "pg_dir (upd_curr f s) = pg_dir s"
  "pg_tab (upd_curr f s) = pg_tab s" "itab (upd_curr f s) = itab s"
  "heap_bp (upd_curr f s) = heap_bp s" "k_time (upd_curr f s) = k_time s"
  "k_ticks (upd_curr f s) = k_ticks s" "boottime (upd_curr f s) = boottime s"
  "dosync (upd_curr f s) = dosync s" "kmalloc (upd_curr f s) = kmalloc s"
  "nidle (upd_curr f s) = nidle s" "resched (upd_curr f s) = resched s" "sched_next (upd_curr f s) = sched_next s"
  "nextpid (upd_curr f s) = nextpid s" "uregs (upd_curr f s) = uregs s"
  "procs (upd_curr f s) = (procs s)(curr s := f (cur s))"
  by (simp_all add: upd_defs)

lemma upd_fd_simps [simp]:
  "bufs (upd_fd i f s) = bufs s" "blk_nind (upd_fd i f s) = blk_nind s"
  "disk (upd_fd i f s) = disk s" "blk_driver (upd_fd i f s) = blk_driver s"
  "supers (upd_fd i f s) = supers s" "freedirt (upd_fd i f s) = freedirt s"
  "freemap (upd_fd i f s) = freemap s" "inodes (upd_fd i f s) = inodes s"
  "files (upd_fd i f s) = files s" "pact (upd_fd i f s) = pact s" "curr (upd_fd i f s) = curr s"
  "phys (upd_fd i f s) = phys s" "ptmem (upd_fd i f s) = ptmem s"
  "pg_flist (upd_fd i f s) = pg_flist s" "pg_dir (upd_fd i f s) = pg_dir s"
  "pg_tab (upd_fd i f s) = pg_tab s" "itab (upd_fd i f s) = itab s"
  "heap_bp (upd_fd i f s) = heap_bp s" "k_time (upd_fd i f s) = k_time s"
  "k_ticks (upd_fd i f s) = k_ticks s" "boottime (upd_fd i f s) = boottime s"
  "dosync (upd_fd i f s) = dosync s" "kmalloc (upd_fd i f s) = kmalloc s"
  "nidle (upd_fd i f s) = nidle s" "resched (upd_fd i f s) = resched s" "sched_next (upd_fd i f s) = sched_next s"
  "nextpid (upd_fd i f s) = nextpid s" "uregs (upd_fd i f s) = uregs s"
  "procs (upd_fd i f s) = (procs s)(curr s := (cur s)\<lparr>p_fd := (p_fd (cur s))(i := f (p_fd (cur s) i))\<rparr>)"
  by (simp_all add: upd_defs)

section \<open>Layout of the super block and of the inode on disk\<close>

text \<open>
  The code copies a block into the struct with \<open>memcpy\<close> and back. These functions are
  the layout of the two structs on the 386.
\<close>

definition decode_super :: "byte list \<Rightarrow> super" where
  "decode_super b =
     \<lparr>s_mounted = rd32 b 0, s_ro = rd32 b 4, s_dev = rd32 b 8, s_bitmap = rd32 b 12,
      s_dblock = rd32 b 16, s_nblocks = rd32 b 20, s_freeblk = rd32 b 24, s_nfree = rd32 b 28,
      s_root = rd32 b 32, s_time = rd32 b 36\<rparr>"

definition encode_super :: "super \<Rightarrow> byte list" where
  "encode_super sb = le32s
     [s_mounted sb, s_ro sb, s_dev sb, s_bitmap sb, s_dblock sb, s_nblocks sb, s_freeblk sb,
      s_nfree sb, s_root sb, s_time sb]"

definition decode_dinode :: "byte list \<Rightarrow> disk_inode" where
  "decode_dinode b =
     \<lparr>bmap0 = rd32s b 0 64, bmap1 = rd32s b 256 32, bmap2 = rd32s b 384 25,
      d_atime = of_nat (rd32 b 484), d_mtime = of_nat (rd32 b 488), d_ctime = of_nat (rd32 b 492),
      d_size = of_nat (rd32 b 496),
      d_blocks = of_nat (rd16 b 500), d_uid = of_nat (rd16 b 502), d_gid = of_nat (rd16 b 504),
      d_rdev = of_nat (rd16 b 506), d_mode = of_nat (rd16 b 508), d_nlink = of_nat (rd16 b 510)\<rparr>"

definition encode_dinode :: "disk_inode \<Rightarrow> byte list" where
  "encode_dinode d =
     le32s (bmap0 d @ bmap1 d @ bmap2 d
       @ [unat (d_atime d), unat (d_mtime d), unat (d_ctime d), unat (d_size d)])
     @ le16 (unat (d_blocks d)) @ le16 (unat (d_uid d)) @ le16 (unat (d_gid d))
     @ le16 (unat (d_rdev d)) @ le16 (unat (d_mode d)) @ le16 (unat (d_nlink d))"

definition wf_blks :: "nat \<Rightarrow> nat list \<Rightarrow> bool" where
  "wf_blks n bs \<longleftrightarrow> length bs = n \<and> (\<forall>b \<in> set bs. b < 2 ^ 32)"

definition wf_dinode :: "disk_inode \<Rightarrow> bool" where
  "wf_dinode d \<longleftrightarrow> wf_blks BMAP0_SIZE (bmap0 d) \<and> wf_blks BMAP1_SIZE (bmap1 d) \<and> wf_blks BMAP2_SIZE (bmap2 d)"

definition wf_super :: "super \<Rightarrow> bool" where
  "wf_super sb \<longleftrightarrow> (\<forall>v \<in> {s_mounted sb, s_ro sb, s_dev sb, s_bitmap sb, s_dblock sb, s_nblocks sb,
     s_freeblk sb, s_nfree sb, s_root sb, s_time sb}. v < 2 ^ 32)"

lemma length_encode_dinode [simp]: "wf_dinode d \<Longrightarrow> length (encode_dinode d) = BLK_SIZE"
  by (simp add: encode_dinode_def wf_dinode_def wf_blks_def)

lemma length_encode_super [simp]: "length (encode_super sb) = 40"
  by (simp add: encode_super_def)

lemma wf_decode_dinode [simp]: "wf_dinode (decode_dinode b)"
  using rd32_less by (auto simp: wf_dinode_def wf_blks_def decode_dinode_def rd32s_def)

lemma wf_decode_super [simp]: "wf_super (decode_super b)"
  using rd32_less by (auto simp: wf_super_def decode_super_def)

lemma unat16_less: "unat (w :: 16 word) < 65536"
  using unsigned_less [of w] by simp

lemma unat32_less: "unat (w :: 32 word) < 4294967296"
  using unsigned_less [of w] by simp

lemma decode_encode_dinode_at: "wf_dinode d \<Longrightarrow> decode_dinode (encode_dinode d @ ys) = d"
proof -
  assume wf: "wf_dinode d"
  then have len: "length (bmap0 d) = 64" "length (bmap1 d) = 32" "length (bmap2 d) = 25"
    and small: "\<forall>v \<in> set (bmap0 d). v < 2 ^ 32" "\<forall>v \<in> set (bmap1 d). v < 2 ^ 32"
      "\<forall>v \<in> set (bmap2 d). v < 2 ^ 32"
    by (simp_all add: wf_dinode_def wf_blks_def)
  let ?t = "[unat (d_atime d), unat (d_mtime d), unat (d_ctime d), unat (d_size d)]"
  let ?w = "bmap0 d @ bmap1 d @ bmap2 d @ ?t"
  have maps: "rd32s (le32s ?w @ zs) 0 64 = bmap0 d" "rd32s (le32s ?w @ zs) 256 32 = bmap1 d"
    "rd32s (le32s ?w @ zs) 384 25 = bmap2 d" for zs
    using rd32s_le32s_at [of 0 "[]" 64 "bmap0 d" "bmap1 d @ bmap2 d @ ?t" zs]
      rd32s_le32s_at [of 256 "bmap0 d" 32 "bmap1 d" "bmap2 d @ ?t" zs]
      rd32s_le32s_at [of 384 "bmap0 d @ bmap1 d" 25 "bmap2 d" "?t" zs] len small
    by simp_all
  have words: "rd32 (le32s ?w @ zs) 484 = unat (d_atime d)" "rd32 (le32s ?w @ zs) 488 = unat (d_mtime d)"
    "rd32 (le32s ?w @ zs) 492 = unat (d_ctime d)" "rd32 (le32s ?w @ zs) 496 = unat (d_size d)" for zs
    using rd32_le32s_at [of 121 484 ?w zs] rd32_le32s_at [of 122 488 ?w zs]
      rd32_le32s_at [of 123 492 ?w zs] rd32_le32s_at [of 124 496 ?w zs] len
    by (simp_all add: nth_append unat32_less)
  have halves: "rd16 (encode_dinode d @ ys) 500 = unat (d_blocks d)" "rd16 (encode_dinode d @ ys) 502 = unat (d_uid d)"
    "rd16 (encode_dinode d @ ys) 504 = unat (d_gid d)" "rd16 (encode_dinode d @ ys) 506 = unat (d_rdev d)"
    "rd16 (encode_dinode d @ ys) 508 = unat (d_mode d)" "rd16 (encode_dinode d @ ys) 510 = unat (d_nlink d)"
    using rd16_le16s [of "le32s ?w" 500]
      rd16_le16s [of "le32s ?w @ le16 (unat (d_blocks d))" 502]
      rd16_le16s [of "le32s ?w @ le16 (unat (d_blocks d)) @ le16 (unat (d_uid d))" 504]
      rd16_le16s [of "le32s ?w @ le16 (unat (d_blocks d)) @ le16 (unat (d_uid d)) @ le16 (unat (d_gid d))" 506]
      rd16_le16s [of "le32s ?w @ le16 (unat (d_blocks d)) @ le16 (unat (d_uid d)) @ le16 (unat (d_gid d)) @ le16 (unat (d_rdev d))" 508]
      rd16_le16s [of "le32s ?w @ le16 (unat (d_blocks d)) @ le16 (unat (d_uid d)) @ le16 (unat (d_gid d)) @ le16 (unat (d_rdev d)) @ le16 (unat (d_mode d))" 510]
    by (simp_all add: encode_dinode_def len unat16_less)
  show ?thesis
    unfolding decode_dinode_def halves
    by (simp add: encode_dinode_def maps [simplified] words [simplified])
qed


lemma encode_decode_dinode: "length b = BLK_SIZE \<Longrightarrow> encode_dinode (decode_dinode b) = b"
proof -
  assume len: "length b = BLK_SIZE"
  have "rd32s b 0 125 = rd32s b 0 64 @ rd32s b 256 32 @ rd32s b 384 25
      @ [rd32 b 484, rd32 b 488, rd32 b 492, rd32 b 496]"
    using rd32s_add [of b 0 64 61] rd32s_add [of b 256 32 29] rd32s_add [of b 384 25 4]
    by (simp add: rd32s_def [of b 484] upt_rec)
  then have words: "le32s (rd32s b 0 64 @ rd32s b 256 32 @ rd32s b 384 25
      @ [rd32 b 484, rd32 b 488, rd32 b 492, rd32 b 496]) = take 500 b"
    using le32s_rd32s [of 0 125 b] len by simp
  have small: "unat (of_nat (rd32 b i) :: 32 word) = rd32 b i" for i
    using rd32_less [of b i] by (simp add: unat_of_nat)
  have small16: "unat (of_nat (rd16 b i) :: 16 word) = rd16 b i" for i
    using rd16_less [of b i] by (simp add: unat_of_nat)
  have tail: "drop 500 b = [b ! 500, b ! 501, b ! 502, b ! 503, b ! 504, b ! 505, b ! 506,
      b ! 507, b ! 508, b ! 509, b ! 510, b ! 511]"
    using len by (simp add: Cons_nth_drop_Suc [symmetric])
  show ?thesis
    using append_take_drop_id [of 500 b] 
    by (simp add: encode_dinode_def decode_dinode_def small small16 words [simplified] le16_rd16 tail)
qed

lemma decode_encode_super: "wf_super sb \<Longrightarrow> decode_super (encode_super sb @ ys) = sb"
  by (simp add: decode_super_def encode_super_def wf_super_def rd32_le32s_at [of 0 0]
    rd32_le32s_at [of 1 4] rd32_le32s_at [of 2 8] rd32_le32s_at [of 3 12] rd32_le32s_at [of 4 16]
    rd32_le32s_at [of 5 20] rd32_le32s_at [of 6 24] rd32_le32s_at [of 7 28] rd32_le32s_at [of 8 32]
    rd32_le32s_at [of 9 36])

lemma encode_decode_super: "40 \<le> length b \<Longrightarrow> encode_super (decode_super b) = take 40 b"
proof -
  assume len: "40 \<le> length b"
  have "encode_super (decode_super b) = le32s (rd32s b 0 10)"
    by (simp add: encode_super_def decode_super_def rd32s_def upt_rec)
  with len show ?thesis
    by (simp add: le32s_rd32s)
qed

text \<open>
  The disk layout of an inode loses nothing: an inode whose block maps have the
  right lengths and 32-bit entries is read back from the block it was written to, and a
  block is written back byte for byte.
\<close>

theorem dinode_codec:
  assumes "wf_dinode d" and "length b = BLK_SIZE"
  shows "decode_dinode (encode_dinode d) = d \<and> encode_dinode (decode_dinode b) = b"
  using decode_encode_dinode_at [OF assms(1), of "[]"] encode_decode_dinode [OF assms(2)] by simp

theorem dinode_codec_witness:
  "decode_dinode (encode_dinode (decode_dinode (replicate BLK_SIZE 7))) = decode_dinode (replicate BLK_SIZE 7)
     \<and> encode_dinode (decode_dinode (replicate BLK_SIZE 9)) = replicate BLK_SIZE 9"
  by (rule dinode_codec) simp_all

end
