(* ===== verification/Page.thy ===== *)
theory Page
  imports Kstate
begin

text \<open>
  The physical page allocator, \<open>kern/page.c\<close>: a stack of free page numbers, the
  functions that take and return pages, the growth of the kernel heap, and the set-up of
  the stack at boot. The interface that the rest of the kernel relies on is the locale
  \<open>page_pool\<close>, which the stack implements.
\<close>

section \<open>Operations\<close>

definition pg_alloc :: "kst \<Rightarrow> (errno + nat) \<times> kst" where
  "pg_alloc s =
     (if pg_flist s = [] then (Inl ENOMEM, s)
      else (Inr (last (pg_flist s)), s\<lparr>pg_flist := butlast (pg_flist s)\<rparr>))"

definition pg_free :: "nat \<Rightarrow> kst \<Rightarrow> kst option" where
  "pg_free pg s =
     (if pg \<noteq> 0 then
        if length (pg_flist s) \<ge> MAXPG then None
        else Some (s\<lparr>pg_flist := pg_flist s @ [pg]\<rparr>)
      else Some s)"

text \<open>The null pointer is address 0. Pages are numbered below \<open>2 ^ 20\<close>.\<close>

definition palloc :: "kst \<Rightarrow> nat \<times> kst" where
  "palloc s = (case pg_alloc s of (Inl e, s) \<Rightarrow> (0, s) | (Inr pg, s) \<Rightarrow> (pg * 4096 mod 2 ^ 32, s))"

definition zero_page :: "nat \<Rightarrow> kst \<Rightarrow> kst" where
  "zero_page p s = s\<lparr>phys := (\<lambda>a. if p \<le> a \<and> a < p + 4096 then 0 else phys s a),
                     ptmem := (ptmem s)(p := (\<lambda>_. 0))\<rparr>"

definition zpalloc :: "kst \<Rightarrow> nat \<times> kst" where
  "zpalloc s = (case palloc s of (p, s) \<Rightarrow> if p \<noteq> 0 then (p, zero_page p s) else (p, s))"

definition pfree :: "nat \<Rightarrow> kst \<Rightarrow> kst option" where
  "pfree p s = pg_free (p div 4096) s"

text \<open>
  \<open>sbrk\<close> grows the kernel heap. The loop maps the pages of the new part that are not
  mapped yet, with a page table for every 1024 of them, and stops at the first page that
  cannot be had; what it mapped before stays mapped.
\<close>

definition sbrk_dir :: "nat \<Rightarrow> kst \<Rightarrow> bool \<times> kst" where
  "sbrk_dir d s =
     (if pg_dir s d = 0 then
        case zpalloc s of (pg, s) \<Rightarrow>
          if pg = 0 then (False, s) else (True, s\<lparr>pg_dir := (pg_dir s)(d := pg OR 3)\<rparr>)
      else (True, s))"

definition sbrk_tab :: "nat \<Rightarrow> kst \<Rightarrow> bool \<times> kst" where
  "sbrk_tab i s =
     (if pg_tab s i = 0 then
        case palloc s of (pg, s) \<Rightarrow>
          if pg = 0 then (False, s) else (True, s\<lparr>pg_tab := (pg_tab s)(i := pg OR 3)\<rparr>)
      else (True, s))"

fun sbrk_map :: "nat list \<Rightarrow> kst \<Rightarrow> bool \<times> kst" where
  "sbrk_map [] s = (True, s)"
| "sbrk_map (i # is) s =
     (case sbrk_dir (i div 1024) s of
        (False, s) \<Rightarrow> (False, s)
      | (True, s) \<Rightarrow>
          (case sbrk_tab i s of
             (False, s) \<Rightarrow> (False, s)
           | (True, s) \<Rightarrow> sbrk_map is s))"

definition sbrk :: "int \<Rightarrow> kst \<Rightarrow> ((errno + nat) \<times> kst) option" where
  "sbrk incr s =
     (let bp = heap_bp s; nbp = nat ((int bp + incr) mod 2 ^ 32) in
      if nbp > HEAP_BASE + HEAP_SIZE \<or> incr > int HEAP_SIZE then Some (Inl ENOMEM, s)
      else if incr > int HEAP_SIZE then Some (Inl ENOMEM, s)
      else if incr < 0 then None
      else if incr = 0 then Some (Inr bp, s)
      else case sbrk_map [bp div 4096 ..< Suc (nbp div 4096)] s of
             (False, s) \<Rightarrow> Some (Inl ENOMEM, s)
           | (True, s) \<Rightarrow> Some (Inr (nat ((int nbp - incr) mod 2 ^ 32)), s\<lparr>heap_bp := nbp\<rparr>))"

abbreviation (input) "FIRSTPG \<equiv> (272::nat)" \<comment> \<open>\<open>256 + MAXPG / 1024\<close>\<close>

definition pg_push :: "nat list \<Rightarrow> kst \<Rightarrow> kst option" where
  "pg_push pgs s =
     (if length (pg_flist s) + length pgs \<le> MAXPG
      then Some (s\<lparr>pg_flist := pg_flist s @ pgs\<rparr>) else None)"

text \<open>
  \<open>pg_init\<close> fills the kernel's page directory and identity map and pushes the pages
  from the last of memory down to \<open>FIRSTPG\<close>, so that the lowest is handed out first.
  The page it takes at the end is never used again.
\<close>

definition pg_init :: "nat \<Rightarrow> kst \<Rightarrow> kst option" where
  "pg_init memsize s =
     (let lpg = memsize div 4096 + 256 in
      if memsize < 524288 then None
      else do {
        let lpg = (if lpg \<ge> MAXPG then MAXPG - 1 else lpg);
        let s = s\<lparr>pg_dir := (\<lambda>i. if i < MAXPG div 1024 then (ITAB_BASE + i * 4096) OR 3 else 0)\<rparr>;
        let s = s\<lparr>pg_dir := (pg_dir s)(PTAB_BASE div 2 ^ 22 := PDIR_BASE OR 3),
                  itab := (\<lambda>i. if i = 0 then 0 else if i < MAXPG then (i * 4096) OR 3 else itab s i)\<rparr>;
        s \<leftarrow> pg_push (rev [FIRSTPG ..< lpg]) s;
        (case zpalloc s of (p, s) \<Rightarrow> if p = 0 then None else Some s)
      })"

definition pg_add :: "nat \<Rightarrow> nat \<Rightarrow> kst \<Rightarrow> kst option" where
  "pg_add base sz s =
     (let b = ((base + 4095) mod 2 ^ 32) div 4096; e = ((base + sz) mod 2 ^ 32) div 4096
      in pg_push [b ..< e] s)"

section \<open>The interface: a pool of pages\<close>

text \<open>
  What the code that calls the allocator relies on: a page handed out was free and is no
  longer, a page returned is free again, and nothing is free twice.
\<close>

locale page_pool =
  fixes alloc :: "'s \<Rightarrow> (errno + nat) \<times> 's"
    and release :: "nat \<Rightarrow> 's \<Rightarrow> 's option"
    and free_pages :: "'s \<Rightarrow> nat set"
    and pool_ok :: "'s \<Rightarrow> bool"
  assumes alloc_page: "pool_ok s \<Longrightarrow> alloc s = (Inr pg, s') \<Longrightarrow>
      pg \<noteq> 0 \<and> pg \<in> free_pages s \<and> free_pages s' = free_pages s - {pg} \<and> pool_ok s'"
    and alloc_fail: "pool_ok s \<Longrightarrow> alloc s = (Inl e, s') \<Longrightarrow> e = ENOMEM \<and> free_pages s = {} \<and> s' = s"
    and release_page: "pool_ok s \<Longrightarrow> pg \<noteq> 0 \<Longrightarrow> pg < MAXPG \<Longrightarrow> pg \<notin> free_pages s \<Longrightarrow>
      \<exists>s'. release pg s = Some s' \<and> free_pages s' = insert pg (free_pages s) \<and> pool_ok s'"
begin

lemma alloc_release:
  assumes "pool_ok s" and "alloc s = (Inr pg, s')" and "pg < MAXPG"
  shows "\<exists>s''. release pg s' = Some s'' \<and> free_pages s'' = free_pages s \<and> pool_ok s''"
proof -
  from alloc_page [OF assms(1,2)] have "pg \<noteq> 0" "pg \<in> free_pages s"
    "free_pages s' = free_pages s - {pg}" "pool_ok s'" by simp_all
  moreover from this release_page [of s' pg] assms(3) obtain s'' where
    "release pg s' = Some s''" "free_pages s'' = insert pg (free_pages s')" "pool_ok s''" by auto
  ultimately show ?thesis by auto
qed

lemma alloc_twice_distinct:
  assumes "pool_ok s" and "alloc s = (Inr pg, s')" and "alloc s' = (Inr pg', s'')"
  shows "pg \<noteq> pg'"
  using alloc_page [OF assms(1,2)] alloc_page [of s' pg' s''] assms(3) by auto

lemma alloc_succeeds: "pool_ok s \<Longrightarrow> free_pages s \<noteq> {} \<Longrightarrow> \<exists>pg s'. alloc s = (Inr pg, s')"
  using alloc_fail by (metis sum.exhaust surj_pair)

end

definition pg_ok :: "kst \<Rightarrow> bool" where
  "pg_ok s \<longleftrightarrow> distinct (pg_flist s) \<and> (\<forall>pg \<in> set (pg_flist s). 0 < pg \<and> pg < MAXPG)"

abbreviation free_pgs :: "kst \<Rightarrow> nat set" where
  "free_pgs s \<equiv> set (pg_flist s)"

lemma pg_ok_length:
  assumes "pg_ok s" and "pg \<notin> free_pgs s" and "pg < MAXPG"
  shows "length (pg_flist s) < MAXPG"
proof -
  from assms have "free_pgs s \<subseteq> {..<MAXPG} - {pg}"
    by (auto simp: pg_ok_def)
  then have "card (free_pgs s) \<le> card ({..<MAXPG} - {pg})"
    by (intro card_mono) simp_all
  with assms show ?thesis
    by (simp add: pg_ok_def distinct_card)
qed

lemma pg_ok_last:
  assumes "pg_ok s" and "pg_flist s \<noteq> []"
  shows "last (pg_flist s) \<in> free_pgs s" "set (butlast (pg_flist s)) = free_pgs s - {last (pg_flist s)}"
    "distinct (butlast (pg_flist s))"
proof -
  from assms(2) have "pg_flist s = butlast (pg_flist s) @ [last (pg_flist s)]" by simp
  with assms(1) show "set (butlast (pg_flist s)) = free_pgs s - {last (pg_flist s)}"
    unfolding pg_ok_def by (metis Diff_insert_absorb Un_insert_right distinct_append distinct.simps(2)
      disjoint_insert(1) list.simps(15) set_append sup_bot.right_neutral list.set(1))
  from assms show "last (pg_flist s) \<in> free_pgs s" "distinct (butlast (pg_flist s))"
    by (simp_all add: pg_ok_def distinct_butlast)
qed

interpretation pages: page_pool pg_alloc pg_free free_pgs pg_ok
proof unfold_locales
  fix s s' pg
  assume "pg_ok s" "pg_alloc s = (Inr pg, s')"
  then have ne: "pg_flist s \<noteq> []" "pg = last (pg_flist s)" "s' = s\<lparr>pg_flist := butlast (pg_flist s)\<rparr>"
    by (auto simp: pg_alloc_def split: if_splits)
  with pg_ok_last [OF \<open>pg_ok s\<close>] \<open>pg_ok s\<close>
  show "pg \<noteq> 0 \<and> pg \<in> free_pgs s \<and> free_pgs s' = free_pgs s - {pg} \<and> pg_ok s'"
    by (auto simp: pg_ok_def)
next
  fix s s' e
  assume "pg_ok s" "pg_alloc s = (Inl e, s')"
  then show "e = ENOMEM \<and> free_pgs s = {} \<and> s' = s"
    by (simp add: pg_alloc_def split: if_splits)
next
  fix s pg
  assume "pg_ok s" "pg \<noteq> 0" "pg < MAXPG" "pg \<notin> free_pgs s"
  with pg_ok_length [of s pg]
  show "\<exists>s'. pg_free pg s = Some s' \<and> free_pgs s' = insert pg (free_pgs s) \<and> pg_ok s'"
    by (auto simp: pg_free_def pg_ok_def)
qed

section \<open>The kernel heap and the boot\<close>

lemma palloc_cases:
  assumes "pg_ok s"
  obtains "palloc s = (0, s)" "free_pgs s = {}"
  | pg fl where "palloc s = (pg * 4096, s\<lparr>pg_flist := fl\<rparr>)" "0 < pg" "pg < MAXPG" "pg \<in> free_pgs s"
      "set fl = free_pgs s - {pg}" "distinct fl"
proof (cases "pg_flist s = []")
  case True
  then show ?thesis by (intro that(1)) (simp_all add: palloc_def pg_alloc_def)
next
  case False
  let ?pg = "last (pg_flist s)"
  from False assms have small: "0 < ?pg" "?pg < MAXPG" by (simp_all add: pg_ok_def)
  with False have "palloc s = (?pg * 4096, s\<lparr>pg_flist := butlast (pg_flist s)\<rparr>)"
    by (simp add: palloc_def pg_alloc_def)
  with small pg_ok_last [OF assms False] show ?thesis by (intro that(2)) auto
qed

lemma pg_ok_flist: "pg_ok s \<Longrightarrow> set fl = free_pgs s - X \<Longrightarrow> distinct fl \<Longrightarrow> pg_ok (s\<lparr>pg_flist := fl\<rparr>)"
  by (auto simp: pg_ok_def)

lemma pg_ok_zero_page [simp]: "pg_ok (zero_page p s) = pg_ok s"
  by (simp add: pg_ok_def zero_page_def)

lemma zero_page_simps [simp]:
  "pg_flist (zero_page p s) = pg_flist s" "pg_tab (zero_page p s) = pg_tab s"
  "pg_dir (zero_page p s) = pg_dir s" "heap_bp (zero_page p s) = heap_bp s"
  by (simp_all add: zero_page_def)

lemma zpalloc_cases:
  assumes "pg_ok s"
  obtains "zpalloc s = (0, s)" "free_pgs s = {}"
  | pg fl where "zpalloc s = (pg * 4096, zero_page (pg * 4096) (s\<lparr>pg_flist := fl\<rparr>))"
      "0 < pg" "pg < MAXPG" "pg \<in> free_pgs s" "set fl = free_pgs s - {pg}" "distinct fl"
proof (rule palloc_cases [OF assms])
  assume "palloc s = (0, s)" "free_pgs s = {}"
  then show ?thesis by (intro that(1)) (simp_all add: zpalloc_def)
next
  fix pg fl
  assume "palloc s = (pg * 4096, s\<lparr>pg_flist := fl\<rparr>)" "0 < pg" "pg < MAXPG" "pg \<in> free_pgs s"
      "set fl = free_pgs s - {pg}" "distinct fl"
  then show ?thesis by (intro that(2)) (simp_all add: zpalloc_def)
qed

lemma pte_page: "(pg * 4096 OR 3) div 4096 = (pg :: nat)"
proof -
  have "drop_bit 12 (push_bit 12 pg OR 3) = drop_bit 12 (push_bit 12 pg) OR drop_bit 12 (3 :: nat)"
    by (rule drop_bit_or)
  also have "\<dots> = pg" by (simp add: drop_bit_eq_div push_bit_eq_mult)
  finally show ?thesis
    by (simp add: drop_bit_eq_div push_bit_eq_mult)
qed

lemma pte_nonzero: "(pg * 4096 OR 3) \<noteq> (0 :: nat)"
  by (simp add: or_eq_0_iff)

text \<open>Mapping pages of the heap only takes pages from the pool, and keeps what is mapped.\<close>

definition tab_grows :: "nat set \<Rightarrow> (nat \<Rightarrow> nat) \<Rightarrow> (nat \<Rightarrow> nat) \<Rightarrow> bool" where
  "tab_grows A f g \<longleftrightarrow> (\<forall>i. g i = f i \<or> f i = 0 \<and> g i \<noteq> 0 \<and> g i div 4096 \<in> A)"

lemma tab_grows_refl [simp]: "tab_grows A f f"
  by (simp add: tab_grows_def)

lemma tab_grows_trans: "tab_grows A f g \<Longrightarrow> tab_grows B g h \<Longrightarrow> A \<subseteq> C \<Longrightarrow> B \<subseteq> C \<Longrightarrow> tab_grows C f h"
  unfolding tab_grows_def by (metis subsetD)

lemma tab_grows_upd: "f i = 0 \<Longrightarrow> pg \<in> A \<Longrightarrow> tab_grows A f (f(i := pg * 4096 OR 3))"
  using pte_nonzero [of pg] by (auto simp: tab_grows_def pte_page)

lemma tab_grows_mapped: "tab_grows A f g \<Longrightarrow> f i \<noteq> 0 \<Longrightarrow> g i = f i"
  by (auto simp: tab_grows_def)

definition heap_grows :: "kst \<Rightarrow> kst \<Rightarrow> bool" where
  "heap_grows s s' \<longleftrightarrow> pg_ok s' \<and> free_pgs s' \<subseteq> free_pgs s \<and> heap_bp s' = heap_bp s
     \<and> tab_grows (free_pgs s - free_pgs s') (pg_tab s) (pg_tab s')
     \<and> tab_grows (free_pgs s - free_pgs s') (pg_dir s) (pg_dir s')"

lemma heap_grows_refl: "pg_ok s \<Longrightarrow> heap_grows s s"
  by (simp add: heap_grows_def)

lemma heap_grows_trans:
  assumes "heap_grows s t" and "heap_grows t u"
  shows "heap_grows s u"
proof -
  have sub: "free_pgs s - free_pgs t \<subseteq> free_pgs s - free_pgs u" "free_pgs t - free_pgs u \<subseteq> free_pgs s - free_pgs u"
    using assms by (auto simp: heap_grows_def)
  with assms show ?thesis
    by (auto simp: heap_grows_def intro: tab_grows_trans)
qed

lemma sbrk_dir_step:
  assumes "pg_ok s"
    and "sbrk_dir d s = (ok, s')"
  shows "heap_grows s s' \<and> (ok \<longrightarrow> pg_dir s' d \<noteq> 0) \<and> (\<not> ok \<longrightarrow> free_pgs s' = {})"
proof (cases "pg_dir s d = 0")
  case False
  with assms show ?thesis by (auto simp: sbrk_dir_def heap_grows_refl)
next
  case True
  show ?thesis
  proof (rule zpalloc_cases [OF assms(1)])
    assume "zpalloc s = (0, s)" "free_pgs s = {}"
    with True assms show ?thesis by (auto simp: sbrk_dir_def heap_grows_refl)
  next
    fix pg fl
    assume z: "zpalloc s = (pg * 4096, zero_page (pg * 4096) (s\<lparr>pg_flist := fl\<rparr>))" and pg: "0 < pg"
      "pg \<in> free_pgs s" "set fl = free_pgs s - {pg}" "distinct fl"
    have s': "ok" "s' = (zero_page (pg * 4096) (s\<lparr>pg_flist := fl\<rparr>))\<lparr>pg_dir := (pg_dir s)(d := pg * 4096 OR 3)\<rparr>"
      using True assms(2) z pg(1) by (simp_all add: sbrk_dir_def)
    have "pg_ok s'" using assms(1) pg by (auto simp: s' pg_ok_def)
    then show ?thesis
      using pg True by (simp add: s' heap_grows_def tab_grows_upd pte_nonzero Diff_Diff_Int)
  qed
qed

lemma sbrk_tab_step:
  assumes "pg_ok s"
    and "sbrk_tab d s = (ok, s')"
  shows "heap_grows s s' \<and> (ok \<longrightarrow> pg_tab s' d \<noteq> 0) \<and> (\<not> ok \<longrightarrow> free_pgs s' = {})"
proof (cases "pg_tab s d = 0")
  case False
  with assms show ?thesis by (auto simp: sbrk_tab_def heap_grows_refl)
next
  case True
  show ?thesis
  proof (rule palloc_cases [OF assms(1)])
    assume "palloc s = (0, s)" "free_pgs s = {}"
    with True assms show ?thesis by (auto simp: sbrk_tab_def heap_grows_refl)
  next
    fix pg fl
    assume z: "palloc s = (pg * 4096, s\<lparr>pg_flist := fl\<rparr>)" and pg: "0 < pg"
      "pg \<in> free_pgs s" "set fl = free_pgs s - {pg}" "distinct fl"
    have s': "ok" "s' = s\<lparr>pg_flist := fl, pg_tab := (pg_tab s)(d := pg * 4096 OR 3)\<rparr>"
      using True assms(2) z pg(1) by (simp_all add: sbrk_tab_def)
    have "pg_ok s'" using assms(1) pg by (auto simp: s' pg_ok_def)
    then show ?thesis
      using pg True by (simp add: s' heap_grows_def tab_grows_upd pte_nonzero Diff_Diff_Int)
  qed
qed

lemma sbrk_map_grows:
  "pg_ok s \<Longrightarrow> sbrk_map is s = (ok, s') \<Longrightarrow>
     heap_grows s s' \<and> (ok \<longrightarrow> (\<forall>i \<in> set is. pg_tab s' i \<noteq> 0 \<and> pg_dir s' (i div 1024) \<noteq> 0))
     \<and> (\<not> ok \<longrightarrow> free_pgs s' = {})"
proof (induction "is" arbitrary: s)
  case Nil
  then show ?case by (simp add: heap_grows_refl)
next
  case (Cons i "is")
  obtain ok1 s1 where 1: "sbrk_dir (i div 1024) s = (ok1, s1)" by (rule prod.exhaust)
  note g1 = sbrk_dir_step [OF Cons.prems(1) 1]
  then have "pg_ok s1" by (simp add: heap_grows_def)
  obtain ok2 s2 where 2: "sbrk_tab i s1 = (ok2, s2)" by (rule prod.exhaust)
  note g2 = sbrk_tab_step [OF \<open>pg_ok s1\<close> 2]
  then have "pg_ok s2" by (simp add: heap_grows_def)
  have g12: "heap_grows s s2" using g1 g2 heap_grows_trans by blast
  show ?case
  proof (cases "ok1 \<and> ok2")
    case False
    with 1 2 g1 g2 g12 Cons.prems(2) show ?thesis by (cases ok1; cases ok2) auto
  next
    case True
    then have "sbrk_map is s2 = (ok, s')" using Cons.prems(2) 1 2 by simp
    note g3 = Cons.IH [OF \<open>pg_ok s2\<close> this]
    have "pg_dir s2 (i div 1024) \<noteq> 0" "pg_tab s2 i \<noteq> 0"
      using g1 g2 True tab_grows_mapped [of _ "pg_dir s1" "pg_dir s2"] by (auto simp: heap_grows_def)
    then have "pg_dir s' (i div 1024) \<noteq> 0" "pg_tab s' i \<noteq> 0"
      using g3 tab_grows_mapped [of _ "pg_dir s2" "pg_dir s'"] tab_grows_mapped [of _ "pg_tab s2" "pg_tab s'"]
      by (auto simp: heap_grows_def)
    with g3 heap_grows_trans [OF g12] show ?thesis by auto
  qed
qed


text \<open>
  \<open>sbrk\<close> never panics on a request that is not negative. When it succeeds, the
  break moves by the request, every page from the old break to the new one is mapped through
  a page table, and whatever was mapped before still is, to the same page. When it fails, the
  break has not moved and, unless the heap would pass its end, the pool is empty. In every
  case the new mappings point to pages that were free and are free no longer.
\<close>

theorem sbrk_correct:
  assumes "pg_ok s" and "0 \<le> incr" and "heap_bp s \<le> HEAP_BASE + HEAP_SIZE" and "sbrk incr s = r"
  shows "\<exists>res s'. r = Some (res, s') \<and> pg_ok s' \<and> free_pgs s' \<subseteq> free_pgs s
    \<and> tab_grows (free_pgs s - free_pgs s') (pg_tab s) (pg_tab s')
    \<and> (case res of
         Inr a \<Rightarrow> a = heap_bp s \<and> int (heap_bp s') = int (heap_bp s) + incr
           \<and> (0 < incr \<longrightarrow> (\<forall>i. heap_bp s div 4096 \<le> i \<and> i \<le> heap_bp s' div 4096
                 \<longrightarrow> pg_tab s' i \<noteq> 0 \<and> pg_dir s' (i div 1024) \<noteq> 0))
       | Inl e \<Rightarrow> e = ENOMEM \<and> heap_bp s' = heap_bp s
           \<and> (int (heap_bp s) + incr > int (HEAP_BASE + HEAP_SIZE) \<or> incr > int HEAP_SIZE \<or> free_pgs s' = {}))"
proof (cases "incr > int HEAP_SIZE \<or> int (heap_bp s) + incr > int (HEAP_BASE + HEAP_SIZE)")
  case True
  then show ?thesis
    using assms by (auto simp: sbrk_def Let_def)
next
  case False
  define nbp where "nbp = nat (int (heap_bp s) + incr)"
  have nbp: "nat ((int (heap_bp s) + incr) mod 2 ^ 32) = nbp" "int nbp = int (heap_bp s) + incr"
    "nat ((int nbp - incr) mod 2 ^ 32) = heap_bp s" "nbp \<le> HEAP_BASE + HEAP_SIZE"
    using False assms(2,3) by (simp_all add: nbp_def nat_le_iff)
  show ?thesis
  proof (cases "incr = 0")
    case True
    with False assms nbp show ?thesis by (auto simp: sbrk_def Let_def)
  next
    case pos: False
    obtain ok s' where m: "sbrk_map [heap_bp s div 4096 ..< Suc (nbp div 4096)] s = (ok, s')"
      by (rule prod.exhaust)
    note g = sbrk_map_grows [OF assms(1) m]
    have r: "r = (if ok then Some (Inr (heap_bp s), s'\<lparr>heap_bp := nbp\<rparr>) else Some (Inl ENOMEM, s'))"
      using False pos assms(2,4) m nbp by (auto simp: sbrk_def Let_def split: bool.splits)
    from g have ok': "pg_ok s'" "free_pgs s' \<subseteq> free_pgs s" "heap_bp s' = heap_bp s"
      "tab_grows (free_pgs s - free_pgs s') (pg_tab s) (pg_tab s')" by (auto simp: heap_grows_def)
    show ?thesis
    proof (cases ok)
      case True
      have "pg_ok (s'\<lparr>heap_bp := nbp\<rparr>)" using ok' by (simp add: pg_ok_def)
      with True ok' g r nbp show ?thesis by auto
    next
      case False
      with ok' g r show ?thesis by auto
    qed
  qed
qed

theorem sbrk_correct_witness:
  "\<exists>res s'. sbrk 5000 (zero_kst no_disk no_driver\<lparr>pg_flist := [5, 6, 7, 8]\<rparr>) = Some (res, s') \<and> pg_ok s'"
proof -
  have "pg_ok (zero_kst no_disk no_driver\<lparr>pg_flist := [5, 6, 7, 8]\<rparr>)"
    by (simp add: pg_ok_def)
  from sbrk_correct [OF this, of 5000] show ?thesis
    by (auto simp: zero_kst_def)
qed

text \<open>
  \<open>pg_init\<close> panics exactly when there is less than half a megabyte of memory;
  otherwise it leaves a pool without duplicates, made of the pages above the kernel's up to
  the end of memory (at most \<open>MAXPG - 2\<close>), less the first of them.
\<close>

theorem pg_init_correct:
  assumes "pg_flist s = []"
  shows "(memsize < 524288 \<longrightarrow> pg_init memsize s = None)
    \<and> (524288 \<le> memsize \<longrightarrow> returns (pg_init memsize s) (\<lambda>s'. pg_ok s'
         \<and> free_pgs s' = {FIRSTPG <..< min (memsize div 4096 + 256) (MAXPG - 1)}))"
proof -
  define lpg where "lpg = (if memsize div 4096 + 256 \<ge> MAXPG then MAXPG - 1 else memsize div 4096 + 256)"
  have lpg: "lpg = min (memsize div 4096 + 256) (MAXPG - 1)" by (auto simp: lpg_def)
  have *: "524288 \<le> memsize \<Longrightarrow> FIRSTPG + 1 < lpg"
    using div_le_mono [of 524288 memsize 4096] by (simp add: lpg_def)
  have upt: "FIRSTPG < n \<Longrightarrow> rev [FIRSTPG ..< n] = rev [FIRSTPG + 1 ..< n] @ [FIRSTPG]" for n
    by (simp add: upt_rec)
  have "lpg \<le> MAXPG - 1" by (simp add: lpg_def)
  have init: "returns (pg_init memsize s) (\<lambda>s'. pg_ok s' \<and> free_pgs s' = {FIRSTPG <..< lpg})"
    if "524288 \<le> memsize"
  proof -
    have pg: "pg_init memsize s = do {
        let s = s\<lparr>pg_dir := (\<lambda>i. if i < MAXPG div 1024 then (ITAB_BASE + i * 4096) OR 3 else 0)\<rparr>;
        let s = s\<lparr>pg_dir := (pg_dir s)(PTAB_BASE div 2 ^ 22 := PDIR_BASE OR 3),
                  itab := (\<lambda>i. if i = 0 then 0 else if i < MAXPG then (i * 4096) OR 3 else itab s i)\<rparr>;
        s \<leftarrow> pg_push (rev [FIRSTPG + 1 ..< lpg] @ [FIRSTPG]) s;
        (case zpalloc s of (p, s) \<Rightarrow> if p = 0 then None else Some s)}"
      using that * upt [of lpg] unfolding pg_init_def Let_def lpg_def [symmetric] by simp
    show ?thesis
      using * [OF that] \<open>lpg \<le> MAXPG - 1\<close> assms
      by (auto simp: pg pg_push_def Let_def zpalloc_def palloc_def pg_alloc_def zero_page_def pg_ok_def)
  qed
  then show ?thesis
    unfolding lpg by (auto simp: pg_init_def Let_def)
qed

theorem pg_init_correct_witness:
  "returns (pg_init 1048576 (zero_kst no_disk no_driver)) (\<lambda>s'. pg_ok s' \<and> free_pgs s' = {272 <..< 512})"
proof -
  have "pg_flist (zero_kst no_disk no_driver) = []" by (simp add: zero_kst_def)
  from pg_init_correct [OF this, of 1048576] show ?thesis by simp
qed

end
