(* ===== verification/Vm.thy ===== *)
theory Vm
  imports Page
begin

unbundle bit_operations_syntax

text \<open>
  User page tables: reading and writing the entries of the current process, translation of
  a user address to physical memory, and the invariant that ties the tables to the page
  pool. \<open>kern/umem.c\<close> and \<open>kern/ualloc.c\<close> are built on it.
\<close>

section \<open>Page table entries\<close>

abbreviation ptab :: "kst \<Rightarrow> nat" where
  "ptab s \<equiv> p_ptab (cur s)"

definition pte :: "kst \<Rightarrow> nat \<Rightarrow> nat" where
  "pte s i = ptmem s (ptab s) i"

definition put_pte :: "nat \<Rightarrow> nat \<Rightarrow> nat \<Rightarrow> kst \<Rightarrow> kst" where
  "put_pte t i v s = s\<lparr>ptmem := (ptmem s)(t := (ptmem s t)(i := v))\<rparr>"

text \<open>
  The statements \<open>pt[i] = (unsigned)p | 7; curr->size++;\<close> that \<open>newregion\<close>,
  \<open>growstk\<close> and \<open>sys_brk\<close> share.
\<close>

definition map_page :: "nat \<Rightarrow> nat \<Rightarrow> kst \<Rightarrow> kst" where
  "map_page i p s = upd_curr (\<lambda>c. c\<lparr>p_size := p_size c + 1\<rparr>) (put_pte (ptab s) i (p OR 7) s)"

text \<open>
  The address the processor reaches for the user address \<open>a\<close>: the kernel adds
  \<open>USER_BASE\<close>, and the directory entry of that address is the table of the current
  process. \<open>None\<close> is a page fault, which the kernel does not survive when it happens in
  the kernel itself (\<open>exception\<close> in \<open>intr.c\<close> panics).
\<close>

definition utrans :: "kst \<Rightarrow> nat \<Rightarrow> nat option" where
  "utrans s a =
     (if a < USER_SIZE \<and> pte s (a div 4096) \<noteq> 0
      then Some (pte s (a div 4096) div 4096 * 4096 + a mod 4096) else None)"

fun ustore :: "nat \<Rightarrow> byte list \<Rightarrow> kst \<Rightarrow> kst option" where
  "ustore a [] s = Some s"
| "ustore a (b # bs) s =
     (case utrans s a of
        None \<Rightarrow> None
      | Some pa \<Rightarrow> ustore (a + 1) bs (s\<lparr>phys := (phys s)(pa := b)\<rparr>))"

fun uload :: "nat \<Rightarrow> nat \<Rightarrow> kst \<Rightarrow> byte list option" where
  "uload a 0 s = Some []"
| "uload a (Suc n) s =
     (case utrans s a of
        None \<Rightarrow> None
      | Some pa \<Rightarrow> map_option ((#) (phys s pa)) (uload (a + 1) n s))"

section \<open>Who owns a page\<close>

text \<open>
  The tables \<open>T\<close> own their own pages and the pages they map. No page has two owners, and
  no owned page is free.
\<close>

definition entries :: "nat set \<Rightarrow> kst \<Rightarrow> (nat \<times> nat) set" where
  "entries T s = {(t, i). t \<in> T \<and> i < 1024 \<and> ptmem s t i \<noteq> 0}"

definition page_at :: "kst \<Rightarrow> nat \<times> nat \<Rightarrow> nat" where
  "page_at s e = ptmem s (fst e) (snd e) div 4096"

definition vm_ok :: "nat set \<Rightarrow> kst \<Rightarrow> bool" where
  "vm_ok T s \<longleftrightarrow> pg_ok s
     \<and> (\<forall>t \<in> T. t mod 4096 = 0 \<and> t div 4096 \<notin> free_pgs s)
     \<and> (\<forall>e \<in> entries T s. 0 < page_at s e \<and> page_at s e < MAXPG \<and> page_at s e \<notin> free_pgs s
           \<and> page_at s e * 4096 \<notin> T)
     \<and> inj_on (page_at s) (entries T s)"

lemma page_round: "a mod 4096 = 0 \<Longrightarrow> a div 4096 * 4096 = (a :: nat)"
  by (rule dvd_div_mult_self) (rule mod_0_imp_dvd)

lemma pte7_page: "(pg * 4096 OR 7) div 4096 = (pg :: nat)"
proof -
  have "drop_bit 12 (push_bit 12 pg OR 7) = drop_bit 12 (push_bit 12 pg) OR drop_bit 12 (7 :: nat)"
    by (rule drop_bit_or)
  also have "\<dots> = pg" by (simp add: drop_bit_eq_div push_bit_eq_mult)
  finally show ?thesis
    by (simp add: drop_bit_eq_div push_bit_eq_mult)
qed

lemma pte7_nonzero [simp]: "(p OR 7 = (0 :: nat)) = False" "0 < p OR (7 :: nat)"
  by (simp_all add: or_eq_0_iff bot_nat_0.not_eq_extremum [symmetric])

text \<open>Mapping a page taken from the pool at an empty entry.\<close>

lemma vm_ok_map:
  assumes "vm_ok T s" and "t \<in> T" and "ptmem s t i = 0" and "i < 1024"
    and "pg \<in> free_pgs s" and "set fl = free_pgs s - {pg}" and "distinct fl"
    and s': "pg_flist s' = fl"
      "\<And>a. a \<in> T \<Longrightarrow> ptmem s' a = (if a = t then (ptmem s t)(i := pg * 4096 OR 7) else ptmem s a)"
  shows "vm_ok T s'"
proof -
  from assms(1) have ok: "pg_ok s" and T: "\<And>t. t \<in> T \<Longrightarrow> t mod 4096 = 0 \<and> t div 4096 \<notin> free_pgs s"
    and own: "\<And>e. e \<in> entries T s \<Longrightarrow> 0 < page_at s e \<and> page_at s e < MAXPG
        \<and> page_at s e \<notin> free_pgs s \<and> page_at s e * 4096 \<notin> T"
    and inj: "inj_on (page_at s) (entries T s)"
    by (auto simp: vm_ok_def)
  have notT: "pg * 4096 \<notin> T"
    using T [of "pg * 4096"] assms(5) by auto
  have mem: "ptmem s' a j = (if a = t then if j = i then pg * 4096 OR 7 else ptmem s t j else ptmem s a j)"
    if "a \<in> T" for a j
    using that notT by (auto simp: s')
  have E: "entries T s' = insert (t, i) (entries T s)"
    using assms(2-4) by (auto simp: entries_def mem split: if_splits)
  have P: "page_at s' (t, i) = pg" "\<And>e. e \<in> entries T s \<Longrightarrow> page_at s' e = page_at s e"
    using assms(2,3) by (auto simp: page_at_def mem pte7_page entries_def split: if_splits)
  have pg: "0 < pg" "pg < MAXPG" using ok assms(5) by (auto simp: pg_ok_def)
  have ne: "pg \<notin> page_at s ` entries T s" using own assms(5) by auto
  have eq: "page_at s' ` entries T s = page_at s ` entries T s" using P(2) by (intro image_cong) auto
  have inj': "inj_on (page_at s') (entries T s)"
    using inj P(2) by (simp cong: inj_on_cong)
  have "inj_on (page_at s') (insert (t, i) (entries T s))"
    using inj' ne eq P(1) by (auto simp: inj_on_insert)
  moreover have "pg_ok s'"
    using ok assms(6,7) by (auto simp: pg_ok_def s')
  ultimately show ?thesis
    using T own P pg notT assms(6) by (auto simp: vm_ok_def E s')
qed

text \<open>Returning the page of an entry and clearing the entry.\<close>

lemma vm_ok_unmap:
  assumes "vm_ok T s" and "t \<in> T" and "ptmem s t i \<noteq> 0" and "i < 1024"
  shows "\<exists>s'. pg_free (ptmem s t i div 4096) s = Some s' \<and> s' = s\<lparr>pg_flist := pg_flist s @ [ptmem s t i div 4096]\<rparr>
    \<and> vm_ok T (put_pte t i 0 s')"
proof -
  let ?pg = "ptmem s t i div 4096"
  from assms have e: "(t, i) \<in> entries T s" by (simp add: entries_def)
  from assms(1) have ok: "pg_ok s" and inj: "inj_on (page_at s) (entries T s)"
    by (simp_all add: vm_ok_def)
  from assms(1) e have pg: "0 < ?pg" "?pg < MAXPG" "?pg \<notin> free_pgs s" "?pg * 4096 \<notin> T"
    by (auto simp: vm_ok_def page_at_def)
  let ?s' = "s\<lparr>pg_flist := pg_flist s @ [?pg]\<rparr>"
  have f: "pg_free ?pg s = Some ?s'"
    using pg pg_ok_length [OF ok pg(3) pg(2)] by (simp add: pg_free_def)
  let ?s2 = "put_pte t i 0 ?s'"
  have E: "entries T ?s2 = entries T s - {(t, i)}"
    by (auto simp: entries_def put_pte_def split: if_splits)
  have P: "\<And>e. e \<in> entries T ?s2 \<Longrightarrow> page_at ?s2 e = page_at s e"
    unfolding E by (auto simp: page_at_def put_pte_def entries_def)
  have ne: "\<And>e. e \<in> entries T ?s2 \<Longrightarrow> page_at s e \<noteq> ?pg"
    using inj_onD [OF inj _ _ e] unfolding E by (force simp: page_at_def)
  have "inj_on (page_at s) (entries T ?s2)" using inj E inj_on_subset by blast
  then have inj2: "inj_on (page_at ?s2) (entries T ?s2)" using P by (simp cong: inj_on_cong)
  have own: "\<And>e. e \<in> entries T s \<Longrightarrow> 0 < page_at s e \<and> page_at s e < MAXPG
        \<and> page_at s e \<notin> free_pgs s \<and> page_at s e * 4096 \<notin> T"
    using assms(1) by (auto simp: vm_ok_def)
  have sub: "\<And>e. e \<in> entries T ?s2 \<Longrightarrow> e \<in> entries T s" using E by auto
  have fl: "pg_flist ?s2 = pg_flist s @ [?pg]" by (simp add: put_pte_def)
  have 1: "pg_ok ?s2" using ok pg by (auto simp: pg_ok_def fl)
  have 2: "\<forall>t' \<in> T. t' mod 4096 = 0 \<and> t' div 4096 \<notin> free_pgs ?s2"
  proof
    fix t' assume "t' \<in> T"
    with assms(1) have "t' mod 4096 = 0" "t' div 4096 \<notin> free_pgs s" by (auto simp: vm_ok_def)
    moreover have "t' div 4096 \<noteq> ?pg"
      using pg(4) \<open>t' \<in> T\<close> \<open>t' mod 4096 = 0\<close> by (metis page_round)
    ultimately show "t' mod 4096 = 0 \<and> t' div 4096 \<notin> free_pgs ?s2" by (simp add: fl)
  qed
  have 3: "\<forall>e \<in> entries T ?s2. 0 < page_at ?s2 e \<and> page_at ?s2 e < MAXPG \<and> page_at ?s2 e \<notin> free_pgs ?s2
           \<and> page_at ?s2 e * 4096 \<notin> T"
    using own sub P ne by (auto simp: fl)
  from 1 2 3 inj2 have "vm_ok T ?s2" by (simp add: vm_ok_def)
  with f show ?thesis by simp
qed

lemma vm_ok_cong:
  "pg_flist s' = pg_flist s \<Longrightarrow> ptmem s' = ptmem s \<Longrightarrow> vm_ok T s' = vm_ok T s"
proof -
  assume "pg_flist s' = pg_flist s" "ptmem s' = ptmem s"
  moreover from this have "entries T s' = entries T s" "page_at s' = page_at s"
    by (simp_all add: entries_def page_at_def fun_eq_iff)
  ultimately show ?thesis by (simp add: vm_ok_def pg_ok_def)
qed

lemma vm_ok_pg_ok: "vm_ok T s \<Longrightarrow> pg_ok s"
  by (simp add: vm_ok_def)

end
