(* ===== verification/Umem.thy ===== *)
theory Umem
  imports Vm
begin

unbundle bit_operations_syntax

text \<open>
  \<open>kern/umem.c\<close> and \<open>kern/ualloc.c\<close>: the checks of user addresses and the copies
  between the kernel and the current process, the growth of the stack, and the creation,
  copying and release of a process image. The C functions that take a kernel buffer return
  or take its bytes here.
\<close>

section \<open>Checking user addresses\<close>

text \<open>
  The loop that \<open>newregion\<close>, \<open>growstk\<close> and \<open>sys_brk\<close> share: every page of the list
  that has no entry gets a zeroed page. An index past the 1024 entries of the table writes
  outside it.
\<close>

fun map_pages :: "nat list \<Rightarrow> kst \<Rightarrow> ((errno + unit) \<times> kst) option" where
  "map_pages [] s = Some (Inr (), s)"
| "map_pages (i # is) s =
     (if i \<ge> 1024 then None
      else if pte s i \<noteq> 0 then map_pages is s
      else case zpalloc s of (p, s) \<Rightarrow>
        if p = 0 then Some (Inl ENOMEM, s) else map_pages is (map_page i p s))"

definition growstk :: "nat \<Rightarrow> nat \<Rightarrow> kst \<Rightarrow> ((errno + unit) \<times> kst) option" where
  "growstk a len s =
     (if p_astk (cur s) > USER_SIZE then None
      else if a \<ge> p_astk (cur s) then Some (Inr (), s)
      else bindE (map_pages [a div 4096 ..< p_astk (cur s) div 4096] s) (\<lambda>_ s.
        Some (Inr (), upd_curr (\<lambda>c. c\<lparr>p_astk := a div 4096 * 4096\<rparr>) s)))"

fun chk_pages :: "nat list \<Rightarrow> kst \<Rightarrow> (errno + unit) option" where
  "chk_pages [] s = Some (Inr ())"
| "chk_pages (pg # pgs) s =
     (if pg \<ge> 1024 then None
      else if pte s pg = 0 then Some (Inl EFAULT)
      else chk_pages pgs s)"

definition last_page :: "nat \<Rightarrow> nat \<Rightarrow> nat" where
  "last_page a len = nat ((int a + int len - 1) mod 2 ^ 32) div 4096"

definition urchk :: "nat \<Rightarrow> nat \<Rightarrow> kst \<Rightarrow> ((errno + unit) \<times> kst) option" where
  "urchk a len s =
     (let c = cur s in
      if a > USER_SIZE \<or> len > USER_SIZE then Some (Inl EFAULT, s)
      else if a \<ge> p_stk c then
        if a + len > USER_SIZE then Some (Inl EFAULT, s) else growstk a len s
      else if a \<ge> p_base c \<and> a < p_end c then
        if a + len > p_end c then Some (Inl EFAULT, s) else Some (Inr (), s)
      else if a < p_brk c then
        if len > p_brk c \<or> a + len > p_brk c then Some (Inl EFAULT, s) else Some (Inr (), s)
      else map_option (\<lambda>r. (r, s))
        (chk_pages [a div 4096 ..< Suc (last_page a len)] s))"

definition uwchk :: "nat \<Rightarrow> nat \<Rightarrow> kst \<Rightarrow> ((errno + unit) \<times> kst) option" where
  "uwchk a len s = urchk a len s"

text \<open>
  \<open>ufault\<close> is called for a page fault at the linear address \<open>a\<close> in user mode.
\<close>

definition ufault :: "nat \<Rightarrow> kst \<Rightarrow> (errno + unit) \<times> kst" where
  "ufault a s =
     (if a < USER_BASE then (Inl EFAULT, s)
      else
        let a = a - USER_BASE in
        if a < p_stk (cur s) \<or> a \<ge> USER_SIZE then (Inl EFAULT, s)
        else case zpalloc s of (p, s) \<Rightarrow>
          if p = 0 then (Inl ENOMEM, s)
          else (Inr (), put_pte (ptab s) (a div 4096) (p OR 7) s))"

section \<open>Copying to and from the user\<close>

definition with_check :: "nat \<Rightarrow> nat \<Rightarrow> (kst \<Rightarrow> 'a option) \<Rightarrow> (kst \<Rightarrow> 'a \<Rightarrow> ((errno + 'b) \<times> kst) option)
    \<Rightarrow> kst \<Rightarrow> ((errno + 'b) \<times> kst) option" where
  "with_check a len m f s = do {
     (r, s) \<leftarrow> urchk a len s;
     (case r of Inl _ \<Rightarrow> Some (Inl EFAULT, s) | Inr _ \<Rightarrow> m s \<bind> f s)
   }"

definition fucpy :: "nat \<Rightarrow> nat \<Rightarrow> kst \<Rightarrow> ((errno + byte list) \<times> kst) option" where
  "fucpy src len s = with_check src len (uload src len) (\<lambda>s bs. Some (Inr bs, s)) s"

definition tucpy :: "nat \<Rightarrow> byte list \<Rightarrow> kst \<Rightarrow> ((errno + unit) \<times> kst) option" where
  "tucpy dst bs s = with_check dst (length bs) (ustore dst bs) (\<lambda>_ s. Some (Inr (), s)) s"

definition uset :: "nat \<Rightarrow> byte \<Rightarrow> nat \<Rightarrow> kst \<Rightarrow> ((errno + unit) \<times> kst) option" where
  "uset p c len s = tucpy p (replicate len c) s"

text \<open>
  \<open>fustr\<close> copies a string of less than \<open>len\<close> characters; the result here is the
  string without its terminating zero.
\<close>

fun fustr :: "nat \<Rightarrow> nat \<Rightarrow> kst \<Rightarrow> ((errno + byte list) \<times> kst) option" where
  "fustr src 0 s = Some (Inl EFAULT, s)"
| "fustr src (Suc len) s =
     bindE (fucpy src 1 s) (\<lambda>bs s.
       if hd bs = 0 then Some (Inr [], s)
       else bindE (fustr ((src + 1) mod 2 ^ 32) len s) (\<lambda>str s. Some (Inr (hd bs # str), s)))"

section \<open>Process images\<close>

definition newregion :: "nat \<Rightarrow> nat \<Rightarrow> kst \<Rightarrow> ((errno + unit) \<times> kst) option" where
  "newregion base end s =
     (if base \<ge> USER_SIZE \<or> end \<ge> USER_SIZE then Some (Inl EINVAL, s)
      else map_pages [base div 4096 ..< Suc (nat ((int end - 1) mod 2 ^ 32) div 4096)] s)"

fun free_entries :: "nat \<Rightarrow> nat list \<Rightarrow> kst \<Rightarrow> kst option" where
  "free_entries t [] s = Some s"
| "free_entries t (i # is) s = do {
     s \<leftarrow> pg_free (ptmem s t i div 4096) s;
     free_entries t is (put_pte t i 0 s)
   }"

definition pcalloc :: "kst \<Rightarrow> ((errno + unit) \<times> kst) option" where
  "pcalloc s = do {
     (r, s) \<leftarrow> bindE (newregion (p_base (cur s)) (p_end (cur s)) s) (\<lambda>_ s.
                 newregion 0 (p_brk (cur s)) s);
     (case r of
        Inr _ \<Rightarrow> Some (Inr (), s)
      | Inl _ \<Rightarrow> do {
          s \<leftarrow> free_entries (ptab s) [0..<1024] s;
          Some (Inl ENOMEM, s)
        })
   }"

fun pcfree_pages :: "nat list \<Rightarrow> kst \<Rightarrow> kst option" where
  "pcfree_pages [] s = Some s"
| "pcfree_pages (i # is) s =
     (if pte s i \<noteq> 0 then do { s \<leftarrow> pg_free (pte s i div 4096) s; pcfree_pages is s }
      else pcfree_pages is s)"

definition pcfree :: "kst \<Rightarrow> kst option" where
  "pcfree s = do {
     s \<leftarrow> pcfree_pages [0..<1024] s;
     s \<leftarrow> pfree (ptab s) s;
     Some (upd_curr (\<lambda>c. c\<lparr>p_ptab := 0\<rparr>) s)
   }"

text \<open>
  \<open>pccopy\<close> copies the image of the current process into the empty table \<open>ntab\<close>. When a
  page cannot be had it releases the copies, from the entry it was at down to 0.
\<close>

definition copy_page :: "nat \<Rightarrow> nat \<Rightarrow> kst \<Rightarrow> kst" where
  "copy_page dp sp s =
     s\<lparr>phys := (\<lambda>a. if dp \<le> a \<and> a < dp + 4096 then phys s (sp + (a - dp)) else phys s a)\<rparr>"

fun pccopy_pages :: "nat \<Rightarrow> nat list \<Rightarrow> kst \<Rightarrow> nat option \<times> kst" where
  "pccopy_pages ntab [] s = (None, s)"
| "pccopy_pages ntab (i # is) s =
     (if pte s i \<noteq> 0 then
        case palloc s of (dp, s) \<Rightarrow>
          if dp = 0 then (Some i, s)
          else pccopy_pages ntab is
            (copy_page dp (pte s i div 4096 * 4096) (put_pte ntab i (dp OR 7) s))
      else pccopy_pages ntab is s)"

fun pccopy_undo :: "nat \<Rightarrow> nat list \<Rightarrow> kst \<Rightarrow> kst option" where
  "pccopy_undo ntab [] s = Some s"
| "pccopy_undo ntab (i # is) s =
     (if ptmem s ntab i \<noteq> 0 then do {
        s \<leftarrow> pg_free (ptmem s ntab i div 4096) s;
        pccopy_undo ntab is (put_pte ntab i 0 s)
      }
      else pccopy_undo ntab is s)"

definition pccopy :: "nat \<Rightarrow> kst \<Rightarrow> ((errno + unit) \<times> kst) option" where
  "pccopy ntab s =
     (case pccopy_pages ntab [0..<1024] s of
        (None, s) \<Rightarrow> Some (Inr (), s)
      | (Some i, s) \<Rightarrow> do {
          s \<leftarrow> pccopy_undo ntab (rev [0..<Suc i]) s;
          Some (Inl ENOMEM, s)
        })"

section \<open>Mapping pages keeps the tables sound\<close>

definition vm_grows :: "nat set \<Rightarrow> kst \<Rightarrow> kst \<Rightarrow> bool" where
  "vm_grows T s s' \<longleftrightarrow> vm_ok T s' \<and> curr s' = curr s \<and> (\<exists>n k. cur s' = (cur s)\<lparr>p_size := n, p_astk := k\<rparr>)
     \<and> free_pgs s' \<subseteq> free_pgs s
     \<and> (\<forall>i. pte s i \<noteq> 0 \<longrightarrow> pte s' i = pte s i)
     \<and> (\<forall>t \<in> T. t \<noteq> ptab s \<longrightarrow> ptmem s' t = ptmem s t)
     \<and> (\<forall>a. a div 4096 \<notin> free_pgs s \<longrightarrow> phys s' a = phys s a)"

lemma same_stk: "c\<lparr>p_size := n\<rparr> = c\<lparr>p_size := n, p_astk := p_astk c\<rparr>"
  by (cases c) simp

lemma same_size: "c = c\<lparr>p_size := p_size c, p_astk := p_astk c\<rparr>"
  by (cases c) simp

lemma vm_grows_refl: "vm_ok T s \<Longrightarrow> vm_grows T s s"
  using same_size [of "cur s"] unfolding vm_grows_def by blast

lemma vm_grows_cur:
  assumes "vm_grows T s s'"
  obtains n k where "curr s' = curr s" "cur s' = (cur s)\<lparr>p_size := n, p_astk := k\<rparr>"
  using assms by (auto simp: vm_grows_def)

lemma vm_grows_ok: "vm_grows T s s' \<Longrightarrow> vm_ok T s'"
  by (simp add: vm_grows_def)

lemma vm_grows_ptab: "vm_grows T s s' \<Longrightarrow> ptab s' = ptab s"
  by (erule vm_grows_cur) simp

lemma vm_grows_trans:
  assumes "vm_grows T s t" and "vm_grows T t u"
  shows "vm_grows T s u"
proof -
  have "ptab t = ptab s" using assms(1) by (rule vm_grows_ptab)
  moreover have "\<exists>n k. cur u = (cur s)\<lparr>p_size := n, p_astk := k\<rparr>"
    by (rule vm_grows_cur [OF assms(1)], rule vm_grows_cur [OF assms(2)]) auto
  moreover have "phys u a = phys s a" if "a div 4096 \<notin> free_pgs s" for a
    using assms that unfolding vm_grows_def by (metis subsetD)
  ultimately show ?thesis
    using assms unfolding vm_grows_def by (simp) blast
qed

lemma zpalloc_map_page:
  assumes "vm_ok T s" and "ptab s \<in> T" and "pte s i = 0" and "i < 1024" and "zpalloc s = (p, s1)"
  shows "(p = 0 \<longrightarrow> s1 = s \<and> free_pgs s = {})
    \<and> (p \<noteq> 0 \<longrightarrow> vm_grows T s (map_page i p s1) \<and> pte (map_page i p s1) i \<noteq> 0
      \<and> p_astk (cur (map_page i p s1)) = p_astk (cur s))"
proof (rule zpalloc_cases [OF vm_ok_pg_ok [OF assms(1)]])
  assume "zpalloc s = (0, s)" "free_pgs s = {}"
  with assms show ?thesis by simp
next
  fix pg fl
  assume z: "zpalloc s = (pg * 4096, zero_page (pg * 4096) (s\<lparr>pg_flist := fl\<rparr>))" and pg: "0 < pg"
    "pg \<in> free_pgs s" "set fl = free_pgs s - {pg}" "distinct fl"
  have p: "p = pg * 4096" "s1 = zero_page (pg * 4096) (s\<lparr>pg_flist := fl\<rparr>)"
    using z assms(5) by simp_all
  let ?u = "map_page i p s1"
  have nT: "ptab s \<noteq> pg * 4096" "pg * 4096 \<notin> T"
    using assms(1,2) pg(2) by (auto simp: vm_ok_def)
  have pt: "ptmem ?u = (ptmem s)(pg * 4096 := (\<lambda>_. 0), ptab s := (ptmem s (ptab s))(i := pg * 4096 OR 7))"
    and fl: "pg_flist ?u = fl"
    using nT by (simp_all add: map_page_def put_pte_def p zero_page_def upd_defs)
  have ptA: "ptmem ?u a = (if a = ptab s then (ptmem s (ptab s))(i := pg * 4096 OR 7) else ptmem s a)"
    if "a \<in> T" for a
  proof -
    have "a \<noteq> pg * 4096" using that nT by blast
    then show ?thesis by (simp add: pt)
  qed
  have 1: "vm_ok T ?u"
    by (rule vm_ok_map [OF assms(1,2) assms(3) [unfolded pte_def] assms(4) pg(2,3,4) fl ptA])
  have cu: "curr ?u = curr s" "cur ?u = (cur s)\<lparr>p_size := p_size (cur s) + 1\<rparr>"
    by (simp_all add: map_page_def put_pte_def p zero_page_def upd_defs)
  have 2: "pte ?u j = (if j = i then pg * 4096 OR 7 else pte s j)" for j
    using cu pt by (simp add: pte_def)
  have 3: "phys ?u a = phys s a" if "a div 4096 \<notin> free_pgs s" for a
  proof -
    have "\<not> (pg * 4096 \<le> a \<and> a < pg * 4096 + 4096)"
    proof
      assume "pg * 4096 \<le> a \<and> a < pg * 4096 + 4096"
      then have "a div 4096 = pg" by (simp add: div_nat_eqI)
      with that pg(2) show False by simp
    qed
    then show ?thesis by (auto simp: map_page_def put_pte_def p zero_page_def upd_defs)
  qed
  have 4: "ptmem ?u t = ptmem s t" if "t \<in> T" "t \<noteq> ptab s" for t
    using that nT by (auto simp: pt)
  have 5: "\<exists>n k. cur ?u = (cur s)\<lparr>p_size := n, p_astk := k\<rparr>"
    unfolding cu(2) using same_stk [where c = "cur s"] by blast
  have 6: "p_astk (cur ?u) = p_astk (cur s)" unfolding cu(2) by simp
  have 7: "free_pgs ?u \<subseteq> free_pgs s" unfolding fl pg(3) by blast
  have 8: "\<forall>j. pte s j \<noteq> 0 \<longrightarrow> pte ?u j = pte s j" unfolding 2 using assms(3) by simp
  have "vm_grows T s ?u"
    unfolding vm_grows_def by (intro conjI 1 cu(1) 5 7 8) (use 3 4 in blast)+
  moreover have "pte ?u i \<noteq> 0" unfolding 2 by simp
  moreover have "p \<noteq> 0" using pg p by simp
  ultimately show ?thesis using 6 by blast
qed

lemma map_pages_grows:
  assumes "vm_ok T s" and "ptab s \<in> T"
  shows "when_returns (map_pages is s) (\<lambda>(r, s'). vm_grows T s s' \<and> p_astk (cur s') = p_astk (cur s)
    \<and> (case r of Inr _ \<Rightarrow> \<forall>i \<in> set is. pte s' i \<noteq> 0 | Inl e \<Rightarrow> e = ENOMEM \<and> free_pgs s' = {}))"
  using assms
proof (induction "is" arbitrary: s)
  case Nil
  then show ?case by (simp add: vm_grows_refl)
next
  case (Cons i "is")
  let ?Q = "\<lambda>js s (r, s'). vm_grows T s s' \<and> p_astk (cur s') = p_astk (cur s)
    \<and> (case r of Inr (_ :: unit) \<Rightarrow> \<forall>i \<in> set js. pte s' i \<noteq> 0 | Inl e \<Rightarrow> e = ENOMEM \<and> free_pgs s' = {})"
  have step: "?Q (i # is) s x" if "vm_grows T s u" "pte u i \<noteq> 0" "p_astk (cur u) = p_astk (cur s)" "?Q is u x" for u x
  proof -
    obtain r s' where x: "x = (r, s')" by (rule prod.exhaust)
    with that have "vm_grows T u s'" by simp
    then have "pte s' i \<noteq> 0" using that(2) by (simp add: vm_grows_def)
    with x that vm_grows_trans [OF that(1) \<open>vm_grows T u s'\<close>] show ?thesis by (cases r) auto
  qed
  consider "i \<ge> 1024" | "i < 1024" "pte s i \<noteq> 0" | "i < 1024" "pte s i = 0" by linarith
  then show ?case
  proof cases
    case 1
    then show ?thesis by simp
  next
    case 2
    then have eq: "map_pages (i # is) s = map_pages is s" by simp
    show ?thesis
      unfolding eq
      by (rule when_returns_mono [OF Cons.IH [OF Cons.prems] step [OF vm_grows_refl [OF Cons.prems(1)] 2(2) refl]])
  next
    case 3
    obtain p s1 where z: "zpalloc s = (p, s1)" by (rule prod.exhaust)
    note m = zpalloc_map_page [OF Cons.prems 3(2,1) z]
    show ?thesis
    proof (cases "p = 0")
      case True
      with m 3 Cons.prems show ?thesis by (simp add: z vm_grows_refl)
    next
      case False
      let ?u = "map_page i p s1"
      from m False have g: "vm_grows T s ?u" "pte ?u i \<noteq> 0" "p_astk (cur ?u) = p_astk (cur s)" by simp_all
      then have "vm_ok T ?u" "ptab ?u \<in> T"
        using Cons.prems by (simp_all add: vm_grows_ok vm_grows_ptab)
      have eq: "map_pages (i # is) s = map_pages is ?u" using 3 False by (simp add: z)
      show ?thesis
        unfolding eq by (rule when_returns_mono [OF Cons.IH [OF \<open>vm_ok T ?u\<close> \<open>ptab ?u \<in> T\<close>] step [OF g]])
    qed
  qed
qed

lemma map_pages_total: "\<forall>i \<in> set is. i < 1024 \<Longrightarrow> map_pages is s \<noteq> None"
  by (induction "is" arbitrary: s) (auto split: prod.splits)

section \<open>Checked addresses can be used\<close>

text \<open>
  The image of the current process is mapped: every page of its text and data, of its heap
  and of the part of its stack that has been used.
\<close>

definition image_page :: "process \<Rightarrow> nat \<Rightarrow> bool" where
  "image_page c i \<longleftrightarrow> i < 1024 \<and> (i * 4096 < p_brk c \<or> p_base c div 4096 \<le> i \<and> i * 4096 < p_end c
     \<or> p_astk c \<le> i * 4096)"

definition umap_ok :: "kst \<Rightarrow> bool" where
  "umap_ok s \<longleftrightarrow> p_astk (cur s) \<le> USER_SIZE \<and> p_astk (cur s) mod 4096 = 0
     \<and> p_brk (cur s) \<le> USER_SIZE \<and> p_end (cur s) \<le> USER_SIZE
     \<and> (\<forall>i. image_page (cur s) i \<longrightarrow> pte s i \<noteq> 0)"

lemma vm_grows_umap:
  assumes "vm_grows T s s'" and "umap_ok s" and "p_astk (cur s') = p_astk (cur s)"
  shows "umap_ok s'"
proof (rule vm_grows_cur [OF assms(1)])
  fix n k
  assume c: "curr s' = curr s" "cur s' = (cur s)\<lparr>p_size := n, p_astk := k\<rparr>"
  with assms(3) have "image_page (cur s') i = image_page (cur s) i" for i
    by (simp add: image_page_def)
  moreover have "pte s' i \<noteq> 0" if "pte s i \<noteq> 0" for i
    using assms(1) that by (simp add: vm_grows_def)
  ultimately show ?thesis
    using assms(2,3) c by (simp add: umap_ok_def)
qed

lemma utrans_mapped: "pte s (a div 4096) \<noteq> 0 \<Longrightarrow> a < USER_SIZE \<Longrightarrow> utrans s a \<noteq> None"
  by (simp add: utrans_def)

lemma map_pages_umap:
  assumes "vm_ok T s" and "ptab s \<in> T" and "umap_ok s"
    and "map_pages is s = Some (r, s')"
  shows "vm_grows T s s'" "umap_ok s'" "p_astk (cur s') = p_astk (cur s)"
    "r = Inr () \<Longrightarrow> i \<in> set is \<Longrightarrow> pte s' i \<noteq> 0"
proof -
  have *: "vm_grows T s s' \<and> p_astk (cur s') = p_astk (cur s)
      \<and> (case r of Inr _ \<Rightarrow> \<forall>i \<in> set is. pte s' i \<noteq> 0 | Inl e \<Rightarrow> e = ENOMEM \<and> free_pgs s' = {})"
    using when_returnsD [OF map_pages_grows [OF assms(1,2), of "is"] assms(4)] by simp
  then show "vm_grows T s s'" "p_astk (cur s') = p_astk (cur s)" by simp_all
  then show "umap_ok s'" using vm_grows_umap assms(3) by blast
  show "r = Inr () \<Longrightarrow> i \<in> set is \<Longrightarrow> pte s' i \<noteq> 0" using * by simp
qed

lemma growstk_sound:
  assumes "vm_ok T s" and "ptab s \<in> T" and "umap_ok s" and "a \<le> USER_SIZE"
  shows "returns (growstk a len s) (\<lambda>(r, s'). vm_grows T s s' \<and> umap_ok s'
    \<and> (r = Inr () \<longrightarrow> (\<forall>i < 1024. a div 4096 \<le> i \<longrightarrow> pte s' i \<noteq> 0)))"
proof -
  let ?top = "p_astk (cur s)"
  from assms(3) have top: "?top \<le> USER_SIZE" "?top mod 4096 = 0"
    and im: "\<And>i. image_page (cur s) i \<Longrightarrow> pte s i \<noteq> 0" by (simp_all add: umap_ok_def)
  show ?thesis
  proof (cases "a \<ge> ?top")
    case True
    have "pte s i \<noteq> 0" if "i < 1024" "a div 4096 \<le> i" for i
    proof -
      have "?top div 4096 * 4096 \<le> i * 4096"
        using that(2) div_le_mono [OF True, of 4096] by simp
      then have "?top \<le> i * 4096" using top(2) by (metis page_round)
      with that im show ?thesis by (simp add: image_page_def)
    qed
    with True top assms show ?thesis by (simp add: growstk_def vm_grows_refl)
  next
    case False
    let ?is = "[a div 4096 ..< ?top div 4096]"
    have "\<forall>i \<in> set ?is. i < 1024" using top(1) by auto
    from map_pages_total [OF this] obtain r s' where m: "map_pages ?is s = Some (r, s')" by fastforce
    note g = map_pages_umap [OF assms(1-3) m]
    show ?thesis
    proof (cases r)
      case (Inl e)
      with False top m g show ?thesis by (simp add: growstk_def)
    next
      case (Inr x)
      let ?u = "upd_curr (\<lambda>c. c\<lparr>p_astk := a div 4096 * 4096\<rparr>) s'"
      have eq: "growstk a len s = Some (Inr (), ?u)"
        using False top m Inr by (simp add: growstk_def)
      have u: "pg_flist ?u = pg_flist s'" "ptmem ?u = ptmem s'" "phys ?u = phys s'" "curr ?u = curr s'"
        "cur ?u = (cur s')\<lparr>p_astk := a div 4096 * 4096\<rparr>"
        by (simp_all add: upd_defs)
      have pu: "pte ?u i = pte s' i" for i by (simp add: pte_def upd_defs)
      have mapped: "pte s' i \<noteq> 0" if "i < 1024" "a div 4096 \<le> i" for i
      proof (cases "i < ?top div 4096")
        case True
        with that g(4) [of i] Inr show ?thesis by simp
      next
        case False
        then have "?top \<le> i * 4096" using top(2) by (metis page_round mult_le_mono1 not_less)
        then have "pte s i \<noteq> 0" using im that by (simp add: image_page_def)
        with g(1) show ?thesis by (simp add: vm_grows_def)
      qed
      obtain n k where c: "curr s' = curr s" "cur s' = (cur s)\<lparr>p_size := n, p_astk := k\<rparr>"
        using vm_grows_cur [OF g(1)] by blast
      have gr: "vm_grows T s ?u"
      proof -
        have "vm_ok T ?u" using vm_ok_cong [OF u(1,2)] vm_grows_ok [OF g(1)] by simp
        moreover have "\<exists>n k. cur ?u = (cur s)\<lparr>p_size := n, p_astk := k\<rparr>" unfolding u(5) c(2) by auto
        ultimately show ?thesis
          using g(1) unfolding vm_grows_def u(1-4) pu by simp
      qed
      have "umap_ok ?u"
      proof -
        have "pte ?u i \<noteq> 0" if "image_page (cur ?u) i" for i
        proof (cases "a div 4096 \<le> i")
          case True
          with that mapped show ?thesis unfolding pu by (simp add: image_page_def)
        next
          case False
          then have "image_page (cur s') i" using that unfolding u(5) by (auto simp: image_page_def)
          with g(2) show ?thesis unfolding pu by (simp add: umap_ok_def)
        qed
        moreover have "a div 4096 * 4096 \<le> USER_SIZE" using assms(4) by linarith
        ultimately show ?thesis using g(2) unfolding umap_ok_def u(5) by simp
      qed
      with gr mapped show ?thesis by (simp add: eq pu)
    qed
  qed
qed

lemma chk_pages_ok: "chk_pages pgs s = Some (Inr ()) \<Longrightarrow> pg \<in> set pgs \<Longrightarrow> pg < 1024 \<and> pte s pg \<noteq> 0"
  by (induction pgs) (auto split: if_splits)

lemma chk_pages_total: "\<forall>pg \<in> set pgs. pg < 1024 \<Longrightarrow> chk_pages pgs s \<noteq> None"
  by (induction pgs) auto

lemma urchk_image:
  assumes "umap_ok s" and "a + k < USER_SIZE"
    and "p_base (cur s) \<le> a \<and> a + k < p_end (cur s) \<or> a + k < p_brk (cur s)"
  shows "utrans s (a + k) \<noteq> None"
proof -
  have "(a + k) div 4096 * 4096 \<le> a + k" "(a + k) div 4096 < 1024" using assms(2) by auto
  moreover have "p_base (cur s) \<le> a \<Longrightarrow> p_base (cur s) div 4096 \<le> (a + k) div 4096" by (simp add: div_le_mono)
  ultimately have "image_page (cur s) ((a + k) div 4096)" using assms(3) by (auto simp: image_page_def)
  with assms show ?thesis by (intro utrans_mapped) (simp_all add: umap_ok_def)
qed

lemma urchk_grows:
  assumes "vm_ok T s" and "ptab s \<in> T" and "umap_ok s" and "a + len < 2 ^ 32"
    and "urchk a len s = Some (r, s')"
  shows "vm_grows T s s' \<and> umap_ok s' \<and> (r = Inr () \<longrightarrow> (\<forall>k < len. utrans s' (a + k) \<noteq> None))"
proof -
  have im: "p_end (cur s) \<le> USER_SIZE" "p_brk (cur s) \<le> USER_SIZE" using assms(3) by (simp_all add: umap_ok_def)
  have refl: "vm_grows T s s" using assms(1) by (rule vm_grows_refl)
  consider "a > USER_SIZE \<or> len > USER_SIZE"
    | "a \<le> USER_SIZE" "len \<le> USER_SIZE" "a \<ge> p_stk (cur s)"
    | "a \<le> USER_SIZE" "len \<le> USER_SIZE" "a < p_stk (cur s)" "p_base (cur s) \<le> a \<and> a < p_end (cur s)"
    | "a \<le> USER_SIZE" "len \<le> USER_SIZE" "a < p_stk (cur s)" "\<not> (p_base (cur s) \<le> a \<and> a < p_end (cur s))"
        "a < p_brk (cur s)"
    | "a \<le> USER_SIZE" "len \<le> USER_SIZE" "a < p_stk (cur s)" "\<not> (p_base (cur s) \<le> a \<and> a < p_end (cur s))"
        "\<not> a < p_brk (cur s)"
    by linarith
  then show ?thesis
  proof cases
    case 1
    with assms refl show ?thesis by (auto simp: urchk_def Let_def)
  next
    case 2
    show ?thesis
    proof (cases "a + len > USER_SIZE")
      case True
      with 2 assms refl show ?thesis by (auto simp: urchk_def Let_def)
    next
      case False
      with 2 assms(5) have "growstk a len s = Some (r, s')" by (simp add: urchk_def Let_def)
      then have g: "vm_grows T s s'" "umap_ok s'" "r = Inr () \<Longrightarrow> i < 1024 \<Longrightarrow> a div 4096 \<le> i \<Longrightarrow> pte s' i \<noteq> 0" for i
        using growstk_sound [OF assms(1-3) 2(1), of len] by auto
      have "utrans s' (a + k) \<noteq> None" if "k < len" "r = Inr ()" for k
        using that False g(3) [of "(a + k) div 4096"] by (intro utrans_mapped) (auto simp: div_le_mono)
      with g show ?thesis by simp
    qed
  next
    case 3
    then have "(r, s') = (if a + len > p_end (cur s) then (Inl EFAULT, s) else (Inr (), s))"
      using assms(5) by (simp add: urchk_def Let_def split: if_splits)
    with 3 refl assms(3) im urchk_image [OF assms(3)] show ?thesis by (auto split: if_splits)
  next
    case 4
    then have "(r, s') = (if len > p_brk (cur s) \<or> a + len > p_brk (cur s) then (Inl EFAULT, s) else (Inr (), s))"
      using assms(5) unfolding urchk_def Let_def by (auto split: if_splits)
    with 4 refl assms(3) im urchk_image [OF assms(3)] show ?thesis by (auto split: if_splits)
  next
    case 5
    let ?is = "[a div 4096 ..< Suc (last_page a len)]"
    have c: "chk_pages ?is s = Some r" "s' = s"
      using 5 assms(5) unfolding urchk_def Let_def by auto
    have "utrans s (a + k) \<noteq> None" if "k < len" "r = Inr ()" for k
    proof -
      have "last_page a len = (a + len - 1) div 4096"
        using that(1) assms(4) unfolding last_page_def by (subst mod_pos_pos_trivial) auto
      then have "(a + k) div 4096 \<in> set ?is"
        using that(1) div_le_mono [of "a + k" "a + len - 1" 4096] div_le_mono [of a "a + k" 4096] by auto
      with chk_pages_ok [of ?is s] c that(2) have "(a + k) div 4096 < 1024" "pte s ((a + k) div 4096) \<noteq> 0" by auto
      then show ?thesis by (intro utrans_mapped) (simp_all add: div_less_iff_less_mult)
    qed
    with c refl assms(3) show ?thesis by simp
  qed
qed

lemma urchk_returns:
  assumes "umap_ok s" and "vm_ok T s" and "ptab s \<in> T" and "0 < len" and "a + len \<le> USER_SIZE"
  shows "urchk a len s \<noteq> None"
proof -
  have "last_page a len = (a + len - 1) div 4096"
    using assms unfolding last_page_def by (subst mod_pos_pos_trivial) auto
  then have "chk_pages [a div 4096 ..< Suc (last_page a len)] s \<noteq> None"
    using assms(4,5) by (intro chk_pages_total) (auto simp: less_Suc_eq_le)
  moreover have "growstk a len s \<noteq> None"
    using growstk_sound [OF assms(2,3,1), of a len] assms(5) by (auto elim: returnsE)
  ultimately show ?thesis by (auto simp: urchk_def Let_def)
qed



section \<open>Copies\<close>

lemma utrans_phys [simp]: "utrans (s\<lparr>phys := ph\<rparr>) = utrans s"
  by (simp add: utrans_def pte_def fun_eq_iff)

lemma frame_div: "(x * 4096 + y mod 4096) div 4096 = (x :: nat)" "(x * 4096 + y mod 4096) mod 4096 = y mod (4096 :: nat)"
  by simp_all

lemma usr_page: "a < USER_SIZE \<Longrightarrow> a div 4096 < 1024"
  by (simp add: div_less_iff_less_mult)

lemma utrans_inj:
  assumes "vm_ok T s" and "ptab s \<in> T" and "utrans s a = Some p" and "utrans s b = Some p"
  shows "a = b"
proof -
  have a: "a < USER_SIZE" "pte s (a div 4096) \<noteq> 0" "p = pte s (a div 4096) div 4096 * 4096 + a mod 4096"
    and b: "b < USER_SIZE" "pte s (b div 4096) \<noteq> 0" "p = pte s (b div 4096) div 4096 * 4096 + b mod 4096"
    using assms(3,4) by (auto simp: utrans_def split: if_splits)
  have "pte s (a div 4096) div 4096 = p div 4096" by (simp only: a(3) frame_div)
  moreover have "pte s (b div 4096) div 4096 = p div 4096" by (simp only: b(3) frame_div)
  ultimately have "page_at s (ptab s, a div 4096) = page_at s (ptab s, b div 4096)"
    by (simp add: page_at_def pte_def)
  moreover have "(ptab s, a div 4096) \<in> entries T s" "(ptab s, b div 4096) \<in> entries T s"
    using a(2) b(2) usr_page [OF a(1)] usr_page [OF b(1)] assms(2) by (simp_all add: entries_def pte_def)
  moreover have "inj_on (page_at s) (entries T s)" using assms(1) by (simp add: vm_ok_def)
  ultimately have "(ptab s, a div 4096) = (ptab s, b div 4096)" by (metis inj_onD)
  moreover have "p mod 4096 = a mod 4096" by (simp only: a(3) frame_div)
  moreover have "p mod 4096 = b mod 4096" by (simp only: b(3) frame_div)
  ultimately show ?thesis by (metis Pair_inject div_mult_mod_eq)
qed

lemma ustore_spec:
  assumes "inj_on (utrans s) {a. utrans s a \<noteq> None}" and "\<forall>k < length bs. utrans s (a + k) \<noteq> None"
  shows "\<exists>ph. ustore a bs s = Some (s\<lparr>phys := ph\<rparr>)
    \<and> (\<forall>k < length bs. ph (the (utrans s (a + k))) = bs ! k)
    \<and> (\<forall>p. (\<forall>k < length bs. utrans s (a + k) \<noteq> Some p) \<longrightarrow> ph p = phys s p)"
  using assms
proof (induction bs arbitrary: a s)
  case Nil
  show ?case by (rule exI [of _ "phys s"]) simp
next
  case (Cons b bs)
  obtain pa where pa: "utrans s a = Some pa" using Cons.prems(2) [rule_format, of 0] by auto
  let ?s = "s\<lparr>phys := (phys s)(pa := b)\<rparr>"
  have "\<forall>k < length bs. utrans ?s (Suc a + k) \<noteq> None"
    using Cons.prems(2) by (auto dest: spec [of _ "Suc k" for k])
  with Cons.IH [of ?s "Suc a"] Cons.prems(1) obtain ph where
    ph: "ustore (Suc a) bs ?s = Some (?s\<lparr>phys := ph\<rparr>)"
      "\<And>k. k < length bs \<Longrightarrow> ph (the (utrans s (Suc a + k))) = bs ! k"
      "\<And>p. (\<forall>k < length bs. utrans s (Suc a + k) \<noteq> Some p) \<Longrightarrow> ph p = phys ?s p"
    by auto
  have "utrans s (Suc a + k) \<noteq> Some pa" for k
    using inj_onD [OF Cons.prems(1), of a "Suc a + k"] pa by auto
  then have head: "ph pa = b" using ph(3) [of pa] by simp
  have "ph (the (utrans s (a + k))) = (b # bs) ! k" if "k < length (b # bs)" for k
    using that ph(2) [of "k - 1"] head pa by (cases k) auto
  moreover have "ph p = phys s p" if "\<forall>k < length (b # bs). utrans s (a + k) \<noteq> Some p" for p
  proof -
    have "utrans s (Suc a + k) \<noteq> Some p" if "k < length bs" for k
      using \<open>\<forall>k < length (b # bs). utrans s (a + k) \<noteq> Some p\<close> [rule_format, of "Suc k"] that by simp
    moreover have "p \<noteq> pa" using that [rule_format, of 0] pa by auto
    ultimately show ?thesis using ph(3) [of p] by simp
  qed
  ultimately show ?case using pa ph(1) by (intro exI [of _ ph]) auto
qed

lemma uload_spec:
  "\<forall>k < n. utrans s (a + k) \<noteq> None \<Longrightarrow> uload a n s = Some (map (\<lambda>k. phys s (the (utrans s (a + k)))) [0..<n])"
proof (induction n arbitrary: a)
  case 0
  then show ?case by simp
next
  case (Suc n)
  obtain pa where pa: "utrans s a = Some pa" using Suc.prems [rule_format, of 0] by auto
  have "\<forall>k < n. utrans s (Suc a + k) \<noteq> None" using Suc.prems by (auto dest: spec [of _ "Suc k" for k])
  with Suc.IH [of "Suc a"] pa show ?case
    by (simp add: upt_conv_Cons map_Suc_upt [symmetric] del: upt_Suc map_Suc_upt)
qed

lemma vm_inj:
  assumes "vm_ok T s" and "ptab s \<in> T"
  shows "inj_on (utrans s) {a. utrans s a \<noteq> None}"
  using utrans_inj [OF assms] by (auto intro!: inj_onI)

lemma urchk_again:
  assumes "vm_ok T s" and "ptab s \<in> T" and "umap_ok s" and "urchk a len s = Some (Inr (), s1)"
  shows "urchk a len (s1\<lparr>phys := ph\<rparr>) = Some (Inr (), s1\<lparr>phys := ph\<rparr>)"
proof (cases "a \<ge> p_stk (cur s)")
  case False
  then have "s1 = s" using assms(4) by (auto simp: urchk_def Let_def split: if_splits)
  moreover have "chk_pages pgs (s\<lparr>phys := ph\<rparr>) = chk_pages pgs s" for pgs
    by (induction pgs) (auto simp: pte_def)
  ultimately show ?thesis
    using False assms(4) by (auto simp: urchk_def Let_def split: if_splits)
next
  case True
  then have len: "a \<le> USER_SIZE" "len \<le> USER_SIZE" "a + len \<le> USER_SIZE" and g: "growstk a len s = Some (Inr (), s1)"
    using assms(4) by (auto simp: urchk_def Let_def split: if_splits)
  have v: "vm_grows T s s1" "umap_ok s1"
    using growstk_sound [OF assms(1-3) len(1), of len] g by auto
  then have stk: "p_stk (cur s1) = p_stk (cur s)" using vm_grows_cur by force
  have top: "p_astk (cur s1) \<le> USER_SIZE" using v by (simp add: umap_ok_def)
  have "p_astk (cur s1) \<le> a"
    using g by (auto simp: growstk_def bindE_def upd_defs split: if_splits bind_splits sum.splits prod.splits)
  with True stk top len show ?thesis by (simp add: urchk_def growstk_def Let_def)
qed

text \<open>
  Property C2. What \<open>tucpy\<close> wrote is what \<open>fucpy\<close> reads: after a successful copy to the
  user, copying the same range back returns the same bytes and changes nothing. A copy to a
  range within the user's memory never faults in the kernel, and it only changes the bytes of
  the range (and adds zeroed stack pages).
\<close>

theorem tucpy_fucpy:
  assumes "vm_ok T s" and "ptab s \<in> T" and "umap_ok s" and "dst + length bs \<le> USER_SIZE" and "bs \<noteq> []"
  shows "returns (tucpy dst bs s) (\<lambda>(r, s'). vm_ok T s' \<and> umap_ok s'
    \<and> (r = Inr () \<longrightarrow> fucpy dst (length bs) s' = Some (Inr bs, s')
        \<and> (\<forall>a p. utrans s a = Some p \<longrightarrow> a < dst \<or> dst + length bs \<le> a \<longrightarrow> phys s' p = phys s p))
    \<and> (r \<noteq> Inr () \<longrightarrow> r = Inl EFAULT))"
proof -
  obtain r s1 where u: "urchk dst (length bs) s = Some (r, s1)"
    using urchk_returns [OF assms(3,1,2), of "length bs" dst] assms(4,5) by fastforce
  have g: "vm_grows T s s1" "umap_ok s1" "r = Inr () \<Longrightarrow> \<forall>k < length bs. utrans s1 (dst + k) \<noteq> None"
    using urchk_grows [OF assms(1-3) _ u] assms(4) by simp_all
  show ?thesis
  proof (cases r)
    case (Inl e)
    with u g show ?thesis by (simp add: tucpy_def with_check_def vm_grows_ok)
  next
    case (Inr x)
    have ok1: "vm_ok T s1" "ptab s1 \<in> T" using g(1) assms(2) by (simp_all add: vm_grows_ok vm_grows_ptab)
    obtain ph where ph: "ustore dst bs s1 = Some (s1\<lparr>phys := ph\<rparr>)"
        "\<And>k. k < length bs \<Longrightarrow> ph (the (utrans s1 (dst + k))) = bs ! k"
        "\<And>p. (\<forall>k < length bs. utrans s1 (dst + k) \<noteq> Some p) \<Longrightarrow> ph p = phys s1 p"
      using ustore_spec [OF vm_inj [OF ok1], of bs dst] g(3) Inr by auto
    let ?t = "s1\<lparr>phys := ph\<rparr>"
    have eq: "tucpy dst bs s = Some (Inr (), ?t)" using u Inr ph(1) by (simp add: tucpy_def with_check_def)
    have "uload dst (length bs) ?t = Some bs"
    proof -
      have "\<forall>k < length bs. utrans ?t (dst + k) \<noteq> None" using g(3) Inr by simp
      moreover have "map (\<lambda>k. phys ?t (the (utrans ?t (dst + k)))) [0..<length bs] = bs"
        by (rule nth_equalityI) (simp_all add: ph(2))
      ultimately show ?thesis using uload_spec [of "length bs" ?t dst] by metis
    qed
    then have rback: "fucpy dst (length bs) ?t = Some (Inr bs, ?t)"
      using urchk_again [OF assms(1-3)] u Inr by (simp add: fucpy_def with_check_def)
    have same: "phys ?t p = phys s p" if t: "utrans s a = Some p" "a < dst \<or> dst + length bs \<le> a" for a p
    proof -
      have nz: "a < USER_SIZE" "pte s (a div 4096) \<noteq> 0" "p = pte s (a div 4096) div 4096 * 4096 + a mod 4096"
        using t(1) by (auto simp: utrans_def split: if_splits)
      then have "pte s1 (a div 4096) = pte s (a div 4096)" using g(1) by (simp add: vm_grows_def)
      then have t1: "utrans s1 a = Some p" using t(1) by (simp only: utrans_def)
      have "utrans s1 (dst + k) \<noteq> Some p" if "k < length bs" for k
        using utrans_inj [OF ok1 t1, of "dst + k"] t(2) that by auto
      then have "ph p = phys s1 p" using ph(3) by simp
      moreover have "p div 4096 \<notin> free_pgs s"
      proof -
        have "p div 4096 = page_at s (ptab s, a div 4096)" by (simp only: nz(3) page_at_def pte_def frame_div fst_conv snd_conv)
        moreover have "(ptab s, a div 4096) \<in> entries T s"
          using nz(2) usr_page [OF nz(1)] assms(2) by (simp add: entries_def pte_def)
        ultimately show ?thesis using assms(1) by (simp add: vm_ok_def)
      qed
      ultimately show ?thesis using g(1) by (simp add: vm_grows_def)
    qed
    have "vm_ok T ?t" using ok1(1) vm_ok_cong [of ?t s1 T] by simp
    moreover have "umap_ok ?t" using g(2) by (simp add: umap_ok_def pte_def)
    ultimately show ?thesis using rback same by (simp add: eq)
  qed
qed

theorem tucpy_fucpy_witness:
  "\<exists>s. returns (tucpy 10 [1, 2, 3] s) (\<lambda>(r, s'). r = Inr () \<longrightarrow> fucpy 10 3 s' = Some (Inr [1, 2, 3], s'))
     \<and> urchk 10 3 s = Some (Inr (), s)"
proof -
  let ?s = "upd_curr (\<lambda>c. c\<lparr>p_ptab := 4096, p_brk := 100, p_stk := 8192, p_astk := USER_SIZE\<rparr>)
    ((zero_kst no_disk no_driver)\<lparr>pg_flist := [9, 8], ptmem := (\<lambda>t i. if t = 4096 \<and> i = 0 then 3 * 4096 + 7 else 0)\<rparr>)"
  have e: "entries {4096} ?s = {(4096, 0)}" "ptab ?s = 4096" "page_at ?s (4096, 0) = 3"
    by (auto simp: entries_def page_at_def split: if_splits)
  have "umap_ok ?s" "urchk 10 3 ?s = Some (Inr (), ?s)"
    by (auto simp: umap_ok_def image_page_def pte_def zero_kst_def zero_process_def urchk_def Let_def)
  moreover have "vm_ok {4096} ?s"
    unfolding vm_ok_def e by (simp add: pg_ok_def e)
  ultimately obtain s where s: "vm_ok {4096} s" "ptab s \<in> {4096}" "umap_ok s" "urchk 10 3 s = Some (Inr (), s)"
    using e(2) by blast
  have "returns (tucpy 10 [1, 2, 3] s) (\<lambda>(r, s'). r = Inr () \<longrightarrow> fucpy 10 3 s' = Some (Inr [1, 2, 3], s'))"
    by (rule returns_mono2 [OF tucpy_fucpy [OF s(1-3)]]) (simp_all add: numeral_3_eq_3)
  with s(4) show ?thesis by blast
qed

section \<open>Process images\<close>

text \<open>
  The pages that are free or mapped by the tables \<open>T\<close>; mapping, unmapping and copying
  keep this set.
\<close>

definition pool :: "nat set \<Rightarrow> kst \<Rightarrow> nat set" where
  "pool T s = free_pgs s \<union> page_at s ` entries T s"

lemma free_entries_ok:
  assumes "vm_ok T s" and "t \<in> T" and "\<forall>i \<in> set is. i < 1024"
  shows "\<exists>s'. free_entries t is s = Some s' \<and> vm_ok T s' \<and> (\<forall>i \<in> set is. ptmem s' t i = 0)
    \<and> (\<forall>i. i \<notin> set is \<longrightarrow> ptmem s' t i = ptmem s t i) \<and> (\<forall>a. a \<noteq> t \<longrightarrow> ptmem s' a = ptmem s a)
    \<and> curr s' = curr s \<and> procs s' = procs s \<and> phys s' = phys s"
  using assms
proof (induction "is" arbitrary: s)
  case Nil
  then show ?case by simp
next
  case (Cons i "is")
  obtain s1 where s1: "pg_free (ptmem s t i div 4096) s = Some s1" "vm_ok T (put_pte t i 0 s1)"
      "ptmem s1 = ptmem s" "curr s1 = curr s" "procs s1 = procs s" "phys s1 = phys s"
  proof (cases "ptmem s t i = 0")
    case True
    then have "put_pte t i 0 s = s" by (simp add: put_pte_def fun_upd_idem)
    with True Cons.prems(1) that [of s] show ?thesis by (simp add: pg_free_def)
  next
    case False
    with vm_ok_unmap [OF Cons.prems(1,2) False] Cons.prems(3) that show ?thesis by auto
  qed
  obtain s' where s': "free_entries t is (put_pte t i 0 s1) = Some s'" "vm_ok T s'"
      "\<forall>i \<in> set is. ptmem s' t i = 0"
      "\<And>j. j \<notin> set is \<Longrightarrow> ptmem s' t j = ptmem (put_pte t i 0 s1) t j"
      "\<And>a. a \<noteq> t \<Longrightarrow> ptmem s' a = ptmem (put_pte t i 0 s1) a"
      "curr s' = curr (put_pte t i 0 s1)" "procs s' = procs (put_pte t i 0 s1)" "phys s' = phys (put_pte t i 0 s1)"
    using Cons.IH [OF s1(2) Cons.prems(2)] Cons.prems(3) by auto
  have "ptmem s' t i = 0" using s'(3,4) by (cases "i \<in> set is") (simp_all add: put_pte_def)
  then show ?case using s1 s' by (auto simp: put_pte_def)
qed

text \<open>
  \<open>pcalloc\<close>, for an image whose text, data and heap are not empty, returns: on
  success every page of the image is mapped, and on failure the table is empty and its pages
  are free again. The ownership of pages stays sound in both cases.
\<close>

theorem pcalloc_correct:
  assumes "vm_ok T s" and "ptab s \<in> T" and "0 < p_end (cur s)" and "0 < p_brk (cur s)"
  shows "returns (pcalloc s) (\<lambda>(r, s'). vm_ok T s' \<and> ptab s' = ptab s
    \<and> (case r of
         Inr _ \<Rightarrow> (\<forall>i. p_base (cur s) div 4096 \<le> i \<and> i * 4096 < p_end (cur s)
              \<or> i * 4096 < p_brk (cur s) \<longrightarrow> pte s' i \<noteq> 0)
       | Inl e \<Rightarrow> e = ENOMEM \<and> (\<forall>i < 1024. pte s' i = 0)))"
proof -
  have range: "Suc (nat ((int e - 1) mod 2 ^ 32) div 4096) \<le> 1024"
      "i * 4096 < e \<Longrightarrow> i < Suc (nat ((int e - 1) mod 2 ^ 32) div 4096)"
    if "0 < e" "e < USER_SIZE" for e i :: nat
  proof -
    have "nat ((int e - 1) mod 2 ^ 32) = e - 1" using that by (subst mod_pos_pos_trivial) auto
    with that show "Suc (nat ((int e - 1) mod 2 ^ 32) div 4096) \<le> 1024"
      "i * 4096 < e \<Longrightarrow> i < Suc (nat ((int e - 1) mod 2 ^ 32) div 4096)" by auto
  qed
  have new: "\<exists>r s'. newregion b e u = Some (r, s') \<and> vm_grows T u s'
      \<and> (\<forall>x. r = Inr x \<longrightarrow> (\<forall>i. b div 4096 \<le> i \<and> i * 4096 < e \<longrightarrow> pte s' i \<noteq> 0))"
    if "vm_ok T u" "ptab u \<in> T" "0 < e" for b e u
  proof (cases "b \<ge> USER_SIZE \<or> e \<ge> USER_SIZE")
    case True
    with that(1) show ?thesis by (simp add: newregion_def vm_grows_refl)
  next
    case False
    let ?is = "[b div 4096 ..< Suc (nat ((int e - 1) mod 2 ^ 32) div 4096)]"
    have "\<forall>i \<in> set ?is. i < 1024"
      using range(1) [OF that(3)] False less_le_trans by (auto simp del: upt_Suc)
    then obtain r s' where m: "map_pages ?is u = Some (r, s')" using map_pages_total by fastforce
    with when_returnsD [OF map_pages_grows [OF that(1,2), of ?is] m]
    have g: "vm_grows T u s'" "\<And>x. r = Inr x \<Longrightarrow> \<forall>i \<in> set ?is. pte s' i \<noteq> 0" by (auto simp del: upt_Suc)
    have "pte s' i \<noteq> 0" if "r = Inr x" "b div 4096 \<le> i" "i * 4096 < e" for x i
      using g(2) [OF that(1)] that range(2) [of e i] False \<open>0 < e\<close> by (auto simp del: upt_Suc)
    with g m False show ?thesis by (auto simp: newregion_def simp del: upt_Suc)
  qed
  obtain r1 s1 where 1: "newregion (p_base (cur s)) (p_end (cur s)) s = Some (r1, s1)" "vm_grows T s s1"
      "\<And>x i. r1 = Inr x \<Longrightarrow> p_base (cur s) div 4096 \<le> i \<Longrightarrow> i * 4096 < p_end (cur s) \<Longrightarrow> pte s1 i \<noteq> 0"
    using new [OF assms(1-3)] by blast
  have s1: "vm_ok T s1" "ptab s1 = ptab s" using 1(2) assms by (simp_all add: vm_grows_ok vm_grows_ptab)
  have brk: "p_brk (cur s1) = p_brk (cur s)" by (rule vm_grows_cur [OF 1(2)]) simp
  obtain r2 s2 where 2: "newregion 0 (p_brk (cur s1)) s1 = Some (r2, s2)" "vm_grows T s1 s2"
      "\<And>x i. r2 = Inr x \<Longrightarrow> i * 4096 < p_brk (cur s) \<Longrightarrow> pte s2 i \<noteq> 0"
    using new [of s1 "p_brk (cur s1)" 0] s1 assms(2,4) brk by auto
  have undo: "\<exists>s'. free_entries (ptab u) [0..<1024] u = Some s' \<and> vm_ok T s' \<and> ptab s' = ptab s
      \<and> (\<forall>i < 1024. pte s' i = 0)" if "vm_ok T u" "ptab u = ptab s" for u
    using free_entries_ok [OF that(1), of "ptab u" "[0..<1024]"] that assms(2) by (auto simp: pte_def)
  consider e where "r1 = Inl e" | x e where "r1 = Inr x" "r2 = Inl e" | x y where "r1 = Inr x" "r2 = Inr y"
    by (cases r1; cases r2) auto
  then show ?thesis
  proof cases
    case 1
    with \<open>newregion (p_base (cur s)) (p_end (cur s)) s = Some (r1, s1)\<close> undo [OF s1] show ?thesis
      by (auto simp: pcalloc_def)
  next
    case 2
    have "vm_ok T s2" "ptab s2 = ptab s"
      using \<open>vm_grows T s1 s2\<close> s1 by (simp_all add: vm_grows_ok vm_grows_ptab)
    from undo [OF this] 2 1(1) \<open>newregion 0 (p_brk (cur s1)) s1 = Some (r2, s2)\<close> show ?thesis
      by (auto simp: pcalloc_def)
  next
    case 3
    have "pte s2 i \<noteq> 0" if "pte s1 i \<noteq> 0" for i
      using \<open>vm_grows T s1 s2\<close> that by (simp add: vm_grows_def)
    with 3 1 2 s1 show ?thesis
      by (auto simp: pcalloc_def vm_grows_ok vm_grows_ptab)
  qed
qed


theorem pcalloc_correct_witness:
  "\<exists>s. returns (pcalloc s) (\<lambda>(r, s'). ptab s' = 4096 \<and> vm_ok {4096} s')"
proof -
  let ?s = "upd_curr (\<lambda>c. c\<lparr>p_ptab := 4096, p_brk := 16, p_base := 8192, p_end := 9000\<rparr>)
    ((zero_kst no_disk no_driver)\<lparr>pg_flist := [9, 8]\<rparr>)"
  have e: "entries {4096} ?s = {}" "ptab ?s = 4096" "p_end (cur ?s) = 9000" "p_brk (cur ?s) = 16"
    by (simp_all add: entries_def upd_defs zero_kst_def)
  then have "vm_ok {4096} ?s"
    unfolding vm_ok_def e by (simp add: pg_ok_def upd_defs)
  from pcalloc_correct [OF this] e show ?thesis
    by (intro exI [of _ ?s]) (auto intro: returns_mono2)
qed

lemma pcfree_pages_spec:
  assumes "\<forall>i \<in> set is. pte s i \<noteq> 0 \<longrightarrow> 0 < pte s i div 4096 \<and> pte s i div 4096 < MAXPG"
    and "distinct (pg_flist s @ map (\<lambda>i. pte s i div 4096) (filter (\<lambda>i. pte s i \<noteq> 0) is))"
    and "pg_ok s"
  shows "pcfree_pages is s
    = Some (s\<lparr>pg_flist := pg_flist s @ map (\<lambda>i. pte s i div 4096) (filter (\<lambda>i. pte s i \<noteq> 0) is)\<rparr>)"
  using assms
proof (induction "is" arbitrary: s)
  case Nil
  then show ?case by simp
next
  case (Cons i "is")
  show ?case
  proof (cases "pte s i = 0")
    case True
    with Cons show ?thesis by simp
  next
    case False
    let ?pg = "pte s i div 4096"
    let ?s = "s\<lparr>pg_flist := pg_flist s @ [?pg]\<rparr>"
    have pg: "0 < ?pg" "?pg < MAXPG" "?pg \<notin> free_pgs s" using Cons.prems False by auto
    have f: "pg_free ?pg s = Some ?s"
      using pg pg_ok_length [OF Cons.prems(3) pg(3) pg(2)] by (simp add: pg_free_def)
    have p: "pte ?s j = pte s j" for j by (simp add: pte_def)
    have "pg_ok ?s" using Cons.prems(3) pg by (auto simp: pg_ok_def)
    from Cons.IH [OF _ _ this] Cons.prems(1,2) False f show ?thesis
      by (simp add: p)
  qed
qed

text \<open>
  Property C3. \<open>pcfree\<close> gives back every page of the process and its page table, each
  once, and never overflows the stack of free pages: the pages that are free afterwards are those that were
  free, those the table mapped and the table's own. The other tables stay sound.
\<close>

theorem pcfree_correct:
  assumes "vm_ok T s" and "ptab s \<in> T" and "0 < ptab s" and "ptab s div 4096 < MAXPG"
  shows "returns (pcfree s) (\<lambda>s'. vm_ok (T - {ptab s}) s' \<and> ptab s' = 0
    \<and> free_pgs s' = insert (ptab s div 4096) (pool {ptab s} s))"
proof -
  let ?t = "ptab s"
  let ?js = "filter (\<lambda>i. pte s i \<noteq> 0) [0..<1024]"
  define pgl where "pgl = map (\<lambda>i. pte s i div 4096) ?js"
  have pok: "pg_ok s" using assms(1) by (rule vm_ok_pg_ok)
  have ent: "(?t, i) \<in> entries T s" if "i \<in> set ?js" for i
    using that assms(2) by (simp add: entries_def pte_def)
  have own: "0 < page_at s e \<and> page_at s e < MAXPG \<and> page_at s e \<notin> free_pgs s \<and> page_at s e * 4096 \<notin> T"
    if "e \<in> entries T s" for e
    using that assms(1) by (simp add: vm_ok_def)
  have pa: "page_at s (?t, i) = pte s i div 4096" for i by (simp add: page_at_def pte_def)
  have inj: "inj_on (page_at s) (entries T s)" using assms(1) by (simp add: vm_ok_def)
  have pgs: "set pgl = page_at s ` entries {?t} s"
    by (force simp: pgl_def entries_def pte_def page_at_def image_iff)
  have t: "?t mod 4096 = 0" "?t div 4096 \<notin> free_pgs s" using assms(1,2) by (simp_all add: vm_ok_def)
  have sub: "entries {?t} s \<subseteq> entries T s" using assms(2) by (auto simp: entries_def)
  have "inj_on (\<lambda>i. pte s i div 4096) (set ?js)"
  proof (rule inj_onI)
    fix i j assume "i \<in> set ?js" "j \<in> set ?js" "pte s i div 4096 = pte s j div 4096"
    then have "(?t, i) = (?t, j)" using inj_onD [OF inj _ ent ent] pa by metis
    then show "i = j" by simp
  qed
  moreover have "set pgl \<inter> free_pgs s = {}" using own sub unfolding pgs by auto
  ultimately have dist: "distinct (pg_flist s @ pgl)" using pok by (simp add: pgl_def pg_ok_def distinct_map Int_commute)
  have rng: "\<forall>i \<in> set [0..<1024]. pte s i \<noteq> 0 \<longrightarrow> 0 < pte s i div 4096 \<and> pte s i div 4096 < MAXPG"
    using own [OF ent] pa by simp
  let ?u = "s\<lparr>pg_flist := pg_flist s @ pgl\<rparr>"
  have pages: "pcfree_pages [0..<1024] s = Some ?u"
    using pcfree_pages_spec [OF rng, folded pgl_def, OF dist pok] .
  have "?t div 4096 * 4096 = ?t" using t(1) by (rule page_round)
  have notab: "a div 4096 \<notin> set pgl" if "a \<in> T" "a div 4096 * 4096 = a" for a
  proof
    assume "a div 4096 \<in> set pgl"
    then obtain e where "e \<in> entries {?t} s" "a div 4096 = page_at s e" unfolding pgs by blast
    with own [of e] sub that show False by auto
  qed
  then have tn: "?t div 4096 \<notin> set pgl" using assms(2) \<open>?t div 4096 * 4096 = ?t\<close> by blast
  have uok: "pg_ok ?u"
  proof -
    have "0 < pg \<and> pg < MAXPG" if pm: "pg \<in> set pgl" for pg
    proof -
      obtain e where "e \<in> entries {?t} s" "pg = page_at s e" using pm unfolding pgs by blast
      with own [of e] sub show ?thesis by auto
    qed
    with pok dist show ?thesis by (auto simp: pg_ok_def)
  qed
  have "?t div 4096 \<notin> free_pgs ?u" using t(2) tn by simp
  from pg_ok_length [OF uok this assms(4)]
  have "pfree ?t ?u = Some (?u\<lparr>pg_flist := pg_flist ?u @ [?t div 4096]\<rparr>)"
    using assms(3) t(1) by (auto simp: pfree_def pg_free_def)
  moreover have "ptab ?u = ?t" by simp
  ultimately obtain v where r: "pcfree s = Some v"
    and v: "pg_flist v = pg_flist s @ pgl @ [?t div 4096]" "ptmem v = ptmem s" "ptab v = 0"
    by (simp add: pcfree_def pages)
  have ev: "entries (T - {?t}) v = entries (T - {?t}) s" "page_at v = page_at s"
    by (auto simp: entries_def page_at_def v)
  have disj: "page_at s e \<notin> set pgl" "page_at s e \<noteq> ?t div 4096" if "e \<in> entries (T - {?t}) s" for e
  proof -
    have e: "e \<in> entries T s" "e \<notin> entries {?t} s" using that by (auto simp: entries_def)
    show "page_at s e \<notin> set pgl"
    proof
      assume "page_at s e \<in> set pgl"
      then obtain e' where "e' \<in> entries {?t} s" "page_at s e = page_at s e'" unfolding pgs by blast
      with inj_onD [OF inj _ e(1), of e'] sub e(2) show False by auto
    qed
    show "page_at s e \<noteq> ?t div 4096"
      using own [OF e(1)] assms(2) \<open>?t div 4096 * 4096 = ?t\<close> by metis
  qed
  have "vm_ok (T - {?t}) v"
    unfolding vm_ok_def ev
  proof (intro conjI ballI)
    show "pg_ok v"
      using uok assms(3,4) t tn \<open>?t div 4096 * 4096 = ?t\<close> unfolding pg_ok_def v by (auto intro: gr0I)
    show "inj_on (page_at s) (entries (T - {?t}) s)"
      by (rule inj_on_subset [OF inj]) (auto simp: entries_def)
  next
    fix t' assume t': "t' \<in> T - {?t}"
    then show m: "t' mod 4096 = 0" using assms(1) by (simp add: vm_ok_def)
    then have "t' div 4096 * 4096 = t'" by (rule page_round)
    with t' have "t' div 4096 \<notin> set pgl" "t' div 4096 \<noteq> ?t div 4096"
      using notab \<open>?t div 4096 * 4096 = ?t\<close> by (blast, metis DiffE singletonI)
    moreover have "t' div 4096 \<notin> free_pgs s" using assms(1) t' by (simp add: vm_ok_def)
    ultimately show "t' div 4096 \<notin> free_pgs v" unfolding v by simp
  next
    fix e assume e: "e \<in> entries (T - {?t}) s"
    then have "e \<in> entries T s" by (auto simp: entries_def)
    from own [OF this] disj [OF e]
    show "0 < page_at s e" "page_at s e < MAXPG" "page_at s e \<notin> free_pgs v" "page_at s e * 4096 \<notin> T - {?t}"
      unfolding v by simp_all
  qed
  moreover have "free_pgs v = insert (?t div 4096) (pool {?t} s)"
    unfolding v pool_def pgs [symmetric] by auto
  ultimately show ?thesis using v(3) by (simp add: r)
qed


theorem pcfree_correct_witness:
  "\<exists>s. returns (pcfree s) (\<lambda>s'. ptab s' = 0 \<and> free_pgs s' = {1, 9, 8, 3})"
proof -
  let ?s = "upd_curr (\<lambda>c. c\<lparr>p_ptab := 4096\<rparr>)
    ((zero_kst no_disk no_driver)\<lparr>pg_flist := [9, 8], ptmem := (\<lambda>t i. if t = 4096 \<and> i = 0 then 3 * 4096 + 7 else 0)\<rparr>)"
  have e: "entries {4096} ?s = {(4096, 0)}" "ptab ?s = 4096" "page_at ?s (4096, 0) = 3"
    by (auto simp: entries_def page_at_def split: if_splits)
  have "vm_ok {4096} ?s"
    unfolding vm_ok_def e by (simp add: pg_ok_def e)
  from pcfree_correct [OF this] show ?thesis
    by (intro exI [of _ ?s]) (auto simp: e pool_def intro: returns_mono)
qed

text \<open>The copies of the pages of \<open>js\<close> that \<open>pccopy\<close> has made in the table \<open>ntab\<close>.\<close>

definition same_page :: "kst \<Rightarrow> nat \<Rightarrow> kst \<Rightarrow> nat \<Rightarrow> bool" where
  "same_page s e s' e' \<longleftrightarrow> (\<forall>k < 4096. phys s' (e' div 4096 * 4096 + k) = phys s (e div 4096 * 4096 + k))"

definition copied :: "kst \<Rightarrow> nat \<Rightarrow> nat \<Rightarrow> kst \<Rightarrow> bool" where
  "copied s ntab i s' \<longleftrightarrow> (if pte s i = 0 then ptmem s' ntab i = 0
     else ptmem s' ntab i \<noteq> 0 \<and> same_page s (pte s i) s' (ptmem s' ntab i))"

definition copy_frame :: "nat set \<Rightarrow> nat \<Rightarrow> kst \<Rightarrow> kst \<Rightarrow> bool" where
  "copy_frame T ntab s s' \<longleftrightarrow> vm_ok T s' \<and> curr s' = curr s \<and> procs s' = procs s
     \<and> (\<forall>t. t \<noteq> ntab \<longrightarrow> ptmem s' t = ptmem s t)
     \<and> (\<forall>i. ptmem s ntab i \<noteq> 0 \<longrightarrow> ptmem s' ntab i = ptmem s ntab i)
     \<and> free_pgs s' \<subseteq> free_pgs s \<and> pool {ntab} s' = pool {ntab} s
     \<and> (\<forall>a. a div 4096 \<notin> free_pgs s \<longrightarrow> phys s' a = phys s a)"

lemma copy_frame_refl: "vm_ok T s \<Longrightarrow> copy_frame T ntab s s"
  by (simp add: copy_frame_def)

lemma copy_frame_phys: "copy_frame T ntab s s' \<Longrightarrow> a div 4096 \<notin> free_pgs s \<Longrightarrow> phys s' a = phys s a"
  by (simp add: copy_frame_def)

lemma copy_frame_trans:
  assumes "copy_frame T n s t" and "copy_frame T n t u"
  shows "copy_frame T n s u"
proof -
  have "phys u a = phys s a" if "a div 4096 \<notin> free_pgs s" for a
    using assms that unfolding copy_frame_def by (metis subsetD)
  moreover have "ptmem u n i = ptmem s n i" if "ptmem s n i \<noteq> 0" for i
    using assms that unfolding copy_frame_def by metis
  ultimately show ?thesis
    using assms unfolding copy_frame_def by (simp) blast
qed

lemma copy_step:
  assumes "vm_ok T s" and "ptab s \<in> T" and "ntab \<in> T" and "ptab s \<noteq> ntab" and "i < 1024"
    and "pte s i \<noteq> 0" and "ptmem s ntab i = 0" and "palloc s = (dp, s1)"
  shows "(dp = 0 \<longrightarrow> s1 = s \<and> free_pgs s = {})
    \<and> (dp \<noteq> 0 \<longrightarrow> (let u = copy_page dp (pte s1 i div 4096 * 4096) (put_pte ntab i (dp OR 7) s1) in
          copy_frame T ntab s u \<and> copied s ntab i u \<and> (\<forall>j. j \<noteq> i \<longrightarrow> ptmem u ntab j = ptmem s ntab j)))"
proof (rule palloc_cases [OF vm_ok_pg_ok [OF assms(1)]])
  assume "palloc s = (0, s)" "free_pgs s = {}"
  with assms(8) show ?thesis by simp
next
  fix pg fl
  assume z: "palloc s = (pg * 4096, s\<lparr>pg_flist := fl\<rparr>)" and pg: "0 < pg" "pg \<in> free_pgs s"
    "set fl = free_pgs s - {pg}" "distinct fl"
  have p: "dp = pg * 4096" "s1 = s\<lparr>pg_flist := fl\<rparr>" using z assms(8) by simp_all
  define sp where "sp = pte s i div 4096"
  have "pte s1 i = pte s i" by (simp add: p(2) pte_def)
  then obtain u where u: "u = copy_page dp (pte s1 i div 4096 * 4096) (put_pte ntab i (dp OR 7) s1)"
    and uf: "pg_flist u = fl" "curr u = curr s" "procs u = procs s"
      "ptmem u = (ptmem s)(ntab := (ptmem s ntab)(i := pg * 4096 OR 7))"
      "phys u = (\<lambda>a. if pg * 4096 \<le> a \<and> a < pg * 4096 + 4096 then phys s (sp * 4096 + (a - pg * 4096)) else phys s a)"
    by (simp add: p(1) copy_page_def put_pte_def p(2) sp_def cong: if_cong)
  have ok: "vm_ok T u"
    by (rule vm_ok_map [OF assms(1,3,7,5) pg(2,3,4) uf(1)]) (simp add: uf(4))
  have other: "phys u a = phys s a" if "a div 4096 \<notin> free_pgs s" for a
  proof -
    have "\<not> (pg * 4096 \<le> a \<and> a < pg * 4096 + 4096)"
    proof
      assume "pg * 4096 \<le> a \<and> a < pg * 4096 + 4096"
      then have "a div 4096 = pg" by (simp add: div_nat_eqI)
      with that pg(2) show False by simp
    qed
    then show ?thesis unfolding uf(5) by auto
  qed
  have ents: "entries {ntab} u = insert (ntab, i) (entries {ntab} s)"
    using assms(5) by (auto simp: entries_def uf(4) split: if_splits)
  have pat: "page_at u (ntab, i) = pg" "e \<in> entries {ntab} s \<Longrightarrow> page_at u e = page_at s e" for e
    using assms(7) by (auto simp: page_at_def uf(4) pte7_page entries_def)
  have pool: "pool {ntab} u = pool {ntab} s"
  proof -
    have "page_at u ` entries {ntab} s = page_at s ` entries {ntab} s" using pat(2) by (intro image_cong) auto
    then show ?thesis using pg(2) by (auto simp: pool_def ents pat(1) uf(1) pg(3))
  qed
  have "copy_frame T ntab s u"
    unfolding copy_frame_def uf(1,2,3) pg(3)
    using ok pool other assms(7) by (auto simp: uf(4))
  moreover have "copied s ntab i u"
  proof -
    have "(pg * 4096 OR 7) div 4096 * 4096 = pg * 4096" by (simp add: pte7_page)
    then have "same_page s (pte s i) u (ptmem u ntab i)"
      unfolding same_page_def uf(4,5) sp_def by simp
    then show ?thesis using assms(6) by (simp add: copied_def uf(4))
  qed
  moreover have "ptmem u ntab j = ptmem s ntab j" if "j \<noteq> i" for j using that by (simp add: uf(4))
  moreover have "dp \<noteq> 0" using pg(1) p(1) by simp
  ultimately show ?thesis unfolding u Let_def by blast
qed


lemma copied_frame:
  assumes "copy_frame T ntab s u" and "copied s ntab i u" and "pte s i \<noteq> 0" and "copy_frame T ntab u s'"
    and "vm_ok T u" and "ntab \<in> T" and "i < 1024"
  shows "copied s ntab i s'"
proof -
  have n: "ptmem u ntab i \<noteq> 0" and same: "same_page s (pte s i) u (ptmem u ntab i)"
    using assms(2,3) by (simp_all add: copied_def)
  have eq: "ptmem s' ntab i = ptmem u ntab i" using assms(4) n by (simp add: copy_frame_def)
  have "(ntab, i) \<in> entries T u" using n assms(6,7) by (simp add: entries_def)
  then have "page_at u (ntab, i) \<notin> free_pgs u" using assms(5) by (simp add: vm_ok_def)
  then have nf: "ptmem u ntab i div 4096 \<notin> free_pgs u" by (simp add: page_at_def)
  have "phys s' (ptmem u ntab i div 4096 * 4096 + k) = phys u (ptmem u ntab i div 4096 * 4096 + k)" if "k < 4096" for k
  proof -
    have "(ptmem u ntab i div 4096 * 4096 + k) div 4096 = ptmem u ntab i div 4096" using that by simp
    with nf show ?thesis by (intro copy_frame_phys [OF assms(4)]) (simp only: not_False_eq_True)
  qed
  with same n eq assms(3) show ?thesis by (simp add: copied_def same_page_def)
qed

lemma copied_start:
  assumes "copy_frame T ntab s u" and "vm_ok T s" and "ptab s \<in> T" and "ptab s \<noteq> ntab"
    and "copied u ntab i s'" and "i < 1024"
  shows "copied s ntab i s'"
proof -
  have pte: "pte u i = pte s i" using assms(1,4) by (simp add: pte_def copy_frame_def)
  have "phys u (pte s i div 4096 * 4096 + k) = phys s (pte s i div 4096 * 4096 + k)"
    if "k < 4096" "pte s i \<noteq> 0" for k
  proof -
    have "(ptab s, i) \<in> entries T s" using that(2) assms(3,6) by (simp add: entries_def pte_def)
    then have "page_at s (ptab s, i) \<notin> free_pgs s" using assms(2) by (simp add: vm_ok_def)
    then have nf: "pte s i div 4096 \<notin> free_pgs s" by (simp add: page_at_def pte_def)
    have "(pte s i div 4096 * 4096 + k) div 4096 = pte s i div 4096" using that by simp
    with nf show ?thesis by (intro copy_frame_phys [OF assms(1)]) (simp only: not_False_eq_True)
  qed
  with assms(5) show ?thesis by (cases "pte s i = 0") (simp_all add: copied_def same_page_def pte)
qed

lemma pccopy_pages_spec:
  assumes "vm_ok T s" and "ptab s \<in> T" and "ntab \<in> T" and "ptab s \<noteq> ntab"
    and "sorted_wrt (<) is" and "\<forall>i \<in> set is. i < 1024 \<and> ptmem s ntab i = 0"
    and "pccopy_pages ntab is s = (res, s')"
  shows "copy_frame T ntab s s'" "\<forall>i. i \<notin> set is \<longrightarrow> ptmem s' ntab i = ptmem s ntab i"
    "res = None \<Longrightarrow> \<forall>i \<in> set is. copied s ntab i s'"
    "res = Some j \<Longrightarrow> j \<in> set is \<and> free_pgs s' = {} \<and> (\<forall>i \<in> set is. j \<le> i \<longrightarrow> ptmem s' ntab i = 0)"
proof -
  have "copy_frame T ntab s s' \<and> (\<forall>i. i \<notin> set is \<longrightarrow> ptmem s' ntab i = ptmem s ntab i)
    \<and> (case res of None \<Rightarrow> \<forall>i \<in> set is. copied s ntab i s'
       | Some j \<Rightarrow> j \<in> set is \<and> free_pgs s' = {} \<and> (\<forall>i \<in> set is. j \<le> i \<longrightarrow> ptmem s' ntab i = 0))"
    using assms
  proof (induction "is" arbitrary: s)
    case Nil
    then show ?case by (auto simp: copy_frame_refl)
  next
    case (Cons i "is")
    note ok = Cons.prems(1-4)
    have i: "i < 1024" "ptmem s ntab i = 0" "\<forall>j \<in> set is. i < j" using Cons.prems(5,6) by auto
    show ?case
    proof (cases "pte s i = 0")
      case True
      then have "pccopy_pages ntab is s = (res, s')" using Cons.prems(7) by simp
      from Cons.IH [OF ok _ _ this] Cons.prems(5,6)
      have IH: "copy_frame T ntab s s'" "\<forall>j. j \<notin> set is \<longrightarrow> ptmem s' ntab j = ptmem s ntab j"
        "case res of None \<Rightarrow> \<forall>i \<in> set is. copied s ntab i s'
          | Some j \<Rightarrow> j \<in> set is \<and> free_pgs s' = {} \<and> (\<forall>i \<in> set is. j \<le> i \<longrightarrow> ptmem s' ntab i = 0)" by auto
      have "ptmem s' ntab i = 0" using IH(2) i by auto
      with IH True i show ?thesis by (auto simp: copied_def split: option.splits)
    next
      case False
      obtain dp s1 where z: "palloc s = (dp, s1)" by (rule prod.exhaust)
      note step = copy_step [OF ok i(1) False i(2) z]
      show ?thesis
      proof (cases "dp = 0")
        case True
        with step have "s1 = s" "free_pgs s = {}" by simp_all
        moreover have "res = Some i" "s' = s" using Cons.prems(7) False z True \<open>s1 = s\<close> by simp_all
        ultimately show ?thesis using copy_frame_refl [OF ok(1)] Cons.prems(6) by simp
      next
        case nz: False
        obtain u where u: "u = copy_page dp (pte s1 i div 4096 * 4096) (put_pte ntab i (dp OR 7) s1)"
          and g: "copy_frame T ntab s u" "copied s ntab i u" "\<And>j. j \<noteq> i \<Longrightarrow> ptmem u ntab j = ptmem s ntab j"
          using step nz unfolding Let_def by blast
        have uok: "vm_ok T u" "ptab u = ptab s" using g(1) by (simp_all add: copy_frame_def)
        have run: "pccopy_pages ntab is u = (res, s')" using Cons.prems(7) False z nz u by simp
        have pre: "\<forall>j \<in> set is. j < 1024 \<and> ptmem u ntab j = 0" using Cons.prems(6) g(3) i(3) by auto
        have "copy_frame T ntab u s' \<and> (\<forall>j. j \<notin> set is \<longrightarrow> ptmem s' ntab j = ptmem u ntab j)
          \<and> (case res of None \<Rightarrow> \<forall>i \<in> set is. copied u ntab i s'
            | Some j \<Rightarrow> j \<in> set is \<and> free_pgs s' = {} \<and> (\<forall>i \<in> set is. j \<le> i \<longrightarrow> ptmem s' ntab i = 0))"
          using Cons.prems(5) ok by (intro Cons.IH [OF uok(1) _ _ _ _ pre run]) (simp_all add: uok(2))
        then have IH: "copy_frame T ntab u s'" "\<And>j. j \<notin> set is \<Longrightarrow> ptmem s' ntab j = ptmem u ntab j"
          "res = None \<Longrightarrow> \<forall>j \<in> set is. copied u ntab j s'"
          "\<And>j. res = Some j \<Longrightarrow> j \<in> set is \<and> free_pgs s' = {} \<and> (\<forall>i \<in> set is. j \<le> i \<longrightarrow> ptmem s' ntab i = 0)"
          by auto
        have "copied s ntab i s'" by (rule copied_frame [OF g(1,2) False IH(1) uok(1) ok(3) i(1)])
        moreover have "copied s ntab j s'" if "res = None" "j \<in> set is" for j
          using copied_start [OF g(1) ok(1,2,4)] IH(3) that pre by blast
        moreover have "ptmem s' ntab j = ptmem s ntab j" if "j \<notin> set (i # is)" for j
          using that IH(2) g(3) by simp
        moreover have "\<not> j \<le> i" if "res = Some j" for j using IH(4) [OF that] i(3) by auto
        ultimately show ?thesis
          using copy_frame_trans [OF g(1) IH(1)] IH(4) by (cases res) auto
      qed
    qed
  qed
  then show "copy_frame T ntab s s'" "\<forall>i. i \<notin> set is \<longrightarrow> ptmem s' ntab i = ptmem s ntab i"
    "res = None \<Longrightarrow> \<forall>i \<in> set is. copied s ntab i s'"
    "res = Some j \<Longrightarrow> j \<in> set is \<and> free_pgs s' = {} \<and> (\<forall>i \<in> set is. j \<le> i \<longrightarrow> ptmem s' ntab i = 0)"
    by (auto split: option.splits)
qed


lemma pccopy_undo_spec:
  assumes "vm_ok T s" and "ntab \<in> T" and "\<forall>i \<in> set is. i < 1024"
  shows "\<exists>s'. pccopy_undo ntab is s = Some s' \<and> vm_ok T s' \<and> procs s' = procs s \<and> curr s' = curr s
    \<and> (\<forall>t. t \<noteq> ntab \<longrightarrow> ptmem s' t = ptmem s t) \<and> (\<forall>i \<in> set is. ptmem s' ntab i = 0)
    \<and> (\<forall>i. i \<notin> set is \<longrightarrow> ptmem s' ntab i = ptmem s ntab i) \<and> pool {ntab} s' = pool {ntab} s"
  using assms
proof (induction "is" arbitrary: s)
  case Nil
  then show ?case by simp
next
  case (Cons i "is")
  obtain s1 where s1: "pccopy_undo ntab (i # is) s = pccopy_undo ntab is s1" "vm_ok T s1"
      "procs s1 = procs s" "curr s1 = curr s" "ptmem s1 = (ptmem s)(ntab := (ptmem s ntab)(i := 0))"
      "pool {ntab} s1 = pool {ntab} s"
  proof (cases "ptmem s ntab i = 0")
    case True
    then have "(ptmem s)(ntab := (ptmem s ntab)(i := 0)) = ptmem s" by (simp add: fun_upd_idem)
    with True Cons.prems(1) that [of s] show ?thesis by simp
  next
    case False
    let ?pg = "ptmem s ntab i div 4096"
    let ?u = "put_pte ntab i 0 (s\<lparr>pg_flist := pg_flist s @ [?pg]\<rparr>)"
    have f: "pg_free ?pg s = Some (s\<lparr>pg_flist := pg_flist s @ [?pg]\<rparr>)" "vm_ok T ?u"
      using vm_ok_unmap [OF Cons.prems(1,2) False] Cons.prems(3) by auto
    have e: "(ntab, i) \<in> entries {ntab} s" "page_at s (ntab, i) = ?pg"
      using False Cons.prems(3) by (simp_all add: entries_def page_at_def)
    have E: "entries {ntab} ?u = entries {ntab} s - {(ntab, i)}"
      by (auto simp: entries_def put_pte_def split: if_splits)
    have "page_at ?u ` entries {ntab} ?u = page_at s ` (entries {ntab} s - {(ntab, i)})"
      unfolding E by (rule image_cong) (auto simp: page_at_def put_pte_def entries_def)
    moreover have "page_at s ` entries {ntab} s = insert ?pg (page_at s ` (entries {ntab} s - {(ntab, i)}))"
      using e by (metis image_insert insert_Diff)
    ultimately have "pool {ntab} ?u = pool {ntab} s"
      by (simp add: pool_def put_pte_def)
    with that [of ?u] f False show ?thesis by (simp add: put_pte_def)
  qed
  obtain s' where s': "pccopy_undo ntab is s1 = Some s'" "vm_ok T s'" "procs s' = procs s1" "curr s' = curr s1"
    "\<And>t. t \<noteq> ntab \<Longrightarrow> ptmem s' t = ptmem s1 t" "\<And>i. i \<in> set is \<Longrightarrow> ptmem s' ntab i = 0"
    "\<And>i. i \<notin> set is \<Longrightarrow> ptmem s' ntab i = ptmem s1 ntab i" "pool {ntab} s' = pool {ntab} s1"
    using Cons.IH [OF s1(2) Cons.prems(2)] Cons.prems(3) by auto
  have "ptmem s' ntab i = 0" using s'(6,7) s1(5) by (cases "i \<in> set is") simp_all
  with s' s1 show ?case by (intro exI [of _ s']) auto
qed

text \<open>
  \<open>pccopy\<close> into an empty page table returns. On success the new table maps
  exactly the pages that the process maps, each to a page of its own with the same
  contents. On failure, for want of memory, the new table is empty again and the pool has
  the pages it had before. The tables of all processes stay sound and theirs are not changed.
\<close>

theorem pccopy_correct:
  assumes "vm_ok T s" and "ptab s \<in> T" and "ntab \<in> T" and "ptab s \<noteq> ntab" and "\<forall>i. ptmem s ntab i = 0"
  shows "returns (pccopy ntab s) (\<lambda>(r, s'). vm_ok T s' \<and> procs s' = procs s \<and> curr s' = curr s
    \<and> (\<forall>t. t \<noteq> ntab \<longrightarrow> ptmem s' t = ptmem s t)
    \<and> (case r of
         Inr _ \<Rightarrow> \<forall>i < 1024. copied s ntab i s'
       | Inl e \<Rightarrow> e = ENOMEM \<and> free_pgs s' = free_pgs s \<and> (\<forall>i. ptmem s' ntab i = 0)))"
proof -
  obtain res s1 where run: "pccopy_pages ntab [0..<1024] s = (res, s1)" by (rule prod.exhaust)
  have srt: "sorted_wrt (<) [0..<1024 :: nat]" by (rule sorted_wrt_upt)
  have rng: "\<forall>i \<in> set [0..<1024]. i < 1024 \<and> ptmem s ntab i = 0" using assms(5) by simp
  note spec = pccopy_pages_spec [OF assms(1-4) srt rng run]
  show ?thesis
  proof (cases res)
    case None
    then show ?thesis using spec(1,3) run by (simp add: pccopy_def copy_frame_def)
  next
    case (Some j)
    note f = spec(4) [OF Some]
    have "vm_ok T s1" using spec(1) by (simp add: copy_frame_def)
    moreover have "\<forall>i \<in> set (rev [0..<Suc j]). i < 1024" using f by auto
    ultimately obtain s' where s': "pccopy_undo ntab (rev [0..<Suc j]) s1 = Some s'" "vm_ok T s'"
        "procs s' = procs s1" "curr s' = curr s1" "\<And>t. t \<noteq> ntab \<Longrightarrow> ptmem s' t = ptmem s1 t"
        "\<forall>i \<in> set (rev [0..<Suc j]). ptmem s' ntab i = 0"
        "\<And>i. i \<notin> set (rev [0..<Suc j]) \<Longrightarrow> ptmem s' ntab i = ptmem s1 ntab i" "pool {ntab} s' = pool {ntab} s1"
      using pccopy_undo_spec [of T s1 ntab "rev [0..<Suc j]"] assms(3) by blast
    have clear: "ptmem s' ntab i = 0" for i
    proof (cases "i \<le> j")
      case True
      then show ?thesis using s'(6) by (simp del: upt_Suc)
    next
      case False
      then have "ptmem s' ntab i = ptmem s1 ntab i" using s'(7) by (simp del: upt_Suc)
      also have "\<dots> = 0" using False f spec(2) assms(5) by (cases "i < 1024") auto
      finally show ?thesis .
    qed
    have "pool {ntab} s' = pool {ntab} s" using s'(8) spec(1) by (simp add: copy_frame_def)
    moreover have "entries {ntab} s' = {}" "entries {ntab} s = {}"
      using clear assms(5) by (auto simp: entries_def)
    ultimately have "free_pgs s' = free_pgs s" by (simp add: pool_def)
    with s' clear Some run spec(1) show ?thesis
      by (simp add: pccopy_def copy_frame_def del: upt_Suc)
  qed
qed

theorem pccopy_correct_witness:
  "\<exists>s. returns (pccopy 8192 s) (\<lambda>(r, s'). vm_ok {4096, 8192} s') \<and> pte s 0 \<noteq> 0"
proof -
  let ?s = "upd_curr (\<lambda>c. c\<lparr>p_ptab := 4096\<rparr>)
    ((zero_kst no_disk no_driver)\<lparr>pg_flist := [9, 8], ptmem := (\<lambda>t i. if t = 4096 \<and> i = 0 then 3 * 4096 + 7 else 0)\<rparr>)"
  have e: "entries {4096, 8192} ?s = {(4096, 0)}" "ptab ?s = 4096" "page_at ?s (4096, 0) = 3"
    by (auto simp: entries_def page_at_def split: if_splits)
  have "vm_ok {4096, 8192} ?s"
    unfolding vm_ok_def e by (simp add: pg_ok_def e)
  from pccopy_correct [OF this, of 8192] e show ?thesis
    by (intro exI [of _ ?s]) (auto simp: pte_def intro: returns_mono2)
qed

end
