(* ===== verification/Blk.thy ===== *)
theory Blk
  imports Umem
begin

unbundle bit_operations_syntax

text \<open>
  The buffer cache, \<open>kern/fs/blk.c\<close>: a table of \<open>BCWIDTH\<close> rows of \<open>BCDEPTH\<close> buffers; a
  block of a device lives in the row of its number. A buffer is found again while it is
  referenced or valid, a free clean buffer is taken before a free dirty one, and a dirty
  one is written out first.
\<close>

section \<open>Operations\<close>

definition blk_write :: "bref \<Rightarrow> kst \<Rightarrow> ((errno + unit) \<times> kst) option" where
  "blk_write b s =
     (let buf = bufs s b in
      if \<not> b_dirty buf then Some (Inr (), s)
      else if \<not> b_valid buf then None
      else
        let s = upd_buf b (\<lambda>buf. buf\<lparr>b_dirty := False\<rparr>) s in
        if major (b_dev buf) \<ge> MAXBDEVS then None
        else case bd_write (blk_driver s (major (b_dev buf))) of
          None \<Rightarrow> Some (Inl ENODEV, s)
        | Some write \<Rightarrow>
            (case write (b_dev buf) (b_blk buf) (b_data buf) (disk s) of
               (None, dk) \<Rightarrow> Some (Inr (), s\<lparr>disk := dk\<rparr>)
             | (Some e, dk) \<Rightarrow> Some (Inl e, s\<lparr>disk := dk\<rparr>)))"

definition blk_find :: "nat \<Rightarrow> nat \<Rightarrow> kst \<Rightarrow> nat option" where
  "blk_find dev blk s =
     find (\<lambda>n. let b = bufs s (blk mod BCWIDTH, n) in
        (b_refcnt b \<noteq> 0 \<or> b_valid b) \<and> b_dev b = dev \<and> b_blk b = blk) [0..<BCDEPTH]"

text \<open>
  The two loops that take a buffer of row \<open>i\<close> step \<open>blk_nind\<close> round the row, at most
  \<open>n\<close> times.
\<close>

fun blk_scan :: "(blk_buffer \<Rightarrow> bool) \<Rightarrow> nat \<Rightarrow> nat \<Rightarrow> kst \<Rightarrow> nat option \<times> kst" where
  "blk_scan ok i 0 s = (None, s)"
| "blk_scan ok i (Suc n) s =
     (let k = blk_nind s; s = s\<lparr>blk_nind := (k + 1) mod BCDEPTH\<rparr> in
      if ok (bufs s (i, k)) then (Some k, s) else blk_scan ok i n s)"

definition blk_claim :: "nat \<Rightarrow> nat \<Rightarrow> bref \<Rightarrow> kst \<Rightarrow> kst" where
  "blk_claim dev blk b = upd_buf b (\<lambda>buf.
     buf\<lparr>b_valid := False, b_dirty := False, b_dev := dev, b_blk := blk, b_refcnt := 1\<rparr>)"

definition blk_get :: "nat \<Rightarrow> nat \<Rightarrow> kst \<Rightarrow> ((errno + bref) \<times> kst) option" where
  "blk_get dev blk s =
     (let i = blk mod BCWIDTH in
      case blk_find dev blk s of
        Some n \<Rightarrow> Some (Inr (i, n), upd_buf (i, n) (\<lambda>b. b\<lparr>b_refcnt := b_refcnt b + 1\<rparr>) s)
      | None \<Rightarrow>
          (case blk_scan (\<lambda>b. b_refcnt b = 0 \<and> \<not> b_dirty b) i BCDEPTH s of
             (Some n, s) \<Rightarrow> Some (Inr (i, n), blk_claim dev blk (i, n) s)
           | (None, s) \<Rightarrow>
               (case blk_scan (\<lambda>b. b_refcnt b = 0) i BCDEPTH s of
                  (Some n, s) \<Rightarrow> do {
                    s \<leftarrow> (if b_dirty (bufs s (i, n)) then map_option snd (blk_write (i, n) s) else Some s);
                    Some (Inr (i, n), blk_claim dev blk (i, n) s)
                  }
                | (None, s) \<Rightarrow> Some (Inl ENOMEM, s))))"

definition blk_put :: "bref \<Rightarrow> kst \<Rightarrow> kst option" where
  "blk_put b s =
     (if b_refcnt (bufs s b) = 0 then None
      else Some (upd_buf b (\<lambda>buf. buf\<lparr>b_refcnt := b_refcnt buf - 1\<rparr>) s))"

definition blk_read :: "nat \<Rightarrow> nat \<Rightarrow> kst \<Rightarrow> ((errno + bref) \<times> kst) option" where
  "blk_read dev blk s =
     (if major dev \<ge> MAXBDEVS then Some (Inl ENXIO, s)
      else case bd_read (blk_driver s (major dev)) of
        None \<Rightarrow> Some (Inl ENODEV, s)
      | Some read \<Rightarrow>
          bindE (blk_get dev blk s) (\<lambda>b s.
            if b_valid (bufs s b) then Some (Inr b, s)
            else case read dev blk (disk s) of (e, data, dk) \<Rightarrow>
              let s = upd_buf b (\<lambda>buf. buf\<lparr>b_data := data\<rparr>) (s\<lparr>disk := dk\<rparr>) in
              (case e of
                 Some e \<Rightarrow> do { s \<leftarrow> blk_put b s; Some (Inl e, s) }
               | None \<Rightarrow> Some (Inr b, upd_buf b (\<lambda>buf. buf\<lparr>b_valid := True\<rparr>) s))))"

text \<open>
  \<open>blk_sync\<close> with a \<open>timeout\<close> stops at the first buffer at which the time has run out;
  \<open>late\<close> says which, as the clock runs beside the loop. It ignores write errors.
\<close>

fun blk_sync_bufs :: "bool \<Rightarrow> (bref \<Rightarrow> bool) \<Rightarrow> bref list \<Rightarrow> kst \<Rightarrow> kst option" where
  "blk_sync_bufs invl late [] s = Some s"
| "blk_sync_bufs invl late (b # bs) s =
     (if late b then Some s
      else do {
        s \<leftarrow> (if b_dirty (bufs s b) then map_option snd (blk_write b s) else Some s);
        let s = (if invl \<and> b_refcnt (bufs s b) = 0 then upd_buf b (\<lambda>buf. buf\<lparr>b_valid := False\<rparr>) s else s);
        blk_sync_bufs invl late bs s
      })"

abbreviation all_bufs :: "bref list" where
  "all_bufs \<equiv> List.product [0..<BCWIDTH] [0..<BCDEPTH]"

definition blk_sync :: "bool \<Rightarrow> nat \<Rightarrow> (bref \<Rightarrow> bool) \<Rightarrow> kst \<Rightarrow> kst option" where
  "blk_sync invl timeout late s = blk_sync_bufs invl (\<lambda>b. timeout \<noteq> 0 \<and> late b) all_bufs s"

text \<open>
  The two copies between a block and the user. A range that does not fit in the block is
  outside the buffer.
\<close>

definition blk_upread :: "nat \<Rightarrow> nat \<Rightarrow> nat \<Rightarrow> nat \<Rightarrow> nat \<Rightarrow> kst \<Rightarrow> ((errno + unit) \<times> kst) option" where
  "blk_upread dev blk start len p s =
     bindE (blk_read dev blk s) (\<lambda>b s.
       if start + len > BLK_SIZE then None
       else do {
         (r, s) \<leftarrow> tucpy p (take len (drop start (b_data (bufs s b)))) s;
         s \<leftarrow> blk_put b s;
         Some (r, s)
       })"

definition blk_upwrite :: "nat \<Rightarrow> nat \<Rightarrow> nat \<Rightarrow> nat \<Rightarrow> nat \<Rightarrow> kst \<Rightarrow> ((errno + unit) \<times> kst) option" where
  "blk_upwrite dev blk start len p s =
     bindE (if len = BLK_SIZE then blk_get dev blk s else blk_read dev blk s) (\<lambda>b s.
       if start + len > BLK_SIZE then None
       else do {
         (r, s) \<leftarrow> fucpy p len s;
         let s = (case r of Inr bs \<Rightarrow> upd_buf b (\<lambda>buf. buf\<lparr>b_data := splice start bs (b_data buf)\<rparr>) s
                  | Inl _ \<Rightarrow> s);
         let s = upd_buf b (\<lambda>buf. buf\<lparr>b_valid := True, b_dirty := True\<rparr>) s;
         s \<leftarrow> blk_put b s;
         Some (map_sum id (\<lambda>_. ()) r, s)
       })"

section \<open>What the disk holds\<close>

text \<open>
  The hypotheses on the drivers: a read leaves the sectors alone and returns the sector or
  an error, and a write of a block stores it. A write that fails is lost, because
  \<open>blk_write\<close> clears the dirty flag before it writes and its callers ignore the error; the
  statements below that need it say that writes do not fail.
\<close>

definition read_ok :: "(nat \<Rightarrow> nat \<Rightarrow> disk \<Rightarrow> errno option \<times> byte list \<times> disk) \<Rightarrow> bool" where
  "read_ok rd \<longleftrightarrow> (\<forall>dev blk dk e data dk'. rd dev blk dk = (e, data, dk') \<longrightarrow>
     sectors dk' = sectors dk \<and> length data = BLK_SIZE \<and> (e = None \<longrightarrow> data = sectors dk dev blk))"

definition write_ok :: "(nat \<Rightarrow> nat \<Rightarrow> byte list \<Rightarrow> disk \<Rightarrow> errno option \<times> disk) \<Rightarrow> bool" where
  "write_ok wr \<longleftrightarrow> (\<forall>dev blk data dk e dk'. wr dev blk data dk = (e, dk') \<longrightarrow>
     e = None \<and> sectors dk' = (sectors dk)(dev := (sectors dk dev)(blk := data)))"

definition disk_ok :: "(nat \<Rightarrow> blk_driver) \<Rightarrow> bool" where
  "disk_ok drv \<longleftrightarrow> (\<forall>mj < MAXBDEVS. (\<forall>rd. bd_read (drv mj) = Some rd \<longrightarrow> read_ok rd)
     \<and> (\<forall>wr. bd_write (drv mj) = Some wr \<longrightarrow> write_ok wr))"

definition writable :: "kst \<Rightarrow> nat \<Rightarrow> bool" where
  "writable s dev \<longleftrightarrow> major dev < MAXBDEVS \<and> bd_write (blk_driver s (major dev)) \<noteq> None"

text \<open>
  The contents of the disks as the kernel sees them: the valid buffer of a block, and the
  sector where there is none.
\<close>

definition hit :: "kst \<Rightarrow> nat \<Rightarrow> nat \<Rightarrow> nat \<Rightarrow> bool" where
  "hit s dev blk n \<longleftrightarrow> (let b = bufs s (blk mod BCWIDTH, n) in
     b_valid b \<and> b_dev b = dev \<and> b_blk b = blk)"

definition blk_view :: "kst \<Rightarrow> nat \<Rightarrow> nat \<Rightarrow> byte list" where
  "blk_view s dev blk =
     (case find (hit s dev blk) [0..<BCDEPTH] of
        Some n \<Rightarrow> b_data (bufs s (blk mod BCWIDTH, n))
      | None \<Rightarrow> sectors (disk s) dev blk)"

text \<open>The invariant of the table.\<close>

definition buf_ok :: "kst \<Rightarrow> bref \<Rightarrow> bool" where
  "buf_ok s b \<longleftrightarrow> (let buf = bufs s b in
     length (b_data buf) = BLK_SIZE
     \<and> (b_refcnt buf \<noteq> 0 \<or> b_valid buf \<longrightarrow> b_blk buf mod BCWIDTH = fst b)
     \<and> (b_dirty buf \<longrightarrow> b_valid buf \<and> writable s (b_dev buf))
     \<and> (b_valid buf \<and> \<not> b_dirty buf \<longrightarrow> b_data buf = sectors (disk s) (b_dev buf) (b_blk buf)))"

definition in_use :: "blk_buffer \<Rightarrow> bool" where
  "in_use b \<longleftrightarrow> b_refcnt b \<noteq> 0 \<or> b_valid b"

definition bref_ok :: "bref \<Rightarrow> bool" where
  "bref_ok b \<longleftrightarrow> fst b < BCWIDTH \<and> snd b < BCDEPTH"

definition one_buf :: "(bref \<Rightarrow> blk_buffer) \<Rightarrow> bool" where
  "one_buf B \<longleftrightarrow> (\<forall>b b'. bref_ok b \<and> bref_ok b' \<and> in_use (B b) \<and> in_use (B b')
     \<and> b_dev (B b) = b_dev (B b') \<and> b_blk (B b) = b_blk (B b') \<longrightarrow> b = b')"

definition blk_inv :: "kst \<Rightarrow> bool" where
  "blk_inv s \<longleftrightarrow> disk_ok (blk_driver s) \<and> blk_nind s < BCDEPTH
     \<and> (\<forall>b. bref_ok b \<longrightarrow> buf_ok s b)
     \<and> one_buf (bufs s)"

lemma blk_inv_buf: "blk_inv s \<Longrightarrow> bref_ok b \<Longrightarrow> buf_ok s b"
  unfolding blk_inv_def by blast

lemma blk_inv_unique:
  "blk_inv s \<Longrightarrow> bref_ok b \<Longrightarrow> bref_ok b' \<Longrightarrow> in_use (bufs s b) \<Longrightarrow> in_use (bufs s b')
    \<Longrightarrow> b_dev (bufs s b) = b_dev (bufs s b') \<Longrightarrow> b_blk (bufs s b) = b_blk (bufs s b') \<Longrightarrow> b = b'"
  unfolding blk_inv_def one_buf_def by blast

lemma view_miss: "(\<And>n. n < BCDEPTH \<Longrightarrow> \<not> hit s dev blk n) \<Longrightarrow> blk_view s dev blk = sectors (disk s) dev blk"
  by (simp add: blk_view_def find_None_iff split: option.splits) (metis atLeastLessThan_iff find_Some_iff less_Suc_eq_0_disj set_upt nth_mem)

lemma find_hit: "find (hit s dev blk) [0..<BCDEPTH] = Some n \<Longrightarrow> n < BCDEPTH \<and> hit s dev blk n"
  by (metis add.left_neutral diff_zero find_Some_iff length_upt nth_upt)

lemma view_hit:
  assumes "blk_inv s" and "bref_ok b" and "b_valid (bufs s b)"
  shows "blk_view s (b_dev (bufs s b)) (b_blk (bufs s b)) = b_data (bufs s b)"
proof -
  let ?d = "b_dev (bufs s b)" and ?k = "b_blk (bufs s b)"
  obtain i n where b: "b = (i, n)" by (rule prod.exhaust)
  have "buf_ok s b" by (rule blk_inv_buf [OF assms(1,2)])
  then have bb: "(?k mod BCWIDTH, n) = b"
    using assms(3) b unfolding buf_ok_def Let_def by simp
  have h: "hit s ?d ?k n" unfolding hit_def Let_def bb using assms(3) by simp
  moreover have n: "n < BCDEPTH" using assms(2) b by (simp add: bref_ok_def)
  ultimately obtain m where m: "find (hit s ?d ?k) [0..<BCDEPTH] = Some m"
    by (cases "find (hit s ?d ?k) [0..<BCDEPTH]") (auto simp: find_None_iff)
  with find_hit have hm: "m < BCDEPTH" "hit s ?d ?k m" by blast+
  have "bref_ok (?k mod BCWIDTH, m)" using hm(1) by (simp add: bref_ok_def)
  moreover have "b_valid (bufs s (?k mod BCWIDTH, m))" "b_dev (bufs s (?k mod BCWIDTH, m)) = ?d"
    "b_blk (bufs s (?k mod BCWIDTH, m)) = ?k"
    using hm(2) by (simp_all add: hit_def Let_def)
  ultimately have "(?k mod BCWIDTH, m) = b"
    using assms by (intro blk_inv_unique [OF assms(1)]) (simp_all add: in_use_def)
  then show ?thesis by (simp add: blk_view_def m)
qed

lemma blk_viewI:
  assumes "blk_inv s"
    and "\<And>b. bref_ok b \<Longrightarrow> b_valid (bufs s b) \<Longrightarrow> v (b_dev (bufs s b)) (b_blk (bufs s b)) = b_data (bufs s b)"
    and "\<And>dev blk. (\<And>n. n < BCDEPTH \<Longrightarrow> \<not> hit s dev blk n) \<Longrightarrow> v dev blk = sectors (disk s) dev blk"
  shows "blk_view s = v"
proof (intro ext)
  fix dev blk
  show "blk_view s dev blk = v dev blk"
  proof (cases "\<exists>n < BCDEPTH. hit s dev blk n")
    case True
    then obtain n where n: "n < BCDEPTH" "hit s dev blk n" by blast
    let ?b = "(blk mod BCWIDTH, n)"
    have b: "bref_ok ?b" "b_valid (bufs s ?b)" "b_dev (bufs s ?b) = dev" "b_blk (bufs s ?b) = blk"
      using n by (simp_all add: hit_def Let_def bref_ok_def)
    from view_hit [OF assms(1) b(1,2)] assms(2) [OF b(1,2)] b(3,4) show ?thesis by simp
  next
    case False
    with view_miss assms(3) show ?thesis by metis
  qed
qed

section \<open>The operations keep the invariant and the contents of the disks\<close>

definition blk_frame :: "kst \<Rightarrow> kst \<Rightarrow> bool" where
  "blk_frame s s' \<longleftrightarrow> s'\<lparr>bufs := bufs s, blk_nind := blk_nind s, disk := disk s\<rparr> = s"

lemma blk_frame_simps:
  assumes "blk_frame s s'"
  shows "blk_driver s' = blk_driver s" "supers s' = supers s" "freedirt s' = freedirt s"
    "freemap s' = freemap s" "inodes s' = inodes s" "files s' = files s" "procs s' = procs s"
    "curr s' = curr s" "phys s' = phys s" "ptmem s' = ptmem s" "pg_flist s' = pg_flist s"
    "k_time s' = k_time s" "kmalloc s' = kmalloc s" "pact s' = pact s" "dosync s' = dosync s"
    "k_ticks s' = k_ticks s" "boottime s' = boottime s" "nidle s' = nidle s"
proof -
  obtain u where u: "s = u" "s'\<lparr>bufs := bufs s, blk_nind := blk_nind s, disk := disk s\<rparr> = u"
    using assms by (simp add: blk_frame_def)
  show "blk_driver s' = blk_driver s" "supers s' = supers s" "freedirt s' = freedirt s"
    "freemap s' = freemap s" "inodes s' = inodes s" "files s' = files s" "procs s' = procs s"
    "curr s' = curr s" "phys s' = phys s" "ptmem s' = ptmem s" "pg_flist s' = pg_flist s"
    "k_time s' = k_time s" "kmalloc s' = kmalloc s" "pact s' = pact s" "dosync s' = dosync s"
    "k_ticks s' = k_ticks s" "boottime s' = boottime s" "nidle s' = nidle s"
    unfolding u(1) by (simp_all add: u(2) [symmetric])
qed

lemma blk_frame_refl [simp]: "blk_frame s s"
  by (simp add: blk_frame_def)

lemma blk_frame_trans:
  assumes "blk_frame s t" and "blk_frame t u"
  shows "blk_frame s u"
proof -
  have "u\<lparr>bufs := bufs s, blk_nind := blk_nind s, disk := disk s\<rparr>
      = (u\<lparr>bufs := bufs t, blk_nind := blk_nind t, disk := disk t\<rparr>)\<lparr>bufs := bufs s, blk_nind := blk_nind s, disk := disk s\<rparr>"
    by simp
  also have "\<dots> = s" using assms by (simp add: blk_frame_def)
  finally show ?thesis by (simp add: blk_frame_def)
qed

lemma blk_frame_upd_buf [simp]: "blk_frame s (upd_buf b f s') = blk_frame s s'"
  by (simp add: blk_frame_def upd_buf_def)

lemma blk_frame_disk [simp]: "blk_frame s (s'\<lparr>disk := dk\<rparr>) = blk_frame s s'"
  by (simp add: blk_frame_def)

lemma blk_frame_nind [simp]: "blk_frame s (s'\<lparr>blk_nind := n\<rparr>) = blk_frame s s'"
  by (simp add: blk_frame_def)

definition keeps_blks :: "kst \<Rightarrow> kst \<Rightarrow> bool" where
  "keeps_blks s s' \<longleftrightarrow> blk_inv s' \<and> blk_frame s s' \<and> blk_view s' = blk_view s"

lemma keeps_blks_refl: "blk_inv s \<Longrightarrow> keeps_blks s s"
  by (simp add: keeps_blks_def)

lemma keeps_blks_trans: "keeps_blks s t \<Longrightarrow> keeps_blks t u \<Longrightarrow> keeps_blks s u"
  unfolding keeps_blks_def using blk_frame_trans by auto

lemma keeps_blks_inv: "keeps_blks s s' \<Longrightarrow> blk_inv s'"
  by (simp add: keeps_blks_def)

lemma keeps_blks_view: "keeps_blks s s' \<Longrightarrow> blk_view s' = blk_view s"
  by (simp add: keeps_blks_def)

lemma keeps_blks_simps:
  assumes "keeps_blks s s'"
  shows "blk_driver s' = blk_driver s" "supers s' = supers s" "freedirt s' = freedirt s"
    "freemap s' = freemap s" "inodes s' = inodes s" "files s' = files s" "procs s' = procs s"
    "curr s' = curr s" "phys s' = phys s" "ptmem s' = ptmem s" "pg_flist s' = pg_flist s"
    "k_time s' = k_time s" "kmalloc s' = kmalloc s" "pact s' = pact s" "dosync s' = dosync s"
    "k_ticks s' = k_ticks s" "boottime s' = boottime s" "nidle s' = nidle s"
    "writable s' = writable s"
  using assms blk_frame_simps [of s s'] by (simp_all add: keeps_blks_def writable_def fun_eq_iff)

text \<open>
  Replacing one buffer. The three ways in which the code does it are covered: the buffer
  stays in use for the same block with the same contents, or it stops being valid after its
  contents are on the disk, or it becomes valid with the contents of the disk.
\<close>

lemma blk_inv_upd:
  assumes "blk_inv s" and "bref_ok b"
    and s': "bufs s' = (bufs s)(b := buf)" "disk_ok (blk_driver s')" "blk_nind s' < BCDEPTH" "writable s' = writable s"
    and buf: "length (b_data buf) = BLK_SIZE" "in_use buf \<Longrightarrow> b_blk buf mod BCWIDTH = fst b"
      "b_dirty buf \<Longrightarrow> b_valid buf \<and> writable s (b_dev buf)"
      "b_valid buf \<Longrightarrow> \<not> b_dirty buf \<Longrightarrow> b_data buf = sectors (disk s') (b_dev buf) (b_blk buf)"
    and uniq: "\<And>b'. bref_ok b' \<Longrightarrow> b' \<noteq> b \<Longrightarrow> in_use (bufs s b') \<Longrightarrow> in_use buf
      \<Longrightarrow> b_dev (bufs s b') = b_dev buf \<Longrightarrow> b_blk (bufs s b') = b_blk buf \<Longrightarrow> False"
    and disk: "\<And>b'. bref_ok b' \<Longrightarrow> b' \<noteq> b \<Longrightarrow> b_valid (bufs s b') \<Longrightarrow> \<not> b_dirty (bufs s b')
      \<Longrightarrow> sectors (disk s') (b_dev (bufs s b')) (b_blk (bufs s b'))
        = sectors (disk s) (b_dev (bufs s b')) (b_blk (bufs s b'))"
  shows "blk_inv s'"
proof -
  have "buf_ok s' b'" if "bref_ok b'" for b'
  proof (cases "b' = b")
    case True
    then show ?thesis using buf by (simp add: buf_ok_def Let_def s' in_use_def)
  next
    case False
    with blk_inv_buf [OF assms(1) that] disk [OF that False] show ?thesis
      by (simp add: buf_ok_def Let_def s')
  qed
  moreover have "x = y" if "bref_ok x" "bref_ok y" "in_use (bufs s' x)" "in_use (bufs s' y)"
      "b_dev (bufs s' x) = b_dev (bufs s' y)" "b_blk (bufs s' x) = b_blk (bufs s' y)" for x y
    using that blk_inv_unique [OF assms(1) that(1,2)] uniq [of x] uniq [of y]
    by (cases "x = b"; cases "y = b") (auto simp: s')
  then have "one_buf (bufs s')" unfolding one_buf_def by blast
  ultimately show ?thesis unfolding blk_inv_def using s' by blast
qed

lemma blk_write_spec:
  assumes "blk_inv s" and "bref_ok b"
  obtains s' where "blk_write b s = Some (Inr (), s')" "keeps_blks s s'"
    "bufs s' = (bufs s)(b := (bufs s b)\<lparr>b_dirty := False\<rparr>)"
    "b_valid (bufs s b) \<Longrightarrow> sectors (disk s') (b_dev (bufs s b)) (b_blk (bufs s b)) = b_data (bufs s b)"
    "blk_nind s' = blk_nind s"
proof (cases "b_dirty (bufs s b)")
  case False
  then have "(bufs s)(b := (bufs s b)\<lparr>b_dirty := False\<rparr>) = bufs s" by (simp add: fun_upd_idem)
  moreover have "buf_ok s b" using assms by (rule blk_inv_buf)
  ultimately show ?thesis
    using that [of s] assms(1) False by (simp add: blk_write_def keeps_blks_refl buf_ok_def Let_def)
next
  case True
  let ?buf = "bufs s b"
  have ok: "buf_ok s b" using assms by (rule blk_inv_buf)
  with True have v: "b_valid ?buf" "major (b_dev ?buf) < MAXBDEVS"
    and w: "bd_write (blk_driver s (major (b_dev ?buf))) \<noteq> None"
    by (simp_all add: buf_ok_def Let_def writable_def)
  from w obtain wr where wr: "bd_write (blk_driver s (major (b_dev ?buf))) = Some wr" by blast
  obtain e dk where run: "wr (b_dev ?buf) (b_blk ?buf) (b_data ?buf) (disk s) = (e, dk)" by (rule prod.exhaust)
  have "disk_ok (blk_driver s)" using assms(1) by (simp add: blk_inv_def)
  with wr v(2) have "write_ok wr" by (simp add: disk_ok_def)
  with run have dk: "e = None" "sectors dk = (sectors (disk s))(b_dev ?buf := (sectors (disk s) (b_dev ?buf))(b_blk ?buf := b_data ?buf))"
    unfolding write_ok_def by blast+
  let ?s' = "(upd_buf b (\<lambda>buf. buf\<lparr>b_dirty := False\<rparr>) s)\<lparr>disk := dk\<rparr>"
  have bl: "blk_nind s < BCDEPTH" using assms(1) by (simp add: blk_inv_def)
  have other: "b_dev (bufs s b') \<noteq> b_dev ?buf \<or> b_blk (bufs s b') \<noteq> b_blk ?buf"
    if "bref_ok b'" "b' \<noteq> b" "b_valid (bufs s b')" for b'
    using blk_inv_unique [OF assms(1) that(1) assms(2)] that v(1) by (auto simp: in_use_def)
  have inv: "blk_inv ?s'"
  proof (rule blk_inv_upd [OF assms])
    show "bufs ?s' = (bufs s)(b := ?buf\<lparr>b_dirty := False\<rparr>)" by simp
    show "disk_ok (blk_driver ?s')" "blk_nind ?s' < BCDEPTH" using \<open>disk_ok (blk_driver s)\<close> bl by simp_all
    show "writable ?s' = writable s" by (simp add: writable_def fun_eq_iff)
  next
    fix b' assume b': "bref_ok b'" "b' \<noteq> b"
    show False if "in_use (bufs s b')" "in_use (?buf\<lparr>b_dirty := False\<rparr>)"
      "b_dev (bufs s b') = b_dev (?buf\<lparr>b_dirty := False\<rparr>)" "b_blk (bufs s b') = b_blk (?buf\<lparr>b_dirty := False\<rparr>)"
      using blk_inv_unique [OF assms(1) b'(1) assms(2)] that b'(2) by (simp add: in_use_def)
    show "sectors (disk ?s') (b_dev (bufs s b')) (b_blk (bufs s b'))
        = sectors (disk s) (b_dev (bufs s b')) (b_blk (bufs s b'))" if "b_valid (bufs s b')"
      using other [OF b' that] by (auto simp: dk)
  qed (use ok v dk in \<open>simp_all add: buf_ok_def Let_def in_use_def\<close>)
  have "blk_view ?s' = blk_view s"
  proof (rule blk_viewI [OF inv])
    fix b' assume "bref_ok b'" "b_valid (bufs ?s' b')"
    with view_hit [OF assms(1), of b'] show "blk_view s (b_dev (bufs ?s' b')) (b_blk (bufs ?s' b')) = b_data (bufs ?s' b')"
      by (simp split: if_splits)
  next
    fix dev blk
    assume no: "\<And>n. n < BCDEPTH \<Longrightarrow> \<not> hit ?s' dev blk n"
    have "hit ?s' dev blk n = hit s dev blk n" for n by (simp add: hit_def Let_def)
    with no have no': "\<And>n. n < BCDEPTH \<Longrightarrow> \<not> hit s dev blk n" by simp
    have "\<not> (dev = b_dev ?buf \<and> blk = b_blk ?buf)"
    proof
      assume "dev = b_dev ?buf \<and> blk = b_blk ?buf"
      moreover have "(b_blk ?buf mod BCWIDTH, snd b) = b"
        using ok v(1) by (cases b) (simp add: buf_ok_def Let_def)
      ultimately have "hit s dev blk (snd b)" using v(1) by (simp add: hit_def Let_def)
      with no' assms(2) show False by (simp add: bref_ok_def)
    qed
    with view_miss [OF no'] show "blk_view s dev blk = sectors (disk ?s') dev blk" by (auto simp: dk)
  qed
  with inv have "keeps_blks s ?s'" by (simp add: keeps_blks_def)
  moreover have "blk_write b s = Some (Inr (), ?s')"
    using True v wr run dk(1) by (simp add: blk_write_def Let_def upd_buf_def)
  ultimately show ?thesis using that [of ?s'] dk(2) by simp
qed

text \<open>References to buffers, and what an operation leaves of the buffers that are held.\<close>

definition blk_refs :: "kst \<Rightarrow> bref \<Rightarrow> nat" where
  "blk_refs s b = b_refcnt (bufs s b)"

definition held_same :: "kst \<Rightarrow> kst \<Rightarrow> bool" where
  "held_same s s' \<longleftrightarrow> (\<forall>b. b_refcnt (bufs s b) \<noteq> 0 \<longrightarrow>
     b_dev (bufs s' b) = b_dev (bufs s b) \<and> b_blk (bufs s' b) = b_blk (bufs s b)
     \<and> (b_valid (bufs s b) \<longrightarrow> b_valid (bufs s' b)))"

lemma blk_refs_cong: "bufs s' = bufs s \<Longrightarrow> blk_refs s' = blk_refs s"
  by (simp add: blk_refs_def fun_eq_iff)

lemma blk_scan_spec:
  assumes "blk_scan ok i n s = (r, s')" and "blk_nind s < BCDEPTH"
  shows "\<exists>k < BCDEPTH. s' = s\<lparr>blk_nind := k\<rparr>
    \<and> (case r of Some m \<Rightarrow> m < BCDEPTH \<and> ok (bufs s (i, m))
       | None \<Rightarrow> \<forall>j < n. \<not> ok (bufs s (i, (blk_nind s + j) mod BCDEPTH)))"
  using assms
proof (induction n arbitrary: s)
  case 0
  have "s = s\<lparr>blk_nind := blk_nind s\<rparr>" by simp
  with 0 show ?case by auto
next
  case (Suc n)
  let ?s = "s\<lparr>blk_nind := (blk_nind s + 1) mod BCDEPTH\<rparr>"
  show ?case
  proof (cases "ok (bufs s (i, blk_nind s))")
    case True
    with Suc.prems show ?thesis
      by (auto simp: Let_def intro!: exI [of _ "(blk_nind s + 1) mod BCDEPTH"])
  next
    case False
    with Suc.prems have run: "blk_scan ok i n ?s = (r, s')" by (simp add: Let_def)
    from Suc.IH [OF run] obtain k where k1: "k < BCDEPTH" "s' = ?s\<lparr>blk_nind := k\<rparr>"
      "case r of Some m \<Rightarrow> m < BCDEPTH \<and> ok (bufs ?s (i, m))
       | None \<Rightarrow> \<forall>j < n. \<not> ok (bufs ?s (i, (blk_nind ?s + j) mod BCDEPTH))" by auto
    then have k: "k < BCDEPTH" "s' = s\<lparr>blk_nind := k\<rparr>"
      "case r of Some m \<Rightarrow> m < BCDEPTH \<and> ok (bufs s (i, m))
       | None \<Rightarrow> \<forall>j < n. \<not> ok (bufs s (i, ((blk_nind s + 1) mod BCDEPTH + j) mod BCDEPTH))"
      by (cases r; simp)+
    have "\<not> ok (bufs s (i, (blk_nind s + j) mod BCDEPTH))" if "r = None" "j < Suc n" for j
    proof (cases j)
      case 0
      with False Suc.prems(2) show ?thesis by simp
    next
      case (Suc j')
      with k(3) that show ?thesis by (auto simp: mod_simps add.assoc)
    qed
    with k show ?thesis by (auto split: option.splits)
  qed
qed

lemma blk_scan_full:
  assumes "blk_scan ok i BCDEPTH s = (None, s')" and "blk_nind s < BCDEPTH" and "n < BCDEPTH"
  shows "\<not> ok (bufs s (i, n))"
proof -
  from blk_scan_spec [OF assms(1,2)]
  have *: "\<And>j. j < BCDEPTH \<Longrightarrow> \<not> ok (bufs s (i, (blk_nind s + j) mod BCDEPTH))" by auto
  have "(blk_nind s + (n + BCDEPTH - blk_nind s) mod BCDEPTH) mod BCDEPTH = n"
    using assms(2,3) by (simp add: mod_simps)
  with * [of "(n + BCDEPTH - blk_nind s) mod BCDEPTH"] show ?thesis by simp
qed

lemma blk_find_None_iff:
  "blk_find dev blk s = None \<longleftrightarrow> (\<forall>n < BCDEPTH. \<not> (in_use (bufs s (blk mod BCWIDTH, n))
     \<and> b_dev (bufs s (blk mod BCWIDTH, n)) = dev \<and> b_blk (bufs s (blk mod BCWIDTH, n)) = blk))"
  unfolding blk_find_def find_None_iff Let_def in_use_def by auto

lemma blk_find_None:
  assumes "blk_find dev blk s = None" and "blk_inv s" and "bref_ok b" and "in_use (bufs s b)"
    and "b_dev (bufs s b) = dev" and "b_blk (bufs s b) = blk"
  shows False
proof -
  have "buf_ok s b" using assms(2,3) by (rule blk_inv_buf)
  then have "b_blk (bufs s b) mod BCWIDTH = fst b"
    using assms(4) by (auto simp: buf_ok_def Let_def in_use_def)
  then have b: "(blk mod BCWIDTH, snd b) = b" unfolding assms(6) by (simp add: prod_eq_iff)
  have "\<not> (in_use (bufs s (blk mod BCWIDTH, n)) \<and> b_dev (bufs s (blk mod BCWIDTH, n)) = dev
      \<and> b_blk (bufs s (blk mod BCWIDTH, n)) = blk)" if "n < BCDEPTH" for n
    using assms(1) that unfolding blk_find_None_iff by blast
  moreover have "snd b < BCDEPTH" using assms(3) by (simp add: bref_ok_def)
  ultimately show False using assms(4-6) b by metis
qed

lemma keeps_blks_nind: "blk_inv s \<Longrightarrow> k < BCDEPTH \<Longrightarrow> keeps_blks s (s\<lparr>blk_nind := k\<rparr>)"
proof -
  assume "blk_inv s" "k < BCDEPTH"
  let ?s = "s\<lparr>blk_nind := k\<rparr>"
  have "buf_ok ?s = buf_ok s" by (simp add: fun_eq_iff buf_ok_def Let_def writable_def)
  with \<open>blk_inv s\<close> \<open>k < BCDEPTH\<close> have "blk_inv ?s" by (simp add: blk_inv_def)
  moreover have h: "hit ?s = hit s" by (simp add: fun_eq_iff hit_def)
  have "blk_view ?s = blk_view s"
    unfolding blk_view_def h by (auto simp: fun_eq_iff split: option.splits)
  ultimately show ?thesis by (simp add: keeps_blks_def)
qed

lemma blk_claim_spec:
  assumes "blk_inv s" and "bref_ok b" and "fst b = blk mod BCWIDTH" and "b_refcnt (bufs s b) = 0"
    and "\<not> b_dirty (bufs s b)" and "blk_find dev blk s = None"
  shows "keeps_blks s (blk_claim dev blk b s)"
proof -
  let ?s = "blk_claim dev blk b s" and ?buf = "bufs s b"
  have ok: "buf_ok s b" using assms(1,2) by (rule blk_inv_buf)
  have inv: "blk_inv ?s"
  proof (rule blk_inv_upd [OF assms(1,2)])
    show "bufs ?s = (bufs s)(b := ?buf\<lparr>b_valid := False, b_dirty := False, b_dev := dev, b_blk := blk, b_refcnt := 1\<rparr>)"
      by (simp add: blk_claim_def)
    show "disk_ok (blk_driver ?s)" "blk_nind ?s < BCDEPTH" "writable ?s = writable s"
      using assms(1) by (simp_all add: blk_claim_def blk_inv_def writable_def fun_eq_iff)
  next
    fix b' assume "bref_ok b'" "b' \<noteq> b" "in_use (bufs s b')"
    show False if "b_dev (bufs s b') = b_dev (?buf\<lparr>b_valid := False, b_dirty := False, b_dev := dev, b_blk := blk, b_refcnt := 1\<rparr>)"
      "b_blk (bufs s b') = b_blk (?buf\<lparr>b_valid := False, b_dirty := False, b_dev := dev, b_blk := blk, b_refcnt := 1\<rparr>)"
      using blk_find_None [OF assms(6,1) \<open>bref_ok b'\<close> \<open>in_use (bufs s b')\<close>] that by simp
  qed (use ok assms(3) in \<open>simp_all add: buf_ok_def Let_def blk_claim_def\<close>)
  have "blk_view ?s = blk_view s"
  proof (rule blk_viewI [OF inv])
    fix b' assume "bref_ok b'" "b_valid (bufs ?s b')"
    with view_hit [OF assms(1), of b'] show "blk_view s (b_dev (bufs ?s b')) (b_blk (bufs ?s b')) = b_data (bufs ?s b')"
      by (simp add: blk_claim_def split: if_splits)
  next
    fix d k
    assume no: "\<And>n. n < BCDEPTH \<Longrightarrow> \<not> hit ?s d k n"
    show "blk_view s d k = sectors (disk ?s) d k"
    proof (cases "\<exists>n < BCDEPTH. hit s d k n")
      case False
      with view_miss [of s d k] show ?thesis by (auto simp: blk_claim_def)
    next
      case True
      then obtain n where n: "n < BCDEPTH" "hit s d k n" by blast
      have "(k mod BCWIDTH, n) = b"
      proof (rule ccontr)
        assume "(k mod BCWIDTH, n) \<noteq> b"
        with n(2) have "hit ?s d k n" by (simp add: hit_def Let_def blk_claim_def)
        with no n(1) show False by blast
      qed
      with n(2) have "b_valid ?buf" "b_dev ?buf = d" "b_blk ?buf = k" by (auto simp: hit_def Let_def)
      with view_hit [OF assms(1,2)] ok assms(5) show ?thesis by (auto simp: buf_ok_def Let_def blk_claim_def)
    qed
  qed
  with inv show ?thesis by (simp add: keeps_blks_def blk_claim_def)
qed

lemma keeps_blks_refcnt:
  assumes "blk_inv s" and "bref_ok b" and "in_use (bufs s b)"
  shows "keeps_blks s (upd_buf b (\<lambda>buf. buf\<lparr>b_refcnt := n\<rparr>) s)"
proof -
  let ?s = "upd_buf b (\<lambda>buf. buf\<lparr>b_refcnt := n\<rparr>) s" and ?buf = "bufs s b"
  have ok: "buf_ok s b" using assms(1,2) by (rule blk_inv_buf)
  have inv: "blk_inv ?s"
  proof (rule blk_inv_upd [OF assms(1,2)])
    show "bufs ?s = (bufs s)(b := ?buf\<lparr>b_refcnt := n\<rparr>)" by simp
    show "disk_ok (blk_driver ?s)" "blk_nind ?s < BCDEPTH" "writable ?s = writable s"
      using assms(1) by (simp_all add: blk_inv_def writable_def fun_eq_iff)
  next
    fix b' assume "bref_ok b'" "b' \<noteq> b" "in_use (bufs s b')"
    then show False if "b_dev (bufs s b') = b_dev (?buf\<lparr>b_refcnt := n\<rparr>)" "b_blk (bufs s b') = b_blk (?buf\<lparr>b_refcnt := n\<rparr>)"
      using blk_inv_unique [OF assms(1) \<open>bref_ok b'\<close> assms(2)] assms(3) that by simp
  qed (use ok assms(3) in \<open>auto simp: buf_ok_def Let_def in_use_def\<close>)
  have h: "hit ?s = hit s" by (simp add: fun_eq_iff hit_def Let_def)
  have "blk_view ?s = blk_view s"
    unfolding blk_view_def h by (auto simp: fun_eq_iff split: option.splits)
  with inv show ?thesis by (simp add: keeps_blks_def)
qed


text \<open>
  \<open>blk_get\<close> returns a buffer of the block with one reference more, or fails because every
  buffer of the row is referenced.
\<close>

lemma blk_get_spec:
  assumes "blk_inv s"
  obtains (got) b s' where "blk_get dev blk s = Some (Inr b, s')" "keeps_blks s s'" "bref_ok b"
      "fst b = blk mod BCWIDTH" "b_dev (bufs s' b) = dev" "b_blk (bufs s' b) = blk"
      "blk_refs s' = (blk_refs s)(b := Suc (blk_refs s b))" "held_same s s'"
  | (full) s' where "blk_get dev blk s = Some (Inl ENOMEM, s')" "keeps_blks s s'" "bufs s' = bufs s"
      "blk_find dev blk s = None" "\<And>n. n < BCDEPTH \<Longrightarrow> b_refcnt (bufs s (blk mod BCWIDTH, n)) \<noteq> 0"
proof -
  let ?i = "blk mod BCWIDTH"
  have nind: "blk_nind s < BCDEPTH" using assms by (simp add: blk_inv_def)
  show ?thesis
  proof (cases "blk_find dev blk s")
    case (Some n)
    let ?b = "(?i, n)"
    from Some have n: "n < BCDEPTH" "in_use (bufs s ?b)" "b_dev (bufs s ?b) = dev" "b_blk (bufs s ?b) = blk"
      by (auto simp: blk_find_def find_Some_iff Let_def in_use_def)
    let ?s = "upd_buf ?b (\<lambda>b. b\<lparr>b_refcnt := b_refcnt b + 1\<rparr>) s"
    have eq: "?s = upd_buf ?b (\<lambda>buf. buf\<lparr>b_refcnt := b_refcnt (bufs s ?b) + 1\<rparr>) s" by (simp add: upd_buf_def)
    have ok: "bref_ok ?b" using n(1) by (simp add: bref_ok_def)
    have k: "keeps_blks s ?s" unfolding eq by (rule keeps_blks_refcnt [OF assms ok n(2)])
    have r: "blk_refs ?s = (blk_refs s)(?b := Suc (blk_refs s ?b))" by (simp add: blk_refs_def fun_eq_iff)
    have h: "held_same s ?s" by (simp add: held_same_def)
    show ?thesis
      by (rule got [OF _ k ok _ _ _ r h]) (use Some n in \<open>simp_all add: blk_get_def Let_def\<close>)
  next
    case None
    have claim: ?thesis
      if run: "blk_get dev blk s = Some (Inr b, blk_claim dev blk b t)" and b: "bref_ok b" "fst b = ?i"
        and t: "keeps_blks s t" "bufs t = (bufs s)(b := (bufs s b)\<lparr>b_dirty := False\<rparr>)" and free: "b_refcnt (bufs s b) = 0"
      for b t
    proof -
      have f: "blk_find dev blk t = None"
      proof -
        have "in_use (bufs t x) = in_use (bufs s x)" "b_dev (bufs t x) = b_dev (bufs s x)"
          "b_blk (bufs t x) = b_blk (bufs s x)" for x by (simp_all add: t(2) in_use_def)
        then show ?thesis using None by (simp add: blk_find_None_iff)
      qed
      have "keeps_blks t (blk_claim dev blk b t)"
        by (rule blk_claim_spec [OF keeps_blks_inv [OF t(1)] b _ _ f]) (simp_all add: t(2) free)
      with t(1) have k: "keeps_blks s (blk_claim dev blk b t)" by (rule keeps_blks_trans)
      have r: "blk_refs (blk_claim dev blk b t) = (blk_refs s)(b := Suc (blk_refs s b))"
        using free by (simp add: blk_refs_def fun_eq_iff blk_claim_def t(2))
      have h: "held_same s (blk_claim dev blk b t)"
        using free by (simp add: held_same_def blk_claim_def t(2))
      show ?thesis by (rule got [OF run k b _ _ r h]) (simp_all add: blk_claim_def)
    qed
    obtain r1 s1 where scan1: "blk_scan (\<lambda>b. b_refcnt b = 0 \<and> \<not> b_dirty b) ?i BCDEPTH s = (r1, s1)"
      by (rule prod.exhaust)
    from blk_scan_spec [OF this nind] obtain k1 where k1: "k1 < BCDEPTH" "s1 = s\<lparr>blk_nind := k1\<rparr>"
      "\<And>m. r1 = Some m \<Longrightarrow> m < BCDEPTH \<and> b_refcnt (bufs s (?i, m)) = 0 \<and> \<not> b_dirty (bufs s (?i, m))"
      by (cases r1) auto
    have s1: "keeps_blks s s1" unfolding k1(2) by (rule keeps_blks_nind [OF assms k1(1)])
    show ?thesis
    proof (cases r1)
      case (Some n)
      have idem: "bufs s1 = (bufs s)((?i, n) := (bufs s (?i, n))\<lparr>b_dirty := False\<rparr>)"
        using k1(3) [OF Some] by (simp add: k1(2) fun_upd_idem)
      show ?thesis
        by (rule claim [OF _ _ _ s1 idem]) (use None scan1 Some k1(3) in \<open>simp_all add: blk_get_def Let_def bref_ok_def\<close>)
    next
      case none1: None
      obtain r2 s2 where scan2: "blk_scan (\<lambda>b. b_refcnt b = 0) ?i BCDEPTH s1 = (r2, s2)" by (rule prod.exhaust)
      have nind1: "blk_nind s1 < BCDEPTH" using k1 by simp
      from blk_scan_spec [OF scan2 nind1] obtain k2 where k2: "k2 < BCDEPTH" "s2 = s1\<lparr>blk_nind := k2\<rparr>"
        "\<And>m. r2 = Some m \<Longrightarrow> m < BCDEPTH \<and> b_refcnt (bufs s1 (?i, m)) = 0"
        by (cases r2) auto
      have s2: "keeps_blks s s2" "bufs s2 = bufs s"
        using keeps_blks_trans [OF s1 keeps_blks_nind [OF keeps_blks_inv [OF s1] k2(1)]] by (simp_all add: k2(2) k1(2))
      show ?thesis
      proof (cases r2)
        case (Some n)
        then have n: "bref_ok (?i, n)" "b_refcnt (bufs s (?i, n)) = 0"
          using k2(3) by (simp_all add: bref_ok_def k1(2))
        obtain s3 where s3: "blk_write (?i, n) s2 = Some (Inr (), s3)" "keeps_blks s2 s3"
          "bufs s3 = (bufs s2)((?i, n) := (bufs s2 (?i, n))\<lparr>b_dirty := False\<rparr>)"
          by (rule blk_write_spec [OF keeps_blks_inv [OF s2(1)] n(1)])
        have "blk_get dev blk s = Some (Inr (?i, n), blk_claim dev blk (?i, n) s3)"
        proof (cases "b_dirty (bufs s2 (?i, n))")
          case True
          with None none1 Some scan1 scan2 s3(1) show ?thesis by (simp add: blk_get_def Let_def)
        next
          case False
          then have "s3 = s2" using s3(1) by (simp add: blk_write_def Let_def)
          with None none1 Some scan1 scan2 False show ?thesis by (simp add: blk_get_def Let_def)
        qed
        from claim [OF this n(1) _ keeps_blks_trans [OF s2(1) s3(2)]] s3(3) n(2) s2(2) show ?thesis by simp
      next
        case none2: None
        show ?thesis
        proof (rule full [OF _ s2 None])
          show "blk_get dev blk s = Some (Inl ENOMEM, s2)"
            using None none1 none2 scan1 scan2 by (simp add: blk_get_def Let_def)
          show "b_refcnt (bufs s (?i, n)) \<noteq> 0" if "n < BCDEPTH" for n
            using blk_scan_full [OF scan2 [unfolded none2] nind1 that] by (simp add: k1(2))
        qed
      qed
    qed
  qed
qed

lemma blk_put_spec:
  assumes "blk_inv s" and "bref_ok b" and "blk_refs s b \<noteq> 0"
  obtains s' where "blk_put b s = Some s'" "keeps_blks s s'" "blk_refs s' = (blk_refs s)(b := blk_refs s b - 1)"
    "held_same s s'"
proof -
  let ?s = "upd_buf b (\<lambda>buf. buf\<lparr>b_refcnt := b_refcnt buf - 1\<rparr>) s"
  have eq: "?s = upd_buf b (\<lambda>buf. buf\<lparr>b_refcnt := b_refcnt (bufs s b) - 1\<rparr>) s" by (simp add: upd_buf_def)
  have "keeps_blks s ?s"
    unfolding eq by (rule keeps_blks_refcnt [OF assms(1,2)]) (use assms(3) in \<open>simp add: in_use_def blk_refs_def\<close>)
  then show ?thesis
    by (rule that [rotated]) (use assms(3) in \<open>simp_all add: blk_put_def blk_refs_def fun_eq_iff held_same_def\<close>)
qed

lemma held_same_trans:
  assumes "held_same s t" and "held_same t u" and "\<And>b. blk_refs s b \<noteq> 0 \<Longrightarrow> blk_refs t b \<noteq> 0"
  shows "held_same s u"
  using assms unfolding held_same_def blk_refs_def by metis

lemma held_same_refl [simp]: "held_same s s"
  by (simp add: held_same_def)

text \<open>Filling a buffer that is held and not valid, and dropping a clean one that is not held.\<close>

lemma blk_fill_spec:
  assumes "blk_inv s" and "bref_ok b" and "\<not> b_valid (bufs s b)" and "blk_refs s b \<noteq> 0"
    and "sectors dk = sectors (disk s)" and "length data = BLK_SIZE"
    and "v \<Longrightarrow> data = sectors (disk s) (b_dev (bufs s b)) (b_blk (bufs s b))"
  shows "keeps_blks s (upd_buf b (\<lambda>buf. buf\<lparr>b_data := data, b_valid := v\<rparr>) (s\<lparr>disk := dk\<rparr>))"
proof -
  let ?s = "upd_buf b (\<lambda>buf. buf\<lparr>b_data := data, b_valid := v\<rparr>) (s\<lparr>disk := dk\<rparr>)" and ?buf = "bufs s b"
  have ok: "buf_ok s b" using assms(1,2) by (rule blk_inv_buf)
  have use: "in_use ?buf" using assms(4) by (simp add: in_use_def blk_refs_def)
  have inv: "blk_inv ?s"
  proof (rule blk_inv_upd [OF assms(1,2)])
    show "bufs ?s = (bufs s)(b := ?buf\<lparr>b_data := data, b_valid := v\<rparr>)" by simp
    show "disk_ok (blk_driver ?s)" "blk_nind ?s < BCDEPTH" "writable ?s = writable s"
      using assms(1) by (simp_all add: blk_inv_def writable_def fun_eq_iff)
  next
    fix b' assume "bref_ok b'" "b' \<noteq> b" "in_use (bufs s b')"
    then show False if "b_dev (bufs s b') = b_dev (?buf\<lparr>b_data := data, b_valid := v\<rparr>)"
      "b_blk (bufs s b') = b_blk (?buf\<lparr>b_data := data, b_valid := v\<rparr>)"
      using blk_inv_unique [OF assms(1) \<open>bref_ok b'\<close> assms(2)] use that by simp
  qed (use ok use assms(3,5-7) in \<open>auto simp: buf_ok_def Let_def in_use_def\<close>)
  have "blk_view ?s = blk_view s"
  proof (rule blk_viewI [OF inv])
    fix b' assume b': "bref_ok b'" "b_valid (bufs ?s b')"
    show "blk_view s (b_dev (bufs ?s b')) (b_blk (bufs ?s b')) = b_data (bufs ?s b')"
    proof (cases "b' = b")
      case False
      with view_hit [OF assms(1) b'(1)] b' show ?thesis by simp
    next
      case True
      then have "v" using b' by simp
      have "blk_view s (b_dev ?buf) (b_blk ?buf) = sectors (disk s) (b_dev ?buf) (b_blk ?buf)"
      proof (rule view_miss)
        fix n assume n: "n < BCDEPTH"
        show "\<not> hit s (b_dev ?buf) (b_blk ?buf) n"
        proof
          assume h: "hit s (b_dev ?buf) (b_blk ?buf) n"
          let ?x = "(b_blk ?buf mod BCWIDTH, n)"
          have x: "b_valid (bufs s ?x)" "b_dev (bufs s ?x) = b_dev ?buf" "b_blk (bufs s ?x) = b_blk ?buf"
            using h by (simp_all add: hit_def Let_def)
          have "bref_ok ?x" using n by (simp add: bref_ok_def)
          from blk_inv_unique [OF assms(1) this assms(2) _ use] x have "?x = b" by (simp add: in_use_def)
          with x(1) assms(3) show False by simp
        qed
      qed
      with True assms(7) [OF \<open>v\<close>] show ?thesis by simp
    qed
  next
    fix d k
    assume no: "\<And>n. n < BCDEPTH \<Longrightarrow> \<not> hit ?s d k n"
    have "\<not> hit s d k n" if "n < BCDEPTH" for n
    proof
      assume h: "hit s d k n"
      then have "(k mod BCWIDTH, n) \<noteq> b" using assms(3) by (auto simp: hit_def Let_def)
      with h have "hit ?s d k n" by (simp add: hit_def Let_def)
      with no that show False by blast
    qed
    from view_miss [OF this] show "blk_view s d k = sectors (disk ?s) d k" by (simp add: assms(5))
  qed
  with inv show ?thesis by (simp add: keeps_blks_def)
qed

lemma blk_read_spec:
  assumes "blk_inv s"
  obtains (got) b s' where "blk_read dev blk s = Some (Inr b, s')" "keeps_blks s s'" "bref_ok b"
      "b_valid (bufs s' b)" "b_dev (bufs s' b) = dev" "b_blk (bufs s' b) = blk"
      "b_data (bufs s' b) = blk_view s dev blk"
      "blk_refs s' = (blk_refs s)(b := Suc (blk_refs s b))" "held_same s s'"
  | (err) e s' where "blk_read dev blk s = Some (Inl e, s')" "keeps_blks s s'" "blk_refs s' = blk_refs s"
      "held_same s s'"
proof -
  consider "major dev \<ge> MAXBDEVS" | "major dev < MAXBDEVS" "bd_read (blk_driver s (major dev)) = None"
    | rd where "major dev < MAXBDEVS" "bd_read (blk_driver s (major dev)) = Some rd"
    by (metis not_le option.exhaust)
  then show ?thesis
  proof cases
    case 1
    then show ?thesis
      by (intro err [of ENXIO s]) (simp_all add: blk_read_def keeps_blks_refl [OF assms])
  next
    case 2
    then show ?thesis
      by (intro err [of ENODEV s]) (simp_all add: blk_read_def keeps_blks_refl [OF assms])
  next
    case 3
    have rd: "read_ok rd" using assms 3 by (simp add: blk_inv_def disk_ok_def)
    show ?thesis
    proof (rule blk_get_spec [OF assms, of dev blk])
      fix s1
      assume g: "blk_get dev blk s = Some (Inl ENOMEM, s1)" "keeps_blks s s1" "bufs s1 = bufs s"
      show ?thesis
        by (rule err [of ENOMEM s1]) (use 3 g in \<open>simp_all add: blk_read_def blk_refs_def held_same_def fun_eq_iff\<close>)
    next
      fix b s1
      assume g: "blk_get dev blk s = Some (Inr b, s1)" "keeps_blks s s1" "bref_ok b" "b_dev (bufs s1 b) = dev"
        "b_blk (bufs s1 b) = blk" "blk_refs s1 = (blk_refs s)(b := Suc (blk_refs s b))" "held_same s s1"
      have inv1: "blk_inv s1" using g(2) by (rule keeps_blks_inv)
      have ref1: "blk_refs s1 b \<noteq> 0" using g(6) by simp
      show ?thesis
      proof (cases "b_valid (bufs s1 b)")
        case True
        have "b_data (bufs s1 b) = blk_view s dev blk"
          using view_hit [OF inv1 g(3) True] g(4,5) keeps_blks_view [OF g(2)] by simp
        with True 3 g show ?thesis by (intro got [of b s1]) (simp_all add: blk_read_def)
      next
        case False
        obtain e data dk where run: "rd dev blk (disk s1) = (e, data, dk)" by (metis prod.exhaust)
        with rd have r: "sectors dk = sectors (disk s1)" "length data = BLK_SIZE"
          "e = None \<Longrightarrow> data = sectors (disk s1) dev blk"
          unfolding read_ok_def by blast+
        let ?u = "\<lambda>v. upd_buf b (\<lambda>buf. buf\<lparr>b_data := data, b_valid := v\<rparr>) (s1\<lparr>disk := dk\<rparr>)"
        have held: "held_same s (?u v)" for v
          unfolding held_same_def
        proof (intro allI impI)
          fix x assume "b_refcnt (bufs s x) \<noteq> 0"
          then have "b_dev (bufs s1 x) = b_dev (bufs s x) \<and> b_blk (bufs s1 x) = b_blk (bufs s x)
              \<and> (b_valid (bufs s x) \<longrightarrow> b_valid (bufs s1 x))"
            using g(7) unfolding held_same_def by blast
          then show "b_dev (bufs (?u v) x) = b_dev (bufs s x) \<and> b_blk (bufs (?u v) x) = b_blk (bufs s x)
              \<and> (b_valid (bufs s x) \<longrightarrow> b_valid (bufs (?u v) x))"
            using False by (cases "x = b") auto
        qed
        have refs: "blk_refs (?u v) = blk_refs s1" for v by (simp add: blk_refs_def fun_eq_iff)
        show ?thesis
        proof (cases e)
          case None
          have k: "keeps_blks s1 (?u True)"
            by (rule blk_fill_spec [OF inv1 g(3) False ref1 r(1,2)]) (use r(3) None g(4,5) in simp)
          have eq: "blk_read dev blk s = Some (Inr b, ?u True)"
            using 3 g(1) False run None by (simp add: blk_read_def Let_def upd_buf_def)
          have "blk_view s dev blk = data"
            using view_hit [OF keeps_blks_inv [OF k] g(3)] keeps_blks_view [OF k] keeps_blks_view [OF g(2)] g(4,5) by simp
          then show ?thesis
            by (intro got [of b, OF eq keeps_blks_trans [OF g(2) k] g(3)]) (simp_all add: g held refs)
        next
          case (Some e')
          have "(bufs s1)(b := (bufs s1 b)\<lparr>b_data := data, b_valid := False\<rparr>) = (bufs s1)(b := (bufs s1 b)\<lparr>b_data := data\<rparr>)"
            using False by (cases "bufs s1 b") simp
          then have u: "?u False = upd_buf b (\<lambda>buf. buf\<lparr>b_data := data\<rparr>) (s1\<lparr>disk := dk\<rparr>)"
            by (simp add: upd_buf_def)
          have k: "keeps_blks s1 (?u False)"
            by (rule blk_fill_spec [OF inv1 g(3) False ref1 r(1,2)]) simp
          obtain s2 where p: "blk_put b (?u False) = Some s2" "keeps_blks (?u False) s2"
            "blk_refs s2 = (blk_refs (?u False))(b := blk_refs (?u False) b - 1)" "held_same (?u False) s2"
            by (rule blk_put_spec [OF keeps_blks_inv [OF k] g(3)]) (use ref1 refs in simp)
          have "blk_read dev blk s = Some (Inl e', s2)"
            using 3 g(1) False run Some p(1) by (simp add: blk_read_def Let_def u)
          moreover have "keeps_blks s s2"
            by (rule keeps_blks_trans [OF g(2) keeps_blks_trans [OF k p(2)]])
          moreover have "blk_refs s2 = blk_refs s" using p(3) g(6) by (simp add: refs)
          moreover have "held_same s s2"
            by (rule held_same_trans [OF held p(4)]) (simp add: refs g(6))
          ultimately show ?thesis by (rule err)
        qed
      qed
    qed
  qed
qed

text \<open>
  Storing new contents in a buffer that is held: the statements
  \<open>memcpy(b->data, ...); b->valid = 1; b->dirty = 1\<close>.
\<close>

definition blk_store :: "bref \<Rightarrow> byte list \<Rightarrow> kst \<Rightarrow> kst" where
  "blk_store b data = upd_buf b (\<lambda>buf. buf\<lparr>b_data := data, b_valid := True, b_dirty := True\<rparr>)"

definition blk_holds :: "kst \<Rightarrow> bref \<Rightarrow> nat \<Rightarrow> nat \<Rightarrow> bool" where
  "blk_holds s b dev blk \<longleftrightarrow> bref_ok b \<and> blk_refs s b \<noteq> 0 \<and> b_dev (bufs s b) = dev \<and> b_blk (bufs s b) = blk"

definition put_view :: "nat \<Rightarrow> nat \<Rightarrow> byte list \<Rightarrow> (nat \<Rightarrow> nat \<Rightarrow> byte list) \<Rightarrow> nat \<Rightarrow> nat \<Rightarrow> byte list" where
  "put_view dev blk data v = v(dev := (v dev)(blk := data))"

lemma put_view_same [simp]: "put_view dev blk data v dev blk = data"
  by (simp add: put_view_def)

lemma put_view_other [simp]: "dev' \<noteq> dev \<or> blk' \<noteq> blk \<Longrightarrow> put_view dev blk data v dev' blk' = v dev' blk'"
  by (auto simp: put_view_def)

lemma blk_store_spec:
  assumes "blk_inv s" and "blk_holds s b dev blk" and "writable s dev" and "length data = BLK_SIZE"
  shows "blk_inv (blk_store b data s)" "blk_view (blk_store b data s) = put_view dev blk data (blk_view s)"
    "blk_refs (blk_store b data s) = blk_refs s" "blk_holds (blk_store b data s) b dev blk"
proof -
  let ?s = "blk_store b data s" and ?buf = "bufs s b"
  have b: "bref_ok b" "in_use ?buf" "b_dev ?buf = dev" "b_blk ?buf = blk"
    using assms(2) by (simp_all add: blk_holds_def in_use_def blk_refs_def)
  have ok: "buf_ok s b" using assms(1) b(1) by (rule blk_inv_buf)
  show inv: "blk_inv ?s"
  proof (rule blk_inv_upd [OF assms(1) b(1)])
    show "bufs ?s = (bufs s)(b := ?buf\<lparr>b_data := data, b_valid := True, b_dirty := True\<rparr>)" by (simp add: blk_store_def)
    show "disk_ok (blk_driver ?s)" "blk_nind ?s < BCDEPTH" "writable ?s = writable s"
      using assms(1) by (simp_all add: blk_store_def blk_inv_def writable_def fun_eq_iff)
  next
    fix b' assume "bref_ok b'" "b' \<noteq> b" "in_use (bufs s b')"
    then show False if "b_dev (bufs s b') = b_dev (?buf\<lparr>b_data := data, b_valid := True, b_dirty := True\<rparr>)"
      "b_blk (bufs s b') = b_blk (?buf\<lparr>b_data := data, b_valid := True, b_dirty := True\<rparr>)"
      using blk_inv_unique [OF assms(1) \<open>bref_ok b'\<close> b(1)] b(2) that by simp
  qed (use ok b assms(3,4) in \<open>auto simp: buf_ok_def Let_def in_use_def blk_store_def\<close>)
  show "blk_view ?s = put_view dev blk data (blk_view s)"
  proof (rule blk_viewI [OF inv])
    fix b' assume b': "bref_ok b'" "b_valid (bufs ?s b')"
    show "put_view dev blk data (blk_view s) (b_dev (bufs ?s b')) (b_blk (bufs ?s b')) = b_data (bufs ?s b')"
    proof (cases "b' = b")
      case True
      then show ?thesis using b by (simp add: blk_store_def)
    next
      case False
      then have same: "bufs ?s b' = bufs s b'" by (simp add: blk_store_def)
      then have v: "b_valid (bufs s b')" using b'(2) by simp
      have "b_dev (bufs s b') \<noteq> dev \<or> b_blk (bufs s b') \<noteq> blk"
        using blk_inv_unique [OF assms(1) b'(1) b(1) _ b(2)] v False b(3,4) by (auto simp: in_use_def)
      with view_hit [OF assms(1) b'(1) v] same show ?thesis by simp
    qed
  next
    fix d k
    assume no: "\<And>n. n < BCDEPTH \<Longrightarrow> \<not> hit ?s d k n"
    have row: "(blk mod BCWIDTH, snd b) = b"
      using ok b by (auto simp: buf_ok_def Let_def in_use_def prod_eq_iff)
    have "\<not> (d = dev \<and> k = blk)"
    proof
      assume "d = dev \<and> k = blk"
      then have "hit ?s d k (snd b)" using b row by (simp add: hit_def Let_def blk_store_def)
      with no b(1) show False by (simp add: bref_ok_def)
    qed
    moreover have "\<not> hit s d k n" if "n < BCDEPTH" for n
    proof
      assume h: "hit s d k n"
      then have "hit ?s d k n" by (auto simp: hit_def Let_def blk_store_def)
      with no that show False by blast
    qed
    ultimately show "put_view dev blk data (blk_view s) d k = sectors (disk ?s) d k"
      using view_miss [of s d k] by (auto simp: blk_store_def)
  qed
  show "blk_refs ?s = blk_refs s" "blk_holds ?s b dev blk"
    using assms(2) by (simp_all add: blk_store_def blk_refs_def blk_holds_def fun_eq_iff)
qed

lemma blk_irrelevant:
  assumes "bufs s' = bufs s" and "blk_nind s' = blk_nind s" and "disk s' = disk s" and "blk_driver s' = blk_driver s"
  shows "blk_inv s' = blk_inv s" "blk_view s' = blk_view s" "blk_refs s' = blk_refs s"
    "blk_holds s' = blk_holds s" "writable s' = writable s"
proof -
  show w: "writable s' = writable s" by (simp add: writable_def assms fun_eq_iff)
  have "buf_ok s' = buf_ok s" by (simp add: buf_ok_def assms w fun_eq_iff)
  then show "blk_inv s' = blk_inv s" by (simp add: blk_inv_def assms)
  have h: "hit s' = hit s" by (simp add: hit_def assms fun_eq_iff)
  show "blk_view s' = blk_view s" unfolding blk_view_def h assms ..
  show r: "blk_refs s' = blk_refs s" by (simp add: blk_refs_def assms fun_eq_iff)
  show "blk_holds s' = blk_holds s" by (simp add: blk_holds_def assms r fun_eq_iff)
qed

section \<open>The interface: a store of blocks\<close>

text \<open>
  What the file system relies on. \<open>view\<close> is what the disks hold, \<open>keeps s s'\<close> says that
  they hold the same and that nothing else has changed, \<open>holds s b dev blk\<close> that \<open>b\<close> is
  a referenced buffer of the block, \<open>has\<close> that it also has the contents of the block, and
  \<open>stays s s'\<close> that the buffers referenced in \<open>s\<close> are still those of their blocks.
\<close>

locale block_store =
  fixes rd gt :: "nat \<Rightarrow> nat \<Rightarrow> 's \<Rightarrow> ((errno + 'b) \<times> 's) option"
    and put :: "'b \<Rightarrow> 's \<Rightarrow> 's option"
    and store :: "'b \<Rightarrow> byte list \<Rightarrow> 's \<Rightarrow> 's"
    and data :: "'s \<Rightarrow> 'b \<Rightarrow> byte list"
    and refs :: "'s \<Rightarrow> 'b \<Rightarrow> nat"
    and holds has :: "'s \<Rightarrow> 'b \<Rightarrow> nat \<Rightarrow> nat \<Rightarrow> bool"
    and view :: "'s \<Rightarrow> nat \<Rightarrow> nat \<Rightarrow> byte list"
    and keeps stays :: "'s \<Rightarrow> 's \<Rightarrow> bool"
    and inv :: "'s \<Rightarrow> bool"
    and rw :: "'s \<Rightarrow> nat \<Rightarrow> bool"
  assumes read: "inv s \<Longrightarrow>
      (\<exists>b s'. rd dev blk s = Some (Inr b, s') \<and> keeps s s' \<and> stays s s' \<and> has s' b dev blk
         \<and> refs s' = (refs s)(b := Suc (refs s b)))
      \<or> (\<exists>e s'. rd dev blk s = Some (Inl e, s') \<and> keeps s s' \<and> stays s s' \<and> refs s' = refs s)"
    and get: "inv s \<Longrightarrow>
      (\<exists>b s'. gt dev blk s = Some (Inr b, s') \<and> keeps s s' \<and> stays s s' \<and> holds s' b dev blk
         \<and> refs s' = (refs s)(b := Suc (refs s b)))
      \<or> (\<exists>e s'. gt dev blk s = Some (Inl e, s') \<and> keeps s s' \<and> stays s s' \<and> refs s' = refs s)"
    and put: "inv s \<Longrightarrow> holds s b dev blk \<Longrightarrow>
      \<exists>s'. put b s = Some s' \<and> keeps s s' \<and> stays s s' \<and> refs s' = (refs s)(b := refs s b - 1)"
    and store: "inv s \<Longrightarrow> holds s b dev blk \<Longrightarrow> rw s dev \<Longrightarrow> length d = BLK_SIZE \<Longrightarrow>
      inv (store b d s) \<and> view (store b d s) = put_view dev blk d (view s)
        \<and> refs (store b d s) = refs s \<and> has (store b d s) b dev blk \<and> stays s (store b d s)"
    and keeps: "keeps s s' \<Longrightarrow> inv s' \<and> view s' = view s \<and> rw s' = rw s"
    and keeps_trans: "keeps s s' \<Longrightarrow> keeps s' s'' \<Longrightarrow> keeps s s''"
    and has_data: "inv s \<Longrightarrow> has s b dev blk \<Longrightarrow> data s b = view s dev blk \<and> length (data s b) = BLK_SIZE \<and> holds s b dev blk"
    and has_stays: "has s b dev blk \<Longrightarrow> stays s s' \<Longrightarrow> refs s' b \<noteq> 0 \<Longrightarrow> has s' b dev blk"
    and stays_trans: "stays s s' \<Longrightarrow> stays s' s'' \<Longrightarrow> (\<And>b. refs s b \<noteq> 0 \<Longrightarrow> refs s' b \<noteq> 0) \<Longrightarrow> stays s s''"
begin

lemma rd_rule:
  assumes "inv s"
    and "\<And>b s'. keeps s s' \<Longrightarrow> stays s s' \<Longrightarrow> inv s' \<Longrightarrow> has s' b dev blk \<Longrightarrow> data s' b = view s dev blk
      \<Longrightarrow> refs s' = (refs s)(b := Suc (refs s b)) \<Longrightarrow> returns (f b s') Q"
    and "\<And>e s'. keeps s s' \<Longrightarrow> stays s s' \<Longrightarrow> inv s' \<Longrightarrow> refs s' = refs s \<Longrightarrow> Q (Inl e, s')"
  shows "returns (bindE (rd dev blk s) f) Q"
  using read [OF assms(1), of dev blk]
proof (elim disjE exE conjE)
  fix b s' assume "rd dev blk s = Some (Inr b, s')" "keeps s s'" "stays s s'" "has s' b dev blk"
    "refs s' = (refs s)(b := Suc (refs s b))"
  then show ?thesis using assms(2) keeps [of s s'] has_data [of s' b dev blk] by simp
next
  fix e s' assume "rd dev blk s = Some (Inl e, s')" "keeps s s'" "stays s s'" "refs s' = refs s"
  then show ?thesis using assms(3) keeps [of s s'] by simp
qed

lemma gt_rule:
  assumes "inv s"
    and "\<And>b s'. keeps s s' \<Longrightarrow> stays s s' \<Longrightarrow> inv s' \<Longrightarrow> holds s' b dev blk
      \<Longrightarrow> refs s' = (refs s)(b := Suc (refs s b)) \<Longrightarrow> returns (f b s') Q"
    and "\<And>e s'. keeps s s' \<Longrightarrow> stays s s' \<Longrightarrow> inv s' \<Longrightarrow> refs s' = refs s \<Longrightarrow> Q (Inl e, s')"
  shows "returns (bindE (gt dev blk s) f) Q"
  using get [OF assms(1), of dev blk]
proof (elim disjE exE conjE)
  fix b s' assume "gt dev blk s = Some (Inr b, s')" "keeps s s'" "stays s s'" "holds s' b dev blk"
    "refs s' = (refs s)(b := Suc (refs s b))"
  then show ?thesis using assms(2) keeps [of s s'] by simp
next
  fix e s' assume "gt dev blk s = Some (Inl e, s')" "keeps s s'" "stays s s'" "refs s' = refs s"
  then show ?thesis using assms(3) keeps [of s s'] by simp
qed

lemma put_rule:
  assumes "inv s" and "holds s b dev blk"
    and "\<And>s'. keeps s s' \<Longrightarrow> stays s s' \<Longrightarrow> inv s' \<Longrightarrow> refs s' = (refs s)(b := refs s b - 1) \<Longrightarrow> returns (f s') Q"
  shows "returns (Option.bind (put b s) f) Q"
  using put [OF assms(1,2)] assms(3) keeps by (auto simp: returns_bind)

text \<open>Reading a block and letting it go, and overwriting a whole block.\<close>

lemma inspect:
  assumes "inv s"
  shows "returns (bindE (rd dev blk s) (\<lambda>b s. do { s' \<leftarrow> put b s; Some (Inr (f (data s b)), s') }))
    (\<lambda>(r, s'). keeps s s' \<and> stays s s' \<and> refs s' = refs s \<and> (\<forall>x. r = Inr x \<longrightarrow> x = f (view s dev blk)))"
proof (rule rd_rule [OF assms])
  fix b s1
  assume 1: "keeps s s1" "stays s s1" "inv s1" "has s1 b dev blk" "data s1 b = view s dev blk"
    "refs s1 = (refs s)(b := Suc (refs s b))"
  have h: "holds s1 b dev blk" using has_data [OF 1(3,4)] by simp
  show "returns (do { s' \<leftarrow> put b s1; Some (Inr (f (data s1 b)), s') })
     (\<lambda>(r, s'). keeps s s' \<and> stays s s' \<and> refs s' = refs s \<and> (\<forall>x. r = Inr x \<longrightarrow> x = f (view s dev blk)))"
  proof (rule put_rule [OF 1(3) h])
    fix s' assume s': "keeps s1 s'" "stays s1 s'" "refs s' = (refs s1)(b := refs s1 b - 1)"
    have "stays s s'" by (rule stays_trans [OF 1(2) s'(2)]) (simp add: 1(6))
    then show "returns (Some (Inr (f (data s1 b)), s'))
     (\<lambda>(r, s'). keeps s s' \<and> stays s s' \<and> refs s' = refs s \<and> (\<forall>x. r = Inr x \<longrightarrow> x = f (view s dev blk)))"
      using 1 s' keeps_trans [OF 1(1)] by simp
  qed
qed simp

lemma overwrite:
  assumes "inv s" and "rw s dev" and "length d = BLK_SIZE"
  shows "returns (bindE (gt dev blk s) (\<lambda>b s. do { s' \<leftarrow> put b (store b d s); Some (Inr (), s') }))
    (\<lambda>(r, s'). inv s' \<and> refs s' = refs s \<and> stays s s'
       \<and> (case r of Inr _ \<Rightarrow> view s' = put_view dev blk d (view s) | Inl e \<Rightarrow> keeps s s'))"
proof (rule gt_rule [OF assms(1)])
  fix b s1
  assume 1: "keeps s s1" "stays s s1" "inv s1" "holds s1 b dev blk" "refs s1 = (refs s)(b := Suc (refs s b))"
  from keeps [OF 1(1)] have k: "view s1 = view s" "rw s1 dev" using assms(2) by simp_all
  note st = store [OF 1(3,4) k(2) assms(3)]
  then have h: "holds (store b d s1) b dev blk" using has_data by blast
  show "returns (do { s' \<leftarrow> put b (store b d s1); Some (Inr (), s') }) (\<lambda>(r, s'). inv s' \<and> refs s' = refs s \<and> stays s s'
       \<and> (case r of Inr _ \<Rightarrow> view s' = put_view dev blk d (view s) | Inl e \<Rightarrow> keeps s s'))"
  proof (rule put_rule [OF _ h])
    show "inv (store b d s1)" using st by simp
    fix s' assume s': "keeps (store b d s1) s'" "stays (store b d s1) s'"
      "refs s' = (refs (store b d s1))(b := refs (store b d s1) b - 1)"
    have "stays s (store b d s1)" using st by (intro stays_trans [OF 1(2)]) (simp_all add: 1(5))
    then have "stays s s'" using s'(2) by (rule stays_trans) (use st 1(5) in simp)
    with st k 1 s' keeps [of "store b d s1" s'] show "returns (Some (Inr (), s')) (\<lambda>(r, s'). inv s' \<and> refs s' = refs s \<and> stays s s'
       \<and> (case r of Inr _ \<Rightarrow> view s' = put_view dev blk d (view s) | Inl e \<Rightarrow> keeps s s'))" by simp
  qed
qed simp

end

definition blk_has :: "kst \<Rightarrow> bref \<Rightarrow> nat \<Rightarrow> nat \<Rightarrow> bool" where
  "blk_has s b dev blk \<longleftrightarrow> blk_holds s b dev blk \<and> b_valid (bufs s b)"

lemma blk_has_data:
  "blk_inv s \<Longrightarrow> blk_has s b dev blk
    \<Longrightarrow> b_data (bufs s b) = blk_view s dev blk \<and> length (b_data (bufs s b)) = BLK_SIZE \<and> blk_holds s b dev blk"
  using view_hit [of s b] blk_inv_buf [of s b] by (auto simp: blk_has_def blk_holds_def buf_ok_def Let_def)

interpretation cache: block_store blk_read blk_get blk_put blk_store "\<lambda>s b. b_data (bufs s b)"
  blk_refs blk_holds blk_has blk_view keeps_blks held_same blk_inv writable
proof unfold_locales
  fix s dev blk assume inv: "blk_inv s"
  show "(\<exists>b s'. blk_read dev blk s = Some (Inr b, s') \<and> keeps_blks s s' \<and> held_same s s' \<and> blk_has s' b dev blk
         \<and> blk_refs s' = (blk_refs s)(b := Suc (blk_refs s b)))
      \<or> (\<exists>e s'. blk_read dev blk s = Some (Inl e, s') \<and> keeps_blks s s' \<and> held_same s s' \<and> blk_refs s' = blk_refs s)"
    by (rule blk_read_spec [OF inv, of dev blk]) (simp_all add: blk_holds_def blk_has_def)
  show "(\<exists>b s'. blk_get dev blk s = Some (Inr b, s') \<and> keeps_blks s s' \<and> held_same s s' \<and> blk_holds s' b dev blk
         \<and> blk_refs s' = (blk_refs s)(b := Suc (blk_refs s b)))
      \<or> (\<exists>e s'. blk_get dev blk s = Some (Inl e, s') \<and> keeps_blks s s' \<and> held_same s s' \<and> blk_refs s' = blk_refs s)"
  proof (rule blk_get_spec [OF inv, of dev blk])
    fix b s'
    assume "blk_get dev blk s = Some (Inr b, s')" "keeps_blks s s'" "bref_ok b" "b_dev (bufs s' b) = dev"
      "b_blk (bufs s' b) = blk" "blk_refs s' = (blk_refs s)(b := Suc (blk_refs s b))" "held_same s s'"
    then show ?thesis by (intro disjI1 exI conjI) (simp_all add: blk_holds_def)
  next
    fix s' assume s': "blk_get dev blk s = Some (Inl ENOMEM, s')" "keeps_blks s s'" "bufs s' = bufs s"
    then have "held_same s s'" by (simp add: held_same_def)
    then show ?thesis using s' blk_refs_cong by blast
  qed
next
  fix s b dev blk assume "blk_inv s" "blk_holds s b dev blk"
  then show "\<exists>s'. blk_put b s = Some s' \<and> keeps_blks s s' \<and> held_same s s' \<and> blk_refs s' = (blk_refs s)(b := blk_refs s b - 1)"
    by (metis blk_put_spec blk_holds_def)
next
  fix s b dev blk and d :: "byte list"
  assume "blk_inv s" "blk_holds s b dev blk" "writable s dev" "length d = BLK_SIZE"
  from blk_store_spec [OF this]
  show "blk_inv (blk_store b d s) \<and> blk_view (blk_store b d s) = put_view dev blk d (blk_view s)
      \<and> blk_refs (blk_store b d s) = blk_refs s \<and> blk_has (blk_store b d s) b dev blk \<and> held_same s (blk_store b d s)"
    by (simp add: blk_has_def blk_store_def held_same_def)
next
  fix s s' assume "keeps_blks s s'"
  then show "blk_inv s' \<and> blk_view s' = blk_view s \<and> writable s' = writable s"
    using keeps_blks_simps(19) by (simp add: keeps_blks_def)
next
  fix s s' s'' assume "keeps_blks s s'" "keeps_blks s' s''"
  then show "keeps_blks s s''" by (rule keeps_blks_trans)
next
  fix s b dev blk assume "blk_inv s" "blk_has s b dev blk"
  then show "b_data (bufs s b) = blk_view s dev blk \<and> length (b_data (bufs s b)) = BLK_SIZE \<and> blk_holds s b dev blk"
    by (rule blk_has_data)
next
  fix s b dev blk s' assume "blk_has s b dev blk" "held_same s s'" "blk_refs s' b \<noteq> 0"
  then show "blk_has s' b dev blk" unfolding blk_has_def blk_holds_def held_same_def blk_refs_def by metis
next
  fix s s' s'' assume "held_same s s'" "held_same s' s''" "\<And>b. blk_refs s b \<noteq> 0 \<Longrightarrow> blk_refs s' b \<noteq> 0"
  then show "held_same s s''" by (rule held_same_trans)
qed

section \<open>Properties of the cache\<close>

text \<open>
  Property C4. \<open>blk_get\<close> never panics. It returns a buffer of the block with one reference
  more, or \<open>ENOMEM\<close> when no buffer holds the block and every buffer of its row is referenced. Either way
  the disks hold what they held, the table stays sound (one buffer per block, dirty buffers
  valid, clean ones equal to the disk), and the buffers that others hold are not touched.
\<close>

theorem blk_get_correct:
  assumes "blk_inv s"
  shows "returns (blk_get dev blk s) (\<lambda>(r, s'). keeps_blks s s' \<and> held_same s s'
    \<and> (case r of
         Inr b \<Rightarrow> blk_holds s' b dev blk \<and> blk_refs s' = (blk_refs s)(b := Suc (blk_refs s b))
       | Inl e \<Rightarrow> e = ENOMEM \<and> bufs s' = bufs s \<and> blk_find dev blk s = None
           \<and> (\<forall>n < BCDEPTH. b_refcnt (bufs s (blk mod BCWIDTH, n)) \<noteq> 0)))"
  by (rule blk_get_spec [OF assms, of dev blk]) (simp_all add: blk_holds_def held_same_def)

text \<open>
  Property C5. \<open>blk_read\<close> never panics. When it succeeds, the buffer holds what the disks
  hold for the block, whether that comes from the cache or the device; when it fails, no
  reference is left behind.
\<close>

theorem blk_read_correct:
  assumes "blk_inv s"
  shows "returns (blk_read dev blk s) (\<lambda>(r, s'). keeps_blks s s' \<and> held_same s s'
    \<and> (case r of
         Inr b \<Rightarrow> blk_holds s' b dev blk \<and> b_valid (bufs s' b) \<and> b_data (bufs s' b) = blk_view s dev blk
           \<and> blk_refs s' = (blk_refs s)(b := Suc (blk_refs s b))
       | Inl e \<Rightarrow> blk_refs s' = blk_refs s))"
  by (rule blk_read_spec [OF assms, of dev blk]) (simp_all add: blk_holds_def)

lemma blk_drop_spec:
  assumes "blk_inv s" and "bref_ok b" and "b_refcnt (bufs s b) = 0" and "\<not> b_dirty (bufs s b)"
  shows "keeps_blks s (upd_buf b (\<lambda>buf. buf\<lparr>b_valid := False\<rparr>) s)"
proof -
  let ?s = "upd_buf b (\<lambda>buf. buf\<lparr>b_valid := False\<rparr>) s" and ?buf = "bufs s b"
  have ok: "buf_ok s b" using assms(1,2) by (rule blk_inv_buf)
  have inv: "blk_inv ?s"
  proof (rule blk_inv_upd [OF assms(1,2)])
    show "bufs ?s = (bufs s)(b := ?buf\<lparr>b_valid := False\<rparr>)" by simp
    show "disk_ok (blk_driver ?s)" "blk_nind ?s < BCDEPTH" "writable ?s = writable s"
      using assms(1) by (simp_all add: blk_inv_def writable_def fun_eq_iff)
  qed (use ok assms(3,4) in \<open>simp_all add: buf_ok_def Let_def in_use_def\<close>)
  have "blk_view ?s = blk_view s"
  proof (rule blk_viewI [OF inv])
    fix b' assume "bref_ok b'" "b_valid (bufs ?s b')"
    with view_hit [OF assms(1), of b'] show "blk_view s (b_dev (bufs ?s b')) (b_blk (bufs ?s b')) = b_data (bufs ?s b')"
      by (simp split: if_splits)
  next
    fix d k
    assume no: "\<And>n. n < BCDEPTH \<Longrightarrow> \<not> hit ?s d k n"
    show "blk_view s d k = sectors (disk ?s) d k"
    proof (cases "\<exists>n < BCDEPTH. hit s d k n")
      case False
      with view_miss [of s d k] show ?thesis by simp
    next
      case True
      then obtain n where n: "n < BCDEPTH" "hit s d k n" by blast
      have "(k mod BCWIDTH, n) = b"
      proof (rule ccontr)
        assume "(k mod BCWIDTH, n) \<noteq> b"
        with n(2) have "hit ?s d k n" by (simp add: hit_def Let_def)
        with no n(1) show False by blast
      qed
      with n(2) have "b_valid ?buf" "b_dev ?buf = d" "b_blk ?buf = k" by (auto simp: hit_def Let_def)
      with view_hit [OF assms(1,2)] ok assms(4) show ?thesis by (auto simp: buf_ok_def Let_def)
    qed
  qed
  with inv show ?thesis by (simp add: keeps_blks_def)
qed

lemma blk_sync_bufs_spec:
  assumes "blk_inv s" and "\<forall>b \<in> set bs. bref_ok b" and "\<And>b. \<not> late b"
  shows "\<exists>s'. blk_sync_bufs invl late bs s = Some s' \<and> keeps_blks s s' \<and> blk_refs s' = blk_refs s
    \<and> (\<forall>b \<in> set bs. \<not> b_dirty (bufs s' b) \<and> (invl \<and> blk_refs s b = 0 \<longrightarrow> \<not> b_valid (bufs s' b)))
    \<and> (\<forall>b. \<not> b_dirty (bufs s b) \<longrightarrow> \<not> b_dirty (bufs s' b)) \<and> (\<forall>b. \<not> b_valid (bufs s b) \<longrightarrow> \<not> b_valid (bufs s' b))"
  using assms(1,2)
proof (induction bs arbitrary: s)
  case Nil
  then show ?case by (simp add: keeps_blks_refl)
next
  case (Cons b bs)
  have b: "bref_ok b" using Cons.prems(2) by simp
  obtain s1 where s1: "blk_write b s = Some (Inr (), s1)" "keeps_blks s s1"
      "bufs s1 = (bufs s)(b := (bufs s b)\<lparr>b_dirty := False\<rparr>)"
    by (rule blk_write_spec [OF Cons.prems(1) b])
  have w: "(if b_dirty (bufs s b) then map_option snd (blk_write b s) else Some s) = Some s1"
    using s1(1) by (auto simp: blk_write_def Let_def)
  define s2 where "s2 = (if invl \<and> b_refcnt (bufs s1 b) = 0 then upd_buf b (\<lambda>buf. buf\<lparr>b_valid := False\<rparr>) s1 else s1)"
  have inv1: "blk_inv s1" using s1(2) by (rule keeps_blks_inv)
  have k2: "keeps_blks s1 s2"
    using blk_drop_spec [OF inv1 b] keeps_blks_refl [OF inv1] s1(3) by (simp add: s2_def)
  have refs2: "blk_refs s2 = blk_refs s" by (simp add: s2_def s1(3) blk_refs_def fun_eq_iff)
  have b2: "\<not> b_dirty (bufs s2 b)" "invl \<and> blk_refs s b = 0 \<Longrightarrow> \<not> b_valid (bufs s2 b)"
    "\<And>x. \<not> b_dirty (bufs s x) \<Longrightarrow> \<not> b_dirty (bufs s2 x)" "\<And>x. \<not> b_valid (bufs s x) \<Longrightarrow> \<not> b_valid (bufs s2 x)"
    by (auto simp: s2_def s1(3) blk_refs_def)
  obtain s' where s': "blk_sync_bufs invl late bs s2 = Some s'" "keeps_blks s2 s'" "blk_refs s' = blk_refs s2"
    "\<forall>x \<in> set bs. \<not> b_dirty (bufs s' x) \<and> (invl \<and> blk_refs s2 x = 0 \<longrightarrow> \<not> b_valid (bufs s' x))"
    "\<And>x. \<not> b_dirty (bufs s2 x) \<Longrightarrow> \<not> b_dirty (bufs s' x)" "\<And>x. \<not> b_valid (bufs s2 x) \<Longrightarrow> \<not> b_valid (bufs s' x)"
    using Cons.IH [OF keeps_blks_inv [OF k2]] Cons.prems(2) by auto
  have "blk_sync_bufs invl late (b # bs) s = Some s'"
    using assms(3) s'(1) by (simp add: w s2_def [symmetric])
  moreover have "keeps_blks s s'"
    using keeps_blks_trans [OF s1(2) keeps_blks_trans [OF k2 s'(2)]] .
  ultimately show ?case using s'(3-6) b2 refs2 by (intro exI [of _ s']) auto
qed

lemma all_bufs: "b \<in> set all_bufs \<longleftrightarrow> bref_ok b"
  by (cases b) (simp add: bref_ok_def)

text \<open>
  Property C6. After \<open>blk_sync\<close> without a timeout every buffer is clean and the devices
  themselves hold what the kernel saw before: nothing was lost or changed. With
  \<open>invl\<close> set, no buffer that nobody references is valid any more.
\<close>

theorem blk_sync_flushes:
  assumes "blk_inv s"
  shows "returns (blk_sync invl 0 late s) (\<lambda>s'. blk_inv s' \<and> sectors (disk s') = blk_view s
    \<and> blk_view s' = blk_view s \<and> blk_refs s' = blk_refs s
    \<and> (\<forall>b. bref_ok b \<longrightarrow> \<not> b_dirty (bufs s' b) \<and> (invl \<and> blk_refs s b = 0 \<longrightarrow> \<not> b_valid (bufs s' b))))"
proof -
  have all: "\<forall>b \<in> set all_bufs. bref_ok b" using all_bufs by blast
  obtain s' where s': "blk_sync_bufs invl (\<lambda>_. False) all_bufs s = Some s'" "keeps_blks s s'"
    "blk_refs s' = blk_refs s"
    "\<forall>b \<in> set all_bufs. \<not> b_dirty (bufs s' b) \<and> (invl \<and> blk_refs s b = 0 \<longrightarrow> \<not> b_valid (bufs s' b))"
    using blk_sync_bufs_spec [OF assms all, of "\<lambda>_. False" invl] by blast
  have clean: "\<not> b_dirty (bufs s' b) \<and> (invl \<and> blk_refs s b = 0 \<longrightarrow> \<not> b_valid (bufs s' b))" if "bref_ok b" for b
    using s'(4) that all_bufs by blast
  have inv: "blk_inv s'" using s'(2) by (rule keeps_blks_inv)
  have "blk_view s' = sectors (disk s')"
  proof (rule blk_viewI [OF inv])
    fix b assume "bref_ok b" "b_valid (bufs s' b)"
    with blk_inv_buf [OF inv] clean
    show "sectors (disk s') (b_dev (bufs s' b)) (b_blk (bufs s' b)) = b_data (bufs s' b)"
      by (simp add: buf_ok_def Let_def)
  qed simp
  with s' inv clean keeps_blks_view [OF s'(2)] show ?thesis
    by (simp add: blk_sync_def)
qed

text \<open>When no buffer is dirty, a buffer of the row is free and the driver does not fail, a block can be read.\<close>

definition clean_cache :: "kst \<Rightarrow> bool" where
  "clean_cache s \<longleftrightarrow> (\<forall>b. bref_ok b \<longrightarrow> \<not> b_dirty (bufs s b))"

definition reads_well :: "kst \<Rightarrow> nat \<Rightarrow> nat \<Rightarrow> bool" where
  "reads_well s dev blk \<longleftrightarrow> major dev < MAXBDEVS
     \<and> (\<exists>rd. bd_read (blk_driver s (major dev)) = Some rd \<and> (\<forall>dk. sectors dk = sectors (disk s) \<longrightarrow> fst (rd dev blk dk) = None))"

lemma blk_scan_frame: "blk_scan ok i n s = (r, t) \<Longrightarrow> bufs t = bufs s \<and> disk t = disk s \<and> blk_driver t = blk_driver s
    \<and> (blk_nind s < BCDEPTH \<longrightarrow> blk_nind t < BCDEPTH)"
  by (induction ok i n s rule: blk_scan.induct) (auto simp: Let_def split: if_splits)

lemma blk_scan_picks: "blk_scan ok i n s = (Some k, t) \<Longrightarrow> blk_nind s < BCDEPTH \<Longrightarrow> ok (bufs s (i, k)) \<and> k < BCDEPTH"
  by (induction ok i n s rule: blk_scan.induct) (auto simp: Let_def split: if_splits)

lemma blk_get_clean:
  assumes inv: "blk_inv s" and clean: "clean_cache s" and free: "\<exists>n < BCDEPTH. b_refcnt (bufs s (blk mod BCWIDTH, n)) = 0"
  obtains b s' where "blk_get dev blk s = Some (Inr b, s')" "clean_cache s'" "disk s' = disk s" "blk_driver s' = blk_driver s"
proof (rule blk_get_spec [OF inv, of dev blk])
  fix b s'
  assume g: "blk_get dev blk s = Some (Inr b, s')"
  have nind: "blk_nind s < BCDEPTH" using inv by (simp add: blk_inv_def)
  have "clean_cache s' \<and> disk s' = disk s \<and> blk_driver s' = blk_driver s"
  proof (cases "blk_find dev blk s")
    case (Some n)
    then show ?thesis using g clean by (auto simp: blk_get_def Let_def clean_cache_def split: if_splits)
  next
    case None
    obtain r t where sc: "blk_scan (\<lambda>b. b_refcnt b = 0 \<and> \<not> b_dirty b) (blk mod BCWIDTH) BCDEPTH s = (r, t)" by fastforce
    note t = blk_scan_frame [OF sc]
    show ?thesis
    proof (cases r)
      case (Some n)
      then show ?thesis using g clean t sc None by (auto simp: blk_get_def Let_def clean_cache_def blk_claim_def split: if_splits)
    next
      case N: None
      obtain r' u where sc': "blk_scan (\<lambda>b. b_refcnt b = 0) (blk mod BCWIDTH) BCDEPTH t = (r', u)" by fastforce
      note u = blk_scan_frame [OF sc']
      have "blk_nind t < BCDEPTH" using t nind by blast
      then have "r' = Some k \<Longrightarrow> \<not> b_dirty (bufs u (blk mod BCWIDTH, k))" for k
        using blk_scan_picks [of _ _ _ t k u] sc' t u clean by (auto simp: clean_cache_def bref_ok_def)
      then show ?thesis using g clean t u sc sc' None N
        by (auto simp: blk_get_def Let_def clean_cache_def blk_claim_def split: option.splits if_splits)
    qed
  qed
  with g show ?thesis using that by blast
next
  fix s' assume "\<And>n. n < BCDEPTH \<Longrightarrow> b_refcnt (bufs s (blk mod BCWIDTH, n)) \<noteq> 0"
  with free show ?thesis by blast
qed

lemma blk_read_clean:
  assumes inv: "blk_inv s" and clean: "clean_cache s" and free: "\<exists>n < BCDEPTH. b_refcnt (bufs s (blk mod BCWIDTH, n)) = 0"
    and drv: "reads_well s dev blk"
  shows "\<exists>b s'. blk_read dev blk s = Some (Inr b, s') \<and> clean_cache s' \<and> sectors (disk s') = sectors (disk s) \<and> blk_driver s' = blk_driver s"
proof -
  obtain rd where rd: "major dev < MAXBDEVS" "bd_read (blk_driver s (major dev)) = Some rd"
      "\<And>dk. sectors dk = sectors (disk s) \<Longrightarrow> fst (rd dev blk dk) = None"
    using drv by (auto simp: reads_well_def)
  have ok: "read_ok rd" using inv rd by (simp add: blk_inv_def disk_ok_def)
  obtain b s1 where g: "blk_get dev blk s = Some (Inr b, s1)" "clean_cache s1" "disk s1 = disk s" "blk_driver s1 = blk_driver s"
    using blk_get_clean [OF inv clean free] by blast
  obtain e data dk where r: "rd dev blk (disk s1) = (e, data, dk)" by (metis prod.exhaust)
  then have "e = None" "sectors dk = sectors (disk s)" using rd(3) [of "disk s1"] ok g(3) by (auto simp: read_ok_def)
  then show ?thesis using rd g r by (auto simp: blk_read_def Let_def clean_cache_def split: if_splits)
qed


text \<open>A machine whose only device is a disk that never fails, for examples.\<close>

definition ram_driver :: blk_driver where
  "ram_driver = \<lparr>bd_read = Some (\<lambda>dev blk dk. let data = sectors dk dev blk in
        if length data = BLK_SIZE then (None, data, dk) else (Some EIO, replicate BLK_SIZE 0, dk)),
     bd_write = Some (\<lambda>dev blk data dk. (None, dk\<lparr>sectors := (sectors dk)(dev := (sectors dk dev)(blk := data))\<rparr>))\<rparr>"


definition ram_kst :: kst where
  "ram_kst = zero_kst no_disk (\<lambda>mj. if mj = 1 then ram_driver else no_driver mj)"

lemma ram_driver_ok: "disk_ok (\<lambda>mj. if mj = 1 then ram_driver else no_driver mj)"
  by (auto simp: disk_ok_def ram_driver_def no_driver_def read_ok_def write_ok_def Let_def split: if_splits)

lemma ram_kst_inv: "blk_inv ram_kst"
proof -
  have "buf_ok ram_kst b" for b
    by (simp add: buf_ok_def Let_def ram_kst_def zero_kst_def zero_buf_def)
  moreover have "one_buf (bufs ram_kst)"
    by (simp add: one_buf_def in_use_def ram_kst_def zero_kst_def zero_buf_def)
  ultimately show ?thesis
    using ram_driver_ok by (simp add: blk_inv_def ram_kst_def zero_kst_def)
qed

lemma ram_kst_writable: "writable ram_kst 256"
  by (simp add: writable_def ram_kst_def zero_kst_def ram_driver_def major_def)

theorem blk_get_correct_witness:
  "returns (blk_get 256 5 ram_kst) (\<lambda>(r, s'). keeps_blks ram_kst s')"
  by (rule returns_mono2 [OF blk_get_correct [OF ram_kst_inv]]) simp

theorem blk_read_correct_witness:
  "returns (blk_read 256 5 ram_kst) (\<lambda>(r, s'). keeps_blks ram_kst s')"
  by (rule returns_mono2 [OF blk_read_correct [OF ram_kst_inv]]) simp

theorem blk_sync_flushes_witness:
  "returns (blk_sync True 0 (\<lambda>_. True) ram_kst) (\<lambda>s'. blk_inv s' \<and> sectors (disk s') = blk_view ram_kst)"
  by (rule returns_mono [OF blk_sync_flushes [OF ram_kst_inv]]) simp

end
