(* ===== verification/Frame.thy ===== *)
theory Frame
  imports Blk
begin

unbundle bit_operations_syntax

text \<open>
  What the operations leave alone. \<open>obs\<close> is a part of the state that somebody looks at; an
  operation \<^emph>\<open>keeps\<close> the value \<open>v\<close> when the state it returns still shows it. The locale
  \<open>fs_frame\<close> is for parts that do not depend on what the file system changes, that is the
  buffers, the disks, the super blocks, the maps of used blocks, the inodes and the list
  of free pages; \<open>mem_frame\<close> is for parts that do not depend on the user's memory, and \<open>um_frame\<close>
  for parts that depend on neither. Every component adds the rules for its operations, and a property instantiates \<open>obs\<close>.
\<close>

named_theorems keep \<open>operations that keep an observation\<close>

locale frame =
  fixes obs :: "kst \<Rightarrow> 'o"
begin

definition keeps :: "'o \<Rightarrow> kst option \<Rightarrow> bool" where
  "keeps v m \<longleftrightarrow> when_returns m (\<lambda>s. obs s = v)"

definition keep :: "'o \<Rightarrow> ('a \<times> kst) option \<Rightarrow> bool" where
  "keep v m \<longleftrightarrow> when_returns m (\<lambda>(r, s). obs s = v)"

lemma keeps_Some [keep]: "obs s = v \<Longrightarrow> keeps v (Some s)"
  by (simp add: keeps_def)

lemma keep_Some [keep]: "obs s = v \<Longrightarrow> keep v (Some (r, s))"
  by (simp add: keep_def)

lemma keeps_None [keep]: "keeps v None" and keep_None [keep]: "keep v None"
  by (simp_all add: keeps_def keep_def)

lemma keep_bind [keep]: "keep v m \<Longrightarrow> (\<And>r s. obs s = v \<Longrightarrow> keep v (f (r, s))) \<Longrightarrow> keep v (Option.bind m f)"
  by (cases m) (auto simp: keep_def)

lemma keep_bind_s [keep]: "keeps v m \<Longrightarrow> (\<And>s. obs s = v \<Longrightarrow> keep v (f s)) \<Longrightarrow> keep v (Option.bind m f)"
  by (cases m) (auto simp: keep_def keeps_def)

lemma keeps_bind [keep]: "keep v m \<Longrightarrow> (\<And>r s. obs s = v \<Longrightarrow> keeps v (f (r, s))) \<Longrightarrow> keeps v (Option.bind m f)"
  by (cases m) (auto simp: keep_def keeps_def)

lemma keeps_bind_s [keep]: "keeps v m \<Longrightarrow> (\<And>s. obs s = v \<Longrightarrow> keeps v (f s)) \<Longrightarrow> keeps v (Option.bind m f)"
  by (cases m) (auto simp: keep_def keeps_def)

lemma keep_bindE [keep]: "keep v m \<Longrightarrow> (\<And>r s. obs s = v \<Longrightarrow> keep v (f r s)) \<Longrightarrow> keep v (bindE m f)"
  by (cases m) (auto simp: keep_def bindE_def split: sum.splits)

lemma keeps_snd [keep]: "keep v m \<Longrightarrow> keeps v (map_option snd m)"
  by (cases m) (auto simp: keep_def keeps_def)

lemma keep_map_s [keep]: "keeps v m \<Longrightarrow> (\<And>s. obs s = v \<Longrightarrow> obs (snd (f s)) = v) \<Longrightarrow> keep v (map_option f m)"
  by (cases m) (auto simp: keep_def keeps_def case_prod_beta)

lemma keep_map [keep]: "keep v m \<Longrightarrow> (\<And>r s. obs s = v \<Longrightarrow> obs (snd (f (r, s))) = v) \<Longrightarrow> keep v (map_option f m)"
  by (cases m) (auto simp: keep_def case_prod_beta)

lemma keep_const [keep]: "obs s = v \<Longrightarrow> keep v (map_option (\<lambda>r. (r, s)) m)"
  by (cases m) (auto simp: keep_def)

text \<open>One rule for every construct, so that a proof follows the text of the operation.\<close>

lemma keep_If [keep]: "(c \<Longrightarrow> keep v a) \<Longrightarrow> (\<not> c \<Longrightarrow> keep v b) \<Longrightarrow> keep v (if c then a else b)"
  and keeps_If [keep]: "(c \<Longrightarrow> keeps v p) \<Longrightarrow> (\<not> c \<Longrightarrow> keeps v q) \<Longrightarrow> keeps v (if c then p else q)"
  by simp_all

lemma keep_Let [keep]: "(\<And>x. x = t \<Longrightarrow> keep v (f x)) \<Longrightarrow> keep v (Let t f)"
  and keeps_Let [keep]: "(\<And>x. x = t \<Longrightarrow> keeps v (g x)) \<Longrightarrow> keeps v (Let t g)"
  by simp_all

lemma keep_prod [keep]: "(\<And>a b. x = (a, b) \<Longrightarrow> keep v (f a b)) \<Longrightarrow> keep v (case x of (a, b) \<Rightarrow> f a b)"
  and keeps_prod [keep]: "(\<And>a b. x = (a, b) \<Longrightarrow> keeps v (g a b)) \<Longrightarrow> keeps v (case x of (a, b) \<Rightarrow> g a b)"
  by (cases x; simp)+

lemma keep_prod_app [keep]: "(\<And>a b. x = (a, b) \<Longrightarrow> keep v (f a b y)) \<Longrightarrow> keep v ((case x of (a, b) \<Rightarrow> f a b) y)"
  by (cases x) simp

lemma keep_option [keep]: "(y = None \<Longrightarrow> keep v n) \<Longrightarrow> (\<And>a. y = Some a \<Longrightarrow> keep v (f a))
    \<Longrightarrow> keep v (case y of None \<Rightarrow> n | Some a \<Rightarrow> f a)"
  and keeps_option [keep]: "(y = None \<Longrightarrow> keeps v m) \<Longrightarrow> (\<And>a. y = Some a \<Longrightarrow> keeps v (g a))
    \<Longrightarrow> keeps v (case y of None \<Rightarrow> m | Some a \<Rightarrow> g a)"
  by (cases y; simp)+

lemma keep_sum [keep]: "(\<And>a. z = Inl a \<Longrightarrow> keep v (f a)) \<Longrightarrow> (\<And>b. z = Inr b \<Longrightarrow> keep v (g b))
    \<Longrightarrow> keep v (case z of Inl a \<Rightarrow> f a | Inr b \<Rightarrow> g b)"
  and keeps_sum [keep]: "(\<And>a. z = Inl a \<Longrightarrow> keeps v (h a)) \<Longrightarrow> (\<And>b. z = Inr b \<Longrightarrow> keeps v (k b))
    \<Longrightarrow> keeps v (case z of Inl a \<Rightarrow> h a | Inr b \<Rightarrow> k b)"
  by (cases z; simp)+

lemma keep_nat [keep]: "(n = 0 \<Longrightarrow> keep v y) \<Longrightarrow> (\<And>k. n = Suc k \<Longrightarrow> keep v (f k))
    \<Longrightarrow> keep v (case n of 0 \<Rightarrow> y | Suc k \<Rightarrow> f k)"
  by (cases n) simp_all

lemma keep_Some_sum [keep]: "(\<And>a. z = Inl a \<Longrightarrow> keep v (Some (f a))) \<Longrightarrow> (\<And>b. z = Inr b \<Longrightarrow> keep v (Some (g b)))
    \<Longrightarrow> keep v (Some (case z of Inl a \<Rightarrow> f a | Inr b \<Rightarrow> g b))"
  by (cases z) simp_all

lemma keepI: "(\<And>r. m = Some r \<Longrightarrow> obs (snd r) = v) \<Longrightarrow> keep v m"
  by (cases m) (auto simp: keep_def case_prod_beta)

lemma keep_snd: "keep v m \<Longrightarrow> m = Some r \<Longrightarrow> obs (snd r) = v"
  by (simp add: keep_def case_prod_beta)

lemma keepD: "keep v m \<Longrightarrow> m = Some (r, s) \<Longrightarrow> obs s = v"
  by (simp add: keep_def)

lemma keepsD: "keeps v m \<Longrightarrow> m = Some s \<Longrightarrow> obs s = v"
  by (simp add: keeps_def)

end

section \<open>The list of free pages\<close>

locale pg_frame = frame +
  assumes obs_pg [simp]: "obs (s\<lparr>pg_flist := l\<rparr>) = obs s"
begin

lemma pg_free_keep [keep]: "obs s = v \<Longrightarrow> keeps v (pg_free pg s)"
  by (auto simp: pg_free_def intro!: keep)

lemma pfree_keep [keep]: "obs s = v \<Longrightarrow> keeps v (pfree p s)"
  unfolding pfree_def by (rule pg_free_keep)

lemma obs_palloc [simp]: "obs (snd (palloc s)) = obs s"
  by (auto simp: palloc_def pg_alloc_def)

lemma palloc_obs: "palloc s = (p, t) \<Longrightarrow> obs t = obs s"
  using obs_palloc [of s] by simp

end

section \<open>The file system\<close>

locale fs_frame = pg_frame +
  assumes obs_fs: "obs (s\<lparr>bufs := b, blk_nind := n, disk := d, supers := x, freedirt := y,
    freemap := z, inodes := i, pg_flist := l\<rparr>) = obs s"
begin

lemma obs_fields [simp]:
  "obs (s\<lparr>bufs := b\<rparr>) = obs s" "obs (s\<lparr>blk_nind := n\<rparr>) = obs s" "obs (s\<lparr>disk := d\<rparr>) = obs s"
  "obs (s\<lparr>supers := x\<rparr>) = obs s" "obs (s\<lparr>freedirt := y\<rparr>) = obs s" "obs (s\<lparr>freemap := z\<rparr>) = obs s"
  "obs (s\<lparr>inodes := i\<rparr>) = obs s" "obs (s\<lparr>pg_flist := l\<rparr>) = obs s"
  using obs_fs [where s = s and b = b and n = "blk_nind s" and d = "disk s" and x = "supers s" and y = "freedirt s" and z = "freemap s" and i = "inodes s" and l = "pg_flist s"]
    obs_fs [where s = s and b = "bufs s" and n = n and d = "disk s" and x = "supers s" and y = "freedirt s" and z = "freemap s" and i = "inodes s" and l = "pg_flist s"]
    obs_fs [where s = s and b = "bufs s" and n = "blk_nind s" and d = d and x = "supers s" and y = "freedirt s" and z = "freemap s" and i = "inodes s" and l = "pg_flist s"]
    obs_fs [where s = s and b = "bufs s" and n = "blk_nind s" and d = "disk s" and x = x and y = "freedirt s" and z = "freemap s" and i = "inodes s" and l = "pg_flist s"]
    obs_fs [where s = s and b = "bufs s" and n = "blk_nind s" and d = "disk s" and x = "supers s" and y = y and z = "freemap s" and i = "inodes s" and l = "pg_flist s"]
    obs_fs [where s = s and b = "bufs s" and n = "blk_nind s" and d = "disk s" and x = "supers s" and y = "freedirt s" and z = z and i = "inodes s" and l = "pg_flist s"]
    obs_fs [where s = s and b = "bufs s" and n = "blk_nind s" and d = "disk s" and x = "supers s" and y = "freedirt s" and z = "freemap s" and i = i and l = "pg_flist s"]
    obs_fs [where s = s and b = "bufs s" and n = "blk_nind s" and d = "disk s" and x = "supers s" and y = "freedirt s" and z = "freemap s" and i = "inodes s" and l = l]
  by simp_all

lemma obs_fields2 [simp]:
  "obs (s\<lparr>freedirt := y, freemap := z\<rparr>) = obs s"
  using obs_fields(6) [where s = "s\<lparr>freedirt := y\<rparr>"] by simp

lemma obs_upd [simp]:
  "obs (upd_buf k f s) = obs s" "obs (upd_super m g s) = obs s" "obs (upd_inode j h s) = obs s"
  "obs (upd_d j u s) = obs s" "obs (blk_store k dat s) = obs s" "obs (blk_claim dv bk k s) = obs s"
  by (simp_all add: upd_defs blk_store_def blk_claim_def)

lemma blk_write_keep [keep]: "obs s = v \<Longrightarrow> keep v (blk_write b s)"
  by (auto simp: blk_write_def Let_def intro!: keep split: option.splits prod.splits)

lemma blk_scan_obs: "blk_scan ok i n s = (r, t) \<Longrightarrow> obs t = obs s"
  by (induction ok i n s rule: blk_scan.induct) (auto simp: Let_def split: if_splits)

lemma blk_get_keep [keep]: "obs s = v \<Longrightarrow> keep v (blk_get dev blk s)"
  by (auto simp: blk_get_def Let_def intro!: keep split: option.splits prod.splits dest!: blk_scan_obs)

lemma blk_put_keep [keep]: "obs s = v \<Longrightarrow> keeps v (blk_put b s)"
  by (auto simp: blk_put_def intro!: keep)

lemma blk_read_keep [keep]: "obs s = v \<Longrightarrow> keep v (blk_read dev blk s)"
  by (auto simp: blk_read_def Let_def intro!: keep split: option.splits prod.splits)

lemma blk_sync_bufs_keep: "obs s = v \<Longrightarrow> keeps v (blk_sync_bufs invl late bs s)"
  by (induction bs arbitrary: s) (auto simp: Let_def intro!: keep)

lemma blk_sync_keep [keep]: "obs s = v \<Longrightarrow> keeps v (blk_sync invl t late s)"
  unfolding blk_sync_def by (rule blk_sync_bufs_keep)

end

section \<open>The user's memory\<close>

locale mem_frame = pg_frame +
  assumes obs_um [simp]: "obs (s\<lparr>phys := ph\<rparr>) = obs s" "obs (s\<lparr>ptmem := pt\<rparr>) = obs s"
    "obs (upd_curr (\<lambda>c. c\<lparr>p_size := f c\<rparr>) s) = obs s" "obs (upd_curr (\<lambda>c. c\<lparr>p_astk := g c\<rparr>) s) = obs s"
begin

lemma obs_zero_page [simp]: "obs (zero_page p s) = obs s"
proof -
  have "obs (s\<lparr>phys := ph, ptmem := pt\<rparr>) = obs s" for ph pt
    using obs_um(2) [where s = "s\<lparr>phys := ph\<rparr>"] by simp
  then show ?thesis by (simp add: zero_page_def)
qed

lemma zpalloc_obs: "zpalloc s = (p, t) \<Longrightarrow> obs t = obs s"
  by (auto simp: zpalloc_def split: prod.splits if_splits dest!: palloc_obs)

lemma obs_put_pte [simp]: "obs (put_pte t i v s) = obs s"
  by (simp add: put_pte_def)

lemma obs_map_page [simp]: "obs (map_page i p s) = obs s"
  by (simp add: map_page_def)

lemma map_pages_keep [keep]: "obs s = v \<Longrightarrow> keep v (map_pages is s)"
  by (induction "is" arbitrary: s) (auto intro!: keep split: prod.splits dest!: zpalloc_obs)

lemma growstk_keep [keep]: "obs s = v \<Longrightarrow> keep v (growstk a len s)"
  by (auto simp: growstk_def intro!: keep)

lemma urchk_keep [keep]: "obs s = v \<Longrightarrow> keep v (urchk a len s)"
  unfolding urchk_def by (intro keep) simp_all

lemma uwchk_keep [keep]: "obs s = v \<Longrightarrow> keep v (uwchk a len s)"
  unfolding uwchk_def by (rule urchk_keep)

lemma ustore_keep [keep]: "obs s = v \<Longrightarrow> keeps v (ustore a bs s)"
  by (induction bs arbitrary: a s) (auto intro!: keep split: option.splits)

lemma fucpy_keep [keep]: "obs s = v \<Longrightarrow> keep v (fucpy a n s)"
proof -
  have "keep v (Option.bind m (\<lambda>bs. Some (Inr bs, t)))" if "obs t = v" for m :: "byte list option" and t
    using that by (cases m) (simp_all add: keep)
  then show "obs s = v \<Longrightarrow> keep v (fucpy a n s)"
    unfolding fucpy_def with_check_def by (intro keep) simp_all
qed

lemma tucpy_keep [keep]: "obs s = v \<Longrightarrow> keep v (tucpy a bs s)"
  by (auto simp: tucpy_def with_check_def intro!: keep split: sum.splits)

lemma uset_keep [keep]: "obs s = v \<Longrightarrow> keep v (uset p c n s)"
  unfolding uset_def by (rule tucpy_keep)

lemma fustr_keep [keep]: "obs s = v \<Longrightarrow> keep v (fustr p n s)"
  by (induction n arbitrary: p s) (auto intro!: keep)

lemma newregion_keep [keep]: "obs s = v \<Longrightarrow> keep v (newregion b e s)"
  by (auto simp: newregion_def intro!: keep)

end

locale um_frame = fs_frame + mem_frame
begin

lemma blk_upread_keep [keep]: "obs s = v \<Longrightarrow> keep v (blk_upread dev blk st len p s)"
  by (auto simp: blk_upread_def intro!: keep)

lemma blk_upwrite_keep [keep]: "obs s = v \<Longrightarrow> keep v (blk_upwrite dev blk st len p s)"
  by (auto simp: blk_upwrite_def Let_def intro!: keep split: sum.splits)

end

end
