(* ===== verification/Alloc.thy ===== *)
theory Alloc
  imports Frame
begin

unbundle bit_operations_syntax

text \<open>
  Block allocation, \<open>kern/fs/alloc.c\<close>. Every mounted file system has its map of used
  blocks in memory (\<open>freemap\<close>) and a flag per block of that map that says whether it has
  to be saved (\<open>freedirt\<close>). \<open>sys_statfs\<close> and the two functions on inodes are with
  the other system calls and in the theory of inodes.
\<close>

section \<open>Operations\<close>

definition erase_blk :: "nat \<Rightarrow> nat \<Rightarrow> kst \<Rightarrow> ((errno + unit) \<times> kst) option" where
  "erase_blk dev blk s =
     bindE (blk_get dev blk s) (\<lambda>b s. do {
       s' \<leftarrow> blk_put b (blk_store b (replicate BLK_SIZE 0) s);
       Some (Inr (), s')
     })"

definition map_bit :: "byte list \<Rightarrow> nat \<Rightarrow> bool" where
  "map_bit fm i = bit (fm ! (i div 8)) (i mod 8)"

definition put_bit :: "nat \<Rightarrow> bool \<Rightarrow> byte list \<Rightarrow> byte list" where
  "put_bit i v fm = fm[i div 8 := (if v then set_bit (i mod 8) (fm ! (i div 8)) else unset_bit (i mod 8) (fm ! (i div 8)))]"

text \<open>
  The assignments to the maps. A map that is not there, or an index past its end, is an
  access outside an object.
\<close>

definition mark_blk :: "nat \<Rightarrow> nat \<Rightarrow> bool \<Rightarrow> kst \<Rightarrow> kst option" where
  "mark_blk m i v s =
     (case (freedirt s m, freemap s m) of
        (Some fd, Some fm) \<Rightarrow>
          if i div 4096 < length fd \<and> i div 8 < length fm
          then Some (s\<lparr>freedirt := (freedirt s)(m \<mapsto> fd[i div 4096 := True]),
                       freemap := (freemap s)(m \<mapsto> put_bit i v fm)\<rparr>)
          else None
      | _ \<Rightarrow> None)"

definition dec_nfree :: "super \<Rightarrow> super" where
  "dec_nfree sb = (if s_nfree sb \<noteq> UNCOUNTED then sb\<lparr>s_nfree := (s_nfree sb + (2 ^ 32 - 1)) mod 2 ^ 32\<rparr> else sb)"

definition inc_nfree :: "super \<Rightarrow> super" where
  "inc_nfree sb = (if s_nfree sb \<noteq> UNCOUNTED then sb\<lparr>s_nfree := (s_nfree sb + 1) mod 2 ^ 32\<rparr> else sb)"

fun alloc_scan :: "nat \<Rightarrow> nat list \<Rightarrow> kst \<Rightarrow> ((errno + nat) \<times> kst) option" where
  "alloc_scan m [] s = Some (Inl ENOSPC, s)"
| "alloc_scan m (i # is) s =
     (case freemap s m of
        None \<Rightarrow> None
      | Some fm \<Rightarrow>
          if i div 8 \<ge> length fm then None
          else if map_bit fm i then alloc_scan m is s
          else bindE (erase_blk (s_dev (supers s m)) i s) (\<lambda>_ s. do {
            s \<leftarrow> mark_blk m i True (upd_super m (\<lambda>sb. sb\<lparr>s_freeblk := i + 1\<rparr>) s);
            Some (Inr i, upd_super m dec_nfree s)
          }))"

definition alloc_blk :: "nat \<Rightarrow> kst \<Rightarrow> ((errno + nat) \<times> kst) option" where
  "alloc_blk m s =
     (if s_ro (supers s m) \<noteq> 0 then Some (Inl EROFS, s)
      else
        let s = (if s_freeblk (supers s m) < s_dblock (supers s m)
                 then upd_super m (\<lambda>sb. sb\<lparr>s_freeblk := s_dblock sb\<rparr>) s else s)
        in alloc_scan m [s_freeblk (supers s m) ..< s_nblocks (supers s m)] s)"

definition free_blk :: "nat \<Rightarrow> nat \<Rightarrow> kst \<Rightarrow> kst option" where
  "free_blk m blk s = do {
     s \<leftarrow> mark_blk m blk False s;
     let s = (if s_freeblk (supers s m) > blk then upd_super m (\<lambda>sb. sb\<lparr>s_freeblk := blk\<rparr>) s else s);
     Some (upd_super m inc_nfree s)
   }"

text \<open>
  \<open>count_free\<close> counts the clear bits of the map on the disk. It leaves its loops with
  \<open>goto fini\<close> at the bit past the last block, and then does not release the buffer.
\<close>

fun count_bits :: "byte list \<Rightarrow> nat \<Rightarrow> nat \<Rightarrow> nat list \<Rightarrow> nat \<Rightarrow> bool \<times> nat" where
  "count_bits data base nblocks [] cnt = (False, cnt)"
| "count_bits data base nblocks (j # js) cnt =
     (if base + j \<ge> nblocks then (True, cnt)
      else count_bits data base nblocks js (if map_bit data j then cnt else (cnt + 1) mod 2 ^ 32))"

fun count_blocks :: "nat \<Rightarrow> nat list \<Rightarrow> kst \<Rightarrow> ((errno + unit) \<times> kst) option" where
  "count_blocks m [] s = Some (Inr (), s)"
| "count_blocks m (i # is) s =
     (let sb = supers s m in
      bindE (blk_read (s_dev sb) ((s_bitmap sb + i) mod 2 ^ 32) s) (\<lambda>b s.
        case count_bits (b_data (bufs s b)) (4096 * i) (s_nblocks sb) [0..<4096] (s_nfree (supers s m)) of
          (True, n) \<Rightarrow> Some (Inr (), upd_super m (\<lambda>sb. sb\<lparr>s_nfree := n\<rparr>) s)
        | (False, n) \<Rightarrow> do {
            s \<leftarrow> blk_put b (upd_super m (\<lambda>sb. sb\<lparr>s_nfree := n\<rparr>) s);
            count_blocks m is s
          }))"

definition count_free :: "nat \<Rightarrow> kst \<Rightarrow> ((errno + unit) \<times> kst) option" where
  "count_free m s =
     (let nb = (s_nblocks (supers s m) + 4095) mod 2 ^ 32 div 4096
      in count_blocks m [0..<nb] (upd_super m (\<lambda>sb. sb\<lparr>s_nfree := 0\<rparr>) s))"

section \<open>What the operations leave alone\<close>

context fs_frame begin

lemma erase_blk_keep [keep]: "obs s = v \<Longrightarrow> keep v (erase_blk dev blk s)"
  unfolding erase_blk_def by (intro keep) simp_all

lemma mark_blk_keep [keep]: "obs s = v \<Longrightarrow> keeps v (mark_blk m i b s)"
  by (auto simp: mark_blk_def intro!: keep split: option.splits)

lemma alloc_scan_keep: "obs s = v \<Longrightarrow> keep v (alloc_scan m is s)"
  by (induction "is" arbitrary: s) (auto intro!: keep)

lemma alloc_blk_keep [keep]: "obs s = v \<Longrightarrow> keep v (alloc_blk m s)"
  unfolding alloc_blk_def by (intro keep alloc_scan_keep) simp_all

lemma free_blk_keep [keep]: "obs s = v \<Longrightarrow> keeps v (free_blk m blk s)"
  unfolding free_blk_def by (intro keep) simp_all

lemma count_blocks_keep: "obs s = v \<Longrightarrow> keep v (count_blocks m is s)"
  by (induction "is" arbitrary: s) (auto simp: Let_def intro!: keep split: bool.splits)

lemma count_free_keep [keep]: "obs s = v \<Longrightarrow> keep v (count_free m s)"
  unfolding count_free_def Let_def by (intro count_blocks_keep) simp

end

section \<open>The map of used blocks\<close>

lemma map_bit_put_bit:
  "i div 8 < length fm \<Longrightarrow> map_bit (put_bit i v fm) j = (if j = i then v else map_bit fm j)"
proof -
  assume len: "i div 8 < length fm"
  show ?thesis
  proof (cases "j div 8 = i div 8")
    case False
    then have "j \<noteq> i" by auto
    with False show ?thesis by (simp add: map_bit_def put_bit_def)
  next
    case True
    have "j mod 8 < 8" by simp
    then have "possible_bit TYPE(byte) (j mod 8)" by (simp add: possible_bit_def)
    moreover have "j = i \<longleftrightarrow> j mod 8 = i mod 8" using True by (metis div_mult_mod_eq)
    ultimately show ?thesis
      using True len by (auto simp: map_bit_def put_bit_def bit_set_bit_iff bit_unset_bit_iff)
  qed
qed

lemma length_put_bit [simp]: "length (put_bit i v fm) = length fm"
  by (simp add: put_bit_def)

definition blk_used :: "nat \<Rightarrow> kst \<Rightarrow> nat \<Rightarrow> bool" where
  "blk_used m s i = (case freemap s m of Some fm \<Rightarrow> map_bit fm i | None \<Rightarrow> True)"

definition unused :: "nat \<Rightarrow> kst \<Rightarrow> nat set" where
  "unused m s = {i. i < s_nblocks (supers s m) \<and> \<not> blk_used m s i}"

text \<open>The blocks that can be allocated: those before \<open>dblock\<close> hold the tables of the file system.\<close>

definition free_blks :: "nat \<Rightarrow> kst \<Rightarrow> nat set" where
  "free_blks m s = {i \<in> unused m s. s_dblock (supers s m) \<le> i}"

text \<open>
  A mounted file system: the maps cover its blocks, nothing is free below \<open>freeblk\<close>, and
  \<open>nfree\<close> is the number of unused blocks once they have been counted.
\<close>

definition maps_ok :: "nat \<Rightarrow> kst \<Rightarrow> bool" where
  "maps_ok m s \<longleftrightarrow> (\<exists>fm fd. freemap s m = Some fm \<and> freedirt s m = Some fd
     \<and> s_nblocks (supers s m) \<le> 8 * length fm \<and> s_nblocks (supers s m) \<le> 4096 * length fd)"

definition fs_ok :: "nat \<Rightarrow> kst \<Rightarrow> bool" where
  "fs_ok m s \<longleftrightarrow> maps_ok m s
     \<and> s_nblocks (supers s m) < UNCOUNTED
     \<and> (\<forall>i \<in> free_blks m s. s_freeblk (supers s m) \<le> i)
     \<and> (s_nfree (supers s m) \<noteq> UNCOUNTED \<longrightarrow> s_nfree (supers s m) = card (unused m s))"

lemma blk_used_upd [simp]: "blk_used m (upd_super n g s) = blk_used m s"
  by (simp add: blk_used_def fun_eq_iff)

lemma finite_unused [simp]: "finite (unused m s)"
  by (rule finite_subset [of _ "{..<s_nblocks (supers s m)}"]) (auto simp: unused_def)

lemma card_unused: "card (unused m s) \<le> s_nblocks (supers s m)"
  using card_mono [of "{..<s_nblocks (supers s m)}" "unused m s"] by (auto simp: unused_def)

text \<open>One bit of the map changes, with the two fields of the super block that go with it.\<close>

definition marked :: "nat \<Rightarrow> nat \<Rightarrow> bool \<Rightarrow> kst \<Rightarrow> kst \<Rightarrow> bool" where
  "marked m b v s s' \<longleftrightarrow> supers s' = supers s \<and> blk_used m s' = (blk_used m s)(b := v) \<and> maps_ok m s'
     \<and> bufs s' = bufs s \<and> blk_nind s' = blk_nind s \<and> disk s' = disk s \<and> blk_driver s' = blk_driver s
     \<and> (\<forall>k. k \<noteq> m \<longrightarrow> freemap s' k = freemap s k \<and> freedirt s' k = freedirt s k)"

lemma mark_blk_spec:
  assumes "maps_ok m s" and "b < s_nblocks (supers s m)"
  shows "\<exists>s'. mark_blk m b v s = Some s' \<and> marked m b v s s'"
proof -
  obtain fm fd where f: "freemap s m = Some fm" "freedirt s m = Some fd"
    "s_nblocks (supers s m) \<le> 8 * length fm" "s_nblocks (supers s m) \<le> 4096 * length fd"
    using assms(1) by (auto simp: maps_ok_def)
  then have b: "b div 4096 < length fd" "b div 8 < length fm" using assms(2) by simp_all
  then show ?thesis
    using f by (simp add: mark_blk_def marked_def blk_used_def map_bit_put_bit maps_ok_def fun_eq_iff)
qed

lemma dec_wrap: "y < 0xFFFFFFFF \<Longrightarrow> (Suc y + 0xFFFFFFFF) mod 0x100000000 = y"
  by simp

text \<open>
  Overwriting a whole block leaves everything but the cache alone, and can only fail for
  want of a buffer.
\<close>

lemma overwrite_spec:
  assumes "blk_inv s" and "writable s dev" and "length d = BLK_SIZE"
  shows "returns (bindE (blk_get dev blk s) (\<lambda>b s. do { s' \<leftarrow> blk_put b (blk_store b d s); Some (Inr (), s') }))
    (\<lambda>(r, s'). blk_inv s' \<and> blk_frame s s' \<and> blk_refs s' = blk_refs s \<and> held_same s s'
      \<and> (case r of Inr _ \<Rightarrow> blk_view s' = put_view dev blk d (blk_view s)
         | Inl e \<Rightarrow> e = ENOMEM \<and> blk_view s' = blk_view s))"
proof (rule blk_get_spec [OF assms(1), of dev blk])
  fix b s1
  assume g: "blk_get dev blk s = Some (Inr b, s1)" "keeps_blks s s1" "bref_ok b" "b_dev (bufs s1 b) = dev"
    "b_blk (bufs s1 b) = blk" "blk_refs s1 = (blk_refs s)(b := Suc (blk_refs s b))" "held_same s s1"
  let ?s2 = "blk_store b d s1"
  have h: "blk_holds s1 b dev blk" using g by (simp add: blk_holds_def)
  have w: "writable s1 dev" using assms(2) keeps_blks_simps(19) [OF g(2)] by simp
  note st = blk_store_spec [OF keeps_blks_inv [OF g(2)] h w assms(3)]
  obtain s3 where s3: "blk_put b ?s2 = Some s3" "keeps_blks ?s2 s3" "held_same ?s2 s3"
    "blk_refs s3 = (blk_refs ?s2)(b := blk_refs ?s2 b - 1)"
    using cache.put [OF st(1,4)] by auto
  have "blk_frame s ?s2" using g(2) by (simp add: keeps_blks_def blk_store_def)
  then have f: "blk_frame s s3" using s3(2) blk_frame_trans by (auto simp: keeps_blks_def)
  have "held_same s ?s2" using g(7) by (simp add: held_same_def blk_store_def del: split_paired_All)
  then have hs: "held_same s s3" using s3(3) by (rule held_same_trans) (simp add: st(3) g(6))
  have "blk_refs s3 = blk_refs s" by (simp add: s3(4) st(3) g(6) fun_eq_iff)
  moreover have "blk_view s3 = put_view dev blk d (blk_view s)"
    by (simp only: keeps_blks_view [OF s3(2)] st(2) keeps_blks_view [OF g(2)])
  ultimately show ?thesis
    using f hs keeps_blks_inv [OF s3(2)] by (simp add: g(1) s3(1))
next
  fix s1 assume g: "blk_get dev blk s = Some (Inl ENOMEM, s1)" "keeps_blks s s1" "bufs s1 = bufs s"
  then show ?thesis
    using keeps_blks_view [OF g(2)] by (simp add: keeps_blks_def held_same_def blk_refs_cong [OF g(3)])
qed

lemma erase_blk_spec:
  assumes "blk_inv s" and "writable s dev"
  shows "returns (erase_blk dev blk s) (\<lambda>(r, s'). blk_inv s' \<and> blk_frame s s' \<and> blk_refs s' = blk_refs s \<and> held_same s s'
    \<and> (case r of Inr _ \<Rightarrow> blk_view s' = put_view dev blk (replicate BLK_SIZE 0) (blk_view s)
       | Inl e \<Rightarrow> e = ENOMEM \<and> blk_view s' = blk_view s))"
  unfolding erase_blk_def by (rule overwrite_spec [OF assms]) (rule length_replicate)

definition alloc_post :: "nat \<Rightarrow> kst \<Rightarrow> (errno + nat) \<times> kst \<Rightarrow> bool" where
  "alloc_post m s = (\<lambda>(r, s'). fs_ok m s' \<and> blk_inv s' \<and> blk_refs s' = blk_refs s \<and> held_same s s'
     \<and> (\<forall>k. k \<noteq> m \<longrightarrow> supers s' k = supers s k \<and> freemap s' k = freemap s k)
     \<and> (case r of
          Inr b \<Rightarrow> b \<in> free_blks m s \<and> free_blks m s' = free_blks m s - {b}
            \<and> blk_view s' = put_view (s_dev (supers s m)) b (replicate BLK_SIZE 0) (blk_view s)
        | Inl e \<Rightarrow> free_blks m s' = free_blks m s \<and> blk_view s' = blk_view s
            \<and> (e = ENOMEM \<or> e = ENOSPC \<and> free_blks m s = {} \<or> e = EROFS \<and> s_ro (supers s m) \<noteq> 0)))"

lemma alloc_at:
  assumes ok: "fs_ok m s" and inv: "blk_inv s" and w: "writable s (s_dev (supers s m))"
    and k: "k \<in> free_blks m s" and low: "\<forall>i \<in> free_blks m s. k \<le> i"
  shows "returns (bindE (erase_blk (s_dev (supers s m)) k s) (\<lambda>_ s. do {
            s \<leftarrow> mark_blk m k True (upd_super m (\<lambda>sb. sb\<lparr>s_freeblk := k + 1\<rparr>) s);
            Some (Inr k, upd_super m dec_nfree s)
          })) (alloc_post m s)"
proof (rule returnsE [OF erase_blk_spec [OF inv w, of k]], clarify)
  fix r s1
  assume e: "erase_blk (s_dev (supers s m)) k s = Some (r, s1)"
    and inv1: "blk_inv s1" and fr: "blk_frame s s1" and refs: "blk_refs s1 = blk_refs s" and held: "held_same s s1"
    and r: "case r of Inr _ \<Rightarrow> blk_view s1 = put_view (s_dev (supers s m)) k (replicate BLK_SIZE 0) (blk_view s)
       | Inl e \<Rightarrow> e = ENOMEM \<and> blk_view s1 = blk_view s"
  note f = blk_frame_simps [OF fr]
  have u0: "blk_used m s1 = blk_used m s" by (simp add: blk_used_def f fun_eq_iff)
  have u1: "unused m s1 = unused m s" "free_blks m s1 = free_blks m s" and ok1: "fs_ok m s1"
    using ok by (simp_all add: unused_def free_blks_def blk_used_def fs_ok_def maps_ok_def f)
  show ?thesis
  proof (cases r)
    case (Inl x)
    then show ?thesis using r inv1 refs held ok1 by (simp add: e alloc_post_def u1 f)
  next
    case (Inr x)
    let ?s1 = "upd_super m (\<lambda>sb. sb\<lparr>s_freeblk := k + 1\<rparr>) s1"
    let ?s2 = "upd_super m (\<lambda>sb. sb\<lparr>s_freeblk := k\<rparr>) s1"
    have k': "k < s_nblocks (supers s m)" "k \<in> unused m s" using k by (simp_all add: free_blks_def unused_def)
    have mk: "maps_ok m ?s1" "k < s_nblocks (supers ?s1 m)"
      using ok k' by (simp_all add: fs_ok_def maps_ok_def f)
    obtain s2 where mb: "mark_blk m k True ?s1 = Some s2" and "marked m k True ?s1 s2"
      using mark_blk_spec [OF mk] by blast
    then have s2: "supers s2 = supers ?s1" "blk_used m s2 = (blk_used m ?s1)(k := True)" "maps_ok m s2"
      "bufs s2 = bufs ?s1" "blk_nind s2 = blk_nind ?s1" "disk s2 = disk ?s1" "blk_driver s2 = blk_driver ?s1"
      "\<And>n. n \<noteq> m \<Longrightarrow> freemap s2 n = freemap s n"
      by (simp_all add: marked_def f)
    let ?s3 = "upd_super m dec_nfree s2"
    have u3: "unused m ?s3 = unused m s - {k}" "free_blks m ?s3 = free_blks m s - {k}"
      by (auto simp: unused_def free_blks_def s2(1,2) u0 f dec_nfree_def)
    have card: "card (unused m s) = Suc (card (unused m s - {k}))"
      using k'(2) by (metis card_Suc_Diff1 finite_unused)
    have sup: "supers ?s3 m = dec_nfree ((supers s m)\<lparr>s_freeblk := k + 1\<rparr>)" by (simp add: s2(1) f)
    have "\<forall>i \<in> free_blks m ?s3. k + 1 \<le> i"
      unfolding u3 using low by (metis DiffE Suc_eq_plus1 Suc_leI insertCI le_neq_implies_less)
    moreover have "s_nfree (supers ?s3 m) \<noteq> UNCOUNTED \<longrightarrow> s_nfree (supers ?s3 m) = card (unused m ?s3)"
      using ok card card_unused [of m s] unfolding u3 sup by (auto simp: fs_ok_def dec_nfree_def dec_wrap)
    ultimately have "fs_ok m ?s3"
      using s2(3) ok unfolding fs_ok_def maps_ok_def sup by (auto simp: dec_nfree_def s2(1) f)
    moreover have "blk_inv ?s3 = blk_inv s1" "blk_view ?s3 = blk_view s1" "blk_refs ?s3 = blk_refs s1" "held_same s ?s3"
      using s2 held by (simp_all add: blk_irrelevant [of ?s3 s1] held_same_def)
    moreover have "bindE (erase_blk (s_dev (supers s m)) k s) (\<lambda>_ s. do {
            s \<leftarrow> mark_blk m k True (upd_super m (\<lambda>sb. sb\<lparr>s_freeblk := k + 1\<rparr>) s);
            Some (Inr k, upd_super m dec_nfree s) }) = Some (Inr k, ?s3)"
      by (simp only: e Inr bindE_Inr mb bind.bind_lunit)
    ultimately show ?thesis
      using r inv1 refs Inr k u3 s2(8) by (simp add: s2(1) alloc_post_def f)
  qed
qed

lemma alloc_scan_spec:
  assumes "fs_ok m s" and "blk_inv s" and "writable s (s_dev (supers s m))"
    and "\<forall>i \<in> free_blks m s. k \<le> i" and "s_dblock (supers s m) \<le> k"
  shows "returns (alloc_scan m [k ..< s_nblocks (supers s m)] s) (alloc_post m s)"
  using assms
proof (induction "s_nblocks (supers s m) - k" arbitrary: k)
  case 0
  then have "free_blks m s = {}" by (fastforce simp: free_blks_def unused_def)
  with 0 show ?case by (simp add: alloc_post_def held_same_def)
next
  case (Suc n)
  then have k: "k < s_nblocks (supers s m)" by simp
  obtain fm where fm: "freemap s m = Some fm" "s_nblocks (supers s m) \<le> 8 * length fm"
    using Suc.prems(1) by (auto simp: fs_ok_def maps_ok_def)
  with k have len: "\<not> length fm \<le> k div 8" by simp
  show ?case
  proof (cases "map_bit fm k")
    case True
    then have "k \<notin> free_blks m s" using fm by (simp add: free_blks_def unused_def blk_used_def)
    then have "\<forall>i \<in> free_blks m s. Suc k \<le> i" using Suc.prems(4) by (metis Suc_le_eq le_neq_implies_less)
    then show ?thesis
      using Suc.hyps True fm(1) len k Suc.prems by (simp add: upt_conv_Cons)
  next
    case False
    then have "k \<in> free_blks m s" using fm k Suc.prems(5) by (simp add: free_blks_def unused_def blk_used_def)
    then show ?thesis
      using alloc_at [OF Suc.prems(1-3) _ Suc.prems(4)] False fm(1) len k by (simp add: upt_conv_Cons)
  qed
qed


section \<open>Properties\<close>

text \<open>
  Property C8. On a mounted file system \<open>alloc_blk\<close> never panics. The block it returns was
  free, is used from now on, and reads as zeroes; it fails with \<open>EROFS\<close> when the file
  system is read-only, with \<open>ENOSPC\<close> only when no block is free, and with \<open>ENOMEM\<close> when
  the cache has no buffer, and then nothing has changed. The search hint and the number of
  free blocks stay right, no buffer stays referenced, and other file systems are left alone.
\<close>

theorem alloc_blk_correct:
  assumes "fs_ok m s" and "blk_inv s" and "writable s (s_dev (supers s m))"
  shows "returns (alloc_blk m s) (\<lambda>(r, s'). fs_ok m s' \<and> blk_inv s' \<and> blk_refs s' = blk_refs s
     \<and> (\<forall>k. k \<noteq> m \<longrightarrow> supers s' k = supers s k \<and> freemap s' k = freemap s k)
     \<and> (case r of
          Inr b \<Rightarrow> b \<in> free_blks m s \<and> free_blks m s' = free_blks m s - {b}
            \<and> blk_view s' = put_view (s_dev (supers s m)) b (replicate BLK_SIZE 0) (blk_view s)
        | Inl e \<Rightarrow> free_blks m s' = free_blks m s \<and> blk_view s' = blk_view s
            \<and> (e = ENOMEM \<or> e = ENOSPC \<and> free_blks m s = {} \<or> e = EROFS \<and> s_ro (supers s m) \<noteq> 0)))"
proof (cases "s_ro (supers s m) = 0")
  case False
  then show ?thesis using assms by (simp add: alloc_blk_def)
next
  case True
  let ?s = "if s_freeblk (supers s m) < s_dblock (supers s m) then upd_super m (\<lambda>sb. sb\<lparr>s_freeblk := s_dblock sb\<rparr>) s else s"
  have eq: "alloc_blk m s = alloc_scan m [s_freeblk (supers ?s m) ..< s_nblocks (supers ?s m)] ?s"
    using True by (simp add: alloc_blk_def Let_def)
  have same: "free_blks m ?s = free_blks m s" "unused m ?s = unused m s" "maps_ok m ?s = maps_ok m s"
    "freemap ?s = freemap s" "\<forall>k. k \<noteq> m \<longrightarrow> supers ?s k = supers s k" "s_dev (supers ?s m) = s_dev (supers s m)"
    "s_ro (supers ?s m) = s_ro (supers s m)"
    by (simp_all add: free_blks_def unused_def maps_ok_def)
  have blk: "blk_inv ?s = blk_inv s" "blk_view ?s = blk_view s" "blk_refs ?s = blk_refs s" "writable ?s = writable s"
    by (simp_all add: blk_irrelevant [of "upd_super m (\<lambda>sb. sb\<lparr>s_freeblk := s_dblock sb\<rparr>) s" s])
  have "fs_ok m ?s" using assms(1) same by (auto simp: fs_ok_def free_blks_def)
  then have "returns (alloc_scan m [s_freeblk (supers ?s m) ..< s_nblocks (supers ?s m)] ?s) (alloc_post m ?s)"
    using assms(2,3) blk same(6) by (intro alloc_scan_spec) (auto simp: fs_ok_def)
  then show ?thesis
    unfolding eq by (rule returns_mono2) (use same blk in \<open>auto simp: alloc_post_def split: sum.splits\<close>)
qed


definition ex_fs :: kst where
  "ex_fs = ram_kst\<lparr>freemap := [0 \<mapsto> [7]], freedirt := [0 \<mapsto> [False]],
     supers := (\<lambda>_. zero_super)(0 := zero_super\<lparr>s_dev := 256, s_nblocks := 8, s_dblock := 3, s_freeblk := 3, s_nfree := 5\<rparr>)\<rparr>"

lemma ex_fs: "unused 0 ex_fs = {3, 4, 5, 6, 7}" "free_blks 0 ex_fs = {3, 4, 5, 6, 7}" "fs_ok 0 ex_fs" "blk_inv ex_fs"
  "writable ex_fs (s_dev (supers ex_fs 0))"
proof -
  have "{i. i < (8::nat) \<and> P i} = set (filter P [0..<8])" for P by auto
  moreover have "[0..<8] = [0, 1, 2, 3, 4, 5, 6, 7]" by (simp add: upt_rec)
  ultimately have lt: "{i. i < (8::nat) \<and> P i} = set (filter P [0, 1, 2, 3, 4, 5, 6, 7])" for P by simp
  show u: "unused 0 ex_fs = {3, 4, 5, 6, 7}"
    unfolding unused_def by (simp add: ex_fs_def lt blk_used_def map_bit_def)
  show f: "free_blks 0 ex_fs = {3, 4, 5, 6, 7}"
    by (auto simp: free_blks_def u) (simp_all add: ex_fs_def)
  show "fs_ok 0 ex_fs" unfolding fs_ok_def u f by (simp add: maps_ok_def ex_fs_def)
  show "blk_inv ex_fs" "writable ex_fs (s_dev (supers ex_fs 0))"
    using ram_kst_inv ram_kst_writable by (simp_all add: ex_fs_def blk_irrelevant [of "ram_kst\<lparr>freemap := fm, freedirt := fd, supers := sp\<rparr>" ram_kst for fm fd sp])
qed

lemma ex_ro: "s_ro (supers ex_fs 0) = 0"
  by (simp add: ex_fs_def zero_super_def)

theorem alloc_blk_correct_witness:
  "returns (alloc_blk 0 ex_fs) (\<lambda>(r, s'). fs_ok 0 s' \<and> (case r of Inr b \<Rightarrow> b \<in> {3, 4, 5, 6, 7} \<and> b \<notin> free_blks 0 s' | Inl e \<Rightarrow> e = ENOMEM))"
  by (rule returns_mono [OF alloc_blk_correct [OF ex_fs(3-5)]]) (auto simp: ex_fs(2) ex_ro split: sum.splits)

text \<open>
  Property C9. \<open>free_blk\<close> of a used block makes that block, and no other, free; the map, the
  search hint and the number of free blocks stay right, and the disks are not touched.
\<close>

theorem free_blk_correct:
  assumes "fs_ok m s" and "b < s_nblocks (supers s m)" and "blk_used m s b"
  shows "returns (free_blk m b s) (\<lambda>s'. fs_ok m s' \<and> unused m s' = insert b (unused m s)
     \<and> s_freeblk (supers s' m) \<le> b \<and> bufs s' = bufs s \<and> disk s' = disk s
     \<and> (\<forall>k. k \<noteq> m \<longrightarrow> supers s' k = supers s k \<and> freemap s' k = freemap s k))"
proof -
  have mk: "maps_ok m s" using assms(1) by (simp add: fs_ok_def)
  obtain s1 where mb: "mark_blk m b False s = Some s1" and "marked m b False s s1"
    using mark_blk_spec [OF mk assms(2)] by blast
  then have s1: "supers s1 = supers s" "blk_used m s1 = (blk_used m s)(b := False)" "maps_ok m s1"
    "bufs s1 = bufs s" "disk s1 = disk s" "\<And>n. n \<noteq> m \<Longrightarrow> freemap s1 n = freemap s n"
    by (simp_all add: marked_def)
  let ?g = "\<lambda>sb. inc_nfree (sb\<lparr>s_freeblk := min (s_freeblk sb) b\<rparr>)"
  let ?s = "upd_super m ?g s1"
  have eq: "free_blk m b s = Some ?s"
    by (auto simp: free_blk_def mb upd_super_def inc_nfree_def min_def)
  have u: "unused m ?s = insert b (unused m s)" "free_blks m ?s \<subseteq> insert b (free_blks m s)"
    using assms(2) by (auto simp: unused_def free_blks_def s1(1,2) inc_nfree_def)
  have "b \<notin> unused m s" using assms(3) by (simp add: unused_def)
  then have card: "card (insert b (unused m s)) = Suc (card (unused m s))" by simp
  have sup: "supers ?s m = ?g (supers s m)" by (simp add: s1(1))
  have "s_nblocks (supers ?s m) = s_nblocks (supers s m)" unfolding sup by (simp add: inc_nfree_def)
  then have "card (unused m s) < s_nblocks (supers s m)"
    using card_unused [of m ?s] unfolding u(1) card by simp
  then have "s_nfree (supers ?s m) \<noteq> UNCOUNTED \<longrightarrow> s_nfree (supers ?s m) = card (unused m ?s)"
    using assms(1) unfolding u(1) sup card by (auto simp: fs_ok_def inc_nfree_def)
  moreover have "\<forall>i \<in> free_blks m ?s. s_freeblk (supers ?s m) \<le> i"
    using assms(1) u(2) unfolding sup by (auto simp: fs_ok_def inc_nfree_def min_le_iff_disj)
  ultimately have "fs_ok m ?s"
    using assms(1) s1(3) unfolding fs_ok_def maps_ok_def sup by (auto simp: inc_nfree_def s1(1))
  then show ?thesis
    using s1 u(1) by (simp add: eq inc_nfree_def)
qed

theorem free_blk_correct_witness:
  "returns (free_blk 0 2 ex_fs) (\<lambda>s'. fs_ok 0 s' \<and> unused 0 s' = {2, 3, 4, 5, 6, 7})"
proof (rule returns_mono [OF free_blk_correct [OF ex_fs(3), of 2]])
  show "2 < s_nblocks (supers ex_fs 0)" "blk_used 0 ex_fs 2"
    by (simp_all add: ex_fs_def blk_used_def map_bit_def)
qed (simp add: ex_fs(1))

end
