(* ===== verification/Bmap.thy ===== *)
theory Bmap
  imports Alloc
begin

unbundle bit_operations_syntax

text \<open>
  From the blocks of a file to the blocks of its device, \<open>kern/fs/bmap.c\<close>. An inode has
  64 direct entries (\<open>bmap0\<close>), 32 blocks of 128 entries (\<open>bmap1\<close>) and 25 blocks of 128
  blocks of 128 entries (\<open>bmap2\<close>); an entry 0 is a hole. The code's \<open>map\<close> pointers point
  into the data of a buffer or into the inode.
\<close>

section \<open>Entries of a map block\<close>

definition ent :: "kst \<Rightarrow> bref \<Rightarrow> nat \<Rightarrow> nat" where
  "ent s b k = rd32 (b_data (bufs s b)) (4 * k)"

definition set_ent :: "bref \<Rightarrow> nat \<Rightarrow> nat \<Rightarrow> kst \<Rightarrow> kst" where
  "set_ent b k v = upd_buf b (\<lambda>buf. buf\<lparr>b_data := wr32 (b_data buf) (4 * k) v, b_dirty := True\<rparr>)"

text \<open>The bookkeeping that follows every allocation: \<open>ino->d.blocks++; ino->dirty = 2;\<close>\<close>

definition grew :: "nat \<Rightarrow> kst \<Rightarrow> kst" where
  "grew i = upd_inode i (\<lambda>ip. ip\<lparr>i_dirty := 2, i_d := (i_d ip)\<lparr>d_blocks := d_blocks (i_d ip) + 1\<rparr>\<rparr>)"

section \<open>Operations\<close>

definition bmap_i :: "nat \<Rightarrow> nat \<Rightarrow> kst \<Rightarrow> ((errno + nat) \<times> kst) option" where
  "bmap_i i blk s =
     (let mi = blk div 128; k = blk mod 128; d = i_d (inodes s i) in
      if mi \<ge> length (bmap1 d) then None
      else if bmap1 d ! mi = 0 then Some (Inr 0, s)
      else bindE (blk_read (i_dev s i) (bmap1 d ! mi) s) (\<lambda>m s. do {
        let v = ent s m k;
        s \<leftarrow> blk_put m s;
        Some (Inr v, s)
      }))"

definition bmap_alloc_i :: "nat \<Rightarrow> nat \<Rightarrow> kst \<Rightarrow> ((errno + nat) \<times> kst) option" where
  "bmap_alloc_i i blk s =
     (let mi = blk div 128; k = blk mod 128; d = i_d (inodes s i) in
      if mi \<ge> length (bmap1 d) then None
      else
        bindE (if bmap1 d ! mi = 0 then
                 bindE (alloc_blk (i_sb (inodes s i)) s) (\<lambda>nb s.
                 bindE (blk_read (i_dev s i) nb s) (\<lambda>m s.
                   Some (Inr m, grew i (upd_d i (\<lambda>d. d\<lparr>bmap1 := (bmap1 d)[mi := nb]\<rparr>) s))))
               else blk_read (i_dev s i) (bmap1 d ! mi) s) (\<lambda>m s.
        if ent s m k = 0 then do {
          (r, s) \<leftarrow> alloc_blk (i_sb (inodes s i)) s;
          (case r of
             Inl e \<Rightarrow> do { s \<leftarrow> blk_put m s; Some (Inl e, s) }
           | Inr nb \<Rightarrow> do {
               let s = grew i (set_ent m k nb s);
               let v = ent s m k;
               s \<leftarrow> blk_put m s;
               Some (Inr v, s)
             })
        }
        else do {
          let v = ent s m k;
          s \<leftarrow> blk_put m s;
          Some (Inr v, s)
        }))"

text \<open>
  \<open>bmindir\<close> goes down from the map block \<open>mb\<close>. It does not release the buffer of the map
  block, and at a level above 0 it returns the entry for the next map block, not the block
  that the recursive call found; it ignores the recursive call's error.
\<close>

fun bmindir :: "nat \<Rightarrow> nat \<Rightarrow> nat \<Rightarrow> nat \<Rightarrow> bool \<Rightarrow> kst \<Rightarrow> ((errno + nat) \<times> kst) option" where
  "bmindir i mb bn level alloc s =
     (if mb = 0 then None
      else bindE (blk_read (i_dev s i) mb s) (\<lambda>m s.
        let mi = bn div 128 ^ level mod 128 in
        bindE (if ent s m mi = 0 \<and> alloc then
                 bindE (alloc_blk (i_sb (inodes s i)) s) (\<lambda>nb s. Some (Inr (), set_ent m mi nb (grew i s)))
               else Some (Inr (), s)) (\<lambda>_ s.
        if ent s m mi = 0 then Some (Inr 0, s)
        else case level of
          0 \<Rightarrow> Some (Inr (ent s m mi), s)
        | Suc l \<Rightarrow> do {
            (_, s) \<leftarrow> bmindir i (ent s m mi) bn l alloc s;
            Some (Inr (ent s m mi), s)
          })))"

declare bmindir.simps [simp del]

text \<open>The three maps of an inode; \<open>bmap3\<close> passes one of them with its level to \<open>bmap6\<close>.\<close>

definition ino_map :: "nat \<Rightarrow> disk_inode \<Rightarrow> nat list" where
  "ino_map level d = (if level = 0 then bmap0 d else if level = 1 then bmap1 d else bmap2 d)"

definition set_ino_map :: "nat \<Rightarrow> nat \<Rightarrow> nat \<Rightarrow> disk_inode \<Rightarrow> disk_inode" where
  "set_ino_map level k v d =
     (if level = 0 then d\<lparr>bmap0 := (bmap0 d)[k := v]\<rparr>
      else if level = 1 then d\<lparr>bmap1 := (bmap1 d)[k := v]\<rparr>
      else d\<lparr>bmap2 := (bmap2 d)[k := v]\<rparr>)"

definition bmap6 :: "nat \<Rightarrow> nat \<Rightarrow> nat \<Rightarrow> nat \<Rightarrow> bool \<Rightarrow> kst \<Rightarrow> ((errno + nat) \<times> kst) option" where
  "bmap6 i bn mapsz level alloc s =
     (let mi = bn div 128 ^ level in
      if mi \<ge> mapsz then Some (Inl EFBIG, s)
      else
        bindE (if ino_map level (i_d (inodes s i)) ! mi = 0 \<and> alloc then
                 bindE (alloc_blk (i_sb (inodes s i)) s) (\<lambda>nb s.
                   Some (Inr (), grew i (upd_d i (set_ino_map level mi nb) s)))
               else Some (Inr (), s)) (\<lambda>_ s.
        let b = ino_map level (i_d (inodes s i)) ! mi in
        if b = 0 then Some (Inr 0, s)
        else case level of
          0 \<Rightarrow> Some (Inr b, s)
        | Suc l \<Rightarrow> bmindir i b bn l alloc s))"

text \<open>
  The first argument for the third map is what the code computes: \<open>bn - BMAP0_SIZE +
  BMAP1_SIZE * 128\<close>, an offset 8192 too high.
\<close>

definition bmap3 :: "nat \<Rightarrow> nat \<Rightarrow> bool \<Rightarrow> kst \<Rightarrow> ((errno + nat) \<times> kst) option" where
  "bmap3 i bn alloc s =
     (if bn \<ge> BMAP0_SIZE + BMAP1_SIZE * 128 then
        bmap6 i ((bn - BMAP0_SIZE + BMAP1_SIZE * 128) mod 2 ^ 32) BMAP2_SIZE 2 alloc s
      else if bn \<ge> BMAP0_SIZE then bmap6 i (bn - BMAP0_SIZE) BMAP1_SIZE 1 alloc s
      else bmap6 i bn BMAP0_SIZE 0 alloc s)"

definition bmap :: "nat \<Rightarrow> nat \<Rightarrow> kst \<Rightarrow> ((errno + nat) \<times> kst) option" where
  "bmap i blk s = bmap3 i blk False s"

definition bmap_alloc :: "nat \<Rightarrow> nat \<Rightarrow> kst \<Rightarrow> ((errno + nat) \<times> kst) option" where
  "bmap_alloc i blk s = bmap3 i blk True s"

definition bmget :: "nat \<Rightarrow> nat \<Rightarrow> kst \<Rightarrow> ((errno + bref option) \<times> kst) option" where
  "bmget i blk s =
     bindE (bmap i blk s) (\<lambda>blk s.
       if blk \<noteq> 0 then bindE (blk_read (i_dev s i) blk s) (\<lambda>b s. Some (Inr (Some b), s))
       else Some (Inr None, s))"

definition bmget_alloc :: "nat \<Rightarrow> nat \<Rightarrow> kst \<Rightarrow> ((errno + bref) \<times> kst) option" where
  "bmget_alloc i blk s =
     bindE (bmap_alloc i blk s) (\<lambda>blk s.
       if blk = 0 then None else blk_read (i_dev s i) blk s)"

text \<open>
  \<open>trunc_i\<close> frees the blocks of a map block, through \<open>sub\<close> the map blocks below it.
  \<open>free_blk\<close> has no error, so the \<open>lasterr\<close> of \<open>trunc_i\<close> stays 0.
\<close>

fun trunc_ents :: "(nat \<Rightarrow> kst \<Rightarrow> ((errno + unit) \<times> kst) option) \<Rightarrow> nat \<Rightarrow> bref \<Rightarrow> bool \<Rightarrow> nat list
    \<Rightarrow> kst \<Rightarrow> ((errno + unit) \<times> kst) option" where
  "trunc_ents sub m b umap [] s = Some (Inr (), s)"
| "trunc_ents sub m b umap (k # ks) s =
     (if ent s b k = 0 then trunc_ents sub m b umap ks s
      else bindE (sub (ent s b k) s) (\<lambda>_ s. do {
        s \<leftarrow> free_blk m (ent s b k) s;
        trunc_ents sub m b umap ks (if umap then set_ent b k 0 s else s)
      }))"

primrec trunc_i :: "nat \<Rightarrow> nat \<Rightarrow> nat \<Rightarrow> bool \<Rightarrow> kst \<Rightarrow> ((errno + unit) \<times> kst) option" where
  "trunc_i 0 m blk umap s =
     bindE (blk_read (s_dev (supers s m)) blk s) (\<lambda>b s.
     bindE (trunc_ents (\<lambda>_ s. Some (Inr (), s)) m b umap [0..<128] s) (\<lambda>_ s. do {
       s \<leftarrow> blk_put b s;
       Some (Inr (), s)
     }))"
| "trunc_i (Suc level) m blk umap s =
     bindE (blk_read (s_dev (supers s m)) blk s) (\<lambda>b s.
     bindE (trunc_ents (\<lambda>e s. trunc_i level m e umap s) m b umap [0..<128] s) (\<lambda>_ s. do {
       s \<leftarrow> blk_put b s;
       Some (Inr (), s)
     }))"

fun trunc0 :: "nat \<Rightarrow> nat list \<Rightarrow> kst \<Rightarrow> kst option" where
  "trunc0 i [] s = Some s"
| "trunc0 i (k # ks) s =
     (let b = bmap0 (i_d (inodes s i)) ! k in
      if b = 0 then trunc0 i ks s
      else do {
        s \<leftarrow> free_blk (i_sb (inodes s i)) b s;
        trunc0 i ks (upd_d i (set_ino_map 0 k 0) s)
      })"

fun trunc12 :: "nat \<Rightarrow> nat \<Rightarrow> bool \<Rightarrow> nat list \<Rightarrow> errno option \<Rightarrow> kst \<Rightarrow> (errno option \<times> kst) option" where
  "trunc12 level i umap [] lasterr s = Some (lasterr, s)"
| "trunc12 level i umap (k # ks) lasterr s =
     (let b = ino_map level (i_d (inodes s i)) ! k in
      if b = 0 then trunc12 level i umap ks lasterr s
      else do {
        (r, s) \<leftarrow> trunc_i (level - 1) (i_sb (inodes s i)) b umap s;
        let lasterr = (case r of Inl e \<Rightarrow> Some e | Inr _ \<Rightarrow> lasterr);
        s \<leftarrow> free_blk (i_sb (inodes s i)) b s;
        trunc12 level i umap ks lasterr (upd_d i (set_ino_map level k 0) s)
      })"

definition trunc :: "nat \<Rightarrow> bool \<Rightarrow> kst \<Rightarrow> ((errno + unit) \<times> kst) option" where
  "trunc i umap s = do {
     s \<leftarrow> trunc0 i [0..<BMAP0_SIZE] s;
     (lasterr, s) \<leftarrow> trunc12 1 i umap [0..<BMAP1_SIZE] None s;
     (lasterr, s) \<leftarrow> trunc12 2 i umap [0..<BMAP2_SIZE] lasterr s;
     let s = upd_inode i (\<lambda>ip. ip\<lparr>i_dirty := 2, i_d := (i_d ip)\<lparr>d_size := 0, d_blocks := 0\<rparr>\<rparr>) s;
     Some ((case lasterr of Some e \<Rightarrow> Inl e | None \<Rightarrow> Inr ()), s)
   }"

section \<open>What the operations leave alone\<close>

context fs_frame begin

lemma obs_map [simp]: "obs (set_ent b k x s) = obs s" "obs (grew i s) = obs s"
  by (simp_all add: set_ent_def grew_def)

lemma bmap_i_keep [keep]: "obs s = v \<Longrightarrow> keep v (bmap_i i blk s)"
  unfolding bmap_i_def by (intro keep) simp_all

lemma bmap_alloc_i_keep [keep]: "obs s = v \<Longrightarrow> keep v (bmap_alloc_i i blk s)"
  unfolding bmap_alloc_i_def by (intro keep) simp_all

lemma bmindir_keep [keep]: "obs s = v \<Longrightarrow> keep v (bmindir i mb bn level alloc s)"
proof (induction level arbitrary: mb s)
  case 0
  then show ?case by (subst bmindir.simps) (intro keep; simp)
next
  case (Suc l)
  then show ?case by (subst bmindir.simps) (intro keep; simp)
qed

lemma bmap6_keep [keep]: "obs s = v \<Longrightarrow> keep v (bmap6 i bn n level alloc s)"
  unfolding bmap6_def by (intro keep; simp)

lemma bmap3_keep [keep]: "obs s = v \<Longrightarrow> keep v (bmap3 i bn alloc s)"
  unfolding bmap3_def by (intro keep; simp)

lemma bmap_keep [keep]: "obs s = v \<Longrightarrow> keep v (bmap i bn s)"
  and bmap_alloc_keep [keep]: "obs s = v \<Longrightarrow> keep v (bmap_alloc i bn s)"
  unfolding bmap_def bmap_alloc_def by (intro keep; simp)+

lemma bmget_keep [keep]: "obs s = v \<Longrightarrow> keep v (bmget i bn s)"
  and bmget_alloc_keep [keep]: "obs s = v \<Longrightarrow> keep v (bmget_alloc i bn s)"
  unfolding bmget_def bmget_alloc_def by (intro keep; simp)+

lemma trunc_ents_keep:
  "(\<And>e s. obs s = v \<Longrightarrow> keep v (sub e s)) \<Longrightarrow> obs s = v \<Longrightarrow> keep v (trunc_ents sub m b umap ks s)"
  by (induction ks arbitrary: s) (auto intro!: keep)

lemma trunc_i_keep [keep]: "obs s = v \<Longrightarrow> keep v (trunc_i level m blk umap s)"
  by (induction level arbitrary: blk s) (auto intro!: keep trunc_ents_keep)

lemma trunc0_keep [keep]: "obs s = v \<Longrightarrow> keeps v (trunc0 i ks s)"
  by (induction ks arbitrary: s) (auto simp: Let_def intro!: keep)

lemma trunc12_keep [keep]: "obs s = v \<Longrightarrow> keep v (trunc12 level i umap ks e s)"
  by (induction ks arbitrary: e s) (auto simp: Let_def intro!: keep)

lemma trunc_keep [keep]: "obs s = v \<Longrightarrow> keep v (trunc i umap s)"
  unfolding trunc_def by (intro keep) simp_all

end

section \<open>Finding a block\<close>

text \<open>What \<open>bmap\<close> computes from the contents of the device, as a function of its own.\<close>

definition map_entry :: "(nat \<Rightarrow> byte list) \<Rightarrow> nat \<Rightarrow> nat \<Rightarrow> nat" where
  "map_entry v b k = (if b = 0 then 0 else rd32 (v b) (4 * k))"

definition bmap_ref :: "(nat \<Rightarrow> byte list) \<Rightarrow> disk_inode \<Rightarrow> nat \<Rightarrow> nat" where
  "bmap_ref v d bn =
     (if bn < 64 then bmap0 d ! bn
      else if bn < 4160 then map_entry v (bmap1 d ! ((bn - 64) div 128)) ((bn - 64) mod 128)
      else map_entry v (bmap2 d ! ((bn + 4032) div 16384)) ((bn + 4032) div 128 mod 128))"

lemma map_entry_nonzero: "b \<noteq> 0 \<Longrightarrow> map_entry v b k = rd32 (v b) (4 * k)"
  by (simp add: map_entry_def)

lemma ent_view:
  assumes "blk_inv s" and "blk_has s b dev blk"
  shows "ent s b k = rd32 (blk_view s dev blk) (4 * k)"
  using cache.has_data [OF assms] by (simp add: ent_def)

text \<open>References to buffers that an operation leaves behind.\<close>

definition le_refs :: "kst \<Rightarrow> kst \<Rightarrow> bool" where
  "le_refs s s' \<longleftrightarrow> (\<forall>b. blk_refs s b \<le> blk_refs s' b)"

definition leaks :: "kst \<Rightarrow> kst \<Rightarrow> bool" where
  "leaks s s' \<longleftrightarrow> le_refs s s' \<and> blk_refs s' \<noteq> blk_refs s"

lemma le_refs_simps: "blk_refs s' = blk_refs s \<Longrightarrow> le_refs s s'" "leaks s s' \<Longrightarrow> le_refs s s'"
  by (simp_all add: le_refs_def leaks_def)

lemma leaksI: "blk_refs s' = (blk_refs s)(b := Suc (blk_refs s b)) \<Longrightarrow> leaks s s'"
  by (simp add: leaks_def le_refs_def fun_upd_idem_iff del: split_paired_All)

lemma leaks_trans: "leaks s t \<Longrightarrow> le_refs t u \<Longrightarrow> leaks s u"
proof -
  assume a: "leaks s t" "le_refs t u"
  then obtain b where "blk_refs t b \<noteq> blk_refs s b" by (auto simp: leaks_def fun_eq_iff)
  moreover have "blk_refs s b \<le> blk_refs t b" "blk_refs t b \<le> blk_refs u b" for b
    using a by (auto simp: leaks_def le_refs_def simp del: split_paired_All)
  ultimately show "leaks s u" unfolding leaks_def le_refs_def by (metis le_antisym le_trans)
qed

text \<open>
  Without allocation \<open>bmindir\<close> keeps what the disks hold, and leaves the buffer of its map
  block referenced.
\<close>

abbreviation bmindir_post :: "nat \<Rightarrow> nat \<Rightarrow> nat \<Rightarrow> kst \<Rightarrow> (errno + nat) \<times> kst \<Rightarrow> bool" where
  "bmindir_post dev mb k s \<equiv> \<lambda>(r, s'). keeps_blks s s' \<and> held_same s s' \<and> le_refs s s'
     \<and> (\<forall>v. r = Inr v \<longrightarrow> v = rd32 (blk_view s dev mb) (4 * k) \<and> leaks s s')"

lemma bmindir_spec:
  assumes "blk_inv s" and "mb \<noteq> 0"
  shows "returns (bmindir i mb bn level False s) (bmindir_post (i_dev s i) mb (bn div 128 ^ level mod 128) s)"
  using assms
proof (induction level arbitrary: mb s)
  case (0 mb s)
  have "returns (bindE (blk_read (i_dev s i) mb s) (\<lambda>b s. Some (Inr (ent s b (bn mod 128)), s)))
      (bmindir_post (i_dev s i) mb (bn mod 128) s)"
    by (rule cache.rd_rule [OF 0(1)]) (simp_all add: ent_def leaksI le_refs_simps(1) le_refs_simps(2) [OF leaksI])
  moreover have "bmindir i mb bn 0 False s = bindE (blk_read (i_dev s i) mb s) (\<lambda>b s. Some (Inr (ent s b (bn mod 128)), s))"
    using 0(2) by (subst bmindir.simps) (auto simp: Let_def intro!: bindE_cong)
  ultimately show ?case by simp
next
  case (Suc l mb s)
  define k where "k = bn div 128 ^ Suc l mod 128"
  have "returns (bindE (blk_read (i_dev s i) mb s) (\<lambda>b s. if ent s b k = 0 then Some (Inr 0, s)
      else do { (_, s) \<leftarrow> bmindir i (ent s b k) bn l False s; Some (Inr (ent s b k), s) })) (bmindir_post (i_dev s i) mb k s)"
  proof (rule cache.rd_rule [OF Suc.prems(1)])
    fix b s1
    assume 1: "keeps_blks s s1" "held_same s s1" "blk_inv s1" "blk_has s1 b (i_dev s i) mb" "b_data (bufs s1 b) = blk_view s (i_dev s i) mb"
      "blk_refs s1 = (blk_refs s)(b := Suc (blk_refs s b))"
    have lk: "leaks s s1" by (rule leaksI [OF 1(6)])
    have e1: "ent s1 b k = rd32 (blk_view s (i_dev s i) mb) (4 * k)" by (simp add: ent_def 1(5))
    show "returns (if ent s1 b k = 0 then Some (Inr 0, s1)
      else do { (_, s) \<leftarrow> bmindir i (ent s1 b k) bn l False s1; Some (Inr (ent s b k), s) }) (bmindir_post (i_dev s i) mb k s)"
    proof (cases "ent s1 b k = 0")
      case True
      then show ?thesis using 1 lk e1 le_refs_simps(2) [OF lk] by simp
    next
      case False
      obtain r s2 where r: "bmindir i (ent s1 b k) bn l False s1 = Some (r, s2)"
        and 2: "keeps_blks s1 s2" "held_same s1 s2" "le_refs s1 s2"
        by (rule returnsE [OF Suc.IH [OF 1(3) False]]) auto
        have "blk_refs s2 b \<noteq> 0" using 2(3) unfolding le_refs_def 1(6) by (metis fun_upd_same le_zero_eq nat.distinct(1))
        then have "blk_has s2 b (i_dev s i) mb" using cache.has_stays 1(4) 2(2) by blast
        then have "ent s2 b k = rd32 (blk_view s (i_dev s i) mb) (4 * k)"
          using ent_view [OF keeps_blks_inv [OF 2(1)]] keeps_blks_view [OF 2(1)] keeps_blks_view [OF 1(1)] by simp
        moreover have "held_same s s2"
          by (rule held_same_trans [OF 1(2) 2(2)]) (simp add: 1(6))
        ultimately show ?thesis
          using keeps_blks_trans [OF 1(1) 2(1)] leaks_trans [OF lk 2(3)] le_refs_simps(2) [OF leaks_trans [OF lk 2(3)]] False
          by (simp add: r)
    qed
  qed (simp add: le_refs_simps)
  then show ?case using Suc.prems(2) unfolding k_def by (subst bmindir.simps) (simp add: Let_def cong: if_cong)
qed


lemma bmap_spec:
  assumes "blk_inv s" and "bn < 2 ^ 31"
  shows "returns (bmap i bn s) (\<lambda>(r, s'). keeps_blks s s'
     \<and> (case r of
          Inr b \<Rightarrow> bn < 405568 \<and> b = bmap_ref (blk_view s (i_dev s i)) (i_d (inodes s i)) bn
            \<and> (bn < 64 \<longrightarrow> s' = s) \<and> (64 \<le> bn \<and> b \<noteq> 0 \<longrightarrow> leaks s s')
        | Inl e \<Rightarrow> bn < 405568 \<or> e = EFBIG \<and> s' = s))"
proof -
  let ?d = "i_d (inodes s i)" and ?v = "blk_view s (i_dev s i)"
  have step: "returns (bmap6 i n sz (Suc l) False s) (\<lambda>(r, s'). keeps_blks s s'
      \<and> (case r of Inr b \<Rightarrow> b = map_entry ?v (ino_map (Suc l) ?d ! (n div 128 ^ Suc l)) (n div 128 ^ l mod 128) \<and> (b \<noteq> 0 \<longrightarrow> leaks s s')
         | Inl e \<Rightarrow> True))" if "n div 128 ^ Suc l < sz" for n sz l
  proof (cases "ino_map (Suc l) ?d ! (n div 128 ^ Suc l) = 0")
    case True
    then show ?thesis using that assms(1) by (simp add: bmap6_def Let_def keeps_blks_refl map_entry_def)
  next
    case False
    then have "bmap6 i n sz (Suc l) False s = bmindir i (ino_map (Suc l) ?d ! (n div 128 ^ Suc l)) n l False s"
      using that by (simp add: bmap6_def Let_def)
    moreover have "returns (bmindir i (ino_map (Suc l) ?d ! (n div 128 ^ Suc l)) n l False s) (\<lambda>(r, s'). keeps_blks s s'
      \<and> (case r of Inr b \<Rightarrow> b = map_entry ?v (ino_map (Suc l) ?d ! (n div 128 ^ Suc l)) (n div 128 ^ l mod 128) \<and> (b \<noteq> 0 \<longrightarrow> leaks s s')
         | Inl e \<Rightarrow> True))"
      unfolding map_entry_nonzero [OF False]
      by (rule returns_mono [OF bmindir_spec [OF assms(1) False]]) (simp split: sum.split prod.splits)
    ultimately show ?thesis by simp
  qed
  have fin: ?thesis if lim: "64 \<le> bn" "bn < 405568"
    and ret: "returns (bmap i bn s) (\<lambda>(r, s'). keeps_blks s s'
      \<and> (case r of Inr b \<Rightarrow> b = bmap_ref ?v ?d bn \<and> (b \<noteq> 0 \<longrightarrow> leaks s s') | Inl e \<Rightarrow> True))"
  proof -
    obtain r t where rt: "bmap i bn s = Some (r, t)" "keeps_blks s t"
      "case r of Inr b \<Rightarrow> b = bmap_ref ?v ?d bn \<and> (b \<noteq> 0 \<longrightarrow> leaks s t) | Inl e \<Rightarrow> True"
      using ret by (auto elim!: returnsE)
    show ?thesis
      using lim rt(2,3) by (cases r) (simp_all add: rt(1))
  qed
  consider "bn < 64" | "64 \<le> bn" "bn < 4160" | "4160 \<le> bn" "bn < 405568" | "405568 \<le> bn" by linarith
  then show ?thesis
  proof cases
    case 1
    then show ?thesis using assms(1)
      by (simp add: bmap_def bmap3_def bmap6_def Let_def keeps_blks_refl ino_map_def bmap_ref_def)
  next
    case 2
    then have e: "bmap i bn s = bmap6 i (bn - 64) 32 (Suc 0) False s"
      "bmap_ref ?v ?d bn = map_entry ?v (ino_map (Suc 0) ?d ! ((bn - 64) div 128 ^ Suc 0)) ((bn - 64) div 128 ^ 0 mod 128)"
      by (simp_all add: bmap_def bmap3_def bmap_ref_def ino_map_def)
    from 2 have "(bn - 64) div 128 ^ Suc 0 < 32" by simp
    from step [OF this] show ?thesis unfolding e(1) [symmetric] e(2) [symmetric] by (intro fin) (use 2 in simp_all)
  next
    case 3
    then have e: "bmap i bn s = bmap6 i (bn + 4032) 25 (Suc 1) False s"
      "bmap_ref ?v ?d bn = map_entry ?v (ino_map (Suc 1) ?d ! ((bn + 4032) div 128 ^ Suc 1)) ((bn + 4032) div 128 ^ 1 mod 128)"
      by (simp_all add: bmap_def bmap3_def bmap_ref_def ino_map_def add.commute flip: numeral_2_eq_2)
    from 3 have "(bn + 4032) div 128 ^ Suc 1 < 25" by simp
    from step [OF this] show ?thesis unfolding e(1) [symmetric] e(2) [symmetric] by (intro fin) (use 3 in simp_all)
  next
    case 4
    then have "bmap i bn s = bmap6 i (bn + 4032) 25 2 False s" using assms(2) by (simp add: bmap_def bmap3_def add.commute)
    moreover have "25 \<le> (bn + 4032) div 128 ^ 2" using 4 by simp
    ultimately show ?thesis using 4 assms(1) by (simp add: bmap6_def Let_def keeps_blks_refl)
  qed
qed


text \<open>
  Property C10. On a disk that works and below the limit of the maps, \<open>bmap\<close> never panics
  and finds the block that the reference definition \<open>bmap_ref\<close> computes from the maps on
  the disk, the cached changes included. Above 405568 blocks it fails with \<open>EFBIG\<close>,
  although the limit of \<open>reg_write\<close> is 413760. No contents change, but every search that goes through a
  map block leaves a buffer referenced.
\<close>

theorem bmap_correct:
  assumes "blk_inv s" and "bn < 2 ^ 31"
  shows "returns (bmap i bn s) (\<lambda>(r, s'). keeps_blks s s'
     \<and> (case r of
          Inr b \<Rightarrow> bn < 405568 \<and> b = bmap_ref (blk_view s (i_dev s i)) (i_d (inodes s i)) bn
            \<and> (bn < 64 \<longrightarrow> s' = s) \<and> (64 \<le> bn \<and> b \<noteq> 0 \<longrightarrow> leaks s s')
        | Inl e \<Rightarrow> bn < 405568 \<or> e = EFBIG \<and> s' = s))"
  by (rule bmap_spec [OF assms])

lemma ex_fs_dev: "i_dev ex_fs 0 = 256" "inodes ex_fs = (\<lambda>_. zero_inode)"
  by (simp_all add: ex_fs_def ram_kst_def zero_kst_def zero_inode_def)

theorem bmap_correct_witness:
  "returns (bmap 0 5000 ex_fs) (\<lambda>(r, s'). blk_view s' = blk_view ex_fs) \<and> (5000 :: nat) < 2 ^ 31"
proof -
  have "returns (bmap 0 5000 ex_fs) (\<lambda>(r, s'). blk_view s' = blk_view ex_fs)"
    by (rule returns_mono [OF bmap_correct [OF ex_fs(4)]]) (auto simp: keeps_blks_view)
  then show ?thesis by simp
qed

text \<open>
  Property C11. In the part of a file that is reached through two map blocks, that is from
  block 4160 on, the 128 blocks of a group all have the same device block: \<open>bmindir\<close>
  returns the number of the second map block, not what it holds. So what is written to one
  of them overwrites the others and the map.
\<close>

theorem bmap_collision:
  assumes "4160 \<le> m" and "(m - 64) div 128 = (n - 64) div 128"
    and "blk_inv s" and "m < 2 ^ 31" and "n < 2 ^ 31"
    and "bmap i m s = Some (Inr a, s1)" and "bmap i n s = Some (Inr b, s2)"
  shows "a = b"
proof -
  have a: "a = bmap_ref (blk_view s (i_dev s i)) (i_d (inodes s i)) m"
    using bmap_spec [OF assms(3,4), of i] assms(6) by simp
  have b: "b = bmap_ref (blk_view s (i_dev s i)) (i_d (inodes s i)) n"
    using bmap_spec [OF assms(3,5), of i] assms(7) by simp
  have "32 \<le> (n - 64) div 128" using assms(1,2) by linarith
  then have n: "4160 \<le> n" by linarith
  have "(n + 4032) div 128 = (n - 64) div 128 + 32" "(m + 4032) div 128 = (m - 64) div 128 + 32"
    using n assms(1) by linarith+
  then have e: "(n + 4032) div 128 = (m + 4032) div 128" using assms(2) by simp
  then have "(n + 4032) div 128 div 128 = (m + 4032) div 128 div 128" by simp
  then have "(n + 4032) div 16384 = (m + 4032) div 16384" by (simp add: div_mult2_eq [symmetric])
  with e n assms(1) show ?thesis by (simp add: a b bmap_ref_def)
qed

text \<open>A file whose map \<open>bmap2\<close> leads through block 3 to block 4.\<close>

definition ex_deep :: kst where
  "ex_deep = ram_kst\<lparr>disk := \<lparr>sectors = (\<lambda>_ _. replicate 512 0)(256 := (\<lambda>_. replicate 512 0)(3 := replicate 256 0 @ [4, 0, 0, 0] @ replicate 252 0)), hw = 0\<rparr>,
     inodes := (\<lambda>_. zero_inode\<lparr>i_d := zero_dinode\<lparr>bmap2 := 3 # replicate 24 0\<rparr>\<rparr>), supers := (\<lambda>_. zero_super\<lparr>s_dev := 256\<rparr>)\<rparr>"

lemma ex_deep_inv: "blk_inv ex_deep"
  using ram_driver_ok by (simp add: blk_inv_def ex_deep_def ram_kst_def zero_kst_def buf_ok_def Let_def zero_buf_def one_buf_def in_use_def)

lemma ex_deep_view: "blk_view ex_deep dev b = sectors (disk ex_deep) dev b"
  by (rule view_miss) (simp add: hit_def Let_def ex_deep_def ram_kst_def zero_kst_def zero_buf_def)

lemma ex_deep_bmap:
  assumes "m \<in> {4160..<4288}"
  shows "\<exists>t. bmap 0 m ex_deep = Some (Inr 4, t)"
proof -
  have d: "i_dev ex_deep 0 = 256" "bmap2 (i_d (inodes ex_deep 0)) = 3 # replicate 24 0"
    by (simp_all add: ex_deep_def)
  have "clean_cache ex_deep" by (simp add: clean_cache_def ex_deep_def ram_kst_def zero_kst_def zero_buf_def)
  moreover have "reads_well ex_deep 256 3"
    by (auto simp: reads_well_def ex_deep_def ram_kst_def zero_kst_def ram_driver_def major_def Let_def)
  moreover have "\<exists>n < BCDEPTH. b_refcnt (bufs ex_deep (3 mod BCWIDTH, n)) = 0"
    by (rule exI [of _ 0]) (simp add: ex_deep_def ram_kst_def zero_kst_def zero_buf_def)
  ultimately obtain b s where r: "blk_read 256 3 ex_deep = Some (Inr b, s)"
    using blk_read_clean [OF ex_deep_inv, of 3 256] by blast
  have "(m + 4032) div 16384 = 0" "(m + 4032) div 128 mod 128 = 64" using assms by auto
  then have ref: "bmap_ref (blk_view ex_deep 256) (i_d (inodes ex_deep 0)) m = 4"
    using assms d by (simp add: bmap_ref_def map_entry_def ex_deep_view) (simp add: ex_deep_def rd32_def rd16_def nth_append)
  have "m < 2 ^ 31" using assms by simp
  from bmap_spec [OF ex_deep_inv this, of 0] obtain x t where b: "bmap 0 m ex_deep = Some (x, t)"
    "case x of Inr v \<Rightarrow> v = bmap_ref (blk_view ex_deep 256) (i_d (inodes ex_deep 0)) m | Inl _ \<Rightarrow> True"
    unfolding d(1) by (rule returnsE) (auto split: sum.splits)
  moreover have "\<exists>v. x = Inr v"
  proof -
    have e: "(m + 4032) div 16384 = 0" "(4032 + m) mod 2 ^ 32 = m + 4032" using assms by auto
    have "bmap 0 m ex_deep = bmindir 0 3 (m + 4032) (Suc 0) False ex_deep"
      using assms e d by (simp add: bmap_def bmap3_def bmap6_def Let_def ino_map_def numeral_2_eq_2 add.commute)
    then show ?thesis using b(1) r d(1)
      by (auto simp: bmindir.simps [of 0 3 _ "Suc 0"] Let_def split: if_splits bind_splits)
  qed
  ultimately show ?thesis using b(2) ref by auto
qed

theorem bmap_collision_witness:
  "\<exists>s t. bmap 0 4160 ex_deep = Some (Inr 4, s) \<and> bmap 0 4161 ex_deep = Some (Inr 4, t)"
proof -
  obtain s where s: "bmap 0 4160 ex_deep = Some (Inr 4, s)" using ex_deep_bmap [of 4160] by auto
  obtain b t where t: "bmap 0 4161 ex_deep = Some (Inr b, t)" using ex_deep_bmap [of 4161] by auto
  have "4 = b" by (rule bmap_collision [OF _ _ ex_deep_inv _ _ s t]) simp_all
  with s t show ?thesis by blast
qed

end
