(* ===== verification/Inode.thy ===== *)
theory Inode
  imports Bmap
begin

unbundle bit_operations_syntax

text \<open>
  The table of inodes, \<open>kern/fs/inode.c\<close>, with the two functions of \<open>kern/fs/alloc.c\<close>
  that allocate and free an inode. An inode is a block of its own, numbered by the block.
\<close>

section \<open>Operations\<close>

definition inode_read :: "nat \<Rightarrow> kst \<Rightarrow> ((errno + unit) \<times> kst) option" where
  "inode_read i s =
     bindE (blk_read (i_dev s i) (i_ino (inodes s i)) s) (\<lambda>b s. do {
       let s = upd_d i (\<lambda>_. decode_dinode (b_data (bufs s b))) s;
       s \<leftarrow> blk_put b s;
       Some (Inr (), s)
     })"

definition inode_write :: "nat \<Rightarrow> kst \<Rightarrow> ((errno + unit) \<times> kst) option" where
  "inode_write i s =
     (if s_ro (supers s (i_sb (inodes s i))) \<noteq> 0 then None
      else bindE (blk_get (i_dev s i) (i_ino (inodes s i)) s) (\<lambda>b s. do {
        s \<leftarrow> blk_put b (blk_store b (encode_dinode (i_d (inodes s i))) s);
        Some (Inr (), upd_inode i (\<lambda>ip. ip\<lparr>i_dirty := 0\<rparr>) s)
      }))"

text \<open>
  The loop of \<open>inode_get\<close> stops at the first entry that is the inode; where there is none,
  it has remembered the last free entry.
\<close>

definition inode_find :: "nat \<Rightarrow> nat \<Rightarrow> kst \<Rightarrow> nat option" where
  "inode_find m ino s =
     find (\<lambda>i. i_refcnt (inodes s i) \<noteq> 0 \<and> i_sb (inodes s i) = m \<and> i_ino (inodes s i) = ino) [0..<MAXINODES]"

definition inode_free_slot :: "kst \<Rightarrow> nat option" where
  "inode_free_slot s = find (\<lambda>i. i_refcnt (inodes s i) = 0) (rev [0..<MAXINODES])"

definition inode_ref :: "nat \<Rightarrow> kst \<Rightarrow> kst" where
  "inode_ref i = upd_inode i (\<lambda>ip. ip\<lparr>i_refcnt := i_refcnt ip + 1\<rparr>)"

definition inode_get :: "nat \<Rightarrow> nat \<Rightarrow> kst \<Rightarrow> ((errno + nat) \<times> kst) option" where
  "inode_get m ino s =
     (case inode_find m ino s of
        Some i \<Rightarrow>
          (case i_mnt_root (inodes s i) of
             Some r \<Rightarrow> Some (Inr r, inode_ref r s)
           | None \<Rightarrow> Some (Inr i, inode_ref i s))
      | None \<Rightarrow>
          (case inode_free_slot s of
             None \<Rightarrow> Some (Inl ENOMEM, s)
           | Some fr \<Rightarrow>
               let s = upd_inode fr (\<lambda>ip. ip\<lparr>i_sb := m, i_ino := ino, i_dirty := 0, i_mnt_dir := None,
                         i_mnt_root := None, pipe_buf := 0, pipe_wrp := 0, pipe_rdp := 0,
                         pipe_datlen := 0, pipe_readers := 0, pipe_writers := 0\<rparr>) s
               in bindE (inode_read fr s) (\<lambda>_ s.
                    Some (Inr fr, upd_inode fr (\<lambda>ip. ip\<lparr>i_refcnt := 1\<rparr>) s))))"

definition free_inode :: "nat \<Rightarrow> kst \<Rightarrow> ((errno + unit) \<times> kst) option" where
  "free_inode i s = do {
     s \<leftarrow> free_blk (i_sb (inodes s i)) (i_ino (inodes s i)) s;
     trunc i False s
   }"

definition inode_put :: "nat \<Rightarrow> kst \<Rightarrow> ((errno + unit) \<times> kst) option" where
  "inode_put i s =
     (let s = upd_inode i (\<lambda>ip. ip\<lparr>i_refcnt := i_refcnt ip - 1\<rparr>) s in
      if i_refcnt (inodes s i) \<noteq> 0 then Some (Inr (), s)
      else do {
        s \<leftarrow> (if pipe_buf (inodes s i) \<noteq> 0 then pfree (pipe_buf (inodes s i)) s else Some s);
        s \<leftarrow> (if d_nlink (i_d (inodes s i)) = 0 \<and> s_ro (supers s (i_sb (inodes s i))) = 0
              then map_option snd (free_inode i s) else Some s);
        (if i_dirty (inodes s i) \<noteq> 0 then do {
           (r, s) \<leftarrow> inode_write i s;
           (case r of
              Inl e \<Rightarrow> Some (Inl e, upd_inode i (\<lambda>ip. ip\<lparr>i_dirty := 0\<rparr>) s)
            | Inr _ \<Rightarrow> Some (Inr (), s))
         }
         else Some (Inr (), s))
      })"

text \<open>Most callers ignore the result of \<open>inode_put\<close>.\<close>

definition iput :: "nat \<Rightarrow> kst \<Rightarrow> kst option" where
  "iput i s = map_option snd (inode_put i s)"

text \<open>\<open>inode_sync\<close> ignores write errors.\<close>

fun inode_sync_list :: "nat \<Rightarrow> nat list \<Rightarrow> kst \<Rightarrow> kst option" where
  "inode_sync_list level [] s = Some s"
| "inode_sync_list level (i # is) s =
     (if i_dirty (inodes s i) \<ge> level then do {
        (_, s) \<leftarrow> inode_write i s;
        inode_sync_list level is s
      }
      else inode_sync_list level is s)"

definition inode_sync :: "nat \<Rightarrow> kst \<Rightarrow> kst option" where
  "inode_sync level s = inode_sync_list level [0..<MAXINODES] s"

text \<open>
  \<open>uid_t\<close> and \<open>gid_t\<close> are signed, the numbers in the inode are not: the comparison is of
  their values as integers.
\<close>

definition same_id :: "16 word \<Rightarrow> 16 word \<Rightarrow> bool" where
  "same_id u d \<longleftrightarrow> sint u = uint d"

definition inode_chkperm4 :: "nat \<Rightarrow> 32 word \<Rightarrow> 16 word \<Rightarrow> 16 word \<Rightarrow> kst \<Rightarrow> errno option" where
  "inode_chkperm4 i mode uid gid s =
     (let d = i_d (inodes s i) in
      if s_ro (supers s (i_sb (inodes s i))) \<noteq> 0 \<and> mode AND W_OK \<noteq> 0
         \<and> \<not> S_ISCHR (d_mode d) \<and> \<not> S_ISBLK (d_mode d) then Some EROFS
      else if uid = 0 then None
      else
        let perm = (if same_id uid (d_uid d) then d_mode d AND 0x1C0
                    else if same_id gid (d_gid d) then d_mode d AND 0x38
                    else d_mode d AND 0x7) in
        if mode AND R_OK \<noteq> 0 \<and> perm AND (0x100 OR 0x20 OR 0x4) = 0 then Some EACCES
        else if mode AND W_OK \<noteq> 0 \<and> perm AND (0x80 OR 0x10 OR 0x2) = 0 then Some EACCES
        else if mode AND X_OK \<noteq> 0 \<and> perm AND (0x40 OR 0x8 OR 0x1) = 0 then Some EACCES
        else None)"

definition inode_chkperm :: "nat \<Rightarrow> 32 word \<Rightarrow> kst \<Rightarrow> errno option" where
  "inode_chkperm i mode s = inode_chkperm4 i mode (p_euid (cur s)) (p_egid (cur s)) s"

definition inode_chkperm_rid :: "nat \<Rightarrow> 32 word \<Rightarrow> kst \<Rightarrow> errno option" where
  "inode_chkperm_rid i mode s = inode_chkperm4 i mode (p_ruid (cur s)) (p_rgid (cur s)) s"

text \<open>A function that only checks, run before the rest: \<open>err = ...; if (err) return err;\<close>\<close>

definition check :: "errno option \<Rightarrow> 's \<Rightarrow> ((errno + unit) \<times> 's) option" where
  "check e s = (case e of None \<Rightarrow> Some (Inr (), s) | Some e \<Rightarrow> Some (Inl e, s))"

definition alloc_inode :: "nat \<Rightarrow> kst \<Rightarrow> ((errno + nat) \<times> kst) option" where
  "alloc_inode m s =
     bindE (alloc_blk m s) (\<lambda>ino s. do {
       (r, s) \<leftarrow> inode_get m ino s;
       (case r of
          Inl e \<Rightarrow> do { s \<leftarrow> free_blk m ino s; Some (Inl e, s) }
        | Inr i \<Rightarrow> Some (Inr i, upd_d i (\<lambda>d. d\<lparr>
            d_uid := p_euid (cur s), d_gid := p_egid (cur s), d_rdev := 0, d_size := 0,
            d_mode := 0, d_blocks := 0, d_atime := k_time s, d_mtime := k_time s,
            d_ctime := k_time s, d_nlink := 0,
            bmap0 := replicate BMAP0_SIZE 0, bmap1 := replicate BMAP1_SIZE 0,
            bmap2 := replicate BMAP2_SIZE 0\<rparr>) s))
     })"

section \<open>What the operations leave alone\<close>

context fs_frame begin

lemma inode_read_keep [keep]: "obs s = v \<Longrightarrow> keep v (inode_read i s)"
  and inode_write_keep [keep]: "obs s = v \<Longrightarrow> keep v (inode_write i s)"
  unfolding inode_read_def inode_write_def by (intro keep; simp)+

lemma obs_inode_ref [simp]: "obs (inode_ref i s) = obs s"
  by (simp add: inode_ref_def)

lemma inode_get_keep [keep]: "obs s = v \<Longrightarrow> keep v (inode_get m ino s)"
  unfolding inode_get_def by (intro keep; simp)

lemma free_inode_keep [keep]: "obs s = v \<Longrightarrow> keep v (free_inode i s)"
  unfolding free_inode_def by (intro keep)

lemma inode_put_keep [keep]: "obs s = v \<Longrightarrow> keep v (inode_put i s)"
  unfolding inode_put_def by (intro keep; simp)

lemma iput_keep [keep]: "obs s = v \<Longrightarrow> keeps v (iput i s)"
  unfolding iput_def by (intro keep)

lemma inode_sync_keep [keep]: "obs s = v \<Longrightarrow> keeps v (inode_sync level s)"
proof -
  have "obs s = v \<Longrightarrow> keeps v (inode_sync_list level is s)" for "is"
    by (induction "is" arbitrary: s) (auto intro!: keep)
  then show "obs s = v \<Longrightarrow> keeps v (inode_sync level s)" by (simp add: inode_sync_def)
qed

lemma check_keep [keep]: "obs s = v \<Longrightarrow> keep v (check e s)"
  unfolding check_def by (intro keep)

lemma alloc_inode_keep [keep]: "obs s = v \<Longrightarrow> keep v (alloc_inode m s)"
  unfolding alloc_inode_def by (intro keep; simp)

end

section \<open>Permissions\<close>

text \<open>
  The rule of the manual: the class of the user is that of the owner, of the group or of
  the others, the first that fits, and every bit that is asked for must be among the three bits of the class.
\<close>

definition perm_bits :: "16 word \<Rightarrow> 16 word \<Rightarrow> disk_inode \<Rightarrow> 16 word" where
  "perm_bits uid gid d =
     drop_bit (if same_id uid (d_uid d) then 6 else if same_id gid (d_gid d) then 3 else 0) (d_mode d) AND 7"

definition may_access :: "nat \<Rightarrow> 32 word \<Rightarrow> 16 word \<Rightarrow> 16 word \<Rightarrow> kst \<Rightarrow> bool" where
  "may_access i mode uid gid s \<longleftrightarrow> uid = 0 \<or> (\<forall>k < 3. bit mode k \<longrightarrow> bit (perm_bits uid gid (i_d (inodes s i))) k)"

definition ro_refused :: "nat \<Rightarrow> 32 word \<Rightarrow> kst \<Rightarrow> bool" where
  "ro_refused i mode s \<longleftrightarrow> s_ro (supers s (i_sb (inodes s i))) \<noteq> 0 \<and> bit mode 1 \<and> \<not> S_ISCHR (d_mode (i_d (inodes s i))) \<and> \<not> S_ISBLK (d_mode (i_d (inodes s i)))"

lemma mask_bits:
  "(w :: 'a :: len word) AND 1 = 0 \<longleftrightarrow> \<not> bit w 0" "w AND 2 = 0 \<longleftrightarrow> \<not> bit w 1" "w AND 4 = 0 \<longleftrightarrow> \<not> bit w 2"
  "w AND 8 = 0 \<longleftrightarrow> \<not> bit w 3" "w AND 16 = 0 \<longleftrightarrow> \<not> bit w 4" "w AND 32 = 0 \<longleftrightarrow> \<not> bit w 5"
  "w AND 64 = 0 \<longleftrightarrow> \<not> bit w 6" "w AND 128 = 0 \<longleftrightarrow> \<not> bit w 7" "w AND 256 = 0 \<longleftrightarrow> \<not> bit w 8"
  using and_exp_eq_0_iff_not_bit [of w 0] and_exp_eq_0_iff_not_bit [of w 1] and_exp_eq_0_iff_not_bit [of w 2]
    and_exp_eq_0_iff_not_bit [of w 3] and_exp_eq_0_iff_not_bit [of w 4] and_exp_eq_0_iff_not_bit [of w 5]
    and_exp_eq_0_iff_not_bit [of w 6] and_exp_eq_0_iff_not_bit [of w 7] and_exp_eq_0_iff_not_bit [of w 8]
  by simp_all

lemma three: "(\<forall>k < 3. P k) \<longleftrightarrow> P 0 \<and> P 1 \<and> P (2::nat)"
  by (auto simp: numeral_3_eq_3 less_Suc_eq numeral_2_eq_2)

lemma seven: "bit (7 :: 16 word) 0" "bit (7 :: 16 word) 1" "bit (7 :: 16 word) 2" "bit (7 :: 16 word) (Suc 0)"
  by simp_all

lemma perm_and:
  "((w :: 16 word) AND 448) AND 292 = w AND 256" "(w AND 448) AND 146 = w AND 128" "(w AND 448) AND 73 = w AND 64"
  "(w AND 56) AND 292 = w AND 32" "(w AND 56) AND 146 = w AND 16" "(w AND 56) AND 73 = w AND 8"
  "(w AND 7) AND 292 = w AND 4" "(w AND 7) AND 146 = w AND 2" "(w AND 7) AND 73 = w AND 1"
  by (simp_all add: and.assoc)

lemma perm_class:
  fixes uid gid d
  defines "perm \<equiv> (if same_id uid (d_uid d) then d_mode d AND 0x1C0
                    else if same_id gid (d_gid d) then d_mode d AND 0x38 else d_mode d AND 0x7)"
  shows "perm AND (0x100 OR 0x20 OR 0x4) = 0 \<longleftrightarrow> \<not> bit (perm_bits uid gid d) 2"
    and "perm AND (0x80 OR 0x10 OR 0x2) = 0 \<longleftrightarrow> \<not> bit (perm_bits uid gid d) 1"
    and "perm AND (0x40 OR 0x8 OR 0x1) = 0 \<longleftrightarrow> \<not> bit (perm_bits uid gid d) 0"
  unfolding perm_def perm_bits_def
  by (simp_all add: perm_and mask_bits bit_and_iff bit_drop_bit_eq numeral_2_eq_2 [symmetric])

text \<open>
  Property C12. The permission check is the rule that the class of the user decides:
  \<open>inode_chkperm4\<close> refuses writing to a read-only file system with \<open>EROFS\<close>, devices excepted, even for the super
  user; else it refuses with \<open>EACCES\<close> exactly what the three bits of the class do not
  grant, and the super user is granted everything, execution included.
\<close>

theorem chkperm_rule:
  "inode_chkperm4 i mode uid gid s =
     (if ro_refused i mode s then Some EROFS else if may_access i mode uid gid s then None else Some EACCES)"
proof -
  obtain perm where perm: "perm = (if same_id uid (d_uid (i_d (inodes s i))) then d_mode (i_d (inodes s i)) AND 0x1C0
      else if same_id gid (d_gid (i_d (inodes s i))) then d_mode (i_d (inodes s i)) AND 0x38 else d_mode (i_d (inodes s i)) AND 0x7)" by simp
  note c = perm_class [of uid "i_d (inodes s i)" gid, folded perm]
  show ?thesis
    unfolding inode_chkperm4_def ro_refused_def may_access_def Let_def perm [symmetric] c three mask_bits by simp
qed


section \<open>The table\<close>

text \<open>
  An inode is in one entry at most of those in use, and where a file system is mounted the
  entry of its root is in use.
\<close>

definition same_inode :: "inode \<Rightarrow> inode \<Rightarrow> bool" where
  "same_inode a b \<longleftrightarrow> i_sb a = i_sb b \<and> i_ino a = i_ino b"

definition entry_ok :: "kst \<Rightarrow> nat \<Rightarrow> bool" where
  "entry_ok s i \<longleftrightarrow> 0 \<le> i_refcnt (inodes s i)
     \<and> (\<forall>r. i_refcnt (inodes s i) \<noteq> 0 \<and> i_mnt_root (inodes s i) = Some r \<longrightarrow> r < MAXINODES \<and> 0 < i_refcnt (inodes s r))"

definition inodes_ok :: "kst \<Rightarrow> bool" where
  "inodes_ok s \<longleftrightarrow> (\<forall>i < MAXINODES. entry_ok s i)
     \<and> (\<forall>i < MAXINODES. \<forall>j < MAXINODES. i_refcnt (inodes s i) \<noteq> 0 \<and> i_refcnt (inodes s j) \<noteq> 0
          \<and> same_inode (inodes s i) (inodes s j) \<longrightarrow> i = j)"

lemma inodes_ok_uniq:
  "inodes_ok s \<Longrightarrow> i < MAXINODES \<Longrightarrow> j < MAXINODES \<Longrightarrow> i_refcnt (inodes s i) \<noteq> 0 \<Longrightarrow> i_refcnt (inodes s j) \<noteq> 0
    \<Longrightarrow> same_inode (inodes s i) (inodes s j) \<Longrightarrow> i = j"
  unfolding inodes_ok_def by blast

lemma inodes_ok_entry: "inodes_ok s \<Longrightarrow> i < MAXINODES \<Longrightarrow> entry_ok s i"
  unfolding inodes_ok_def by blast

lemma inodes_okI:
  assumes "\<And>i. i < MAXINODES \<Longrightarrow> entry_ok s i"
    and "\<And>i j. i < MAXINODES \<Longrightarrow> j < MAXINODES \<Longrightarrow> i_refcnt (inodes s i) \<noteq> 0 \<Longrightarrow> i_refcnt (inodes s j) \<noteq> 0
      \<Longrightarrow> same_inode (inodes s i) (inodes s j) \<Longrightarrow> i = j"
  shows "inodes_ok s"
  unfolding inodes_ok_def using assms by blast

lemma inode_read_spec:
  assumes "blk_inv s"
  shows "returns (inode_read i s) (\<lambda>(r, s'). blk_inv s' \<and> blk_view s' = blk_view s \<and> blk_refs s' = blk_refs s
     \<and> (case r of
          Inr _ \<Rightarrow> blk_frame (upd_d i (\<lambda>_. decode_dinode (blk_view s (i_dev s i) (i_ino (inodes s i)))) s) s'
        | Inl e \<Rightarrow> blk_frame s s'))"
  unfolding inode_read_def
proof (rule cache.rd_rule [OF assms])
  fix b s1
  assume 1: "keeps_blks s s1" "held_same s s1" "blk_inv s1" "blk_has s1 b (i_dev s i) (i_ino (inodes s i))"
    "b_data (bufs s1 b) = blk_view s (i_dev s i) (i_ino (inodes s i))" "blk_refs s1 = (blk_refs s)(b := Suc (blk_refs s b))"
  let ?d = "decode_dinode (blk_view s (i_dev s i) (i_ino (inodes s i)))"
  let ?s2 = "upd_d i (\<lambda>_. ?d) s1"
  have same: "blk_inv ?s2 = blk_inv s1" "blk_view ?s2 = blk_view s1" "blk_refs ?s2 = blk_refs s1" "blk_holds ?s2 = blk_holds s1"
    by (rule blk_irrelevant; simp)+
  have h: "blk_holds ?s2 b (i_dev s i) (i_ino (inodes s i))" using cache.has_data [OF 1(3,4)] same by simp
  obtain s3 where s3: "blk_put b ?s2 = Some s3" "keeps_blks ?s2 s3" "blk_refs s3 = (blk_refs ?s2)(b := blk_refs ?s2 b - 1)"
    using cache.put [of ?s2, OF _ h] same 1(3) by auto
  have fr: "blk_frame (upd_d i (\<lambda>_. ?d) s) ?s2"
  proof -
    have f: "s1\<lparr>bufs := bufs s, blk_nind := blk_nind s, disk := disk s\<rparr> = s" using 1(1) by (simp add: keeps_blks_def blk_frame_def)
    have "?s2\<lparr>bufs := bufs s, blk_nind := blk_nind s, disk := disk s\<rparr> = upd_d i (\<lambda>_. ?d) (s1\<lparr>bufs := bufs s, blk_nind := blk_nind s, disk := disk s\<rparr>)"
      by (simp add: upd_defs)
    then show ?thesis by (simp add: f) (simp add: blk_frame_def)
  qed
  show "returns (do { let s = upd_d i (\<lambda>_. decode_dinode (b_data (bufs s1 b))) s1; s \<leftarrow> blk_put b s; Some (Inr (), s) })
    (\<lambda>(r, s'). blk_inv s' \<and> blk_view s' = blk_view s \<and> blk_refs s' = blk_refs s
     \<and> (case r of
          Inr _ \<Rightarrow> blk_frame (upd_d i (\<lambda>_. decode_dinode (blk_view s (i_dev s i) (i_ino (inodes s i)))) s) s'
        | Inl e \<Rightarrow> blk_frame s s'))"
    using s3 same 1 fr blk_frame_trans [OF fr] keeps_blks_view [OF 1(1)] keeps_blks_view [OF s3(2)]
    by (simp add: 1(5) keeps_blks_def fun_eq_iff)
qed (simp add: keeps_blks_def)


lemma inode_write_spec:
  assumes "blk_inv s" and "writable s (i_dev s i)" and "s_ro (supers s (i_sb (inodes s i))) = 0" and "wf_dinode (i_d (inodes s i))"
  shows "returns (inode_write i s) (\<lambda>(r, s'). blk_inv s' \<and> blk_refs s' = blk_refs s
     \<and> (case r of
          Inr _ \<Rightarrow> blk_view s' = put_view (i_dev s i) (i_ino (inodes s i)) (encode_dinode (i_d (inodes s i))) (blk_view s)
            \<and> inodes s' = (inodes s)(i := (inodes s i)\<lparr>i_dirty := 0\<rparr>) \<and> supers s' = supers s
        | Inl e \<Rightarrow> e = ENOMEM \<and> blk_view s' = blk_view s \<and> blk_frame s s'))"
proof -
  let ?ip = "\<lambda>ip. ip\<lparr>i_dirty := 0\<rparr>"
  let ?m = "bindE (blk_get (i_dev s i) (i_ino (inodes s i)) s) (\<lambda>b s'. do { s' \<leftarrow> blk_put b (blk_store b (encode_dinode (i_d (inodes s i))) s'); Some (Inr (), s') })"
  obtain r t where m: "?m = Some (r, t)" and t: "blk_inv t" "blk_frame s t" "blk_refs t = blk_refs s"
    "case r of Inr _ \<Rightarrow> blk_view t = put_view (i_dev s i) (i_ino (inodes s i)) (encode_dinode (i_d (inodes s i))) (blk_view s)
       | Inl e \<Rightarrow> e = ENOMEM \<and> blk_view t = blk_view s"
    by (rule returnsE [OF overwrite_spec [OF assms(1,2), of "encode_dinode (i_d (inodes s i))"]]) (use assms(4) in auto)
  have "inode_write i s = (case (r, t) of (Inl e, t) \<Rightarrow> Some (Inl e, t) | (Inr _, t) \<Rightarrow> Some (Inr (), upd_inode i ?ip t))"
  proof -
    have "inodes s1 i = inodes s i" if "blk_get (i_dev s i) (i_ino (inodes s i)) s = Some (Inr b, s1)" for b s1
      by (rule blk_get_spec [OF assms(1), of "i_dev s i" "i_ino (inodes s i)"])
        (use that blk_frame_simps(5) [of s s1] in \<open>auto simp: keeps_blks_def\<close>)
    then have "inode_write i s = Option.bind ?m (\<lambda>(r, t). case r of Inl e \<Rightarrow> Some (Inl e, t) | Inr _ \<Rightarrow> Some (Inr (), upd_inode i ?ip t))"
      using assms(3) by (cases "blk_get (i_dev s i) (i_ino (inodes s i)) s") (auto simp: inode_write_def bindE_def split: sum.split)
    then show ?thesis by (simp add: m)
  qed
  moreover have "blk_inv (upd_inode i ?ip t) = blk_inv t" "blk_view (upd_inode i ?ip t) = blk_view t" "blk_refs (upd_inode i ?ip t) = blk_refs t"
    by (rule blk_irrelevant; simp)+
  ultimately show ?thesis using t blk_frame_simps [OF t(2)] by (cases r) simp_all
qed

text \<open>
  Property C13. What \<open>inode_write\<close> stores, \<open>inode_read\<close> loads: when both succeed the inode in memory is the
  one that was written, the block of the inode holds it, no other block has changed, and no
  buffer stays referenced.
\<close>

theorem inode_write_read:
  assumes "blk_inv s" and "writable s (i_dev s i)" and "s_ro (supers s (i_sb (inodes s i))) = 0" and "wf_dinode (i_d (inodes s i))"
  shows "returns (bindE (inode_write i s) (\<lambda>_ s. inode_read i (upd_d i (\<lambda>_. d) s)))
     (\<lambda>(r, s'). blk_inv s' \<and> blk_refs s' = blk_refs s
       \<and> (r = Inr () \<longrightarrow> i_d (inodes s' i) = i_d (inodes s i)
          \<and> blk_view s' = put_view (i_dev s i) (i_ino (inodes s i)) (encode_dinode (i_d (inodes s i))) (blk_view s)))"
proof (rule returnsE [OF inode_write_spec [OF assms]], clarify)
  fix r s1 assume w: "inode_write i s = Some (r, s1)" and 1: "blk_inv s1" "blk_refs s1 = blk_refs s"
    "case r of
          Inr _ \<Rightarrow> blk_view s1 = put_view (i_dev s i) (i_ino (inodes s i)) (encode_dinode (i_d (inodes s i))) (blk_view s)
            \<and> inodes s1 = (inodes s)(i := (inodes s i)\<lparr>i_dirty := 0\<rparr>) \<and> supers s1 = supers s
        | Inl e \<Rightarrow> e = ENOMEM \<and> blk_view s1 = blk_view s \<and> blk_frame s s1"
  show ?thesis
  proof (cases r)
    case Inl
    then show ?thesis using 1 by (simp add: w)
  next
    case (Inr x)
    let ?s2 = "upd_d i (\<lambda>_. d) s1"
    have same: "blk_inv ?s2 = blk_inv s1" "blk_view ?s2 = blk_view s1" "blk_refs ?s2 = blk_refs s1"
      by (rule blk_irrelevant; simp)+
    have codec: "decode_dinode (encode_dinode (i_d (inodes s i))) = i_d (inodes s i)"
      using decode_encode_dinode_at [OF assms(4), of "[]"] by simp
    obtain r' s3 where r: "inode_read i ?s2 = Some (r', s3)" and 3: "blk_inv s3" "blk_view s3 = blk_view s1" "blk_refs s3 = blk_refs s1"
      "case r' of Inr _ \<Rightarrow> blk_frame (upd_d i (\<lambda>_. decode_dinode (blk_view ?s2 (i_dev ?s2 i) (i_ino (inodes ?s2 i)))) ?s2) s3
        | Inl e \<Rightarrow> blk_frame ?s2 s3"
      by (rule returnsE [OF inode_read_spec [of ?s2 i]]) (use 1(1) same in auto)
    have "i_d (inodes s3 i) = i_d (inodes s i)" if "r' = Inr ()"
      using 3(4) that 1(3) Inr blk_frame_simps(5) [of _ s3] codec by (auto simp: same)
    then show ?thesis using 1 3 Inr by (simp add: w r)
  qed
qed

theorem inode_write_read_witness:
  "returns (bindE (inode_write 0 ex_fs) (\<lambda>_ s. inode_read 0 (upd_d 0 (\<lambda>_. zero_dinode\<lparr>d_size := 7\<rparr>) s)))
     (\<lambda>(r, s'). r = Inr () \<longrightarrow> i_d (inodes s' 0) = zero_dinode)"
proof -
  have "wf_dinode (i_d (inodes ex_fs 0))" "i_d (inodes ex_fs 0) = zero_dinode"
    by (simp_all add: ex_fs_dev zero_inode_def zero_dinode_def wf_dinode_def wf_blks_def)
  then have "wf_dinode (i_d (inodes ex_fs 0))" "s_ro (supers ex_fs (i_sb (inodes ex_fs 0))) = 0" "writable ex_fs (i_dev ex_fs 0)"
    "i_d (inodes ex_fs 0) = zero_dinode"
    using ex_fs(5) ex_ro by (simp_all add: ex_fs_dev zero_inode_def)
  from returns_mono [OF inode_write_read [OF ex_fs(4) this(3,2,1)]] this(4) show ?thesis by auto
qed


lemma find_SomeD: "find P xs = Some x \<Longrightarrow> x \<in> set xs \<and> P x"
  by (auto simp: find_Some_iff)

lemma inode_find_Some:
  "inode_find m ino s = Some i \<Longrightarrow> i < MAXINODES \<and> i_refcnt (inodes s i) \<noteq> 0 \<and> i_sb (inodes s i) = m \<and> i_ino (inodes s i) = ino"
  by (auto simp: inode_find_def find_Some_iff)

lemma inode_find_None:
  "inode_find m ino s = None \<Longrightarrow> i < MAXINODES \<Longrightarrow> i_refcnt (inodes s i) \<noteq> 0 \<Longrightarrow> i_sb (inodes s i) = m \<Longrightarrow> i_ino (inodes s i) \<noteq> ino"
  by (auto simp: inode_find_def find_None_iff)

lemma inode_slot_Some: "inode_free_slot s = Some i \<Longrightarrow> i < MAXINODES \<and> i_refcnt (inodes s i) = 0"
proof -
  assume "inode_free_slot s = Some i"
  then have "i \<in> set (rev [0..<MAXINODES]) \<and> i_refcnt (inodes s i) = 0"
    unfolding inode_free_slot_def by (rule find_SomeD)
  then show ?thesis by simp
qed

lemma inodes_ok_ref:
  assumes "inodes_ok s" and "j < MAXINODES" and "0 < i_refcnt (inodes s j)"
  shows "inodes_ok (inode_ref j s)"
proof (rule inodes_okI)
  let ?t = "inode_ref j s"
  have same: "same_inode (inodes ?t i) (inodes ?t k) = same_inode (inodes s i) (inodes s k)" for i k
    by (simp add: inode_ref_def same_inode_def)
  have used: "i_refcnt (inodes ?t i) \<noteq> 0 \<Longrightarrow> i_refcnt (inodes s i) \<noteq> 0" "0 < i_refcnt (inodes s i) \<Longrightarrow> 0 < i_refcnt (inodes ?t i)"
    "0 \<le> i_refcnt (inodes s i) \<Longrightarrow> 0 \<le> i_refcnt (inodes ?t i)" "i_mnt_root (inodes ?t i) = i_mnt_root (inodes s i)" for i
    using assms(3) by (auto simp: inode_ref_def split: if_splits)
  show "entry_ok ?t i" if "i < MAXINODES" for i
    using inodes_ok_entry [OF assms(1) that] used unfolding entry_ok_def by metis
  show "i = k" if "i < MAXINODES" "k < MAXINODES" "i_refcnt (inodes ?t i) \<noteq> 0" "i_refcnt (inodes ?t k) \<noteq> 0"
    "same_inode (inodes ?t i) (inodes ?t k)" for i k
    using that inodes_ok_uniq [OF assms(1)] same used(1) by blast
qed

text \<open>An entry that was not in use is filled.\<close>

lemma inodes_ok_new:
  assumes "inodes_ok s" and other: "\<And>k. k \<noteq> j \<Longrightarrow> inodes t k = inodes s k" and "i_refcnt (inodes s j) = 0"
    and new: "i_refcnt (inodes t j) = 0 \<or> i_refcnt (inodes t j) = 1 \<and> i_mnt_root (inodes t j) = None
      \<and> inode_find (i_sb (inodes t j)) (i_ino (inodes t j)) s = None"
  shows "inodes_ok t"
proof (rule inodes_okI)
  have fresh: "\<not> same_inode (inodes t k) (inodes t j)" "\<not> same_inode (inodes t j) (inodes t k)"
    if "k < MAXINODES" "k \<noteq> j" "i_refcnt (inodes t k) \<noteq> 0" "i_refcnt (inodes t j) \<noteq> 0" for k
    using that new other [OF that(2)] inode_find_None [of _ _ s k] unfolding same_inode_def by (metis, metis)
  show "i = k" if "i < MAXINODES" "k < MAXINODES" "i_refcnt (inodes t i) \<noteq> 0" "i_refcnt (inodes t k) \<noteq> 0"
     "same_inode (inodes t i) (inodes t k)" for i k
    using that fresh inodes_ok_uniq [OF assms(1)] other by metis
  have live: "r < MAXINODES \<and> 0 < i_refcnt (inodes t r)" if "r < MAXINODES \<and> 0 < i_refcnt (inodes s r)" for r
    using that other assms(3) by (metis less_irrefl)
  show "entry_ok t i" if "i < MAXINODES" for i
  proof (cases "i = j")
    case True
    then show ?thesis using new by (auto simp: entry_ok_def)
  next
    case False
    then show ?thesis
      using inodes_ok_entry [OF assms(1) that] other [OF False] live unfolding entry_ok_def by metis
  qed
qed

text \<open>
  Property C14. \<open>inode_get\<close> never panics and keeps an inode in one entry only. An inode that is
  in use is shared (where a file system is mounted on it, the root of that file system
  is), with one reference more; another one is loaded from its block into an entry that
  was not in use. When it fails, no entry in use has changed.
\<close>

theorem inode_get_correct:
  assumes "blk_inv s" and "inodes_ok s"
  shows "returns (inode_get m ino s) (\<lambda>(r, s'). inodes_ok s' \<and> blk_inv s' \<and> blk_view s' = blk_view s \<and> blk_refs s' = blk_refs s
     \<and> (case (r, inode_find m ino s) of
          (Inr j, Some i) \<Rightarrow> j = (case i_mnt_root (inodes s i) of Some r \<Rightarrow> r | None \<Rightarrow> i) \<and> s' = inode_ref j s
        | (Inr j, None) \<Rightarrow> i_refcnt (inodes s j) = 0 \<and> i_refcnt (inodes s' j) = 1 \<and> i_sb (inodes s' j) = m
            \<and> i_ino (inodes s' j) = ino \<and> i_d (inodes s' j) = decode_dinode (blk_view s (s_dev (supers s m)) ino)
            \<and> (\<forall>k. k \<noteq> j \<longrightarrow> inodes s' k = inodes s k)
        | (Inl e, _) \<Rightarrow> \<forall>k. i_refcnt (inodes s k) \<noteq> 0 \<longrightarrow> inodes s' k = inodes s k))"
proof (cases "inode_find m ino s")
  case (Some i)
  define j where "j = (case i_mnt_root (inodes s i) of Some r \<Rightarrow> r | None \<Rightarrow> i)"
  have get: "inode_get m ino s = Some (Inr j, inode_ref j s)"
    by (auto simp: inode_get_def Some j_def split: option.split)
  have "j < MAXINODES \<and> 0 < i_refcnt (inodes s j)"
    using inodes_ok_entry [OF assms(2), of i] inode_find_Some [OF Some] unfolding entry_ok_def j_def
    by (cases "i_mnt_root (inodes s i)") (simp_all add: order_less_le)
  then have "inodes_ok (inode_ref j s)" using inodes_ok_ref [OF assms(2)] by simp
  moreover have "blk_inv (inode_ref j s) = blk_inv s" "blk_view (inode_ref j s) = blk_view s" "blk_refs (inode_ref j s) = blk_refs s"
    by (rule blk_irrelevant; simp add: inode_ref_def)+
  ultimately show ?thesis using assms(1) by (simp add: get Some j_def)
next
  case None
  show ?thesis
  proof (cases "inode_free_slot s")
    case None': None
    then show ?thesis using assms by (simp add: inode_get_def None)
  next
    case (Some j)
    note j = inode_slot_Some [OF Some]
    define s1 where "s1 = upd_inode j (\<lambda>ip. ip\<lparr>i_sb := m, i_ino := ino, i_dirty := 0, i_mnt_dir := None,
                         i_mnt_root := None, pipe_buf := 0, pipe_wrp := 0, pipe_rdp := 0,
                         pipe_datlen := 0, pipe_readers := 0, pipe_writers := 0\<rparr>) s"
    have same: "blk_inv s1 = blk_inv s" "blk_view s1 = blk_view s" "blk_refs s1 = blk_refs s"
      by (rule blk_irrelevant; simp add: s1_def)+
    have get: "inode_get m ino s = bindE (inode_read j s1) (\<lambda>_ s. Some (Inr j, upd_inode j (\<lambda>ip. ip\<lparr>i_refcnt := 1\<rparr>) s))"
      by (simp add: inode_get_def None Some s1_def Let_def)
    obtain r s2 where r: "inode_read j s1 = Some (r, s2)" and 2: "blk_inv s2" "blk_view s2 = blk_view s1" "blk_refs s2 = blk_refs s1"
      "case r of Inr _ \<Rightarrow> blk_frame (upd_d j (\<lambda>_. decode_dinode (blk_view s1 (i_dev s1 j) (i_ino (inodes s1 j)))) s1) s2 | Inl e \<Rightarrow> blk_frame s1 s2"
      by (rule returnsE [OF inode_read_spec [of s1 j]]) (use assms(1) same in auto)
    have s1: "i_refcnt (inodes s1 j) = 0" "k \<noteq> j \<Longrightarrow> inodes s1 k = inodes s k" "i_sb (inodes s1 j) = m" "i_ino (inodes s1 j) = ino"
      "i_mnt_root (inodes s1 j) = None" "supers s1 = supers s" for k
      using j by (simp_all add: s1_def)
    show ?thesis
    proof (cases r)
      case (Inl e)
      then have i2: "inodes s2 = inodes s1" using 2(4) blk_frame_simps(5) by simp
      have "inodes_ok s2" by (rule inodes_ok_new [OF assms(2), of j]) (use s1 i2 j in simp_all)
      moreover have "\<forall>k. i_refcnt (inodes s k) \<noteq> 0 \<longrightarrow> inodes s2 k = inodes s k" using s1(2) i2 j by metis
      ultimately show ?thesis using 2 same by (simp add: get r Inl)
    next
      case (Inr x)
      let ?t = "upd_inode j (\<lambda>ip. ip\<lparr>i_refcnt := 1\<rparr>) s2"
      have i2: "inodes s2 = (inodes s1)(j := (inodes s1 j)\<lparr>i_d := decode_dinode (blk_view s (s_dev (supers s m)) ino)\<rparr>)"
        using 2(4) Inr blk_frame_simps(5) [of _ s2] same s1 by simp
      have t: "blk_inv ?t = blk_inv s2" "blk_view ?t = blk_view s2" "blk_refs ?t = blk_refs s2"
        by (rule blk_irrelevant; simp)+
      have "inodes_ok ?t" by (rule inodes_ok_new [OF assms(2), of j]) (use s1 i2 j None in simp_all)
      then show ?thesis using 2 same t s1 i2 j by (simp add: get r Inr None)
    qed
  qed
qed

theorem inode_get_correct_witness:
  "returns (inode_get 0 5 ex_fs) (\<lambda>(r, s'). inodes_ok s' \<and> blk_view s' = blk_view ex_fs)"
proof -
  have "inodes_ok ex_fs" by (simp add: inodes_ok_def entry_ok_def ex_fs_dev zero_inode_def)
  from returns_mono [OF inode_get_correct [OF ex_fs(4) this]] show ?thesis by auto
qed

end
