(* ===== verification/Super.thy ===== *)
theory Super
  imports Inode
begin

unbundle bit_operations_syntax

text \<open>
  Super blocks and the maps of used blocks, the part of \<open>kern/fs/mount.c\<close> that does not
  look up paths: reading and writing a super block, loading and saving the map, and the
  two functions that bring the disks up to date. Memory that \<open>malloc\<close> returns is taken to
  be zero; \<open>load_freemap\<close> overwrites all of it.
\<close>

section \<open>Super blocks\<close>

definition read_super :: "nat \<Rightarrow> nat \<Rightarrow> kst \<Rightarrow> ((errno + nat) \<times> kst) option" where
  "read_super dev ro s =
     (if \<exists>i \<in> set [0..<MAXMOUNTS]. s_mounted (supers s i) \<noteq> 0 \<and> s_dev (supers s i) = dev
      then Some (Inl EBUSY, s)
      else case find (\<lambda>i. s_mounted (supers s i) = 0) [0..<MAXMOUNTS] of
        None \<Rightarrow> Some (Inl ENOMEM, s)
      | Some i \<Rightarrow>
          bindE (blk_read dev 1 s) (\<lambda>b s. do {
            let s = upd_super i (\<lambda>_. decode_super (b_data (bufs s b))) s;
            s \<leftarrow> blk_put b s;
            let s = upd_super i (\<lambda>sb. sb\<lparr>s_mounted := 1, s_dev := dev, s_freeblk := s_dblock sb,
                                         s_nfree := UNCOUNTED\<rparr>) s;
            Some (Inr i, if ro \<noteq> 0 then upd_super i (\<lambda>sb. sb\<lparr>s_ro := ro\<rparr>) s else s)
          }))"

text \<open>\<open>write_super\<close> does not release the buffer.\<close>

definition write_super :: "nat \<Rightarrow> kst \<Rightarrow> ((errno + unit) \<times> kst) option" where
  "write_super m s =
     (if s_ro (supers s m) \<noteq> 0 then Some (Inr (), s)
      else bindE (blk_get (s_dev (supers s m)) 1 s) (\<lambda>b s.
        Some (Inr (), blk_store b (splice 0 (encode_super (supers s m)) (b_data (bufs s b))) s)))"

section \<open>The map of used blocks\<close>

definition map_blocks :: "super \<Rightarrow> nat" where
  "map_blocks sb = (s_nblocks sb + 4095) mod 2 ^ 32 div 4096"

definition drop_freemap :: "nat \<Rightarrow> kst \<Rightarrow> kst" where
  "drop_freemap m s = s\<lparr>freedirt := (freedirt s)(m := None), freemap := (freemap s)(m := None)\<rparr>"

fun load_blocks :: "nat \<Rightarrow> nat list \<Rightarrow> nat \<Rightarrow> kst \<Rightarrow> ((errno + unit) \<times> kst) option" where
  "load_blocks m [] p s = Some (Inr (), s)"
| "load_blocks m (bn # bns) p s =
     bindE (blk_read (s_dev (supers s m)) bn s) (\<lambda>b s.
       case freemap s m of
         None \<Rightarrow> None
       | Some fm \<Rightarrow>
           if p + 512 > length fm then None
           else do {
             s \<leftarrow> blk_put b (s\<lparr>freemap := (freemap s)(m \<mapsto> splice p (b_data (bufs s b)) fm)\<rparr>);
             load_blocks m bns (p + 512) s
           })"

definition load_freemap :: "nat \<Rightarrow> kst \<Rightarrow> ((errno + unit) \<times> kst) option" where
  "load_freemap m s =
     (if freemap s m \<noteq> None \<or> freedirt s m \<noteq> None then None
      else
        let sb = supers s m;
            sz = ((s_nblocks sb + 7) mod 2 ^ 32 div 8 + 511) div 512 * 512;
            ds = sz div 512
        in
          if \<not> kmalloc s sz \<or> \<not> kmalloc s ds then Some (Inl ENOMEM, s)
          else do {
            let s = s\<lparr>freemap := (freemap s)(m \<mapsto> replicate sz 0),
                      freedirt := (freedirt s)(m \<mapsto> replicate ds False)\<rparr>;
            (r, s) \<leftarrow> load_blocks m [s_bitmap sb ..< (s_bitmap sb + map_blocks sb) mod 2 ^ 32] 0 s;
            Some (case r of Inl e \<Rightarrow> (Inl e, drop_freemap m s) | Inr _ \<Rightarrow> (Inr (), s))
          })"

fun save_blocks :: "nat \<Rightarrow> nat list \<Rightarrow> kst \<Rightarrow> ((errno + unit) \<times> kst) option" where
  "save_blocks m [] s = Some (Inr (), s)"
| "save_blocks m (bn # bns) s =
     (case (freedirt s m, freemap s m) of
        (Some fd, Some fm) \<Rightarrow>
          if bn \<ge> length fd then None
          else if \<not> fd ! bn then save_blocks m bns s
          else bindE (blk_get (s_dev (supers s m)) ((bn + s_bitmap (supers s m)) mod 2 ^ 32) s) (\<lambda>b s.
            if 512 * bn + 512 > length fm then None
            else do {
              s \<leftarrow> blk_put b (blk_store b (take 512 (drop (512 * bn) fm)) s);
              save_blocks m bns (s\<lparr>freedirt := (freedirt s)(m \<mapsto> fd[bn := False])\<rparr>)
            })
      | _ \<Rightarrow> None)"

definition save_freemap :: "nat \<Rightarrow> kst \<Rightarrow> ((errno + unit) \<times> kst) option" where
  "save_freemap m s =
     (if s_ro (supers s m) \<noteq> 0 then Some (Inr (), s)
      else if freemap s m = None then None
      else save_blocks m [0..<map_blocks (supers s m)] s)"

section \<open>Bringing the disks up to date\<close>

fun save_freemaps :: "nat list \<Rightarrow> kst \<Rightarrow> kst option" where
  "save_freemaps [] s = Some s"
| "save_freemaps (m # ms) s = do {
     s \<leftarrow> (if s_mounted (supers s m) \<noteq> 0 then map_option snd (save_freemap m s) else Some s);
     save_freemaps ms s
   }"

text \<open>\<open>psync\<close> runs when the machine is idle, for a tenth of a second at most.\<close>

definition psync :: "(bref \<Rightarrow> bool) \<Rightarrow> kst \<Rightarrow> kst option" where
  "psync late s = do {
     s \<leftarrow> save_freemaps [0..<MAXMOUNTS] s;
     s \<leftarrow> inode_sync 2 s;
     blk_sync False 25 late s
   }"

definition sys_sync :: "kst \<Rightarrow> (int \<times> kst) option" where
  "sys_sync s = do {
     s \<leftarrow> save_freemaps [0..<MAXMOUNTS] s;
     s \<leftarrow> inode_sync 1 s;
     s \<leftarrow> blk_sync False 0 (\<lambda>_. False) s;
     Some (0, s)
   }"

section \<open>What the operations leave alone\<close>

context fs_frame begin

lemma obs_drop_freemap [simp]: "obs (drop_freemap m s) = obs s"
  by (simp add: drop_freemap_def)

lemma obs_freemaps [simp]: "obs (s\<lparr>freemap := z, freedirt := y\<rparr>) = obs s"
  using obs_fields(5) [where s = "s\<lparr>freemap := z\<rparr>"] by simp

lemma read_super_keep [keep]: "obs s = v \<Longrightarrow> keep v (read_super dev ro s)"
  and write_super_keep [keep]: "obs s = v \<Longrightarrow> keep v (write_super m s)"
  unfolding read_super_def write_super_def by (intro keep; simp)+

lemma load_blocks_keep [keep]: "obs s = v \<Longrightarrow> keep v (load_blocks m bns p s)"
  by (induction bns arbitrary: p s) (auto intro!: keep)

lemma load_freemap_keep [keep]: "obs s = v \<Longrightarrow> keep v (load_freemap m s)"
  unfolding load_freemap_def by (intro keep; simp)

lemma save_blocks_keep [keep]: "obs s = v \<Longrightarrow> keep v (save_blocks m bns s)"
  by (induction bns arbitrary: s) (auto intro!: keep)

lemma save_freemap_keep [keep]: "obs s = v \<Longrightarrow> keep v (save_freemap m s)"
  unfolding save_freemap_def by (intro keep; simp)

lemma save_freemaps_keep [keep]: "obs s = v \<Longrightarrow> keeps v (save_freemaps ms s)"
  by (induction ms arbitrary: s) (auto intro!: keep)

lemma psync_keep [keep]: "obs s = v \<Longrightarrow> keeps v (psync late s)"
  unfolding psync_def by (intro keep; simp)

lemma sys_sync_keep [keep]: "obs s = v \<Longrightarrow> keep v (sys_sync s)"
  unfolding sys_sync_def by (intro keep; simp)

end

end
