(* ===== verification/Sched.thy ===== *)
theory Sched
  imports Super
begin

unbundle bit_operations_syntax

text \<open>
  Processes, \<open>kern/process.c\<close>: signals, the scheduler, and what it means for a process to
  sleep. Ending a process needs the files and is in a later theory.

  What is outside the model of one process is a parameter, the record \<open>env\<close>: the
  character drivers, the \<open>ioctl\<close> functions of the block drivers, the clock that may end a
  \<open>blk_sync\<close>, and \<open>e_run\<close>, which is all that other processes and interrupts do between
  the moment \<open>sched\<close> leaves a process and the moment it returns to it; it is \<open>None\<close>
  if the process never runs again.
\<close>

type_synonym 'a res = "((errno + 'a) \<times> kst) option"

section \<open>The environment\<close>

record rwreq =
  rw_ino :: nat
  rw_buf :: nat
  rw_start :: "32 word"
  rw_count :: nat
  rw_nodelay :: bool

record chr_driver =
  cd_ttyname :: "(nat \<Rightarrow> kst \<Rightarrow> byte list res) option"
  cd_open :: "(nat \<Rightarrow> bool \<Rightarrow> kst \<Rightarrow> unit res) option"
  cd_close :: "(nat \<Rightarrow> kst \<Rightarrow> unit res) option"
  cd_read :: "(rwreq \<Rightarrow> kst \<Rightarrow> rwreq res) option"
  cd_write :: "(rwreq \<Rightarrow> kst \<Rightarrow> rwreq res) option"
  cd_ioctl :: "(nat \<Rightarrow> int \<Rightarrow> nat \<Rightarrow> kst \<Rightarrow> unit res) option"

record env =
  e_chr :: "nat \<Rightarrow> chr_driver"
  e_blk_ioctl :: "nat \<Rightarrow> (nat \<Rightarrow> int \<Rightarrow> nat \<Rightarrow> kst \<Rightarrow> unit res) option"
  e_run :: "kst \<Rightarrow> kst option"
  e_late :: "bref \<Rightarrow> bool"

section \<open>System calls\<close>

text \<open>
  A system call leaves its error in the user's \<open>errno\<close> and returns -1. Nearly all of
  them end in \<open>uerr(err); return -1;\<close>, which is \<open>sysret\<close>.
\<close>

definition uerr :: "errno \<Rightarrow> kst \<Rightarrow> kst option" where
  "uerr e s = map_option snd (tucpy (p_errp (cur s)) (le32 (errno_num e)) s)"

definition sysret :: "int res \<Rightarrow> (int \<times> kst) option" where
  "sysret m = do {
     (r, s) \<leftarrow> m;
     (case r of
        Inl e \<Rightarrow> do { s \<leftarrow> uerr e s; Some (-1, s) }
      | Inr v \<Rightarrow> Some (v, s))
   }"

abbreviation ret0 :: "kst \<Rightarrow> int res" where
  "ret0 s \<equiv> Some (Inr 0, s)"

abbreviation fail :: "errno \<Rightarrow> kst \<Rightarrow> 'a res" where
  "fail e s \<equiv> Some (Inl e, s)"

section \<open>Signals\<close>

abbreviation (input) "SIGHUP \<equiv> (1::nat)"
abbreviation (input) "SIGINT \<equiv> (2::nat)"
abbreviation (input) "SIGQUIT \<equiv> (3::nat)"
abbreviation (input) "SIGILL \<equiv> (4::nat)"
abbreviation (input) "SIGTRAP \<equiv> (5::nat)"
abbreviation (input) "SIGABRT \<equiv> (6::nat)"
abbreviation (input) "SIGEMT \<equiv> (7::nat)"
abbreviation (input) "SIGFPE \<equiv> (8::nat)"
abbreviation (input) "SIGKILL \<equiv> (9::nat)"
abbreviation (input) "SIGBUS \<equiv> (10::nat)"
abbreviation (input) "SIGSEGV \<equiv> (11::nat)"
abbreviation (input) "SIGPIPE \<equiv> (13::nat)"
abbreviation (input) "SIGALRM \<equiv> (14::nat)"
abbreviation (input) "SIGTERM \<equiv> (15::nat)"
abbreviation (input) "SIGCHLD \<equiv> (18::nat)"
abbreviation (input) "NSIG \<equiv> (19::nat)"

text \<open>The signals that end a process that neither ignores nor handles them, and those that
  leave a core image behind.\<close>

definition ksig :: "nat \<Rightarrow> bool" where
  "ksig n \<longleftrightarrow> n \<in> set [SIGQUIT, SIGILL, SIGTRAP, SIGABRT, SIGEMT, SIGBUS, SIGFPE, SIGSEGV, SIGHUP,
     SIGINT, SIGKILL, SIGPIPE, SIGTERM, SIGALRM]"

definition csig :: "nat \<Rightarrow> bool" where
  "csig n \<longleftrightarrow> n \<in> set [SIGQUIT, SIGILL, SIGTRAP, SIGABRT, SIGEMT, SIGBUS, SIGFPE, SIGSEGV]"

definition sigbit :: "nat \<Rightarrow> 32 word" where
  "sigbit n = push_bit (n - 1) 1"

text \<open>
  \<open>sendsig\<close> looks at the handlers of the sender, \<open>curr\<close>, to decide whether a signal that
  does not kill is worth sending, and at the ignored signals of the receiver.
\<close>

definition sendsig :: "nat \<Rightarrow> nat \<Rightarrow> kst \<Rightarrow> (errno + unit) \<times> kst" where
  "sendsig p sig s =
     (if sig = 0 then (Inr (), s)
      else if sig \<ge> NSIG then (Inl EINVAL, s)
      else if \<not> ksig sig \<and> p_sig_usr (cur s) AND sigbit sig = 0 then (Inr (), s)
      else (Inr (), upd_proc p (\<lambda>q. q\<lparr>p_sig := (p_sig q OR sigbit sig) AND NOT (p_sig_ign q)\<rparr>) s))"

definition sendusig :: "nat \<Rightarrow> nat \<Rightarrow> kst \<Rightarrow> (errno + unit) \<times> kst" where
  "sendusig p sig s =
     (if p_euid (cur s) \<noteq> p_euid (procs s p) \<and> p_euid (cur s) \<noteq> 0 then (Inl EPERM, s)
      else sendsig p sig s)"

definition sendksig :: "nat \<Rightarrow> nat \<Rightarrow> kst \<Rightarrow> (errno + unit) \<times> kst" where
  "sendksig p sig s = sendsig p sig (upd_proc p (\<lambda>q. q\<lparr>p_sig_ign := 0, p_sig_usr := 0\<rparr>) s)"

abbreviation (input) "SIG_DFL \<equiv> (0::nat)"
abbreviation (input) "SIG_IGN \<equiv> (1::nat)"

definition sys_signal :: "int \<Rightarrow> nat \<Rightarrow> kst \<Rightarrow> (int \<times> kst) option" where
  "sys_signal signum handler s =
     (if signum = int SIGKILL then Some (0, s)
      else sysret
        (if signum < 1 \<or> signum \<ge> int NSIG then fail EINVAL s
         else
           let n = nat (signum - 1);
               prev = p_sig_proc (cur s) n;
               s = upd_curr (\<lambda>c. c\<lparr>p_sig_proc := (p_sig_proc c)(n := of_nat handler)\<rparr>) s;
               bit = push_bit n 1;
               s = upd_curr (\<lambda>c.
                 if handler = SIG_DFL then c\<lparr>p_sig_ign := p_sig_ign c AND NOT bit, p_sig_usr := p_sig_usr c AND NOT bit\<rparr>
                 else if handler = SIG_IGN then c\<lparr>p_sig_ign := p_sig_ign c OR bit, p_sig_usr := p_sig_usr c AND NOT bit\<rparr>
                 else c\<lparr>p_sig_usr := p_sig_usr c OR bit, p_sig_ign := p_sig_ign c AND NOT bit\<rparr>) s
           in Some (Inr (uint prev), s)))"

text \<open>The loop of \<open>kill(-1)\<close>; the last error is remembered, and whether any signal was sent.\<close>

fun kill_all :: "nat \<Rightarrow> nat list \<Rightarrow> (errno + unit) \<Rightarrow> bool \<Rightarrow> kst \<Rightarrow> (errno + unit) \<times> bool \<times> kst" where
  "kill_all sig [] err sent s = (err, sent, s)"
| "kill_all sig (p # ps) err sent s =
     (if p_pid (procs s p) = 0 \<or> p = curr s \<or> p = 0 then kill_all sig ps err sent s
      else case sendusig p sig s of (r, s) \<Rightarrow> kill_all sig ps r (sent \<or> r = Inr ()) s)"

definition sys_kill :: "int \<Rightarrow> nat \<Rightarrow> kst \<Rightarrow> (int \<times> kst) option" where
  "sys_kill pid sig s =
     (let (err, sent, s) =
        (if pid = 0 then case sendusig (curr s) sig s of (r, s) \<Rightarrow> (r, False, s)
         else if pid = -1 then kill_all sig (pact s) (Inl ESRCH) False s
         else case find (\<lambda>p. p_pid (procs s p) = pid \<or> p_psid (procs s p) = - pid) (pact s) of
             None \<Rightarrow> (Inl ESRCH, False, s)
           | Some p \<Rightarrow> (case sendusig p sig s of (r, s) \<Rightarrow> (r, False, s)))
      in sysret (case err of Inl e \<Rightarrow> if sent then ret0 s else fail e s | Inr _ \<Rightarrow> ret0 s))"

definition sys__killu :: "16 word \<Rightarrow> nat \<Rightarrow> kst \<Rightarrow> (int \<times> kst) option" where
  "sys__killu ruid sig s =
     sysret
       (if p_euid (cur s) \<noteq> 0 then fail EPERM s
        else ret0 (foldl (\<lambda>s p. if p_ruid (procs s p) = ruid then snd (sendusig p sig s) else s) s (pact s)))"

section \<open>The scheduler\<close>

definition clock_chkalarm :: "kst \<Rightarrow> kst" where
  "clock_chkalarm s =
     (let a = p_alarm (cur s) in
      if st_time a = 0 then s
      else if sint (st_time a) > sint (k_time s) then s
      else if st_time a = k_time s \<and> st_ticks a > int (k_ticks s) then s
      else snd (sendsig (curr s) SIGALRM (upd_curr (\<lambda>c. c\<lparr>p_alarm := (p_alarm c)\<lparr>st_time := 0\<rparr>\<rparr>) s)))"

definition updatecpu :: "kst \<Rightarrow> kst" where
  "updatecpu s = s\<lparr>pg_dir := (pg_dir s)(USER_BASE div 2 ^ 22 := p_ptab (cur s) OR 7)\<rparr>"

text \<open>
  The loop of \<open>sched\<close> that picks the next process; it runs until a process can run, and
  for ever when there is none.
\<close>

abbreviation (input) "TIME_SLICE \<equiv> (10::int)"
abbreviation (input) "MAX_TIME_SLICE \<equiv> (50::int)"

definition can_run :: "process \<Rightarrow> bool" where
  "can_run p \<longleftrightarrow> p_pid p \<noteq> 0 \<and> \<not> p_exited p \<and> p_time_slice p > 0"

definition sched_step :: "kst \<Rightarrow> (nat \<times> kst) option" where
  "sched_step s =
     (let n = (if sched_next s \<ge> length (pact s) then 0 else sched_next s) in
      if n \<ge> length (pact s) then None
      else
        let p = pact s ! n
        in Some (p, upd_proc p (\<lambda>q. q\<lparr>p_time_slice := min (p_time_slice q + TIME_SLICE) MAX_TIME_SLICE\<rparr>)
                      (s\<lparr>sched_next := n + 1\<rparr>)))"

partial_function (option) sched_pick :: "kst \<Rightarrow> (nat \<times> kst) option" where
  "sched_pick s =
     Option.bind (sched_step s) (\<lambda>(p, s).
       if can_run (procs s p) then Some (p, s) else sched_pick s)"

definition switch_to :: "nat \<Rightarrow> kst \<Rightarrow> kst" where
  "switch_to p s = clock_chkalarm (updatecpu (s\<lparr>curr := p\<rparr>))"

text \<open>
  The kernel context of a process is not in the model: \<open>sched\<close> returns when another call of
  \<open>sched\<close> has picked the process again, and \<open>e_run\<close> is what happens until then.
\<close>

definition sched :: "env \<Rightarrow> kst \<Rightarrow> kst option" where
  "sched e s = e_run e (s\<lparr>resched := False\<rparr>)"

definition wakeup :: "kst \<Rightarrow> kst" where
  "wakeup s = s\<lparr>nidle := 0\<rparr>"

definition idle :: "env \<Rightarrow> kst \<Rightarrow> kst option" where
  "idle e s = do {
     s \<leftarrow> (if dosync s then psync (e_late e) (s\<lparr>dosync := False\<rparr>) else Some s);
     sched e (s\<lparr>nidle := nidle s + 1\<rparr>)
   }"

text \<open>\<open>sys_pause\<close> sleeps until a signal arrives.\<close>

partial_function (option) pause_loop :: "env \<Rightarrow> kst \<Rightarrow> kst option" where
  "pause_loop e s = (if p_sig (cur s) \<noteq> 0 then Some s else Option.bind (idle e s) (pause_loop e))"

definition sys_pause :: "env \<Rightarrow> kst \<Rightarrow> (int \<times> kst) option" where
  "sys_pause e s = Option.bind (pause_loop e s) (\<lambda>s. sysret (fail EINTR s))"

section \<open>What the operations leave alone\<close>

context mem_frame begin

lemma uerr_keep [keep]: "obs s = v \<Longrightarrow> keeps v (uerr e s)"
  unfolding uerr_def by (intro keep)

lemma sysret_keep [keep]: "keep v m \<Longrightarrow> keep v (sysret m)"
  unfolding sysret_def by (intro keep; simp)

end

section \<open>Signals\<close>

text \<open>
  What a process may do to others with signals: \<open>reaches s q\<close> says that the user of the
  running process may send to \<open>q\<close>.
\<close>

definition reaches :: "kst \<Rightarrow> nat \<Rightarrow> bool" where
  "reaches s p \<longleftrightarrow> p_euid (cur s) = 0 \<or> p_euid (procs s p) = p_euid (cur s)"

text \<open>
  All of the state but the memory of the users: what a system call that fails leaves alone when it sets \<open>errno\<close>,
  which may map pages of the stack.
\<close>

definition kernel_view :: "kst \<Rightarrow> kst" where
  "kernel_view s = upd_curr (\<lambda>c. c\<lparr>p_size := 0, p_astk := 0\<rparr>) (s\<lparr>phys := (\<lambda>_. 0), ptmem := (\<lambda>_ _. 0), pg_flist := []\<rparr>)"

interpretation ker: mem_frame kernel_view
  by unfold_locales (simp_all add: kernel_view_def upd_defs)

lemma uerr_kernel: "uerr e s = Some t \<Longrightarrow> kernel_view t = kernel_view s"
  by (rule ker.keepsD [OF ker.uerr_keep]) simp_all

text \<open>The processes that a call of \<open>kill\<close> is for, and what a signal does to one of them.\<close>

definition kill_targets :: "int \<Rightarrow> kst \<Rightarrow> nat set" where
  "kill_targets pid s =
     (if pid = 0 then {curr s}
      else if pid = -1 then {p \<in> set (pact s). p_pid (procs s p) \<noteq> 0 \<and> p \<noteq> curr s \<and> p \<noteq> 0}
      else set (take 1 (filter (\<lambda>p. p_pid (procs s p) = pid \<or> p_psid (procs s p) = - pid) (pact s))))"

definition signalled :: "nat \<Rightarrow> kst \<Rightarrow> process \<Rightarrow> process" where
  "signalled sig s q =
     (if 0 < sig \<and> sig < NSIG \<and> (ksig sig \<or> p_sig_usr (cur s) AND sigbit sig \<noteq> 0)
      then q\<lparr>p_sig := (p_sig q OR sigbit sig) AND NOT (p_sig_ign q)\<rparr> else q)"

definition send_to :: "nat \<Rightarrow> nat set \<Rightarrow> kst \<Rightarrow> kst" where
  "send_to sig G s = s\<lparr>procs := \<lambda>p. if p \<in> G \<and> reaches s p then signalled sig s (procs s p) else procs s p\<rparr>"

lemma or_and_not_twice: "(((x OR b) AND NOT i) OR b) AND NOT i = (x OR b) AND NOT (i :: 32 word)"
  by (rule bit_eqI) (auto simp: bit_simps)

lemma signalled_fields [simp]:
  "p_pid (signalled sig s q) = p_pid q" "p_euid (signalled sig s q) = p_euid q"
  "signalled sig s (signalled sig s q) = signalled sig s q"
  by (auto simp: signalled_def or_and_not_twice)

lemma sendusig_send:
  "sendusig p sig s = (if \<not> reaches s p then Inl EPERM else if sig < NSIG then Inr () else Inl EINVAL, send_to sig {p} s)"
proof -
  have "procs (send_to sig {p} s) = (procs s)(p := if reaches s p then signalled sig s (procs s p) else procs s p)"
    by (auto simp: send_to_def)
  then have "send_to sig {p} s = (if reaches s p then upd_proc p (signalled sig s) s else s)"
    by (auto simp: send_to_def upd_proc_def)
  then show ?thesis
    by (auto simp: sendusig_def sendsig_def reaches_def signalled_def upd_proc_def)
qed

lemma send_to_simps:
  "curr (send_to sig G s) = curr s" "pact (send_to sig G s) = pact s"
  "p_pid (procs (send_to sig G s) p) = p_pid (procs s p)"
  "p_euid (procs (send_to sig G s) p) = p_euid (procs s p)" "reaches (send_to sig G s) p = reaches s p"
  by (simp_all add: send_to_def reaches_def)

lemma send_to_twice:
  assumes "curr s \<notin> G"
  shows "send_to sig H (send_to sig G s) = send_to sig (G \<union> H) s"
proof -
  have "cur (send_to sig G s) = cur s" using assms by (simp add: send_to_def)
  then have e: "signalled sig (send_to sig G s) = signalled sig s" by (simp add: signalled_def fun_eq_iff send_to_simps)
  have "procs (send_to sig H (send_to sig G s)) p = procs (send_to sig (G \<union> H) s) p" for p
    by (simp add: send_to_def [of sig H "send_to sig G s"] e send_to_simps) (simp add: send_to_def)
  then have "procs (send_to sig H (send_to sig G s)) = procs (send_to sig (G \<union> H) s)" by (rule ext)
  then show ?thesis by (simp add: send_to_def)
qed

lemma kill_all_send:
  fixes ps s
  defines "G \<equiv> {p \<in> set ps. p_pid (procs s p) \<noteq> 0 \<and> p \<noteq> curr s \<and> p \<noteq> 0}"
  shows "\<exists>r. kill_all sig ps err sent s = (r, sent \<or> sig < NSIG \<and> (\<exists>p \<in> G. reaches s p), send_to sig G s)
    \<and> (r = Inr () \<longrightarrow> err = Inr () \<or> sig < NSIG \<and> (\<exists>p \<in> G. reaches s p))"
  unfolding G_def
proof (induction ps arbitrary: err sent s)
  case Nil
  show ?case by (simp add: send_to_def)
next
  case (Cons p ps)
  show ?case
  proof (cases "p_pid (procs s p) = 0 \<or> p = curr s \<or> p = 0")
    case True
    then have "{q \<in> set (p # ps). p_pid (procs s q) \<noteq> 0 \<and> q \<noteq> curr s \<and> q \<noteq> 0} = {q \<in> set ps. p_pid (procs s q) \<noteq> 0 \<and> q \<noteq> curr s \<and> q \<noteq> 0}"
      by auto
    then show ?thesis using True Cons.IH [of err sent s] by simp
  next
    case False
    let ?G = "{q \<in> set ps. p_pid (procs s q) \<noteq> 0 \<and> q \<noteq> curr s \<and> q \<noteq> 0}"
    have G: "{q \<in> set (p # ps). p_pid (procs s q) \<noteq> 0 \<and> q \<noteq> curr s \<and> q \<noteq> 0} = {p} \<union> ?G"
      using False by auto
    obtain e where e: "sendusig p sig s = (e, send_to sig {p} s)" "e = Inr () \<longleftrightarrow> sig < NSIG \<and> reaches s p"
      by (simp add: sendusig_send)
    have "curr s \<notin> {p}" using False by simp
    note two = send_to_twice [OF this]
    obtain r where r: "kill_all sig ps e (sent \<or> e = Inr ()) (send_to sig {p} s)
        = (r, (sent \<or> e = Inr ()) \<or> sig < NSIG \<and> (\<exists>p \<in> ?G. reaches s p), send_to sig ({p} \<union> ?G) s)"
      "r = Inr () \<longrightarrow> e = Inr () \<or> sig < NSIG \<and> (\<exists>p \<in> ?G. reaches s p)"
      using Cons.IH [of e "sent \<or> e = Inr ()" "send_to sig {p} s"] unfolding send_to_simps two by blast
    have "kill_all sig (p # ps) err sent s = (r, (sent \<or> e = Inr ()) \<or> sig < NSIG \<and> (\<exists>p \<in> ?G. reaches s p), send_to sig ({p} \<union> ?G) s)"
      using False by (simp only: kill_all.simps e(1) prod.case if_False r(1))
    then show ?thesis unfolding G using r(2) e(2) by (intro exI [of _ r]) auto
  qed
qed

lemma first_match: "set (take 1 (filter P xs)) = (case find P xs of None \<Rightarrow> {} | Some x \<Rightarrow> {x})"
  by (induction xs) auto

text \<open>
  Property C0. \<open>kill\<close> does what it says and nothing else. It is for the caller (0), for all processes but
  the caller, the idle process and unused entries (-1), or for the first process with this number or in this group.
  Each of these that the caller may reach, being the super user or of the same effective user, gets the
  signal, unless it ignores it or the number is that of no signal; no other field of a process and no other part
  of the kernel's state changes. The call returns 0 if it reached a process, and -1 otherwise.
\<close>

theorem sys_kill_safe:
  assumes "sys_kill pid sig s = Some (v, t)"
  shows "kernel_view t = kernel_view (send_to sig (kill_targets pid s) s)
    \<and> v = (if sig < NSIG \<and> (\<exists>p \<in> kill_targets pid s. reaches s p) then 0 else -1)"
proof -
  let ?G = "kill_targets pid s" and ?x = "if pid = 0 then case sendusig (curr s) sig s of (r, s) \<Rightarrow> (r, False, s)
         else if pid = -1 then kill_all sig (pact s) (Inl ESRCH) False s
         else case find (\<lambda>p. p_pid (procs s p) = pid \<or> p_psid (procs s p) = - pid) (pact s) of
             None \<Rightarrow> (Inl ESRCH, False, s)
           | Some p \<Rightarrow> (case sendusig p sig s of (r, s) \<Rightarrow> (r, False, s))"
  have "\<exists>r b. ?x = (r, b, send_to sig ?G s) \<and> (r = Inr () \<or> b \<longleftrightarrow> sig < NSIG \<and> (\<exists>p \<in> ?G. reaches s p))"
  proof (cases "pid = 0 \<or> pid = -1")
    case True
    then show ?thesis
      using kill_all_send [of sig "pact s" "Inl ESRCH" False s] by (auto simp: kill_targets_def sendusig_send)
  next
    case False
    let ?P = "\<lambda>p. p_pid (procs s p) = pid \<or> p_psid (procs s p) = - pid"
    have "?G = (case find ?P (pact s) of None \<Rightarrow> {} | Some p \<Rightarrow> {p})"
      using False by (simp add: kill_targets_def first_match [simplified])
    then show ?thesis using False by (auto simp: sendusig_send send_to_def split: option.splits)
  qed
  then obtain r b where x: "?x = (r, b, send_to sig ?G s)" "r = Inr () \<or> b \<longleftrightarrow> sig < NSIG \<and> (\<exists>p \<in> ?G. reaches s p)" by blast
  have "sys_kill pid sig s = sysret (case r of Inl e \<Rightarrow> if b then ret0 (send_to sig ?G s) else fail e (send_to sig ?G s)
      | Inr _ \<Rightarrow> ret0 (send_to sig ?G s))"
    unfolding sys_kill_def x(1) Let_def prod.case ..
  then show ?thesis
    using assms x(2) by (cases r; cases b) (auto simp: sysret_def dest: uerr_kernel split: bind_splits)
qed


definition ex_procs :: kst where
  "ex_procs = (zero_kst no_disk no_driver)\<lparr>pact := [0, 1], curr := 1,
     procs := (\<lambda>_. zero_process)(0 := zero_process\<lparr>p_pid := 5, p_euid := 7\<rparr>, 1 := zero_process\<lparr>p_pid := 6, p_euid := 7\<rparr>)\<rparr>"

definition ex_users :: kst where
  "ex_users = (zero_kst no_disk no_driver)\<lparr>pact := [0, 1, 2, 3], curr := 1,
     procs := (\<lambda>_. zero_process)(1 := zero_process\<lparr>p_pid := 6, p_euid := 7\<rparr>, 2 := zero_process\<lparr>p_pid := 5, p_euid := 7\<rparr>,
       3 := zero_process\<lparr>p_pid := 8, p_euid := 0\<rparr>)\<rparr>"

theorem sys_kill_safe_witness:
  "\<exists>t. sys_kill (-1) 9 ex_users = Some (0, t) \<and> p_sig (procs t 2) = 0x100 \<and> procs t 3 = procs ex_users 3"
proof -
  obtain v t where k: "sys_kill (-1) 9 ex_users = Some (v, t)" "v = 0"
    by (simp add: sys_kill_def sendusig_send send_to_def reaches_def ex_users_def sysret_def)
  have c: "curr ex_users = 1" "curr (send_to 9 G ex_users) = 1" for G by (simp_all add: ex_users_def send_to_def)
  note f = sys_kill_safe [OF k(1), THEN conjunct1]
  have t: "curr t = 1" using arg_cong [OF f, of curr] c by (simp add: kernel_view_def)
  have "kill_targets (-1) ex_users = {2, 3}" by (auto simp: kill_targets_def ex_users_def)
  then have "procs t p = (if p = 2 then signalled 9 ex_users (procs ex_users 2) else procs ex_users p)" if "p \<noteq> 1" for p
    using arg_cong [OF f, of "\<lambda>s. procs s p"] that c t
    by (simp add: kernel_view_def upd_curr_def upd_proc_def) (auto simp: send_to_def reaches_def ex_users_def)
  from this [of 2] this [of 3] show ?thesis
    using k by (simp add: signalled_def ksig_def sigbit_def ex_users_def zero_process_def)
qed

section \<open>The masks of signals\<close>

text \<open>A process does not both handle and ignore a signal, and \<open>SIGKILL\<close> is neither.\<close>

definition masks_ok :: "process \<Rightarrow> bool" where
  "masks_ok c \<longleftrightarrow> p_sig_ign c AND p_sig_usr c = 0 \<and> \<not> bit (p_sig_ign c) 8 \<and> \<not> bit (p_sig_usr c) 8"

lemma disjoint_bits: "(a :: 32 word) AND b = 0 \<longleftrightarrow> (\<forall>k < 32. \<not> (bit a k \<and> bit b k))"
  by (auto simp: bit_eq_iff bit_and_iff dest: bit_imp_le_length)




section \<open>The scheduler finds a process\<close>

text \<open>How far the loop is from a process at index \<open>k\<close> that may run: the ticks its time slice owes, then the way round the list.\<close>

definition sched_way :: "nat \<Rightarrow> kst \<Rightarrow> nat" where
  "sched_way k s = (if sched_next s \<ge> length (pact s) then k
     else if sched_next s \<le> k then k - sched_next s else k + length (pact s) - sched_next s)"

definition sched_left :: "nat \<Rightarrow> kst \<Rightarrow> nat" where
  "sched_left k s = nat (- p_time_slice (procs s (pact s ! k))) * length (pact s) + sched_way k s"

definition slice_frame :: "kst \<Rightarrow> kst \<Rightarrow> bool" where
  "slice_frame s t \<longleftrightarrow> pact t = pact s \<and> (\<forall>p. (procs t p)\<lparr>p_time_slice := 0\<rparr> = (procs s p)\<lparr>p_time_slice := 0\<rparr>)"

lemma slice_frame_pid:
  assumes "slice_frame s t"
  shows "p_pid (procs t p) = p_pid (procs s p)" "p_exited (procs t p) = p_exited (procs s p)"
proof -
  have "p_pid ((procs t p)\<lparr>p_time_slice := 0\<rparr>) = p_pid ((procs s p)\<lparr>p_time_slice := 0\<rparr>)"
    "p_exited ((procs t p)\<lparr>p_time_slice := 0\<rparr>) = p_exited ((procs s p)\<lparr>p_time_slice := 0\<rparr>)"
    using assms by (simp_all only: slice_frame_def)
  then show "p_pid (procs t p) = p_pid (procs s p)" "p_exited (procs t p) = p_exited (procs s p)" by simp_all
qed

lemma sched_step_spec:
  assumes "k < length (pact s)" and "p_pid (procs s (pact s ! k)) \<noteq> 0" and "\<not> p_exited (procs s (pact s ! k))"
  obtains p t where "sched_step s = Some (p, t)" "p \<in> set (pact s)" "slice_frame s t"
    "can_run (procs t p) \<or> sched_left k t < sched_left k s"
proof -
  define n where "n = (if sched_next s \<ge> length (pact s) then 0 else sched_next s)"
  let ?g = "\<lambda>q. q\<lparr>p_time_slice := min (p_time_slice q + TIME_SLICE) MAX_TIME_SLICE\<rparr>"
  define t where "t = upd_proc (pact s ! n) ?g (s\<lparr>sched_next := n + 1\<rparr>)"
  let ?p = "pact s ! n"
  have n: "n < length (pact s)" using assms(1) by (auto simp: n_def)
  have t: "pact t = pact s" "sched_next t = n + 1" "procs t = (procs s)(?p := ?g (procs s ?p))" by (simp_all add: t_def)
  have way: "sched_way k s = (if n \<le> k then k - n else k + length (pact s) - n)"
    using assms(1) by (auto simp: sched_way_def n_def)
  have way': "sched_way k t = (if n + 1 \<ge> length (pact s) then k else if n + 1 \<le> k then k - (n + 1) else k + length (pact s) - (n + 1))"
    by (simp add: sched_way_def t)
  have "can_run (procs t ?p) \<or> sched_left k t < sched_left k s"
  proof (cases "pact s ! k = ?p")
    case True
    let ?a = "nat (- p_time_slice (procs s ?p))" and ?b = "nat (- p_time_slice (procs t ?p))"
    show ?thesis
    proof (cases "p_time_slice (procs s ?p) > - 10")
      case True
      then show ?thesis using assms(2,3) \<open>pact s ! k = ?p\<close> by (simp add: can_run_def t)
    next
      case False
      then have "?b + 10 \<le> ?a" by (simp add: t)
      then have "(?b + 10) * length (pact s) \<le> ?a * length (pact s)" by (rule mult_le_mono1)
      moreover have "sched_way k t < length (pact s)" unfolding way' using assms(1) n by auto
      ultimately have "?b * length (pact s) + sched_way k t < ?a * length (pact s)"
        unfolding distrib_right using n by linarith
      then show ?thesis unfolding sched_left_def t(1) True by linarith
    qed
  next
    case False
    then have "k \<noteq> n" by auto
    then have "sched_way k t < sched_way k s" unfolding way way' using assms(1) n by auto
    then show ?thesis using False by (simp add: sched_left_def t)
  qed
  moreover have "sched_step s = Some (?p, t)" using n by (simp add: sched_step_def Let_def n_def t_def)
  moreover have "slice_frame s t" by (simp add: slice_frame_def t)
  ultimately show thesis using that n by auto
qed

text \<open>
  Property C17. While there is a process that has not ended, the loop of \<open>sched\<close> ends, however
  much time the processes owe: it returns a process of the list that may run, and changes
  nothing but the time slices and the place where it goes on.
\<close>

theorem sched_pick_finds:
  assumes "q \<in> set (pact s)" and "p_pid (procs s q) \<noteq> 0" and "\<not> p_exited (procs s q)"
  shows "returns (sched_pick s) (\<lambda>(p, t). p \<in> set (pact s) \<and> can_run (procs t p) \<and> pact t = pact s
    \<and> (\<forall>x. (procs t x)\<lparr>p_time_slice := 0\<rparr> = (procs s x)\<lparr>p_time_slice := 0\<rparr>))"
proof -
  obtain k where k: "k < length (pact s)" "pact s ! k = q" using assms(1) by (metis in_set_conv_nth)
  have "returns (sched_pick s) (\<lambda>(p, t). p \<in> set (pact s) \<and> can_run (procs t p) \<and> slice_frame s t)"
    using k assms(2,3)
  proof (induction "sched_left k s" arbitrary: s rule: less_induct)
    case less
    obtain p t where st: "sched_step s = Some (p, t)" "p \<in> set (pact s)" "slice_frame s t"
      "can_run (procs t p) \<or> sched_left k t < sched_left k s"
      using sched_step_spec [of k s] less.prems by metis
    show ?case
    proof (cases "can_run (procs t p)")
      case True
      then show ?thesis by (subst sched_pick.simps) (simp add: st)
    next
      case False
      have t: "pact t = pact s" "p_pid (procs t q) \<noteq> 0" "\<not> p_exited (procs t q)"
        using st(3) slice_frame_pid [OF st(3)] less.prems by (simp_all add: slice_frame_def)
      have "returns (sched_pick t) (\<lambda>(p, u). p \<in> set (pact t) \<and> can_run (procs u p) \<and> slice_frame t u)"
        using False st(4) t less.prems by (intro less.hyps) auto
      then have "returns (sched_pick t) (\<lambda>(p, u). p \<in> set (pact s) \<and> can_run (procs u p) \<and> slice_frame s u)"
        by (rule returns_mono) (use st(3) in \<open>auto simp: slice_frame_def\<close>)
      then show ?thesis using False by (subst sched_pick.simps) (simp add: st)
    qed
  qed
  then show ?thesis by (rule returns_mono) (auto simp: slice_frame_def)
qed

theorem sched_pick_finds_witness:
  "returns (sched_pick (upd_proc 0 (\<lambda>q. q\<lparr>p_time_slice := -35\<rparr>) ex_procs)) (\<lambda>(p, t). p \<in> {0, 1} \<and> can_run (procs t p))"
  by (rule returns_mono [OF sched_pick_finds [where q = 1]]) (auto simp: ex_procs_def zero_process_def)

end
