(* ===== verification/Chr.thy ===== *)
theory Chr
  imports Sched
begin

unbundle bit_operations_syntax

text \<open>
  Character devices, \<open>kern/fs/chr.c\<close>: every operation on a character special file goes
  through the table of drivers, by the major number of the device. The drivers themselves
  talk to hardware and are the parameter \<open>e_chr\<close>; the two that do not, \<open>null\<close> and
  \<open>zero\<close>, are here.
\<close>

section \<open>The switch\<close>

abbreviation i_rdev :: "kst \<Rightarrow> nat \<Rightarrow> nat" where
  "i_rdev s i \<equiv> unat (d_rdev (i_d (inodes s i)))"

definition chr_open :: "env \<Rightarrow> nat \<Rightarrow> bool \<Rightarrow> kst \<Rightarrow> unit res" where
  "chr_open e i nodelay s =
     (let m = major (i_rdev s i) in
      if m \<ge> MAXCDEVS then fail ENXIO s
      else case cd_open (e_chr e m) of None \<Rightarrow> Some (Inr (), s) | Some f \<Rightarrow> f i nodelay s)"

definition chr_close :: "env \<Rightarrow> nat \<Rightarrow> kst \<Rightarrow> unit res" where
  "chr_close e i s =
     (let m = major (i_rdev s i) in
      if m \<ge> MAXCDEVS then fail ENXIO s
      else case cd_close (e_chr e m) of None \<Rightarrow> Some (Inr (), s) | Some f \<Rightarrow> f i s)"

definition chr_read :: "env \<Rightarrow> rwreq \<Rightarrow> kst \<Rightarrow> rwreq res" where
  "chr_read e req s =
     (let m = major (i_rdev s (rw_ino req)) in
      if m \<ge> MAXCDEVS then fail ENXIO s
      else case cd_read (e_chr e m) of None \<Rightarrow> fail ENODEV s | Some f \<Rightarrow> f req s)"

definition chr_write :: "env \<Rightarrow> rwreq \<Rightarrow> kst \<Rightarrow> rwreq res" where
  "chr_write e req s =
     (let m = major (i_rdev s (rw_ino req)) in
      if m \<ge> MAXCDEVS then fail ENXIO s
      else case cd_write (e_chr e m) of None \<Rightarrow> fail ENODEV s | Some f \<Rightarrow> f req s)"

definition chr_ioctl :: "env \<Rightarrow> nat \<Rightarrow> int \<Rightarrow> nat \<Rightarrow> kst \<Rightarrow> unit res" where
  "chr_ioctl e i cmd p s =
     (let m = major (i_rdev s i) in
      if m \<ge> MAXCDEVS then fail ENXIO s
      else case cd_ioctl (e_chr e m) of None \<Rightarrow> fail ENOTTY s | Some f \<Rightarrow> f i cmd p s)"

definition chr_ttyname :: "env \<Rightarrow> nat \<Rightarrow> kst \<Rightarrow> byte list res" where
  "chr_ttyname e i s =
     (let m = major (i_rdev s i) in
      if m \<ge> MAXCDEVS then fail ENXIO s
      else case cd_ttyname (e_chr e m) of None \<Rightarrow> fail ENOTTY s | Some f \<Rightarrow> f i s)"

section \<open>The devices null and zero\<close>

definition null_read :: "rwreq \<Rightarrow> kst \<Rightarrow> rwreq res" where
  "null_read req s = Some (Inr (req\<lparr>rw_count := 0\<rparr>), s)"

definition null_write :: "rwreq \<Rightarrow> kst \<Rightarrow> rwreq res" where
  "null_write req s = Some (Inr req, s)"

definition zero_read :: "rwreq \<Rightarrow> kst \<Rightarrow> rwreq res" where
  "zero_read req s = bindE (uset (rw_buf req) 0 (rw_count req) s) (\<lambda>_ s. Some (Inr req, s))"

abbreviation (input) "NUL_DEVN \<equiv> (1::nat)"
abbreviation (input) "ZERO_DEVN \<equiv> (2::nat)"

text \<open>The first part of \<open>chr_init\<close>; the rest are the initialisations of the drivers.\<close>

definition chr_init :: "(nat \<Rightarrow> chr_driver) \<Rightarrow> nat \<Rightarrow> chr_driver" where
  "chr_init drv = (let drv = drv(NUL_DEVN := (drv NUL_DEVN)\<lparr>cd_read := Some null_read, cd_write := Some null_write\<rparr>)
     in drv(ZERO_DEVN := (drv ZERO_DEVN)\<lparr>cd_read := Some zero_read, cd_write := Some null_write\<rparr>))"

end
