(* ===== verification/Pipe.thy ===== *)
theory Pipe
  imports Chr
begin

unbundle bit_operations_syntax

text \<open>
  Pipes, \<open>kern/fs/pipe.c\<close>. The data of a pipe is a ring in a page of memory that the inode
  points to. A reader that finds no data and a writer that finds no room sleep. \<open>sys_pipe\<close>
  needs the files and is in their theory.
\<close>

abbreviation upd_pipe_readers :: "nat \<Rightarrow> int \<Rightarrow> kst \<Rightarrow> kst" where
  "upd_pipe_readers i n \<equiv> upd_inode i (\<lambda>ip. ip\<lparr>pipe_readers := pipe_readers ip + n\<rparr>)"

abbreviation upd_pipe_writers :: "nat \<Rightarrow> int \<Rightarrow> kst \<Rightarrow> kst" where
  "upd_pipe_writers i n \<equiv> upd_inode i (\<lambda>ip. ip\<lparr>pipe_writers := pipe_writers ip + n\<rparr>)"

section \<open>Opening and closing\<close>

definition pipe_alloc :: "nat \<Rightarrow> kst \<Rightarrow> unit res" where
  "pipe_alloc i s =
     (if pipe_buf (inodes s i) \<noteq> 0 then Some (Inr (), s)
      else case palloc s of (p, s) \<Rightarrow>
        let s = upd_inode i (\<lambda>ip. ip\<lparr>pipe_buf := p\<rparr>) s in
        if p = 0 then fail ENOMEM s else Some (Inr (), s))"

partial_function (option) wait_writer :: "env \<Rightarrow> nat \<Rightarrow> 32 word \<Rightarrow> kst \<Rightarrow> unit res" where
  "wait_writer e i flags s =
     (if pipe_writers (inodes s i) \<noteq> 0 \<or> pipe_datlen (inodes s i) \<noteq> 0 then Some (Inr (), s)
      else if flags AND O_NDELAY \<noteq> 0 then Some (Inr (), s)
      else if p_sig (cur s) \<noteq> 0 then fail EINTR (upd_pipe_readers i (-1) s)
      else Option.bind (idle e s) (wait_writer e i flags))"

partial_function (option) wait_reader :: "env \<Rightarrow> nat \<Rightarrow> 32 word \<Rightarrow> kst \<Rightarrow> unit res" where
  "wait_reader e i flags s =
     (if pipe_readers (inodes s i) \<noteq> 0 then Some (Inr (), s)
      else if flags AND O_NDELAY \<noteq> 0 then fail ENXIO (upd_pipe_writers i (-1) s)
      else if p_sig (cur s) \<noteq> 0 then fail EINTR (upd_pipe_writers i (-1) s)
      else Option.bind (idle e s) (wait_reader e i flags))"

definition pipe_open :: "env \<Rightarrow> nat \<Rightarrow> 32 word \<Rightarrow> kst \<Rightarrow> unit res" where
  "pipe_open e i flags s =
     bindE (pipe_alloc i s) (\<lambda>_ s.
       let m = flags AND 7 in
       if m = O_RDONLY then wait_writer e i flags (upd_pipe_readers i 1 s)
       else if m = O_WRONLY then wait_reader e i flags (upd_pipe_writers i 1 s)
       else if m = O_RDWR then Some (Inr (), upd_pipe_writers i 1 (upd_pipe_readers i 1 s))
       else fail EINVAL s)"

definition pipe_close :: "nat \<Rightarrow> 32 word \<Rightarrow> kst \<Rightarrow> kst" where
  "pipe_close i flags s =
     (let m = flags AND 7 in
      if m = O_RDONLY then upd_pipe_readers i (-1) s
      else if m = O_WRONLY then upd_pipe_writers i (-1) s
      else s)"

section \<open>Reading and writing\<close>

definition pipe_getc :: "nat \<Rightarrow> kst \<Rightarrow> (byte \<times> kst) option" where
  "pipe_getc i s =
     (let ip = inodes s i in
      if pipe_datlen ip = 0 \<or> pipe_buf ip = 0 then None
      else Some (phys s (pipe_buf ip + pipe_rdp ip),
        upd_inode i (\<lambda>ip. ip\<lparr>pipe_datlen := pipe_datlen ip - 1, pipe_rdp := (pipe_rdp ip + 1) mod PIPE_BUF\<rparr>) s))"

definition pipe_putc :: "nat \<Rightarrow> byte \<Rightarrow> kst \<Rightarrow> kst option" where
  "pipe_putc i c s =
     (let ip = inodes s i in
      if pipe_datlen ip = PIPE_BUF \<or> pipe_buf ip = 0 then None
      else Some (upd_inode i (\<lambda>ip. ip\<lparr>pipe_datlen := pipe_datlen ip + 1, pipe_wrp := (pipe_wrp ip + 1) mod PIPE_BUF\<rparr>)
        (s\<lparr>phys := (phys s)(pipe_buf ip + pipe_wrp ip := c)\<rparr>)))"

text \<open>The end of both functions: \<open>if (req->count) wakeup(); return 0;\<close>\<close>

definition pipe_done :: "rwreq \<Rightarrow> kst \<Rightarrow> rwreq res" where
  "pipe_done req s = Some (Inr req, if rw_count req \<noteq> 0 then wakeup s else s)"

partial_function (option) pipe_read_loop :: "env \<Rightarrow> nat \<Rightarrow> rwreq \<Rightarrow> kst \<Rightarrow> rwreq res" where
  "pipe_read_loop e count req s =
     (let ip = inodes s (rw_ino req) in
      if count = 0 then pipe_done req s
      else if pipe_datlen ip = 0 then
        if count \<noteq> rw_count req \<or> rw_nodelay req \<or> pipe_writers ip = 0
        then pipe_done (req\<lparr>rw_count := rw_count req - count\<rparr>) s
        else if p_sig (cur s) \<noteq> 0 then fail EINTR s
        else Option.bind (idle e s) (pipe_read_loop e count req)
      else
        Option.bind (pipe_getc (rw_ino req) s) (\<lambda>(ch, s).
        Option.bind (tucpy (rw_buf req) [ch] s) (\<lambda>(_, s).
          pipe_read_loop e (count - 1) (req\<lparr>rw_buf := (rw_buf req + 1) mod 2 ^ 32\<rparr>) s)))"

definition pipe_read :: "env \<Rightarrow> rwreq \<Rightarrow> kst \<Rightarrow> rwreq res" where
  "pipe_read e req s = pipe_read_loop e (rw_count req) req s"

text \<open>
  \<open>pipe_write\<close> first waits for room for the whole request when the request fits in the
  pipe; it returns \<open>False\<close> when the writer does not want to sleep. A byte that cannot be
  copied from the user is an uninitialised variable of the code, which is outside the model.
\<close>

partial_function (option) pipe_room :: "env \<Rightarrow> rwreq \<Rightarrow> kst \<Rightarrow> bool res" where
  "pipe_room e req s =
     (if rw_count req \<le> PIPE_BUF \<and> PIPE_BUF - pipe_datlen (inodes s (rw_ino req)) < rw_count req then
        if rw_nodelay req then Some (Inr False, s)
        else if p_sig (cur s) \<noteq> 0 then fail EINTR s
        else Option.bind (idle e s) (pipe_room e req)
      else Some (Inr True, s))"

partial_function (option) pipe_write_loop :: "env \<Rightarrow> nat \<Rightarrow> rwreq \<Rightarrow> kst \<Rightarrow> rwreq res" where
  "pipe_write_loop e count req s =
     (let ip = inodes s (rw_ino req) in
      if count = 0 then pipe_done req s
      else if pipe_readers ip = 0 then fail EPIPE (snd (sendsig (curr s) SIGPIPE s))
      else if pipe_datlen ip = PIPE_BUF then
        if p_sig (cur s) \<noteq> 0 then fail EINTR s
        else if rw_nodelay req then pipe_done (req\<lparr>rw_count := rw_count req - count\<rparr>) s
        else Option.bind (idle e s) (pipe_write_loop e count req)
      else
        bindE (pipe_alloc (rw_ino req) s) (\<lambda>_ s.
        Option.bind (fucpy (rw_buf req) 1 s) (\<lambda>(r, s).
        Option.bind (case r of Inl _ \<Rightarrow> None | Inr bs \<Rightarrow> pipe_putc (rw_ino req) (bs ! 0) s) (\<lambda>s.
          pipe_write_loop e (count - 1) (req\<lparr>rw_buf := (rw_buf req + 1) mod 2 ^ 32\<rparr>) s))))"

definition pipe_write :: "env \<Rightarrow> rwreq \<Rightarrow> kst \<Rightarrow> rwreq res" where
  "pipe_write e req s =
     bindE (pipe_room e req s) (\<lambda>room s.
       if room then pipe_write_loop e (rw_count req) req s
       else Some (Inr (req\<lparr>rw_count := 0\<rparr>), s))"

section \<open>The interface: a queue of bytes\<close>

text \<open>
  \<open>put\<close> and \<open>get\<close> are the two operations of a bounded queue, \<open>con\<close> its contents, oldest
  byte first, and \<open>cap\<close> its capacity.
\<close>

locale byte_queue =
  fixes put :: "byte \<Rightarrow> 's \<Rightarrow> 's option"
    and get :: "'s \<Rightarrow> (byte \<times> 's) option"
    and con :: "'s \<Rightarrow> byte list"
    and ok :: "'s \<Rightarrow> bool"
    and cap :: nat
  assumes put: "ok s \<Longrightarrow> length (con s) < cap \<Longrightarrow> \<exists>t. put c s = Some t \<and> ok t \<and> con t = con s @ [c]"
    and get: "ok s \<Longrightarrow> con s \<noteq> [] \<Longrightarrow> \<exists>t. get s = Some (hd (con s), t) \<and> ok t \<and> con t = tl (con s)"
    and bound: "ok s \<Longrightarrow> length (con s) \<le> cap"
begin

fun puts :: "byte list \<Rightarrow> 's \<Rightarrow> 's option" where
  "puts [] s = Some s"
| "puts (c # cs) s = Option.bind (put c s) (puts cs)"

fun gets :: "nat \<Rightarrow> 's \<Rightarrow> (byte list \<times> 's) option" where
  "gets 0 s = Some ([], s)"
| "gets (Suc n) s = Option.bind (get s) (\<lambda>(c, s). map_option (\<lambda>(cs, s). (c # cs, s)) (gets n s))"

lemma puts: "ok s \<Longrightarrow> length (con s) + length cs \<le> cap \<Longrightarrow> \<exists>t. puts cs s = Some t \<and> ok t \<and> con t = con s @ cs"
proof (induction cs arbitrary: s)
  case (Cons c cs)
  then obtain t where "put c s = Some t" "ok t" "con t = con s @ [c]" using put [of s c] by auto
  then show ?case using Cons.IH [of t] Cons.prems by auto
qed simp

lemma gets: "ok s \<Longrightarrow> n \<le> length (con s) \<Longrightarrow> \<exists>t. gets n s = Some (take n (con s), t) \<and> ok t \<and> con t = drop n (con s)"
proof (induction n arbitrary: s)
  case (Suc n)
  then have ne: "con s \<noteq> []" by auto
  then obtain t where t: "get s = Some (hd (con s), t)" "ok t" "con t = tl (con s)" using get [of s] Suc.prems by auto
  then show ?case using Suc.IH [of t] Suc.prems ne by (cases "con s") auto
qed simp

lemma first_in_first_out:
  assumes "ok s" and "con s = []" and "length cs \<le> cap"
  shows "\<exists>t u. puts cs s = Some t \<and> gets (length cs) t = Some (cs, u) \<and> con u = []"
proof -
  obtain t where t: "puts cs s = Some t" "ok t" "con t = cs" using puts [of s cs] assms by auto
  then show ?thesis using gets [of t "length cs"] by auto
qed

end

section \<open>A pipe is one\<close>

text \<open>The ring in the page of the pipe: \<open>datlen\<close> bytes from \<open>rdp\<close> on, round the end.\<close>

definition pipe_data :: "nat \<Rightarrow> kst \<Rightarrow> byte list" where
  "pipe_data i s = (let ip = inodes s i in
     map (\<lambda>k. phys s (pipe_buf ip + (pipe_rdp ip + k) mod PIPE_BUF)) [0..<pipe_datlen ip])"

definition pipe_ok :: "nat \<Rightarrow> kst \<Rightarrow> bool" where
  "pipe_ok i s \<longleftrightarrow> (let ip = inodes s i in
     pipe_buf ip \<noteq> 0 \<and> pipe_datlen ip \<le> PIPE_BUF \<and> pipe_rdp ip < PIPE_BUF
     \<and> pipe_wrp ip = (pipe_rdp ip + pipe_datlen ip) mod PIPE_BUF)"

lemma ring_other:
  assumes "k < d" and "d < (n :: nat)" and "r < n"
  shows "(r + k) mod n \<noteq> (r + d) mod n"
proof
  assume "(r + k) mod n = (r + d) mod n"
  then have "n dvd (r + d) - (r + k)" using assms by (simp add: mod_eq_dvd_iff_nat [of "r + k" "r + d"] eq_commute)
  then show False using assms by (auto dest: dvd_imp_le)
qed

lemma pipe_putc_spec:
  assumes "pipe_ok i s" and "pipe_datlen (inodes s i) < PIPE_BUF"
  shows "\<exists>t. pipe_putc i c s = Some t \<and> pipe_ok i t \<and> pipe_data i t = pipe_data i s @ [c]"
proof -
  let ?ip = "inodes s i"
  let ?t = "upd_inode i (\<lambda>ip. ip\<lparr>pipe_datlen := pipe_datlen ip + 1, pipe_wrp := (pipe_wrp ip + 1) mod PIPE_BUF\<rparr>)
        (s\<lparr>phys := (phys s)(pipe_buf ?ip + pipe_wrp ?ip := c)\<rparr>)"
  have p: "pipe_putc i c s = Some ?t" using assms by (simp add: pipe_putc_def Let_def pipe_ok_def)
  have w: "pipe_wrp ?ip = (pipe_rdp ?ip + pipe_datlen ?ip) mod PIPE_BUF" "pipe_rdp ?ip < PIPE_BUF"
    using assms by (simp_all add: pipe_ok_def Let_def)
  have "pipe_ok i ?t" using assms w by (simp add: pipe_ok_def Let_def mod_Suc_eq)
  moreover have "pipe_data i ?t = pipe_data i s @ [c]"
    using ring_other [OF _ assms(2) w(2)] by (simp add: pipe_data_def Let_def w(1))
  ultimately show ?thesis using p by blast
qed


lemma tl_map_upt: "tl (map f [0..<d]) = map (\<lambda>k. f (Suc k)) [0..<d - 1]"
  by (cases d) (simp_all add: upt_conv_Cons map_Suc_upt [symmetric] comp_def del: upt_Suc)

lemma pipe_getc_spec:
  assumes "pipe_ok i s" and "pipe_data i s \<noteq> []"
  shows "\<exists>t. pipe_getc i s = Some (hd (pipe_data i s), t) \<and> pipe_ok i t \<and> pipe_data i t = tl (pipe_data i s)"
proof -
  let ?ip = "inodes s i"
  let ?t = "upd_inode i (\<lambda>ip. ip\<lparr>pipe_datlen := pipe_datlen ip - 1, pipe_rdp := (pipe_rdp ip + 1) mod PIPE_BUF\<rparr>) s"
  have d: "0 < pipe_datlen ?ip" using assms(2) by (simp add: pipe_data_def Let_def)
  have w: "pipe_wrp ?ip = (pipe_rdp ?ip + pipe_datlen ?ip) mod PIPE_BUF" "pipe_rdp ?ip < PIPE_BUF" "pipe_buf ?ip \<noteq> 0"
    "pipe_datlen ?ip \<le> PIPE_BUF"
    using assms by (simp_all add: pipe_ok_def Let_def)
  have hd: "hd (pipe_data i s) = phys s (pipe_buf ?ip + pipe_rdp ?ip)"
    using d w(2) by (simp add: pipe_data_def Let_def hd_map)
  have "pipe_getc i s = Some (hd (pipe_data i s), ?t)" using d w(3) by (simp add: pipe_getc_def Let_def hd)
  moreover have "pipe_ok i ?t"
    using w d by (cases "pipe_datlen ?ip") (simp_all add: pipe_ok_def Let_def mod_add_left_eq)
  moreover have "pipe_data i ?t = tl (pipe_data i s)"
    by (simp add: pipe_data_def Let_def tl_map_upt mod_add_left_eq)
  ultimately show ?thesis by blast
qed

interpretation pipe: byte_queue "pipe_putc i" "pipe_getc i" "pipe_data i" "pipe_ok i" PIPE_BUF for i
proof unfold_locales
  show "\<exists>t. pipe_putc i c s = Some t \<and> pipe_ok i t \<and> pipe_data i t = pipe_data i s @ [c]"
    if "pipe_ok i s" "length (pipe_data i s) < PIPE_BUF" for s c
    using that by (intro pipe_putc_spec) (simp_all add: pipe_data_def Let_def)
  show "\<exists>t. pipe_getc i s = Some (hd (pipe_data i s), t) \<and> pipe_ok i t \<and> pipe_data i t = tl (pipe_data i s)"
    if "pipe_ok i s" "pipe_data i s \<noteq> []" for s
    using that by (rule pipe_getc_spec)
  show "length (pipe_data i s) \<le> PIPE_BUF" if "pipe_ok i s" for s
    using that by (simp add: pipe_data_def pipe_ok_def Let_def)
qed

fun pipe_puts :: "nat \<Rightarrow> byte list \<Rightarrow> kst \<Rightarrow> kst option" where
  "pipe_puts i [] s = Some s"
| "pipe_puts i (c # cs) s = Option.bind (pipe_putc i c s) (pipe_puts i cs)"

fun pipe_gets :: "nat \<Rightarrow> nat \<Rightarrow> kst \<Rightarrow> (byte list \<times> kst) option" where
  "pipe_gets i 0 s = Some ([], s)"
| "pipe_gets i (Suc n) s = Option.bind (pipe_getc i s) (\<lambda>(c, s). map_option (\<lambda>(cs, s). (c # cs, s)) (pipe_gets i n s))"

lemma pipe_loops: "pipe.puts i cs s = pipe_puts i cs s" "pipe.gets i n s = pipe_gets i n s"
proof -
  show "pipe.puts i cs s = pipe_puts i cs s"
    by (induction cs arbitrary: s) (auto intro: Option.bind_cong)
  have "pipe.gets i n = pipe_gets i n"
    by (induction n) (auto intro!: ext Option.bind_cong)
  then show "pipe.gets i n s = pipe_gets i n s" by simp
qed

text \<open>
  Property C18. A pipe is a first-in first-out queue: after more bytes are put into it, as
  long as there is room, reading everything gives the old bytes and then the new ones in
  the order they were written, also when the ring wraps round, and leaves the
  pipe empty; no operation panics.
\<close>

theorem pipe_fifo:
  assumes "pipe_ok i s" and "pipe_datlen (inodes s i) + length cs \<le> PIPE_BUF"
  shows "\<exists>t u. pipe_puts i cs s = Some t \<and> pipe_datlen (inodes t i) = pipe_datlen (inodes s i) + length cs
     \<and> pipe_gets i (pipe_datlen (inodes t i)) t = Some (pipe_data i s @ cs, u) \<and> pipe_datlen (inodes u i) = 0 \<and> pipe_ok i u"
proof -
  have len: "length (pipe_data i s) = pipe_datlen (inodes s i)" for s by (simp add: pipe_data_def Let_def)
  obtain t where t: "pipe.puts i cs s = Some t" "pipe_ok i t" "pipe_data i t = pipe_data i s @ cs"
    using pipe.puts [OF assms(1), of cs] assms(2) len by auto
  obtain u where u: "pipe.gets i (length (pipe_data i t)) t = Some (pipe_data i t, u)" "pipe_ok i u" "pipe_data i u = []"
    using pipe.gets [OF t(2), of "length (pipe_data i t)"] by auto
  show ?thesis
    using t u len [of t] len [of u] len [of s] by (intro exI [of _ t] exI [of _ u]) (simp add: pipe_loops)
qed

definition ex_pipe :: kst where
  "ex_pipe = (zero_kst no_disk no_driver)\<lparr>inodes := (\<lambda>_. zero_inode)(3 := zero_inode\<lparr>pipe_buf := 8192, pipe_rdp := 4095,
     pipe_wrp := 4095, pipe_readers := 1, pipe_writers := 1\<rparr>)\<rparr>"

lemma ex_pipe: "pipe_ok 3 ex_pipe" "pipe_data 3 ex_pipe = []" "pipe_datlen (inodes ex_pipe 3) = 0"
  by (simp_all add: pipe_ok_def pipe_data_def ex_pipe_def zero_inode_def)

theorem pipe_fifo_witness:
  "\<exists>t u. pipe_puts 3 [104, 105] ex_pipe = Some t \<and> pipe_gets 3 2 t = Some ([104, 105], u)"
  using pipe_fifo [OF ex_pipe(1), of "[104, 105]"] by (simp add: ex_pipe) (metis numeral_2_eq_2)


definition idle_env :: env where
  "idle_env = \<lparr>e_chr = (\<lambda>_. \<lparr>cd_ttyname = None, cd_open = None, cd_close = None, cd_read = None, cd_write = None, cd_ioctl = None\<rparr>),
     e_blk_ioctl = (\<lambda>_. None), e_run = (\<lambda>_. None), e_late = (\<lambda>_. False)\<rparr>"

section \<open>What a reader gets\<close>

text \<open>
  The range of \<open>n\<close> bytes from \<open>a\<close> on is the user's, and the kernel can write it without mapping pages.
\<close>

definition user_range :: "kst \<Rightarrow> nat \<Rightarrow> nat \<Rightarrow> bool" where
  "user_range s a n \<longleftrightarrow> (\<forall>k < n. urchk (a + k) 1 s = Some (Inr (), s))"

text \<open>The page of the pipe is not mapped for any user.\<close>

definition pipe_page_own :: "nat set \<Rightarrow> nat \<Rightarrow> kst \<Rightarrow> bool" where
  "pipe_page_own T i s \<longleftrightarrow> pipe_buf (inodes s i) mod 4096 = 0 \<and> pipe_buf (inodes s i) div 4096 \<notin> page_at s ` entries T s"

lemma urchk_cong:
  assumes "urchk a n s = Some (Inr (), s)" and "cur t = cur s" and "ptmem t = ptmem s"
  shows "urchk a n t = Some (Inr (), t)"
proof -
  have c: "chk_pages ps t = chk_pages ps s" for ps using assms(2,3) by (induction ps) (simp_all add: pte_def)
  show ?thesis
  proof (cases "p_astk (cur s) \<le> a")
    case True
    then show ?thesis using assms by (auto simp: urchk_def Let_def growstk_def c split: if_splits)
  next
    case False
    have "growstk a n s \<noteq> Some (Inr (), s)"
    proof
      assume "growstk a n s = Some (Inr (), s)"
      then obtain u where u: "upd_curr (\<lambda>c. c\<lparr>p_astk := a div 4096 * 4096\<rparr>) u = s"
        using False by (auto simp: growstk_def bindE_def split: if_splits bind_splits sum.splits prod.splits)
      have "p_astk (cur s) = a div 4096 * 4096" unfolding u [symmetric] by simp
      then show False using False div_times_less_eq_dividend [of a 4096] by simp
    qed
    then show ?thesis using assms by (auto simp: urchk_def Let_def c split: if_splits)
  qed
qed

lemma user_range_trans:
  assumes "vm_ok T s" and "ptab s \<in> T" and "umap_ok s" and "user_range s a n" and "k < n"
  shows "\<exists>p. utrans s (a + k) = Some p" and "a + k < USER_SIZE"
proof -
  have u: "urchk (a + k) 1 s = Some (Inr (), s)" using assms(4,5) by (simp add: user_range_def)
  then have "a + k \<le> USER_SIZE" by (auto simp: urchk_def Let_def split: if_splits)
  then have "utrans s (a + k + 0) \<noteq> None" using urchk_grows [OF assms(1-3) _ u] by simp
  then show "\<exists>p. utrans s (a + k) = Some p" "a + k < USER_SIZE" by (auto simp: utrans_def split: if_splits)
qed

lemma tucpy_byte:
  "urchk a 1 s = Some (Inr (), s) \<Longrightarrow> utrans s a = Some p \<Longrightarrow> tucpy a [b] s = Some (Inr (), s\<lparr>phys := (phys s)(p := b)\<rparr>)"
  by (simp add: tucpy_def with_check_def)

lemma pipe_page_other:
  assumes "pipe_page_own T i s" and "ptab s \<in> T" and "utrans s a = Some p" and "x < PIPE_BUF"
  shows "pipe_buf (inodes s i) + x \<noteq> p"
proof
  assume p: "pipe_buf (inodes s i) + x = p"
  have u: "a < USER_SIZE" "pte s (a div 4096) \<noteq> 0" "p = pte s (a div 4096) div 4096 * 4096 + a mod 4096"
    using assms(3) by (auto simp: utrans_def split: if_splits)
  have "p div 4096 = page_at s (ptab s, a div 4096)" by (simp only: u(3) frame_div page_at_def pte_def fst_conv snd_conv)
  moreover have "(ptab s, a div 4096) \<in> entries T s" using u usr_page [OF u(1)] assms(2) by (simp add: entries_def pte_def)
  moreover have "p div 4096 = pipe_buf (inodes s i) div 4096"
  proof -
    have "4096 dvd pipe_buf (inodes s i)" using assms(1) by (simp add: pipe_page_own_def dvd_eq_mod_eq_0)
    then show ?thesis using assms(4) p [symmetric] by (auto elim!: dvdE)
  qed
  ultimately show False using assms(1) unfolding pipe_page_own_def by (metis imageI)
qed

text \<open>What the loop relies on, and what it leaves alone.\<close>

definition reader_ok :: "nat set \<Rightarrow> nat \<Rightarrow> kst \<Rightarrow> bool" where
  "reader_ok T i s \<longleftrightarrow> vm_ok T s \<and> ptab s \<in> T \<and> umap_ok s \<and> pipe_ok i s \<and> pipe_page_own T i s"

lemma pipe_step:
  assumes ok: "reader_ok T i s" and data: "pipe_data i s \<noteq> []" and u: "urchk a 1 s = Some (Inr (), s)"
  obtains p t where "utrans s a = Some p" "pipe_getc i s \<bind> (\<lambda>(ch, s). tucpy a [ch] s) = Some (Inr (), t)"
    "reader_ok T i t" "pipe_data i t = tl (pipe_data i s)" "cur t = cur s" "ptmem t = ptmem s"
    "phys t = (phys s)(p := hd (pipe_data i s))" "pipe_writers (inodes t i) = pipe_writers (inodes s i)"
proof -
  have v: "vm_ok T s" "ptab s \<in> T" "umap_ok s" "pipe_ok i s" "pipe_page_own T i s" using ok by (simp_all add: reader_ok_def)
  have "user_range s a 1" using u by (simp add: user_range_def)
  from user_range_trans(1) [OF v(1-3) this, of 0] obtain p where p: "utrans s a = Some p" by auto
  obtain t where t: "pipe_getc i s = Some (hd (pipe_data i s), t)" "pipe_ok i t" "pipe_data i t = tl (pipe_data i s)"
    using pipe_getc_spec [OF v(4) data] by blast
  have f: "cur t = cur s" "ptmem t = ptmem s" "phys t = phys s" "pg_flist t = pg_flist s"
    "pipe_buf (inodes t i) = pipe_buf (inodes s i)" "pipe_writers (inodes t i) = pipe_writers (inodes s i)"
    using t(1) by (auto simp: pipe_getc_def Let_def split: if_splits)
  have utr: "utrans t = utrans s" using f by (simp add: fun_eq_iff utrans_def pte_def)
  let ?t = "t\<lparr>phys := (phys t)(p := hd (pipe_data i s))\<rparr>"
  have e: "entries T (t\<lparr>phys := ph\<rparr>) = entries T s" "page_at (t\<lparr>phys := ph\<rparr>) = page_at s" for ph using f by (simp_all add: entries_def page_at_def fun_eq_iff)
  have own: "pipe_page_own T i ?t" using v(5) f by (simp add: pipe_page_own_def e)
  have "pipe_data i ?t = pipe_data i t"
    using pipe_page_other [OF v(5) v(2) p] f by (auto simp: pipe_data_def Let_def)
  moreover have "reader_ok T i ?t"
    using v t(2) f own vm_ok_cong [of ?t s T] by (simp add: reader_ok_def umap_ok_def pte_def pipe_ok_def Let_def)
  ultimately show ?thesis
    using p t f tucpy_byte [OF urchk_cong [OF u f(1,2)], of p] utr by (intro that [of p ?t]) simp_all
qed


lemma pipe_data_length: "length (pipe_data i s) = pipe_datlen (inodes s i)"
  by (simp add: pipe_data_def Let_def)

lemma wakeup_same: "reader_ok T i (wakeup s) = reader_ok T i s" "pipe_data i (wakeup s) = pipe_data i s"
  "utrans (wakeup s) = utrans s" "phys (wakeup s) = phys s"
  by (simp_all add: wakeup_def reader_ok_def umap_ok_def pte_def pipe_ok_def pipe_page_own_def Let_def vm_ok_cong [of "s\<lparr>nidle := 0\<rparr>" s]
      entries_def page_at_def pipe_data_def fun_eq_iff utrans_def)

lemma read_bytes:
  assumes "reader_ok T (rw_ino req) s" and "count \<le> rw_count req"
    and "user_range s (rw_buf req) (min count (length (pipe_data (rw_ino req) s)))"
    and "count < rw_count req \<or> pipe_data (rw_ino req) s \<noteq> [] \<or> rw_nodelay req \<or> pipe_writers (inodes s (rw_ino req)) = 0"
  shows "\<exists>t. let n = min count (length (pipe_data (rw_ino req) s)) in
    (\<forall>e. pipe_read_loop e count req s = Some (Inr (req\<lparr>rw_buf := rw_buf req + n, rw_count := rw_count req - count + n\<rparr>), t))
    \<and> reader_ok T (rw_ino req) t \<and> pipe_data (rw_ino req) t = drop n (pipe_data (rw_ino req) s) \<and> utrans t = utrans s
    \<and> (\<forall>k < n. phys t (the (utrans s (rw_buf req + k))) = pipe_data (rw_ino req) s ! k)
    \<and> (\<forall>p. (\<forall>k < n. utrans s (rw_buf req + k) \<noteq> Some p) \<longrightarrow> phys t p = phys s p)"
  using assms
proof (induction count arbitrary: req s)
  case 0
  then show ?case
    by (intro exI [of _ "if rw_count req \<noteq> 0 then wakeup s else s"])
      (simp add: pipe_read_loop.simps pipe_done_def Let_def wakeup_same)
next
  case (Suc count)
  let ?i = "rw_ino req" and ?a = "rw_buf req"
  let ?D = "pipe_data ?i s"
  show ?case
  proof (cases "?D = []")
    case True
    then show ?thesis using Suc.prems
      by (intro exI [of _ "if rw_count req \<noteq> Suc count then wakeup s else s"])
        (auto simp: pipe_read_loop.simps [of _ "Suc count"] pipe_done_def Let_def wakeup_same pipe_data_length [symmetric])
  next
    case False
    define n where "n = min count (length (tl ?D))"
    have n: "min (Suc count) (length ?D) = Suc n" using False by (cases ?D) (simp_all add: n_def)
    have r: "urchk (?a + k) 1 s = Some (Inr (), s)" if "k < Suc n" for k
      using Suc.prems(3) that unfolding n user_range_def by blast
    obtain p t where t: "utrans s ?a = Some p" "pipe_getc ?i s \<bind> (\<lambda>(ch, s). tucpy ?a [ch] s) = Some (Inr (), t)"
      "reader_ok T ?i t" "pipe_data ?i t = tl ?D" "cur t = cur s" "ptmem t = ptmem s"
      "phys t = (phys s)(p := hd ?D)" "pipe_writers (inodes t ?i) = pipe_writers (inodes s ?i)"
      using pipe_step [OF Suc.prems(1) False, of ?a] r [of 0] by auto
    have utr: "utrans t = utrans s" using t(5,6) by (simp add: fun_eq_iff utrans_def pte_def)
    let ?r = "req\<lparr>rw_buf := ?a + 1\<rparr>"
    have small: "?a + 1 < 4294967296" using t(1) by (auto simp: utrans_def split: if_splits)
    have ur: "user_range t (?a + 1) n"
      unfolding user_range_def by (auto intro!: urchk_cong [OF _ t(5,6)] simp: r [of "Suc k" for k, simplified])
    obtain u where u: "\<And>e. pipe_read_loop e count ?r t
         = Some (Inr (?r\<lparr>rw_buf := ?a + 1 + n, rw_count := rw_count req - count + n\<rparr>), u)"
      "reader_ok T ?i u" "pipe_data ?i u = drop n (tl ?D)" "utrans u = utrans t"
      "\<And>k. k < n \<Longrightarrow> phys u (the (utrans t (?a + 1 + k))) = tl ?D ! k"
      "\<And>p. (\<And>k. k < n \<Longrightarrow> utrans t (?a + 1 + k) \<noteq> Some p) \<Longrightarrow> phys u p = phys t p"
      using Suc.IH [of ?r t] Suc.prems(2) t(3,4) ur unfolding Let_def by (auto simp: n_def)
    obtain ch s1 where g: "pipe_getc ?i s = Some (ch, s1)" "tucpy ?a [ch] s1 = Some (Inr (), t)"
      using t(2) by (auto split: bind_splits)
    have "pipe_datlen (inodes s ?i) \<noteq> 0" using False by (simp add: pipe_data_length [symmetric])
    then have step: "pipe_read_loop e (Suc count) req s = pipe_read_loop e count ?r t" for e
      by (subst pipe_read_loop.simps) (simp add: g small del: One_nat_def)
    have eq: "?a + 1 + n = ?a + Suc n" "rw_count req - count + n = rw_count req - Suc count + Suc n"
      using Suc.prems(2) by linarith+
    have run: "pipe_read_loop e (Suc count) req s
        = Some (Inr (req\<lparr>rw_buf := ?a + Suc n, rw_count := rw_count req - Suc count + Suc n\<rparr>), u)" for e
      unfolding step u(1) eq by simp
    have v: "vm_ok T s" "ptab s \<in> T" using Suc.prems(1) by (simp_all add: reader_ok_def)
    have other: "utrans s (?a + 1 + k) \<noteq> Some p" for k
      using utrans_inj [OF v _ t(1), of "?a + 1 + k"] by auto
    have bytes: "phys u (the (utrans s (?a + k))) = ?D ! k" if "k < Suc n" for k
    proof (cases k)
      case 0
      have "phys u p = phys t p" by (rule u(6)) (use other in \<open>simp add: utr\<close>)
      then show ?thesis using t(1,7) 0 False by (simp add: hd_conv_nth)
    next
      case (Suc j)
      then show ?thesis using u(5) [of j] that False by (cases ?D) (simp_all add: utr)
    qed
    have rest: "phys u q = phys s q" if "\<And>k. k < Suc n \<Longrightarrow> utrans s (?a + k) \<noteq> Some q" for q
    proof -
      have "utrans t (?a + 1 + k) \<noteq> Some q" if "k < n" for k
        using \<open>\<And>k. k < Suc n \<Longrightarrow> utrans s (?a + k) \<noteq> Some q\<close> [of "Suc k"] that by (simp add: utr)
      moreover have "q \<noteq> p" using that [of 0] t(1) by auto
      ultimately show ?thesis using u(6) [of q] t(7) by simp
    qed
    show ?thesis
      unfolding n Let_def using run u(2-4) utr bytes rest by (intro exI [of _ u]) (simp add: drop_Suc)
  qed
qed


text \<open>
  Property C0. A reader sleeps only on a pipe that is empty and has a writer, and only if it has not asked not to.
  Otherwise \<open>pipe_read\<close> returns at once, whatever the other processes would do: the user's buffer then holds the oldest
  bytes of the pipe, as many as were asked for or as there are, they are taken out of the pipe, the
  request says how many they are, and no other byte of the memory is changed. So the read of an empty
  pipe without writers returns 0 bytes.
\<close>

theorem pipe_read_no_sleep:
  assumes "rw_nodelay req \<or> pipe_datlen (inodes s (rw_ino req)) \<noteq> 0 \<or> pipe_writers (inodes s (rw_ino req)) = 0"
    and "reader_ok T (rw_ino req) s" and "n = min (rw_count req) (pipe_datlen (inodes s (rw_ino req)))"
    and "user_range s (rw_buf req) n"
  shows "\<exists>t. (\<forall>e. pipe_read e req s = Some (Inr (req\<lparr>rw_buf := rw_buf req + n, rw_count := n\<rparr>), t))
    \<and> reader_ok T (rw_ino req) t \<and> pipe_data (rw_ino req) t = drop n (pipe_data (rw_ino req) s)
    \<and> uload (rw_buf req) n t = Some (take n (pipe_data (rw_ino req) s))
    \<and> (\<forall>p. (\<forall>k < n. utrans s (rw_buf req + k) \<noteq> Some p) \<longrightarrow> phys t p = phys s p)"
proof -
  let ?D = "pipe_data (rw_ino req) s"
  have n: "n = min (rw_count req) (length ?D)" using assms(3) by (simp add: pipe_data_length)
  have "pipe_data (rw_ino req) s \<noteq> [] \<or> rw_nodelay req \<or> pipe_writers (inodes s (rw_ino req)) = 0"
    using assms(1) by (auto simp: pipe_data_length [symmetric])
  then obtain t where t: "\<And>e. pipe_read_loop e (rw_count req) req s = Some (Inr (req\<lparr>rw_buf := rw_buf req + n, rw_count := n\<rparr>), t)"
    "reader_ok T (rw_ino req) t" "pipe_data (rw_ino req) t = drop n ?D" "utrans t = utrans s"
    "\<And>k. k < n \<Longrightarrow> phys t (the (utrans s (rw_buf req + k))) = ?D ! k"
    "\<And>p. (\<forall>k < n. utrans s (rw_buf req + k) \<noteq> Some p) \<Longrightarrow> phys t p = phys s p"
    using read_bytes [OF assms(2) order_refl] assms(4) unfolding n Let_def by auto
  have "\<forall>k < n. utrans t (rw_buf req + k) \<noteq> None"
    using user_range_trans(1) [OF _ _ _ assms(4)] assms(2) t(4) by (fastforce simp: reader_ok_def)
  then have "uload (rw_buf req) n t = Some (map (\<lambda>k. phys t (the (utrans t (rw_buf req + k)))) [0..<n])"
    by (rule uload_spec)
  also have "map (\<lambda>k. phys t (the (utrans t (rw_buf req + k)))) [0..<n] = take n ?D"
    by (rule nth_equalityI) (use n t(4,5) in simp_all)
  finally show ?thesis using t unfolding pipe_read_def by blast
qed

text \<open>A process with one page, and a pipe that holds three bytes, one of them behind the end of the ring.\<close>

definition ex_reader :: kst where
  "ex_reader = upd_curr (\<lambda>c. c\<lparr>p_ptab := 4096, p_brk := 100, p_stk := 8192, p_astk := USER_SIZE\<rparr>)
    ((zero_kst no_disk no_driver)\<lparr>pg_flist := [9, 8], ptmem := (\<lambda>t i. if t = 4096 \<and> i = 0 then 3 * 4096 + 7 else 0),
     phys := (\<lambda>_. 0)(20480 := 7, 24574 := 5, 24575 := 6),
     inodes := (\<lambda>_. zero_inode)(3 := zero_inode\<lparr>pipe_buf := 20480, pipe_rdp := 4094, pipe_wrp := 1, pipe_datlen := 3,
       pipe_readers := 1, pipe_writers := 1\<rparr>)\<rparr>)"

lemma ex_reader:
  "reader_ok {4096} 3 ex_reader" "pipe_data 3 ex_reader = [5, 6, 7]" "user_range ex_reader 10 2"
proof -
  have e: "entries {4096} ex_reader = {(4096, 0)}" "ptab ex_reader = 4096" "page_at ex_reader (4096, 0) = 3"
    by (auto simp: entries_def page_at_def ex_reader_def split: if_splits)
  have u: "umap_ok ex_reader"
    by (auto simp: umap_ok_def image_page_def pte_def ex_reader_def zero_kst_def zero_process_def)
  have "vm_ok {4096} ex_reader" unfolding vm_ok_def e by (simp add: pg_ok_def e) (simp add: ex_reader_def)
  then show "reader_ok {4096} 3 ex_reader"
    using u by (simp add: reader_ok_def e pipe_page_own_def) (simp add: ex_reader_def pipe_ok_def)
  show "pipe_data 3 ex_reader = [5, 6, 7]"
    by (simp add: pipe_data_def ex_reader_def Let_def upt_rec [of _ 3])
  have c: "p_stk (cur ex_reader) = 8192" "p_base (cur ex_reader) = 0" "p_end (cur ex_reader) = 0" "p_brk (cur ex_reader) = 100"
    by (simp_all add: ex_reader_def zero_kst_def zero_process_def)
  show "user_range ex_reader 10 2" by (auto simp: user_range_def urchk_def Let_def c)
qed

theorem pipe_read_no_sleep_witness:
  "\<exists>t. pipe_read idle_env \<lparr>rw_ino = 3, rw_buf = 10, rw_start = 0, rw_count = 2, rw_nodelay = False\<rparr> ex_reader
     = Some (Inr \<lparr>rw_ino = 3, rw_buf = 12, rw_start = 0, rw_count = 2, rw_nodelay = False\<rparr>, t)
     \<and> uload 10 2 t = Some [5, 6] \<and> pipe_data 3 t = [7]"
  using pipe_read_no_sleep [of "\<lparr>rw_ino = 3, rw_buf = 10, rw_start = 0, rw_count = 2, rw_nodelay = False\<rparr>" ex_reader "{4096}" 2]
    ex_reader by (auto simp: ex_reader_def pipe_data_length [symmetric])


end
