(* ===== verification/File.thy ===== *)
theory File
  imports Pipe
begin

unbundle bit_operations_syntax

text \<open>
  Open files and the descriptors of a process, \<open>kern/fs/file.c\<close>, and \<open>sys_pipe\<close>. A file
  is an entry of a table that all processes share; several descriptors of several processes
  may point to it, and its reference count is their number.
\<close>

section \<open>Files\<close>

definition file_get :: "kst \<Rightarrow> (errno + nat) \<times> kst" where
  "file_get s =
     (case find (\<lambda>f. f_refcnt (files s f) = 0) [0..<MAXFILES] of
        None \<Rightarrow> (Inl ENFILE, s)
      | Some f \<Rightarrow> (Inr f, upd_file f (\<lambda>x. x\<lparr>f_refcnt := 1, f_ino := None, f_flags := 0, f_pos := 0\<rparr>) s))"

text \<open>\<open>inode_put\<close> of a pointer that may be null.\<close>

definition iput_opt :: "nat option \<Rightarrow> kst \<Rightarrow> kst option" where
  "iput_opt i s = (case i of None \<Rightarrow> Some s | Some i \<Rightarrow> iput i s)"

definition file_put :: "env \<Rightarrow> nat \<Rightarrow> kst \<Rightarrow> unit res" where
  "file_put e f s =
     (let s = upd_file f (\<lambda>x. x\<lparr>f_refcnt := f_refcnt x - 1\<rparr>) s in
      if f_refcnt (files s f) \<noteq> 0 then Some (Inr (), s)
      else case f_ino (files s f) of
        None \<Rightarrow> Some (Inr (), s)
      | Some i \<Rightarrow> do {
          let s = (if S_ISFIFO (d_mode (i_d (inodes s i))) then pipe_close i (f_flags (files s f)) s else s);
          s \<leftarrow> (if S_ISCHR (d_mode (i_d (inodes s i))) then map_option snd (chr_close e i s) else Some s);
          inode_put i s
        })"

section \<open>Descriptors\<close>

text \<open>A negative lower bound, which \<open>fcntl\<close> passes on from the user, is an index before the array.\<close>

definition fd_get :: "int \<Rightarrow> kst \<Rightarrow> nat res" where
  "fd_get lowest s =
     (if lowest < 0 then None
      else case find (\<lambda>i. fd_file (p_fd (cur s) i) = None) [nat lowest..<MAXFDS] of
        None \<Rightarrow> fail EMFILE s
      | Some i \<Rightarrow> Some (Inr i, upd_fd i (\<lambda>d. d\<lparr>fd_cloexec := 0\<rparr>) s))"

definition fd_put :: "env \<Rightarrow> nat \<Rightarrow> kst \<Rightarrow> unit res" where
  "fd_put e fd s =
     (case fd_file (p_fd (cur s) fd) of
        None \<Rightarrow> fail EBADF s
      | Some f \<Rightarrow> do {
          (_, s) \<leftarrow> file_put e f s;
          Some (Inr (), upd_fd fd (\<lambda>_. \<lparr>fd_file = None, fd_cloexec = 0\<rparr>) s)
        })"

definition fd_chk :: "int \<Rightarrow> 32 word \<Rightarrow> kst \<Rightarrow> errno option" where
  "fd_chk fd mode s =
     (if fd < 0 \<or> fd \<ge> int MAXFDS then Some EBADF
      else case fd_file (p_fd (cur s) (nat fd)) of
        None \<Rightarrow> Some EBADF
      | Some f \<Rightarrow>
          let fl = f_flags (files s f) AND 3 in
          if fl = 3 then Some EBADF
          else
            let m = (if fl = O_RDONLY then R_OK else if fl = O_WRONLY then W_OK else R_OK OR W_OK) in
            if mode AND m \<noteq> mode then Some EBADF else None)"

fun fd_put_list :: "env \<Rightarrow> (fd \<Rightarrow> bool) \<Rightarrow> nat list \<Rightarrow> kst \<Rightarrow> kst option" where
  "fd_put_list e P [] s = Some s"
| "fd_put_list e P (i # is) s =
     (if P (p_fd (cur s) i) then Option.bind (fd_put e i s) (\<lambda>(_, s). fd_put_list e P is s)
      else fd_put_list e P is s)"

definition fd_cloexec_all :: "env \<Rightarrow> kst \<Rightarrow> kst option" where
  "fd_cloexec_all e s = fd_put_list e (\<lambda>d. fd_cloexec d \<noteq> 0) [0..<OPEN_MAX] s"

text \<open>
  What most system calls on a descriptor begin with: \<open>fd_chk\<close>, then the file of the
  descriptor; and the inode of a file.
\<close>

definition on_fd :: "int \<Rightarrow> 32 word \<Rightarrow> kst \<Rightarrow> (nat \<Rightarrow> 'a res) \<Rightarrow> 'a res" where
  "on_fd fd mode s k =
     (case fd_chk fd mode s of
        Some e \<Rightarrow> fail e s
      | None \<Rightarrow> (case fd_file (p_fd (cur s) (nat fd)) of None \<Rightarrow> None | Some f \<Rightarrow> k f))"

definition on_ino :: "nat \<Rightarrow> kst \<Rightarrow> (nat \<Rightarrow> 'a option) \<Rightarrow> 'a option" where
  "on_ino f s k = (case f_ino (files s f) of None \<Rightarrow> None | Some i \<Rightarrow> k i)"

section \<open>The system call pipe\<close>

definition put_both :: "env \<Rightarrow> nat \<Rightarrow> nat \<Rightarrow> errno \<Rightarrow> kst \<Rightarrow> int res" where
  "put_both e fd0 fd1 err s = do {
     (_, s) \<leftarrow> fd_put e fd0 s;
     (_, s) \<leftarrow> fd_put e fd1 s;
     fail err s
   }"

definition pipe_files :: "nat \<Rightarrow> nat \<Rightarrow> nat \<Rightarrow> nat \<Rightarrow> nat \<Rightarrow> kst \<Rightarrow> kst" where
  "pipe_files i f1 f2 fd0 fd1 s =
     (let s = upd_inode i (\<lambda>ip. ip\<lparr>i_d := (i_d ip)\<lparr>d_mode := S_IFIFO OR 0x1FF\<rparr>, i_dirty := 1,
                                   i_refcnt := i_refcnt ip + 1\<rparr>) s;
          s = upd_file f1 (\<lambda>x. x\<lparr>f_ino := Some i, f_flags := O_RDONLY, f_read := Some Pipe_rw, f_write := Some Pipe_rw\<rparr>) s;
          s = upd_file f2 (\<lambda>x. x\<lparr>f_ino := Some i, f_flags := O_WRONLY, f_read := Some Pipe_rw, f_write := Some Pipe_rw\<rparr>) s;
          s = upd_fd fd0 (\<lambda>d. d\<lparr>fd_file := Some f1\<rparr>) s
      in upd_fd fd1 (\<lambda>d. d\<lparr>fd_file := Some f2\<rparr>) s)"

definition sys_pipe :: "env \<Rightarrow> nat \<Rightarrow> kst \<Rightarrow> (int \<times> kst) option" where
  "sys_pipe e buf s = sysret
     (bindE (fd_get 0 s) (\<lambda>fd0 s.
      bindE (fd_get (int fd0 + 1) s) (\<lambda>fd1 s.
      bindE (Some (file_get s)) (\<lambda>f1 s.
        case file_get s of
          (Inl err, s) \<Rightarrow> do { (_, s) \<leftarrow> file_put e f1 s; fail err s }
        | (Inr f2, s) \<Rightarrow>
            let sb = i_sb (inodes s (p_root (cur s))) in
            if s_ro (supers s sb) \<noteq> 0 then fail EROFS s
            else do {
              (r, s) \<leftarrow> alloc_inode sb s;
              (case r of
                 Inl err \<Rightarrow> do {
                   (_, s) \<leftarrow> file_put e f1 s;
                   (_, s) \<leftarrow> file_put e f2 s;
                   fail err s
                 }
               | Inr i \<Rightarrow> do {
                   (r, s) \<leftarrow> pipe_open e i O_RDWR (pipe_files i f1 f2 fd0 fd1 s);
                   (case r of
                      Inl err \<Rightarrow> put_both e fd0 fd1 err s
                    | Inr _ \<Rightarrow> do {
                        (r, s) \<leftarrow> tucpy buf (le32s [fd0, fd1]) s;
                        (case r of Inl err \<Rightarrow> put_both e fd0 fd1 err s | Inr _ \<Rightarrow> ret0 s)
                      })
                 })
            }))))"

section \<open>What the operations leave alone\<close>

context fs_frame begin

lemma iput_opt_keep [keep]: "obs s = v \<Longrightarrow> keeps v (iput_opt i s)"
  unfolding iput_opt_def by (intro keep; simp)

end

context um_frame begin

lemma on_fd_keep [keep]: "obs s = v \<Longrightarrow> (\<And>f. keep v (k f)) \<Longrightarrow> keep v (on_fd fd mode s k)"
  unfolding on_fd_def by (intro keep; simp)

lemma on_ino_keep [keep]: "(\<And>i. keep v (k i)) \<Longrightarrow> keep v (on_ino f s k)"
  unfolding on_ino_def by (intro keep; simp)

end

end
