(* ===== verification/Cstring.thy ===== *)
theory Cstring
  imports Prelude
begin

unbundle bit_operations_syntax

text \<open>
  The C string functions of \<open>lib/string\<close>. An argument is the list of the bytes from the
  pointer to the end of the object that it points into, so a string argument contains its
  terminating zero somewhere. A function that would go past the end of an object is
  \<open>None\<close>. A function that returns a pointer into its argument returns the offset, and
  \<open>Some None\<close> for the null pointer.
\<close>

section \<open>Reading\<close>

fun strlen :: "byte list \<Rightarrow> nat option" where
  "strlen [] = None"
| "strlen (c # cs) = (if c = 0 then Some 0 else map_option Suc (strlen cs))"

fun strchr :: "byte list \<Rightarrow> byte \<Rightarrow> nat option option" where
  "strchr [] c = None"
| "strchr (x # xs) c =
     (if x = c then Some (Some 0)
      else if x = 0 then Some None
      else map_option (map_option Suc) (strchr xs c))"

definition strrchr :: "byte list \<Rightarrow> byte \<Rightarrow> nat option option" where
  "strrchr s c = map_option (\<lambda>n. find (\<lambda>i. s ! i = c) (rev [0..<Suc n])) (strlen s)"

fun strcmp :: "byte list \<Rightarrow> byte list \<Rightarrow> int option" where
  "strcmp (a # as) (b # bs) =
     (if a < b then Some (-1) else if a > b then Some 1
      else if a = 0 then Some 0 else strcmp as bs)"
| "strcmp _ _ = None"

text \<open>\<open>strncmp\<close> compares plain, hence signed, characters.\<close>

fun strncmp :: "byte list \<Rightarrow> byte list \<Rightarrow> nat \<Rightarrow> int option" where
  "strncmp _ _ 0 = Some 0"
| "strncmp (a # as) (b # bs) (Suc n) =
     (if sint a < sint b then Some (-1) else if sint a > sint b then Some 1
      else if a = 0 then Some 0 else strncmp as bs n)"
| "strncmp _ _ (Suc n) = None"

fun memcmp :: "byte list \<Rightarrow> byte list \<Rightarrow> nat \<Rightarrow> int option" where
  "memcmp _ _ 0 = Some 0"
| "memcmp (a # as) (b # bs) (Suc n) =
     (if a < b then Some (-1) else if a > b then Some 1 else memcmp as bs n)"
| "memcmp _ _ (Suc n) = None"

text \<open>\<open>memchr\<close> returns its first argument, not the place where it found the character.\<close>

fun memchr :: "byte list \<Rightarrow> byte \<Rightarrow> nat \<Rightarrow> nat option option" where
  "memchr _ c 0 = Some None"
| "memchr (x # xs) c (Suc n) = (if x = c then Some (Some 0) else memchr xs c n)"
| "memchr [] c (Suc n) = None"

fun strspn :: "byte list \<Rightarrow> byte list \<Rightarrow> nat option" where
  "strspn [] accept = None"
| "strspn (x # xs) accept =
     (if x = 0 then Some 0
      else Option.bind (strchr accept x) (\<lambda>r.
        if r = None then Some 0 else map_option Suc (strspn xs accept)))"

fun strcspn :: "byte list \<Rightarrow> byte list \<Rightarrow> nat option" where
  "strcspn [] reject = None"
| "strcspn (x # xs) reject =
     (if x = 0 then Some 0
      else Option.bind (strchr reject x) (\<lambda>r.
        if r \<noteq> None then Some 0 else map_option Suc (strcspn xs reject)))"

text \<open>\<open>strpbrk\<close> stops at the first character that is \<^emph>\<open>not\<close> in \<open>accept\<close>.\<close>

fun strpbrk :: "byte list \<Rightarrow> byte list \<Rightarrow> nat option option" where
  "strpbrk [] accept = None"
| "strpbrk (x # xs) accept =
     (if x = 0 then Some None
      else Option.bind (strchr accept x) (\<lambda>r.
        if r = None then Some (Some 0) else map_option (map_option Suc) (strpbrk xs accept)))"

section \<open>Writing\<close>

text \<open>A function that writes returns the object \<open>dest\<close> as it is afterwards.\<close>

fun strcpy :: "byte list \<Rightarrow> byte list \<Rightarrow> byte list option" where
  "strcpy (d # ds) (c # cs) = (if c = 0 then Some (c # ds) else map_option ((#) c) (strcpy ds cs))"
| "strcpy _ _ = None"

definition memset :: "byte list \<Rightarrow> byte \<Rightarrow> nat \<Rightarrow> byte list option" where
  "memset dest c n = (if n \<le> length dest then Some (replicate n c @ drop n dest) else None)"

fun strncpy :: "byte list \<Rightarrow> byte list \<Rightarrow> nat \<Rightarrow> byte list option" where
  "strncpy ds _ 0 = Some ds"
| "strncpy (d # ds) (c # cs) (Suc n) =
     (if c = 0 then memset (d # ds) 0 (Suc n) else map_option ((#) c) (strncpy ds cs n))"
| "strncpy _ _ (Suc n) = None"

definition strcat :: "byte list \<Rightarrow> byte list \<Rightarrow> byte list option" where
  "strcat dest src = Option.bind (strlen dest) (\<lambda>n. map_option ((@) (take n dest)) (strcpy (drop n dest) src))"

definition strncat :: "byte list \<Rightarrow> byte list \<Rightarrow> nat \<Rightarrow> byte list option" where
  "strncat dest src k =
     Option.bind (strlen dest) (\<lambda>n. map_option ((@) (take n dest)) (strncpy (drop n dest) src k))"

fun memccpy :: "byte list \<Rightarrow> byte list \<Rightarrow> byte \<Rightarrow> nat \<Rightarrow> (nat option \<times> byte list) option" where
  "memccpy ds cs c 0 = Some (None, ds)"
| "memccpy (d # ds) (x # xs) c (Suc n) =
     (if x = c then Some (Some 0, x # ds)
      else map_option (\<lambda>(r, l). (map_option Suc r, x # l)) (memccpy ds xs c n))"
| "memccpy _ _ c (Suc n) = None"

text \<open>
  \<open>memmove\<close> moves \<open>n\<close> bytes inside one object: it copies upwards when the destination is
  below the source (\<open>memcpy\<close> is assembly code that does so) and downwards otherwise.
\<close>

definition copy_byte :: "nat \<Rightarrow> nat \<Rightarrow> nat \<Rightarrow> byte list \<Rightarrow> byte list" where
  "copy_byte dest src i m = m[dest + i := m ! (src + i)]"

definition memmove :: "byte list \<Rightarrow> nat \<Rightarrow> nat \<Rightarrow> nat \<Rightarrow> byte list option" where
  "memmove m dest src n =
     (if max dest src + n > length m then None
      else Some (foldl (\<lambda>m i. copy_byte dest src i m) m (if dest < src then [0..<n] else rev [0..<n])))"

text \<open>
  \<open>strtok\<close> keeps the place where it stopped: the state is the string object, and the
  offset in it. It returns the offset of the token. The second part of the definition is
  the call with a null pointer.
\<close>

definition strtok_next :: "byte list \<Rightarrow> nat \<Rightarrow> byte list \<Rightarrow> (nat option \<times> byte list \<times> nat) option" where
  "strtok_next obj p delim = do {
     k \<leftarrow> strspn (drop p obj) delim;
     let p = p + k;
     (if obj ! p = 0 then Some (None, obj, p)
      else do {
        l \<leftarrow> strcspn (drop p obj) delim;
        let q = p + l;
        Some (Some p, if obj ! q = 0 then (obj, q) else (obj[q := 0], q + 1))
      })
   }"

section \<open>Strings as values\<close>

text \<open>
  A kernel string whose object does not matter is the list of its characters, without the
  terminating zero; \<open>cstr\<close> is the object that holds just that string.
\<close>

definition cstr :: "byte list \<Rightarrow> byte list" where
  "cstr s = s @ [0]"

definition cname :: "byte list \<Rightarrow> byte list" where
  "cname l = takeWhile (\<lambda>c. c \<noteq> 0) l"

section \<open>What the functions compute\<close>

text \<open>A string argument: the object contains the terminating zero, or has at least \<open>n\<close> bytes.\<close>

definition bounded :: "nat \<Rightarrow> byte list \<Rightarrow> bool" where
  "bounded n l \<longleftrightarrow> n \<le> length l \<or> 0 \<in> set l"

lemma bounded_Cons [simp]: "bounded (Suc n) (c # l) \<longleftrightarrow> c = 0 \<or> bounded n l"
  by (auto simp: bounded_def)

lemma bounded_0 [simp]: "bounded 0 l" and bounded_Nil [simp]: "bounded n [] \<longleftrightarrow> n = 0"
  by (simp_all add: bounded_def)

lemma cname_simps [simp]: "cname [] = []" "cname (c # l) = (if c = 0 then [] else c # cname l)"
  by (simp_all add: cname_def)

lemma cname_cstr [simp]: "0 \<notin> set s \<Longrightarrow> cname (cstr s) = s"
  by (induction s) (simp_all add: cstr_def)

lemma cname_nonzero: "0 \<notin> set (cname l)"
  by (induction l) simp_all

lemma bounded_cstr [simp]: "bounded n (cstr s)"
  by (simp add: bounded_def cstr_def)

lemma strlen_cname: "0 \<in> set s \<Longrightarrow> strlen s = Some (length (cname s))"
  by (induction s) auto

lemma strchr_cname:
  assumes "0 \<in> set s" and "c \<noteq> 0"
  shows "strchr s c = Some (if c \<in> set (cname s) then Some (length (takeWhile (\<lambda>x. x \<noteq> c) s)) else None)"
  using assms by (induction s) auto

lemma strncmp_cname:
  "bounded n a \<Longrightarrow> bounded n b
     \<Longrightarrow> \<exists>r. strncmp a b n = Some r \<and> (r = 0 \<longleftrightarrow> take n (cname a) = take n (cname b))"
proof (induction a b n rule: strncmp.induct)
  case (2 a as b bs n)
  consider "sint a < sint b" | "sint a > sint b" | "a = b"
    using linorder_neqE [of "sint a" "sint b"] by (metis sint_uint signed_word_eqI)
  then show ?case
  proof cases
    case 3
    then show ?thesis using 2 by auto
  qed auto
qed auto

text \<open>
  Names are compared as strings: \<open>strncmp\<close> on two objects of at least \<open>n\<close> bytes,
  or with a terminating zero, reads nothing outside them, and it returns 0 exactly if the two
  strings agree in their first \<open>n\<close> characters.
\<close>

theorem strncmp_correct:
  assumes "bounded n a" and "bounded n b"
  shows "\<exists>r. strncmp a b n = Some r \<and> (r = 0 \<longleftrightarrow> take n (cname a) = take n (cname b))"
  using strncmp_cname [OF assms] .

theorem strncmp_correct_witness:
  "\<exists>r. strncmp [1, 2, 0, 9] (cstr [1, 2]) 4 = Some r \<and> (r = 0 \<longleftrightarrow> take 4 (cname [1, 2, 0, 9]) = take 4 (cname (cstr [1, 2])))"
  by (rule strncmp_correct) (simp_all add: bounded_def cstr_def)

section \<open>Moving bytes\<close>

lemma copy_up:
  assumes "k \<le> n" and "dest < src" and "src + n \<le> length m"
  shows "foldl (\<lambda>m i. copy_byte dest src i m) m [0..<k] = take dest m @ take k (drop src m) @ drop (dest + k) m"
  using assms(1)
proof (induction k)
  case (Suc k)
  let ?m = "take dest m @ take k (drop src m) @ drop (dest + k) m"
  have len: "dest + k < length m" "src + k < length m" using Suc.prems assms by simp_all
  have "?m ! (src + k) = m ! (src + k)"
    using len assms by (simp add: nth_append) (auto simp: min_def add.commute)
  moreover have "?m[dest + k := x] = take dest m @ take k (drop src m) @ [x] @ drop (dest + Suc k) m" for x
    using len assms by (simp add: list_update_append Cons_nth_drop_Suc [symmetric])
  moreover have "take (Suc k) (drop src m) = take k (drop src m) @ [m ! (src + k)]"
    using len by (simp add: take_Suc_conv_app_nth)
  ultimately show ?case using Suc by (simp add: copy_byte_def)
qed simp


lemma copy_down:
  assumes "k \<le> n" and "src \<le> dest" and "dest + n \<le> length m"
  shows "foldl (\<lambda>m i. copy_byte dest src i m) m (rev [k..<n])
     = take (dest + k) m @ take (n - k) (drop (src + k) m) @ drop (dest + n) m"
  using assms(1)
proof (induction rule: inc_induct)
  case (step k)
  let ?m = "take (dest + Suc k) m @ take (n - Suc k) (drop (src + Suc k) m) @ drop (dest + n) m"
  have len: "dest + k < length m" "src + k < length m" using step.hyps assms by simp_all
  have "?m ! (src + k) = m ! (src + k)"
    using len assms by (simp add: nth_append)
  moreover have "?m[dest + k := x] = take (dest + k) m @ [x] @ take (n - Suc k) (drop (src + Suc k) m) @ drop (dest + n) m" for x
    using len by (simp add: take_Suc_conv_app_nth list_update_append)
  moreover have "take (n - k) (drop (src + k) m) = m ! (src + k) # take (n - Suc k) (drop (src + Suc k) m)"
    using len step.hyps by (simp add: Cons_nth_drop_Suc [symmetric] take_Cons')
  ultimately show ?case using step by (simp add: copy_byte_def upt_rec [of k])
qed simp

text \<open>
  \<open>memmove\<close> moves the bytes as they were before the call, also when the source
  and the destination overlap, and leaves the rest of the object as it was.
\<close>

theorem memmove_correct:
  assumes "dest + n \<le> length m" and "src + n \<le> length m"
  shows "memmove m dest src n = Some (splice dest (take n (drop src m)) m)"
proof -
  have len: "length (take n (drop src m)) = n" using assms by simp
  show ?thesis
  proof (cases "dest < src")
    case True
    then show ?thesis using copy_up [of n n dest src m] assms
      by (simp add: memmove_def splice_def len del: length_take)
  next
    case False
    then show ?thesis using copy_down [of 0 n src dest m] assms
      by (simp add: memmove_def splice_def len del: length_take)
  qed
qed

theorem memmove_correct_witness:
  "memmove [1, 2, 3, 4, 5] 1 0 3 = Some (splice 1 (take 3 (drop 0 [1, 2, 3, 4, 5])) [1, 2, 3, 4, 5])
     \<and> splice 1 (take 3 (drop 0 [1, 2, 3, 4, 5])) [1, 2, 3, 4, 5] = [1, 1, 2, 3, 5 :: byte]"
  by (intro conjI memmove_correct) (simp_all add: splice_def)

section \<open>Two functions that do not do what their names say\<close>

text \<open>
  \<open>strpbrk\<close> finds the first character that is not in \<open>accept\<close>, where the C
  standard has it find the first one that is.
\<close>

theorem strpbrk_inverted:
  assumes "0 \<in> set s" and "0 \<in> set accept"
  shows "strpbrk s accept
     = Some (if set (cname s) \<subseteq> set (cname accept) then None
             else Some (length (takeWhile (\<lambda>c. c \<in> set (cname accept)) (cname s))))"
  using assms(1)
  by (induction s) (auto simp: strchr_cname [OF assms(2)])

theorem strpbrk_inverted_witness:
  "strpbrk (cstr [1, 2, 3]) (cstr [2]) = Some (Some 0)"
  using strpbrk_inverted [of "cstr [1, 2, 3]" "cstr [2]"] by (simp add: cstr_def)

end
