(* ===== verification/Dir.thy ===== *)
theory Dir
  imports File Cstring
begin

unbundle bit_operations_syntax

text \<open>
  Directories and paths, \<open>kern/fs/dir.c\<close>. A directory is a file of entries of 32 bytes: an
  inode number, 0 in a free entry, and a name of 28 characters that has no terminating
  zero when it is that long. \<open>struct dirpos\<close> is the buffer of the block and the number of
  the entry in it.
\<close>

section \<open>Entries\<close>

abbreviation (input) "DIRENTS \<equiv> (16::nat)" \<comment> \<open>\<open>BLK_SIZE / sizeof(struct dirent)\<close>\<close>

definition de_ino :: "byte list \<Rightarrow> nat \<Rightarrow> nat" where
  "de_ino b k = rd32 b (32 * k)"

definition de_name :: "byte list \<Rightarrow> nat \<Rightarrow> byte list" where
  "de_name b k = take NAME_MAX (drop (32 * k + 4) b)"

definition same_name :: "byte list \<Rightarrow> nat \<Rightarrow> byte list \<Rightarrow> bool" where
  "same_name b k name \<longleftrightarrow> strncmp (de_name b k) (cstr name) NAME_MAX = Some 0"

definition de_match :: "byte list \<Rightarrow> byte list \<Rightarrow> nat \<Rightarrow> bool" where
  "de_match b name k \<longleftrightarrow> de_ino b k \<noteq> 0 \<and> same_name b k name"

abbreviation (input) "DOT \<equiv> [0x2E :: byte]"
abbreviation (input) "DOTDOT \<equiv> [0x2E, 0x2E :: byte]"
abbreviation (input) "SLASH \<equiv> (0x2F :: byte)"

text \<open>The pointer \<open>dp.de\<close>: what the code stores through it.\<close>

definition upd_de :: "bref \<Rightarrow> nat \<Rightarrow> (byte list \<Rightarrow> byte list) \<Rightarrow> kst \<Rightarrow> kst" where
  "upd_de b k f = upd_buf b (\<lambda>buf. buf\<lparr>b_data := splice (32 * k) (f (take 32 (drop (32 * k) (b_data buf)))) (b_data buf),
     b_dirty := True\<rparr>)"

text \<open>\<open>de->d_ino = ino\<close>, and the name with \<open>strncpy\<close>; the name is a string and the entry has room.\<close>

definition de_set_ino :: "nat \<Rightarrow> byte list \<Rightarrow> byte list" where
  "de_set_ino ino de = le32 ino @ drop 4 de"

definition de_set_name :: "byte list \<Rightarrow> byte list \<Rightarrow> byte list" where
  "de_set_name name de =
     (case strncpy (drop 4 de) (cstr name) NAME_MAX of None \<Rightarrow> de | Some n \<Rightarrow> take 4 de @ n)"

section \<open>Searching a directory\<close>

partial_function (option) dir_find :: "nat \<Rightarrow> byte list \<Rightarrow> nat \<Rightarrow> kst \<Rightarrow> (bref \<times> nat) res" where
  "dir_find dir name n s =
     bindE (bmget dir n s) (\<lambda>b s.
       case b of
         None \<Rightarrow> fail ENOENT s
       | Some b \<Rightarrow>
           (case find (de_match (b_data (bufs s b)) name) [0..<DIRENTS] of
              Some k \<Rightarrow> Some (Inr (b, k), s)
            | None \<Rightarrow> Option.bind (blk_put b s) (dir_find dir name ((n + 1) mod 2 ^ 32))))"

definition dir_search :: "nat \<Rightarrow> byte list \<Rightarrow> kst \<Rightarrow> (bref \<times> nat) res" where
  "dir_search dir name s =
     bindE (check (inode_chkperm dir (R_OK OR X_OK) s) s) (\<lambda>_ s.
       if \<not> S_ISDIR (d_mode (i_d (inodes s dir))) then fail ENOTDIR s
       else dir_find dir name 0 s)"

definition dir_search_i :: "nat \<Rightarrow> byte list \<Rightarrow> kst \<Rightarrow> nat res" where
  "dir_search_i dir name s =
     (if name = [] then Some (Inr dir, inode_ref dir s)
      else if name = DOTDOT \<and> dir = p_root (cur s) then Some (Inr dir, inode_ref dir s)
      else
        let dir = (if name = DOTDOT then (case i_mnt_dir (inodes s dir) of None \<Rightarrow> dir | Some d \<Rightarrow> d) else dir) in
        bindE (dir_search dir name s) (\<lambda>(b, k) s. do {
          (r, s) \<leftarrow> inode_get (i_sb (inodes s dir)) (de_ino (b_data (bufs s b)) k) s;
          s \<leftarrow> blk_put b s;
          Some (r, s)
        }))"

section \<open>Making an entry\<close>

text \<open>
  The loop of \<open>dir_creat\<close> looks at all blocks for the name and remembers the first free
  entry, block \<open>fn\<close> and number \<open>fi\<close>; it returns that and the number of blocks.
\<close>

partial_function (option) dir_slot :: "nat \<Rightarrow> byte list \<Rightarrow> nat \<Rightarrow> (nat \<times> nat) option \<Rightarrow> kst
    \<Rightarrow> ((nat \<times> nat) option \<times> nat) res" where
  "dir_slot dir name n fr s =
     bindE (bmget dir n s) (\<lambda>b s.
       case b of
         None \<Rightarrow> Some (Inr (fr, n), s)
       | Some b \<Rightarrow>
           Option.bind (blk_put b s) (\<lambda>s'.
             if \<exists>k \<in> set [0..<DIRENTS]. de_match (b_data (bufs s b)) name k then fail EEXIST s'
             else dir_slot dir name ((n + 1) mod 2 ^ 32)
               (case fr of
                  Some f \<Rightarrow> Some f
                | None \<Rightarrow> map_option (Pair n) (find (\<lambda>k. de_ino (b_data (bufs s b)) k = 0) [0..<DIRENTS])) s'))"

definition dir_creat :: "nat \<Rightarrow> byte list \<Rightarrow> nat \<Rightarrow> kst \<Rightarrow> unit res" where
  "dir_creat dir name ino s =
     (if length name > p_namlen (cur s) then fail ENAMETOOLONG s
      else if name = [] then fail EINVAL s
      else if \<not> S_ISDIR (d_mode (i_d (inodes s dir))) then fail ENOTDIR s
      else
        bindE (dir_slot dir name 0 None s) (\<lambda>(fr, n) s.
        bindE (check (inode_chkperm dir W_OK s) s) (\<lambda>_ s.
          let (fn, fi) = (case fr of Some f \<Rightarrow> f | None \<Rightarrow> (n, 0));
              end = (fn * BLK_SIZE + (fi + 1) * 32) mod 2 ^ 32;
              s = (if end > unat (d_size (i_d (inodes s dir)))
                   then upd_inode dir (\<lambda>ip. ip\<lparr>i_dirty := 2, i_d := (i_d ip)\<lparr>d_size := of_nat end\<rparr>\<rparr>) s else s)
          in
            bindE (bmget_alloc dir fn s) (\<lambda>b s. do {
              s \<leftarrow> blk_put b (upd_de b fi (de_set_name name \<circ> de_set_ino ino) s);
              Some (Inr (), s)
            }))))"

section \<open>Paths\<close>

text \<open>
  \<open>dir_traverse\<close> walks a path. With \<open>parent\<close> it stops before the last component. It holds
  a reference to the directory it is in, which it does not give back when a component is
  too long.
\<close>

function dir_walk :: "nat \<Rightarrow> byte list \<Rightarrow> bool \<Rightarrow> kst \<Rightarrow> nat res" where
  "dir_walk c path parent s =
     (let name = takeWhile (\<lambda>x. x \<noteq> SLASH) path; more = SLASH \<in> set path in
      if \<not> more \<and> parent then Some (Inr c, s)
      else if length name > NAME_MAX then fail ENAMETOOLONG s
      else
        Option.bind (dir_search_i c name s) (\<lambda>(r, s).
        Option.bind (iput c s) (\<lambda>s.
          case r of
            Inl e \<Rightarrow> fail e s
          | Inr n \<Rightarrow>
              if more then dir_walk n (drop (length name + 1) path) parent s else Some (Inr n, s))))"
  by pat_completeness auto
termination
  by (relation "measure (\<lambda>(c, path, _). length path)") (auto dest: length_pos_if_in_set intro!: diff_less)

definition dir_traverse :: "byte list \<Rightarrow> bool \<Rightarrow> kst \<Rightarrow> nat res" where
  "dir_traverse path parent s =
     (let (c, path) = (if path \<noteq> [] \<and> hd path = SLASH then (p_root (cur s), tl path) else (p_cwd (cur s), path))
      in dir_walk c path parent (inode_ref c s))"

section \<open>Other operations\<close>

partial_function (option) dir_empty_from :: "nat \<Rightarrow> nat \<Rightarrow> kst \<Rightarrow> unit res" where
  "dir_empty_from dir n s =
     bindE (bmget dir n s) (\<lambda>b s.
       case b of
         None \<Rightarrow> Some (Inr (), s)
       | Some b \<Rightarrow>
           Option.bind (blk_put b s) (\<lambda>s'.
             if \<exists>k \<in> set [0..<DIRENTS]. \<not> same_name (b_data (bufs s b)) k DOT
                  \<and> \<not> same_name (b_data (bufs s b)) k DOTDOT \<and> de_ino (b_data (bufs s b)) k \<noteq> 0
             then fail ENOTEMPTY s'
             else dir_empty_from dir ((n + 1) mod 2 ^ 32) s'))"

definition dir_isempty :: "nat \<Rightarrow> kst \<Rightarrow> unit res" where
  "dir_isempty dir s =
     (if \<not> S_ISDIR (d_mode (i_d (inodes s dir))) then fail ENOTDIR s else dir_empty_from dir 0 s)"

definition dir_reparent :: "nat \<Rightarrow> nat \<Rightarrow> kst \<Rightarrow> unit res" where
  "dir_reparent dir ino s =
     bindE (check (inode_chkperm dir (W_OK OR X_OK) s) s) (\<lambda>_ s.
       if \<not> S_ISDIR (d_mode (i_d (inodes s dir))) then fail ENOTDIR s
       else bindE (bmget dir 0 s) (\<lambda>b s.
         case b of
           None \<Rightarrow> fail EINVAL s
         | Some b \<Rightarrow>
             (case find (\<lambda>k. same_name (b_data (bufs s b)) k DOTDOT) [0..<DIRENTS] of
                None \<Rightarrow> Option.bind (blk_put b s) (fail EINVAL)
              | Some k \<Rightarrow> do {
                  s \<leftarrow> blk_put b (upd_buf b (\<lambda>buf. buf\<lparr>b_valid := True\<rparr>) (upd_de b k (de_set_ino ino) s));
                  Some (Inr (), s)
                })))"

section \<open>What the operations leave alone\<close>

context fs_frame begin

lemma obs_upd_de [simp]: "obs (upd_de b k f s) = obs s"
  by (simp add: upd_de_def)

lemma dir_find_keep [keep]: "obs s = v \<Longrightarrow> keep v (dir_find dir name n s)"
proof (rule keepI)
  fix r assume "dir_find dir name n s = Some r" and "obs s = v"
  then show "obs (snd r) = v"
  proof (induction rule: dir_find.raw_induct [rotated, consumes 1, case_names step])
    case (step f dir name n s r)
    have [keep]: "keep v (f dir name n s)" if "obs s = v" for dir name n s
      using step.IH that by (blast intro: keepI)
    show ?case
      by (rule keep_snd [OF _ step.hyps]) (intro keep; simp add: step.prems)
  qed
qed

lemma dir_search_keep [keep]: "obs s = v \<Longrightarrow> keep v (dir_search dir name s)"
  unfolding dir_search_def by (intro keep; simp)

lemma dir_search_i_keep [keep]: "obs s = v \<Longrightarrow> keep v (dir_search_i dir name s)"
  unfolding dir_search_i_def by (intro keep; simp split: sum.splits option.splits)

lemma dir_slot_keep [keep]: "obs s = v \<Longrightarrow> keep v (dir_slot dir name n fr s)"
proof (rule keepI)
  fix r assume "dir_slot dir name n fr s = Some r" and "obs s = v"
  then show "obs (snd r) = v"
  proof (induction rule: dir_slot.raw_induct [rotated, consumes 1, case_names step])
    case (step f dir name n fr s r)
    have [keep]: "keep v (f dir name n fr s)" if "obs s = v" for dir name n fr s
      using step.IH that by (blast intro: keepI)
    show ?case
      by (rule keep_snd [OF _ step.hyps]) (intro keep; simp add: step.prems)
  qed
qed

lemma dir_creat_keep [keep]: "obs s = v \<Longrightarrow> keep v (dir_creat dir name ino s)"
  unfolding dir_creat_def by (intro keep; simp)

lemma dir_walk_keep [keep]: "obs s = v \<Longrightarrow> keep v (dir_walk c path parent s)"
proof (induction "length path" arbitrary: c path s rule: less_induct)
  case (less path c s)
  have drop: "length (drop (Suc n) path) < length path" if "SLASH \<in> set path" for n
    using that by (auto dest: length_pos_if_in_set intro!: diff_less)
  show ?case by (subst dir_walk.simps) (intro keep less.hyps; simp add: less.prems drop del: length_drop)
qed

lemma dir_traverse_keep [keep]: "obs s = v \<Longrightarrow> keep v (dir_traverse path parent s)"
  unfolding dir_traverse_def by (intro keep; simp)

lemma dir_empty_from_keep [keep]: "obs s = v \<Longrightarrow> keep v (dir_empty_from dir n s)"
proof (rule keepI)
  fix r assume "dir_empty_from dir n s = Some r" and "obs s = v"
  then show "obs (snd r) = v"
  proof (induction rule: dir_empty_from.raw_induct [rotated, consumes 1, case_names step])
    case (step f dir n s r)
    have [keep]: "keep v (f dir n s)" if "obs s = v" for dir n s
      using step.IH that by (blast intro: keepI)
    show ?case
      by (rule keep_snd [OF _ step.hyps]) (intro keep; simp add: step.prems)
  qed
qed

lemma dir_isempty_keep [keep]: "obs s = v \<Longrightarrow> keep v (dir_isempty dir s)"
  and dir_reparent_keep [keep]: "obs s = v \<Longrightarrow> keep v (dir_reparent dir ino s)"
  unfolding dir_isempty_def dir_reparent_def by (intro keep; simp)+

end

end
