(* ===== verification/Mknod.thy ===== *)
theory Mknod
  imports Dir
begin

unbundle bit_operations_syntax

text \<open>
  The operations on names, \<open>kern/fs/mknod.c\<close>: making, linking, renaming and removing files
  and directories, and their system calls.
\<close>

section \<open>Helpers\<close>

abbreviation i_mode :: "kst \<Rightarrow> nat \<Rightarrow> 16 word" where
  "i_mode s i \<equiv> d_mode (i_d (inodes s i))"

definition upd_mode :: "nat \<Rightarrow> 16 word \<Rightarrow> kst \<Rightarrow> kst" where
  "upd_mode i m = upd_inode i (\<lambda>ip. ip\<lparr>i_d := (i_d ip)\<lparr>d_mode := m\<rparr>\<rparr>)"

definition set_dirty :: "nat \<Rightarrow> nat \<Rightarrow> kst \<Rightarrow> kst" where
  "set_dirty i n = upd_inode i (\<lambda>ip. ip\<lparr>i_dirty := n\<rparr>)"

definition add_nlink :: "nat \<Rightarrow> 16 word \<Rightarrow> kst \<Rightarrow> kst" where
  "add_nlink i n = upd_inode i (\<lambda>ip. ip\<lparr>i_d := (i_d ip)\<lparr>d_nlink := d_nlink (i_d ip) + n\<rparr>\<rparr>)"

text \<open>
  The end of a function that gives back what it holds and returns its result,
  \<open>fail: inode_put(...); return err;\<close>
\<close>

definition cleanup :: "'a res \<Rightarrow> (kst \<Rightarrow> kst option) \<Rightarrow> 'a res" where
  "cleanup m f = Option.bind m (\<lambda>(r, s). map_option (Pair r) (f s))"

definition sticky :: "nat \<Rightarrow> nat \<Rightarrow> kst \<Rightarrow> errno option" where
  "sticky dir i s =
     (if i_mode s dir AND 0x200 = 0 then None
      else if p_euid (cur s) = 0 then None
      else if same_id (p_euid (cur s)) (d_uid (i_d (inodes s i))) then None
      else Some EPERM)"

definition basename :: "byte list \<Rightarrow> byte list" where
  "basename path =
     (case strrchr (cstr path) SLASH of
        Some (Some k) \<Rightarrow> drop (k + 1) path
      | _ \<Rightarrow> path)"

section \<open>Making\<close>

text \<open>
  \<open>do_mknod\<close> returns 0 whatever happens: after \<open>dir_traverse\<close>, its errors end at the
  label \<open>fail\<close>, which is followed by \<open>return 0\<close>.
\<close>

definition mode16 :: "32 word \<Rightarrow> 16 word" where
  "mode16 m = ucast m"

definition do_mknod :: "byte list \<Rightarrow> 32 word \<Rightarrow> 32 word \<Rightarrow> kst \<Rightarrow> unit res" where
  "do_mknod path mode dev s =
     (if p_euid (cur s) \<noteq> 0 \<and> mode AND 0xF000 \<noteq> 0x8000 \<and> mode AND 0xF000 \<noteq> 0x1000 then fail EPERM s
      else do {
        (r, s) \<leftarrow> dir_traverse path True s;
        (case r of
           Inl _ \<Rightarrow> Some (Inr (), s)
         | Inr dir \<Rightarrow> do {
             (r, s) \<leftarrow> alloc_inode (i_sb (inodes s dir)) s;
             (case r of
                Inl _ \<Rightarrow> cleanup (Some (Inr (), s)) (iput dir)
              | Inr i \<Rightarrow> do {
                  (r, s) \<leftarrow> dir_creat dir (basename path) (i_ino (inodes s i)) s;
                  let s = (case r of
                             Inl _ \<Rightarrow> s
                           | Inr _ \<Rightarrow> upd_inode i (\<lambda>ip. ip\<lparr>i_dirty := 2, i_d := (i_d ip)\<lparr>
                               d_mode := mode16 (mode AND NOT (p_umask (cur s))), d_rdev := ucast dev,
                               d_nlink := 1\<rparr>\<rparr>) s);
                  s \<leftarrow> iput dir s;
                  cleanup (Some (Inr (), s)) (iput i)
                })
           })
      })"

definition do_mkdir :: "byte list \<Rightarrow> 32 word \<Rightarrow> kst \<Rightarrow> unit res" where
  "do_mkdir path mode s =
     bindE (dir_traverse path True s) (\<lambda>dir s.
       if unat (d_nlink (i_d (inodes s dir))) \<ge> NLINK_MAX then cleanup (fail EMLINK s) (iput dir)
       else do {
         (r, s) \<leftarrow> alloc_inode (i_sb (inodes s dir)) s;
         (case r of
            Inl err \<Rightarrow> cleanup (fail err s) (iput dir)
          | Inr i \<Rightarrow>
              let s = set_dirty i 2 (upd_mode i (S_IFDIR OR mode16 (mode AND 0xFFF AND NOT (p_umask (cur s)))) s);
                  ino = i_ino (inodes s i)
              in cleanup
                (bindE (dir_creat i DOT ino s) (\<lambda>_ s.
                 bindE (dir_creat i DOTDOT (i_ino (inodes s dir)) s) (\<lambda>_ s.
                 bindE (dir_creat dir (basename path) ino s) (\<lambda>_ s.
                   let s = set_dirty dir 1 (add_nlink dir 1 s)
                   in Some (Inr (), upd_inode i (\<lambda>ip. ip\<lparr>i_dirty := 2, i_d := (i_d ip)\<lparr>d_nlink := 2\<rparr>\<rparr>) s)))))
                (\<lambda>s. Option.bind (iput i s) (iput dir)))
       })"

section \<open>Removing\<close>

text \<open>
  \<open>spec\<close> says what to do with a directory: 0 refuses, 1 is \<open>rmdir\<close>, 2 lets the super
  user unlink it.
\<close>

definition do_unlink :: "byte list \<Rightarrow> nat \<Rightarrow> kst \<Rightarrow> unit res" where
  "do_unlink name spec s =
     bindE (dir_traverse name True s) (\<lambda>dir s. do {
       (r, s) \<leftarrow> dir_search dir (basename name) s;
       (case r of
          Inl err \<Rightarrow> cleanup (fail err s) (iput dir)
        | Inr (b, k) \<Rightarrow>
            (case inode_chkperm dir W_OK s of
               Some err \<Rightarrow> cleanup (fail err s) (\<lambda>s. Option.bind (blk_put b s) (iput dir))
             | None \<Rightarrow> do {
                 (r, s) \<leftarrow> inode_get (i_sb (inodes s dir)) (de_ino (b_data (bufs s b)) k) s;
                 (case r of
                    Inl err \<Rightarrow> cleanup (fail err s) (\<lambda>s. Option.bind (blk_put b s) (iput dir))
                  | Inr i \<Rightarrow>
                      cleanup
                        (if i_sb (inodes s i) \<noteq> i_sb (inodes s dir) then fail EXDEV s
                         else bindE (check (sticky dir i s) s) (\<lambda>_ s.
                           if S_ISDIR (i_mode s i) \<and> (spec = 0 \<or> spec = 2 \<and> p_euid (cur s) \<noteq> 0) then fail EISDIR s
                           else
                             let s = (if S_ISDIR (i_mode s i) \<and> spec = 1
                                      then set_dirty dir 2 (add_nlink dir (-1) (add_nlink i (-1) (upd_mode i S_IFREG s)))
                                      else s);
                                 s = set_dirty i 2 (add_nlink i (-1) s)
                             in Some (Inr (), upd_de b k (\<lambda>_. replicate 32 0) s)))
                        (\<lambda>s. do { s \<leftarrow> blk_put b s; s \<leftarrow> iput dir s; iput i s }))
               }))
     })"

definition do_rmdir :: "byte list \<Rightarrow> kst \<Rightarrow> unit res" where
  "do_rmdir path s =
     (if basename path = DOT then fail EPERM s
      else bindE (dir_traverse path False s) (\<lambda>i s. do {
        (r, s) \<leftarrow> dir_isempty i s;
        s \<leftarrow> iput i s;
        (case r of Inl err \<Rightarrow> fail err s | Inr _ \<Rightarrow> do_unlink path 1 s)
      }))"

section \<open>Linking and renaming\<close>

definition do_link :: "byte list \<Rightarrow> byte list \<Rightarrow> nat \<Rightarrow> kst \<Rightarrow> unit res" where
  "do_link name1 name2 spec s =
     bindE (dir_traverse name1 False s) (\<lambda>i s.
       if unat (d_nlink (i_d (inodes s i))) \<ge> NLINK_MAX then cleanup (fail EMLINK s) (iput i)
       else if S_ISDIR (i_mode s i) \<and> (spec = 0 \<or> p_euid (cur s) \<noteq> 0) then cleanup (fail EISDIR s) (iput i)
       else do {
         (r, s) \<leftarrow> dir_traverse name2 True s;
         (case r of
            Inl err \<Rightarrow> cleanup (fail err s) (iput i)
          | Inr dir \<Rightarrow>
              cleanup
                (if i_sb (inodes s i) \<noteq> i_sb (inodes s dir) then fail EXDEV s
                 else bindE (check (sticky dir i s) s) (\<lambda>_ s.
                   bindE (dir_creat dir (basename name2) (i_ino (inodes s i)) s) (\<lambda>_ s.
                     Some (Inr (), set_dirty i 2 (add_nlink i 1 s)))))
                (\<lambda>s. Option.bind (iput i s) (iput dir)))
       })"

text \<open>
  \<open>do_rename\<close> holds up to four inodes and two directory entries, in local variables that
  start as null pointers; its label \<open>ret\<close> gives back those that are not null. They are the
  record \<open>held\<close>, and every step returns it also with an error.
\<close>

record held =
  h_dir1 :: "nat option"
  h_dir2 :: "nat option"
  h_ino1 :: "nat option"
  h_ino2 :: "nat option"
  h_dp1 :: "bref option"
  h_dp2 :: "bref option"

definition put_held :: "held \<Rightarrow> kst \<Rightarrow> kst option" where
  "put_held h s = do {
     s \<leftarrow> iput_opt (h_dir1 h) s;
     s \<leftarrow> iput_opt (h_dir2 h) s;
     s \<leftarrow> iput_opt (h_ino1 h) s;
     s \<leftarrow> iput_opt (h_ino2 h) s;
     s \<leftarrow> (case h_dp1 h of None \<Rightarrow> Some s | Some b \<Rightarrow> blk_put b s);
     (case h_dp2 h of None \<Rightarrow> Some s | Some b \<Rightarrow> blk_put b s)
   }"

text \<open>\<open>err = m; if (err) goto ret;\<close> with the variables of the time of the jump\<close>

definition or_ret :: "held \<Rightarrow> 'a res \<Rightarrow> ('a \<Rightarrow> kst \<Rightarrow> unit res) \<Rightarrow> unit res" where
  "or_ret h m f = Option.bind m (\<lambda>(r, s). case r of Inl err \<Rightarrow> cleanup (fail err s) (put_held h) | Inr x \<Rightarrow> f x s)"

text \<open>
  The end of the function, with the entry \<open>dp1\<close> in its directory, buffer \<open>b1\<close> and number
  \<open>k1\<close>: an error of \<open>dir_creat\<close> other than \<open>EEXIST\<close> is still in \<open>err\<close> here, and the old
  name is removed all the same.
\<close>

definition rename_end :: "held \<Rightarrow> (errno + unit) \<Rightarrow> nat \<Rightarrow> nat \<Rightarrow> bref \<Rightarrow> nat \<Rightarrow> kst \<Rightarrow> unit res" where
  "rename_end h err dir2 ino1 b1 k1 s = do {
     (err, s) \<leftarrow> (if S_ISDIR (i_mode s ino1) then dir_reparent ino1 (i_ino (inodes s dir2)) s else Some (err, s));
     cleanup (Some (err, upd_de b1 k1 (\<lambda>_. replicate 32 0) s)) (put_held h)
   }"

text \<open>The branch in which the new name exists.\<close>

definition rename_over :: "held \<Rightarrow> byte list \<Rightarrow> nat \<Rightarrow> nat \<Rightarrow> bref \<Rightarrow> nat \<Rightarrow> kst \<Rightarrow> unit res" where
  "rename_over h base2 dir2 ino1 b1 k1 s =
     or_ret h (dir_search dir2 base2 s) (\<lambda>(b2, k2) s.
       let h = h\<lparr>h_dp2 := Some b2\<rparr> in
       or_ret h (inode_get (i_sb (inodes s dir2)) (de_ino (b_data (bufs s b2)) k2) s) (\<lambda>ino2 s.
         let h = h\<lparr>h_ino2 := Some ino2\<rparr> in
         if i_ino (inodes s ino2) = i_ino (inodes s ino1) \<and> i_sb (inodes s ino2) = i_sb (inodes s ino1)
         then cleanup (Some (Inr (), s)) (put_held h)
         else if S_ISDIR (i_mode s ino2) then cleanup (fail EISDIR s) (put_held h)
         else or_ret h (check (sticky dir2 ino2 s) s) (\<lambda>_ s.
           let s = set_dirty ino2 2 (add_nlink ino2 (-1) s);
               s = upd_de b2 k2 (de_set_name base2 \<circ> de_set_ino (de_ino (b_data (bufs s b1)) k1)) s
           in rename_end h (Inr ()) dir2 ino1 b1 k1 s)))"

definition do_rename :: "byte list \<Rightarrow> byte list \<Rightarrow> kst \<Rightarrow> unit res" where
  "do_rename name1 name2 s =
     (if basename name1 \<in> {DOT, DOTDOT} \<or> basename name2 \<in> {DOT, DOTDOT} then fail EINVAL s
      else
        let h = \<lparr>h_dir1 = None, h_dir2 = None, h_ino1 = None, h_ino2 = None, h_dp1 = None, h_dp2 = None\<rparr> in
        or_ret h (dir_traverse name1 True s) (\<lambda>dir1 s.
        let h = h\<lparr>h_dir1 := Some dir1\<rparr> in
        or_ret h (check (inode_chkperm dir1 W_OK s) s) (\<lambda>_ s.
        or_ret h (dir_traverse name2 True s) (\<lambda>dir2 s.
        let h = h\<lparr>h_dir2 := Some dir2\<rparr> in
        or_ret h (check (inode_chkperm dir2 W_OK s) s) (\<lambda>_ s.
        if i_sb (inodes s dir1) \<noteq> i_sb (inodes s dir2) then cleanup (fail EXDEV s) (put_held h)
        else or_ret h (dir_search dir1 (basename name1) s) (\<lambda>(b1, k1) s.
        let h = h\<lparr>h_dp1 := Some b1\<rparr> in
        or_ret h (inode_get (i_sb (inodes s dir1)) (de_ino (b_data (bufs s b1)) k1) s) (\<lambda>ino1 s.
        let h = h\<lparr>h_ino1 := Some ino1\<rparr> in
        if i_sb (inodes s dir1) \<noteq> i_sb (inodes s ino1) then cleanup (fail EXDEV s) (put_held h)
        else or_ret h (check (sticky dir1 ino1 s) s) (\<lambda>_ s. do {
          (r, s) \<leftarrow> dir_creat dir2 (basename name2) (i_ino (inodes s ino1)) s;
          (if r = Inl EEXIST then rename_over h (basename name2) dir2 ino1 b1 k1 s
           else rename_end h r dir2 ino1 b1 k1 s)
        }))))))))"

section \<open>System calls\<close>

definition sys_mknod :: "nat \<Rightarrow> 32 word \<Rightarrow> 32 word \<Rightarrow> kst \<Rightarrow> (int \<times> kst) option" where
  "sys_mknod path mode dev s = sysret
     (bindE (fustr path PATH_MAX s) (\<lambda>lpath s. bindE (do_mknod lpath mode dev s) (\<lambda>_ s. ret0 s)))"

definition sys_mkdir :: "nat \<Rightarrow> 32 word \<Rightarrow> kst \<Rightarrow> (int \<times> kst) option" where
  "sys_mkdir path mode s = sysret
     (bindE (fustr path PATH_MAX s) (\<lambda>lpath s. bindE (do_mkdir lpath mode s) (\<lambda>_ s. ret0 s)))"

definition sys_rmdir :: "nat \<Rightarrow> kst \<Rightarrow> (int \<times> kst) option" where
  "sys_rmdir path s = sysret
     (bindE (fustr path PATH_MAX s) (\<lambda>lpath s. bindE (do_rmdir lpath s) (\<lambda>_ s. ret0 s)))"

definition sys_unlink :: "nat \<Rightarrow> kst \<Rightarrow> (int \<times> kst) option" where
  "sys_unlink path s = sysret
     (bindE (fustr path PATH_MAX s) (\<lambda>lname s. bindE (do_unlink lname (p_linkmode (cur s)) s) (\<lambda>_ s. ret0 s)))"

definition sys_link :: "nat \<Rightarrow> nat \<Rightarrow> kst \<Rightarrow> (int \<times> kst) option" where
  "sys_link name1 name2 s = sysret
     (bindE (fustr name1 PATH_MAX s) (\<lambda>lname1 s.
      bindE (fustr name2 PATH_MAX s) (\<lambda>lname2 s.
      bindE (do_link lname1 lname2 (p_linkmode (cur s)) s) (\<lambda>_ s. ret0 s))))"

definition sys_rename :: "nat \<Rightarrow> nat \<Rightarrow> kst \<Rightarrow> (int \<times> kst) option" where
  "sys_rename name1 name2 s = sysret
     (bindE (fustr name1 PATH_MAX s) (\<lambda>lname1 s.
      bindE (fustr name2 PATH_MAX s) (\<lambda>lname2 s.
      bindE (do_rename lname1 lname2 s) (\<lambda>_ s. ret0 s))))"

definition sys_umask :: "32 word \<Rightarrow> kst \<Rightarrow> (int \<times> kst) option" where
  "sys_umask m s = Some (uint (p_umask (cur s)), upd_curr (\<lambda>c. c\<lparr>p_umask := m AND 0x1FF\<rparr>) s)"

section \<open>What the operations leave alone\<close>

context frame begin

lemma cleanup_keep [keep]: "keep v m \<Longrightarrow> (\<And>s. obs s = v \<Longrightarrow> keeps v (f s)) \<Longrightarrow> keep v (cleanup m f)"
  unfolding cleanup_def by (intro keep; simp)

end

context fs_frame begin

lemma obs_names [simp]: "obs (upd_mode i m s) = obs s" "obs (set_dirty i n s) = obs s" "obs (add_nlink i k s) = obs s"
  by (simp_all add: upd_mode_def set_dirty_def add_nlink_def)

lemma do_mknod_keep [keep]: "obs s = v \<Longrightarrow> keep v (do_mknod path mode dev s)"
  unfolding do_mknod_def by (intro keep; simp split: sum.splits option.splits)

lemma do_mkdir_keep [keep]: "obs s = v \<Longrightarrow> keep v (do_mkdir path mode s)"
  unfolding do_mkdir_def by (intro keep; simp)

lemma do_unlink_keep [keep]: "obs s = v \<Longrightarrow> keep v (do_unlink name spec s)"
  unfolding do_unlink_def by (intro keep; simp)

lemma do_rmdir_keep [keep]: "obs s = v \<Longrightarrow> keep v (do_rmdir path s)"
  unfolding do_rmdir_def by (intro keep; simp)

lemma do_link_keep [keep]: "obs s = v \<Longrightarrow> keep v (do_link name1 name2 spec s)"
  unfolding do_link_def by (intro keep; simp)

lemma put_held_keep [keep]: "obs s = v \<Longrightarrow> keeps v (put_held h s)"
  unfolding put_held_def by (intro keep; simp)

lemma or_ret_keep [keep]: "keep v m \<Longrightarrow> (\<And>x s. obs s = v \<Longrightarrow> keep v (f x s)) \<Longrightarrow> keep v (or_ret h m f)"
  unfolding or_ret_def by (intro keep; simp)

lemma rename_end_keep [keep]: "obs s = v \<Longrightarrow> keep v (rename_end h err dir2 ino1 b1 k1 s)"
  unfolding rename_end_def by (intro keep; simp)

lemma rename_over_keep [keep]: "obs s = v \<Longrightarrow> keep v (rename_over h base2 dir2 ino1 b1 k1 s)"
  unfolding rename_over_def by (intro keep; simp)

lemma do_rename_keep [keep]: "obs s = v \<Longrightarrow> keep v (do_rename name1 name2 s)"
  unfolding do_rename_def by (intro keep; simp)

end

context um_frame begin

lemma mknod_calls_keep [keep]:
  "obs s = v \<Longrightarrow> keep v (sys_mknod p m d s)" "obs s = v \<Longrightarrow> keep v (sys_mkdir p m s)"
  "obs s = v \<Longrightarrow> keep v (sys_rmdir p s)" "obs s = v \<Longrightarrow> keep v (sys_unlink p s)"
  "obs s = v \<Longrightarrow> keep v (sys_link p q s)" "obs s = v \<Longrightarrow> keep v (sys_rename p q s)"
  unfolding sys_mknod_def sys_mkdir_def sys_rmdir_def sys_unlink_def sys_link_def sys_rename_def
  by (intro keep; simp)+

end

end
