(* ===== verification/Rw.thy ===== *)
theory Rw
  imports Mknod
begin

unbundle bit_operations_syntax

text \<open>
  Reading and writing, \<open>kern/fs/rw.c\<close>. \<open>off_t\<close> is signed and \<open>size_t\<close> is not, so that the
  sums and comparisons of the two are of unsigned 32-bit numbers. The four functions that
  transfer data have the same loop: it cuts the range into pieces that lie in one block.
\<close>

abbreviation (input) "MAXFSZ \<equiv> (211845120::nat)" \<comment> \<open>\<open>(64 + 32 * 128 + 25 * 128 * 128) * 512\<close>\<close>
abbreviation (input) "MAXOFF \<equiv> (0x80000000::nat)"

section \<open>Regular files and block devices\<close>

text \<open>
  \<open>xfer blk off l buf\<close> moves one piece, \<open>l\<close> bytes at \<open>off\<close> in block \<open>blk\<close>. The loop returns
  the position after the last piece. A negative position does not come from the system
  calls, which refuse it.
\<close>

function rw_loop :: "(nat \<Rightarrow> nat \<Rightarrow> nat \<Rightarrow> nat \<Rightarrow> kst \<Rightarrow> unit res) \<Rightarrow> nat \<Rightarrow> nat \<Rightarrow> nat \<Rightarrow> kst \<Rightarrow> nat res" where
  "rw_loop xfer buf count pos s =
     (if count = 0 then Some (Inr pos, s)
      else
        let l = min (BLK_SIZE - pos mod BLK_SIZE) count in
        bindE (xfer (pos div BLK_SIZE) (pos mod BLK_SIZE) l buf s) (\<lambda>_ s.
          rw_loop xfer ((buf + l) mod 2 ^ 32) (count - l) (pos + l) s))"
  by pat_completeness auto
termination
  by (relation "measure (\<lambda>(_, _, count, _, _). count)") auto

definition rw_all :: "(nat \<Rightarrow> nat \<Rightarrow> nat \<Rightarrow> nat \<Rightarrow> kst \<Rightarrow> unit res) \<Rightarrow> rwreq \<Rightarrow> kst \<Rightarrow> rwreq res" where
  "rw_all xfer req s =
     (if sint (rw_start req) < 0 then None
      else bindE (rw_loop xfer (rw_buf req) (rw_count req) (unat (rw_start req)) s) (\<lambda>pos s.
        Some (Inr (req\<lparr>rw_start := of_nat pos\<rparr>), s)))"

text \<open>A hole reads as zeroes; the result of the \<open>uset\<close> that writes them is ignored.\<close>

definition reg_get :: "nat \<Rightarrow> nat \<Rightarrow> nat \<Rightarrow> nat \<Rightarrow> nat \<Rightarrow> kst \<Rightarrow> unit res" where
  "reg_get i blk off l buf s =
     bindE (bmap i blk s) (\<lambda>b s.
       if b \<noteq> 0 then blk_upread (i_dev s i) b off l buf s
       else map_option (\<lambda>(_, s). (Inr (), s)) (uset buf 0 l s))"

definition reg_read :: "rwreq \<Rightarrow> kst \<Rightarrow> rwreq res" where
  "reg_read req s =
     (let i = rw_ino req; size = d_size (i_d (inodes s i)); pos = rw_start req in
      if sint pos > sint size then Some (Inr (req\<lparr>rw_count := 0\<rparr>), s)
      else
        let req = (if (rw_count req + unat pos) mod 2 ^ 32 > unat size
                   then req\<lparr>rw_count := unat (size - pos)\<rparr> else req)
        in rw_all (reg_get i) req s)"

definition reg_set :: "nat \<Rightarrow> nat \<Rightarrow> nat \<Rightarrow> nat \<Rightarrow> nat \<Rightarrow> kst \<Rightarrow> unit res" where
  "reg_set i blk off l buf s =
     bindE (bmap_alloc i blk s) (\<lambda>b s.
       if b \<noteq> 0 then blk_upwrite (i_dev s i) b off l buf s
       else map_option (\<lambda>(_, s). (Inr (), s)) (uset buf 0 l s))"

text \<open>The size grows before the blocks are allocated, and stays so when that fails.\<close>

definition reg_write :: "rwreq \<Rightarrow> kst \<Rightarrow> rwreq res" where
  "reg_write req s =
     (let i = rw_ino req; end = (rw_count req + unat (rw_start req)) mod 2 ^ 32 in
      if end > (p_fslimit (cur s) * BLK_SIZE) mod 2 ^ 32 then fail EFBIG s
      else if end > MAXFSZ then fail EFBIG s
      else
        let s = (if end > unat (d_size (i_d (inodes s i)))
                 then upd_inode i (\<lambda>ip. ip\<lparr>i_dirty := 2, i_d := (i_d ip)\<lparr>d_size := of_nat end\<rparr>\<rparr>) s else s)
        in rw_all (reg_set i) req s)"

definition blk_lread :: "rwreq \<Rightarrow> kst \<Rightarrow> rwreq res" where
  "blk_lread req s =
     rw_all (\<lambda>blk off l buf s. blk_upread (i_rdev s (rw_ino req)) blk off l buf s) req s"

definition blk_lwrite :: "rwreq \<Rightarrow> kst \<Rightarrow> rwreq res" where
  "blk_lwrite req s =
     rw_all (\<lambda>blk off l buf s. blk_upwrite (i_rdev s (rw_ino req)) blk off l buf s) req s"

definition blk_ioctl :: "env \<Rightarrow> nat \<Rightarrow> int \<Rightarrow> nat \<Rightarrow> kst \<Rightarrow> unit res" where
  "blk_ioctl e i cmd p s =
     (let m = major (i_rdev s i) in
      if m \<ge> MAXBDEVS then fail ENXIO s
      else case e_blk_ioctl e m of None \<Rightarrow> fail ENOTTY s | Some f \<Rightarrow> f (i_rdev s i) cmd p s)"

section \<open>The function pointers of a file\<close>

definition call_read :: "env \<Rightarrow> rw_op option \<Rightarrow> rwreq \<Rightarrow> kst \<Rightarrow> rwreq res" where
  "call_read e op req s =
     (case op of
        None \<Rightarrow> fail ENOSYS s
      | Some Reg_rw \<Rightarrow> reg_read req s
      | Some Blk_rw \<Rightarrow> blk_lread req s
      | Some Chr_rw \<Rightarrow> chr_read e req s
      | Some Pipe_rw \<Rightarrow> pipe_read e req s)"

definition call_write :: "env \<Rightarrow> rw_op option \<Rightarrow> rwreq \<Rightarrow> kst \<Rightarrow> rwreq res" where
  "call_write e op req s =
     (case op of
        None \<Rightarrow> fail ENOSYS s
      | Some Reg_rw \<Rightarrow> reg_write req s
      | Some Blk_rw \<Rightarrow> blk_lwrite req s
      | Some Chr_rw \<Rightarrow> chr_write e req s
      | Some Pipe_rw \<Rightarrow> pipe_write e req s)"

section \<open>System calls\<close>

definition rw_request :: "nat \<Rightarrow> nat \<Rightarrow> nat \<Rightarrow> nat \<Rightarrow> kst \<Rightarrow> rwreq" where
  "rw_request f i buf count s =
     \<lparr>rw_ino = i, rw_buf = buf, rw_start = f_pos (files s f), rw_count = count,
      rw_nodelay = f_flags (files s f) AND O_NDELAY \<noteq> 0\<rparr>"

text \<open>\<open>if (!ino->dirty) ino->dirty = 1;\<close> after a time of the inode has been set\<close>

definition touch :: "nat \<Rightarrow> (disk_inode \<Rightarrow> disk_inode) \<Rightarrow> kst \<Rightarrow> kst" where
  "touch i f s =
     (if s_ro (supers s (i_sb (inodes s i))) \<noteq> 0 then s
      else upd_inode i (\<lambda>ip. ip\<lparr>i_d := f (i_d ip), i_dirty := (if i_dirty ip = 0 then 1 else i_dirty ip)\<rparr>) s)"

definition bad_pos :: "32 word \<Rightarrow> nat \<Rightarrow> bool" where
  "bad_pos pos count \<longleftrightarrow> (unat pos + count) mod 2 ^ 32 > MAXOFF"

definition sys_read :: "env \<Rightarrow> int \<Rightarrow> nat \<Rightarrow> nat \<Rightarrow> kst \<Rightarrow> (int \<times> kst) option" where
  "sys_read e fd buf count s = sysret
     (on_fd fd R_OK s (\<lambda>f.
      bindE (uwchk buf count s) (\<lambda>_ s.
        let pos = f_pos (files s f) in
        if sint pos < 0 then fail EINVAL s
        else if bad_pos pos count then fail EFBIG s
        else on_ino f s (\<lambda>i.
          let s = touch i (\<lambda>d. d\<lparr>d_atime := k_time s\<rparr>) s in
          bindE (call_read e (f_read (files s f)) (rw_request f i buf count s) s) (\<lambda>req s.
            Some (Inr (int (rw_count req)), upd_file f (\<lambda>x. x\<lparr>f_pos := rw_start req\<rparr>) s))))))"

definition sys_write :: "env \<Rightarrow> int \<Rightarrow> nat \<Rightarrow> nat \<Rightarrow> kst \<Rightarrow> (int \<times> kst) option" where
  "sys_write e fd buf count s = sysret
     (on_fd fd W_OK s (\<lambda>f.
      bindE (urchk buf count s) (\<lambda>_ s.
        if sint (f_pos (files s f)) < 0 then fail EINVAL s
        else on_ino f s (\<lambda>i.
          let s = (if f_flags (files s f) AND O_APPEND \<noteq> 0
                   then upd_file f (\<lambda>x. x\<lparr>f_pos := d_size (i_d (inodes s i))\<rparr>) s else s) in
          if bad_pos (f_pos (files s f)) count then fail EFBIG s
          else do {
            (r, s) \<leftarrow> call_write e (f_write (files s f)) (rw_request f i buf count s) s;
            let s = touch i (\<lambda>d. d\<lparr>d_mtime := k_time s\<rparr>) s;
            (case r of
               Inl err \<Rightarrow> fail err s
             | Inr req \<Rightarrow> Some (Inr (int (rw_count req)), upd_file f (\<lambda>x. x\<lparr>f_pos := rw_start req\<rparr>) s))
          }))))"

abbreviation (input) "SEEK_SET \<equiv> (0::int)"
abbreviation (input) "SEEK_CUR \<equiv> (1::int)"
abbreviation (input) "SEEK_END \<equiv> (2::int)"

definition sys_lseek :: "int \<Rightarrow> 32 word \<Rightarrow> int \<Rightarrow> kst \<Rightarrow> (int \<times> kst) option" where
  "sys_lseek fd off whence s = sysret
     (on_fd fd 0 s (\<lambda>f. on_ino f s (\<lambda>i.
        if S_ISFIFO (i_mode s i) then fail ESPIPE s
        else if whence \<noteq> SEEK_SET \<and> whence \<noteq> SEEK_CUR \<and> whence \<noteq> SEEK_END then fail EINVAL s
        else
          let pos = (if whence = SEEK_SET then off
                     else if whence = SEEK_CUR then f_pos (files s f) + off
                     else d_size (i_d (inodes s i)) + off)
          in Some (Inr (sint pos), upd_file f (\<lambda>x. x\<lparr>f_pos := pos\<rparr>) s))))"

text \<open>With a bad descriptor \<open>sys_ioctl\<close> returns the error number, not -1.\<close>

definition sys_ioctl :: "env \<Rightarrow> int \<Rightarrow> int \<Rightarrow> nat \<Rightarrow> kst \<Rightarrow> (int \<times> kst) option" where
  "sys_ioctl e fd cmd p s =
     (case fd_chk fd 0 s of
        Some err \<Rightarrow> map_option (Pair (int (errno_num err))) (uerr err s)
      | None \<Rightarrow> sysret (on_fd fd 0 s (\<lambda>f.
          case f_ioctl (files s f) of
            None \<Rightarrow> fail ENOTTY s
          | Some op \<Rightarrow> on_ino f s (\<lambda>i.
              bindE (case op of Blk_ioctl \<Rightarrow> blk_ioctl e i cmd p s | Chr_ioctl \<Rightarrow> chr_ioctl e i cmd p s)
                (\<lambda>_ s. ret0 s)))))"

definition sys_ttyname3 :: "env \<Rightarrow> int \<Rightarrow> nat \<Rightarrow> nat \<Rightarrow> kst \<Rightarrow> (int \<times> kst) option" where
  "sys_ttyname3 e fd buf len s = sysret
     (on_fd fd 0 s (\<lambda>f. on_ino f s (\<lambda>i.
        if \<not> S_ISCHR (i_mode s i) then fail ENOTTY s
        else bindE (chr_ttyname e i s) (\<lambda>name s.
          if length name \<ge> len then fail ERANGE s
          else bindE (tucpy buf name s) (\<lambda>_ s. ret0 s)))))"

section \<open>What the operations leave alone\<close>

context um_frame begin

lemma rw_loop_keep:
  "(\<And>blk off l buf s. obs s = v \<Longrightarrow> keep v (xfer blk off l buf s)) \<Longrightarrow> obs s = v \<Longrightarrow> keep v (rw_loop xfer buf count pos s)"
proof (induction count arbitrary: buf pos s rule: less_induct)
  case (less count buf pos s)
  show ?case by (subst rw_loop.simps) (intro keep less; simp add: less.prems)
qed

lemma rw_all_keep:
  "(\<And>blk off l buf s. obs s = v \<Longrightarrow> keep v (xfer blk off l buf s)) \<Longrightarrow> obs s = v \<Longrightarrow> keep v (rw_all xfer req s)"
  unfolding rw_all_def by (intro keep rw_loop_keep; simp)

lemma reg_read_keep [keep]: "obs s = v \<Longrightarrow> keep v (reg_read req s)"
  and reg_write_keep [keep]: "obs s = v \<Longrightarrow> keep v (reg_write req s)"
  and blk_lread_keep [keep]: "obs s = v \<Longrightarrow> keep v (blk_lread req s)"
  and blk_lwrite_keep [keep]: "obs s = v \<Longrightarrow> keep v (blk_lwrite req s)"
  unfolding reg_read_def reg_write_def blk_lread_def blk_lwrite_def reg_get_def reg_set_def
  by (intro keep rw_all_keep; simp add: case_prod_beta)+

end

end
