(* ===== verification/Open.thy ===== *)
theory Open
  imports Rw
begin

unbundle bit_operations_syntax

text \<open>Opening files, and the system calls on descriptors and inodes, \<open>kern/fs/open.c\<close>.\<close>

section \<open>Opening\<close>

text \<open>The part of \<open>do_open\<close> that finds the inode or makes it; it says whether it was made.\<close>

definition open_creat :: "byte list \<Rightarrow> 32 word \<Rightarrow> kst \<Rightarrow> nat res" where
  "open_creat path mode s =
     bindE (dir_traverse path True s) (\<lambda>dir s. do {
       (r, s) \<leftarrow> alloc_inode (i_sb (inodes s dir)) s;
       (case r of
          Inl err \<Rightarrow> cleanup (fail err s) (iput dir)
        | Inr i \<Rightarrow> do {
            (r, s) \<leftarrow> dir_creat dir (basename path) (i_ino (inodes s i)) s;
            (case r of
               Inl err \<Rightarrow> cleanup (fail err s) (\<lambda>s. Option.bind (iput dir s) (iput i))
             | Inr _ \<Rightarrow>
                 cleanup (Some (Inr i, upd_inode i (\<lambda>ip. ip\<lparr>i_dirty := 2, i_d := (i_d ip)\<lparr>
                     d_mode := S_IFREG OR mode16 (mode AND NOT (p_umask (cur s))), d_nlink := 1\<rparr>\<rparr>) s))
                   (iput dir))
          })
     })"

definition open_ino :: "byte list \<Rightarrow> 32 word \<Rightarrow> 32 word \<Rightarrow> kst \<Rightarrow> (nat \<times> bool) res" where
  "open_ino path flags mode s = do {
     (r, s) \<leftarrow> dir_traverse path False s;
     (case r of
        Inr i \<Rightarrow> if flags AND O_EXCL \<noteq> 0 then cleanup (fail EEXIST s) (iput i) else Some (Inr (i, False), s)
      | Inl err \<Rightarrow>
          if err = ENOENT \<and> flags AND O_CREAT \<noteq> 0
          then bindE (open_creat path mode s) (\<lambda>i s. Some (Inr (i, True), s))
          else fail err s)
   }"

text \<open>The checks on the inode, which are not made on a new file.\<close>

definition open_perm :: "nat \<Rightarrow> 32 word \<Rightarrow> kst \<Rightarrow> errno option" where
  "open_perm i flags s =
     (let m = flags AND 7 in
      if m = O_RDONLY then inode_chkperm i R_OK s
      else if m = O_WRONLY then inode_chkperm i W_OK s
      else if m = O_RDWR then inode_chkperm i (R_OK OR W_OK) s
      else Some EINVAL)"

definition open_check :: "nat \<Rightarrow> bool \<Rightarrow> 32 word \<Rightarrow> kst \<Rightarrow> unit res" where
  "open_check i creat flags s =
     (if S_ISDIR (i_mode s i) \<and> flags AND 7 \<noteq> O_RDONLY then fail EISDIR s
      else
        bindE (if flags AND O_TRUNC \<noteq> 0 \<and> S_ISREG (i_mode s i)
               then bindE (check (inode_chkperm i W_OK s) s) (\<lambda>_ s. trunc i True s)
               else Some (Inr (), s)) (\<lambda>_ s.
        check (if creat then None else open_perm i flags s) s))"

text \<open>The operations of the file, by the type of the inode, and the driver's \<open>open\<close>.\<close>

definition set_ops :: "nat \<Rightarrow> rw_op option \<Rightarrow> rw_op option \<Rightarrow> ioctl_op option \<Rightarrow> kst \<Rightarrow> kst" where
  "set_ops f rd wr io = upd_file f (\<lambda>x. x\<lparr>f_read := rd, f_write := wr, f_ioctl := io\<rparr>)"

definition open_ops :: "env \<Rightarrow> nat \<Rightarrow> nat \<Rightarrow> 32 word \<Rightarrow> kst \<Rightarrow> unit res" where
  "open_ops e i f flags s =
     (if S_ISREG (i_mode s i) then Some (Inr (), set_ops f (Some Reg_rw) (Some Reg_rw) None s)
      else if S_ISDIR (i_mode s i) then Some (Inr (), set_ops f (Some Reg_rw) None None s)
      else if S_ISBLK (i_mode s i) then Some (Inr (), set_ops f (Some Blk_rw) (Some Blk_rw) (Some Blk_ioctl) s)
      else if S_ISCHR (i_mode s i) then
        bindE (chr_open e i (flags AND O_NDELAY \<noteq> 0) s) (\<lambda>_ s.
          Some (Inr (), set_ops f (Some Chr_rw) (Some Chr_rw) (Some Chr_ioctl) s))
      else if S_ISFIFO (i_mode s i) then
        pipe_open e i flags (set_ops f (Some Pipe_rw) (Some Pipe_rw) None s)
      else fail EINVAL s)"

definition do_open :: "env \<Rightarrow> byte list \<Rightarrow> 32 word \<Rightarrow> 32 word \<Rightarrow> kst \<Rightarrow> nat res" where
  "do_open e path flags mode s =
     bindE (open_ino path flags (mode AND 0x1FF) s) (\<lambda>(i, creat) s. do {
       (r, s) \<leftarrow> open_check i creat flags s;
       (case r of
          Inl err \<Rightarrow> cleanup (fail err s) (iput i)
        | Inr _ \<Rightarrow>
            (case file_get s of
               (Inl err, s) \<Rightarrow> cleanup (fail err s) (iput i)
             | (Inr f, s) \<Rightarrow> do {
                 (r, s) \<leftarrow> fd_get 0 s;
                 (case r of
                    Inl err \<Rightarrow> cleanup (fail err s) (\<lambda>s. Option.bind (iput i s) (map_option snd \<circ> file_put e f))
                  | Inr fd \<Rightarrow> do {
                      (r, s) \<leftarrow> open_ops e i f flags s;
                      (case r of
                         Inl err \<Rightarrow> cleanup (fail err s) (\<lambda>s. Option.bind (iput i s) (map_option snd \<circ> file_put e f))
                       | Inr _ \<Rightarrow>
                           Some (Inr fd, upd_file f (\<lambda>x. x\<lparr>f_flags := flags, f_ino := Some i\<rparr>)
                             (upd_fd fd (\<lambda>d. d\<lparr>fd_file := Some f\<rparr>) s)))
                    })
               }))
     })"

definition sys_open :: "env \<Rightarrow> nat \<Rightarrow> 32 word \<Rightarrow> 32 word \<Rightarrow> kst \<Rightarrow> (int \<times> kst) option" where
  "sys_open e path flags mode s = sysret
     (bindE (fustr path PATH_MAX s) (\<lambda>lpath s.
      bindE (do_open e lpath flags mode s) (\<lambda>fd s. Some (Inr (int fd), s))))"

definition sys_close :: "env \<Rightarrow> int \<Rightarrow> kst \<Rightarrow> (int \<times> kst) option" where
  "sys_close e fd s = sysret
     (on_fd fd 0 s (\<lambda>_. Option.bind (fd_put e (nat fd) s) (\<lambda>(_, s). ret0 s)))"

section \<open>A path of the user's\<close>

text \<open>What many system calls begin with: copy the path and look it up.\<close>

definition on_path :: "nat \<Rightarrow> kst \<Rightarrow> (nat \<Rightarrow> kst \<Rightarrow> 'a res) \<Rightarrow> 'a res" where
  "on_path path s k =
     bindE (fustr path PATH_MAX s) (\<lambda>lpath s. bindE (dir_traverse lpath False s) k)"

definition sys__ctty :: "env \<Rightarrow> nat \<Rightarrow> kst \<Rightarrow> (int \<times> kst) option" where
  "sys__ctty e path s = sysret
     (if p_euid (cur s) \<noteq> 0 then fail EPERM s
      else if path = 0 then
        Option.bind (iput_opt (p_tty (cur s)) s) (\<lambda>s. ret0 (upd_curr (\<lambda>c. c\<lparr>p_tty := None\<rparr>) s))
      else on_path path s (\<lambda>i s.
        if \<not> S_ISCHR (i_mode s i) then cleanup (fail ENOTTY s) (iput i)
        else do {
          (r, s) \<leftarrow> chr_ttyname e i s;
          (case r of
             Inl err \<Rightarrow> cleanup (fail err s) (iput i)
           | Inr _ \<Rightarrow>
               Option.bind (iput_opt (p_tty (cur s)) s) (\<lambda>s. ret0 (upd_curr (\<lambda>c. c\<lparr>p_tty := Some i\<rparr>) s)))
        }))"

section \<open>What an inode is, and its owner and mode\<close>

text \<open>\<open>struct stat\<close> as it lies in memory; \<open>uid_t\<close> and \<open>gid_t\<close> have 16 bits.\<close>

definition inode_stat :: "nat \<Rightarrow> kst \<Rightarrow> byte list" where
  "inode_stat i s =
     (let ip = inodes s i; d = i_d ip in
      le32s [i_ino ip, i_dev s i, unat (d_rdev d), unat (d_mode d), unat (d_nlink d)]
      @ le16 (unat (d_uid d)) @ le16 (unat (d_gid d))
      @ le32s [unat (d_size d), BLK_SIZE, unat (d_blocks d), unat (d_atime d), unat (d_ctime d), unat (d_mtime d)])"

definition inode_chmod :: "nat \<Rightarrow> 32 word \<Rightarrow> kst \<Rightarrow> unit res" where
  "inode_chmod i mode s =
     (let d = i_d (inodes s i) in
      if ucast (d_mode d) AND 0xFFF = mode then Some (Inr (), s)
      else if p_euid (cur s) \<noteq> 0 \<and> \<not> same_id (p_euid (cur s)) (d_uid d) then fail EPERM s
      else if s_ro (supers s (i_sb (inodes s i))) \<noteq> 0 then fail EROFS s
      else Some (Inr (), upd_inode i (\<lambda>ip. ip\<lparr>i_dirty := 2, i_d := (i_d ip)\<lparr>
        d_mode := (d_mode d AND NOT 0xFFF) OR mode16 (mode AND 0xFFF), d_ctime := k_time s\<rparr>\<rparr>) s))"

definition inode_chown :: "nat \<Rightarrow> 16 word \<Rightarrow> 16 word \<Rightarrow> kst \<Rightarrow> unit res" where
  "inode_chown i uid gid s =
     (let d = i_d (inodes s i) in
      if same_id uid (d_uid d) \<and> same_id gid (d_gid d) then Some (Inr (), s)
      else if p_euid (cur s) \<noteq> 0 then fail EPERM s
      else if s_ro (supers s (i_sb (inodes s i))) \<noteq> 0 then fail EROFS s
      else Some (Inr (), upd_inode i (\<lambda>ip. ip\<lparr>i_dirty := 2, i_d := (i_d ip)\<lparr>
        d_ctime := k_time s, d_uid := uid, d_gid := gid\<rparr>\<rparr>) s))"

definition sys_fstat :: "int \<Rightarrow> nat \<Rightarrow> kst \<Rightarrow> (int \<times> kst) option" where
  "sys_fstat fd buf s = sysret
     (on_fd fd 0 s (\<lambda>f. on_ino f s (\<lambda>i. bindE (tucpy buf (inode_stat i s) s) (\<lambda>_ s. ret0 s))))"

definition sys_fchmod :: "int \<Rightarrow> 32 word \<Rightarrow> kst \<Rightarrow> (int \<times> kst) option" where
  "sys_fchmod fd mode s = sysret
     (on_fd fd 0 s (\<lambda>f. on_ino f s (\<lambda>i. bindE (inode_chmod i mode s) (\<lambda>_ s. ret0 s))))"

definition sys_fchown :: "int \<Rightarrow> 16 word \<Rightarrow> 16 word \<Rightarrow> kst \<Rightarrow> (int \<times> kst) option" where
  "sys_fchown fd uid gid s = sysret
     (on_fd fd 0 s (\<lambda>f. on_ino f s (\<lambda>i. bindE (inode_chown i uid gid s) (\<lambda>_ s. ret0 s))))"

definition sys_stat :: "nat \<Rightarrow> nat \<Rightarrow> kst \<Rightarrow> (int \<times> kst) option" where
  "sys_stat path buf s = sysret
     (on_path path s (\<lambda>i s. cleanup (bindE (tucpy buf (inode_stat i s) s) (\<lambda>_ s. ret0 s)) (iput i)))"

text \<open>\<open>sys_chmod\<close> and \<open>sys_chown\<close> do not give back the inode when they fail.\<close>

definition sys_chmod :: "nat \<Rightarrow> 32 word \<Rightarrow> kst \<Rightarrow> (int \<times> kst) option" where
  "sys_chmod path mode s = sysret
     (on_path path s (\<lambda>i s. bindE (inode_chmod i mode s) (\<lambda>_ s. cleanup (ret0 s) (iput i))))"

definition sys_chown :: "nat \<Rightarrow> 16 word \<Rightarrow> 16 word \<Rightarrow> kst \<Rightarrow> (int \<times> kst) option" where
  "sys_chown path uid gid s = sysret
     (on_path path s (\<lambda>i s. bindE (inode_chown i uid gid s) (\<lambda>_ s. cleanup (ret0 s) (iput i))))"

definition sys_access :: "nat \<Rightarrow> 32 word \<Rightarrow> kst \<Rightarrow> (int \<times> kst) option" where
  "sys_access name mode s = sysret
     (on_path name s (\<lambda>i s.
        let err = inode_chkperm_rid i mode s in
        Option.bind (iput i s) (\<lambda>s. bindE (check err s) (\<lambda>_ s. ret0 s))))"

definition sys_chdir :: "nat \<Rightarrow> kst \<Rightarrow> (int \<times> kst) option" where
  "sys_chdir path s = sysret
     (on_path path s (\<lambda>i s.
        case inode_chkperm i X_OK s of
          Some err \<Rightarrow> cleanup (fail err s) (iput i)
        | None \<Rightarrow>
            if \<not> S_ISDIR (i_mode s i) then cleanup (fail ENOTDIR s) (iput i)
            else Option.bind (iput (p_cwd (cur s)) s) (\<lambda>s. ret0 (upd_curr (\<lambda>c. c\<lparr>p_cwd := i\<rparr>) s))))"

definition sys_chroot :: "nat \<Rightarrow> kst \<Rightarrow> (int \<times> kst) option" where
  "sys_chroot path s = sysret
     (if p_euid (cur s) \<noteq> 0 then fail EPERM s
      else on_path path s (\<lambda>i s.
        if \<not> S_ISDIR (i_mode s i) then cleanup (fail ENOTDIR s) (iput i)
        else Option.bind (iput (p_root (cur s)) s) (\<lambda>s. ret0 (upd_curr (\<lambda>c. c\<lparr>p_root := i\<rparr>) s))))"

text \<open>
  \<open>sys_utime\<close> returns the numbers \<open>EPERM\<close> and \<open>EROFS\<close> themselves, without setting \<open>errno\<close>
  and without giving back the inode.
\<close>

definition sys_utime :: "nat \<Rightarrow> nat \<Rightarrow> kst \<Rightarrow> (int \<times> kst) option" where
  "sys_utime path tp s = sysret
     (bindE (fustr path PATH_MAX s) (\<lambda>lpath s.
      bindE (fucpy tp 8 s) (\<lambda>ltp s.
      bindE (dir_traverse lpath False s) (\<lambda>i s.
        if p_euid (cur s) \<noteq> 0 \<and> \<not> same_id (p_euid (cur s)) (d_uid (i_d (inodes s i)))
        then Some (Inr (int (errno_num EPERM)), s)
        else if s_ro (supers s (i_sb (inodes s i))) \<noteq> 0 then Some (Inr (int (errno_num EROFS)), s)
        else cleanup (ret0 (upd_inode i (\<lambda>ip. ip\<lparr>i_dirty := 2, i_d := (i_d ip)\<lparr>
            d_atime := of_nat (rd32 ltp 0), d_mtime := of_nat (rd32 ltp 4), d_ctime := k_time s\<rparr>\<rparr>) s))
          (iput i)))))"

section \<open>Copying descriptors\<close>

text \<open>\<open>curr->fd[nfd] = curr->fd[fd]; curr->fd[nfd].file->refcnt++;\<close>, the close-on-exec flag included\<close>

definition copy_fd :: "nat \<Rightarrow> nat \<Rightarrow> kst \<Rightarrow> kst option" where
  "copy_fd fd nfd s =
     (let d = p_fd (cur s) fd in
      case fd_file d of
        None \<Rightarrow> None
      | Some f \<Rightarrow> Some (upd_file f (\<lambda>x. x\<lparr>f_refcnt := f_refcnt x + 1\<rparr>) (upd_fd nfd (\<lambda>_. d) s)))"

definition sys_dup :: "int \<Rightarrow> kst \<Rightarrow> (int \<times> kst) option" where
  "sys_dup fd s = sysret
     (on_fd fd 0 s (\<lambda>_. bindE (fd_get 0 s) (\<lambda>nfd s.
        Option.bind (copy_fd (nat fd) nfd s) (\<lambda>s. Some (Inr (int nfd), s)))))"

text \<open>A negative \<open>nfd\<close> is not refused; it is an index before the array.\<close>

definition sys_dup2 :: "env \<Rightarrow> int \<Rightarrow> int \<Rightarrow> kst \<Rightarrow> (int \<times> kst) option" where
  "sys_dup2 e ofd nfd s = sysret
     (on_fd ofd 0 s (\<lambda>_.
        if nfd \<ge> int OPEN_MAX then fail EBADF s
        else if ofd = nfd then ret0 s
        else if nfd < 0 then None
        else do {
          (_, s) \<leftarrow> fd_put e (nat nfd) s;
          s \<leftarrow> copy_fd (nat ofd) (nat nfd) s;
          Some (Inr nfd, s)
        }))"

abbreviation (input) "F_GETFD \<equiv> (1::int)"
abbreviation (input) "F_SETFD \<equiv> (2::int)"
abbreviation (input) "F_DUPFD \<equiv> (3::int)"
abbreviation (input) "F_GETFL \<equiv> (4::int)"
abbreviation (input) "F_SETFL \<equiv> (5::int)"

definition sys_fcntl :: "int \<Rightarrow> int \<Rightarrow> int \<Rightarrow> kst \<Rightarrow> (int \<times> kst) option" where
  "sys_fcntl fd cmd arg s = sysret
     (on_fd fd 0 s (\<lambda>f.
        if cmd = F_DUPFD then
          bindE (fd_get arg s) (\<lambda>nfd s.
            Option.bind (copy_fd (nat fd) nfd s) (\<lambda>s. Some (Inr (int nfd), s)))
        else if cmd = F_GETFD then Some (Inr (fd_cloexec (p_fd (cur s) (nat fd))), s)
        else if cmd = F_SETFD then ret0 (upd_fd (nat fd) (\<lambda>d. d\<lparr>fd_cloexec := arg\<rparr>) s)
        else if cmd = F_GETFL then Some (Inr (sint (f_flags (files s f))), s)
        else if cmd = F_SETFL then
          let m = O_APPEND OR O_NDELAY in
          ret0 (upd_file f (\<lambda>x. x\<lparr>f_flags := (f_flags x AND NOT m) OR (of_int arg AND m)\<rparr>) s)
        else fail EINVAL s))"

section \<open>Others\<close>

text \<open>
  The signal goes to every other process that has the inode as a directory or terminal,
  and once for every descriptor of it to the rest: the \<open>continue\<close> in the inner loop goes
  on with the next descriptor.
\<close>

definition killf_proc :: "nat \<Rightarrow> nat \<Rightarrow> kst \<Rightarrow> nat \<Rightarrow> kst" where
  "killf_proc i sig s p =
     (let q = procs s p in
      if p = curr s then s
      else if p_cwd q = i \<or> p_root q = i \<or> p_tty q = Some i then snd (sendsig p sig s)
      else foldl (\<lambda>s n. case fd_file (p_fd (procs s p) n) of
                          Some f \<Rightarrow> if f_ino (files s f) = Some i then snd (sendsig p sig s) else s
                        | None \<Rightarrow> s) s [0..<OPEN_MAX])"

definition sys__killf :: "nat \<Rightarrow> nat \<Rightarrow> kst \<Rightarrow> (int \<times> kst) option" where
  "sys__killf path sig s = sysret
     (if p_euid (cur s) \<noteq> 0 then fail EPERM s
      else on_path path s (\<lambda>i s. cleanup (ret0 (foldl (killf_proc i sig) s (pact s))) (iput i)))"

definition sys__sfilsys :: "32 word \<Rightarrow> kst \<Rightarrow> (int \<times> kst) option" where
  "sys__sfilsys flags s =
     Some (0, upd_curr (\<lambda>c. c\<lparr>p_linkmode := (if flags AND 2 \<noteq> 0 then 2 else 0),
                              p_namlen := (if flags AND 1 \<noteq> 0 then 14 else NAME_MAX)\<rparr>) s)"

text \<open>\<open>sys_statfs\<close> is in \<open>kern/fs/alloc.c\<close>.\<close>

definition sys_statfs :: "nat \<Rightarrow> nat \<Rightarrow> kst \<Rightarrow> (int \<times> kst) option" where
  "sys_statfs path buf s = sysret
     (on_path path s (\<lambda>i s.
        let m = i_sb (inodes s i) in
        Option.bind (iput i s) (\<lambda>s.
          bindE (if s_nfree (supers s m) = UNCOUNTED then count_free m s else Some (Inr (), s)) (\<lambda>_ s.
            let sb = supers s m in
            bindE (tucpy buf (le32s [s_nblocks sb, s_nfree sb, s_dev sb, s_ro sb]) s) (\<lambda>_ s. ret0 s)))))"

section \<open>What the operations leave alone\<close>

context fs_frame begin

lemma open_creat_keep [keep]: "obs s = v \<Longrightarrow> keep v (open_creat path mode s)"
  unfolding open_creat_def by (intro keep; simp)

lemma open_ino_keep [keep]: "obs s = v \<Longrightarrow> keep v (open_ino path flags mode s)"
  unfolding open_ino_def by (intro keep; simp)

lemma open_check_keep [keep]: "obs s = v \<Longrightarrow> keep v (open_check i creat flags s)"
  unfolding open_check_def by (intro keep; simp)

lemma inode_chmod_keep [keep]: "obs s = v \<Longrightarrow> keep v (inode_chmod i mode s)"
  and inode_chown_keep [keep]: "obs s = v \<Longrightarrow> keep v (inode_chown i uid gid s)"
  unfolding inode_chmod_def inode_chown_def by (intro keep; simp)+

end

context um_frame begin

lemma on_path_keep [keep]: "obs s = v \<Longrightarrow> (\<And>i s. obs s = v \<Longrightarrow> keep v (k i s)) \<Longrightarrow> keep v (on_path path s k)"
  unfolding on_path_def by (intro keep; simp)

lemma open_calls_keep [keep]:
  "obs s = v \<Longrightarrow> keep v (sys_fstat fd p s)" "obs s = v \<Longrightarrow> keep v (sys_fchmod fd m s)"
  "obs s = v \<Longrightarrow> keep v (sys_fchown fd u g s)" "obs s = v \<Longrightarrow> keep v (sys_stat p b s)"
  "obs s = v \<Longrightarrow> keep v (sys_chmod p m s)" "obs s = v \<Longrightarrow> keep v (sys_chown p u g s)"
  "obs s = v \<Longrightarrow> keep v (sys_access p m s)" "obs s = v \<Longrightarrow> keep v (sys_utime p tp s)"
  "obs s = v \<Longrightarrow> keep v (sys_statfs p b s)"
  unfolding sys_fstat_def sys_fchmod_def sys_fchown_def sys_stat_def sys_chmod_def sys_chown_def
    sys_access_def sys_utime_def sys_statfs_def
  by (intro keep; simp)+

end

end
