(* ===== verification/Mount.thy ===== *)
theory Mount
  imports Open
begin

unbundle bit_operations_syntax

text \<open>Mounting file systems, the rest of \<open>kern/fs/mount.c\<close>.\<close>

section \<open>Mounting\<close>

text \<open>
  The root inode of a file system that has never been used has the mode 0: it becomes a
  directory. This needs a writable file system, so a read-only mount turns into one that
  is not, without the map of used blocks.
\<close>

definition first_use :: "nat \<Rightarrow> nat \<Rightarrow> nat \<Rightarrow> kst \<Rightarrow> kst" where
  "first_use m root ro s =
     (if d_mode (i_d (inodes s root)) \<noteq> 0 then s
      else
        let s = (if ro \<noteq> 0 then upd_super m (\<lambda>sb. sb\<lparr>s_ro := 0\<rparr>) s else s)
        in upd_inode root (\<lambda>ip. ip\<lparr>i_dirty := 2, i_d := (i_d ip)\<lparr>
             d_mode := S_IFDIR OR 0x1C0, d_blocks := 1, d_nlink := 1\<rparr>\<rparr>) s)"

definition mountroot :: "nat \<Rightarrow> nat \<Rightarrow> kst \<Rightarrow> kst option" where
  "mountroot dev ro s = do {
     (r, s) \<leftarrow> read_super dev ro s;
     (case r of
        Inl _ \<Rightarrow> None
      | Inr m \<Rightarrow> do {
          (r, s) \<leftarrow> inode_get m (s_root (supers s m)) s;
          (case r of
             Inl _ \<Rightarrow> None
           | Inr i \<Rightarrow> do {
               (r, s) \<leftarrow> (if ro = 0 then load_freemap m s else Some (Inr (), s));
               (case r of
                  Inl _ \<Rightarrow> None
                | Inr _ \<Rightarrow>
                    let s = upd_curr (\<lambda>c. c\<lparr>p_root := i, p_cwd := i\<rparr>) (first_use m i ro s)
                    in Some (upd_inode i (\<lambda>ip. ip\<lparr>i_refcnt := i_refcnt ip + 2\<rparr>) s))
             })
        })
   }"

definition unmounted :: "nat \<Rightarrow> kst \<Rightarrow> kst" where
  "unmounted m = upd_super m (\<lambda>sb. sb\<lparr>s_mounted := 0\<rparr>)"

text \<open>
  When \<open>do_mount\<close> cannot get the root inode, it does not free the map of used blocks that
  it has loaded.
\<close>

definition do_mount :: "byte list \<Rightarrow> byte list \<Rightarrow> nat \<Rightarrow> kst \<Rightarrow> unit res" where
  "do_mount dev mnt ro s =
     bindE (dir_traverse dev False s) (\<lambda>i s.
       if \<not> S_ISBLK (i_mode s i) then cleanup (fail EPERM s) (iput i)
       else do {
         let devn = i_rdev s i;
         s \<leftarrow> iput i s;
         bindE (dir_traverse mnt False s) (\<lambda>i s.
           if i_mnt_dir (inodes s i) \<noteq> None \<or> i_mnt_root (inodes s i) \<noteq> None
           then cleanup (fail EBUSY s) (iput i)
           else do {
             (r, s) \<leftarrow> read_super devn ro s;
             (case r of
                Inl err \<Rightarrow> cleanup (fail err s) (iput i)
              | Inr m \<Rightarrow> do {
                  (r, s) \<leftarrow> (if ro = 0 then load_freemap m s else Some (Inr (), s));
                  (case r of
                     Inl err \<Rightarrow> cleanup (fail err (unmounted m s)) (iput i)
                   | Inr _ \<Rightarrow> do {
                       (r, s) \<leftarrow> inode_get m (s_root (supers s m)) s;
                       (case r of
                          Inl err \<Rightarrow> cleanup (fail err (unmounted m s)) (iput i)
                        | Inr root \<Rightarrow>
                            let s = upd_inode root (\<lambda>ip. ip\<lparr>i_mnt_dir := Some i\<rparr>) s;
                                s = upd_inode i (\<lambda>ip. ip\<lparr>i_mnt_root := Some root\<rparr>) s
                            in Some (Inr (), first_use m root ro s))
                     })
                })
           })
       })"

section \<open>Unmounting\<close>

text \<open>The inode of the mount point keeps its \<open>mnt_root\<close>.\<close>

definition do_umount :: "byte list \<Rightarrow> kst \<Rightarrow> unit res" where
  "do_umount mnt s =
     bindE (dir_traverse mnt False s) (\<lambda>i s.
       case i_mnt_dir (inodes s i) of
         None \<Rightarrow> cleanup (fail EINVAL s) (iput i)
       | Some dir \<Rightarrow>
           let m = i_sb (inodes s i) in
           if i_refcnt (inodes s i) \<noteq> 2 then cleanup (fail EBUSY s) (iput i)
           else if \<exists>j \<in> set [0..<MAXINODES]. j \<noteq> i \<and> i_refcnt (inodes s j) \<noteq> 0 \<and> i_sb (inodes s j) = m
           then cleanup (fail EBUSY s) (iput i)
           else do {
             s \<leftarrow> iput dir s;
             s \<leftarrow> iput i (upd_inode i (\<lambda>ip. ip\<lparr>i_refcnt := i_refcnt ip - 1\<rparr>) s);
             s \<leftarrow> inode_sync 1 s;
             (_, s) \<leftarrow> save_freemap m s;
             s \<leftarrow> blk_sync True 0 (\<lambda>_. False) (unmounted m s);
             Some (Inr (), drop_freemap m s)
           })"

section \<open>System calls\<close>

definition sys_mount :: "nat \<Rightarrow> nat \<Rightarrow> nat \<Rightarrow> kst \<Rightarrow> (int \<times> kst) option" where
  "sys_mount dev mnt ro s = sysret
     (if p_euid (cur s) \<noteq> 0 then fail EPERM s
      else bindE (fustr dev PATH_MAX s) (\<lambda>ldev s.
           bindE (fustr mnt PATH_MAX s) (\<lambda>lmnt s.
           bindE (do_mount ldev lmnt ro s) (\<lambda>_ s. ret0 s))))"

definition sys_umount :: "nat \<Rightarrow> kst \<Rightarrow> (int \<times> kst) option" where
  "sys_umount mnt s = sysret
     (if p_euid (cur s) \<noteq> 0 then fail EPERM s
      else bindE (fustr mnt PATH_MAX s) (\<lambda>lmnt s. bindE (do_umount lmnt s) (\<lambda>_ s. ret0 s)))"

text \<open>Every error of \<open>load_freemap\<close> is reported as \<open>EPERM\<close>.\<close>

definition sys__readwrite :: "kst \<Rightarrow> (int \<times> kst) option" where
  "sys__readwrite s = sysret
     (if p_euid (cur s) \<noteq> 0 then fail EPERM s
      else
        let m = i_sb (inodes s (p_root (cur s))) in
        if s_ro (supers s m) = 0 then ret0 s
        else do {
          (r, s) \<leftarrow> load_freemap m s;
          (case r of
             Inl _ \<Rightarrow> fail EPERM s
           | Inr _ \<Rightarrow> ret0 (upd_super m (\<lambda>sb. sb\<lparr>s_ro := 0\<rparr>) s))
        })"

section \<open>What the operations leave alone\<close>

context fs_frame begin

lemma obs_mounts [simp]: "obs (unmounted m s) = obs s" "obs (first_use m root ro s) = obs s"
  by (simp_all add: unmounted_def first_use_def Let_def)

lemma do_mount_keep [keep]: "obs s = v \<Longrightarrow> keep v (do_mount dev mnt ro s)"
  unfolding do_mount_def by (intro keep; simp)

lemma do_umount_keep [keep]: "obs s = v \<Longrightarrow> keep v (do_umount mnt s)"
  unfolding do_umount_def by (intro keep; simp)

end

context um_frame begin

lemma mount_calls_keep [keep]:
  "obs s = v \<Longrightarrow> keep v (sys_mount p q ro s)" "obs s = v \<Longrightarrow> keep v (sys_umount p s)"
  "obs s = v \<Longrightarrow> keep v (sys__readwrite s)"
  unfolding sys_mount_def sys_umount_def sys__readwrite_def by (intro keep; simp)+

end

end
