(* ===== verification/Exit.thy ===== *)
theory Exit
  imports Mount
begin

unbundle bit_operations_syntax

text \<open>
  The life of a process: its end and the delivery of its signals (\<open>kern/process.c\<close>), and
  \<open>fork\<close> and \<open>wait\<close> (\<open>kern/fork.c\<close>). \<open>init\<close> is process 0 of the table.
\<close>

section \<open>Ending\<close>

text \<open>
  \<open>do_exit\<close> ends in \<open>sched()\<close>, from which the process does not return; the result is the
  state at that call.
\<close>

definition orphan :: "nat \<Rightarrow> kst \<Rightarrow> nat \<Rightarrow> kst" where
  "orphan c s p =
     (if p_pid (procs s p) = 0 then s
      else
        let s = (if p_parent (procs s p) = c then
                   let s = upd_proc p (\<lambda>q. q\<lparr>p_parent := 0\<rparr>) s
                   in if p_exited (procs s p) then snd (sendsig 0 SIGCHLD s) else s
                 else s)
        in if p_psid (procs s p) = p_pid (procs s c) then upd_proc p (\<lambda>q. q\<lparr>p_psid := 0\<rparr>) s else s)"

definition add_child_times :: "tms \<Rightarrow> tms \<Rightarrow> tms" where
  "add_child_times c p = p\<lparr>tms_cutime := tms_cutime p + tms_utime c, tms_cstime := tms_cstime p + tms_stime c\<rparr>"

definition do_exit :: "env \<Rightarrow> int \<Rightarrow> kst \<Rightarrow> kst option" where
  "do_exit e status s =
     (if curr s = 0 then None
      else do {
        s \<leftarrow> fd_put_list e (\<lambda>d. fd_file d \<noteq> None) [0..<MAXFDS] s;
        s \<leftarrow> iput_opt (p_tty (cur s)) s;
        s \<leftarrow> iput (p_cwd (cur s)) s;
        s \<leftarrow> iput (p_root (cur s)) s;
        let s = foldl (orphan (curr s)) s (pact s);
        let s = upd_proc (p_parent (cur s)) (\<lambda>q. q\<lparr>p_times := add_child_times (p_times (cur s)) (p_times q)\<rparr>) s;
        let s = snd (sendsig (p_parent (cur s)) SIGCHLD s);
        let s = upd_curr (\<lambda>c. c\<lparr>p_exit_status := of_int status, p_exited := True\<rparr>) s;
        s \<leftarrow> pcfree s;
        Some (wakeup s)
      })"

definition pmd :: "env \<Rightarrow> nat \<Rightarrow> kst \<Rightarrow> kst option" where
  "pmd e sig s = do_exit e (int sig) s"

definition sys__exit :: "env \<Rightarrow> 32 word \<Rightarrow> kst \<Rightarrow> kst option" where
  "sys__exit e status s = do_exit e (uint (push_bit 8 (status AND 0xFF))) s"

section \<open>Delivering signals\<close>

text \<open>
  \<open>pushsig\<close> runs when the kernel returns to the user program, whose registers are \<open>r\<close>. For
  every handled signal it leaves a frame on the user's stack. The result is \<open>None\<close> in the
  first component when the process has ended.
\<close>

definition push_words :: "nat list \<Rightarrow> intr_regs \<Rightarrow> kst \<Rightarrow> (bool \<times> intr_regs \<times> kst) option" where
  "push_words ws r s =
     (let r = r\<lparr>r_esp := nat ((int (r_esp r) - 4 * int (length ws)) mod 2 ^ 32)\<rparr> in
      map_option (\<lambda>(res, s). (res = Inr (), r, s)) (tucpy (r_esp r) (le32s ws) s))"

definition pushsig1 :: "env \<Rightarrow> nat \<Rightarrow> intr_regs \<Rightarrow> kst \<Rightarrow> (intr_regs option \<times> kst) option" where
  "pushsig1 e nr r s = do {
     (ok, r', s) \<leftarrow> push_words [p_sigret1 (cur s), nr, r_eip r] r s;
     (if ok then Some (Some (r'\<lparr>r_eip := unat (p_sig_proc (cur s) (nr - 1))\<rparr>), s)
      else map_option (Pair None) (pmd e SIGBUS s))
   }"

fun push_handlers :: "env \<Rightarrow> 32 word \<Rightarrow> nat list \<Rightarrow> intr_regs \<Rightarrow> kst \<Rightarrow> (intr_regs option \<times> kst) option" where
  "push_handlers e usr [] r s = Some (Some r, s)"
| "push_handlers e usr (i # is) r s =
     (if bit usr (i - 1)
      then Option.bind (pushsig1 e i r s) (\<lambda>(r, s).
        case r of None \<Rightarrow> Some (None, s) | Some r \<Rightarrow> push_handlers e usr is r s)
      else push_handlers e usr is r s)"

definition pushsig :: "env \<Rightarrow> intr_regs \<Rightarrow> kst \<Rightarrow> (intr_regs option \<times> kst) option" where
  "pushsig e r s =
     (let sig = p_sig (cur s) AND NOT (p_sig_ign (cur s));
          s = upd_curr (\<lambda>c. c\<lparr>p_sig := 0\<rparr>) s;
          usr = sig AND p_sig_usr (cur s)
      in
        if sig = 0 then Some (Some r, s)
        else do {
          (r, s) \<leftarrow>
            (if usr = 0 then Some (Some r, s)
             else do {
               (ok, r, s) \<leftarrow> push_words [r_edi r, r_esi r, r_ebp r, r_esp r, r_ebx r, r_edx r, r_ecx r,
                   r_eax r, r_eflags r, r_eip r, r_cs r] (r\<lparr>r_eip := p_sigret (cur s), r_cs := 0x1B\<rparr>) s;
               (if ok then push_handlers e usr [1..<NSIG] r
                     (upd_curr (\<lambda>c. c\<lparr>p_sig_usr := p_sig_usr c AND NOT usr\<rparr>) s)
                else map_option (Pair None) (pmd e SIGBUS s))
             });
          (case r of
             None \<Rightarrow> Some (None, s)
           | Some r \<Rightarrow>
               (case find (\<lambda>i. bit (sig AND NOT usr) (i - 1) \<and> ksig i) [1..<NSIG] of
                  None \<Rightarrow> Some (Some r, s)
                | Some i \<Rightarrow> map_option (Pair None) (if csig i then pmd e i s else do_exit e (int i) s)))
        })"

section \<open>Fork\<close>

partial_function (option) next_pid :: "kst \<Rightarrow> int \<Rightarrow> int option" where
  "next_pid s n =
     (if \<exists>p \<in> set (pact s). p_pid (procs s p) = n \<or> p_psid (procs s p) = n then next_pid s (n + 1) else Some n)"

definition allocpid :: "kst \<Rightarrow> (int \<times> kst) option" where
  "allocpid s =
     map_option (\<lambda>n. (n, s\<lparr>nextpid := n\<rparr>))
       (next_pid s (if nextpid s + 1 > 9999 then 2 else nextpid s + 1))"

text \<open>The copy of the registers at the top of the kernel stack of the new process.\<close>

definition encode_regs :: "intr_regs \<Rightarrow> byte list" where
  "encode_regs r = le32s [r_gs r, r_fs r, r_es r, r_ds r, r_ebp r, r_edi r, r_esi r, r_edx r, r_ecx r,
     r_ebx r, r_eax r, r_eip r, r_cs r, r_eflags r, r_esp r, r_ss r]"

definition store_phys :: "nat \<Rightarrow> byte list \<Rightarrow> kst \<Rightarrow> kst" where
  "store_phys a bs s = s\<lparr>phys := (\<lambda>x. if a \<le> x \<and> x < a + length bs then bs ! (x - a) else phys s x)\<rparr>"

abbreviation (input) "KSTK_SIZE \<equiv> (4096::nat)"

definition ref_ino :: "nat option \<Rightarrow> kst \<Rightarrow> kst" where
  "ref_ino i s = (case i of None \<Rightarrow> s | Some i \<Rightarrow> inode_ref i s)"

definition ref_file :: "kst \<Rightarrow> nat \<Rightarrow> kst" where
  "ref_file s n = (case fd_file (p_fd (cur s) n) of
     None \<Rightarrow> s | Some f \<Rightarrow> upd_file f (\<lambda>x. x\<lparr>f_refcnt := f_refcnt x + 1\<rparr>) s)"

definition zero_tms :: tms where
  "zero_tms = \<lparr>tms_utime = 0, tms_stime = 0, tms_cutime = 0, tms_cstime = 0\<rparr>"

definition sys_fork :: "kst \<Rightarrow> (int \<times> kst) option" where
  "sys_fork s = sysret
     (let cnt = length (filter (\<lambda>p. p_ruid (procs s p) = p_ruid (cur s)) (pact s)) in
      if cnt \<ge> MAXUPROC \<and> p_euid (cur s) \<noteq> 0 then fail EAGAIN s
      else case find (\<lambda>i. p_pid (procs s i) = 0) [0..<MAXPROCS] of
        None \<Rightarrow> fail EAGAIN s
      | Some i \<Rightarrow>
          let c = cur s; me = curr s;
              (kstk, s) = palloc (upd_proc i (\<lambda>_. c\<lparr>p_parent := me\<rparr>) s);
              (pt, s) = zpalloc s;
              s = upd_proc i (\<lambda>q. q\<lparr>p_kstk := kstk, p_ptab := pt\<rparr>) s
          in do {
            (r, s) \<leftarrow> (if kstk = 0 \<or> pt = 0 then fail ENOMEM s else pccopy pt s);
            (case r of
               Inl err \<Rightarrow> do {
                 s \<leftarrow> pfree pt s;
                 s \<leftarrow> pfree kstk s;
                 fail err (upd_proc i (\<lambda>_. zero_process) s)
               }
             | Inr _ \<Rightarrow> do {
                 (pid, s) \<leftarrow> allocpid s;
                 let s = upd_proc i (\<lambda>q. q\<lparr>p_pid := pid, p_times := zero_tms\<rparr>) s;
                 let s = foldl ref_file s [0..<MAXFDS];
                 let s = inode_ref (p_root c) (inode_ref (p_cwd c) (ref_ino (p_tty c) s));
                 let s = store_phys (kstk + KSTK_SIZE - 64) (encode_regs ((uregs s)\<lparr>r_eax := 0\<rparr>)) s;
                 Some (Inr pid, s\<lparr>pact := pact s @ [i]\<rparr>)
               })
          })"

section \<open>Wait\<close>

text \<open>
  The children of the caller; a child that has ended and is waited for is the last such in
  the list of processes. The third condition of the code compares a field with itself.
\<close>

definition is_child :: "kst \<Rightarrow> nat \<Rightarrow> bool" where
  "is_child s p \<longleftrightarrow> p_pid (procs s p) \<noteq> 1 \<and> p_pid (procs s p) \<noteq> 0 \<and> p_parent (procs s p) = curr s"

definition wait_for :: "int \<Rightarrow> kst \<Rightarrow> nat \<Rightarrow> bool" where
  "wait_for wpid s p \<longleftrightarrow> is_child s p \<and> p_exited (procs s p)
     \<and> (wpid < 0 \<or> p_pid (procs s p) = wpid \<or> wpid = 0 \<and> p_psid (procs s p) = p_psid (procs s p))"

definition zombie :: "int \<Rightarrow> kst \<Rightarrow> nat option" where
  "zombie wpid s = find (\<lambda>k. wait_for wpid s (pact s ! k)) (rev [0..<length (pact s)])"

definition reap :: "nat \<Rightarrow> nat \<Rightarrow> kst \<Rightarrow> int res" where
  "reap k status s =
     (let z = pact s ! k; q = procs s z in
      bindE (tucpy status (le32 (unat (p_exit_status q))) s) (\<lambda>_ s. do {
        s \<leftarrow> pfree (p_kstk q) s;
        let s = upd_proc z (\<lambda>_. zero_process) s;
        Some (Inr (p_pid q), s\<lparr>pact := butlast ((pact s)[k := last (pact s)])\<rparr>)
      }))"

text \<open>\<open>had\<close> says that a child was seen; it stays set when the loop starts again.\<close>

partial_function (option) wait_loop :: "env \<Rightarrow> int \<Rightarrow> nat \<Rightarrow> bool \<Rightarrow> bool \<Rightarrow> kst \<Rightarrow> int res" where
  "wait_loop e wpid status nohang had s =
     (let had = (had \<or> (\<exists>p \<in> set (pact s). is_child s p)) in
      if \<not> had then fail ECHILD s
      else case zombie wpid s of
        Some k \<Rightarrow> reap k status s
      | None \<Rightarrow>
          if nohang then fail ECHILD s
          else Option.bind (idle e s) (\<lambda>s.
            if p_sig (cur s) \<noteq> 0 then fail EINTR s
            else wait_loop e wpid status nohang had s))"

definition sys_waitpid :: "env \<Rightarrow> int \<Rightarrow> nat \<Rightarrow> 32 word \<Rightarrow> kst \<Rightarrow> (int \<times> kst) option" where
  "sys_waitpid e wpid status options s = sysret (wait_loop e wpid status (options AND 1 \<noteq> 0) False s)"

definition sys_wait :: "env \<Rightarrow> nat \<Rightarrow> kst \<Rightarrow> (int \<times> kst) option" where
  "sys_wait e status s = sys_waitpid e (-1) status 0 s"

section \<open>Process numbers\<close>

definition pid_taken :: "kst \<Rightarrow> int \<Rightarrow> bool" where
  "pid_taken s n \<longleftrightarrow> (\<exists>p \<in> set (pact s). p_pid (procs s p) = n \<or> p_psid (procs s p) = n)"

lemma next_pid_spec: "\<exists>m \<ge> n. next_pid s n = Some m \<and> \<not> pid_taken s m \<and> (\<forall>k. n \<le> k \<and> k < m \<longrightarrow> pid_taken s k)"
proof -
  have "finite {k. pid_taken s k}"
    by (rule finite_subset [of _ "(\<lambda>p. p_pid (procs s p)) ` set (pact s) \<union> (\<lambda>p. p_psid (procs s p)) ` set (pact s)"])
      (auto simp: pid_taken_def)
  then obtain M where M: "\<And>k. pid_taken s k \<Longrightarrow> k < M"
    by (metis finite_less_ub gt_ex mem_Collect_eq finite_imageI Max_ge Max_less_iff all_not_in_conv le_less_trans)
  show ?thesis
  proof (induction "nat (M - n)" arbitrary: n rule: less_induct)
    case less
    show ?case
    proof (cases "pid_taken s n")
      case False
      then show ?thesis by (intro exI [of _ n]) (subst next_pid.simps, auto simp: pid_taken_def)
    next
      case True
      then have "nat (M - (n + 1)) < nat (M - n)" using M by simp
      from less [OF this] obtain m where "m \<ge> n + 1" "next_pid s (n + 1) = Some m" "\<not> pid_taken s m"
        "\<forall>k. n + 1 \<le> k \<and> k < m \<longrightarrow> pid_taken s k" by blast
      moreover have "next_pid s n = next_pid s (n + 1)" using True by (subst next_pid.simps) (simp add: pid_taken_def)
      moreover have "\<forall>k. n \<le> k \<and> k < m \<longrightarrow> pid_taken s k"
        using True calculation(4) by (metis int_one_le_iff_zero_less le_less zle_add1_eq_le zless_imp_add1_zle)
      ultimately show ?thesis by (intro exI [of _ m]) simp
    qed
  qed
qed

text \<open>
  Property C20. \<open>allocpid\<close> always ends, and gives a number that is neither the number nor the
  session of any process; with numbers above 9999 it starts again from 2.
\<close>

theorem allocpid_correct:
  "\<exists>n. allocpid s = Some (n, s\<lparr>nextpid := n\<rparr>)
    \<and> (\<forall>p \<in> set (pact s). p_pid (procs s p) \<noteq> n \<and> p_psid (procs s p) \<noteq> n)
    \<and> (if nextpid s + 1 > 9999 then 2 \<le> n else nextpid s < n)"
  using next_pid_spec [of "if nextpid s + 1 > 9999 then 2 else nextpid s + 1" s]
  by (auto simp: allocpid_def pid_taken_def split: if_splits)

theorem allocpid_correct_witness:
  "\<exists>n. allocpid ex_procs = Some (n, ex_procs\<lparr>nextpid := n\<rparr>) \<and> nextpid ex_procs < n"
  using allocpid_correct [of ex_procs] by (auto simp: ex_procs_def zero_kst_def split: if_splits)

end
