(* ===== verification/Clock.thy ===== *)
theory Clock
  imports Exit
begin

unbundle bit_operations_syntax

text \<open>
  The clock, \<open>kern/clock.c\<close>: the interrupt that counts the time, and the system calls on
  it. The time is a signed number of seconds and a number of ticks, 250 a second. \<open>delay\<close>
  waits for the hardware and \<open>clock_init\<close> programs it.
\<close>

abbreviation (input) "HZ \<equiv> (250::nat)"

text \<open>
  The clock interrupt; \<open>user\<close> says that it came while the user program ran, and \<open>fdc\<close> is
  the floppy driver's part.
\<close>

definition clkint :: "(kst \<Rightarrow> kst) \<Rightarrow> bool \<Rightarrow> kst \<Rightarrow> kst" where
  "clkint fdc user s =
     (let s = clock_chkalarm s;
          s = upd_curr (\<lambda>c. c\<lparr>p_times :=
                if user then (p_times c)\<lparr>tms_utime := tms_utime (p_times c) + 1\<rparr>
                else (p_times c)\<lparr>tms_stime := tms_stime (p_times c) + 1\<rparr>\<rparr>) s;
          s = s\<lparr>k_ticks := k_ticks s + 1\<rparr>;
          s = (if k_ticks s = HZ then s\<lparr>k_ticks := 0, k_time := k_time s + 1, dosync := True\<rparr> else s);
          s = upd_curr (\<lambda>c. c\<lparr>p_time_slice := p_time_slice c - 1\<rparr>) s;
          s = (if p_time_slice (cur s) \<le> 0 then s\<lparr>resched := True\<rparr> else s)
      in fdc s)"

definition clock_ticks :: "kst \<Rightarrow> 32 word" where
  "clock_ticks s = (k_time s - boottime s) * of_nat HZ + of_nat (k_ticks s)"

definition sys_time :: "nat \<Rightarrow> kst \<Rightarrow> (int \<times> kst) option" where
  "sys_time t s =
     (let now = k_time s in
      sysret (bindE (if t \<noteq> 0 then tucpy t (le32 (unat now)) s else Some (Inr (), s)) (\<lambda>_ s.
        Some (Inr (sint now), s))))"

definition sys_stime :: "nat \<Rightarrow> kst \<Rightarrow> (int \<times> kst) option" where
  "sys_stime t s = sysret
     (if p_euid (cur s) \<noteq> 0 then fail EPERM s
      else bindE (fucpy t 4 s) (\<lambda>bs s.
        let nt = of_nat (rd32 bs 0) in
        ret0 ((if boottime s = 0 then s\<lparr>boottime := nt\<rparr> else s)\<lparr>k_time := nt\<rparr>)))"

text \<open>
  With \<open>sec\<close> 0, \<open>sys_alarm\<close> computes its result from a local variable that it has not
  set: the value that happens to be there is the argument \<open>junk\<close>.
\<close>

definition sys_alarm :: "32 word \<Rightarrow> 32 word \<Rightarrow> kst \<Rightarrow> (int \<times> kst) option" where
  "sys_alarm junk sec s =
     (let r = st_time (p_alarm (cur s)) in
      sysret
        (if sec > 100000000 then fail EINVAL s
         else if sec = 0 then
           Some (Inr (if sint junk > sint (k_time s) then uint (junk - k_time s) else 0),
             upd_curr (\<lambda>c. c\<lparr>p_alarm := (p_alarm c)\<lparr>st_time := 0\<rparr>\<rparr>) s)
         else
           Some (Inr (uint (if r \<noteq> 0 then r - k_time s else r)),
             upd_curr (\<lambda>c. c\<lparr>p_alarm := \<lparr>st_time = k_time s + sec, st_ticks = int (k_ticks s)\<rparr>\<rparr>) s)))"

partial_function (option) sleep_loop :: "env \<Rightarrow> 32 word \<Rightarrow> kst \<Rightarrow> kst option" where
  "sleep_loop e t s =
     (if sint t > sint (clock_ticks s) \<and> p_sig (cur s) = 0 then Option.bind (idle e s) (sleep_loop e t)
      else Some s)"

definition sys_sleep :: "env \<Rightarrow> 32 word \<Rightarrow> kst \<Rightarrow> (int \<times> kst) option" where
  "sys_sleep e sec s =
     (let t = clock_ticks s + sec * of_nat HZ in
      map_option (\<lambda>s. (max 0 (sint (t - clock_ticks s)) div int HZ, s)) (sleep_loop e t s))"

definition encode_tms :: "tms \<Rightarrow> byte list" where
  "encode_tms t = le32s [unat (tms_utime t), unat (tms_stime t), unat (tms_cutime t), unat (tms_cstime t)]"

text \<open>\<open>struct timeb\<close>: the time, the milliseconds and two fields that stay 0, with padding.\<close>

definition sys__ftime :: "nat \<Rightarrow> kst \<Rightarrow> (int \<times> kst) option" where
  "sys__ftime buf s = sysret
     (bindE (tucpy buf (le32 (unat (k_time s)) @ le16 (k_ticks s * 1000 div HZ) @ replicate 6 0) s)
       (\<lambda>_ s. ret0 s))"

definition sys_times :: "nat \<Rightarrow> kst \<Rightarrow> (int \<times> kst) option" where
  "sys_times p s = sysret
     (bindE (if p \<noteq> 0 then tucpy p (encode_tms (p_times (cur s))) s else Some (Inr (), s)) (\<lambda>_ s.
        Some (Inr (uint (clock_ticks s)), s)))"

section \<open>Time\<close>

lemma chkalarm_clock [simp]:
  "k_time (clock_chkalarm s) = k_time s" "k_ticks (clock_chkalarm s) = k_ticks s" "boottime (clock_chkalarm s) = boottime s"
  "curr (clock_chkalarm s) = curr s" "dosync (clock_chkalarm s) = dosync s"
  by (simp_all add: clock_chkalarm_def Let_def sendsig_def)

lemma chkalarm_slice [simp]: "p_time_slice (procs (clock_chkalarm s) p) = p_time_slice (procs s p)"
  by (simp add: clock_chkalarm_def Let_def sendsig_def)

text \<open>
  Property C21. The clock counts ticks: the number of ticks stays below 250, every interrupt
  makes the time since the start one tick later, and with every 250th one the
  seconds go up and the disks are to be written back; a process whose time slice
  has run out is to be replaced.
\<close>

theorem clkint_counts:
  assumes "k_ticks s < HZ" and "\<And>t. k_time (fdc t) = k_time t \<and> k_ticks (fdc t) = k_ticks t \<and> boottime (fdc t) = boottime t
    \<and> curr (fdc t) = curr t \<and> procs (fdc t) = procs t \<and> resched (fdc t) = resched t \<and> dosync (fdc t) = dosync t"
  shows "k_ticks (clkint fdc user s) < HZ \<and> clock_ticks (clkint fdc user s) = clock_ticks s + 1
    \<and> (k_time (clkint fdc user s) = (if k_ticks s = HZ - 1 then k_time s + 1 else k_time s))
    \<and> (k_ticks s = HZ - 1 \<longrightarrow> dosync (clkint fdc user s))
    \<and> p_time_slice (cur (clkint fdc user s)) = p_time_slice (cur s) - 1
    \<and> (p_time_slice (cur s) \<le> 1 \<longrightarrow> resched (clkint fdc user s))"
proof -
  have "k_ticks s = HZ - 1 \<or> k_ticks s < HZ - 1" using assms(1) by linarith
  then show ?thesis
    by (auto simp: clkint_def Let_def assms(2) clock_ticks_def algebra_simps)
qed

theorem clkint_counts_witness:
  "clock_ticks (clkint (\<lambda>s. s) True (ex_procs\<lparr>k_ticks := 249\<rparr>)) = clock_ticks (ex_procs\<lparr>k_ticks := 249\<rparr>) + 1"
  using clkint_counts [of "ex_procs\<lparr>k_ticks := 249\<rparr>" "\<lambda>s. s" True] by simp

text \<open>
  An alarm that \<open>alarm\<close> has set goes off exactly once: the interrupts before its
  time leave it alone, the first at or after its time makes \<open>SIGALRM\<close> pending unless the process ignores
  it, and clears the alarm.
\<close>

theorem alarm_goes_off:
  assumes "st_time (p_alarm (cur s)) \<noteq> 0" and "p_sig_ign (cur s) AND sigbit SIGALRM = 0"
  shows "if sint (st_time (p_alarm (cur s))) < sint (k_time s)
        \<or> st_time (p_alarm (cur s)) = k_time s \<and> st_ticks (p_alarm (cur s)) \<le> int (k_ticks s)
     then bit (p_sig (cur (clock_chkalarm s))) (SIGALRM - 1) \<and> st_time (p_alarm (cur (clock_chkalarm s))) = 0
     else clock_chkalarm s = s"
proof -
  have ign: "\<not> bit (p_sig_ign (cur s)) 13"
    using assms(2) by (auto simp: sigbit_def bit_eq_iff bit_simps dest!: spec [of _ 13])
  let ?a = "p_alarm (cur s)"
  have ne: "(st_time ?a = k_time s) = (sint (st_time ?a) = sint (k_time s))" by (rule word_eq_iff_signed)
  have go: "\<not> sint (st_time ?a) > sint (k_time s) \<and> \<not> (st_time ?a = k_time s \<and> st_ticks ?a > int (k_ticks s)) \<longleftrightarrow>
     sint (st_time ?a) < sint (k_time s) \<or> st_time ?a = k_time s \<and> st_ticks ?a \<le> int (k_ticks s)"
    unfolding ne by linarith
  let ?s = "upd_curr (\<lambda>c. c\<lparr>p_alarm := (p_alarm c)\<lparr>st_time := 0\<rparr>\<rparr>) s"
  have "clock_chkalarm s = (if sint (st_time ?a) < sint (k_time s) \<or> st_time ?a = k_time s \<and> st_ticks ?a \<le> int (k_ticks s)
      then snd (sendsig (curr s) SIGALRM ?s) else s)"
    unfolding go [symmetric] using assms(1) by (simp add: clock_chkalarm_def Let_def)
  moreover have "bit (p_sig (cur (snd (sendsig (curr s) SIGALRM ?s)))) (SIGALRM - 1)
      \<and> st_time (p_alarm (cur (snd (sendsig (curr s) SIGALRM ?s)))) = 0"
    using ign by (simp add: sendsig_def ksig_def sigbit_def bit_simps)
  ultimately show ?thesis by (simp add: sendsig_def)
qed

theorem alarm_goes_off_witness:
  "bit (p_sig (cur (clock_chkalarm (upd_curr (\<lambda>c. c\<lparr>p_alarm := \<lparr>st_time = 4, st_ticks = 0\<rparr>\<rparr>) (ex_procs\<lparr>k_time := 5\<rparr>))))) 13"
  using alarm_goes_off [of "upd_curr (\<lambda>c. c\<lparr>p_alarm := \<lparr>st_time = 4, st_ticks = 0\<rparr>\<rparr>) (ex_procs\<lparr>k_time := 5\<rparr>)"]
  by (simp add: ex_procs_def zero_process_def)

end
