(* ===== verification/Syscall.thy ===== *)
theory Syscall
  imports Clock
begin

unbundle bit_operations_syntax

text \<open>
  The system calls of \<open>kern/syscall.c\<close>. \<open>sys__sysmesg\<close> and \<open>sys_reboot\<close> talk to the
  console and the hardware.
\<close>

section \<open>Identity\<close>

definition sys_getpid :: "kst \<Rightarrow> (int \<times> kst) option" where
  "sys_getpid s = Some (p_pid (cur s), s)"

definition sys_getppid :: "kst \<Rightarrow> (int \<times> kst) option" where
  "sys_getppid s = Some (p_pid (procs s (p_parent (cur s))), s)"

definition sys_getuid :: "kst \<Rightarrow> (int \<times> kst) option" where
  "sys_getuid s = Some (sint (p_ruid (cur s)), s)"

definition sys_geteuid :: "kst \<Rightarrow> (int \<times> kst) option" where
  "sys_geteuid s = Some (sint (p_euid (cur s)), s)"

definition sys_getgid :: "kst \<Rightarrow> (int \<times> kst) option" where
  "sys_getgid s = Some (sint (p_rgid (cur s)), s)"

definition sys_getegid :: "kst \<Rightarrow> (int \<times> kst) option" where
  "sys_getegid s = Some (sint (p_egid (cur s)), s)"

definition sys_getpgrp :: "kst \<Rightarrow> (int \<times> kst) option" where
  "sys_getpgrp s = Some (p_psid (cur s), s)"

definition sys_setuid :: "16 word \<Rightarrow> kst \<Rightarrow> (int \<times> kst) option" where
  "sys_setuid uid s = sysret
     (if p_euid (cur s) \<noteq> 0 \<and> p_ruid (cur s) \<noteq> uid then fail EPERM s
      else ret0 (upd_curr (\<lambda>c. c\<lparr>p_ruid := uid, p_euid := uid\<rparr>) s))"

definition sys_setgid :: "16 word \<Rightarrow> kst \<Rightarrow> (int \<times> kst) option" where
  "sys_setgid gid s = sysret
     (if p_euid (cur s) \<noteq> 0 \<and> p_rgid (cur s) \<noteq> gid then fail EPERM s
      else ret0 (upd_curr (\<lambda>c. c\<lparr>p_rgid := gid, p_egid := gid\<rparr>) s))"

definition sys_setsid :: "kst \<Rightarrow> (int \<times> kst) option" where
  "sys_setsid s = sysret
     (if p_psid (cur s) = p_pid (cur s) then fail EPERM s
      else
        let s = upd_curr (\<lambda>c. c\<lparr>p_psid := p_pid c\<rparr>) s in
        Option.bind (iput_opt (p_tty (cur s)) s) (\<lambda>s.
          Some (Inr (p_psid (cur s)), upd_curr (\<lambda>c. c\<lparr>p_tty := None\<rparr>) s)))"

section \<open>Memory\<close>

text \<open>
  \<open>sys_brk\<close> maps the pages below the new break that are missing; it never gives back a
  page. A break above the stack pointer is refused while the pointer is in the stack.
\<close>

definition brk_in_stack :: "nat \<Rightarrow> kst \<Rightarrow> bool" where
  "brk_in_stack a s \<longleftrightarrow> a > r_esp (uregs s) \<and> r_esp (uregs s) \<ge> p_stk (cur s)"

definition do_brk :: "nat \<Rightarrow> kst \<Rightarrow> unit res" where
  "do_brk a s =
     (if brk_in_stack a s then fail ENOMEM s
      else if a > USER_SIZE then fail EFAULT s
      else bindE (map_pages [0..<(a + 4095) mod 2 ^ 32 div 4096] s) (\<lambda>_ s.
        Some (Inr (), upd_curr (\<lambda>c. c\<lparr>p_brk := a\<rparr>) s)))"

definition sys_brk :: "nat \<Rightarrow> kst \<Rightarrow> (int \<times> kst) option" where
  "sys_brk a s = sysret (bindE (do_brk a s) (\<lambda>_ s. ret0 s))"

definition sys_sbrk :: "int \<Rightarrow> kst \<Rightarrow> (int \<times> kst) option" where
  "sys_sbrk incr s =
     (let base = p_brk (cur s); a = nat ((int base + incr) mod 2 ^ 32) in
      if incr < 0 \<or> incr \<ge> int USER_SIZE then sysret (fail EINVAL s)
      else if brk_in_stack a s then sysret (fail ENOMEM s)
      else do {
        (r, s) \<leftarrow> sys_brk a s;
        Some (if r \<noteq> 0 then -1 else int base, s)
      })"

definition sys__newregion :: "nat \<Rightarrow> nat \<Rightarrow> kst \<Rightarrow> (int \<times> kst) option" where
  "sys__newregion base len s = sysret
     (bindE (newregion base ((base + len) mod 2 ^ 32) s) (\<lambda>_ s. ret0 s))"

definition sys__mfree :: "kst \<Rightarrow> (int \<times> kst) option" where
  "sys__mfree s = Some (int (length (pg_flist s) * 4096 mod 2 ^ 32), s)"

section \<open>Others\<close>

definition sys__iopl :: "kst \<Rightarrow> (int \<times> kst) option" where
  "sys__iopl s = sysret
     (if p_euid (cur s) \<noteq> 0 then fail EPERM s
      else ret0 (s\<lparr>uregs := (uregs s)\<lparr>r_eflags := r_eflags (uregs s) OR 0x3000\<rparr>\<rparr>))"

definition sys__uptime :: "kst \<Rightarrow> (int \<times> kst) option" where
  "sys__uptime s = sysret
     (if boottime s = 0 then fail ENODEV s else Some (Inr (sint (k_time s - boottime s)), s))"

definition sys__setcompat :: "nat \<Rightarrow> kst \<Rightarrow> (int \<times> kst) option" where
  "sys__setcompat entry s = Some (0, upd_curr (\<lambda>c. c\<lparr>p_compat := entry\<rparr>) s)"

text \<open>
  The limit is compared with the old one as an unsigned number, so a negative limit is too
  large for all but the super user, for whom it is invalid.
\<close>

definition sys_ulimit :: "int \<Rightarrow> 32 word \<Rightarrow> kst \<Rightarrow> (int \<times> kst) option" where
  "sys_ulimit cmd limit s = sysret
     (if cmd = 1 then Some (Inr (int (p_fslimit (cur s))), s)
      else if cmd = 2 then
        if unat limit > p_fslimit (cur s) \<and> p_euid (cur s) \<noteq> 0 then fail EPERM s
        else if sint limit < 0 then fail EINVAL s
        else ret0 (upd_curr (\<lambda>c. c\<lparr>p_fslimit := unat limit\<rparr>) s)
      else fail EINVAL s)"

section \<open>The entry\<close>

text \<open>
  \<open>syscall\<close> fetches the four arguments from the user's stack, and the number from \<open>eax\<close>.
  The table of handlers is an argument; it has 73 entries. A handler that ends the process
  returns no value.
\<close>

type_synonym handler = "nat \<Rightarrow> nat \<Rightarrow> nat \<Rightarrow> nat \<Rightarrow> kst \<Rightarrow> (int option \<times> kst) option"

definition set_eax :: "int \<Rightarrow> kst \<Rightarrow> kst" where
  "set_eax v s = s\<lparr>uregs := (uregs s)\<lparr>r_eax := nat (v mod 2 ^ 32)\<rparr>\<rparr>"

definition syscall :: "handler list \<Rightarrow> intr_regs \<Rightarrow> kst \<Rightarrow> kst option" where
  "syscall systab r s = do {
     let s = s\<lparr>uregs := r\<rparr>;
     (a, s) \<leftarrow> fucpy ((r_esp r + 4) mod 2 ^ 32) 16 s;
     (case a of
        Inl _ \<Rightarrow> map_option (set_eax (-1)) (uerr EFAULT s)
      | Inr a \<Rightarrow>
          if r_eax r \<ge> length systab then map_option (set_eax (-1)) (uerr ENOSYS s)
          else map_option (\<lambda>(v, s). case v of None \<Rightarrow> s | Some v \<Rightarrow> set_eax v s)
                 ((systab ! r_eax r) (rd32 a 0) (rd32 a 4) (rd32 a 8) (rd32 a 12) s))
   }"

end
