(* ===== verification/Exec.thy ===== *)
theory Exec
  imports Syscall
begin

unbundle bit_operations_syntax

text \<open>
  Running a program, \<open>kern/exec.c\<close>. The code that a signal handler returns to is assembly
  that is copied to the top of the user's memory; it and the initial flags are the record
  \<open>tramp\<close>, an argument.
\<close>

record tramp =
  t_code :: "byte list" \<comment> \<open>the bytes from \<open>sigret\<close> to \<open>sigrete\<close>\<close>
  t_ret1 :: nat \<comment> \<open>\<open>sigret1 - sigret\<close>\<close>
  t_iflags :: nat

section \<open>The file\<close>

record exehdr =
  x_magic :: "byte list"
  x_base :: nat
  x_start :: nat
  x_end :: nat
  x_stack :: nat
  x_errp :: nat

definition decode_exehdr :: "byte list \<Rightarrow> exehdr" where
  "decode_exehdr b = \<lparr>x_magic = take 8 b, x_base = rd32 b 8, x_start = rd32 b 12, x_end = rd32 b 16,
     x_stack = rd32 b 20, x_errp = rd32 b 24\<rparr>"

definition loadhdr :: "nat \<Rightarrow> kst \<Rightarrow> exehdr res" where
  "loadhdr i s =
     bindE (bmget i 0 s) (\<lambda>b s.
       case b of
         None \<Rightarrow> Some (Inr (decode_exehdr (replicate 28 0)), s)
       | Some b \<Rightarrow> do {
           let hdr = decode_exehdr (b_data (bufs s b));
           s \<leftarrow> blk_put b s;
           Some (Inr hdr, s)
         })"

text \<open>The loop of \<open>loadbin\<close> is that of \<open>reg_read\<close>, but for the result of \<open>uset\<close>.\<close>

definition load_get :: "nat \<Rightarrow> nat \<Rightarrow> nat \<Rightarrow> nat \<Rightarrow> nat \<Rightarrow> kst \<Rightarrow> unit res" where
  "load_get i blk off l buf s =
     bindE (bmap i blk s) (\<lambda>b s.
       if b = 0 then uset buf 0 l s else blk_upread (i_dev s i) b off l buf s)"

definition loadbin :: "nat \<Rightarrow> nat \<Rightarrow> kst \<Rightarrow> unit res" where
  "loadbin i base s =
     bindE (rw_loop (load_get i) base (unat (d_size (i_d (inodes s i)))) 0 s) (\<lambda>_ s. Some (Inr (), s))"

definition exec_open_ino :: "env \<Rightarrow> nat \<Rightarrow> kst \<Rightarrow> nat res" where
  "exec_open_ino e i s =
     (case file_get s of
        (Inl err, s) \<Rightarrow> cleanup (fail err s) (iput i)
      | (Inr f, s) \<Rightarrow> do {
          (r, s) \<leftarrow> fd_get 0 s;
          (case r of
             Inl err \<Rightarrow> cleanup (fail err s) (\<lambda>s. Option.bind (iput i s) (map_option snd \<circ> file_put e f))
           | Inr fd \<Rightarrow>
               let s = upd_fd fd (\<lambda>d. d\<lparr>fd_file := Some f\<rparr>) (set_ops f (Some Reg_rw) (Some Reg_rw) None s)
               in Some (Inr fd, upd_file f (\<lambda>x. x\<lparr>f_flags := 0, f_ino := Some i\<rparr>) s))
        })"

section \<open>Which file to run\<close>

definition chars :: "string \<Rightarrow> byte list" where
  "chars = map of_char"

definition MAGIC :: "byte list" where "MAGIC = chars ''XENUS386''"
definition MAGIC_SHL :: "byte list" where "MAGIC_SHL = chars ''XENUSHL'' @ [1]"
definition SHELL :: "byte list" where "SHELL = chars ''/bin/sh''"

definition is_text :: "byte \<Rightarrow> bool" where
  "is_text c \<longleftrightarrow> 0x20 \<le> c \<and> c < 0x80 \<or> c = 10 \<or> c = 9"

definition is_script :: "byte list \<Rightarrow> bool" where
  "is_script m \<longleftrightarrow> list_all is_text (takeWhile (\<lambda>c. c \<noteq> 0) m)"

text \<open>The program that runs binaries of another system.\<close>

definition compat_prog :: "byte list \<Rightarrow> byte list option" where
  "compat_prog m =
     (if m = MAGIC_SHL then Some (chars ''/bin/shlib'')
      else if m ! 0 = 1 \<and> m ! 1 = 3 then Some (chars ''/usr/compat/minix'')
      else if m ! 0 = 8 \<and> m ! 1 = 1 then Some (chars ''/usr/compat/v7unx'')
      else if m ! 0 = 7 \<and> m ! 1 = 1 then Some (chars ''/usr/compat/v7unx'')
      else None)"

text \<open>
  The arguments are separated by bytes 255. A script's arguments become those of the shell,
  in a page of the kernel; a longer string than the page is outside it.
\<close>

definition script_args :: "byte list \<Rightarrow> byte list \<Rightarrow> byte list" where
  "script_args name arg = SHELL @ [255] @ name @ [255] @ tl (dropWhile (\<lambda>c. c \<noteq> 255) arg)"

text \<open>What the label \<open>again\<close> is passed with, and what the search finds.\<close>

record target =
  x_name :: "byte list"
  x_arg :: "byte list"
  x_narg :: nat
  x_oname :: "byte list option"
  x_oino :: "nat option"

definition put_target :: "target \<Rightarrow> nat \<Rightarrow> kst \<Rightarrow> kst option" where
  "put_target t i s = Option.bind (iput_opt (x_oino t) s) (iput i)"

function exec_find :: "target \<Rightarrow> kst \<Rightarrow> (target \<times> nat \<times> exehdr) res" where
  "exec_find t s =
     Option.bind (dir_traverse (x_name t) False s) (\<lambda>(r, s).
     case r of
       Inl err \<Rightarrow> fail (if err = ENOENT \<and> x_oname t \<noteq> None then ENOEXEC else err) s
     | Inr i \<Rightarrow>
         if \<not> S_ISREG (i_mode s i) \<or> i_mode s i AND 0x49 = 0 then cleanup (fail EACCES s) (put_target t i)
         else case inode_chkperm i X_OK s of
           Some err \<Rightarrow> cleanup (fail err s) (put_target t i)
         | None \<Rightarrow>
             Option.bind (loadhdr i s) (\<lambda>(r, s).
             case r of
               Inl err \<Rightarrow> cleanup (fail err s) (put_target t i)
             | Inr hdr \<Rightarrow>
                 if x_magic hdr = MAGIC then Some (Inr (t, i, hdr), s)
                 else if is_script (x_magic hdr) then
                   if x_narg t \<noteq> 0 then Option.bind (pfree (x_narg t) s) (fail ENOEXEC)
                   else if length (x_arg t) + 8 > 4096 then fail E2BIG s
                   else if 255 \<notin> set (x_arg t) then fail EINVAL s
                   else case palloc s of (narg, s) \<Rightarrow>
                     if narg = 0 then fail ENOMEM s
                     else if length (script_args (x_name t) (x_arg t)) \<ge> 4096 then None
                     else Option.bind (iput i s) (\<lambda>s.
                       exec_find (t\<lparr>x_arg := script_args (x_name t) (x_arg t), x_narg := narg, x_name := SHELL\<rparr>) s)
                 else case compat_prog (x_magic hdr) of
                   None \<Rightarrow> cleanup (fail ENOEXEC s) (\<lambda>s. Option.bind (iput i s) (pfree (x_narg t)))
                 | Some c \<Rightarrow>
                     if x_oname t \<noteq> None then cleanup (fail ENOEXEC s) (\<lambda>s. Option.bind (iput i s) (pfree (x_narg t)))
                     else exec_find (t\<lparr>x_oname := Some (x_name t), x_name := c, x_oino := Some i\<rparr>) s))"
  by pat_completeness auto
termination
  by (relation "measure (\<lambda>(t, s). (if x_narg t = 0 then 1 else 0) + (if x_oname t = None then 1 else 0))") auto

section \<open>The new image\<close>

definition sub32 :: "nat \<Rightarrow> nat \<Rightarrow> nat" where
  "sub32 a b = nat ((int a - int b) mod 2 ^ 32)"

text \<open>The addresses of the strings and of the stack below the top of memory.\<close>

record layout =
  l_sig :: nat
  l_nam :: nat
  l_env :: nat
  l_arg :: nat
  l_stk :: nat

definition exec_layout :: "tramp \<Rightarrow> target \<Rightarrow> byte list \<Rightarrow> nat \<Rightarrow> layout" where
  "exec_layout tr t env stack =
     (let siga = sub32 USER_SIZE (length (t_code tr));
          nama = (case x_oname t of None \<Rightarrow> siga | Some n \<Rightarrow> sub32 siga (length n + 1));
          enva = sub32 nama (length env + 1);
          arga = sub32 enva (length (x_arg t) + 1)
      in \<lparr>l_sig = siga, l_nam = nama, l_env = enva, l_arg = arga, l_stk = sub32 arga stack div 8 * 8\<rparr>)"

definition exec_set :: "tramp \<Rightarrow> exehdr \<Rightarrow> layout \<Rightarrow> process \<Rightarrow> process" where
  "exec_set tr h l c = c\<lparr>p_size := 0, p_errp := x_errp h, p_sigret := l_sig l,
     p_sigret1 := (l_sig l + t_ret1 tr) mod 2 ^ 32, p_sig_usr := 0,
     p_brk := (if x_base h \<noteq> 0 then 16 else x_end h), p_stk := l_stk l, p_astk := USER_SIZE,
     p_base := x_base h, p_end := x_end h, p_compat := 0\<rparr>"

text \<open>\<open>S_ISUID\<close> and \<open>S_ISGID\<close>\<close>

definition set_ids :: "nat \<Rightarrow> kst \<Rightarrow> kst" where
  "set_ids i s =
     (let d = i_d (inodes s i) in
      upd_curr (\<lambda>c. c\<lparr>p_euid := (if d_mode d AND 0x800 \<noteq> 0 then d_uid d else p_euid c),
                      p_egid := (if d_mode d AND 0x400 \<noteq> 0 then d_gid d else p_egid c)\<rparr>) s)"

definition exec_regs :: "tramp \<Rightarrow> exehdr \<Rightarrow> layout \<Rightarrow> nat \<Rightarrow> bool \<Rightarrow> intr_regs \<Rightarrow> intr_regs" where
  "exec_regs tr h l fd other r = r\<lparr>r_eip := x_start h, r_eax := 0, r_ebx := l_arg l, r_ecx := fd,
     r_edx := 0, r_esi := l_env l, r_edi := (if other then l_nam l else 0), r_ebp := 0,
     r_cs := 0x1B, r_ds := 0x23, r_es := 0x23, r_fs := 0x23, r_gs := 0x23, r_ss := 0x23,
     r_esp := l_arg l, r_eflags := t_iflags tr\<rparr>"

definition set_comm :: "byte list \<Rightarrow> process \<Rightarrow> process" where
  "set_comm name c =
     (case strncpy (p_comm c) (cstr (basename name)) (NAME_MAX + 1) of
        None \<Rightarrow> c | Some l \<Rightarrow> c\<lparr>p_comm := l\<rparr>)"

text \<open>
  Once the old image is gone, an error can only be reported by a signal that ends the
  process: \<open>sendksig(curr, SIGABRT)\<close>, and \<open>do_exec\<close> returns 0.
\<close>

definition exec_abort :: "(kst \<Rightarrow> kst option) \<Rightarrow> kst \<Rightarrow> unit res" where
  "exec_abort f s = Option.bind (f (snd (sendksig (curr s) SIGABRT s))) (\<lambda>s. Some (Inr (), s))"

definition exec_finish :: "env \<Rightarrow> tramp \<Rightarrow> target \<Rightarrow> byte list \<Rightarrow> exehdr \<Rightarrow> layout \<Rightarrow> nat \<Rightarrow> kst \<Rightarrow> unit res" where
  "exec_finish e tr t env h l fd s = do {
     let s = upd_curr (\<lambda>c. c\<lparr>p_linkmode := 0, p_namlen := NAME_MAX\<rparr>) s;
     let s = s\<lparr>uregs := exec_regs tr h l fd (x_oname t \<noteq> None) (uregs s)\<rparr>;
     s \<leftarrow> (case x_oname t of
             Some on \<Rightarrow> map_option (\<lambda>(_, s). upd_curr (\<lambda>c. c\<lparr>p_cpname := Some (x_name t)\<rparr>) s)
               (tucpy (l_nam l) on (upd_curr (set_comm on) s))
           | None \<Rightarrow> Some (upd_curr (\<lambda>c. (set_comm (x_name t) c)\<lparr>p_cpname := None\<rparr>) s));
     (_, s) \<leftarrow> tucpy (l_arg l) (x_arg t) s;
     (_, s) \<leftarrow> tucpy (l_env l) env s;
     (_, s) \<leftarrow> tucpy (l_sig l) (t_code tr) s;
     s \<leftarrow> fd_cloexec_all e s;
     Some (Inr (), s)
   }"

definition exec_image :: "env \<Rightarrow> tramp \<Rightarrow> target \<Rightarrow> byte list \<Rightarrow> nat \<Rightarrow> exehdr \<Rightarrow> kst \<Rightarrow> unit res" where
  "exec_image e tr t env i h s =
     (let free = pfree (x_narg t); putall = (\<lambda>s. Option.bind (put_target t i s) free) in
      if x_base h \<ge> USER_SIZE \<or> x_end h > USER_SIZE \<or> x_stack h > USER_SIZE \<or> x_end h + x_stack h > USER_SIZE
      then cleanup (fail ENOEXEC s) putall
      else do {
        let l = exec_layout tr t env (x_stack h);
        s \<leftarrow> free_entries (ptab s) [0..<1024] s;
        (r, s) \<leftarrow> pcalloc (upd_curr (exec_set tr h l) s);
        (case r of
           Inl _ \<Rightarrow> exec_abort putall s
         | Inr _ \<Rightarrow> do {
             let s = (case x_oino t of None \<Rightarrow> s | Some oi \<Rightarrow> set_ids oi s);
             (r, s) \<leftarrow> loadbin i (x_base h) (updatecpu (set_ids i s));
             s \<leftarrow> iput i s;
             (case r of
                Inl _ \<Rightarrow> exec_abort (\<lambda>s. Option.bind (free s) (iput_opt (x_oino t))) s
              | Inr _ \<Rightarrow>
                  (case x_oino t of
                     None \<Rightarrow> exec_finish e tr t env h l (2 ^ 32 - 1) s
                   | Some oi \<Rightarrow> do {
                       (r, s) \<leftarrow> exec_open_ino e oi s;
                       (case r of
                          Inl _ \<Rightarrow> exec_abort (\<lambda>s. Option.bind (free s) (iput oi)) s
                        | Inr fd \<Rightarrow> exec_finish e tr t env h l fd s)
                     }))
           })
      })"

definition do_exec :: "env \<Rightarrow> tramp \<Rightarrow> byte list \<Rightarrow> byte list \<Rightarrow> byte list \<Rightarrow> kst \<Rightarrow> unit res" where
  "do_exec e tr name arg env s =
     bindE (exec_find \<lparr>x_name = name, x_arg = arg, x_narg = 0, x_oname = None, x_oino = None\<rparr> s)
       (\<lambda>(t, i, h) s. exec_image e tr t env i h s)"

text \<open>
  When one of the three pages cannot be had, \<open>sys__exec\<close> tests a variable \<open>err\<close> that it
  has not set: its value is the argument \<open>junk\<close>.
\<close>

definition sys__exec :: "env \<Rightarrow> tramp \<Rightarrow> errno option \<Rightarrow> nat \<Rightarrow> nat \<Rightarrow> nat \<Rightarrow> kst \<Rightarrow> (int \<times> kst) option" where
  "sys__exec e tr junk name arg env s =
     (let (lname, s) = palloc s; (larg, s) = palloc s; (lenv, s) = palloc s in
      sysret (cleanup
        (if lname = 0 \<or> larg = 0 \<or> lenv = 0 then (case junk of None \<Rightarrow> ret0 s | Some err \<Rightarrow> fail err s)
         else bindE (fustr name PATH_MAX s) (\<lambda>n s.
              bindE (fustr arg 4096 s) (\<lambda>a s.
              bindE (fustr env 4096 s) (\<lambda>v s.
              bindE (do_exec e tr n a v s) (\<lambda>_ s. ret0 s)))))
        (\<lambda>s. do { s \<leftarrow> pfree lname s; s \<leftarrow> pfree larg s; pfree lenv s })))"

end
