(* ===== verification/Systab.thy ===== *)
theory Systab
  imports Exec
begin

unbundle bit_operations_syntax

text \<open>
  The table of system calls, \<open>systab\<close> of \<open>kern/syscall.c\<close>, which \<open>syscall\<close> calls by
  number. The handlers that talk to the console or the hardware, or copy a constant of the
  build, are taken from the argument \<open>ext\<close>, as are the values of uninitialised variables.
\<close>

definition as_int :: "nat \<Rightarrow> int" where
  "as_int a = sint (of_nat a :: 32 word)"

definition ret_val :: "(int \<times> kst) option \<Rightarrow> (int option \<times> kst) option" where
  "ret_val m = map_option (\<lambda>(v, s). (Some v, s)) m"

record sysenv =
  se_env :: env
  se_tramp :: tramp
  se_ext :: "nat \<Rightarrow> handler"
  se_alarm :: "32 word"
  se_exec :: "errno option"

definition systab :: "sysenv \<Rightarrow> handler list" where
  "systab x =
     (let e = se_env x in
      [se_ext x 0,
       \<lambda>a b c d s. map_option (Pair None) (sys__exit e (of_nat a) s),
       \<lambda>a b c d s. ret_val (sys_brk a s),
       \<lambda>a b c d s. ret_val (sys_getpid s),
       \<lambda>a b c d s. ret_val (sys_getppid s),
       \<lambda>a b c d s. ret_val (sys_getuid s),
       \<lambda>a b c d s. ret_val (sys_geteuid s),
       \<lambda>a b c d s. ret_val (sys_getgid s),
       \<lambda>a b c d s. ret_val (sys_getegid s),
       \<lambda>a b c d s. ret_val (sys_signal (as_int a) b s),
       \<lambda>a b c d s. ret_val (sys_kill (as_int a) b s),
       \<lambda>a b c d s. ret_val (sys_mknod a (of_nat b) (of_nat c) s),
       \<lambda>a b c d s. ret_val (sys_open e a (of_nat b) (of_nat c) s),
       \<lambda>a b c d s. ret_val (sys_close e (as_int a) s),
       \<lambda>a b c d s. ret_val (sys_read e (as_int a) b c s),
       \<lambda>a b c d s. ret_val (sys_write e (as_int a) b c s),
       \<lambda>a b c d s. ret_val (sys_lseek (as_int a) (of_nat b) (as_int c) s),
       \<lambda>a b c d s. ret_val (sys_fstat (as_int a) b s),
       \<lambda>a b c d s. ret_val (sys_fchmod (as_int a) (of_nat b) s),
       \<lambda>a b c d s. ret_val (sys_fchown (as_int a) (of_nat b) (of_nat c) s),
       \<lambda>a b c d s. ret_val (sys_access a (of_nat b) s),
       \<lambda>a b c d s. ret_val (sys_chdir a s),
       \<lambda>a b c d s. ret_val (sys_chroot a s),
       \<lambda>a b c d s. ret_val (sys_unlink a s),
       \<lambda>a b c d s. ret_val (sys_mkdir a (of_nat b) s),
       \<lambda>a b c d s. ret_val (sys_rmdir a s),
       \<lambda>a b c d s. ret_val (sys_link a b s),
       \<lambda>a b c d s. ret_val (sys_rename a b s),
       \<lambda>a b c d s. ret_val (sys_ioctl e (as_int a) (as_int b) c s),
       \<lambda>a b c d s. ret_val (sys_fcntl (as_int a) (as_int b) (as_int c) s),
       \<lambda>a b c d s. ret_val (sys__exec e (se_tramp x) (se_exec x) a b c s),
       \<lambda>a b c d s. ret_val (sys_fork s),
       \<lambda>a b c d s. ret_val (sys_wait e a s),
       \<lambda>a b c d s. ret_val (sys_pause e s),
       \<lambda>a b c d s. ret_val (sys_time a s),
       \<lambda>a b c d s. ret_val (sys_stime a s),
       \<lambda>a b c d s. ret_val (sys_alarm (se_alarm x) (of_nat a) s),
       \<lambda>a b c d s. ret_val (sys_setuid (of_nat a) s),
       \<lambda>a b c d s. ret_val (sys_setgid (of_nat a) s),
       \<lambda>a b c d s. ret_val (sys_setsid s),
       \<lambda>a b c d s. ret_val (sys_ttyname3 e (as_int a) b c s),
       \<lambda>a b c d s. ret_val (sys_statfs a b s),
       \<lambda>a b c d s. ret_val (sys_mount a b c s),
       \<lambda>a b c d s. ret_val (sys_umount a s),
       \<lambda>a b c d s. ret_val (sys_sync s),
       \<lambda>a b c d s. ret_val (sys_umask (of_nat a) s),
       \<lambda>a b c d s. ret_val (sys__ctty e a s),
       \<lambda>a b c d s. ret_val (sys_pipe e a s),
       \<lambda>a b c d s. ret_val (sys__killf a b s),
       se_ext x 49,
       \<lambda>a b c d s. ret_val (sys__iopl s),
       \<lambda>a b c d s. ret_val (sys__mfree s),
       se_ext x 52,
       \<lambda>a b c d s. ret_val (sys_stat a b s),
       \<lambda>a b c d s. ret_val (sys_chmod a (of_nat b) s),
       \<lambda>a b c d s. ret_val (sys_chown a (of_nat b) (of_nat c) s),
       \<lambda>a b c d s. ret_val (sys_dup (as_int a) s),
       \<lambda>a b c d s. ret_val (sys_dup2 e (as_int a) (as_int b) s),
       \<lambda>a b c d s. ret_val (sys__uptime s),
       \<lambda>a b c d s. ret_val (sys_sbrk (as_int a) s),
       se_ext x 60,
       \<lambda>a b c d s. ret_val (sys_sleep e (of_nat a) s),
       \<lambda>a b c d s. ret_val (sys__killu (of_nat a) b s),
       \<lambda>a b c d s. ret_val (sys_utime a b s),
       \<lambda>a b c d s. ret_val (sys__newregion a b s),
       \<lambda>a b c d s. ret_val (sys__setcompat a s),
       \<lambda>a b c d s. ret_val (sys_waitpid e (as_int a) b (of_nat c) s),
       \<lambda>a b c d s. ret_val (sys_times a s),
       \<lambda>a b c d s. ret_val (sys_getpgrp s),
       \<lambda>a b c d s. ret_val (sys_ulimit (as_int a) (of_nat b) s),
       \<lambda>a b c d s. ret_val (sys__ftime a s),
       \<lambda>a b c d s. ret_val (sys__sfilsys (of_nat a) s),
       \<lambda>a b c d s. ret_val (sys__readwrite s)])"

section \<open>Errors\<close>

lemma urchk_total:
  assumes "umap_ok s" and "vm_ok T s" and "ptab s \<in> T" and "0 < len" and "p_stk (cur s) + len \<le> USER_SIZE"
  shows "urchk a len s \<noteq> None"
proof (cases "a + len \<le> USER_SIZE")
  case True
  then show ?thesis using urchk_returns [OF assms(1-4)] by simp
next
  case False
  with assms(5) show ?thesis by (auto simp: urchk_def Let_def)
qed

lemma tucpy_total:
  assumes "umap_ok s" and "vm_ok T s" and "ptab s \<in> T" and "bs \<noteq> []" and "p_stk (cur s) + length bs \<le> USER_SIZE"
  shows "returns (tucpy dst bs s) (\<lambda>(r, t). vm_ok T t \<and> umap_ok t
     \<and> (r = Inr () \<longrightarrow> fucpy dst (length bs) t = Some (Inr bs, t)))"
proof (cases "dst + length bs \<le> USER_SIZE")
  case True
  then show ?thesis by (rule returns_mono2 [OF tucpy_fucpy [OF assms(2,3,1) _ assms(4)]]) auto
next
  case False
  with assms(5) show ?thesis using assms(1,2) by (auto simp: tucpy_def with_check_def urchk_def Let_def)
qed

lemma fucpy_total:
  assumes "umap_ok s" and "vm_ok T s" and "ptab s \<in> T" and "0 < len" and "p_stk (cur s) + len \<le> USER_SIZE"
  shows "returns (fucpy a len s) (\<lambda>(r, t). vm_ok T t \<and> umap_ok t \<and> p_stk (cur t) = p_stk (cur s) \<and> ptab t = ptab s)"
proof (cases "a + len \<le> USER_SIZE")
  case True
  obtain r t where u: "urchk a len s = Some (r, t)" using urchk_total [OF assms] by fastforce
  have g: "vm_grows T s t" "umap_ok t" "r = Inr () \<Longrightarrow> \<forall>k < len. utrans t (a + k) \<noteq> None"
    using urchk_grows [OF assms(2,3,1) _ u] True by simp_all
  obtain n k where "cur t = (cur s)\<lparr>p_size := n, p_astk := k\<rparr>" by (rule vm_grows_cur [OF g(1)])
  then have t: "vm_ok T t" "p_stk (cur t) = p_stk (cur s)" "ptab t = ptab s"
    using vm_grows_ok [OF g(1)] vm_grows_ptab [OF g(1)] by simp_all
  show ?thesis using u g t by (cases r) (auto simp: fucpy_def with_check_def uload_spec)
next
  case False
  with assms(5) show ?thesis using assms(1,2) by (auto simp: fucpy_def with_check_def urchk_def Let_def)
qed

text \<open>The parts of the image of a process that the kernel relies on when it reports an error.\<close>

definition errp_ok :: "kst \<Rightarrow> bool" where
  "errp_ok s \<longleftrightarrow> p_base (cur s) \<le> p_errp (cur s) \<and> p_errp (cur s) + 4 \<le> p_end (cur s)
     \<and> p_errp (cur s) < p_stk (cur s) \<and> p_stk (cur s) + 16 \<le> USER_SIZE"

definition image_view :: "kst \<Rightarrow> process \<times> intr_regs" where
  "image_view s = ((cur s)\<lparr>p_size := 0, p_astk := 0\<rparr>, uregs s)"

interpretation img: um_frame image_view
  by unfold_locales (simp_all add: upd_defs image_view_def)

lemma image_viewD:
  assumes "image_view t = image_view s"
  shows "uregs t = uregs s" "p_errp (cur t) = p_errp (cur s)" "p_stk (cur t) = p_stk (cur s)" "ptab t = ptab s"
    "errp_ok t = errp_ok s"
proof -
  have c: "(cur t)\<lparr>p_size := 0, p_astk := 0\<rparr> = (cur s)\<lparr>p_size := 0, p_astk := 0\<rparr>" and "uregs t = uregs s"
    using assms by (simp_all add: image_view_def)
  then show "uregs t = uregs s" by simp
  show 1: "p_errp (cur t) = p_errp (cur s)" "p_stk (cur t) = p_stk (cur s)" "ptab t = ptab s"
    using arg_cong [OF c, of p_errp] arg_cong [OF c, of p_stk] arg_cong [OF c, of p_ptab] by simp_all
  show "errp_ok t = errp_ok s"
    using arg_cong [OF c, of p_base] arg_cong [OF c, of p_end] 1 by (simp add: errp_ok_def)
qed

lemma fucpy_uload: "fucpy a n s = Some (Inr bs, t) \<Longrightarrow> uload a n t = Some bs"
  by (auto simp: fucpy_def with_check_def split: bind_splits sum.splits)

lemma uload_uregs [simp]: "uload a n (s\<lparr>uregs := r\<rparr>) = uload a n s"
  by (induction n arbitrary: a) (simp_all add: utrans_def pte_def)

lemma uerr_spec:
  assumes "umap_ok s" and "vm_ok T s" and "ptab s \<in> T" and "errp_ok s"
  shows "returns (uerr e s) (\<lambda>t. vm_ok T t \<and> umap_ok t \<and> image_view t = image_view s
     \<and> uload (p_errp (cur s)) 4 t = Some (le32 (errno_num e)))"
proof -
  let ?b = "le32 (errno_num e)"
  have ne: "?b \<noteq> []" by (metis length_le32 list.size(3) zero_neq_numeral)
  have stk: "p_stk (cur s) + length ?b \<le> USER_SIZE" using assms(4) by (simp add: errp_ok_def)
  obtain r t where rt: "tucpy (p_errp (cur s)) ?b s = Some (r, t)" "vm_ok T t" "umap_ok t"
      "r = Inr () \<Longrightarrow> fucpy (p_errp (cur s)) 4 t = Some (Inr ?b, t)"
    using tucpy_total [OF assms(1-3) ne stk, of "p_errp (cur s)"] by (auto elim!: returnsE)
  have "urchk (p_errp (cur s)) 4 s = Some (Inr (), s)"
    using assms(4) by (auto simp: errp_ok_def urchk_def Let_def)
  then have "r = Inr ()" using rt(1) by (auto simp: tucpy_def with_check_def split: bind_splits)
  moreover have "image_view t = image_view s"
    using img.keepD [OF img.tucpy_keep rt(1)] by simp
  ultimately show ?thesis using rt fucpy_uload [OF rt(4)] by (simp add: uerr_def)
qed

text \<open>The memory of the running process stays mapped, and outside the range \<open>A\<close> it holds what it held.\<close>

definition user_same :: "nat set \<Rightarrow> kst \<Rightarrow> kst \<Rightarrow> bool" where
  "user_same A s t \<longleftrightarrow> (\<forall>a p. utrans s a = Some p \<longrightarrow> utrans t a = Some p \<and> (a \<notin> A \<longrightarrow> phys t p = phys s p))"

lemma utrans_uregs [simp]: "utrans (s\<lparr>uregs := r\<rparr>) = utrans s"
  by (simp add: utrans_def pte_def fun_eq_iff)

lemma user_same_trans: "user_same A s t \<Longrightarrow> user_same B t u \<Longrightarrow> user_same (A \<union> B) s u"
  unfolding user_same_def by (metis UnCI)

lemma grows_same:
  assumes "vm_ok T s" and "ptab s \<in> T" and "vm_grows T s t"
  shows "user_same {} s t"
  unfolding user_same_def
proof (intro allI impI)
  fix a p
  assume t: "utrans s a = Some p"
  have nz: "a < USER_SIZE" "pte s (a div 4096) \<noteq> 0" "p = pte s (a div 4096) div 4096 * 4096 + a mod 4096"
    using t by (auto simp: utrans_def split: if_splits)
  then have "pte t (a div 4096) = pte s (a div 4096)" using assms(3) by (simp add: vm_grows_def)
  then have "utrans t a = Some p" using t by (simp only: utrans_def)
  moreover have "p div 4096 \<notin> free_pgs s"
  proof -
    have "p div 4096 = page_at s (ptab s, a div 4096)" by (simp only: nz(3) page_at_def pte_def frame_div fst_conv snd_conv)
    moreover have "(ptab s, a div 4096) \<in> entries T s"
      using nz(2) usr_page [OF nz(1)] assms(2) by (simp add: entries_def pte_def)
    ultimately show ?thesis using assms(1) by (simp add: vm_ok_def)
  qed
  ultimately show "utrans t a = Some p \<and> (a \<notin> {} \<longrightarrow> phys t p = phys s p)" using assms(3) by (simp add: vm_grows_def)
qed

lemma urchk_same:
  assumes "vm_ok T s" and "ptab s \<in> T" and "umap_ok s" and "p_stk (cur s) + len \<le> USER_SIZE" and "urchk a len s = Some (r, t)"
  shows "vm_grows T s t \<and> user_same {} s t \<and> (r = Inr () \<longrightarrow> (\<forall>k < len. utrans t (a + k) \<noteq> None))"
proof (cases "a + len < 2 ^ 32")
  case True
  show ?thesis using urchk_grows [OF assms(1-3) True assms(5)] grows_same [OF assms(1,2)] by blast
next
  case False
  then have "r = Inl EFAULT \<and> t = s" using assms(4,5) by (auto simp: urchk_def Let_def split: if_splits)
  then show ?thesis using vm_grows_refl [OF assms(1)] grows_same [OF assms(1,2)] by simp
qed

lemma fucpy_same:
  assumes "vm_ok T s" and "ptab s \<in> T" and "umap_ok s" and "p_stk (cur s) + len \<le> USER_SIZE" and "fucpy a len s = Some (r, t)"
  shows "user_same {} s t"
  using assms(5) urchk_same [OF assms(1-4), of a] by (auto simp: fucpy_def with_check_def split: bind_splits sum.splits)

lemma tucpy_same:
  assumes "vm_ok T s" and "ptab s \<in> T" and "umap_ok s" and "p_stk (cur s) + length bs \<le> USER_SIZE" and "tucpy a bs s = Some (r, t)"
  shows "user_same {a..<a + length bs} s t"
proof -
  obtain e s1 where u: "urchk a (length bs) s = Some (e, s1)"
    using assms(5) by (auto simp: tucpy_def with_check_def split: bind_splits)
  note g = urchk_same [OF assms(1-4) u]
  show ?thesis
  proof (cases e)
    case (Inl x)
    then have "t = s1" using assms(5) u by (simp add: tucpy_def with_check_def)
    then show ?thesis using g by (auto simp: user_same_def)
  next
    case (Inr x)
    have v: "vm_ok T s1" "ptab s1 \<in> T" using g assms(2) vm_grows_ok [of T s s1] vm_grows_ptab [of T s s1] by auto
    obtain ph where ph: "ustore a bs s1 = Some (s1\<lparr>phys := ph\<rparr>)"
        "\<And>p. (\<forall>k < length bs. utrans s1 (a + k) \<noteq> Some p) \<Longrightarrow> ph p = phys s1 p"
      using ustore_spec [OF vm_inj [OF v], of bs a] g Inr by auto
    have "t = s1\<lparr>phys := ph\<rparr>" using assms(5) u Inr ph(1) by (simp add: tucpy_def with_check_def)
    moreover have "phys t p = phys s1 p" if "utrans s1 b = Some p" "b \<notin> {a..<a + length bs}" for b p
    proof -
      have "utrans s1 (a + k) \<noteq> Some p" if "k < length bs" for k
        using utrans_inj [OF v \<open>utrans s1 b = Some p\<close>, of "a + k"] that \<open>b \<notin> _\<close> by auto
      then show ?thesis using ph(2) \<open>t = _\<close> by simp
    qed
    ultimately have "user_same {a..<a + length bs} s1 t" by (simp add: user_same_def)
    then show ?thesis using user_same_trans g by fastforce
  qed
qed

lemma kernel_view_uregs: "kernel_view (s\<lparr>uregs := q\<rparr>) = (kernel_view s)\<lparr>uregs := q\<rparr>"
  by (simp add: kernel_view_def upd_curr_def upd_proc_def)

lemma kernel_view_regs: "kernel_view t = kernel_view u \<Longrightarrow> uregs t = uregs u"
  by (drule arg_cong [of _ _ uregs]) (simp add: kernel_view_def)

text \<open>Whether the arguments of a system call can be read from the caller's stack.\<close>

definition args_readable :: "intr_regs \<Rightarrow> kst \<Rightarrow> bool" where
  "args_readable r s \<longleftrightarrow> (\<exists>a t. fucpy ((r_esp r + 4) mod 2 ^ 32) 16 (s\<lparr>uregs := r\<rparr>) = Some (Inr a, t))"

text \<open>
  Property C0. Errors of the system call entry are values: whatever the registers are, a call whose arguments cannot be
  read from the stack returns -1 to the caller with \<open>EFAULT\<close> in its \<open>errno\<close>, and one that has arguments but a
  number that is not in the table with \<open>ENOSYS\<close>. Nothing else changes: no other register, no other byte of the
  caller's memory, no other part of the kernel's state; the kernel neither faults nor calls a handler.
\<close>

theorem syscall_errors:
  assumes "umap_ok s" and "vm_ok T s" and "ptab s \<in> T" and "errp_ok s"
    and "73 \<le> r_eax r \<or> \<not> args_readable r s"
  shows "returns (syscall (systab x) r s) (\<lambda>t. vm_ok T t \<and> umap_ok t
     \<and> kernel_view t = kernel_view (s\<lparr>uregs := r\<lparr>r_eax := 2 ^ 32 - 1\<rparr>\<rparr>)
     \<and> user_same {p_errp (cur s)..<p_errp (cur s) + 4} s t
     \<and> uload (p_errp (cur s)) 4 t = Some (le32 (errno_num (if args_readable r s then ENOSYS else EFAULT))))"
proof -
  let ?s = "s\<lparr>uregs := r\<rparr>" and ?a = "(r_esp r + 4) mod 2 ^ 32" and ?p = "p_errp (cur s)"
  have s: "umap_ok ?s" "vm_ok T ?s" "ptab ?s \<in> T" "errp_ok ?s" "cur ?s = cur s"
    using assms(1-4) by (simp_all add: umap_ok_def pte_def errp_ok_def vm_ok_cong [of ?s s])
  have stk: "0 < (16 :: nat)" "p_stk (cur ?s) + 16 \<le> USER_SIZE" using s(4) by (simp_all add: errp_ok_def)
  from fucpy_total [OF s(1-3) stk, of ?a] obtain b u
    where u: "fucpy ?a 16 ?s = Some (b, u)" "vm_ok T u" "umap_ok u" "ptab u \<in> T"
    using s(3) by (auto elim!: returnsE)
  have iv: "image_view u = image_view ?s" using img.keepD [OF img.fucpy_keep u(1)] by simp
  note i = image_viewD [OF iv, unfolded s(5)]
  have ku: "kernel_view u = kernel_view ?s" using ker.keepD [OF ker.fucpy_keep u(1)] by simp
  have su: "user_same {} s u"
    using fucpy_same [OF s(2,3,1) stk(2) u(1)] by (simp add: user_same_def)
  have err: "returns (map_option (set_eax (-1)) (uerr e u)) (\<lambda>t. vm_ok T t \<and> umap_ok t
     \<and> kernel_view t = kernel_view (s\<lparr>uregs := r\<lparr>r_eax := 2 ^ 32 - 1\<rparr>\<rparr>) \<and> user_same {?p..<?p + 4} s t
     \<and> uload ?p 4 t = Some (le32 (errno_num e)))" for e
  proof -
    obtain t where t: "uerr e u = Some t" "vm_ok T t" "umap_ok t" "image_view t = image_view u"
        "uload ?p 4 t = Some (le32 (errno_num e))"
      using uerr_spec [OF u(3,2,4), of e] i s(4) by (auto elim!: returnsE)
    have r: "uregs t = r" using image_viewD(1) [OF t(4)] i(1) by simp
    have "kernel_view t = kernel_view ?s" using uerr_kernel [OF t(1)] ku by simp
    then have k: "kernel_view (t\<lparr>uregs := q\<rparr>) = kernel_view (s\<lparr>uregs := q\<rparr>)" for q
      using kernel_view_uregs [where s = "s\<lparr>uregs := r\<rparr>"] by (simp add: kernel_view_uregs)
    obtain v where v: "tucpy (p_errp (cur u)) (le32 (errno_num e)) u = Some (v, t)"
      using t(1) by (auto simp: uerr_def)
    have "p_stk (cur u) + length (le32 (errno_num e)) \<le> USER_SIZE" using i(3) stk(2) s(5) by simp
    from tucpy_same [OF u(2,4,3) this v] have "user_same {?p..<?p + 4} u t" using i(2) by simp
    from user_same_trans [OF su this] have "user_same {?p..<?p + 4} s t" by simp
    then show ?thesis
      using t r k by (simp add: set_eax_def umap_ok_def pte_def vm_ok_cong [of "t\<lparr>uregs := _\<rparr>" t] user_same_def)
  qed
  have len: "length (systab x) = 73" by (simp add: systab_def Let_def)
  show ?thesis
  proof (cases b)
    case (Inl e)
    then have "\<not> args_readable r s" using u(1) by (simp add: args_readable_def)
    then show ?thesis using Inl u(1) returns_mono [OF err [of EFAULT]] by (simp add: syscall_def Let_def)
  next
    case (Inr c)
    then have a: "args_readable r s" using u(1) by (auto simp: args_readable_def)
    with assms(5) have "73 \<le> r_eax r" by blast
    then show ?thesis using a u(1) Inr len returns_mono [OF err [of ENOSYS]] by (simp add: syscall_def Let_def)
  qed
qed

theorem syscall_errors_witness:
  "\<exists>s x. returns (syscall (systab x) (zero_regs\<lparr>r_eax := 99\<rparr>) s) (\<lambda>t. uregs t = zero_regs\<lparr>r_eax := 2 ^ 32 - 1\<rparr> \<and> uload 8 4 t = Some (le32 (errno_num ENOSYS)))
     \<and> returns (syscall (systab x) (zero_regs\<lparr>r_esp := 0x500000\<rparr>) s) (\<lambda>t. uload 8 4 t = Some (le32 (errno_num EFAULT)))"
proof -
  let ?s = "upd_curr (\<lambda>c. c\<lparr>p_ptab := 4096, p_end := 100, p_errp := 8, p_brk := 100, p_stk := 8192, p_astk := USER_SIZE\<rparr>)
    ((zero_kst no_disk no_driver)\<lparr>pg_flist := [9, 8], ptmem := (\<lambda>t i. if t = 4096 \<and> i = 0 then 3 * 4096 + 7 else 0)\<rparr>)"
  have e: "entries {4096} ?s = {(4096, 0)}" "ptab ?s = 4096" "page_at ?s (4096, 0) = 3"
    by (auto simp: entries_def page_at_def split: if_splits)
  have u: "umap_ok ?s" "errp_ok ?s" "p_errp (cur ?s) = 8" "ptab ?s \<in> {4096}"
    by (auto simp: umap_ok_def image_page_def pte_def errp_ok_def zero_kst_def zero_process_def)
  have v: "vm_ok {4096} ?s"
    unfolding vm_ok_def e by (simp add: pg_ok_def e)
  have "\<forall>k < 16. utrans (?s\<lparr>uregs := r\<rparr>) (4 + k) \<noteq> None" for r by (simp add: utrans_def pte_def)
  from uload_spec [OF this] have a: "args_readable (zero_regs\<lparr>r_eax := 99\<rparr>) ?s"
    by (simp add: args_readable_def fucpy_def with_check_def urchk_def Let_def zero_regs_def zero_kst_def zero_process_def)
  have n: "\<not> args_readable (zero_regs\<lparr>r_esp := 0x500000\<rparr>) ?s"
    by (simp add: args_readable_def fucpy_def with_check_def urchk_def Let_def)
  note err = syscall_errors [OF u(1) v u(4,2)]
  define x where "x = \<lparr>se_env = idle_env, se_tramp = \<lparr>t_code = [], t_ret1 = 0, t_iflags = 0\<rparr>,
       se_ext = (\<lambda>_ _ _ _ _ s. None), se_alarm = 0, se_exec = None\<rparr>"
  have "returns (syscall (systab x) (zero_regs\<lparr>r_eax := 99\<rparr>) ?s) (\<lambda>t. uregs t = zero_regs\<lparr>r_eax := 2 ^ 32 - 1\<rparr> \<and> uload 8 4 t = Some (le32 (errno_num ENOSYS)))"
  proof (rule returns_mono [OF err [of "zero_regs\<lparr>r_eax := 99\<rparr>"]])
    fix t assume "vm_ok {4096} t \<and> umap_ok t \<and> kernel_view t = kernel_view (?s\<lparr>uregs := zero_regs\<lparr>r_eax := 99, r_eax := 2 ^ 32 - 1\<rparr>\<rparr>)
     \<and> user_same {p_errp (cur ?s)..<p_errp (cur ?s) + 4} ?s t
     \<and> uload (p_errp (cur ?s)) 4 t = Some (le32 (errno_num (if args_readable (zero_regs\<lparr>r_eax := 99\<rparr>) ?s then ENOSYS else EFAULT)))"
    then show "uregs t = zero_regs\<lparr>r_eax := 2 ^ 32 - 1\<rparr> \<and> uload 8 4 t = Some (le32 (errno_num ENOSYS))"
      using a u(3) by (auto dest: kernel_view_regs)
  qed simp
  moreover have "returns (syscall (systab x) (zero_regs\<lparr>r_esp := 0x500000\<rparr>) ?s) (\<lambda>t. uload 8 4 t = Some (le32 (errno_num EFAULT)))"
    by (rule returns_mono [OF err]) (use n u(3) in simp_all)
  ultimately show ?thesis by blast
qed

end
