(* ===== verification/Creds.thy ===== *)
theory Creds
  imports Systab
begin

unbundle bit_operations_syntax

text \<open>
  A property of the system calls together: what they do to the user and group numbers of
  the process that makes them. Everything else a system call does is irrelevant here, and
  the frames of the components show it.
\<close>

section \<open>The credentials of the running process\<close>

definition creds :: "kst \<Rightarrow> nat \<times> (16 word \<times> 16 word) \<times> (16 word \<times> 16 word) \<times> int \<times> bool" where
  "creds s = (let c = cur s in
     (curr s, (p_ruid c, p_euid c), (p_rgid c, p_egid c), p_pid c, p_exited c))"

interpretation ids: um_frame creds
  by unfold_locales (simp_all add: creds_def Let_def upd_defs)

lemma creds_upd [simp]:
  "creds (upd_file f g s) = creds s" "creds (upd_fd n h s) = creds s"
  "creds (s\<lparr>uregs := r\<rparr>) = creds s" "creds (s\<lparr>nidle := k\<rparr>) = creds s" "creds (s\<lparr>resched := rs\<rparr>) = creds s"
  "creds (s\<lparr>dosync := ds\<rparr>) = creds s" "creds (s\<lparr>k_time := t\<rparr>) = creds s" "creds (s\<lparr>boottime := bt\<rparr>) = creds s"
  "creds (s\<lparr>pact := pa\<rparr>) = creds s" "creds (s\<lparr>nextpid := np\<rparr>) = creds s"
  "creds (wakeup s) = creds s"
  by (simp_all add: creds_def Let_def upd_defs wakeup_def)

lemma creds_upd_proc:
  assumes "\<And>q. (p_ruid (g q), p_euid (g q), p_rgid (g q), p_egid (g q), p_pid (g q), p_exited (g q))
    = (p_ruid q, p_euid q, p_rgid q, p_egid q, p_pid q, p_exited q)"
  shows "creds (upd_proc p g s) = creds s" and "creds (upd_curr g s) = creds s"
  using assms [of "cur s"] by (auto simp: creds_def Let_def upd_defs)

lemma creds_upd_proc_other: "p \<noteq> curr s \<Longrightarrow> creds (upd_proc p g s) = creds s"
  by (simp add: creds_def Let_def upd_defs)

lemma creds_sendsig [simp]: "creds (snd (sendsig p sig s)) = creds s" "creds (snd (sendusig p sig s)) = creds s"
  by (simp_all add: sendsig_def sendusig_def creds_upd_proc)

text \<open>
  The hypothesis on the environment: drivers do not change the credentials of the process
  that they work for, and when a process runs again after it has slept, it is the same
  process with the same credentials, which nobody else can change.
\<close>

definition env_ids :: "env \<Rightarrow> bool" where
  "env_ids e \<longleftrightarrow>
     (\<forall>m f i nd s. cd_open (e_chr e m) = Some f \<longrightarrow> ids.keep (creds s) (f i nd s))
   \<and> (\<forall>m f i s. cd_close (e_chr e m) = Some f \<longrightarrow> ids.keep (creds s) (f i s))
   \<and> (\<forall>m f req s. cd_read (e_chr e m) = Some f \<longrightarrow> ids.keep (creds s) (f req s))
   \<and> (\<forall>m f req s. cd_write (e_chr e m) = Some f \<longrightarrow> ids.keep (creds s) (f req s))
   \<and> (\<forall>m f i c p s. cd_ioctl (e_chr e m) = Some f \<longrightarrow> ids.keep (creds s) (f i c p s))
   \<and> (\<forall>m f i s. cd_ttyname (e_chr e m) = Some f \<longrightarrow> ids.keep (creds s) (f i s))
   \<and> (\<forall>m f dev c p s. e_blk_ioctl e m = Some f \<longrightarrow> ids.keep (creds s) (f dev c p s))
   \<and> (\<forall>s. ids.keeps (creds s) (e_run e s))"

section \<open>Every component keeps them\<close>

named_theorems ids \<open>operations that keep the credentials\<close>

lemma chr_ids [ids]:
  assumes "env_ids e" and "creds s = v"
  shows "ids.keep v (chr_open e i nd s)" "ids.keep v (chr_close e i s)" "ids.keep v (chr_read e req s)"
    "ids.keep v (chr_write e req s)" "ids.keep v (chr_ioctl e i c p s)" "ids.keep v (chr_ttyname e i s)"
    "ids.keep v (blk_ioctl e i c p s)"
  using assms unfolding chr_open_def chr_close_def chr_read_def chr_write_def chr_ioctl_def chr_ttyname_def blk_ioctl_def
  by (auto simp: env_ids_def Let_def intro!: keep split: option.splits)

lemma idle_ids [ids]:
  assumes "env_ids e" and "creds s = v"
  shows "ids.keeps v (idle e s)"
proof -
  have run: "ids.keeps v (e_run e t)" if "creds t = v" for t
    using assms(1) that by (auto simp: env_ids_def)
  show ?thesis
    unfolding idle_def sched_def by (intro keep run; simp add: assms(2))
qed

lemma wait_writer_ids [ids]:
  assumes "env_ids e" and "creds s = v"
  shows "ids.keep v (wait_writer e i flags s)"
proof (rule ids.keepI)
  fix r assume "wait_writer e i flags s = Some r"
  then show "creds (snd r) = v" using assms
  proof (induction rule: wait_writer.raw_induct [rotated, consumes 1, case_names step])
    case (step f e i flags s r)
    have [keep]: "ids.keep v (f e i flags s)" if "env_ids e" "creds s = v" for e i flags s
      using step.IH that by (blast intro: ids.keepI)
    show ?case
      by (rule ids.keep_snd [OF _ step.hyps]) (intro keep ids; simp add: step.prems creds_upd_proc)
  qed
qed

lemma wait_reader_ids [ids]:
  assumes "env_ids e" and "creds s = v"
  shows "ids.keep v (wait_reader e i flags s)"
proof (rule ids.keepI)
  fix r assume "wait_reader e i flags s = Some r"
  then show "creds (snd r) = v" using assms
  proof (induction rule: wait_reader.raw_induct [rotated, consumes 1, case_names step])
    case (step f e i flags s r)
    have [keep]: "ids.keep v (f e i flags s)" if "env_ids e" "creds s = v" for e i flags s
      using step.IH that by (blast intro: ids.keepI)
    show ?case
      by (rule ids.keep_snd [OF _ step.hyps]) (intro keep ids; simp add: step.prems creds_upd_proc)
  qed
qed

lemma pipe_alloc_ids [ids]: "creds s = v \<Longrightarrow> ids.keep v (pipe_alloc i s)"
  unfolding pipe_alloc_def by (intro keep; simp add: ids.palloc_obs)

lemma pipe_open_ids [ids]: "env_ids e \<Longrightarrow> creds s = v \<Longrightarrow> ids.keep v (pipe_open e i flags s)"
  unfolding pipe_open_def by (intro keep ids; simp)

lemma pipe_done_ids [ids]: "creds s = v \<Longrightarrow> ids.keep v (pipe_done req s)"
  unfolding pipe_done_def by (intro keep; simp)

lemma pipe_getc_ids [ids]: "creds s = v \<Longrightarrow> ids.keep v (pipe_getc i s)"
  and pipe_putc_ids [ids]: "creds s = v \<Longrightarrow> ids.keeps v (pipe_putc i c s)"
  unfolding pipe_getc_def pipe_putc_def by (intro keep; simp)+

lemma pipe_read_loop_ids [ids]:
  assumes "env_ids e" and "creds s = v"
  shows "ids.keep v (pipe_read_loop e count req s)"
proof (rule ids.keepI)
  fix r assume "pipe_read_loop e count req s = Some r"
  then show "creds (snd r) = v" using assms
  proof (induction rule: pipe_read_loop.raw_induct [rotated, consumes 1, case_names step])
    case (step f e count req s r)
    have [keep]: "ids.keep v (f e count req s)" if "env_ids e" "creds s = v" for e count req s
      using step.IH that by (blast intro: ids.keepI)
    show ?case
      by (rule ids.keep_snd [OF _ step.hyps]) (intro keep ids; simp add: step.prems creds_upd_proc)
  qed
qed

lemma pipe_room_ids [ids]:
  assumes "env_ids e" and "creds s = v"
  shows "ids.keep v (pipe_room e req s)"
proof (rule ids.keepI)
  fix r assume "pipe_room e req s = Some r"
  then show "creds (snd r) = v" using assms
  proof (induction rule: pipe_room.raw_induct [rotated, consumes 1, case_names step])
    case (step f e req s r)
    have [keep]: "ids.keep v (f e req s)" if "env_ids e" "creds s = v" for e req s
      using step.IH that by (blast intro: ids.keepI)
    show ?case
      by (rule ids.keep_snd [OF _ step.hyps]) (intro keep ids; simp add: step.prems creds_upd_proc)
  qed
qed

lemma pipe_write_loop_ids [ids]:
  assumes "env_ids e" and "creds s = v"
  shows "ids.keep v (pipe_write_loop e count req s)"
proof (rule ids.keepI)
  fix r assume "pipe_write_loop e count req s = Some r"
  then show "creds (snd r) = v" using assms
  proof (induction rule: pipe_write_loop.raw_induct [rotated, consumes 1, case_names step])
    case (step f e count req s r)
    have [keep]: "ids.keep v (f e count req s)" if "env_ids e" "creds s = v" for e count req s
      using step.IH that by (blast intro: ids.keepI)
    show ?case
      by (rule ids.keep_snd [OF _ step.hyps]) (intro keep ids; simp add: step.prems creds_upd_proc)
  qed
qed

lemma pause_loop_ids [ids]:
  assumes "env_ids e" and "creds s = v"
  shows "ids.keeps v (pause_loop e s)"
proof -
  have "creds r = v" if "pause_loop e s = Some r" for r
    using that assms
  proof (induction rule: pause_loop.raw_induct [rotated, consumes 1, case_names step])
    case (step f e s r)
    have [keep]: "ids.keeps v (f e s)" if "env_ids e" "creds s = v" for e s
      using step.IH that by (cases "f e s") (auto simp: ids.keeps_def)
    show ?case
      by (rule ids.keepsD [OF _ step.hyps]) (intro keep ids; simp add: step.prems creds_upd_proc)
  qed
  then show ?thesis by (cases "pause_loop e s") (simp_all add: ids.keeps_def)
qed

lemma sleep_loop_ids [ids]:
  assumes "env_ids e" and "creds s = v"
  shows "ids.keeps v (sleep_loop e t s)"
proof -
  have "creds r = v" if "sleep_loop e t s = Some r" for r
    using that assms
  proof (induction rule: sleep_loop.raw_induct [rotated, consumes 1, case_names step])
    case (step f e t s r)
    have [keep]: "ids.keeps v (f e t s)" if "env_ids e" "creds s = v" for e t s
      using step.IH that by (cases "f e t s") (auto simp: ids.keeps_def)
    show ?case
      by (rule ids.keepsD [OF _ step.hyps]) (intro keep ids; simp add: step.prems creds_upd_proc)
  qed
  then show ?thesis by (cases "sleep_loop e t s") (simp_all add: ids.keeps_def)
qed


lemma creds_other: "creds s = v \<Longrightarrow> p \<noteq> fst v \<Longrightarrow> creds (upd_proc p g s) = v"
  by (auto simp: creds_def Let_def upd_defs)

lemma creds_upd_fd_file [simp]:
  "creds (upd_curr (\<lambda>c. c\<lparr>p_tty := tt\<rparr>) s) = creds s" "creds (upd_curr (\<lambda>c. c\<lparr>p_cwd := i\<rparr>) s) = creds s"
  "creds (upd_curr (\<lambda>c. c\<lparr>p_root := i\<rparr>) s) = creds s" "creds (set_ops f rd wr io s) = creds s"
  by (simp_all add: creds_upd_proc set_ops_def)

lemma file_get_ids: "file_get s = (r, t) \<Longrightarrow> creds t = creds s"
  by (auto simp: file_get_def split: option.splits)

lemma file_put_ids [ids]: "env_ids e \<Longrightarrow> creds s = v \<Longrightarrow> ids.keep v (file_put e f s)"
  unfolding file_put_def by (intro keep ids; simp add: pipe_close_def Let_def)

lemma fd_get_ids [ids]: "creds s = v \<Longrightarrow> ids.keep v (fd_get n s)"
  unfolding fd_get_def by (intro keep; simp)

lemma fd_put_ids [ids]: "env_ids e \<Longrightarrow> creds s = v \<Longrightarrow> ids.keep v (fd_put e fd s)"
  unfolding fd_put_def by (intro keep ids; simp)

lemma put_both_ids [ids]: "env_ids e \<Longrightarrow> creds s = v \<Longrightarrow> ids.keep v (put_both e fd0 fd1 err s)"
  unfolding put_both_def by (intro keep ids; simp)

lemma file_get_keep [ids]: "creds s = v \<Longrightarrow> ids.keep v (Some (file_get s))"
  by (simp add: ids.keep_def case_prod_beta file_get_def split: option.split)

lemma sys_pipe_ids [ids]: "env_ids e \<Longrightarrow> creds s = v \<Longrightarrow> ids.keep v (sys_pipe e buf s)"
  unfolding sys_pipe_def by (intro keep ids; simp add: file_get_ids pipe_files_def Let_def)

lemma pipe_read_ids [ids]: "env_ids e \<Longrightarrow> creds s = v \<Longrightarrow> ids.keep v (pipe_read e req s)"
  and pipe_write_ids [ids]: "env_ids e \<Longrightarrow> creds s = v \<Longrightarrow> ids.keep v (pipe_write e req s)"
  unfolding pipe_read_def pipe_write_def by (intro keep ids; simp)+

lemma call_ids [ids]: "env_ids e \<Longrightarrow> creds s = v \<Longrightarrow> ids.keep v (call_read e op req s)"
  "env_ids e \<Longrightarrow> creds s = v \<Longrightarrow> ids.keep v (call_write e op req s)"
  unfolding call_read_def call_write_def
  by (cases op; simp; cases "the op"; auto intro!: keep ids)+

lemma touch_ids [simp]: "creds (touch i f s) = creds s"
  by (simp add: touch_def)

lemma rw_calls_ids [ids]:
  "env_ids e \<Longrightarrow> creds s = v \<Longrightarrow> ids.keep v (sys_read e fd buf n s)"
  "env_ids e \<Longrightarrow> creds s = v \<Longrightarrow> ids.keep v (sys_write e fd buf n s)"
  "creds s = v \<Longrightarrow> ids.keep v (sys_lseek fd off w s)"
  "env_ids e \<Longrightarrow> creds s = v \<Longrightarrow> ids.keep v (sys_ttyname3 e fd buf n s)"
  unfolding sys_read_def sys_write_def sys_lseek_def sys_ttyname3_def
  by (intro keep ids; simp)+

lemma sys_ioctl_ids [ids]: "env_ids e \<Longrightarrow> creds s = v \<Longrightarrow> ids.keep v (sys_ioctl e fd cmd p s)"
  unfolding sys_ioctl_def by (intro keep ids; (simp split: ioctl_op.split)?) (auto intro!: keep ids split: ioctl_op.split)

lemma open_ops_ids [ids]: "env_ids e \<Longrightarrow> creds s = v \<Longrightarrow> ids.keep v (open_ops e i f flags s)"
  unfolding open_ops_def by (intro keep ids; simp)

lemma do_open_ids [ids]: "env_ids e \<Longrightarrow> creds s = v \<Longrightarrow> ids.keep v (do_open e path flags mode s)"
  unfolding do_open_def comp_def by (intro keep ids; simp add: file_get_ids)

lemma open_calls_ids [ids]:
  "env_ids e \<Longrightarrow> creds s = v \<Longrightarrow> ids.keep v (sys_open e p fl m s)"
  "env_ids e \<Longrightarrow> creds s = v \<Longrightarrow> ids.keep v (sys_close e fd s)"
  "env_ids e \<Longrightarrow> creds s = v \<Longrightarrow> ids.keep v (sys__ctty e p s)"
  "creds s = v \<Longrightarrow> ids.keep v (sys_chdir p s)"
  "creds s = v \<Longrightarrow> ids.keep v (sys_chroot p s)"
  unfolding sys_open_def sys_close_def sys__ctty_def sys_chdir_def sys_chroot_def
  by (intro keep ids; simp)+

lemma copy_fd_ids [ids]: "creds s = v \<Longrightarrow> ids.keeps v (copy_fd fd nfd s)"
  unfolding copy_fd_def by (intro keep; simp)

lemma fd_calls_ids [ids]:
  "creds s = v \<Longrightarrow> ids.keep v (sys_dup fd s)"
  "env_ids e \<Longrightarrow> creds s = v \<Longrightarrow> ids.keep v (sys_dup2 e fd nfd s)"
  "creds s = v \<Longrightarrow> ids.keep v (sys_fcntl fd cmd arg s)"
  "creds s = v \<Longrightarrow> ids.keep v (sys__sfilsys fl s)"
  unfolding sys_dup_def sys_dup2_def sys_fcntl_def sys__sfilsys_def
  by (intro keep ids; simp add: creds_upd_proc)+

lemma creds_foldl: "(\<And>s x. creds (f s x) = creds s) \<Longrightarrow> creds (foldl f s xs) = creds s"
  by (induction xs arbitrary: s) simp_all

lemma killf_proc_ids [simp]: "creds (killf_proc i sig s p) = creds s"
  by (auto simp: killf_proc_def Let_def intro!: creds_foldl split: option.split)

lemma sys__killf_ids [ids]: "creds s = v \<Longrightarrow> ids.keep v (sys__killf p sig s)"
  unfolding sys__killf_def by (intro keep; simp add: creds_foldl)

lemma kill_all_ids [simp]: "creds (snd (snd (kill_all sig ps err sent s))) = creds s"
proof (induction sig ps err sent s rule: kill_all.induct)
  case (2 sig p ps err sent s)
  then show ?case using creds_sendsig(2) [of p sig s] by (auto split: prod.split simp: case_prod_beta)
qed simp

lemma sendusig_ids: "sendusig p sig s = (r, t) \<Longrightarrow> creds t = creds s"
  using creds_sendsig(2) [of p sig s] by simp

lemma sys_kill_ids [ids]: "creds s = v \<Longrightarrow> ids.keep v (sys_kill pid sig s)"
  unfolding sys_kill_def Let_def case_prod_beta by (intro keep; simp add: case_prod_beta split: option.split)

lemma sys__killu_ids [ids]: "creds s = v \<Longrightarrow> ids.keep v (sys__killu u sig s)"
  unfolding sys__killu_def by (intro keep; simp add: creds_foldl)

lemma sys_signal_ids [ids]: "creds s = v \<Longrightarrow> ids.keep v (sys_signal n h s)"
  unfolding sys_signal_def by (intro keep; simp add: creds_upd_proc)

lemma clock_calls_ids [ids]:
  "env_ids e \<Longrightarrow> creds s = v \<Longrightarrow> ids.keep v (sys_pause e s)"
  "creds s = v \<Longrightarrow> ids.keep v (sys_time p s)"
  "creds s = v \<Longrightarrow> ids.keep v (sys_alarm j n s)"
  "env_ids e \<Longrightarrow> creds s = v \<Longrightarrow> ids.keep v (sys_sleep e n s)"
  "creds s = v \<Longrightarrow> ids.keep v (sys__ftime p s)"
  "creds s = v \<Longrightarrow> ids.keep v (sys_times p s)"
  unfolding sys_pause_def sys_time_def sys_alarm_def sys_sleep_def sys__ftime_def sys_times_def
  by (intro keep ids; simp add: creds_upd_proc)+

lemma sys_stime_ids [ids]: "creds s = v \<Longrightarrow> ids.keep v (sys_stime p s)"
  unfolding sys_stime_def by (intro keep; simp add: creds_def)

lemma do_brk_ids [ids]: "creds s = v \<Longrightarrow> ids.keep v (do_brk a s)"
  unfolding do_brk_def by (intro keep; simp add: creds_upd_proc)

lemma sys_brk_ids [ids]: "creds s = v \<Longrightarrow> ids.keep v (sys_brk a s)"
  unfolding sys_brk_def by (intro keep ids; simp)

lemma mem_calls_ids [ids]:
  "creds s = v \<Longrightarrow> ids.keep v (sys_sbrk n s)"
  "creds s = v \<Longrightarrow> ids.keep v (sys__newregion a l s)"
  "creds s = v \<Longrightarrow> ids.keep v (sys__mfree s)"
  unfolding sys_sbrk_def sys__newregion_def sys__mfree_def by (intro keep ids; simp)+

lemma misc_calls_ids [ids]:
  "creds s = v \<Longrightarrow> ids.keep v (sys_getpid s)" "creds s = v \<Longrightarrow> ids.keep v (sys_getppid s)"
  "creds s = v \<Longrightarrow> ids.keep v (sys_getuid s)" "creds s = v \<Longrightarrow> ids.keep v (sys_geteuid s)"
  "creds s = v \<Longrightarrow> ids.keep v (sys_getgid s)" "creds s = v \<Longrightarrow> ids.keep v (sys_getegid s)"
  "creds s = v \<Longrightarrow> ids.keep v (sys_getpgrp s)" "creds s = v \<Longrightarrow> ids.keep v (sys_setsid s)"
  "creds s = v \<Longrightarrow> ids.keep v (sys__iopl s)" "creds s = v \<Longrightarrow> ids.keep v (sys__uptime s)"
  "creds s = v \<Longrightarrow> ids.keep v (sys__setcompat a s)" "creds s = v \<Longrightarrow> ids.keep v (sys_ulimit c l s)"
  "creds s = v \<Longrightarrow> ids.keep v (sys_umask m s)"
  unfolding sys_getpid_def sys_getppid_def sys_getuid_def sys_geteuid_def sys_getgid_def sys_getegid_def
    sys_getpgrp_def sys_setsid_def sys__iopl_def sys__uptime_def sys__setcompat_def sys_ulimit_def sys_umask_def
  by (intro keep; simp add: creds_upd_proc)+

lemma sys_sync_ids [ids]: "creds s = v \<Longrightarrow> ids.keep v (sys_sync s)"
  by (rule keep)


lemma pccopy_undo_ids: "creds s = v \<Longrightarrow> ids.keeps v (pccopy_undo t is s)"
  by (induction "is" arbitrary: s) (auto intro!: keep)

lemma pccopy_pages_ids: "pccopy_pages t is s = (r, u) \<Longrightarrow> creds u = creds s"
proof (induction "is" arbitrary: s)
  case (Cons i "is" s)
  then show ?case
    by (fastforce simp: copy_page_def split: if_splits prod.splits dest: ids.palloc_obs)
qed simp

lemma pccopy_ids [ids]: "creds s = v \<Longrightarrow> ids.keep v (pccopy t s)"
  unfolding pccopy_def by (intro keep pccopy_undo_ids; simp add: pccopy_pages_ids)

lemma allocpid_ids [ids]: "creds s = v \<Longrightarrow> ids.keep v (allocpid s)"
  unfolding allocpid_def by (cases "next_pid s (if nextpid s + 1 > 9999 then 2 else nextpid s + 1)") (simp_all add: keep)

lemma alloc_creds: "(p, t) = palloc s \<Longrightarrow> creds t = creds s" "(p, t) = zpalloc s \<Longrightarrow> creds t = creds s"
  by (metis ids.palloc_obs, metis ids.zpalloc_obs)

lemma ref_ids [simp]: "creds (ref_file s n) = creds s" "creds (ref_ino i s) = creds s" "creds (inode_ref j s) = creds s"
  "creds (store_phys a bs s) = creds s"
  by (simp_all add: ref_file_def ref_ino_def inode_ref_def store_phys_def split: option.split)

lemma fst_creds [simp]: "fst (creds s) = curr s"
  by (simp add: creds_def Let_def)

lemma sys_fork_ids [ids]:
  assumes "creds s = v" and "p_pid (cur s) \<noteq> 0"
  shows "ids.keep v (sys_fork s)"
proof -
  have other: "i \<noteq> fst v" if "find (\<lambda>i. p_pid (procs s i) = 0) is = Some i" for i "is"
    using that assms by (auto simp: find_Some_iff)
  note upd = creds_other [OF _ other]
  show ?thesis
    unfolding sys_fork_def
    by (intro keep ids; (simp add: assms creds_foldl upd)?) (auto simp: assms(1) upd dest!: alloc_creds)
qed

lemma zombie_exited: "zombie w s = Some k \<Longrightarrow> p_exited (procs s (pact s ! k))"
  by (auto simp: zombie_def find_Some_iff wait_for_def)

lemma reap_ids [ids]:
  assumes "creds s = v" and "p_exited (procs s (pact s ! k))" and "\<not> p_exited (cur s)"
  shows "ids.keep v (reap k status s)"
proof -
  have "pact s ! k \<noteq> fst v" using assms by auto
  then show ?thesis
    unfolding reap_def by (intro keep; simp add: assms(1) creds_other)
qed

lemma exited_creds: "creds s = v \<Longrightarrow> \<not> snd (snd (snd (snd v))) \<Longrightarrow> \<not> p_exited (cur s)"
  by (auto simp: creds_def Let_def)

lemma wait_loop_ids [ids]:
  assumes "env_ids e" and "creds s = v" and "\<not> snd (snd (snd (snd v)))"
  shows "ids.keep v (wait_loop e w st nh had s)"
proof (rule ids.keepI)
  fix r assume "wait_loop e w st nh had s = Some r"
  then show "creds (snd r) = v" using assms
  proof (induction rule: wait_loop.raw_induct [rotated, consumes 1, case_names step])
    case (step f e w st nh had s r)
    have [keep]: "ids.keep v (f e w st nh had s)" if "env_ids e" "creds s = v" for e w st nh had s
      using step.IH that step.prems(3) by (blast intro: ids.keepI)
    show ?case
      by (rule ids.keep_snd [OF _ step.hyps])
        (intro keep ids; simp add: step.prems zombie_exited exited_creds [OF step.prems(2,3)])
  qed
qed

lemma wait_calls_ids [ids]:
  assumes "env_ids e" and "creds s = v" and "\<not> p_exited (cur s)"
  shows "ids.keep v (sys_waitpid e w st opts s)" and "ids.keep v (sys_wait e st s)"
  unfolding sys_wait_def sys_waitpid_def using assms
  by (auto intro!: keep ids simp: creds_def Let_def)


section \<open>System calls\<close>

text \<open>What is left of the credentials \<open>v\<close> of a process that is not the super user's.\<close>

definition lowered :: "nat \<times> (16 word \<times> 16 word) \<times> (16 word \<times> 16 word) \<times> int \<times> bool
    \<Rightarrow> nat \<times> (16 word \<times> 16 word) \<times> (16 word \<times> 16 word) \<times> int \<times> bool \<Rightarrow> bool" where
  "lowered v w = (case (v, w) of ((c, (ru, eu), (rg, eg), x), (c', (ru', eu'), (rg', eg'), x')) \<Rightarrow>
     c' = c \<and> x' = x \<and> ru' = ru \<and> (eu' = eu \<or> eu' = ru) \<and> rg' = rg \<and> (eg' = eg \<or> eg' = rg))"

definition lowers :: "kst \<Rightarrow> ('a \<times> kst) option \<Rightarrow> bool" where
  "lowers s m \<longleftrightarrow> when_returns m (\<lambda>(r, t). lowered (creds s) (creds t))"

lemma lowered_refl: "lowered v v"
  by (simp add: lowered_def split: prod.splits)

lemma keep_lowers: "ids.keep (creds s) m \<Longrightarrow> lowers s m"
  by (cases m) (auto simp: lowers_def ids.keep_def lowered_refl)

lemma keep_ret_val: "ids.keep v m \<Longrightarrow> ids.keep v (ret_val m)"
  unfolding ret_val_def by (intro keep) auto

lemmas call_keeps = keep_lowers [OF keep_ret_val]

lemma uerr_creds: "uerr e s = Some t \<Longrightarrow> creds t = creds s"
  by (rule ids.keepsD [OF ids.uerr_keep]) simp_all

lemma sysret_fail_ids: "ids.keep (creds s) (sysret (fail e s))"
  by (intro keep; simp)

lemma setuid_lowers:
  assumes "p_euid (cur s) \<noteq> 0"
  shows "lowers s (ret_val (sys_setuid u s))" and "lowers s (ret_val (sys_setgid g s))"
proof -
  have "lowers s (ret_val (sysret (ret0 t)))" if "lowered (creds s) (creds t)" for t
    using that by (simp add: lowers_def ret_val_def sysret_def)
  moreover have "lowered (creds s) (creds (upd_curr (\<lambda>c. c\<lparr>p_ruid := p_ruid c, p_euid := p_ruid c\<rparr>) s))"
    and "lowered (creds s) (creds (upd_curr (\<lambda>c. c\<lparr>p_rgid := p_rgid c, p_egid := p_rgid c\<rparr>) s))"
    by (simp_all add: lowered_def creds_def Let_def)
  ultimately show "lowers s (ret_val (sys_setuid u s))" "lowers s (ret_val (sys_setgid g s))"
    using assms call_keeps [OF sysret_fail_ids]
    by (auto simp: sys_setuid_def sys_setgid_def upd_defs)
qed

definition sys_ids :: "sysenv \<Rightarrow> bool" where
  "sys_ids x \<longleftrightarrow> env_ids (se_env x) \<and> (\<forall>n a b c d s. ids.keep (creds s) (se_ext x n a b c d s))"

definition plain_call :: "nat \<times> handler \<Rightarrow> bool" where
  "plain_call kh \<longleftrightarrow> fst kh = 1 \<or> fst kh = 30 \<or>
     (\<forall>a b c d s. p_euid (cur s) \<noteq> 0 \<and> p_pid (cur s) \<noteq> 0 \<and> \<not> p_exited (cur s) \<longrightarrow> lowers s (snd kh a b c d s))"

lemma plain_callI:
  "(\<And>a b c d s. p_euid (cur s) \<noteq> 0 \<Longrightarrow> p_pid (cur s) \<noteq> 0 \<Longrightarrow> \<not> p_exited (cur s) \<Longrightarrow> lowers s (h a b c d s))
    \<Longrightarrow> plain_call (k, h)"
  by (simp add: plain_call_def)

lemma other_callI: "k \<in> {1, 30} \<Longrightarrow> plain_call (k, h)"
  by (auto simp: plain_call_def)

lemma fail_here: "f x = (3::nat) ==> f x = 3" .

lemma systab_plain:
  assumes "sys_ids x"
  shows "list_all plain_call (enumerate 0 (systab x))"
proof -
  have e: "env_ids (se_env x)" and ext: "ids.keep (creds s) (se_ext x n a b c d s)" for n a b c d s
    using assms by (simp_all add: sys_ids_def)
  show ?thesis
    unfolding systab_def Let_def enumerate_simps list.pred_inject(2)
    by (intro conjI TrueI list.pred_inject(1);
      ((rule other_callI, simp; fail)
      | (rule plain_callI, rule setuid_lowers, assumption)
      | (rule plain_callI, (rule keep_lowers [OF ext] call_keeps, (intro keep ids e)?; simp add: e))))
qed

lemma systab_lowers:
  assumes "sys_ids x" and "n < length (systab x)" and "n \<noteq> 1" and "n \<noteq> 30"
    and "p_euid (cur s) \<noteq> 0" and "p_pid (cur s) \<noteq> 0" and "\<not> p_exited (cur s)"
  shows "lowers s ((systab x ! n) a b c d s)"
proof -
  have "plain_call (enumerate 0 (systab x) ! n)"
    using systab_plain [OF assms(1)] assms(2) by (simp add: list_all_length)
  then show ?thesis
    using assms by (simp add: plain_call_def nth_enumerate_eq)
qed

lemma creds_set_eax [simp]: "creds (set_eax v s) = creds s" "creds (s\<lparr>uregs := r\<rparr>) = creds s"
  by (simp_all add: set_eax_def creds_def)

lemma syscall_lowers:
  assumes "sys_ids x" and "r_eax r \<noteq> 1" and "r_eax r \<noteq> 30"
    and "p_euid (cur s) \<noteq> 0" and "p_pid (cur s) \<noteq> 0" and "\<not> p_exited (cur s)"
  shows "when_returns (syscall (systab x) r s) (\<lambda>t. lowered (creds s) (creds t))"
proof -
  have fail: "when_returns (map_option (set_eax v) (uerr e t)) (\<lambda>t. lowered (creds s) (creds t))"
    if "creds t = creds s" for v e t
    using that by (cases "uerr e t") (simp_all add: uerr_creds lowered_refl)
  have call: "when_returns (map_option (\<lambda>(v, s). case v of None \<Rightarrow> s | Some v \<Rightarrow> set_eax v s)
       ((systab x ! n) a b c d t)) (\<lambda>t. lowered (creds s) (creds t))"
    if "creds t = creds s" "n < length (systab x)" "n \<noteq> 1" "n \<noteq> 30" for n a b c d t
  proof -
    have "p_euid (cur t) \<noteq> 0 \<and> p_pid (cur t) \<noteq> 0 \<and> \<not> p_exited (cur t)"
      using that(1) assms(4-6) by (auto simp: creds_def Let_def)
    then have "lowers t ((systab x ! n) a b c d t)"
      using systab_lowers assms(1) that by blast
    then show ?thesis
      using that(1) by (cases "(systab x ! n) a b c d t") (auto simp: lowers_def split: option.split)
  qed
  obtain m where m: "m = fucpy ((r_esp r + 4) mod 2 ^ 32) 16 (s\<lparr>uregs := r\<rparr>)" by simp
  have "ids.keep (creds s) m"
    unfolding m by (rule ids.fucpy_keep) simp
  then show ?thesis
    unfolding syscall_def Let_def m [symmetric]
    by (cases m) (auto simp: ids.keep_def Let_def assms(2,3) assms(2) [unfolded One_nat_def] intro!: fail call split: sum.split)
qed

text \<open>
  Property C7. A process that is not the super user's gains nothing by a system call: for
  every number but those of \<open>exit\<close> and \<open>exec\<close>, and whatever the arguments and the
  drivers do, the real user and group of the process stay the same, and the effective ones
  stay the same or become the real ones.
\<close>

theorem no_privilege_gain:
  assumes "sys_ids x" and "r_eax r \<noteq> 1" and "r_eax r \<noteq> 30"
    and "p_euid (cur s) \<noteq> 0" and "p_pid (cur s) \<noteq> 0" and "\<not> p_exited (cur s)"
    and "syscall (systab x) r s = Some t"
  shows "curr t = curr s \<and> p_ruid (cur t) = p_ruid (cur s) \<and> p_rgid (cur t) = p_rgid (cur s)
    \<and> p_euid (cur t) \<in> {p_euid (cur s), p_ruid (cur s)} \<and> p_egid (cur t) \<in> {p_egid (cur s), p_rgid (cur s)}"
  using syscall_lowers [OF assms(1-6)] assms(7)
  by (auto simp: lowered_def creds_def Let_def)

definition ex_env :: env where
  "ex_env = \<lparr>e_chr = chr_init (\<lambda>_. \<lparr>cd_ttyname = None, cd_open = None, cd_close = None, cd_read = None, cd_write = None, cd_ioctl = None\<rparr>),
     e_blk_ioctl = (\<lambda>_. None), e_run = Some, e_late = (\<lambda>_. False)\<rparr>"

definition ex_sysenv :: sysenv where
  "ex_sysenv = \<lparr>se_env = ex_env, se_tramp = \<lparr>t_code = [], t_ret1 = 0, t_iflags = 0\<rparr>, se_ext = (\<lambda>_ _ _ _ _ s. Some (Some 0, s)), se_alarm = 0, se_exec = None\<rparr>"

text \<open>A set-user-id program that calls \<open>setuid(100)\<close> with the number 37.\<close>

definition ex_setuid :: kst where
  "ex_setuid = upd_curr (\<lambda>c. c\<lparr>p_pid := 5, p_ruid := 100, p_euid := 7, p_ptab := 4096, p_brk := 100, p_stk := 8192, p_astk := USER_SIZE\<rparr>)
    ((zero_kst no_disk no_driver)\<lparr>ptmem := (\<lambda>t i. if t = 4096 \<and> i = 0 then 3 * 4096 + 7 else 0),
       phys := (\<lambda>a. if a = 12308 then 100 else 0)\<rparr>)"

theorem no_privilege_gain_witness:
  "\<exists>t. syscall (systab ex_sysenv) (zero_regs\<lparr>r_eax := 37, r_esp := 16\<rparr>) ex_setuid = Some t
     \<and> p_euid (cur t) \<in> {7, 100} \<and> p_ruid (cur t) = 100 \<and> p_euid (cur t) = 100"
proof -
  let ?r = "zero_regs\<lparr>r_eax := 37, r_esp := 16\<rparr>"
  let ?s = "ex_setuid\<lparr>uregs := ?r\<rparr>"
  have "\<forall>k < 16. utrans ?s (20 + k) = Some (12308 + k)"
    by (simp add: ex_setuid_def zero_kst_def zero_process_def utrans_def pte_def)
  then have "uload 20 16 ?s = Some (map (\<lambda>k. phys ?s (12308 + k)) [0..<16])"
    by (subst uload_spec) auto
  then have u: "uload 20 16 ?s = Some [100, 0, 0, 0, 0, 0, 0, 0, 0, 0, 0, 0, 0, 0, 0, 0]"
    by (simp add: ex_setuid_def upt_rec)
  have "urchk 20 16 ?s = Some (Inr (), ?s)"
    by (simp add: urchk_def ex_setuid_def zero_kst_def zero_process_def)
  with u have f: "fucpy 20 16 ?s = Some (Inr [100, 0, 0, 0, 0, 0, 0, 0, 0, 0, 0, 0, 0, 0, 0, 0], ?s)"
    by (simp add: fucpy_def with_check_def)
  have n: "length (systab ex_sysenv) = 73" "systab ex_sysenv ! 37 = (\<lambda>a b c d s. ret_val (sys_setuid (of_nat a) s))"
    unfolding systab_def Let_def by simp_all
  have s: "p_ruid (cur ?s) = 100" "p_euid (cur ?s) = 7" "p_pid (cur ?s) = 5" "\<not> p_exited (cur ?s)" "curr ?s = 0"
    by (simp_all add: ex_setuid_def zero_kst_def zero_process_def)
  have "rd32 [100, 0, 0, 0, 0, 0, 0, 0, 0, 0, 0, 0, 0, 0, 0, 0] 0 = 100"
    by (simp add: rd32_def rd16_def)
  then have e: "syscall (systab ex_sysenv) ?r ex_setuid
      = Some (set_eax 0 (upd_curr (\<lambda>c. c\<lparr>p_ruid := 100, p_euid := 100\<rparr>) ?s))"
    using f s by (simp add: syscall_def n ret_val_def sys_setuid_def sysret_def)
  have "sys_ids ex_sysenv"
    unfolding sys_ids_def env_ids_def
    by (auto simp: ex_sysenv_def ex_env_def chr_init_def null_read_def null_write_def zero_read_def ids.keeps_def intro!: keep split: if_splits)
  from no_privilege_gain [OF this _ _ _ _ _ e] s e show ?thesis
    by (simp add: set_eax_def)
qed

end
