(* ===== verification/Ttyld.thy ===== *)
theory Ttyld
  imports Sched
begin

unbundle bit_operations_syntax

text \<open>
  The terminal line discipline, \<open>kern/ttyld.c\<close>: a line is collected from the characters
  that the driver reads, with erase and kill characters and echo, and read piece by piece.
  The driver's functions are a record, an argument: they get at the hardware and may sleep,
  but do not change the \<open>struct tty\<close>.
\<close>

section \<open>The terminal\<close>

record tty =
  t_dev :: nat
  t_carrier :: bool
  t_inplen :: nat
  t_unread :: "nat option" \<comment> \<open>the offset in \<open>buf\<close>\<close>
  t_buf :: "byte list"
  t_cc :: "byte list"
  t_cflag :: "32 word"
  t_iflag :: "32 word"
  t_lflag :: "32 word"
  t_oflag :: "32 word"
  t_ispeed :: "32 word"
  t_ospeed :: "32 word"

record tty_driver =
  td_read :: "bool \<Rightarrow> kst \<Rightarrow> byte res"
  td_write :: "byte \<Rightarrow> bool \<Rightarrow> kst \<Rightarrow> unit res"
  td_speed :: "(32 word \<Rightarrow> 32 word) option"

abbreviation (input) "ISIG \<equiv> (1 :: 32 word)"
abbreviation (input) "ICANON \<equiv> (2 :: 32 word)"
abbreviation (input) "ECHO \<equiv> (4 :: 32 word)"
abbreviation (input) "ECHOE \<equiv> (8 :: 32 word)"
abbreviation (input) "XHUP \<equiv> (16 :: 32 word)"
abbreviation (input) "CRTBS \<equiv> (32 :: 32 word)"
abbreviation (input) "OPOST \<equiv> (1 :: 32 word)"
abbreviation (input) "ONLCR \<equiv> (2 :: 32 word)"
abbreviation (input) "VERASE \<equiv> (0::nat)"
abbreviation (input) "VKILL \<equiv> (1::nat)"
abbreviation (input) "VINTR \<equiv> (2::nat)"
abbreviation (input) "VQUIT \<equiv> (3::nat)"
abbreviation (input) "VEOF \<equiv> (4::nat)"
abbreviation (input) "VBOTH \<equiv> (0xFE :: byte)"
abbreviation (input) "VDISABLE \<equiv> (0xFF :: byte)"
abbreviation (input) "MAX_CANON \<equiv> (256::nat)"
abbreviation (input) "CH_BS \<equiv> (8 :: byte)"
abbreviation (input) "CH_NL \<equiv> (10 :: byte)"
abbreviation (input) "CH_CR \<equiv> (13 :: byte)"
abbreviation (input) "CH_SP \<equiv> (32 :: byte)"
abbreviation (input) "CH_DEL \<equiv> (127 :: byte)"

definition ttyld_init :: "tty \<Rightarrow> tty" where
  "ttyld_init t = t\<lparr>t_cflag := 0, t_iflag := 0, t_lflag := ECHO OR ECHOE OR ICANON OR ISIG OR CRTBS,
     t_oflag := OPOST OR ONLCR, t_ispeed := 9600, t_ospeed := 9600, t_unread := None, t_inplen := 0,
     t_cc := [VBOTH, 0x15, 3, 0x1C, 4]\<rparr>"

section \<open>Output and echo\<close>

definition ttyld_output :: "tty_driver \<Rightarrow> tty \<Rightarrow> byte \<Rightarrow> bool \<Rightarrow> kst \<Rightarrow> unit res" where
  "ttyld_output d t c nodelay s = do {
     s \<leftarrow> (if t_oflag t AND (OPOST OR ONLCR) = OPOST OR ONLCR \<and> c = CH_NL
           then map_option snd (td_write d CH_CR nodelay s) else Some s);
     td_write d c nodelay s
   }"

text \<open>The echo of characters ignores errors.\<close>

fun tty_echo :: "tty_driver \<Rightarrow> tty \<Rightarrow> bool \<Rightarrow> byte list \<Rightarrow> kst \<Rightarrow> kst option" where
  "tty_echo d t nodelay [] s = Some s"
| "tty_echo d t nodelay (c # cs) s =
     Option.bind (ttyld_output d t c nodelay s) (\<lambda>(_, s). tty_echo d t nodelay cs s)"

text \<open>What \<open>ttyld_echoe\<close> writes for an erased character.\<close>

definition erase_chars :: "tty \<Rightarrow> byte \<Rightarrow> byte list" where
  "erase_chars t ch =
     (if t_lflag t AND ECHO = 0 then []
      else if t_lflag t AND ECHOE \<noteq> 0 then [CH_BS, CH_SP, CH_BS]
      else if t_lflag t AND CRTBS \<noteq> 0 then [CH_BS]
      else [ch])"

definition ttyld_echoe :: "tty_driver \<Rightarrow> tty \<Rightarrow> byte \<Rightarrow> kst \<Rightarrow> kst option" where
  "ttyld_echoe d t ch s = tty_echo d t False (erase_chars t ch) s"

definition ttyld_cmpc :: "byte \<Rightarrow> byte \<Rightarrow> bool" where
  "ttyld_cmpc c cc \<longleftrightarrow>
     cc = VBOTH \<and> (c = CH_BS \<or> c = CH_DEL) \<or> cc \<noteq> VDISABLE \<and> c = cc"

section \<open>Collecting a line\<close>

text \<open>
  What one character does: it may complete the input (\<open>True\<close>). The characters that are
  echoed come with the way of writing them.
\<close>

definition kill_chars :: "tty \<Rightarrow> byte list" where
  "kill_chars t =
     (if t_lflag t AND ECHO = 0 then []
      else if t_lflag t AND (CRTBS OR ECHOE) \<noteq> 0
           then concat (replicate (t_inplen t) (erase_chars t CH_BS))
      else [CH_NL])"

definition input_char :: "byte \<Rightarrow> tty \<Rightarrow> bool \<times> bool \<times> byte list \<times> tty" where
  "input_char c t =
     (let echo = (\<lambda>c. if t_lflag t AND ECHO \<noteq> 0 then [c] else []) in
      if t_lflag t AND ICANON = 0 then
        (True, True, echo c, t\<lparr>t_unread := Some 0, t_inplen := 1, t_buf := (t_buf t)[0 := c]\<rparr>)
      else
        let c = (if c = CH_CR then CH_NL else c) in
        if ttyld_cmpc c (t_cc t ! VERASE) then
          if t_inplen t = 0 then (False, False, [], t)
          else (False, False, erase_chars t c, t\<lparr>t_inplen := t_inplen t - 1\<rparr>)
        else if ttyld_cmpc c (t_cc t ! VKILL) then (False, False, kill_chars t, t\<lparr>t_inplen := 0\<rparr>)
        else if ttyld_cmpc c (t_cc t ! VEOF) then (True, False, [], t\<lparr>t_unread := Some 0\<rparr>)
        else if t_inplen t \<ge> MAX_CANON then (False, False, [], t)
        else
          let t' = t\<lparr>t_buf := (t_buf t)[t_inplen t := c], t_inplen := t_inplen t + 1\<rparr>
          in if c = CH_NL then (True, True, echo c, t'\<lparr>t_unread := Some 0\<rparr>)
             else (False, True, echo c, t'))"

partial_function (option) input_loop :: "tty_driver \<Rightarrow> bool \<Rightarrow> tty \<Rightarrow> kst
    \<Rightarrow> ((errno + unit) \<times> tty \<times> kst) option" where
  "input_loop d nodelay t s =
     Option.bind (td_read d nodelay s) (\<lambda>(r, s).
       case r of
         Inl err \<Rightarrow> Some (Inl err, t, s)
       | Inr c \<Rightarrow>
           (case input_char c t of
              (ready, ndl, out, t') \<Rightarrow>
                Option.bind (tty_echo d t ndl out s) (\<lambda>s.
                  if ready then Some (Inr (), t', s) else input_loop d nodelay t' s)))"

definition ttyld_input :: "tty_driver \<Rightarrow> bool \<Rightarrow> tty \<Rightarrow> kst \<Rightarrow> ((errno + unit) \<times> tty \<times> kst) option" where
  "ttyld_input d nodelay t s = input_loop d nodelay (t\<lparr>t_unread := None, t_inplen := 0\<rparr>) s"

section \<open>Reading and writing\<close>

definition tty_take :: "rwreq \<Rightarrow> tty \<Rightarrow> kst \<Rightarrow> ((errno + rwreq) \<times> tty \<times> kst) option" where
  "tty_take rq t s =
     (case t_unread t of
        None \<Rightarrow> None
      | Some k \<Rightarrow>
          let n = min (rw_count rq) (t_inplen t) in
          Option.bind (tucpy (rw_buf rq) (take n (drop k (t_buf t))) s) (\<lambda>(_, s).
            Some (Inr (rq\<lparr>rw_count := n\<rparr>),
              t\<lparr>t_inplen := t_inplen t - n, t_unread := (if t_inplen t - n = 0 then None else Some (k + n))\<rparr>, s)))"

definition ttyld_read :: "tty_driver \<Rightarrow> rwreq \<Rightarrow> tty \<Rightarrow> kst \<Rightarrow> ((errno + rwreq) \<times> tty \<times> kst) option" where
  "ttyld_read d rq t s =
     (if \<not> t_carrier t then Some (Inl ENXIO, t, s)
      else if t_unread t \<noteq> None then tty_take rq t s
      else
        Option.bind (ttyld_input d (rw_nodelay rq) t s) (\<lambda>(r, t, s).
          case r of
            Inl err \<Rightarrow>
              if err = EAGAIN \<and> rw_nodelay rq then Some (Inr (rq\<lparr>rw_count := 0\<rparr>), t, s)
              else Some (Inl err, t, s)
          | Inr _ \<Rightarrow> tty_take rq t s))"

text \<open>A byte that cannot be copied from the user is an uninitialised variable of the code.\<close>

fun tty_write_bytes :: "tty_driver \<Rightarrow> tty \<Rightarrow> bool \<Rightarrow> nat \<Rightarrow> nat \<Rightarrow> kst \<Rightarrow> unit res" where
  "tty_write_bytes d t nodelay buf 0 s = Some (Inr (), s)"
| "tty_write_bytes d t nodelay buf (Suc n) s =
     Option.bind (fucpy buf 1 s) (\<lambda>(r, s).
       case r of
         Inl _ \<Rightarrow> None
       | Inr bs \<Rightarrow>
           bindE (ttyld_output d t (bs ! 0) nodelay s) (\<lambda>_ s.
             tty_write_bytes d t nodelay ((buf + 1) mod 2 ^ 32) n s))"

definition ttyld_write :: "tty_driver \<Rightarrow> rwreq \<Rightarrow> tty \<Rightarrow> kst \<Rightarrow> rwreq res" where
  "ttyld_write d rq t s =
     (if \<not> t_carrier t then fail ENXIO s
      else bindE (tty_write_bytes d t (rw_nodelay rq) (rw_buf rq) (rw_count rq) s) (\<lambda>_ s. Some (Inr rq, s)))"

section \<open>Control\<close>

text \<open>\<open>struct termios\<close> has five characters, three bytes of padding and six words.\<close>

definition encode_termios :: "tty \<Rightarrow> byte list" where
  "encode_termios t = t_cc t @ replicate 3 0 @ le32s (map unat
     [t_cflag t, t_iflag t, t_lflag t, t_oflag t, t_ispeed t, t_ospeed t])"

definition set_termios :: "byte list \<Rightarrow> 32 word \<Rightarrow> 32 word \<Rightarrow> tty \<Rightarrow> tty" where
  "set_termios b lflag speed t = t\<lparr>t_cc := take 5 b, t_cflag := of_nat (rd32 b 8), t_iflag := of_nat (rd32 b 12),
     t_lflag := lflag, t_oflag := of_nat (rd32 b 20), t_ispeed := speed, t_ospeed := speed\<rparr>"

definition ttyld_ioctl :: "tty_driver \<Rightarrow> int \<Rightarrow> nat \<Rightarrow> tty \<Rightarrow> kst \<Rightarrow> ((errno + unit) \<times> tty \<times> kst) option" where
  "ttyld_ioctl d cmd p t s =
     (if cmd = 2 then
        Option.bind (fucpy p 32 s) (\<lambda>(r, s).
          case r of
            Inl err \<Rightarrow> Some (Inl err, t, s)
          | Inr b \<Rightarrow>
              let isp = of_nat (rd32 b 24); osp = of_nat (rd32 b 28) :: 32 word; lf = of_nat (rd32 b 16);
                  user = p_euid (cur s) \<noteq> 0;
                  xhup = user \<and> t_lflag t AND XHUP \<noteq> 0;
                  speed = (case td_speed d of
                             Some f \<Rightarrow> if t_ispeed t \<noteq> isp \<and> \<not> xhup then f isp else t_ispeed t
                           | None \<Rightarrow> t_ispeed t);
                  lf = (if user then (lf AND NOT XHUP) OR (t_lflag t AND XHUP) else lf)
              in if isp \<noteq> osp then Some (Inl EINVAL, t, s)
                 else Some (Inr (), set_termios b lf speed t, s))
      else if cmd = 1 then map_option (\<lambda>(r, s). (r, t, s)) (tucpy p (encode_termios t) s)
      else Some (Inl ENOTTY, t, s))"

section \<open>Signals from the terminal\<close>

definition ttyld_kill :: "nat \<Rightarrow> nat \<Rightarrow> kst \<Rightarrow> kst" where
  "ttyld_kill rdev sig s = foldl (\<lambda>s p.
     case p_tty (procs s p) of
       None \<Rightarrow> s
     | Some i \<Rightarrow> if unat (d_rdev (i_d (inodes s i))) = rdev then snd (sendsig p sig s) else s) s (pact s)"

definition intr_sig :: "tty \<Rightarrow> byte \<Rightarrow> nat" where
  "intr_sig t c =
     (if c = 0x18 then SIGHUP
      else if ttyld_cmpc c (t_cc t ! VQUIT) then SIGQUIT
      else if ttyld_cmpc c (t_cc t ! VINTR) then SIGINT
      else 0)"

definition ttyld_intr :: "tty \<Rightarrow> byte \<Rightarrow> kst \<Rightarrow> bool \<times> kst" where
  "ttyld_intr t c s =
     (let sig = intr_sig t c in
      if sig = 0 then (False, s)
      else if t_lflag t AND ISIG = 0 \<and> sig \<noteq> SIGHUP then (False, s)
      else if t_lflag t AND XHUP = 0 \<and> sig = SIGHUP then (False, s)
      else (True, ttyld_kill (t_dev t) sig s))"

definition ttyld_carrier :: "tty \<Rightarrow> bool \<Rightarrow> kst \<Rightarrow> tty \<times> kst" where
  "ttyld_carrier t cd s =
     (if t_carrier t = cd then (t, s)
      else
        let s = wakeup s
        in (t\<lparr>t_carrier := cd\<rparr>, if cd then s else ttyld_kill (t_dev t) SIGHUP s))"

section \<open>Line editing\<close>

text \<open>
  What a line discipline is for, on lists: \<open>edit1\<close> is what one character does to the line
  collected so far, and says whether the line is complete; \<open>cook\<close> collects a line from what is
  typed, and gives the characters that follow it. \<open>None\<close> means that the line is not complete.
\<close>

definition edit1 :: "byte list \<Rightarrow> byte \<Rightarrow> byte list \<Rightarrow> bool \<times> byte list" where
  "edit1 cc c l =
     (let c = (if c = CH_CR then CH_NL else c) in
      if ttyld_cmpc c (cc ! VERASE) then (False, butlast l)
      else if ttyld_cmpc c (cc ! VKILL) then (False, [])
      else if ttyld_cmpc c (cc ! VEOF) then (True, l)
      else if length l \<ge> MAX_CANON then (False, l)
      else (c = CH_NL, l @ [c]))"

fun cook :: "byte list \<Rightarrow> byte list \<Rightarrow> byte list \<Rightarrow> (byte list \<times> byte list) option" where
  "cook cc l [] = None"
| "cook cc l (c # cs) =
     (case edit1 cc c l of (True, l) \<Rightarrow> Some (l, cs) | (False, l) \<Rightarrow> cook cc l cs)"

definition tty_line :: "tty \<Rightarrow> byte list" where
  "tty_line t = take (t_inplen t) (drop (case t_unread t of None \<Rightarrow> 0 | Some k \<Rightarrow> k) (t_buf t))"

definition tty_ok :: "tty \<Rightarrow> bool" where
  "tty_ok t \<longleftrightarrow> length (t_buf t) = MAX_CANON \<and> length (t_cc t) = 5
     \<and> (case t_unread t of None \<Rightarrow> 0 | Some k \<Rightarrow> k) + t_inplen t \<le> MAX_CANON"

lemma take_Suc_update: "n < length xs \<Longrightarrow> take (Suc n) (xs[n := x]) = take n xs @ [x]"
  by (simp add: take_Suc_conv_app_nth)

lemma tty_line_length: "tty_ok t \<Longrightarrow> length (tty_line t) = t_inplen t"
  by (auto simp: tty_ok_def tty_line_def split: option.splits)

lemma input_char_edit:
  assumes can: "t_lflag t AND ICANON \<noteq> 0" and ok: "tty_ok t" and un: "t_unread t = None"
    and i: "input_char c t = (ready, ndl, out, t')"
  shows "tty_ok t' \<and> edit1 (t_cc t) c (tty_line t) = (ready, tty_line t') \<and> t_cc t' = t_cc t \<and> t_lflag t' = t_lflag t
     \<and> t_unread t' = (if ready then Some 0 else None) \<and> t_carrier t' = t_carrier t"
proof -
  define k where "k = (if c = CH_CR then CH_NL else c)"
  have line: "tty_line t = take (t_inplen t) (t_buf t)" using un by (simp add: tty_line_def)
  have len: "length (t_buf t) = 256" "t_inplen t \<le> 256" "length (t_cc t) = 5" using ok un by (simp_all add: tty_ok_def)
  note i = i [unfolded input_char_def Let_def k_def [symmetric]]
  note e = edit1_def [of "t_cc t" c, unfolded Let_def k_def [symmetric]]
  consider (er) "ttyld_cmpc k (t_cc t ! VERASE)"
    | (ki) "\<not> ttyld_cmpc k (t_cc t ! VERASE)" "ttyld_cmpc k (t_cc t ! VKILL)"
    | (eof) "\<not> ttyld_cmpc k (t_cc t ! VERASE)" "\<not> ttyld_cmpc k (t_cc t ! VKILL)" "ttyld_cmpc k (t_cc t ! VEOF)"
    | (full) "\<not> ttyld_cmpc k (t_cc t ! VERASE)" "\<not> ttyld_cmpc k (t_cc t ! VKILL)" "\<not> ttyld_cmpc k (t_cc t ! VEOF)"
        "t_inplen t = 256"
    | (ins) "\<not> ttyld_cmpc k (t_cc t ! VERASE)" "\<not> ttyld_cmpc k (t_cc t ! VKILL)" "\<not> ttyld_cmpc k (t_cc t ! VEOF)"
        "t_inplen t < 256"
    using len by linarith
  then show ?thesis
  proof cases
    case er
    then show ?thesis using i can un len e by (cases "t_inplen t = 0") (auto simp: tty_ok_def tty_line_def butlast_take)
  next
    case ki
    then show ?thesis using i can un len e by (auto simp: tty_ok_def tty_line_def)
  next
    case eof
    then show ?thesis using i can un len e by (auto simp: tty_ok_def tty_line_def)
  next
    case full
    then show ?thesis using i can un len e by (auto simp: tty_ok_def tty_line_def)
  next
    case ins
    then have "(t', ready) = ((if k = CH_NL then \<lambda>u. u\<lparr>t_unread := Some 0\<rparr> else id)
        (t\<lparr>t_buf := (t_buf t)[t_inplen t := k], t_inplen := t_inplen t + 1\<rparr>), k = CH_NL)"
      using i can by (simp split: if_splits)
    then show ?thesis using ins un len by (simp add: e tty_ok_def tty_line_def take_Suc_update)
  qed
qed

lemma input_char_raw:
  assumes "t_lflag t AND ICANON = 0" and "tty_ok t" and "t_unread t = None" and "input_char c t = (ready, ndl, out, t')"
  shows "tty_ok t' \<and> ready \<and> tty_line t' = [c] \<and> t_unread t' = Some 0 \<and> t_cc t' = t_cc t"
  using assms by (auto simp: input_char_def Let_def tty_ok_def tty_line_def take_Suc_conv_app_nth)

text \<open>
  A driver whose characters are those of \<open>feed\<close>, one after the other, and whose writing does not
  take any of them.
\<close>

definition feeds :: "tty_driver \<Rightarrow> (kst \<Rightarrow> byte list) \<Rightarrow> bool" where
  "feeds d feed \<longleftrightarrow>
     (\<forall>nd s c cs. feed s = c # cs \<longrightarrow> (\<exists>s'. td_read d nd s = Some (Inr c, s') \<and> feed s' = cs))
     \<and> (\<forall>c nd s. \<exists>r s'. td_write d c nd s = Some (r, s') \<and> feed s' = feed s)"

lemma feeds_read: "feeds d feed \<Longrightarrow> feed s = c # cs \<Longrightarrow> \<exists>s'. td_read d nd s = Some (Inr c, s') \<and> feed s' = cs"
  by (simp add: feeds_def)

lemma feeds_write: "feeds d feed \<Longrightarrow> \<exists>r s'. td_write d c nd s = Some (r, s') \<and> feed s' = feed s"
  by (simp add: feeds_def)

lemma feeds_output: "feeds d feed \<Longrightarrow> \<exists>r s'. ttyld_output d t c nd s = Some (r, s') \<and> feed s' = feed s"
  unfolding ttyld_output_def using feeds_write [of d feed]
  by (smt (verit, best) bind.bind_lunit option.simps(9) snd_conv)

lemma feeds_echo: "feeds d feed \<Longrightarrow> \<exists>s'. tty_echo d t nd cs s = Some s' \<and> feed s' = feed s"
proof (induction cs arbitrary: s)
  case (Cons c cs)
  obtain r s1 where s1: "ttyld_output d t c nd s = Some (r, s1)" "feed s1 = feed s"
    using feeds_output [OF Cons.prems] by blast
  then show ?case using Cons.IH [OF Cons.prems, of s1] by simp
qed simp

lemma input_loop_cooks:
  assumes "feeds d feed"
  shows "t_lflag t AND ICANON \<noteq> 0 \<Longrightarrow> tty_ok t \<Longrightarrow> t_unread t = None \<Longrightarrow> cook (t_cc t) (tty_line t) (feed s) = Some (l, rest)
    \<Longrightarrow> \<exists>t' s'. input_loop d nd t s = Some (Inr (), t', s') \<and> tty_ok t' \<and> tty_line t' = l \<and> t_unread t' = Some 0
         \<and> feed s' = rest"
proof (induction "feed s" arbitrary: t s)
  case Nil
  then show ?case by simp
next
  case (Cons c cs)
  obtain s1 where s1: "td_read d nd s = Some (Inr c, s1)" "feed s1 = cs"
    using feeds_read [OF assms Cons.hyps(2) [symmetric]] by blast
  obtain ready ndl out t1 where i: "input_char c t = (ready, ndl, out, t1)" by (metis surj_pair)
  note e = input_char_edit [OF Cons.prems(1,2,3) i]
  obtain s2 where s2: "tty_echo d t ndl out s1 = Some s2" "feed s2 = cs"
    using feeds_echo [OF assms] s1(2) by metis
  show ?case
  proof (cases ready)
    case True
    with e Cons.prems(4) Cons.hyps(2) [symmetric] have "l = tty_line t1" "rest = cs" by auto
    with True e s1 s2 i show ?thesis by (subst input_loop.simps) simp
  next
    case False
    with e Cons.prems(4) Cons.hyps(2) [symmetric] have "cook (t_cc t1) (tty_line t1) (feed s2) = Some (l, rest)"
      by (simp add: s2)
    from Cons.hyps(1) [OF s2(2) [symmetric] _ _ _ this] False e Cons.prems(1) s1 s2 i
    show ?thesis by (subst input_loop.simps) simp
  qed
qed

section \<open>Properties\<close>

text \<open>
  Property C23. In canonical mode the line discipline collects exactly the line that editing on
  lists gives: erase removes the last character, kill all of them, carriage return
  counts as newline, end of file completes the line without being part of it, and a line
  that is full takes no more, not even the newline. The characters after the line are left
  to be read, the line has at most 256 characters, and nothing is stored outside the buffer.
\<close>

theorem ttyld_input_cooks:
  assumes "feeds d feed" and "t_lflag t AND ICANON \<noteq> 0" and "length (t_buf t) = MAX_CANON" and "length (t_cc t) = 5"
    and "cook (t_cc t) [] (feed s) = Some (l, rest)"
  shows "\<exists>t' s'. ttyld_input d nd t s = Some (Inr (), t', s') \<and> tty_line t' = l \<and> feed s' = rest
     \<and> t_unread t' = Some 0 \<and> tty_ok t' \<and> length l \<le> MAX_CANON"
proof -
  let ?t = "t\<lparr>t_unread := None, t_inplen := 0\<rparr>"
  have "tty_ok ?t" "tty_line ?t = []" using assms(3,4) by (simp_all add: tty_ok_def tty_line_def)
  with input_loop_cooks [OF assms(1), of ?t s l rest nd] assms(2,5) obtain t' s'
    where t': "input_loop d nd ?t s = Some (Inr (), t', s')" "tty_ok t'" "tty_line t' = l" "t_unread t' = Some 0" "feed s' = rest"
    by auto
  moreover have "length l \<le> MAX_CANON" using tty_line_length [OF t'(2)] t'(2,3,4) by (simp add: tty_ok_def)
  ultimately show ?thesis by (auto simp: ttyld_input_def)
qed

definition typed :: "byte list \<Rightarrow> tty_driver" where
  "typed l = \<lparr>td_read = (\<lambda>nd s. if k_ticks s < length l then Some (Inr (l ! k_ticks s), s\<lparr>k_ticks := k_ticks s + 1\<rparr>)
                                else Some (Inl EAGAIN, s)),
     td_write = (\<lambda>c nd s. Some (Inr (), s)), td_speed = None\<rparr>"

definition ex_tty :: tty where
  "ex_tty = ttyld_init \<lparr>t_dev = 0, t_carrier = True, t_inplen = 0, t_unread = None, t_buf = replicate 256 0, t_cc = [],
     t_cflag = 0, t_iflag = 0, t_lflag = 0, t_oflag = 0, t_ispeed = 0, t_ospeed = 0\<rparr>"

lemma feeds_typed: "feeds (typed l) (\<lambda>s. drop (k_ticks s) l)"
proof -
  have "k_ticks s < length l \<and> l ! k_ticks s = c \<and> drop (Suc (k_ticks s)) l = cs" if "drop (k_ticks s) l = c # cs" for s :: kst and c cs
    using that by (metis Cons_nth_drop_Suc drop_eq_Nil leI list.distinct(1) list.inject)
  then show ?thesis by (auto simp: feeds_def typed_def)
qed

theorem ttyld_input_cooks_witness:
  "\<exists>t' s'. ttyld_input (typed [0x61, 0x62, 8, 0x63, 13, 0x64]) False ex_tty ex_procs = Some (Inr (), t', s')
     \<and> tty_line t' = [0x61, 0x63, 10] \<and> drop (k_ticks s') [0x61, 0x62, 8, 0x63, 13, 0x64] = [0x64 :: byte]"
  using ttyld_input_cooks [OF feeds_typed [of "[0x61, 0x62, 8, 0x63, 13, 0x64]"], of ex_tty ex_procs "[0x61, 0x63, 10]" "[0x64]" False]
  by (auto simp: ex_tty_def ttyld_init_def ex_procs_def zero_kst_def edit1_def ttyld_cmpc_def)

text \<open>
  A line that was collected is read in pieces: each read copies the next characters
  to the user, at most as many as it asks for, and leaves the rest for the next read; only
  when nothing is left is a new line collected. An empty line, which is how the end of
  the file is typed, is a read of 0 characters.
\<close>

theorem ttyld_read_pieces:
  assumes "t_carrier t" and "t_unread t = Some k" and "tty_ok t" and "n = min (rw_count rq) (length (tty_line t))"
  shows "\<exists>t'. ttyld_read d rq t s = map_option (\<lambda>(_, s'). (Inr (rq\<lparr>rw_count := n\<rparr>), t', s')) (tucpy (rw_buf rq) (take n (tty_line t)) s)
     \<and> tty_ok t' \<and> tty_line t' = drop n (tty_line t) \<and> (t_unread t' = None \<longleftrightarrow> tty_line t' = [])"
proof -
  let ?t = "t\<lparr>t_inplen := t_inplen t - n, t_unread := (if t_inplen t - n = 0 then None else Some (k + n))\<rparr>"
  have len: "length (tty_line t) = t_inplen t" by (rule tty_line_length [OF assms(3)])
  have line: "tty_line t = take (t_inplen t) (drop k (t_buf t))" using assms(2) by (simp add: tty_line_def)
  have n: "n = min (rw_count rq) (t_inplen t)" using assms(4) len by simp
  have "take n (drop k (t_buf t)) = take n (tty_line t)" by (simp add: line n min_def)
  then have read: "ttyld_read d rq t s = map_option (\<lambda>(_, s'). (Inr (rq\<lparr>rw_count := n\<rparr>), ?t, s')) (tucpy (rw_buf rq) (take n (tty_line t)) s)"
    using assms(1,2) by (cases "tucpy (rw_buf rq) (take n (tty_line t)) s") (auto simp: ttyld_read_def tty_take_def n [symmetric])
  have ok: "tty_ok ?t" using assms(2,3) n by (auto simp: tty_ok_def)
  have l: "tty_line ?t = drop n (tty_line t)"
    using assms(2) n by (auto simp: tty_line_def drop_take add.commute)
  have "t_unread ?t = None \<longleftrightarrow> tty_line ?t = []" using tty_line_length [OF ok] by auto
  with read ok l show ?thesis by - (rule exI [of _ ?t], intro conjI)
qed

theorem ttyld_read_pieces_witness:
  "\<exists>t'. ttyld_read (typed []) \<lparr>rw_ino = 0, rw_buf = 0, rw_start = 0, rw_count = 2, rw_nodelay = False\<rparr>
       (ex_tty\<lparr>t_unread := Some 0, t_inplen := 3, t_buf := [0x61, 0x62, 10] @ replicate 253 0\<rparr>) ex_procs
      = map_option (\<lambda>(_, s'). (Inr \<lparr>rw_ino = 0, rw_buf = 0, rw_start = 0, rw_count = 2, rw_nodelay = False\<rparr>, t', s'))
          (tucpy 0 [0x61, 0x62] ex_procs)
     \<and> tty_line t' = [10]"
  using ttyld_read_pieces [of "ex_tty\<lparr>t_unread := Some 0, t_inplen := 3, t_buf := [0x61, 0x62, 10] @ replicate 253 0\<rparr>" 0 2
      "\<lparr>rw_ino = 0, rw_buf = 0, rw_start = 0, rw_count = 2, rw_nodelay = False\<rparr>" "typed []" ex_procs]
  by (auto simp: ex_tty_def ttyld_init_def tty_ok_def tty_line_def)

end
