(* ===== verification/Stdlib.thy ===== *)
theory Stdlib
  imports Prelude "HOL-Library.Multiset"
begin

text \<open>
  \<open>lib/ctype\<close> and \<open>lib/stdlib\<close>: classes of characters, \<open>atoi\<close> and \<open>qsort\<close>. A string is
  the list of its characters without the terminating zero; \<open>char\<close> is signed.
\<close>

section \<open>Classes of characters\<close>

definition isdigit :: "int \<Rightarrow> bool" where
  "isdigit c \<longleftrightarrow> c \<ge> 0x30 \<and> c \<le> 0x39"

definition islower :: "int \<Rightarrow> bool" where
  "islower c \<longleftrightarrow> c \<ge> 0x61 \<and> c \<le> 0x7A"

definition isupper :: "int \<Rightarrow> bool" where
  "isupper c \<longleftrightarrow> c \<ge> 0x41 \<and> c \<le> 0x5A"

definition isalpha :: "int \<Rightarrow> bool" where
  "isalpha c \<longleftrightarrow> islower c \<or> isupper c"

definition isalnum :: "int \<Rightarrow> bool" where
  "isalnum c \<longleftrightarrow> isalpha c \<or> isdigit c"

definition iscntrl :: "int \<Rightarrow> bool" where
  "iscntrl c \<longleftrightarrow> c \<ge> 0 \<and> c < 0x20 \<or> c = 0x7F"

definition isprint :: "int \<Rightarrow> bool" where
  "isprint c \<longleftrightarrow> c \<ge> 0x20 \<and> c < 0x7F"

text \<open>The code tests for newline twice and never for form feed.\<close>

definition isspace :: "int \<Rightarrow> bool" where
  "isspace c \<longleftrightarrow> c \<in> {0x20, 9, 13, 10, 11}"

definition ispunct :: "int \<Rightarrow> bool" where
  "ispunct c \<longleftrightarrow> isprint c \<and> \<not> isalnum c \<and> \<not> isspace c"

definition isxdigit :: "int \<Rightarrow> bool" where
  "isxdigit c \<longleftrightarrow> isdigit c \<or> c \<ge> 0x41 \<and> c \<le> 0x46 \<or> c \<ge> 0x61 \<and> c \<le> 0x66"

section \<open>Numbers\<close>

fun digits_val :: "32 word \<Rightarrow> byte list \<Rightarrow> 32 word" where
  "digits_val n [] = n"
| "digits_val n (c # cs) =
     (if isdigit (sint c) then digits_val (n * 10 + (signed c - 0x30)) cs else n)"

definition atoi :: "byte list \<Rightarrow> 32 word" where
  "atoi s = (case s of
     [] \<Rightarrow> 0
   | c # cs \<Rightarrow> if c = 0x2D then - digits_val 0 cs else digits_val 0 s)"

section \<open>Sorting\<close>

text \<open>
  \<open>qsort\<close> sorts an array of \<open>cnt\<close> elements with quicksort; \<open>start\<close> and \<open>end\<close>, the first and the
  last element, are indices here, and an element of \<open>size\<close> bytes is a value. The pivot is the
  first element.
\<close>

definition swap :: "'a list \<Rightarrow> nat \<Rightarrow> nat \<Rightarrow> 'a list" where
  "swap v p0 p1 = (let t = v ! p0 in v[p0 := v ! p1, p1 := t])"

function scan_up :: "('a \<Rightarrow> 'a \<Rightarrow> int) \<Rightarrow> 'a list \<Rightarrow> nat \<Rightarrow> nat \<Rightarrow> nat \<Rightarrow> nat" where
  "scan_up cmp xs start end p0 =
     (if cmp (xs ! p0) (xs ! start) \<le> 0 \<and> p0 < end then scan_up cmp xs start end (p0 + 1) else p0)"
  by pat_completeness auto
termination by (relation "measure (\<lambda>(_, _, _, end, p0). end - p0)") auto

function scan_down :: "('a \<Rightarrow> 'a \<Rightarrow> int) \<Rightarrow> 'a list \<Rightarrow> nat \<Rightarrow> nat \<Rightarrow> nat" where
  "scan_down cmp xs start p1 =
     (if cmp (xs ! p1) (xs ! start) \<ge> 0 \<and> p1 > start then scan_down cmp xs start (p1 - 1) else p1)"
  by pat_completeness auto
termination by (relation "measure (\<lambda>(_, _, _, p1). p1)") auto

declare scan_up.simps [simp del] scan_down.simps [simp del]

partial_function (option) sort_split ::
    "('a \<Rightarrow> 'a \<Rightarrow> int) \<Rightarrow> nat \<Rightarrow> nat \<Rightarrow> nat \<Rightarrow> nat \<Rightarrow> 'a list \<Rightarrow> ('a list \<times> nat) option" where
  "sort_split cmp start end p0 p1 xs =
     (if p0 < p1 then
        let p0 = scan_up cmp xs start end p0; p1 = scan_down cmp xs start p1
        in sort_split cmp start end p0 p1 (if p0 < p1 then swap xs p0 p1 else xs)
      else Some (xs, p1))"

partial_function (option) sub_sort :: "('a \<Rightarrow> 'a \<Rightarrow> int) \<Rightarrow> nat \<Rightarrow> nat \<Rightarrow> 'a list \<Rightarrow> 'a list option" where
  "sub_sort cmp start end xs =
     (if start \<ge> end then Some xs
      else do {
        (xs, p1) \<leftarrow> sort_split cmp start end start end xs;
        let xs = swap xs start p1;
        xs \<leftarrow> sub_sort cmp start p1 xs;
        sub_sort cmp (p1 + 1) end xs
      })"

definition qsort :: "('a \<Rightarrow> 'a \<Rightarrow> int) \<Rightarrow> 'a list \<Rightarrow> 'a list option" where
  "qsort cmp xs = (if xs = [] then Some xs else sub_sort cmp 0 (length xs - 1) xs)"

section \<open>Correctness of the sort\<close>

definition ordering :: "('a \<Rightarrow> 'a \<Rightarrow> int) \<Rightarrow> bool" where
  "ordering cmp \<longleftrightarrow> (\<forall>a b. cmp a b \<le> 0 \<longleftrightarrow> 0 \<le> cmp b a) \<and> (\<forall>a b c. cmp a b \<le> 0 \<longrightarrow> cmp b c \<le> 0 \<longrightarrow> cmp a c \<le> 0)"

lemma ordering_refl: "ordering cmp \<Longrightarrow> cmp a a = 0"
  unfolding ordering_def by (metis nle_le)

lemma swap_same_length [simp]: "length (swap v p0 p1) = length v"
  by (simp add: swap_def Let_def)

lemma swap_same_elements [simp]: "\<lbrakk>p0 < length v; p1 < length v\<rbrakk> \<Longrightarrow> mset (swap v p0 p1) = mset v"
  by (simp add: swap_def Let_def mset_swap)

lemma swap_at:
  assumes "p0 < length v" and "p1 < length v"
  shows "swap v p0 p1 ! k = (if k = p0 then v ! p1 else if k = p1 then v ! p0 else v ! k)"
  using assms by (auto simp: swap_def Let_def nth_list_update)

lemma scan_up_spec:
  assumes "p0 \<le> e"
  shows "p0 \<le> scan_up cmp xs s e p0 \<and> scan_up cmp xs s e p0 \<le> e
    \<and> (\<forall>i. p0 \<le> i \<and> i < scan_up cmp xs s e p0 \<longrightarrow> cmp (xs ! i) (xs ! s) \<le> 0)
    \<and> (scan_up cmp xs s e p0 < e \<longrightarrow> cmp (xs ! scan_up cmp xs s e p0) (xs ! s) > 0)"
  using assms
proof (induction cmp xs s e p0 rule: scan_up.induct)
  case (1 cmp xs s e p0)
  show ?case
  proof (cases "cmp (xs ! p0) (xs ! s) \<le> 0 \<and> p0 < e")
    case True
    then have eq: "scan_up cmp xs s e p0 = scan_up cmp xs s e (p0 + 1)" by (subst scan_up.simps) simp
    have "cmp (xs ! i) (xs ! s) \<le> 0" if "p0 \<le> i \<and> i < scan_up cmp xs s e (p0 + 1)" for i
      using 1(1) [OF True] True that by (cases "i = p0") auto
    then show ?thesis unfolding eq using 1(1) [OF True] True by auto
  next
    case False
    then have "scan_up cmp xs s e p0 = p0" by (subst scan_up.simps) auto
    with False 1(2) show ?thesis by auto
  qed
qed

lemma scan_down_spec:
  assumes "s \<le> p1"
  shows "scan_down cmp xs s p1 \<le> p1 \<and> s \<le> scan_down cmp xs s p1
    \<and> (\<forall>i. scan_down cmp xs s p1 < i \<and> i \<le> p1 \<longrightarrow> cmp (xs ! i) (xs ! s) \<ge> 0)
    \<and> (s < scan_down cmp xs s p1 \<longrightarrow> cmp (xs ! scan_down cmp xs s p1) (xs ! s) < 0)"
  using assms
proof (induction cmp xs s p1 rule: scan_down.induct)
  case (1 cmp xs s p1)
  show ?case
  proof (cases "cmp (xs ! p1) (xs ! s) \<ge> 0 \<and> p1 > s")
    case True
    then have eq: "scan_down cmp xs s p1 = scan_down cmp xs s (p1 - 1)" by (subst scan_down.simps) simp
    have b: "cmp (xs ! i) (xs ! s) \<ge> 0" if "scan_down cmp xs s (p1 - 1) < i \<and> i \<le> p1" for i
      using 1(1) [OF True] True that by (cases "i = p1") auto
    have "s \<le> p1 - 1" using True by arith
    with 1(1) [OF True] have h: "scan_down cmp xs s (p1 - 1) \<le> p1 - 1" "s \<le> scan_down cmp xs s (p1 - 1)"
      "s < scan_down cmp xs s (p1 - 1) \<longrightarrow> cmp (xs ! scan_down cmp xs s (p1 - 1)) (xs ! s) < 0" by blast+
    from h(1) have "scan_down cmp xs s (p1 - 1) \<le> p1" by simp
    with h b show ?thesis unfolding eq by blast
  next
    case False
    then have "scan_down cmp xs s p1 = p1" by (subst scan_down.simps) auto
    with False 1(2) show ?thesis by auto
  qed
qed

text \<open>What holds around the loop that splits the range: its two ends have been sorted out.\<close>

definition split_inv :: "('a \<Rightarrow> 'a \<Rightarrow> int) \<Rightarrow> nat \<Rightarrow> nat \<Rightarrow> nat \<Rightarrow> nat \<Rightarrow> 'a list \<Rightarrow> bool" where
  "split_inv cmp s e p0 p1 xs \<longleftrightarrow> s \<le> p0 \<and> p0 \<le> e \<and> s \<le> p1 \<and> p1 \<le> e \<and> e < length xs
     \<and> (\<forall>i. s \<le> i \<and> i < p0 \<or> i = p1 \<and> p1 \<le> p0 \<or> i = p0 \<and> p0 < p1 \<longrightarrow> cmp (xs ! i) (xs ! s) \<le> 0)
     \<and> (\<forall>i. p1 < i \<and> i \<le> e \<longrightarrow> cmp (xs ! i) (xs ! s) \<ge> 0)"

definition same_outside :: "nat \<Rightarrow> nat \<Rightarrow> 'a list \<Rightarrow> 'a list \<Rightarrow> bool" where
  "same_outside s e xs ys \<longleftrightarrow> mset ys = mset xs \<and> (\<forall>i. i < s \<or> e < i \<longrightarrow> ys ! i = xs ! i)"

lemma same_outside_length: "same_outside s e xs ys \<Longrightarrow> length ys = length xs"
  by (auto simp: same_outside_def dest: mset_eq_length)

lemma sort_split_step:
  assumes ord: "ordering cmp" and inv: "split_inv cmp s e p0 p1 xs" and lt: "p0 < p1"
    and u: "u = scan_up cmp xs s e p0" and d: "d = scan_down cmp xs s p1" and ys: "ys = (if u < d then swap xs u d else xs)"
  shows "split_inv cmp s e u d ys \<and> u > p0 \<and> d \<le> p1 \<and> mset ys = mset xs \<and> ys ! s = xs ! s
    \<and> (\<forall>i. i \<le> s \<or> e < i \<longrightarrow> ys ! i = xs ! i) \<and> (cmp (xs ! p1) (xs ! s) > 0 \<longrightarrow> d < p1)
    \<and> (d = p1 \<longrightarrow> cmp (xs ! p1) (xs ! s) < 0)"
proof -
  have i: "s \<le> p0" "p0 \<le> e" "s \<le> p1" "p1 \<le> e" "e < length xs" "cmp (xs ! p0) (xs ! s) \<le> 0"
    "\<And>i. s \<le> i \<Longrightarrow> i < p0 \<Longrightarrow> cmp (xs ! i) (xs ! s) \<le> 0" "\<And>i. p1 < i \<Longrightarrow> i \<le> e \<Longrightarrow> cmp (xs ! i) (xs ! s) \<ge> 0"
    using inv lt by (auto simp: split_inv_def)
  have U: "p0 \<le> u" "u \<le> e" "\<And>i. p0 \<le> i \<Longrightarrow> i < u \<Longrightarrow> cmp (xs ! i) (xs ! s) \<le> 0" "u < e \<Longrightarrow> cmp (xs ! u) (xs ! s) > 0"
    using scan_up_spec [OF i(2), of cmp xs s] by (auto simp: u)
  have D: "d \<le> p1" "s \<le> d" "\<And>i. d < i \<Longrightarrow> i \<le> p1 \<Longrightarrow> cmp (xs ! i) (xs ! s) \<ge> 0" "s < d \<Longrightarrow> cmp (xs ! d) (xs ! s) < 0"
    using scan_down_spec [OF i(3), of cmp xs] by (auto simp: d)
  have up: "u > p0" using U(1,2,4) i(6) lt i(4) by (metis le_neq_implies_less not_le order_less_le_trans)
  have low: "cmp (xs ! k) (xs ! s) \<le> 0" if "s \<le> k" "k < u" for k
    using that U(3) i(7) by (cases "k < p0") auto
  have high: "cmp (xs ! k) (xs ! s) \<ge> 0" if "d < k" "k \<le> e" for k
    using that D(3) i(8) by (cases "k \<le> p1") auto
  have dle: "cmp (xs ! d) (xs ! s) \<le> 0" using D(2,4) ordering_refl [OF ord] by (cases "d = s") auto
  have last: "d < p1" if "cmp (xs ! p1) (xs ! s) > 0"
    using that D(1,4) lt i(1) by (cases "d = p1") auto
  have eq: "cmp (xs ! p1) (xs ! s) < 0" if "d = p1" using that D(4) lt i(1) by auto
  show ?thesis
  proof (cases "u < d")
    case True
    have len: "u < length xs" "d < length xs" using True D(1) i(4,5) by auto
    have su: "s < u" using i(1) up by simp
    have n: "ys ! k = (if k = u then xs ! d else if k = d then xs ! u else xs ! k)" for k
      using swap_at [OF len] True by (simp add: ys)
    have gt: "cmp (xs ! u) (xs ! s) > 0" using U(4) True D(1) i(4) by simp
    have "split_inv cmp s e u d ys"
      unfolding split_inv_def
    proof (intro conjI allI impI)
      fix k assume "s \<le> k \<and> k < u \<or> k = d \<and> d \<le> u \<or> k = u \<and> u < d"
      then show "cmp (ys ! k) (ys ! s) \<le> 0" using low dle True su by (auto simp: n)
    next
      fix k assume "d < k \<and> k \<le> e"
      then show "cmp (ys ! k) (ys ! s) \<ge> 0" using high True su by (auto simp: n)
    qed (use su D(2) U(2) D(1) i(4,5) in \<open>auto simp: ys\<close>)
    moreover have "d \<le> e" using D(1) i(4) by simp
    ultimately show ?thesis using up D(1) last eq len su True U(2) by (auto simp: n) (simp add: ys)
  next
    case False
    then have "split_inv cmp s e u d xs"
      using i(1,4,5) U(1,2) D(1,2) low dle high up unfolding split_inv_def by (auto simp: le_less)
    then show ?thesis using False up D(1) last eq by (simp add: ys)
  qed
qed

lemma sort_split_inv:
  assumes "ordering cmp"
  shows "split_inv cmp s e p0 p1 xs \<Longrightarrow> \<exists>ys d. sort_split cmp s e p0 p1 xs = Some (ys, d) \<and> d \<le> p1
    \<and> s \<le> d \<and> same_outside (s + 1) e xs ys
    \<and> (\<forall>i. s \<le> i \<and> i \<le> d \<longrightarrow> cmp (ys ! i) (ys ! s) \<le> 0) \<and> (\<forall>i. d < i \<and> i \<le> e \<longrightarrow> cmp (ys ! i) (ys ! s) \<ge> 0)
    \<and> (p0 < p1 \<longrightarrow> (cmp (xs ! p1) (xs ! s) > 0 \<longrightarrow> d < p1) \<and> (d = p1 \<longrightarrow> ys ! p1 = xs ! p1 \<and> cmp (xs ! p1) (xs ! s) < 0))"
proof (induction "e - p0" arbitrary: p0 p1 xs rule: less_induct)
  case less
  show ?case
  proof (cases "p0 < p1")
    case False
    have "cmp (xs ! i) (xs ! s) \<le> 0" if "s \<le> i" "i \<le> p1" for i
      using less.prems False that unfolding split_inv_def by (cases "i = p1") auto
    moreover have "cmp (xs ! i) (xs ! s) \<ge> 0" if "p1 < i" "i \<le> e" for i
      using less.prems that unfolding split_inv_def by auto
    ultimately show ?thesis
      using False less.prems by (subst sort_split.simps) (auto simp: split_inv_def same_outside_def)
  next
    case True
    define u where "u = scan_up cmp xs s e p0"
    define d where "d = scan_down cmp xs s p1"
    define zs where "zs = (if u < d then swap xs u d else xs)"
    note st = sort_split_step [OF assms less.prems True u_def d_def zs_def]
    have "e - u < e - p0" using st True less.prems by (auto simp: split_inv_def)
    from less.hyps [OF this, of d zs] st obtain ys d' where h:
      "sort_split cmp s e u d zs = Some (ys, d')" "d' \<le> d" "s \<le> d'" "same_outside (s + 1) e zs ys"
      "\<forall>i. s \<le> i \<and> i \<le> d' \<longrightarrow> cmp (ys ! i) (ys ! s) \<le> 0" "\<forall>i. d' < i \<and> i \<le> e \<longrightarrow> cmp (ys ! i) (ys ! s) \<ge> 0"
      "u < d \<longrightarrow> (cmp (zs ! d) (zs ! s) > 0 \<longrightarrow> d' < d)"
      by blast
    have eq: "sort_split cmp s e p0 p1 xs = Some (ys, d')"
      using True h(1) by (subst sort_split.simps) (simp add: Let_def u_def [symmetric] d_def [symmetric] zs_def [symmetric])
    have "same_outside (s + 1) e xs ys" using h(4) st by (auto simp: same_outside_def)
    moreover have "ys ! p1 = xs ! p1 \<and> cmp (xs ! p1) (xs ! s) < 0" if "d' = p1"
    proof -
      have dp: "d = p1" using that h(2) st by auto
      then have neg: "cmp (xs ! p1) (xs ! s) < 0" using st by blast
      have nu: "\<not> u < d"
      proof
        assume ud: "u < d"
        have len: "u < length xs" "d < length xs" using ud st less.prems by (auto simp: split_inv_def)
        have "u < e" using ud dp less.prems by (auto simp: split_inv_def)
        then have "cmp (xs ! u) (xs ! s) > 0" using scan_up_spec [of p0 e cmp xs s] less.prems by (auto simp: u_def split_inv_def)
        moreover have "zs ! d = xs ! u" "zs ! s = xs ! s" using swap_at [OF len] ud st by (auto simp: zs_def)
        ultimately have "d' < d" using h(7) ud by simp
        with that dp show False by simp
      qed
      then have "sort_split cmp s e u d zs = Some (xs, d)" by (subst sort_split.simps) (simp add: zs_def)
      with h(1) neg show ?thesis by simp
    qed
    moreover have "cmp (xs ! p1) (xs ! s) > 0 \<longrightarrow> d' < p1" using st h(2) by auto
    ultimately show ?thesis using eq h st by (intro exI [of _ ys] exI [of _ d']) auto
  qed
qed

definition sorted_on :: "('a \<Rightarrow> 'a \<Rightarrow> int) \<Rightarrow> nat \<Rightarrow> nat \<Rightarrow> 'a list \<Rightarrow> bool" where
  "sorted_on cmp s e xs \<longleftrightarrow> (\<forall>i j. s \<le> i \<and> i \<le> j \<and> j \<le> e \<longrightarrow> cmp (xs ! i) (xs ! j) \<le> 0)"

lemma same_outside_range:
  assumes "same_outside s e xs ys" and "s \<le> i" and "i \<le> e" and "e < length xs"
  shows "\<exists>k. s \<le> k \<and> k \<le> e \<and> ys ! i = xs ! k"
proof -
  have len: "length ys = length xs" by (rule same_outside_length [OF assms(1)])
  let ?seg = "\<lambda>l. take (e + 1 - s) (drop s l)"
  have split: "l = take s l @ ?seg l @ drop (e + 1) l" for l :: "'a list"
    using assms(2,3) by (metis (no_types, lifting) append_take_drop_id drop_drop le_add_diff_inverse2 le_trans trans_le_add1)
  have out: "take s ys = take s xs" "drop (e + 1) ys = drop (e + 1) xs"
    using assms len by (auto simp: same_outside_def intro!: nth_equalityI)
  have "mset ys = mset xs" using assms(1) by (simp add: same_outside_def)
  then have "mset (?seg ys) = mset (?seg xs)"
    using split [of ys] split [of xs] out by (metis (no_types, lifting) add_left_cancel add_right_cancel mset_append)
  then have set: "set (?seg ys) = set (?seg xs)" by (metis set_mset_mset)
  have "ys ! i = ?seg ys ! (i - s)" "i - s < length (?seg ys)" using assms len by auto
  then have "ys ! i \<in> set (?seg xs)" using set nth_mem by metis
  then obtain k where "k < length (?seg xs)" "?seg xs ! k = ys ! i" by (auto simp: in_set_conv_nth)
  then show ?thesis using assms len by (intro exI [of _ "s + k"]) auto
qed

lemma same_outside_trans:
  "same_outside s e xs ys \<Longrightarrow> same_outside s' e' ys zs \<Longrightarrow> s \<le> s' \<Longrightarrow> e' \<le> e \<Longrightarrow> same_outside s e xs zs"
  by (auto simp: same_outside_def)

lemma sub_sort_spec:
  assumes ord: "ordering cmp"
  shows "e < length xs \<Longrightarrow> \<exists>ys. sub_sort cmp s e xs = Some ys \<and> same_outside s e xs ys \<and> sorted_on cmp s e ys"
proof (induction "2 * (e - s) + (if cmp (xs ! e) (xs ! s) > 0 then 0 else 1)" arbitrary: s e xs rule: less_induct)
  case less
  show ?case
  proof (cases "s \<ge> e")
    case True
    then have "sorted_on cmp s e xs"
      using ordering_refl [OF ord] by (auto simp: sorted_on_def) (metis le_antisym le_trans order_refl)
    then show ?thesis using True by (subst sub_sort.simps) (simp add: same_outside_def)
  next
    case False
    have "split_inv cmp s e s e xs"
      using False less.prems ordering_refl [OF ord] by (auto simp: split_inv_def)
    from sort_split_inv [OF ord this] False obtain ys d where sp:
      "sort_split cmp s e s e xs = Some (ys, d)" "d \<le> e" "s \<le> d" "same_outside (s + 1) e xs ys"
      "\<And>i. s \<le> i \<Longrightarrow> i \<le> d \<Longrightarrow> cmp (ys ! i) (ys ! s) \<le> 0" "\<And>i. d < i \<Longrightarrow> i \<le> e \<Longrightarrow> cmp (ys ! i) (ys ! s) \<ge> 0"
      "cmp (xs ! e) (xs ! s) > 0 \<longrightarrow> d < e" "d = e \<longrightarrow> ys ! e = xs ! e \<and> cmp (xs ! e) (xs ! s) < 0"
      by auto
    define zs where "zs = swap ys s d"
    have len: "length ys = length xs" by (rule same_outside_length [OF sp(4)])
    have sd: "s < length ys" "d < length ys" using sp(2,3) less.prems False len by auto
    have z: "zs ! i = (if i = s then ys ! d else if i = d then ys ! s else ys ! i)" for i
      using swap_at [OF sd] by (simp add: zs_def)
    have lz: "length zs = length xs" by (simp add: zs_def len)
    have oz: "same_outside s e xs zs"
      using sp(2,3,4) sd by (auto simp: same_outside_def z) (simp add: zs_def)
    have low: "cmp (zs ! i) (zs ! d) \<le> 0" if "s \<le> i" "i \<le> d" for i
      using sp(5) that sp(3) ordering_refl [OF ord] by (auto simp: z)
    have high: "cmp (zs ! d) (zs ! i) \<le> 0" if "d < i" "i \<le> e" for i
      using sp(6) that sp(3) ord by (auto simp: z ordering_def)
    have xs_s: "ys ! s = xs ! s" using sp(4) by (simp add: same_outside_def)
    have m1: "2 * (d - s) + (if cmp (zs ! d) (zs ! s) > 0 then 0 else 1)
        < 2 * (e - s) + (if cmp (xs ! e) (xs ! s) > 0 then 0 else 1 :: nat)"
    proof (cases "d = e")
      case False
      then show ?thesis using sp(2,3) by auto
    next
      case True
      then have "cmp (ys ! e) (ys ! s) < 0" using sp(8) xs_s by simp
      then have "cmp (zs ! d) (zs ! s) > 0" using True False ord by (simp add: z ordering_def) (metis less_le_not_le linear)
      then show ?thesis using sp(7) True by auto
    qed
    have m2: "2 * (e - (d + 1)) + (if cmp (ws ! e) (ws ! (d + 1)) > 0 then 0 else 1)
        < 2 * (e - s) + (if cmp (xs ! e) (xs ! s) > 0 then 0 else 1 :: nat)" for ws :: "'a list"
      using sp(2,3) False by auto
    obtain us where us: "sub_sort cmp s d zs = Some us" "same_outside s d zs us" "sorted_on cmp s d us"
      using less.hyps [OF m1] sd lz len by auto
    have lu: "length us = length xs" using same_outside_length [OF us(2)] lz by simp
    obtain vs where vs: "sub_sort cmp (d + 1) e us = Some vs" "same_outside (d + 1) e us vs" "sorted_on cmp (d + 1) e vs"
      using less.hyps [OF m2] less.prems lu by metis
    have "sub_sort cmp s e xs = Some vs"
      using False sp(1) us(1) vs(1) by (subst sub_sort.simps) (simp add: Let_def zs_def)
    moreover have "same_outside s e xs vs"
      using same_outside_trans [OF same_outside_trans [OF oz us(2)] vs(2)] sp(2,3) by simp
    moreover have "sorted_on cmp s e vs"
      unfolding sorted_on_def
    proof (intro allI impI)
      fix i j assume ij: "s \<le> i \<and> i \<le> j \<and> j \<le> e"
      consider "j \<le> d" | "d < i" | "i \<le> d" "d < j" by linarith
      then show "cmp (vs ! i) (vs ! j) \<le> 0"
      proof cases
        case 1
        then show ?thesis using us(3) vs(2) ij by (auto simp: sorted_on_def same_outside_def)
      next
        case 2
        then show ?thesis using vs(3) ij by (auto simp: sorted_on_def)
      next
        case 3
        obtain k where k: "s \<le> k" "k \<le> d" "us ! i = zs ! k"
          using same_outside_range [OF us(2), of i] 3 ij sd lz len by auto
        obtain l where l: "d + 1 \<le> l" "l \<le> e" "vs ! j = us ! l"
          using same_outside_range [OF vs(2), of j] 3 ij less.prems lu by auto
        have "vs ! i = zs ! k" using vs(2) 3 k by (simp add: same_outside_def)
        moreover have "vs ! j = zs ! l" using us(2) l by (simp add: same_outside_def)
        ultimately show ?thesis
          using low [OF k(1,2)] high [of l] l ord unfolding ordering_def by (metis Suc_eq_plus1 Suc_le_lessD)
      qed
    qed
    ultimately show ?thesis by blast
  qed
qed

text \<open>
  Property C30. When the comparison is a total preorder, \<open>qsort\<close> ends, and its result is the
  same elements in ascending order. It ends although a call for a range may call itself
  for the same range: the pivot is then its greatest element and goes to the end.
\<close>

theorem qsort_sorts:
  assumes "ordering cmp"
  shows "\<exists>ys. qsort cmp xs = Some ys \<and> mset ys = mset xs \<and> sorted_wrt (\<lambda>a b. cmp a b \<le> 0) ys"
proof (cases "xs = []")
  case True
  then show ?thesis by (simp add: qsort_def)
next
  case False
  then obtain ys where ys: "sub_sort cmp 0 (length xs - 1) xs = Some ys" "same_outside 0 (length xs - 1) xs ys"
      "sorted_on cmp 0 (length xs - 1) ys"
    using sub_sort_spec [OF assms, of "length xs - 1" xs 0] by auto
  have "sorted_wrt (\<lambda>a b. cmp a b \<le> 0) ys"
    unfolding sorted_wrt_iff_nth_less
  proof (intro allI impI)
    fix i j assume "i < j" "j < length ys"
    then show "cmp (ys ! i) (ys ! j) \<le> 0"
      using ys(3) same_outside_length [OF ys(2)] by (auto simp: sorted_on_def)
  qed
  then show ?thesis using ys False by (auto simp: qsort_def same_outside_def)
qed

theorem qsort_sorts_witness:
  "\<exists>ys. qsort (\<lambda>a b. a - b) [3, 1, 2 :: int] = Some ys \<and> mset ys = {#1, 2, 3#} \<and> sorted_wrt (\<lambda>a b. a - b \<le> 0) ys"
  using qsort_sorts [of "\<lambda>a b. a - b" "[3, 1, 2 :: int]"]
  by (auto simp: ordering_def add_mset_commute)

end
