(* ===== verification/Stdio.thy ===== *)
theory Stdio
  imports Stdlib
begin

unbundle bit_operations_syntax

text \<open>
  \<open>lib/stdio\<close>: buffered files and formatted output. The system calls and \<open>malloc\<close> are a
  record of functions on the state \<open>'w\<close> of the world outside the process; a file is passed
  explicitly, and \<open>None\<close> is an access outside an object or a libc panic.
\<close>

section \<open>Files\<close>

datatype buf_mode = IONBF | IOLBF | IOFBF | STROUT

record FILE =
  fl_fd :: int
  fl_mode :: "32 word"
  fl_eof :: bool
  fl_err :: bool
  fl_buf :: "byte list option"
  fl_buf_mode :: buf_mode
  fl_buf_size :: int
  fl_buf_pos :: nat
  fl_buf_insize :: nat
  fl_buf_write :: bool
  fl_buf_malloc :: bool
  fl_ungotc :: int

record 'w sys =
  sy_write :: "int \<Rightarrow> byte list \<Rightarrow> 'w \<Rightarrow> int \<times> 'w"
  sy_read :: "int \<Rightarrow> nat \<Rightarrow> 'w \<Rightarrow> byte list option \<times> 'w"
  sy_lseek :: "int \<Rightarrow> int \<Rightarrow> int \<Rightarrow> 'w \<Rightarrow> int \<times> 'w"
  sy_malloc :: "nat \<Rightarrow> 'w \<Rightarrow> byte list option \<times> 'w"

abbreviation (input) "FMODE_R \<equiv> (1 :: 32 word)"
abbreviation (input) "FMODE_W \<equiv> (2 :: 32 word)"
abbreviation (input) "FMODE_A \<equiv> (4 :: 32 word)"
abbreviation (input) "EOF \<equiv> (-1 :: int)"
abbreviation (input) "BUFSIZ \<equiv> (512 :: nat)"

definition fflush :: "'w sys \<Rightarrow> FILE \<Rightarrow> 'w \<Rightarrow> int \<times> FILE \<times> 'w" where
  "fflush sy f w =
     (if fl_mode f AND FMODE_W = 0 then (EOF, f\<lparr>fl_err := True\<rparr>, w)
      else case fl_buf f of
        None \<Rightarrow> (0, f\<lparr>fl_buf_write := False\<rparr>, w)
      | Some b \<Rightarrow>
          if fl_buf_write f \<and> fl_buf_pos f \<noteq> 0 then
            let l = fl_buf_pos f in
            case sy_write sy (fl_fd f) (take l b) w of (r, w) \<Rightarrow>
              if r \<noteq> int l then (EOF, f\<lparr>fl_buf_pos := 0, fl_err := True\<rparr>, w)
              else (0, f\<lparr>fl_buf_pos := 0\<rparr>, w)
          else (0, f, w))"

text \<open>The buffer of a file that has none yet.\<close>

definition get_buf :: "'w sys \<Rightarrow> FILE \<Rightarrow> 'w \<Rightarrow> bool \<times> FILE \<times> 'w" where
  "get_buf sy f w =
     (if fl_buf f \<noteq> None then (True, f, w)
      else case sy_malloc sy BUFSIZ w of
        (None, w) \<Rightarrow> (False, f\<lparr>fl_err := True\<rparr>, w)
      | (Some b, w) \<Rightarrow> (True, f\<lparr>fl_buf := Some b, fl_buf_size := int BUFSIZ, fl_buf_malloc := True\<rparr>, w))"

text \<open>A store through the buffer at the index \<open>i\<close>.\<close>

definition buf_store :: "nat \<Rightarrow> byte \<Rightarrow> FILE \<Rightarrow> FILE option" where
  "buf_store i c f =
     (case fl_buf f of
        None \<Rightarrow> None
      | Some b \<Rightarrow> if i < length b then Some (f\<lparr>fl_buf := Some (b[i := c])\<rparr>) else None)"

definition fputc :: "'w sys \<Rightarrow> byte \<Rightarrow> FILE \<Rightarrow> 'w \<Rightarrow> (int \<times> FILE \<times> 'w) option" where
  "fputc sy c f w =
     (if fl_mode f AND FMODE_W = 0 then Some (EOF, f\<lparr>fl_err := True\<rparr>, w)
      else case fl_buf_mode f of
        IONBF \<Rightarrow>
          (case sy_write sy (fl_fd f) [c] w of (r, w) \<Rightarrow>
             Some (if r = 1 then (uint c, f, w) else (EOF, f\<lparr>fl_err := True\<rparr>, w)))
      | STROUT \<Rightarrow>
          let f = f\<lparr>fl_buf_pos := fl_buf_pos f + 1\<rparr> in
          if int (fl_buf_pos f) \<le> fl_buf_size f \<or> fl_buf_size f = -1
          then map_option (\<lambda>f. (uint c, f, w)) (buf_store (fl_buf_pos f - 1) c f)
          else Some (uint c, f, w)
      | _ \<Rightarrow>
          (case get_buf sy (f\<lparr>fl_buf_write := True, fl_buf_insize := 0\<rparr>) w of
             (False, f, w) \<Rightarrow> Some (EOF, f, w)
           | (True, f, w) \<Rightarrow>
               (case (if int (fl_buf_pos f) = fl_buf_size f then fflush sy f w else (0, f, w)) of (r, f, w) \<Rightarrow>
                  if r \<noteq> 0 then Some (EOF, f, w)
                  else do {
                    f \<leftarrow> buf_store (fl_buf_pos f) c f;
                    let f = f\<lparr>fl_buf_pos := fl_buf_pos f + 1\<rparr>;
                    Some (if fl_buf_mode f = IOLBF \<and> c = 10 then fflush sy f w else (uint c, f, w))
                  })))"

fun fputs :: "'w sys \<Rightarrow> byte list \<Rightarrow> FILE \<Rightarrow> 'w \<Rightarrow> (int \<times> FILE \<times> 'w) option" where
  "fputs sy [] f w = Some (0, f, w)"
| "fputs sy (c # cs) f w = do {
     (r, f, w) \<leftarrow> fputc sy c f w;
     (if r = EOF then Some (EOF, f, w) else fputs sy cs f w)
   }"

definition puts :: "'w sys \<Rightarrow> byte list \<Rightarrow> FILE \<Rightarrow> 'w \<Rightarrow> (int \<times> FILE \<times> 'w) option" where
  "puts sy s f w = do {
     (r, f, w) \<leftarrow> fputs sy s f w;
     (if r \<noteq> 0 then Some (EOF, f, w)
      else do {
        (r, f, w) \<leftarrow> fputc sy 10 f w;
        Some (if r = EOF then EOF else 0, f, w)
      })
   }"

text \<open>A read fills the front of the buffer.\<close>

definition fgetc :: "'w sys \<Rightarrow> FILE \<Rightarrow> 'w \<Rightarrow> (int \<times> FILE \<times> 'w) option" where
  "fgetc sy f w =
     (if fl_mode f AND FMODE_R = 0 then Some (EOF, f\<lparr>fl_err := True\<rparr>, w)
      else if fl_ungotc f \<noteq> EOF then Some (fl_ungotc f, f\<lparr>fl_ungotc := EOF\<rparr>, w)
      else case fl_buf_mode f of
        IONBF \<Rightarrow>
          (case sy_read sy (fl_fd f) 1 w of
             (None, w) \<Rightarrow> Some (EOF, f\<lparr>fl_err := True\<rparr>, w)
           | (Some [], w) \<Rightarrow> Some (EOF, f, w)
           | (Some (c # _), w) \<Rightarrow> Some (uint c, f, w))
      | STROUT \<Rightarrow> None
      | _ \<Rightarrow>
          (case get_buf sy f w of
             (False, f, w) \<Rightarrow> Some (EOF, f, w)
           | (True, f, w) \<Rightarrow>
               (case fl_buf f of
                  None \<Rightarrow> None
                | Some b \<Rightarrow>
                    if fl_buf_pos f \<noteq> fl_buf_insize f then
                      if fl_buf_pos f < length b
                      then Some (uint (b ! fl_buf_pos f), f\<lparr>fl_buf_pos := fl_buf_pos f + 1\<rparr>, w) else None
                    else if fl_buf_size f < 0 then None
                    else case sy_read sy (fl_fd f) (nat (fl_buf_size f)) w of
                      (None, w) \<Rightarrow> Some (EOF, f\<lparr>fl_buf_pos := 0, fl_buf_insize := 0, fl_err := True\<rparr>, w)
                    | (Some [], w) \<Rightarrow> Some (EOF, f\<lparr>fl_buf_pos := 0, fl_buf_insize := 0, fl_eof := True\<rparr>, w)
                    | (Some (c # cs), w) \<Rightarrow>
                        if length cs < length b
                        then Some (uint c, f\<lparr>fl_buf := Some ((c # cs) @ drop (Suc (length cs)) b), fl_buf_pos := 1,
                               fl_buf_insize := Suc (length cs)\<rparr>, w)
                        else None)))"

definition ungetc :: "int \<Rightarrow> FILE \<Rightarrow> int \<times> FILE" where
  "ungetc c f =
     (if fl_ungotc f = EOF then (c mod 256, f\<lparr>fl_ungotc := c mod 256\<rparr>) else (EOF, f\<lparr>fl_err := True\<rparr>))"

text \<open>
  \<open>fgets\<close> stores into the caller's array; the result says which array and whether it returned
  the pointer. A line that does not fit is given up without a terminating zero and without
  a result.
\<close>

fun fgets_loop :: "'w sys \<Rightarrow> nat \<Rightarrow> nat \<Rightarrow> byte list \<Rightarrow> FILE \<Rightarrow> 'w \<Rightarrow> (bool \<times> byte list \<times> FILE \<times> 'w) option" where
  "fgets_loop sy 0 i s f w = Some (False, s, f, w)"
| "fgets_loop sy (Suc n) i s f w = do {
     (c, f, w) \<leftarrow> fgetc sy f w;
     (if i \<ge> length s then None
      else if c = EOF then
        let s = s[i := 0] in Some (s ! 0 \<noteq> 0, s, f, w)
      else
        let s = s[i := of_int c] in
        if c = 10 then (if i + 1 < length s then Some (True, s[i + 1 := 0], f, w) else None)
        else fgets_loop sy n (i + 1) s f w)
   }"

definition fgets :: "'w sys \<Rightarrow> byte list \<Rightarrow> int \<Rightarrow> FILE \<Rightarrow> 'w \<Rightarrow> (bool \<times> byte list \<times> FILE \<times> 'w) option" where
  "fgets sy s n f w = fgets_loop sy (nat (n - 1)) 0 s f w"

definition ftell :: "'w sys \<Rightarrow> FILE \<Rightarrow> 'w \<Rightarrow> int \<times> 'w" where
  "ftell sy f w =
     (case sy_lseek sy (fl_fd f) 0 1 w of (r, w) \<Rightarrow>
        let r = (if r < 0 then 0 else r);
            r = (if fl_buf_write f then r else r + int (fl_buf_pos f) - int (fl_buf_insize f))
        in (if fl_ungotc f \<noteq> EOF then r - 1 else r, w))"

definition fseek :: "'w sys \<Rightarrow> FILE \<Rightarrow> int \<Rightarrow> int \<Rightarrow> 'w \<Rightarrow> int \<times> FILE \<times> 'w" where
  "fseek sy f off whence w =
     (case (if fl_buf_write f then snd (fflush sy f w) else (f, w)) of (f, w) \<Rightarrow>
      case ftell sy f w of (r, w) \<Rightarrow>
        if r < 0 then (-1, f, w)
        else
          let f = f\<lparr>fl_buf_insize := 0, fl_buf_pos := 0\<rparr> in
          if whence \<notin> {0, 1, 2} then (-1, f\<lparr>fl_err := True\<rparr>, w)
          else case (if whence = 0 then sy_lseek sy (fl_fd f) off 0 w
                     else if whence = 1 then sy_lseek sy (fl_fd f) (r + off) 0 w
                     else sy_lseek sy (fl_fd f) off 2 w) of (r, w) \<Rightarrow>
            if r < 0 then (-1, f\<lparr>fl_err := True\<rparr>, w) else (0, f, w))"

text \<open>\<open>setvbuf\<close> with a mode that is valid.\<close>

definition setvbuf :: "'w sys \<Rightarrow> FILE \<Rightarrow> byte list option \<Rightarrow> buf_mode \<Rightarrow> nat \<Rightarrow> 'w \<Rightarrow> int \<times> FILE \<times> 'w" where
  "setvbuf sy f buf mode n w =
     (if mode = STROUT then (-1, f\<lparr>fl_err := True\<rparr>, w)
      else case (if fl_buf_write f then snd (fflush sy f w) else (f, w)) of (f, w) \<Rightarrow>
        (0, f\<lparr>fl_buf_pos := 0, fl_buf_insize := 0, fl_buf_malloc := False, fl_buf := buf, fl_buf_mode := mode,
              fl_buf_size := int n\<rparr>, w))"

section \<open>Formatted output\<close>

fun itoa_loop :: "32 word \<Rightarrow> 32 word \<Rightarrow> nat list \<Rightarrow> bool \<Rightarrow> byte list" where
  "itoa_loop v base [] z = []"
| "itoa_loop v base (i # is) z =
     (let digit = ((\<lambda>d. d div base) ^^ i) v mod base in
      if digit = 0 \<and> \<not> z \<and> i \<noteq> 0 then itoa_loop v base is z
      else (if digit \<le> 9 then 0x30 + ucast digit else 0x61 + ucast digit - 10) # itoa_loop v base is True)"

definition itoa :: "32 word \<Rightarrow> 32 word \<Rightarrow> byte list" where
  "itoa v base = itoa_loop v base (rev [0..<33]) False"

record fmt =
  fm_alt :: bool
  fm_sign :: bool
  fm_zero :: bool
  fm_left :: bool
  fm_spc :: bool
  fm_width :: int

datatype arg = Num "32 word" | Str "byte list"

fun fputn :: "'w sys \<Rightarrow> nat \<Rightarrow> byte \<Rightarrow> FILE \<Rightarrow> 'w \<Rightarrow> (int \<times> FILE \<times> 'w) option" where
  "fputn sy 0 c f w = Some (0, f, w)"
| "fputn sy (Suc n) c f w = do {
     (r, f, w) \<leftarrow> fputc sy c f w;
     (if r = EOF then Some (-1, f, w) else fputn sy n c f w)
   }"

definition fmtputs :: "'w sys \<Rightarrow> fmt \<Rightarrow> byte list \<Rightarrow> FILE \<Rightarrow> 'w \<Rightarrow> (int \<times> FILE \<times> 'w) option" where
  "fmtputs sy fm str f w =
     (let spc = (if fm_zero fm then 0x30 else 0x20);
          nspc = nat (fm_width fm - int (length str))
      in do {
        (r, f, w) \<leftarrow> (if fm_left fm then Some (0, f, w) else fputn sy nspc spc f w);
        (if r \<noteq> 0 then Some (-1, f, w)
         else do {
           (_, f, w) \<leftarrow> fputs sy str f w;
           (if fm_left fm then fputn sy nspc spc f w else Some (0, f, w))
         })
      })"

definition num_str :: "fmt \<Rightarrow> bool \<Rightarrow> 32 word \<Rightarrow> 32 word \<Rightarrow> byte list" where
  "num_str fm signedval base v =
     (if signedval \<and> sint v < 0 then 0x2D # itoa (- v) base
      else (if fm_sign fm then [0x2B] else if fm_spc fm then [0x20] else []) @ itoa v base)"

fun get_flags :: "fmt \<Rightarrow> byte list \<Rightarrow> fmt \<times> byte list" where
  "get_flags fm [] = (fm, [])"
| "get_flags fm (c # cs) =
     (if c = 0x30 then get_flags (fm\<lparr>fm_zero := True\<rparr>) cs
      else if c = 0x2D then get_flags (fm\<lparr>fm_left := True\<rparr>) cs
      else if c = 0x23 then get_flags (fm\<lparr>fm_alt := True\<rparr>) cs
      else if c = 0x20 then get_flags (fm\<lparr>fm_sign := False, fm_spc := True\<rparr>) cs
      else if c = 0x2B then get_flags (fm\<lparr>fm_sign := True, fm_spc := False\<rparr>) cs
      else (fm, c # cs))"

fun get_width :: "32 word \<Rightarrow> byte list \<Rightarrow> 32 word \<times> byte list" where
  "get_width n [] = (n, [])"
| "get_width n (c # cs) =
     (if isdigit (sint c) then get_width (n * 10 + (signed c - 0x30)) cs else (n, c # cs))"

definition no_flags :: fmt where
  "no_flags = \<lparr>fm_alt = False, fm_sign = False, fm_zero = False, fm_left = False, fm_spc = False, fm_width = 0\<rparr>"

text \<open>What stands between the percent sign and the conversion character, with the rest.\<close>

definition get_format :: "byte list \<Rightarrow> fmt \<times> byte list" where
  "get_format s =
     (case get_flags no_flags s of (fm, s) \<Rightarrow>
      case get_width 0 s of (n, s) \<Rightarrow>
        (fm\<lparr>fm_width := sint n\<rparr>, dropWhile (\<lambda>c. c = 0x6C) s))"

definition num_arg :: "fmt \<Rightarrow> byte \<Rightarrow> 32 word \<Rightarrow> byte list option" where
  "num_arg fm c v =
     (if c = 0x64 \<or> c = 0x69 then Some (num_str fm True 10 v)
      else if c = 0x75 then Some (num_str fm False 10 v)
      else if c = 0x6F then Some (num_str fm False 8 v)
      else if c = 0x78 \<or> c = 0x58 \<or> c = 0x70 then Some (num_str fm False 16 v)
      else None)"

text \<open>
  One conversion, with the arguments that are left. A \<open>%\<close> at the end of the format is not
  here: the code goes on behind the terminating zero.
\<close>

definition convert :: "'w sys \<Rightarrow> byte list \<Rightarrow> fmt \<Rightarrow> byte \<Rightarrow> arg list \<Rightarrow> FILE \<Rightarrow> 'w \<Rightarrow> (int \<times> arg list \<times> FILE \<times> 'w) option" where
  "convert sy errs fm c args f w =
     (if c = 0x6D then map_option (\<lambda>(r, f, w). (r, args, f, w)) (fmtputs sy fm errs f w)
      else if c = 0x73 then
        (case args of Str s # args \<Rightarrow> map_option (\<lambda>(r, f, w). (r, args, f, w)) (fmtputs sy fm s f w) | _ \<Rightarrow> None)
      else if c = 0x63 then
        (case args of
           Num v # args \<Rightarrow> map_option (\<lambda>(r, f, w). (if r = EOF then -1 else 0, args, f, w)) (fputc sy (ucast v) f w)
         | _ \<Rightarrow> None)
      else if num_arg fm c 0 \<noteq> None then
        (case args of
           Num v # args \<Rightarrow> map_option (\<lambda>(r, f, w). (r, args, f, w)) (fmtputs sy fm (the (num_arg fm c v)) f w)
         | _ \<Rightarrow> None)
      else do {
        (r, f, w) \<leftarrow> fputc sy 0x25 f w;
        (if r = EOF then Some (-1, args, f, w)
         else map_option (\<lambda>(r, f, w). (if r = EOF then -1 else 0, args, f, w)) (fputc sy c f w))
      })"

lemma get_flags_length: "length (snd (get_flags fm s)) \<le> length s"
proof (induction s arbitrary: fm)
  case (Cons c s)
  show ?case using Cons.IH by (auto intro: le_SucI)
qed simp

lemma get_width_length: "length (snd (get_width n s)) \<le> length s"
proof (induction s arbitrary: n)
  case (Cons c s)
  show ?case using Cons.IH by (auto intro: le_SucI)
qed simp

lemma get_format_length: "get_format s = (fm, c # r) \<Longrightarrow> length r < length s"
proof -
  assume "get_format s = (fm, c # r)"
  then obtain fm' s' n s'' where "get_flags no_flags s = (fm', s')" "get_width 0 s' = (n, s'')"
      "dropWhile (\<lambda>c. c = 0x6C) s'' = c # r"
    by (auto simp: get_format_def split: prod.splits)
  then show ?thesis
    using get_flags_length [of no_flags s] get_width_length [of 0 s'] length_dropWhile_le [of "\<lambda>c. c = 0x6C" s'']
    by simp
qed

function vfprintf :: "'w sys \<Rightarrow> byte list \<Rightarrow> byte list \<Rightarrow> arg list \<Rightarrow> FILE \<Rightarrow> 'w \<Rightarrow> (int \<times> FILE \<times> 'w) option" where
  "vfprintf sy errs [] args f w = Some (0, f, w)"
| "vfprintf sy errs (c # s) args f w =
     (if c \<noteq> 0x25 then
        Option.bind (fputc sy c f w) (\<lambda>(r, f, w).
          if r = EOF then Some (-1, f, w) else vfprintf sy errs s args f w)
      else if s \<noteq> [] \<and> hd s = 0x25 then
        Option.bind (fputc sy 0x25 f w) (\<lambda>(r, f, w).
          if r = EOF then Some (-1, f, w) else vfprintf sy errs (tl s) args f w)
      else case get_format s of
          (fm, []) \<Rightarrow> None
        | (fm, d # t) \<Rightarrow>
            Option.bind (convert sy errs fm d args f w) (\<lambda>(r, args, f, w).
              if r \<noteq> 0 then Some (-1, f, w) else vfprintf sy errs t args f w))"
  by pat_completeness auto
termination
  by (relation "measure (\<lambda>(_, _, s, _, _, _). length s)") (auto dest!: get_format_length [OF sym])

text \<open>
  \<open>vsnprintf\<close> prints into the array \<open>str\<close> of the caller; the size is a \<open>size_t\<close> that becomes
  an \<open>int\<close>. It puts the terminating zero behind everything that was printed, also behind what
  did not fit.
\<close>

definition str_file :: "byte list \<Rightarrow> int \<Rightarrow> FILE" where
  "str_file str n = \<lparr>fl_fd = -1, fl_mode = FMODE_W, fl_eof = False, fl_err = False, fl_buf = Some str,
     fl_buf_mode = STROUT, fl_buf_size = n, fl_buf_pos = 0, fl_buf_insize = 0, fl_buf_write = True,
     fl_buf_malloc = False, fl_ungotc = EOF\<rparr>"

definition vsnprintf :: "'w sys \<Rightarrow> byte list \<Rightarrow> byte list \<Rightarrow> 32 word \<Rightarrow> byte list \<Rightarrow> arg list \<Rightarrow> 'w \<Rightarrow> (nat \<times> byte list \<times> 'w) option" where
  "vsnprintf sy errs str n format args w = do {
     (_, f, w) \<leftarrow> vfprintf sy errs format args (str_file str (sint n)) w;
     f \<leftarrow> buf_store (fl_buf_pos f) 0 f;
     (case fl_buf f of None \<Rightarrow> None | Some b \<Rightarrow> Some (fl_buf_pos f, b, w))
   }"

definition vsprintf :: "'w sys \<Rightarrow> byte list \<Rightarrow> byte list \<Rightarrow> byte list \<Rightarrow> arg list \<Rightarrow> 'w \<Rightarrow> (nat \<times> byte list \<times> 'w) option" where
  "vsprintf sy errs str format args w = vsnprintf sy errs str (-1) format args w"

section \<open>The printf of the kernel\<close>

text \<open>
  \<open>kern/lib/printf.c\<close>: the characters that are sent to the console, for the arguments on the
  stack. \<open>con_putun\<close> has the loop of \<open>__libc_itoa\<close>.
\<close>

definition con_putun :: "32 word \<Rightarrow> 32 word \<Rightarrow> byte list" where
  "con_putun v radix = itoa_loop v radix (rev [0..<33]) False"

definition con_putsn :: "32 word \<Rightarrow> 32 word \<Rightarrow> byte list" where
  "con_putsn v radix = (if sint v < 0 then 0x2D # con_putun (- v) radix else con_putun v radix)"

definition kconv :: "byte \<Rightarrow> arg list \<Rightarrow> (byte list \<times> arg list) option" where
  "kconv c args =
     (if c = 0x25 then Some ([0x25], args)
      else if c \<in> {0x73, 0x63, 0x69, 0x75, 0x6F, 0x78, 0x58, 0x70} then
        (case args of
           Str s # args \<Rightarrow> if c = 0x73 then Some (s, args) else None
         | Num v # args \<Rightarrow>
             if c = 0x73 then None
             else Some (if c = 0x63 then [ucast v]
                else if c = 0x69 then con_putsn v 10
                else if c = 0x75 then con_putun v 10
                else if c = 0x6F then con_putun v 8
                else if c = 0x70 then [0x30, 0x78] @ con_putun v 16
                else con_putun v 16, args)
         | [] \<Rightarrow> None)
      else Some ([0x25, c], args))"

fun kprintf :: "byte list \<Rightarrow> arg list \<Rightarrow> byte list option" where
  "kprintf [] args = Some []"
| "kprintf (c # s) args =
     (if c \<noteq> 0x25 then map_option ((#) c) (kprintf s args)
      else case s of
          [] \<Rightarrow> None
        | d # s \<Rightarrow> Option.bind (kconv d args) (\<lambda>(t, args). map_option ((@) t) (kprintf s args)))"

section \<open>Numbers\<close>

text \<open>The digits of a number in the base \<open>b\<close>, the most significant first.\<close>

definition digit_char :: "nat \<Rightarrow> byte" where
  "digit_char d = of_nat (if d \<le> 9 then 0x30 + d else 0x57 + d)"

definition digit :: "nat \<Rightarrow> nat \<Rightarrow> nat \<Rightarrow> nat" where
  "digit b v i = v div b ^ i mod b"

definition digits :: "nat \<Rightarrow> nat \<Rightarrow> nat \<Rightarrow> byte list" where
  "digits b v k = map (\<lambda>i. digit_char (digit b v i)) (rev [0..<k])"

lemma funpow_div: "unat (((\<lambda>d. d div base) ^^ i) (v :: 32 word)) = unat v div unat base ^ i"
  by (induction i) (simp_all add: unat_div div_mult2_eq [symmetric] mult.commute)

lemma itoa_digit:
  assumes "unat base = b" and "2 \<le> b" and "b \<le> 36" and d_def: "d = ((\<lambda>d. d div base) ^^ i) (v :: 32 word) mod base"
  shows "(if d \<le> 9 then 0x30 + ucast d else 0x61 + ucast d - 10) = digit_char (digit b (unat v) i)"
    and "d = 0 \<longleftrightarrow> digit b (unat v) i = 0"
proof -
  have u: "unat d = digit b (unat v) i" by (simp add: d_def unat_mod funpow_div assms(1) digit_def)
  have lt: "digit b (unat v) i < 36" using assms(2,3) by (auto simp: digit_def intro: less_le_trans [OF mod_less_divisor])
  have le: "d \<le> 9 \<longleftrightarrow> digit b (unat v) i \<le> 9" by (simp add: word_le_nat_alt u)
  have "(ucast d :: byte) = of_nat (digit b (unat v) i)" by (simp add: u [symmetric])
  then show "(if d \<le> 9 then 0x30 + ucast d else 0x61 + ucast d - 10) = digit_char (digit b (unat v) i)"
    by (simp add: digit_char_def le)
  show "d = 0 \<longleftrightarrow> digit b (unat v) i = 0" by (simp add: u [symmetric] unat_eq_0)
qed

lemma itoa_loop_True:
  assumes "unat base = b" and "2 \<le> b" and "b \<le> 36"
  shows "itoa_loop v base (rev [0..<k]) True = digits b (unat v) k"
  by (induction k) (simp_all add: digits_def Let_def itoa_digit [OF assms refl])

lemma itoa_loop_False:
  assumes "unat base = b" and "2 \<le> b" and "b \<le> 36"
  shows "0 < k \<Longrightarrow> \<exists>j. 0 < j \<and> itoa_loop v base (rev [0..<k]) False = digits b (unat v) j
    \<and> j \<le> k \<and> (\<forall>i. j \<le> i \<and> i < k \<longrightarrow> digit b (unat v) i = 0) \<and> (1 < j \<longrightarrow> digit b (unat v) (j - 1) \<noteq> 0)"
proof (induction k)
  case 0
  then show ?case by simp
next
  case (Suc k)
  show ?case
  proof (cases "digit b (unat v) k = 0 \<and> k \<noteq> 0")
    case True
    then have "itoa_loop v base (rev [0..<Suc k]) False = itoa_loop v base (rev [0..<k]) False"
      by (simp add: Let_def itoa_digit [OF assms refl])
    with Suc.IH True show ?thesis by (metis less_Suc_eq neq0_conv le_SucI)
  next
    case False
    then have "itoa_loop v base (rev [0..<Suc k]) False = digits b (unat v) (Suc k)"
      using itoa_loop_True [OF assms, of v k] by (auto simp: Let_def itoa_digit [OF assms refl] digits_def)
    then show ?thesis using False by (intro exI [of _ "Suc k"]) auto
  qed
qed

lemma mod_digits: "2 \<le> b \<Longrightarrow> v mod b ^ Suc i = digit b v i * b ^ i + v mod b ^ i"
  using mod_mult2_eq [of v "b ^ i" b] by (simp add: digit_def mult.commute)

lemma high_digits_zero:
  assumes "2 \<le> b" and "v < b ^ k" and "\<forall>i. j \<le> i \<and> i < k \<longrightarrow> digit b v i = 0" and "j \<le> k"
  shows "v < b ^ j"
proof -
  have "v mod b ^ (j + n) = v mod b ^ j" if "j + n \<le> k" for n
    using that
  proof (induction n)
    case (Suc n)
    then show ?case using mod_digits [OF assms(1), of v "j + n"] assms(3) by simp
  qed simp
  from this [of "k - j"] have "v mod b ^ j = v" using assms(2,4) by simp
  then show ?thesis using assms(1) by (metis mod_less_divisor neq0_conv not_numeral_le_zero power_eq_0_iff)
qed

lemma itoa_digits:
  assumes "unat base = b" and "2 \<le> b" and "b \<le> 36"
  shows "\<exists>j. 0 < j \<and> itoa v base = digits b (unat v) j \<and> unat v < b ^ j \<and> (1 < j \<longrightarrow> digit b (unat v) (j - 1) \<noteq> 0)"
proof -
  obtain j where j: "0 < j" "itoa v base = digits b (unat v) j" "j \<le> 33"
      "\<forall>i. j \<le> i \<and> i < 33 \<longrightarrow> digit b (unat v) i = 0" "1 < j \<longrightarrow> digit b (unat v) (j - 1) \<noteq> 0"
    using itoa_loop_False [OF assms, of 33 v] unfolding itoa_def by auto
  have "unat v < 4294967296" using unsigned_less [of v] by simp
  then have "unat v < 2 ^ 33" by simp
  also have "(2 :: nat) ^ 33 \<le> b ^ 33" using assms(2) by (rule power_mono) simp
  finally have "unat v < b ^ j" using high_digits_zero [OF assms(2) _ j(4,3)] by simp
  with j show ?thesis by blast
qed

lemma signed_digit:
  assumes "d \<le> 9"
  shows "isdigit (sint (digit_char d))" and "(signed (digit_char d) :: 32 word) - 0x30 = of_nat d"
proof -
  have "d \<in> {0, 1, 2, 3, 4, 5, 6, 7, 8, 9}" using assms by auto
  then have "isdigit (sint (digit_char d)) \<and> (signed (digit_char d) :: 32 word) - 0x30 = of_nat d"
    by (auto simp: digit_char_def isdigit_def)
  then show "isdigit (sint (digit_char d))" and "(signed (digit_char d) :: 32 word) - 0x30 = of_nat d" by simp_all
qed

lemma digits_val_digits: "digits_val n (digits 10 v j) = n * 10 ^ j + of_nat (v mod 10 ^ j)"
proof (induction j arbitrary: n)
  case 0
  then show ?case by (simp add: digits_def)
next
  case (Suc j)
  have d: "digit 10 v j \<le> 9" using mod_less_divisor [of 10 "v div 10 ^ j"] by (simp add: digit_def)
  have "digits_val n (digits 10 v (Suc j)) = digits_val (n * 10 + of_nat (digit 10 v j)) (digits 10 v j)"
    using signed_digit [OF d] by (simp add: digits_def)
  also have "\<dots> = n * 10 ^ Suc j + of_nat (digit 10 v j * 10 ^ j + v mod 10 ^ j)"
    by (simp add: Suc.IH algebra_simps)
  finally show ?case using mod_digits [of 10 v j] by simp
qed

lemma digits_head: "0 < j \<Longrightarrow> \<exists>cs. digits 10 v j = digit_char (digit 10 v (j - 1)) # cs"
  by (cases j) (simp_all add: digits_def)

lemma digit_not_minus: "d \<le> 9 \<Longrightarrow> digit_char d \<noteq> 0x2D"
  using signed_digit(1) [of d] by (auto simp: isdigit_def)

lemma atoi_itoa:
  shows "atoi (itoa v 10) = v" and "digits_val 0 (itoa v 10) = v"
proof -
  obtain j where j: "0 < j" "itoa v 10 = digits 10 (unat v) j" "unat v < 10 ^ j"
    using itoa_digits [of 10 10 v] by auto
  have d: "digit 10 (unat v) (j - 1) \<le> 9" using mod_less_divisor [of 10] by (simp add: digit_def less_Suc_eq_le [symmetric])
  show "digits_val 0 (itoa v 10) = v" using j digits_val_digits [of 0 "unat v" j] by simp
  then show "atoi (itoa v 10) = v"
    using digits_head [OF j(1), of "unat v"] digit_not_minus [OF d] j(2) by (auto simp: atoi_def)
qed

text \<open>
  \<open>%d\<close> prints what \<open>atoi\<close> reads, for every number of 32 bits, the least
  one included; in every base from 2 to 36 what is printed are the digits of the number,
  with no leading zero.
\<close>

theorem printed_numbers:
  "atoi (num_str no_flags True 10 v) = v
   \<and> (\<forall>base. 2 \<le> unat base \<and> unat base \<le> 36 \<longrightarrow>
        (\<exists>j > 0. num_str no_flags False base v = digits (unat base) (unat v) j \<and> unat v < unat base ^ j
           \<and> (1 < j \<longrightarrow> digit (unat base) (unat v) (j - 1) \<noteq> 0)))"
proof -
  have "atoi (num_str no_flags True 10 v) = v"
  proof (cases "sint v < 0")
    case True
    then show ?thesis by (simp add: num_str_def atoi_def atoi_itoa(2))
  next
    case False
    then show ?thesis by (simp add: num_str_def atoi_itoa(1) no_flags_def)
  qed
  moreover have "\<exists>j > 0. num_str no_flags False base v = digits (unat base) (unat v) j \<and> unat v < unat base ^ j
      \<and> (1 < j \<longrightarrow> digit (unat base) (unat v) (j - 1) \<noteq> 0)" if "2 \<le> unat base" "unat base \<le> 36" for base
    using itoa_digits [OF refl that, of v] by (auto simp: num_str_def no_flags_def)
  ultimately show ?thesis by blast
qed

theorem printed_numbers_witness:
  "atoi (num_str no_flags True 10 (-2147483648)) = -2147483648
   \<and> (\<exists>j > 0. num_str no_flags False 16 255 = digits 16 255 j)"
  using printed_numbers [of "-2147483648"] printed_numbers [of 255, THEN conjunct2, rule_format, of 16] by auto

section \<open>Printing into a string\<close>

text \<open>What \<open>vfprintf\<close> prints for a format, without the file. \<open>None\<close> are wrong arguments.\<close>

definition pad_text :: "fmt \<Rightarrow> byte list \<Rightarrow> byte list" where
  "pad_text fm s =
     (let pad = replicate (nat (fm_width fm - int (length s))) (if fm_zero fm then 0x30 else 0x20)
      in if fm_left fm then s @ pad else pad @ s)"

definition conv_text :: "byte list \<Rightarrow> fmt \<Rightarrow> byte \<Rightarrow> arg list \<Rightarrow> (byte list \<times> arg list) option" where
  "conv_text errs fm c args =
     (if c = 0x6D then Some (pad_text fm errs, args)
      else if c = 0x73 then (case args of Str s # args \<Rightarrow> Some (pad_text fm s, args) | _ \<Rightarrow> None)
      else if c = 0x63 then (case args of Num v # args \<Rightarrow> Some ([ucast v], args) | _ \<Rightarrow> None)
      else if num_arg fm c 0 \<noteq> None then
        (case args of Num v # args \<Rightarrow> Some (pad_text fm (the (num_arg fm c v)), args) | _ \<Rightarrow> None)
      else Some ([0x25, c], args))"

function format_text :: "byte list \<Rightarrow> byte list \<Rightarrow> arg list \<Rightarrow> byte list option" where
  "format_text errs [] args = Some []"
| "format_text errs (c # s) args =
     (if c \<noteq> 0x25 then map_option ((#) c) (format_text errs s args)
      else if s \<noteq> [] \<and> hd s = 0x25 then map_option ((#) 0x25) (format_text errs (tl s) args)
      else case get_format s of
          (fm, []) \<Rightarrow> None
        | (fm, d # t) \<Rightarrow>
            (case conv_text errs fm d args of
               None \<Rightarrow> None
             | Some (u, args) \<Rightarrow> map_option (\<lambda>v. u @ v) (format_text errs t args)))"
  by pat_completeness auto
termination
  by (relation "measure (\<lambda>(_, s, _). length s)") (auto dest!: get_format_length [OF sym])

text \<open>The file of an array of which the text \<open>out\<close> has been printed; what does not fit is dropped.\<close>

definition printed :: "byte list \<Rightarrow> byte list \<Rightarrow> FILE" where
  "printed str out = (str_file str (int (length str)))\<lparr>fl_buf_pos := length out,
     fl_buf := Some (take (length str) out @ drop (length out) str)\<rparr>"

lemma printed_Nil: "printed str [] = str_file str (int (length str))"
  by (simp add: printed_def str_file_def)

lemma fputc_printed: "fputc sy c (printed str out) w = Some (uint c, printed str (out @ [c]), w)"
proof (cases "length out < length str")
  case True
  then have "(out @ drop (length out) str)[length out := c] = (out @ [c]) @ drop (Suc (length out)) str"
    by (simp add: list_update_append Cons_nth_drop_Suc [symmetric])
  with True show ?thesis by (simp add: fputc_def printed_def str_file_def buf_store_def Let_def)
next
  case False
  then show ?thesis by (simp add: fputc_def printed_def str_file_def Let_def)
qed

lemma uint_not_EOF [simp]: "uint (c :: byte) \<noteq> -1"
  using uint_ge_0 [of c] by linarith

lemma fputs_printed: "fputs sy s (printed str out) w = Some (0, printed str (out @ s), w)"
  by (induction s arbitrary: out) (simp_all add: fputc_printed)

lemma fputn_printed: "fputn sy n c (printed str out) w = Some (0, printed str (out @ replicate n c), w)"
  by (induction n arbitrary: out) (simp_all add: fputc_printed)

lemma fmtputs_printed: "fmtputs sy fm s (printed str out) w = Some (0, printed str (out @ pad_text fm s), w)"
  by (simp add: fmtputs_def pad_text_def Let_def fputs_printed fputn_printed)

lemma convert_printed:
  "convert sy errs fm c args (printed str out) w
     = map_option (\<lambda>(t, args). (0, args, printed str (out @ t), w)) (conv_text errs fm c args)"
  by (auto simp: convert_def conv_text_def fmtputs_printed fputc_printed split: list.split arg.split)

lemma vfprintf_printed:
  "vfprintf sy errs fmt args (printed str out) w
     = map_option (\<lambda>t. (0, printed str (out @ t), w)) (format_text errs fmt args)"
proof (induction errs fmt args arbitrary: out rule: format_text.induct)
  case (1 errs args)
  then show ?case by simp
next
  case (2 errs c s args)
  note IH = 2
  consider (plain) "c \<noteq> 0x25" | (percent) "c = 0x25" "s \<noteq> [] \<and> hd s = 0x25"
    | (conv) "c = 0x25" "\<not> (s \<noteq> [] \<and> hd s = 0x25)" by blast
  then show ?case
  proof cases
    case plain
    then show ?thesis by (simp add: fputc_printed IH(1) option.map_comp comp_def)
  next
    case percent
    then show ?thesis by (simp add: fputc_printed IH(2) option.map_comp comp_def)
  next
    case conv
    then show ?thesis by (cases "get_format s"; cases "snd (get_format s)")
      (auto simp: convert_printed IH(3) option.map_comp comp_def split: option.split)
  qed
qed

lemma vsnprintf_format_text:
  assumes "length str < 2 ^ 31"
  shows "vsnprintf sy errs str (of_nat (length str)) fmt args w =
    (case format_text errs fmt args of
       None \<Rightarrow> None
     | Some t \<Rightarrow> if length t < length str then Some (length t, t @ 0 # drop (length t + 1) str, w) else None)"
proof -
  have n: "sint (of_nat (length str) :: 32 word) = int (length str)"
    using assms by (simp add: sint_uint uint_nat unat_of_nat signed_take_bit_int_eq_self)
  have "vfprintf sy errs fmt args (str_file str (sint (of_nat (length str) :: 32 word))) w
      = map_option (\<lambda>t. (0, printed str t, w)) (format_text errs fmt args)"
    using vfprintf_printed [of sy errs fmt args str "[]" w] by (simp add: n printed_Nil)
  then show ?thesis
    by (auto simp: vsnprintf_def printed_def str_file_def buf_store_def list_update_append
        Cons_nth_drop_Suc [symmetric] split: option.split)
qed

section \<open>What a format means\<close>

text \<open>
  The formats as a language of its own, and the text that each of them stands for, without regard to the code: the
  numbers are integers and are written by \<open>numeral_text\<close>. A format is a list of characters, percent signs and
  fields; a field has flags in any order, a width (0 is none), possibly an \<open>l\<close>, and a conversion.
\<close>

definition numeral_char :: "nat \<Rightarrow> byte" where
  "numeral_char d =
     ([0x30, 0x31, 0x32, 0x33, 0x34, 0x35, 0x36, 0x37, 0x38, 0x39, 0x61, 0x62, 0x63, 0x64, 0x65, 0x66] :: byte list) ! d"

function numeral_text :: "nat \<Rightarrow> nat \<Rightarrow> byte list" where
  "numeral_text b n = (if n < b \<or> b < 2 then [numeral_char n] else numeral_text b (n div b) @ [numeral_char (n mod b)])"
  by pat_completeness auto
termination by (relation "measure snd") auto

declare numeral_text.simps [simp del]

datatype flag = FLeft | FZero | FAlt | FPlus | FSpace

datatype conv = CDec byte | CUnsigned | COctal | CHex byte | CChar | CString | CError

datatype fmt_item = Lit byte | Percent | Conv "flag list" nat bool conv

definition flag_char :: "flag \<Rightarrow> byte" where
  "flag_char f = (case f of FLeft \<Rightarrow> 0x2D | FZero \<Rightarrow> 0x30 | FAlt \<Rightarrow> 0x23 | FPlus \<Rightarrow> 0x2B | FSpace \<Rightarrow> 0x20)"

definition conv_char :: "conv \<Rightarrow> byte" where
  "conv_char c = (case c of CDec k \<Rightarrow> k | CUnsigned \<Rightarrow> 0x75 | COctal \<Rightarrow> 0x6F | CHex k \<Rightarrow> k | CChar \<Rightarrow> 0x63 | CString \<Rightarrow> 0x73 | CError \<Rightarrow> 0x6D)"

definition item_bytes :: "fmt_item \<Rightarrow> byte list" where
  "item_bytes i = (case i of
       Lit c \<Rightarrow> [c]
     | Percent \<Rightarrow> [0x25, 0x25]
     | Conv fl w l c \<Rightarrow> 0x25 # map flag_char fl @ (if w = 0 then [] else numeral_text 10 w) @ (if l then [0x6C] else []) @ [conv_char c])"

definition item_ok :: "fmt_item \<Rightarrow> bool" where
  "item_ok i \<longleftrightarrow> (case i of
       Lit c \<Rightarrow> c \<noteq> 0x25
     | Percent \<Rightarrow> True
     | Conv fl w l c \<Rightarrow> w < 2 ^ 31 \<and> (case c of CDec k \<Rightarrow> k \<in> {0x64, 0x69} | CHex k \<Rightarrow> k \<in> {0x78, 0x58, 0x70} | _ \<Rightarrow> True))"

text \<open>Of the flags for the sign the last one counts. The fill character is a zero also behind a text and before a sign.\<close>

definition sign_text :: "flag list \<Rightarrow> byte list" where
  "sign_text fl = (case filter (\<lambda>f. f = FPlus \<or> f = FSpace) (rev fl) of [] \<Rightarrow> [] | f # _ \<Rightarrow> if f = FPlus then [0x2B] else [0x20])"

definition integer_text :: "flag list \<Rightarrow> nat \<Rightarrow> int \<Rightarrow> byte list" where
  "integer_text fl b z = (if z < 0 then 0x2D # numeral_text b (nat (- z)) else sign_text fl @ numeral_text b (nat z))"

definition fill :: "flag list \<Rightarrow> nat \<Rightarrow> byte list \<Rightarrow> byte list" where
  "fill fl w t =
     (let pad = replicate (w - length t) (if FZero \<in> set fl then 0x30 else 0x20) in if FLeft \<in> set fl then t @ pad else pad @ t)"

fun fmt_means :: "byte list \<Rightarrow> fmt_item list \<Rightarrow> arg list \<Rightarrow> byte list option" where
  "fmt_means errs [] args = Some []"
| "fmt_means errs (Lit c # its) args = map_option ((#) c) (fmt_means errs its args)"
| "fmt_means errs (Percent # its) args = map_option ((#) 0x25) (fmt_means errs its args)"
| "fmt_means errs (Conv fl w l CError # its) args = map_option ((@) (fill fl w errs)) (fmt_means errs its args)"
| "fmt_means errs (Conv fl w l c # its) [] = None"
| "fmt_means errs (Conv fl w l CString # its) (Str s # args) = map_option ((@) (fill fl w s)) (fmt_means errs its args)"
| "fmt_means errs (Conv fl w l c # its) (Str s # args) = None"
| "fmt_means errs (Conv fl w l (CDec k) # its) (Num v # args) = map_option ((@) (fill fl w (integer_text fl 10 (sint v)))) (fmt_means errs its args)"
| "fmt_means errs (Conv fl w l CUnsigned # its) (Num v # args) = map_option ((@) (fill fl w (integer_text fl 10 (uint v)))) (fmt_means errs its args)"
| "fmt_means errs (Conv fl w l COctal # its) (Num v # args) = map_option ((@) (fill fl w (integer_text fl 8 (uint v)))) (fmt_means errs its args)"
| "fmt_means errs (Conv fl w l (CHex k) # its) (Num v # args) = map_option ((@) (fill fl w (integer_text fl 16 (uint v)))) (fmt_means errs its args)"
| "fmt_means errs (Conv fl w l CChar # its) (Num v # args) = map_option ((#) (ucast v)) (fmt_means errs its args)"
| "fmt_means errs (Conv fl w l CString # its) (Num v # args) = None"

subsection \<open>The numbers\<close>

lemma digits_Suc: "digits b n (Suc j) = digits b (n div b) j @ [digit_char (n mod b)]"
proof -
  have "digit b n (Suc i) = digit b (n div b) i" for i by (simp add: digit_def div_mult2_eq)
  moreover have "rev [0..<Suc j] = map Suc (rev [0..<j]) @ [0]"
    by (metis map_Suc_upt rev.simps(2) rev_map upt_conv_Cons zero_less_Suc)
  ultimately show ?thesis by (simp only: digits_def map_append map_map comp_def) (simp add: digit_def)
qed

lemma numeral_char: "d < 16 \<Longrightarrow> digit_char d = numeral_char d"
proof -
  assume "d < 16"
  then have "d \<in> {0, 1, 2, 3, 4, 5, 6, 7, 8, 9, 10, 11, 12, 13, 14, 15}" by (simp only: insert_iff empty_iff) arith
  then show ?thesis by (auto simp: digit_char_def numeral_char_def)
qed

lemma digits_numeral:
  "2 \<le> b \<Longrightarrow> b \<le> 16 \<Longrightarrow> 0 < j \<Longrightarrow> n < b ^ j \<Longrightarrow> (1 < j \<longrightarrow> digit b n (j - 1) \<noteq> 0) \<Longrightarrow> digits b n j = numeral_text b n"
proof (induction j arbitrary: n)
  case (Suc j)
  show ?case
  proof (cases "j = 0")
    case True
    then show ?thesis
      using Suc.prems by (simp add: digits_def digit_def numeral_char numeral_text.simps [of b n])
  next
    case False
    have top: "digit b (n div b) (j - 1) \<noteq> 0"
      using Suc.prems(5) False by (cases j) (simp_all add: digit_def div_mult2_eq)
    then have "n div b \<noteq> 0" by (metis digit_def div_0 mod_0)
    then have "b \<le> n" using Suc.prems(1) by (simp add: div_eq_0_iff)
    moreover have "n div b < b ^ j" using Suc.prems(1,4) by (simp add: div_less_iff_less_mult mult.commute)
    moreover have "n mod b < 16" using Suc.prems(1,2) by (intro less_le_trans [OF mod_less_divisor]) auto
    ultimately show ?thesis
      using Suc.IH [of "n div b"] Suc.prems(1,2) False top
      by (simp add: digits_Suc numeral_char numeral_text.simps [of b n])
  qed
qed simp

lemma itoa_numeral:
  assumes "unat base = b" and "2 \<le> b" and "b \<le> 16"
  shows "itoa v base = numeral_text b (unat v)"
proof -
  obtain j where "0 < j" "itoa v base = digits b (unat v) j" "unat v < b ^ j" "1 < j \<longrightarrow> digit b (unat v) (j - 1) \<noteq> 0"
    using itoa_digits [of base b v] assms by auto
  then show ?thesis using digits_numeral [OF assms(2,3)] by simp
qed

lemma uint_mod_sint: "uint (v :: 32 word) = sint v mod 2 ^ 32"
  using uint_sint [of v] by (simp add: take_bit_eq_mod)

lemma sint_low: "- (2 ^ 31) \<le> sint (v :: 32 word)" and sint_high: "sint (v :: 32 word) < 2 ^ 31"
  using sint_range_size [of v] by (simp_all add: word_size)

lemma uminus_sint: "sint (v :: 32 word) < 0 \<Longrightarrow> unat (- v) = nat (- sint v)"
proof -
  assume neg: "sint v < 0"
  have "uint (- v) = (- uint v) mod 2 ^ 32" by (simp add: uint_word_ariths)
  also have "\<dots> = (- sint v) mod 2 ^ 32" by (simp only: uint_mod_sint mod_minus_eq)
  finally show ?thesis using neg sint_low [of v] by (simp add: unat_eq_nat_uint)
qed

lemma sint_unat: "\<not> sint (v :: 32 word) < 0 \<Longrightarrow> unat v = nat (sint v)"
  using uint_mod_sint [of v] sint_high [of v] by (simp add: unat_eq_nat_uint)

definition sign_of :: "fmt \<Rightarrow> byte list" where
  "sign_of fm = (if fm_sign fm then [0x2B] else if fm_spc fm then [0x20] else [])"

lemma sign_of_width [simp]: "sign_of (fm\<lparr>fm_width := n\<rparr>) = sign_of fm"
  by (simp add: sign_of_def)

lemma num_str_integer:
  assumes "sign_of fm = sign_text fl" and "unat base = b" and "2 \<le> b" and "b \<le> 16"
  shows "num_str fm True base v = integer_text fl b (sint v)" and "num_str fm False base v = integer_text fl b (uint v)"
proof -
  show "num_str fm True base v = integer_text fl b (sint v)"
    using assms(1) sint_unat [of v] by (auto simp: num_str_def integer_text_def itoa_numeral [OF assms(2-4)] uminus_sint sign_of_def)
  show "num_str fm False base v = integer_text fl b (uint v)"
    using assms(1) by (simp add: num_str_def integer_text_def itoa_numeral [OF assms(2-4)] sign_of_def not_less)
qed

subsection \<open>The fields\<close>

definition set_flag :: "flag \<Rightarrow> fmt \<Rightarrow> fmt" where
  "set_flag f fm = (case f of
       FLeft \<Rightarrow> fm\<lparr>fm_left := True\<rparr>
     | FZero \<Rightarrow> fm\<lparr>fm_zero := True\<rparr>
     | FAlt \<Rightarrow> fm\<lparr>fm_alt := True\<rparr>
     | FPlus \<Rightarrow> fm\<lparr>fm_sign := True, fm_spc := False\<rparr>
     | FSpace \<Rightarrow> fm\<lparr>fm_sign := False, fm_spc := True\<rparr>)"

lemma get_flags_text:
  "c \<notin> {0x30, 0x2D, 0x23, 0x20, 0x2B} \<Longrightarrow> get_flags fm (map flag_char fl @ c # r) = (fold set_flag fl fm, c # r)"
  by (induction fl arbitrary: fm) (auto simp: flag_char_def set_flag_def split: flag.split)

lemma fold_set_flag:
  "fm_left (fold set_flag fl no_flags) \<longleftrightarrow> FLeft \<in> set fl" "fm_zero (fold set_flag fl no_flags) \<longleftrightarrow> FZero \<in> set fl"
  "sign_of (fold set_flag fl no_flags) = sign_text fl"
  by (induction fl rule: rev_induct)
    (auto simp: no_flags_def set_flag_def sign_of_def sign_text_def split: flag.split)

lemma get_width_digit:
  "d < 10 \<Longrightarrow> get_width n (numeral_char d # cs) = get_width (n * 10 + of_nat d) cs"
  using signed_digit [of d] by (simp add: numeral_char [symmetric])

lemma get_width_text: "get_width m (numeral_text 10 n @ cs) = get_width (m * 10 ^ length (numeral_text 10 n) + of_nat n) cs"
proof (induction "10 :: nat" n arbitrary: m cs rule: numeral_text.induct)
  case (1 n)
  show ?case
  proof (cases "n < 10")
    case True
    then show ?thesis by (simp add: numeral_text.simps [of 10 n] get_width_digit del: get_width.simps)
  next
    case False
    have "(of_nat n :: 32 word) = of_nat (n div 10 * 10 + n mod 10)" by simp
    also have "\<dots> = of_nat (n div 10) * 10 + of_nat (n mod 10)" by (simp only: of_nat_add of_nat_mult) simp
    finally have n: "(of_nat n :: 32 word) = of_nat (n div 10) * 10 + of_nat (n mod 10)" .
    show ?thesis
      using False 1 [of m "numeral_char (n mod 10) # cs"] n
      by (simp add: numeral_text.simps [of 10 n] get_width_digit algebra_simps del: get_width.simps)
  qed
qed

lemma numeral_text_head:
  "0 < n \<Longrightarrow> \<exists>d cs. 0 < d \<and> d < 10 \<and> numeral_text 10 n = numeral_char d # cs"
proof (induction "10 :: nat" n rule: numeral_text.induct)
  case (1 n)
  then show ?case by (cases "n < 10") (auto simp: numeral_text.simps [of 10 n] div_greater_zero_iff)
qed

lemma numeral_char_noflag: "0 < d \<Longrightarrow> d < 10 \<Longrightarrow> numeral_char d \<notin> {0x25, 0x30, 0x2D, 0x23, 0x20, 0x2B}"
proof -
  assume "0 < d" "d < 10"
  then have "d \<in> {1, 2, 3, 4, 5, 6, 7, 8, 9}" by (simp only: insert_iff empty_iff) arith
  then show ?thesis by (auto simp: numeral_char_def)
qed

lemma conv_char_cases:
  "(case c of CDec k \<Rightarrow> k \<in> {0x64, 0x69} | CHex k \<Rightarrow> k \<in> {0x78, 0x58, 0x70} | _ \<Rightarrow> True) \<Longrightarrow>
     conv_char c \<in> {0x64, 0x69, 0x75, 0x6F, 0x78, 0x58, 0x70, 0x63, 0x73, 0x6D}"
  by (cases c) (auto simp: conv_char_def)

lemma get_format_text:
  assumes "w < 2 ^ 31" and "c \<in> {0x64, 0x69, 0x75, 0x6F, 0x78, 0x58, 0x70, 0x63, 0x73, 0x6D}"
  shows "\<exists>fm. get_format (map flag_char fl @ (if w = 0 then [] else numeral_text 10 w) @ (if l then [0x6C] else []) @ c # r) = (fm, c # r)
     \<and> fm_left fm = (FLeft \<in> set fl) \<and> fm_zero fm = (FZero \<in> set fl) \<and> fm_width fm = int w \<and> sign_of fm = sign_text fl"
proof -
  define tl where "tl = (if l then [0x6C] else []) @ c # r"
  obtain d ds where tl: "tl = d # ds" "d \<notin> {0x30, 0x2D, 0x23, 0x20, 0x2B}" "\<not> isdigit (sint d)" "dropWhile (\<lambda>c. c = 0x6C) tl = c # r"
    using assms(2) by (cases l) (auto simp: tl_def isdigit_def)
  have sw: "sint (of_nat w :: 32 word) = int w"
    using assms(1) by (simp add: sint_uint uint_nat unat_of_nat signed_take_bit_int_eq_self)
  have "\<exists>d ds. (if w = 0 then [] else numeral_text 10 w) @ tl = d # ds \<and> d \<notin> {0x30, 0x2D, 0x23, 0x20, 0x2B}"
    using tl(1,2) numeral_text_head [of w] numeral_char_noflag by (cases "w = 0") fastforce+
  then have fl: "get_flags no_flags (map flag_char fl @ (if w = 0 then [] else numeral_text 10 w) @ tl)
      = (fold set_flag fl no_flags, (if w = 0 then [] else numeral_text 10 w) @ tl)"
    using get_flags_text by metis
  have wd: "get_width 0 ((if w = 0 then [] else numeral_text 10 w) @ tl) = (of_nat w, tl)"
    using tl(1,3) get_width_text [of 0 w tl] by simp
  show ?thesis
    unfolding tl_def [symmetric]
    by (simp add: get_format_def fl wd tl(4) sw fold_set_flag)
qed

lemma pad_text_fill:
  "fm_left fm = (FLeft \<in> set fl) \<Longrightarrow> fm_zero fm = (FZero \<in> set fl) \<Longrightarrow> fm_width fm = int w \<Longrightarrow> pad_text fm t = fill fl w t"
  by (simp add: pad_text_def fill_def nat_diff_distrib')

lemma append_fun: "(@) [x] = (#) x"
  by auto

lemma fmt_means_conv:
  assumes "case c of CDec k \<Rightarrow> k \<in> {0x64, 0x69} | CHex k \<Rightarrow> k \<in> {0x78, 0x58, 0x70} | _ \<Rightarrow> True"
    and "\<And>t. pad_text fm t = fill fl w t" and "sign_of fm = sign_text fl"
  shows "(case conv_text errs fm (conv_char c) args of None \<Rightarrow> None | Some (u, args) \<Rightarrow> map_option (\<lambda>v. u @ v) (fmt_means errs its args))
     = fmt_means errs (Conv fl w l c # its) args"
  using assms(1)
  by (cases c; cases args; cases "hd args")
    (auto simp: conv_char_def conv_text_def num_arg_def assms(2) num_str_integer [OF assms(3)] append_fun)

lemma format_text_field:
  "get_format s = (fm, d # t) \<Longrightarrow> hd s \<noteq> 0x25 \<Longrightarrow> format_text errs (0x25 # s) args
     = (case conv_text errs fm d args of None \<Rightarrow> None | Some (u, args) \<Rightarrow> map_option (\<lambda>v. u @ v) (format_text errs t args))"
  by simp

lemma field_head:
  assumes "c \<in> {0x64, 0x69, 0x75, 0x6F, 0x78, 0x58, 0x70, 0x63, 0x73, 0x6D}"
  shows "hd (map flag_char fl @ (if w = 0 then [] else numeral_text 10 w) @ (if l then [0x6C] else []) @ c # r) \<noteq> 0x25"
proof (cases fl)
  case (Cons f fl')
  then show ?thesis by (simp add: flag_char_def split: flag.split)
next
  case Nil
  show ?thesis
  proof (cases "w = 0")
    case True
    then show ?thesis using Nil assms by (cases l) auto
  next
    case False
    then obtain d cs where "0 < d" "d < 10" "numeral_text 10 w = numeral_char d # cs" using numeral_text_head [of w] by auto
    then show ?thesis using Nil False numeral_char_noflag [of d] by simp
  qed
qed

lemma format_text_means:
  "list_all item_ok its \<Longrightarrow> format_text errs (concat (map item_bytes its)) args = fmt_means errs its args"
proof (induction its arbitrary: args)
  case (Cons i its)
  show ?case
  proof (cases i)
    case (Lit c)
    then show ?thesis using Cons by (simp add: item_bytes_def item_ok_def)
  next
    case Percent
    then show ?thesis using Cons by (simp add: item_bytes_def)
  next
    case (Conv fl w l c)
    define s where "s = map flag_char fl @ (if w = 0 then [] else numeral_text 10 w) @ (if l then [0x6C] else [])
       @ conv_char c # concat (map item_bytes its)"
    have ok: "w < 2 ^ 31" "case c of CDec k \<Rightarrow> k \<in> {0x64, 0x69} | CHex k \<Rightarrow> k \<in> {0x78, 0x58, 0x70} | _ \<Rightarrow> True"
      and IH: "\<And>args. format_text errs (concat (map item_bytes its)) args = fmt_means errs its args"
      using Cons Conv by (simp_all add: item_ok_def)
    obtain fm where fm: "get_format s = (fm, conv_char c # concat (map item_bytes its))" "fm_left fm = (FLeft \<in> set fl)"
        "fm_zero fm = (FZero \<in> set fl)" "fm_width fm = int w" "sign_of fm = sign_text fl"
      using get_format_text [OF ok(1) conv_char_cases [OF ok(2)]] unfolding s_def by blast
    have "concat (map item_bytes (i # its)) = 0x25 # s" by (simp add: Conv item_bytes_def s_def)
    moreover have hd: "hd s \<noteq> 0x25" unfolding s_def by (rule field_head [OF conv_char_cases [OF ok(2)]])
    ultimately show ?thesis
      using fmt_means_conv [where c = c and l = l and errs = errs and args = args and its = its, OF ok(2) pad_text_fill [OF fm(2-4)] fm(5)]
      by (simp only: format_text_field [OF fm(1) hd] IH Conv)
  qed
qed simp

text \<open>
  Property C31. A format of literal characters, percent signs and fields is printed as the text that \<open>fmt_means\<close>
  gives it: the numbers in their base, with their sign, filled to the width. \<open>snprintf\<close> into an array of the size it its told
  returns the length of the text and stores it with its terminating zero, if that fits. If it does not fit, the
  terminating zero its stored behind the end of the array: \<open>snprintf\<close> does not truncate. Arguments that are missing or of the wrong
  kind give no result.
\<close>

theorem snprintf_spec:
  assumes "length str < 2 ^ 31" and "list_all item_ok its"
  shows "vsnprintf sy errs str (of_nat (length str)) (concat (map item_bytes its)) args w =
    (case fmt_means errs its args of
       None \<Rightarrow> None
     | Some t \<Rightarrow> if length t < length str then Some (length t, t @ 0 # drop (length t + 1) str, w) else None)"
  using vsnprintf_format_text [OF assms(1), of sy errs "concat (map item_bytes its)" args w]
  by (simp only: format_text_means [OF assms(2)])

definition ex_sys :: "byte list sys" where
  "ex_sys = \<lparr>sy_write = \<lambda>_ bs w. (int (length bs), w @ bs), sy_read = \<lambda>_ _ w. (None, w),
     sy_lseek = \<lambda>_ _ _ w. (0, w), sy_malloc = \<lambda>n w. (Some (replicate n 0), w)\<rparr>"

theorem snprintf_spec_witness:
  "vsnprintf ex_sys [] [1, 2, 3, 4, 5, 6, 7, 8, 9] 9 [0x61, 0x25, 0x2D, 0x35, 0x64, 0x25, 0x78] [Num (-42), Num 255] []
     = Some (8, [0x61, 0x2D, 0x34, 0x32, 0x20, 0x20, 0x66, 0x66, 0], [])
   \<and> vsnprintf ex_sys [] [1, 2, 3, 4] 4 [0x25, 0x73] [Str [97, 98, 99, 100]] [] = None"
proof -
  have two: "replicate 2 (0x20 :: byte) = [0x20, 0x20]" by (simp add: numeral_2_eq_2)
  have "fmt_means [] [Lit 0x61, Conv [FLeft] 5 False (CDec 0x64), Conv [] 0 False (CHex 0x78)] [Num (-42), Num 255]
      = Some [0x61, 0x2D, 0x34, 0x32, 0x20, 0x20, 0x66, 0x66]"
    by (simp add: fill_def integer_text_def sign_text_def numeral_text.simps numeral_char_def two)
  moreover have "fmt_means [] [Conv [] 0 False CString] [Str [97, 98, 99, 100]] = Some [97, 98, 99, 100]"
    by (simp add: fill_def)
  ultimately show ?thesis
    using snprintf_spec [of "[1, 2, 3, 4, 5, 6, 7, 8, 9]" "[Lit 0x61, Conv [FLeft] 5 False (CDec 0x64), Conv [] 0 False (CHex 0x78)]" ex_sys "[]" "[Num (-42), Num 255]" "[]"]
      snprintf_spec [of "[1, 2, 3, 4]" "[Conv [] 0 False CString]" ex_sys "[]" "[Str [97, 98, 99, 100]]" "[]"]
    by (simp add: item_ok_def item_bytes_def flag_char_def conv_char_def numeral_text.simps numeral_char_def)
qed

section \<open>Buffered output\<close>

text \<open>
  A world in which writing succeeds and \<open>out\<close> is what has been written to the file, and in
  which \<open>malloc\<close> gives an area of the size asked for.
\<close>

definition writes_all :: "'w sys \<Rightarrow> int \<Rightarrow> ('w \<Rightarrow> byte list) \<Rightarrow> bool" where
  "writes_all sy fd out \<longleftrightarrow>
     (\<forall>bs w. \<exists>w'. sy_write sy fd bs w = (int (length bs), w') \<and> out w' = out w @ bs)
     \<and> (\<forall>n w. \<exists>b w'. sy_malloc sy n w = (Some b, w') \<and> length b = n \<and> out w' = out w)"

definition file_ok :: "FILE \<Rightarrow> bool" where
  "file_ok f \<longleftrightarrow> fl_mode f AND FMODE_W \<noteq> 0 \<and> fl_buf_mode f \<noteq> STROUT
     \<and> (fl_buf_mode f = IONBF \<longrightarrow> fl_buf f = None) \<and> (fl_buf_write f \<or> fl_buf_pos f = 0)
     \<and> (case fl_buf f of None \<Rightarrow> fl_buf_pos f = 0
         | Some b \<Rightarrow> b \<noteq> [] \<and> fl_buf_size f = int (length b) \<and> fl_buf_pos f \<le> length b)"

definition pending :: "FILE \<Rightarrow> byte list" where
  "pending f = (case fl_buf f of None \<Rightarrow> [] | Some b \<Rightarrow> take (fl_buf_pos f) b)"

lemma fflush_spec:
  assumes "writes_all sy (fl_fd f) out" and "file_ok f"
  shows "\<exists>f' w'. fflush sy f w = (0, f', w') \<and> file_ok f' \<and> fl_fd f' = fl_fd f \<and> fl_buf_mode f' = fl_buf_mode f
     \<and> out w' = out w @ pending f \<and> pending f' = [] \<and> fl_buf_pos f' = 0
     \<and> (fl_buf f \<noteq> None \<longrightarrow> fl_buf f' = fl_buf f \<and> fl_buf_write f' = fl_buf_write f)"
proof (cases "fl_buf f")
  case None
  then show ?thesis using assms(2) by (auto simp: fflush_def file_ok_def pending_def)
next
  case (Some b)
  obtain w' where w': "sy_write sy (fl_fd f) (take (fl_buf_pos f) b) w = (int (length (take (fl_buf_pos f) b)), w')"
      "out w' = out w @ take (fl_buf_pos f) b"
    using assms(1) unfolding writes_all_def by blast
  then show ?thesis using Some assms(2) by (auto simp: fflush_def file_ok_def pending_def Let_def)
qed

lemma get_buf_spec:
  assumes "writes_all sy (fl_fd f) out" and "file_ok f" and "fl_buf_mode f \<noteq> IONBF" and "fl_buf_write f"
  shows "\<exists>f' w' b. get_buf sy f w = (True, f', w') \<and> file_ok f' \<and> fl_fd f' = fl_fd f \<and> fl_buf_mode f' = fl_buf_mode f
     \<and> out w' = out w \<and> pending f' = pending f \<and> fl_buf f' = Some b \<and> fl_buf_write f'"
proof (cases "fl_buf f")
  case None
  obtain b w' where "sy_malloc sy BUFSIZ w = (Some b, w')" "length b = BUFSIZ" "out w' = out w"
    using assms(1) unfolding writes_all_def by blast
  moreover from this(2) have "b \<noteq> []" by auto
  ultimately show ?thesis using None assms by (auto simp: get_buf_def file_ok_def pending_def)
next
  case (Some b)
  then show ?thesis using assms by (auto simp: get_buf_def)
qed

lemma fputc_spec:
  assumes "writes_all sy (fl_fd f) out" and "file_ok f"
  shows "\<exists>r f' w'. fputc sy c f w = Some (r, f', w') \<and> r \<noteq> EOF \<and> file_ok f' \<and> fl_fd f' = fl_fd f
     \<and> out w' @ pending f' = out w @ pending f @ [c]"
proof (cases "fl_buf_mode f = IONBF")
  case True
  obtain w' where "sy_write sy (fl_fd f) [c] w = (int (length [c]), w')" "out w' = out w @ [c]"
    using assms(1) unfolding writes_all_def by blast
  then show ?thesis using True assms(2) by (auto simp: fputc_def file_ok_def pending_def)
next
  case False
  let ?g = "f\<lparr>fl_buf_write := True, fl_buf_insize := 0\<rparr>"
  have g: "file_ok ?g" "pending ?g = pending f" "fl_fd ?g = fl_fd f" "fl_buf_mode ?g = fl_buf_mode f"
    using assms(2) by (auto simp: file_ok_def pending_def split: option.split)
  obtain f1 w1 b where f1: "get_buf sy ?g w = (True, f1, w1)" "file_ok f1" "fl_fd f1 = fl_fd f" "fl_buf_mode f1 = fl_buf_mode f"
      "out w1 = out w" "pending f1 = pending f" "fl_buf f1 = Some b" "fl_buf_write f1"
    using get_buf_spec [of sy ?g out w] g assms(1) False by auto
  have wa: "writes_all sy (fl_fd f1) out" using assms(1) f1(3) by simp
  define m where "m = (if int (fl_buf_pos f1) = fl_buf_size f1 then fflush sy f1 w1 else (0, f1, w1))"
  have "\<exists>f2 w2. m = (0, f2, w2) \<and> file_ok f2 \<and> fl_fd f2 = fl_fd f \<and> fl_buf_mode f2 = fl_buf_mode f
     \<and> out w2 @ pending f2 = out w @ pending f \<and> fl_buf f2 = Some b \<and> fl_buf_pos f2 < length b \<and> fl_buf_write f2"
  proof (cases "int (fl_buf_pos f1) = fl_buf_size f1")
    case True
    have "b \<noteq> []" using f1(2,7) by (simp add: file_ok_def)
    with True show ?thesis using fflush_spec [OF wa f1(2), of w1] f1 by (auto simp: m_def)
  next
    case False
    then show ?thesis using f1 by (auto simp: m_def file_ok_def)
  qed
  then obtain f2 w2 where f2: "m = (0, f2, w2)" "file_ok f2" "fl_fd f2 = fl_fd f" "fl_buf_mode f2 = fl_buf_mode f"
     "out w2 @ pending f2 = out w @ pending f" "fl_buf f2 = Some b" "fl_buf_pos f2 < length b" "fl_buf_write f2" by blast
  define f3 where "f3 = f2\<lparr>fl_buf := Some (b[fl_buf_pos f2 := c]), fl_buf_pos := fl_buf_pos f2 + 1\<rparr>"
  have ok3: "file_ok f3" "fl_fd f3 = fl_fd f" using f2 by (auto simp: f3_def file_ok_def)
  have p3: "pending f3 = pending f2 @ [c]"
    using f2(6,7) by (simp add: f3_def pending_def take_Suc_conv_app_nth)
  have eq: "fputc sy c f w = Some (if fl_buf_mode f = IOLBF \<and> c = 10 then fflush sy f3 w2 else (uint c, f3, w2))"
    using False assms(2) f1(1) f2
    by (cases "fl_buf_mode f") (auto simp: fputc_def file_ok_def m_def [symmetric] buf_store_def f3_def Let_def)
  have tot: "out w2 @ pending f3 = out w @ pending f @ [c]" using p3 f2(5) by simp
  show ?thesis
  proof (cases "fl_buf_mode f = IOLBF \<and> c = 10")
    case True
    obtain f4 w4 where "fflush sy f3 w2 = (0, f4, w4)" "file_ok f4" "fl_fd f4 = fl_fd f3" "out w4 = out w2 @ pending f3" "pending f4 = []"
      using fflush_spec [of sy f3 out w2] ok3 assms(1) by auto
    then show ?thesis using True eq tot ok3(2) by simp
  next
    case False
    have "fputc sy c f w = Some (uint c, f3, w2)" using eq unfolding if_not_P [OF False] .
    then show ?thesis using tot ok3 by simp
  qed
qed

lemma fputs_spec:
  "writes_all sy (fl_fd f) out \<Longrightarrow> file_ok f \<Longrightarrow> \<exists>f' w'. fputs sy s f w = Some (0, f', w') \<and> file_ok f' \<and> fl_fd f' = fl_fd f
     \<and> out w' @ pending f' = out w @ pending f @ s"
proof (induction s arbitrary: f w)
  case Nil
  then show ?case by simp
next
  case (Cons c s)
  obtain r f1 w1 where 1: "fputc sy c f w = Some (r, f1, w1)" "r \<noteq> EOF" "file_ok f1" "fl_fd f1 = fl_fd f"
     "out w1 @ pending f1 = out w @ pending f @ [c]"
    using fputc_spec [OF Cons.prems] by blast
  show ?case using Cons.IH [of f1 w1] Cons.prems 1 by auto
qed

text \<open>
  Property C32. Whatever the mode of buffering is and whatever has been printed before, what a file
  prints comes out once, complete and in order: after \<open>fputs\<close> the bytes that were written and those
  that wait in the buffer are the old ones followed by the string, and after \<open>fflush\<close> all of
  them have been written. No store is outside the buffer.
\<close>

theorem stdio_output:
  assumes "writes_all sy (fl_fd f) out" and "file_ok f"
  shows "\<exists>f' w' f'' w''. fputs sy s f w = Some (0, f', w') \<and> out w' @ pending f' = out w @ pending f @ s
     \<and> fflush sy f' w' = (0, f'', w'') \<and> out w'' = out w @ pending f @ s \<and> pending f'' = [] \<and> file_ok f''"
proof -
  obtain f1 w1 where 1: "fputs sy s f w = Some (0, f1, w1)" "file_ok f1" "fl_fd f1 = fl_fd f" "out w1 @ pending f1 = out w @ pending f @ s"
    using fputs_spec [OF assms] by blast
  then show ?thesis using fflush_spec [of sy f1 out w1] assms(1) by auto
qed

definition ex_file :: FILE where
  "ex_file = \<lparr>fl_fd = 1, fl_mode = FMODE_W, fl_eof = False, fl_err = False, fl_buf = None, fl_buf_mode = IOLBF,
     fl_buf_size = 0, fl_buf_pos = 0, fl_buf_insize = 0, fl_buf_write = False, fl_buf_malloc = False, fl_ungotc = EOF\<rparr>"

theorem stdio_output_witness:
  "\<exists>f w. fputs ex_sys [104, 105, 10, 33] ex_file [0] = Some (0, f, w) \<and> snd (snd (fflush ex_sys f w)) = [0, 104, 105, 10, 33]"
  using stdio_output [of ex_sys ex_file "\<lambda>w. w" "[104, 105, 10, 33]" "[0]"]
  by (auto simp: writes_all_def ex_sys_def ex_file_def file_ok_def pending_def)

end
