(* ===== verification/Ctime.thy ===== *)
theory Ctime
  imports Stdio "HOL-Library.Signed_Division"
begin

text \<open>
  \<open>lib/time/time.c\<close>: calendar time. \<open>time_t\<close> is a signed 32-bit number; division is that of C, which
  rounds towards zero. Years count from 1900 and months from 0, as in \<open>struct tm\<close>.
\<close>

section \<open>The functions\<close>

record tm =
  tm_sec :: int
  tm_min :: int
  tm_hour :: int
  tm_year :: int
  tm_mon :: int
  tm_mday :: int
  tm_wday :: int
  tm_yday :: int
  tm_isdst :: int

definition isleap :: "int \<Rightarrow> bool" where
  "isleap y \<longleftrightarrow> y smod 4 = 0 \<and> (y smod 100 \<noteq> 0 \<or> y smod 400 \<noteq> 0)"

definition yearsecs :: "int \<Rightarrow> int" where
  "yearsecs y = (365 + (if isleap y then 1 else 0)) * 86400"

definition monthlen :: "int list" where
  "monthlen = [31, 28, 31, 30, 31, 30, 31, 31, 30, 31, 30, 31]"

text \<open>The table has 12 entries; other months are outside it.\<close>

definition monthsecs :: "int \<Rightarrow> int \<Rightarrow> int option" where
  "monthsecs y m =
     (if m < 0 \<or> m \<ge> 12 then None
      else Some ((if isleap y \<and> m = 1 then monthlen ! nat m + 1 else monthlen ! nat m) * 86400))"

function year_loop :: "int \<Rightarrow> int \<Rightarrow> int \<times> int" where
  "year_loop y t = (if t \<ge> yearsecs y then year_loop (y + 1) (t - yearsecs y) else (y, t))"
  by pat_completeness auto
termination by (relation "measure (\<lambda>(y, t). nat t)") (auto simp: yearsecs_def split: if_splits)

partial_function (option) month_loop :: "int \<Rightarrow> int \<Rightarrow> int \<Rightarrow> (int \<times> int) option" where
  "month_loop y m t =
     Option.bind (monthsecs y m) (\<lambda>s. if t \<ge> s then month_loop y (m + 1) (t - s) else Some (m, t))"

definition gmtime :: "int \<Rightarrow> tm option" where
  "gmtime t =
     (case year_loop 70 t of (y, r) \<Rightarrow>
        map_option (\<lambda>(m, q).
          \<lparr>tm_sec = t smod 60, tm_min = (t sdiv 60) smod 60, tm_hour = (t sdiv 3600) smod 24,
           tm_year = y, tm_mon = m, tm_mday = q sdiv 86400 + 1, tm_wday = (t sdiv 86400 + 4) smod 7,
           tm_yday = r sdiv 86400, tm_isdst = -1\<rparr>) (month_loop y 0 r))"

text \<open>\<open>timegm\<close> counts back; a negative month is outside the table. The sum is one of 32 bits.\<close>

fun back_months :: "int \<Rightarrow> nat \<Rightarrow> int \<Rightarrow> int option" where
  "back_months y 0 t = Some t"
| "back_months y (Suc m) t = Option.bind (monthsecs y (int m)) (\<lambda>s. back_months y m (t + s))"

function back_years :: "int \<Rightarrow> int \<Rightarrow> int" where
  "back_years y t = (if y > 70 then back_years (y - 1) (t + yearsecs (y - 1)) else t)"
  by pat_completeness auto
termination by (relation "measure (\<lambda>(y, t). nat y)") auto

declare year_loop.simps [simp del] back_years.simps [simp del]

definition timegm :: "tm \<Rightarrow> int option" where
  "timegm tm =
     (if tm_mon tm < 0 then None
      else map_option (\<lambda>t. signed_take_bit 31 (back_years (tm_year tm) t))
        (back_months (tm_year tm) (nat (tm_mon tm))
           ((tm_mday tm - 1) * 86400 + tm_hour tm * 3600 + tm_min tm * 60 + tm_sec tm)))"

text \<open>The local time, with the offset of the time zone that \<open>tzset\<close> has found.\<close>

definition localtime :: "int \<Rightarrow> int \<Rightarrow> tm option" where
  "localtime timezone t = gmtime (signed_take_bit 31 (timezone + t))"

definition mktime :: "int \<Rightarrow> tm \<Rightarrow> int option" where
  "mktime timezone tm = map_option (\<lambda>t. signed_take_bit 31 (t - timezone)) (timegm tm)"

definition wday_names :: "byte list list" where
  "wday_names = [[0x53, 0x75, 0x6E], [0x4D, 0x6F, 0x6E], [0x54, 0x75, 0x65], [0x57, 0x65, 0x64], [0x54, 0x68, 0x75],
     [0x46, 0x72, 0x69], [0x53, 0x61, 0x74]]"

definition month_names :: "byte list list" where
  "month_names = [[0x4A, 0x61, 0x6E], [0x46, 0x65, 0x62], [0x4D, 0x61, 0x72], [0x41, 0x70, 0x72], [0x4D, 0x61, 0x79],
     [0x4A, 0x75, 0x6E], [0x4A, 0x75, 0x6C], [0x41, 0x75, 0x67], [0x53, 0x65, 0x70], [0x4F, 0x63, 0x74],
     [0x4E, 0x6F, 0x76], [0x44, 0x65, 0x63]]"

text \<open>The format is \<open>"%s %s %2i %02i:%02i:%02i %i\n"\<close>, and the array has 64 bytes.\<close>

definition asctime_fmt :: "byte list" where
  "asctime_fmt = [0x25, 0x73, 0x20, 0x25, 0x73, 0x20, 0x25, 0x32, 0x69, 0x20, 0x25, 0x30, 0x32, 0x69, 0x3A,
     0x25, 0x30, 0x32, 0x69, 0x3A, 0x25, 0x30, 0x32, 0x69, 0x20, 0x25, 0x69, 0x0A]"

definition asctime :: "'w sys \<Rightarrow> byte list \<Rightarrow> tm \<Rightarrow> 'w \<Rightarrow> (nat \<times> byte list \<times> 'w) option" where
  "asctime sy buf tm w =
     (if tm_wday tm \<notin> {0..<7} \<or> tm_mon tm \<notin> {0..<12} then None
      else vsprintf sy [] buf asctime_fmt
        [Str (wday_names ! nat (tm_wday tm)), Str (month_names ! nat (tm_mon tm)), Num (of_int (tm_mday tm)),
         Num (of_int (tm_hour tm)), Num (of_int (tm_min tm)), Num (of_int (tm_sec tm)), Num (of_int (tm_year tm + 1900))] w)"

section \<open>The calendar\<close>

text \<open>The Gregorian calendar, with the year as it is written: the seconds before a date.\<close>

definition leap :: "int \<Rightarrow> bool" where
  "leap Y \<longleftrightarrow> 4 dvd Y \<and> (\<not> 100 dvd Y \<or> 400 dvd Y)"

definition month_days :: "int \<Rightarrow> nat \<Rightarrow> int" where
  "month_days Y m = (if leap Y \<and> m = 1 then 29 else monthlen ! m)"

definition days_to_year :: "int \<Rightarrow> int" where
  "days_to_year Y = (\<Sum>k = 1970..<Y. if leap k then 366 else 365)"

definition days_to_month :: "int \<Rightarrow> nat \<Rightarrow> int" where
  "days_to_month Y m = (\<Sum>k = 0..<m. month_days Y k)"

lemma sdiv_pos [simp]: "0 \<le> a \<Longrightarrow> a sdiv (numeral b :: int) = a div numeral b"
  and smod_pos [simp]: "0 \<le> a \<Longrightarrow> a smod (numeral b :: int) = a mod numeral b"
  by (cases "a = 0"; simp add: signed_divide_int_eq_divide_int signed_modulo_int_eq_modulo_int)+

lemma isleap_leap:
  assumes "70 \<le> y" and "y < 200"
  shows "isleap y = leap (y + 1900)"
proof -
  have "y mod 400 \<noteq> 0" using assms by (auto simp: zmod_eq_0_iff)
  moreover have "(y + 1900) mod 4 = y mod 4" using mod_mult_self2 [of y 4 475] by simp
  moreover have "(y + 1900) mod 400 = 0" if "(y + 1900) mod 100 = 0"
  proof -
    obtain k where "y + 1900 = 100 * k" using \<open>(y + 1900) mod 100 = 0\<close> by (auto simp: zmod_eq_0_iff)
    then have "k = 20" using assms by simp
    then show ?thesis using \<open>y + 1900 = 100 * k\<close> by simp
  qed
  ultimately show ?thesis using assms by (auto simp: isleap_def leap_def)
qed

lemma yearsecs_bounds: "31536000 \<le> yearsecs y" "yearsecs y \<le> 31622400"
  by (simp_all add: yearsecs_def)

lemma year_loop_spec:
  "0 \<le> t \<Longrightarrow> \<exists>y' r. year_loop y t = (y', r) \<and> y \<le> y' \<and> 0 \<le> r \<and> r < yearsecs y' \<and> t = (\<Sum>k = y..<y'. yearsecs k) + r"
proof (induction y t rule: year_loop.induct)
  case (1 y t)
  show ?case
  proof (cases "t \<ge> yearsecs y")
    case True
    obtain y' r where h: "year_loop (y + 1) (t - yearsecs y) = (y', r)" "y + 1 \<le> y'" "0 \<le> r" "r < yearsecs y'"
        "t - yearsecs y = (\<Sum>k = y + 1..<y'. yearsecs k) + r"
      using 1 True by auto
    have "{y..<y'} = insert y {y + 1..<y'}" using h(2) by auto
    then have "(\<Sum>k = y..<y'. yearsecs k) = yearsecs y + (\<Sum>k = y + 1..<y'. yearsecs k)" by simp
    then show ?thesis using h True by (subst year_loop.simps) simp
  next
    case False
    then show ?thesis using 1 by (subst year_loop.simps) auto
  qed
qed

lemma back_years_sum: "70 \<le> y \<Longrightarrow> back_years y t = t + (\<Sum>k = 70..<y. yearsecs k)"
proof (induction y t rule: back_years.induct)
  case (1 y t)
  show ?case
  proof (cases "y > 70")
    case True
    have "{70..<y} = insert (y - 1) {70..<y - 1}" using True by auto
    then show ?thesis using 1 True by (subst back_years.simps) simp
  next
    case False
    then show ?thesis using 1 by (subst back_years.simps) simp
  qed
qed

definition msecs :: "int \<Rightarrow> nat \<Rightarrow> int" where
  "msecs y k = the (monthsecs y (int k))"

lemma monthsecs_some: "k < 12 \<Longrightarrow> monthsecs y (int k) = Some (msecs y k)"
  by (simp add: msecs_def monthsecs_def)

lemma msecs_days: "k < 12 \<Longrightarrow> 70 \<le> y \<Longrightarrow> y < 200 \<Longrightarrow> msecs y k = month_days (y + 1900) k * 86400"
  by (auto simp: msecs_def monthsecs_def month_days_def isleap_leap monthlen_def)

lemma less12: "k < 12 \<longleftrightarrow> k \<in> {0, 1, 2, 3, 4, 5, 6, 7, 8, 9, 10, 11 :: nat}"
  by simp presburger

lemma msecs_pos: "k < 12 \<Longrightarrow> 0 < msecs y k"
  unfolding less12 by (auto simp: msecs_def monthsecs_def monthlen_def)

lemma month_loop_spec:
  "m < 12 \<Longrightarrow> 0 \<le> t \<Longrightarrow> t < (\<Sum>k = m..<12. msecs y k) \<Longrightarrow>
    \<exists>n q. month_loop y (int m) t = Some (int n, q) \<and> n < 12 \<and> 0 \<le> q \<and> q < msecs y n \<and> m \<le> n
      \<and> t = (\<Sum>k = m..<n. msecs y k) + q"
proof (induction "12 - m" arbitrary: m t)
  case 0
  then show ?case by simp
next
  case (Suc d)
  have sum: "(\<Sum>k = m..<j. msecs y k) = msecs y m + (\<Sum>k = Suc m..<j. msecs y k)" if "m < j" for j
    using that by (rule sum.atLeast_Suc_lessThan)
  show ?case
  proof (cases "t \<ge> msecs y m")
    case True
    have "Suc m < 12" using Suc.prems True sum [of 12] by (cases "m = 11") auto
    moreover have "d = 12 - Suc m" "0 \<le> t - msecs y m" "t - msecs y m < (\<Sum>k = Suc m..<12. msecs y k)"
      using Suc True sum [of 12] by auto
    ultimately obtain n q where h: "month_loop y (int (Suc m)) (t - msecs y m) = Some (int n, q)" "n < 12" "0 \<le> q"
        "q < msecs y n" "Suc m \<le> n" "t - msecs y m = (\<Sum>k = Suc m..<n. msecs y k) + q"
      using Suc.hyps(1) [of "Suc m" "t - msecs y m"] by blast
    then show ?thesis using True sum [of n] Suc.prems(1) by (subst month_loop.simps) (auto simp: monthsecs_some add.commute)
  next
    case False
    then show ?thesis using Suc.prems by (subst month_loop.simps) (auto simp: monthsecs_some)
  qed
qed

lemma year_months: "(\<Sum>k = 0..<12. msecs y k) = yearsecs y"
  by (simp add: msecs_def monthsecs_def monthlen_def yearsecs_def eval_nat_numeral)

lemma back_months_sum: "m \<le> 12 \<Longrightarrow> back_months y m t = Some (t + (\<Sum>k = 0..<m. msecs y k))"
  by (induction m arbitrary: t) (simp_all add: monthsecs_some)

lemma sum_years: "y < 200 \<Longrightarrow> (\<Sum>k = 70..<y. yearsecs k) = 86400 * days_to_year (y + 1900)"
proof -
  assume y: "y < 200"
  have "days_to_year (y + 1900) = (\<Sum>k = 70..<y. if leap (k + 1900) then 366 else 365)"
    unfolding days_to_year_def by (rule sum.reindex_bij_witness [of _ "\<lambda>k. k + 1900" "\<lambda>k. k - 1900"]) auto
  then have "86400 * days_to_year (y + 1900) = (\<Sum>k = 70..<y. 86400 * (if leap (k + 1900) then 366 else 365))"
    by (simp only: sum_distrib_left)
  also have "\<dots> = (\<Sum>k = 70..<y. yearsecs k)"
    using y by (intro sum.cong refl) (auto simp: yearsecs_def isleap_leap)
  finally show ?thesis by simp
qed

lemma sum_months: "70 \<le> y \<Longrightarrow> y < 200 \<Longrightarrow> m \<le> 12 \<Longrightarrow> (\<Sum>k = 0..<m. msecs y k) = 86400 * days_to_month (y + 1900) m"
  unfolding days_to_month_def by (simp add: sum_distrib_left msecs_days mult.commute)

text \<open>
  Property C33. For every time from 1970 on that a \<open>time_t\<close> can hold, \<open>gmtime\<close> gives the date
  and time of the Gregorian calendar: a day that its month has, in the right place among the days
  since 1970, and the time of day; the day of the week is right, and \<open>timegm\<close>
  computes the same \<open>time_t\<close> from it.
\<close>

theorem gmtime_calendar:
  assumes "0 \<le> t" and "t < 2 ^ 31"
  shows "\<exists>tm. gmtime t = Some tm \<and> tm_mon tm \<in> {0..<12} \<and> tm_hour tm \<in> {0..<24} \<and> tm_min tm \<in> {0..<60} \<and> tm_sec tm \<in> {0..<60}
    \<and> (let Y = tm_year tm + 1900; m = nat (tm_mon tm) in
        1 \<le> tm_mday tm \<and> tm_mday tm \<le> month_days Y m
        \<and> t = 86400 * (days_to_year Y + days_to_month Y m + tm_mday tm - 1) + 3600 * tm_hour tm + 60 * tm_min tm + tm_sec tm)
    \<and> tm_wday tm = (t div 86400 + 4) mod 7 \<and> timegm tm = Some t"
proof -
  obtain y r where y: "year_loop 70 t = (y, r)" "70 \<le> y" "0 \<le> r" "r < yearsecs y" "t = (\<Sum>k = 70..<y. yearsecs k) + r"
    using year_loop_spec [OF assms(1), of 70] by blast
  have "(\<Sum>k = 70..<y. 31536000) \<le> (\<Sum>k = 70..<y. yearsecs k)" by (rule sum_mono) (simp add: yearsecs_bounds)
  then have "(y - 70) * 31536000 < 2 ^ 31" using y(2,3,5) assms(2) by simp
  then have y200: "y < 200" by simp
  obtain n q where m: "month_loop y (int 0) r = Some (int n, q)" "n < 12" "0 \<le> q" "q < msecs y n" "r = (\<Sum>k = 0..<n. msecs y k) + q"
    using month_loop_spec [of 0 r y] y(3,4) year_months [of y] by auto
  define S where "S = t mod 60"
  define I where "I = t div 60 mod 60"
  define H where "H = t div 3600 mod 24"
  define K where "K = q div 86400"
  define tm where "tm = \<lparr>tm_sec = S, tm_min = I, tm_hour = H, tm_year = y, tm_mon = int n,
     tm_mday = K + 1, tm_wday = (t div 86400 + 4) mod 7, tm_yday = r div 86400, tm_isdst = -1\<rparr>"
  have g: "gmtime t = Some tm"
    using y(1,3) m(1,3) assms(1) by (simp add: gmtime_def tm_def S_def I_def H_def K_def)
  have days: "t = 86400 * (days_to_year (y + 1900) + days_to_month (y + 1900) n) + q"
    using y(5) m(5) sum_years [OF y200] sum_months [OF y(2) y200, of n] m(2) by (simp add: algebra_simps)
  define D where "D = days_to_year (y + 1900) + days_to_month (y + 1900) n"
  have tD: "t = 86400 * D + q" using days by (simp add: D_def)
  have hms: "86400 * K + 3600 * H + 60 * I + S = q"
  proof -
    have "t mod 86400 = 3600 * H + (60 * I + S)"
      using zmod_zmult2_eq [of 24 t 3600] zmod_zmult2_eq [of 60 t 60] by (simp add: H_def I_def S_def)
    moreover have "t mod 86400 = q mod 86400" by (simp add: tD)
    ultimately show ?thesis using mult_div_mod_eq [of 86400 q] by (simp add: K_def)
  qed
  have q: "K < month_days (y + 1900) n" using m(4) msecs_days [OF m(2) y(2) y200] by (simp add: K_def div_less_iff_less_mult)
  have "(tm_mday tm - 1) * 86400 + tm_hour tm * 3600 + tm_min tm * 60 + tm_sec tm = q"
    using hms by (simp add: tm_def algebra_simps)
  moreover have "back_months y n q = Some r" using back_months_sum [of n y q] m(2,5) by (simp add: add.commute)
  moreover have "back_years y r = t" using back_years_sum [OF y(2), of r] y(5) by (simp add: add.commute)
  moreover have "tm_year tm = y" "nat (tm_mon tm) = n" "\<not> tm_mon tm < 0" by (simp_all add: tm_def)
  ultimately have "timegm tm = Some (signed_take_bit 31 t)" by (simp only: timegm_def if_False option.map)
  then have "timegm tm = Some t" using assms by (simp add: signed_take_bit_int_eq_self)
  moreover have "t = 86400 * (D + (K + 1) - 1) + 3600 * H + 60 * I + S"
    using tD hms by (simp add: algebra_simps)
  moreover have "0 \<le> K" using m(3) by (simp add: K_def pos_imp_zdiv_nonneg_iff)
  moreover have "H \<in> {0..<24}" "I \<in> {0..<60}" "S \<in> {0..<60}" by (simp_all add: H_def I_def S_def)
  ultimately show ?thesis
    using g q m(2) by (intro exI [of _ tm]) (simp add: tm_def D_def Let_def)
qed

theorem gmtime_calendar_witness:
  "\<exists>tm. gmtime 1700000000 = Some tm \<and> timegm tm = Some 1700000000 \<and> tm_wday tm = 2"
  using gmtime_calendar [of 1700000000] by auto

end
