(* ===== verification/Malloc.thy ===== *)
theory Malloc
  imports Prelude
begin

text \<open>
  \<open>lib/malloc\<close>: a list of blocks, each behind a \<open>struct mhead\<close> of 16 bytes, that is searched from
  its start for a free block. The store maps the addresses of the heads to what they
  hold; the other bytes of the blocks are kept apart. A null pointer is 0. \<open>sbrk\<close> is
  an argument, a function on the state \<open>'w\<close> of the world outside.
\<close>

section \<open>The functions\<close>

record mhead =
  m_magic :: nat
  m_free :: bool
  m_size :: nat
  m_next :: nat

record heap =
  hp_head :: "nat \<Rightarrow> mhead"
  hp_mem :: "nat \<Rightarrow> byte"

abbreviation (input) "MMAG \<equiv> (0x4D414C43 :: nat)"
abbreviation (input) "HSIZE \<equiv> (16 :: nat)" \<comment> \<open>\<open>sizeof(struct mhead)\<close>\<close>

definition set_head :: "nat \<Rightarrow> mhead \<Rightarrow> heap \<Rightarrow> heap" where
  "set_head a x h = h\<lparr>hp_head := (hp_head h)(a := x)\<rparr>"

text \<open>The size that is looked for, with its head and rounded up; it wraps.\<close>

definition round_size :: "nat \<Rightarrow> nat" where
  "round_size n = (n + HSIZE + 15) mod 2 ^ 32 div 16 * 16"

definition merge_next :: "nat \<Rightarrow> heap \<Rightarrow> heap" where
  "merge_next mh h =
     (let x = hp_head h mh; y = hp_head h (m_next x);
          h = set_head (m_next x) (y\<lparr>m_magic := 0\<rparr>) h
      in set_head mh (x\<lparr>m_size := (m_size x + m_size y) mod 2 ^ 32, m_next := m_next y\<rparr>) h)"

definition can_merge :: "nat \<Rightarrow> heap \<Rightarrow> bool" where
  "can_merge mh h \<longleftrightarrow>
     (let x = hp_head h mh in m_free x \<and> m_next x \<noteq> 0 \<and> m_free (hp_head h (m_next x))
        \<and> (mh + m_size x) mod 2 ^ 32 = m_next x)"

definition split_block :: "nat \<Rightarrow> nat \<Rightarrow> heap \<Rightarrow> heap" where
  "split_block mh n h =
     (let x = hp_head h mh; fmh = (mh + n) mod 2 ^ 32;
          h = set_head fmh \<lparr>m_magic = MMAG, m_free = True, m_size = m_size x - n, m_next = m_next x\<rparr> h
      in set_head mh ((hp_head h mh)\<lparr>m_free := False, m_size := n, m_next := fmh\<rparr>) h)"

text \<open>The search ends with the block that was taken, or with the last block of the list.\<close>

datatype found = Taken nat | Last nat

partial_function (option) mfind :: "nat \<Rightarrow> nat \<Rightarrow> nat \<Rightarrow> heap \<Rightarrow> (found \<times> heap) option" where
  "mfind n mh prev h =
     (if mh = 0 then Some (Last prev, h)
      else
        let x = hp_head h mh in
        if can_merge mh h then mfind n mh prev (merge_next mh h)
        else if m_free x \<and> m_size x \<ge> HSIZE + n then Some (Taken mh, split_block mh n h)
        else if m_free x \<and> m_size x \<ge> n then Some (Taken mh, set_head mh (x\<lparr>m_free := False\<rparr>) h)
        else mfind n (m_next x) mh h)"

definition malloc :: "(nat \<Rightarrow> 'w \<Rightarrow> nat option \<times> 'w) \<Rightarrow> nat \<Rightarrow> nat \<Rightarrow> heap \<Rightarrow> 'w \<Rightarrow> (nat \<times> heap \<times> 'w) option" where
  "malloc sbrk mhead n h w =
     (let n = round_size n in do {
        (r, h) \<leftarrow> mfind n mhead 0 h;
        (case r of
           Taken mh \<Rightarrow> Some (mh + HSIZE, h, w)
         | Last prev \<Rightarrow>
             (case sbrk n w of
                (None, w) \<Rightarrow> Some (0, h, w)
              | (Some mh, w) \<Rightarrow>
                  let h = set_head prev ((hp_head h prev)\<lparr>m_next := mh\<rparr>) h;
                      h = set_head mh ((hp_head h mh)\<lparr>m_magic := MMAG, m_size := n, m_next := 0, m_free := False\<rparr>) h
                  in Some (mh + HSIZE, h, w)))
      })"

definition free :: "nat \<Rightarrow> heap \<Rightarrow> heap option" where
  "free ptr h =
     (if ptr = 0 then Some h
      else
        let mh = ptr - HSIZE in
        if m_magic (hp_head h mh) \<noteq> MMAG then None
        else Some (set_head mh ((hp_head h mh)\<lparr>m_free := True\<rparr>) h))"

definition copy_mem :: "nat \<Rightarrow> nat \<Rightarrow> nat \<Rightarrow> heap \<Rightarrow> heap" where
  "copy_mem dst src n h = h\<lparr>hp_mem := (\<lambda>a. if dst \<le> a \<and> a < dst + n then hp_mem h (src + (a - dst)) else hp_mem h a)\<rparr>"

text \<open>\<open>calloc\<close> divides by the number of elements.\<close>

definition calloc :: "(nat \<Rightarrow> 'w \<Rightarrow> nat option \<times> 'w) \<Rightarrow> nat \<Rightarrow> nat \<Rightarrow> nat \<Rightarrow> heap \<Rightarrow> 'w \<Rightarrow> (nat \<times> heap \<times> 'w) option" where
  "calloc sbrk mhead n m h w =
     (if n = 0 then None
      else if (2 ^ 32 - 1) div n < m then Some (0, h, w)
      else do {
        (p, h, w) \<leftarrow> malloc sbrk mhead (n * m) h w;
        Some (p, if p = 0 then h else h\<lparr>hp_mem := (\<lambda>a. if p \<le> a \<and> a < p + n * m then 0 else hp_mem h a)\<rparr>, w)
      })"

text \<open>The size of the block counts its head, so that up to 16 bytes behind the block are copied.\<close>

definition realloc :: "(nat \<Rightarrow> 'w \<Rightarrow> nat option \<times> 'w) \<Rightarrow> nat \<Rightarrow> nat \<Rightarrow> nat \<Rightarrow> heap \<Rightarrow> 'w \<Rightarrow> (nat \<times> heap \<times> 'w) option" where
  "realloc sbrk mhead ptr n h w =
     (if ptr = 0 then malloc sbrk mhead n h w
      else
        let mh = ptr - HSIZE in
        if m_size (hp_head h mh) = n then Some (ptr, h, w)
        else do {
          (nptr, h, w) \<leftarrow> malloc sbrk mhead n h w;
          (if nptr = 0 then Some (0, h, w)
           else
             let l = (if m_size (hp_head h mh) > n then n else m_size (hp_head h mh)) in
             map_option (\<lambda>h. (nptr, h, w)) (free ptr (copy_mem nptr ptr l h)))
        })"

section \<open>The list of blocks\<close>

fun chain :: "heap \<Rightarrow> nat \<Rightarrow> nat list \<Rightarrow> bool" where
  "chain h p [] = (p = 0)"
| "chain h p (a # as) = (p = a \<and> a \<noteq> 0 \<and> chain h (m_next (hp_head h a)) as)"

definition apart :: "heap \<Rightarrow> nat \<Rightarrow> nat \<Rightarrow> bool" where
  "apart h a b \<longleftrightarrow> a + m_size (hp_head h a) \<le> b \<or> b + m_size (hp_head h b) \<le> a"

text \<open>
  A heap: the blocks do not overlap, each holds at least its head, and all lie below the break
  \<open>bk\<close>. The first one is the static \<open>mhead\<close>, which is never free and which has no magic number.
\<close>

definition block_ok :: "nat \<Rightarrow> nat \<Rightarrow> heap \<Rightarrow> nat \<Rightarrow> bool" where
  "block_ok mhead bk h a \<longleftrightarrow> a + m_size (hp_head h a) \<le> bk \<and> HSIZE \<le> m_size (hp_head h a)
     \<and> (a \<noteq> mhead \<longrightarrow> m_magic (hp_head h a) = MMAG)"

definition heap_ok :: "nat \<Rightarrow> nat \<Rightarrow> heap \<Rightarrow> nat list \<Rightarrow> bool" where
  "heap_ok mhead bk h as \<longleftrightarrow> chain h mhead as \<and> distinct as \<and> as \<noteq> [] \<and> bk < 2 ^ 32
     \<and> \<not> m_free (hp_head h mhead) \<and> (\<forall>a \<in> set as. block_ok mhead bk h a)
     \<and> (\<forall>a \<in> set as. \<forall>b \<in> set as. a \<noteq> b \<longrightarrow> apart h a b)"

text \<open>The blocks in use, with their sizes.\<close>

definition live :: "heap \<Rightarrow> nat list \<Rightarrow> (nat \<times> nat) set" where
  "live h as = {(a, m_size (hp_head h a)) | a. a \<in> set as \<and> \<not> m_free (hp_head h a)}"

lemma live_iff: "(c, k) \<in> live h as \<longleftrightarrow> c \<in> set as \<and> \<not> m_free (hp_head h c) \<and> k = m_size (hp_head h c)"
  by (auto simp: live_def)

lemma chain_cong: "(\<And>a. a \<in> set as \<Longrightarrow> m_next (hp_head h' a) = m_next (hp_head h a)) \<Longrightarrow> chain h' p as = chain h p as"
  by (induction as arbitrary: p) auto

lemma chain_suffix: "chain h p (as @ bs) \<Longrightarrow> \<exists>q. chain h q bs \<and> (bs \<noteq> [] \<longrightarrow> q = hd bs)"
  by (induction as arbitrary: p) (cases bs; auto)+

lemma chain_swap_suffix:
  assumes "chain h p (as @ b # bs)" and "\<And>a. a \<in> set as \<Longrightarrow> m_next (hp_head h' a) = m_next (hp_head h a)"
    and "chain h' b (b # cs)"
  shows "chain h' p (as @ b # cs)"
  using assms by (induction as arbitrary: p) auto

lemma hp_set_head [simp]: "hp_head (set_head a x h) = (hp_head h)(a := x)" "hp_mem (set_head a x h) = hp_mem h"
  by (simp_all add: set_head_def)

lemma chain_at: "chain h p (as @ b # cs) \<Longrightarrow> chain h b (b # cs)"
  by (induction as arbitrary: p) auto

lemma chain_next: "chain h p (as @ b # cs) \<Longrightarrow> m_next (hp_head h b) = (case cs of [] \<Rightarrow> 0 | c # _ \<Rightarrow> c)"
  by (drule chain_at) (cases cs; simp)

lemma chain_nz: "chain h p as \<Longrightarrow> 0 \<notin> set as"
  by (induction as arbitrary: p) auto

lemma apart_sym: "apart h a b = apart h b a"
  by (auto simp: apart_def)

lemma heap_okD:
  assumes "heap_ok M bk h xs"
  shows "chain h M xs" "distinct xs" "bk < 2 ^ 32" "\<not> m_free (hp_head h M)"
    "\<And>a. a \<in> set xs \<Longrightarrow> block_ok M bk h a" "\<And>a b. a \<in> set xs \<Longrightarrow> b \<in> set xs \<Longrightarrow> a \<noteq> b \<Longrightarrow> apart h a b"
  using assms by (auto simp: heap_ok_def)

lemma merge_ok:
  assumes ok: "heap_ok M bk h (pre @ b # cs)" and m: "can_merge b h"
  shows "\<exists>c ds. cs = c # ds \<and> heap_ok M bk (merge_next b h) (pre @ b # ds)
     \<and> live (merge_next b h) (pre @ b # ds) = live h (pre @ b # cs)"
proof -
  note ok' = heap_okD [OF ok]
  from m have f: "m_free (hp_head h b)" "m_next (hp_head h b) \<noteq> 0" "m_free (hp_head h (m_next (hp_head h b)))"
      "(b + m_size (hp_head h b)) mod 2 ^ 32 = m_next (hp_head h b)"
    by (simp_all add: can_merge_def Let_def)
  then obtain c ds where cs: "cs = c # ds" "m_next (hp_head h b) = c"
    using chain_next [OF ok'(1)] by (cases cs) auto
  have bb: "block_ok M bk h b" "block_ok M bk h c" using ok'(5) cs by simp_all
  have ad: "b + m_size (hp_head h b) = c" using f(4) bb(1) ok'(3) cs(2) by (simp add: block_ok_def)
  have ne: "c \<noteq> b" "c \<noteq> M" "b \<noteq> M" using ok'(2,4) f cs by auto
  let ?h = "merge_next b h"
  have sz: "(m_size (hp_head h b) + m_size (hp_head h c)) mod 2 ^ 32 = m_size (hp_head h b) + m_size (hp_head h c)"
    using bb(2) ad ok'(3) by (simp add: block_ok_def)
  have hd: "hp_head ?h = (hp_head h)(c := (hp_head h c)\<lparr>m_magic := 0\<rparr>,
      b := (hp_head h b)\<lparr>m_size := m_size (hp_head h b) + m_size (hp_head h c), m_next := m_next (hp_head h c)\<rparr>)"
    unfolding merge_next_def Let_def cs(2) sz using ne by simp
  have nc: "c \<notin> set pre" "c \<notin> set ds" "b \<notin> set pre" "b \<notin> set ds" using ok'(2) cs by auto
  have chain: "chain ?h M (pre @ b # ds)"
  proof (rule chain_swap_suffix)
    show "chain h M (pre @ b # c # ds)" using ok'(1) cs by simp
    show "chain ?h b (b # ds)"
    proof -
      have "chain h b (b # c # ds)" using chain_at [OF ok'(1)] cs by simp
      then have "b \<noteq> 0" "chain h (m_next (hp_head h c)) ds" by simp_all
      moreover have "chain ?h (m_next (hp_head h c)) ds = chain h (m_next (hp_head h c)) ds"
        using nc by (intro chain_cong) (auto simp: hd)
      ultimately show ?thesis by (simp add: hd)
    qed
  qed (use nc in \<open>auto simp: hd\<close>)
  have blk: "block_ok M bk ?h a" if "a \<in> set (pre @ b # ds)" for a
    using ok'(5) [of a] that bb ad ne nc cs by (auto simp: block_ok_def hd)
  have ap: "apart ?h b a" if "a \<in> set (pre @ b # ds)" "a \<noteq> b" for a
  proof -
    have "apart h b a" "apart h c a" "block_ok M bk h a" "a \<noteq> c"
      using ok'(5,6) that cs nc ne by auto
    then show ?thesis using that(2) ad ne by (auto simp: apart_def hd block_ok_def)
  qed
  have "apart ?h a d" if "a \<in> set (pre @ b # ds)" "d \<in> set (pre @ b # ds)" "a \<noteq> d" for a d
  proof -
    consider "a = b" | "d = b" | "a \<noteq> b" "d \<noteq> b" by blast
    then show ?thesis
    proof cases
      case 3
      then have "apart h a d" "a \<noteq> c" "d \<noteq> c" using ok'(6) that cs nc by auto
      then show ?thesis using 3 by (simp add: apart_def hd)
    qed (use ap that apart_sym in auto)
  qed
  then have "heap_ok M bk ?h (pre @ b # ds)"
    using chain blk ok'(2,3,4) cs ne by (auto simp: heap_ok_def hd)
  moreover have "live ?h (pre @ b # ds) = live h (pre @ b # cs)"
    using f(1,3) cs ne nc by (intro equalityI subrelI) (auto simp: live_iff hd split: if_splits)
  ultimately show ?thesis using cs by blast
qed

lemma take_ok:
  assumes ok: "heap_ok M bk h xs" and b: "b \<in> set xs" and f: "m_free (hp_head h b)"
  defines "h' \<equiv> set_head b ((hp_head h b)\<lparr>m_free := False\<rparr>) h"
  shows "heap_ok M bk h' xs" and "live h' xs = insert (b, m_size (hp_head h b)) (live h xs)"
proof -
  note ok' = heap_okD [OF ok]
  have M: "b \<noteq> M" using ok'(4) f by auto
  have "chain h' M xs" using ok'(1) chain_cong [of xs h' h M] by (auto simp: h'_def)
  then show "heap_ok M bk h' xs"
    using ok M by (auto simp: heap_ok_def h'_def block_ok_def apart_def)
  show "live h' xs = insert (b, m_size (hp_head h b)) (live h xs)"
    using b f by (intro equalityI subrelI) (auto simp: live_iff h'_def split: if_splits)
qed

lemma split_ok:
  assumes ok: "heap_ok M bk h (pre @ b # cs)" and f: "m_free (hp_head h b)" and n: "HSIZE \<le> n" "HSIZE + n \<le> m_size (hp_head h b)"
  shows "heap_ok M bk (split_block b n h) (pre @ b # (b + n) # cs)
     \<and> live (split_block b n h) (pre @ b # (b + n) # cs) = insert (b, n) (live h (pre @ b # cs))"
proof -
  note ok' = heap_okD [OF ok]
  let ?h = "split_block b n h" and ?c = "b + n" and ?s = "m_size (hp_head h b)"
  have M: "b \<noteq> M" using ok'(4) f by auto
  have bb: "block_ok M bk h b" using ok'(5) by simp
  have c: "(b + n) mod 2 ^ 32 = ?c" using bb n ok'(3) by (simp add: block_ok_def)
  have other: "a + m_size (hp_head h a) \<le> b \<or> b + ?s \<le> a" "HSIZE \<le> m_size (hp_head h a)" "a \<noteq> ?c"
    if "a \<in> set (pre @ b # cs)" "a \<noteq> b" for a
    using ok'(5) [of a] ok'(6) [of b a] that n by (auto simp: apart_def block_ok_def)
  have cb: "?c \<noteq> b" using n by simp
  have cn: "?c \<notin> set (pre @ b # cs)" using other(3) cb by blast
  have hd: "hp_head ?h = (hp_head h)(?c := \<lparr>m_magic = MMAG, m_free = True, m_size = ?s - n, m_next = m_next (hp_head h b)\<rparr>,
      b := (hp_head h b)\<lparr>m_free := False, m_size := n, m_next := ?c\<rparr>)"
    unfolding split_block_def Let_def c using n by simp
  have bc: "b \<notin> set pre" "b \<notin> set cs" "b \<noteq> 0" using ok'(2) chain_nz [OF ok'(1)] by auto
  have chain: "chain ?h M (pre @ b # ?c # cs)"
  proof (rule chain_swap_suffix [OF ok'(1)])
    have "chain h (m_next (hp_head h b)) cs" using chain_at [OF ok'(1)] by simp
    moreover have "chain ?h (m_next (hp_head h b)) cs = chain h (m_next (hp_head h b)) cs"
      using bc cn by (intro chain_cong) (auto simp: hd)
    ultimately show "chain ?h b (b # ?c # cs)" using bc cb by (simp add: hd)
  qed (use bc cn in \<open>auto simp: hd\<close>)
  have blk: "block_ok M bk ?h a" if "a \<in> set (pre @ b # ?c # cs)" for a
    using ok'(5) [of a] that bb n cb by (auto simp: block_ok_def hd)
  have ap: "apart ?h b a \<and> apart ?h ?c a" if "a \<in> set (pre @ b # cs)" "a \<noteq> b" for a
    using other [OF that] that(2) n cb by (auto simp: apart_def hd)
  have bcp: "apart ?h b ?c" using cb by (simp add: apart_def hd)
  have "apart ?h a d" if "a \<in> set (pre @ b # ?c # cs)" "d \<in> set (pre @ b # ?c # cs)" "a \<noteq> d" for a d
  proof -
    have old: "x \<in> set (pre @ b # cs)" if "x \<in> set (pre @ b # ?c # cs)" "x \<noteq> ?c" for x using that by auto
    consider "a \<in> {b, ?c}" "d \<in> {b, ?c}" | "a \<in> {b, ?c}" "d \<notin> {b, ?c}" | "a \<notin> {b, ?c}" "d \<in> {b, ?c}" | "a \<notin> {b, ?c}" "d \<notin> {b, ?c}" by blast
    then show ?thesis
    proof cases
      case 1
      then show ?thesis using bcp that(3) apart_sym by auto
    next
      case 2
      then show ?thesis using ap [OF old [OF that(2)]] by auto
    next
      case 3
      then show ?thesis using ap [OF old [OF that(1)]] apart_sym by auto
    next
      case 4
      then have "apart h a d" using ok'(6) old that by auto
      then show ?thesis using 4 by (simp add: apart_def hd)
    qed
  qed
  moreover have "distinct (pre @ b # ?c # cs)" using ok'(2) cn cb by auto
  moreover have "\<not> m_free (hp_head ?h M)" using ok'(4) M cn ok by (auto simp: hd heap_ok_def) (cases pre; auto)
  ultimately have "heap_ok M bk ?h (pre @ b # ?c # cs)"
    using chain blk ok'(3) by (auto simp: heap_ok_def)
  moreover have "live ?h (pre @ b # ?c # cs) = insert (b, n) (live h (pre @ b # cs))"
    using f cb cn bc by (intro equalityI subrelI) (auto simp: live_iff hd split: if_splits)
  ultimately show ?thesis by blast
qed

definition took :: "nat \<Rightarrow> nat \<Rightarrow> nat \<Rightarrow> heap \<Rightarrow> nat list \<Rightarrow> heap \<Rightarrow> nat list \<Rightarrow> bool" where
  "took bk n a h xs h' ys \<longleftrightarrow> (\<exists>sz \<ge> n. live h' ys = insert (a, sz) (live h xs) \<and> (\<forall>(c, k) \<in> live h xs. c + k \<le> a \<or> a + sz \<le> c))"

lemma live_apart:
  assumes "heap_ok M bk h xs" and "b \<in> set xs" and "m_free (hp_head h b)" and "(c, k) \<in> live h xs"
  shows "c + k \<le> b \<or> b + m_size (hp_head h b) \<le> c"
proof -
  have c: "c \<in> set xs" "k = m_size (hp_head h c)" "\<not> m_free (hp_head h c)" using assms(4) by (auto simp: live_def)
  then have "apart h c b" using heap_okD(6) [OF assms(1)] assms(2,3) by auto
  then show ?thesis using c by (simp add: apart_def)
qed

lemma mfind_spec:
  "heap_ok M bk h (pre @ suf) \<Longrightarrow> HSIZE \<le> n \<Longrightarrow> mh = (case suf of [] \<Rightarrow> 0 | b # _ \<Rightarrow> b) \<Longrightarrow> (pre \<noteq> [] \<longrightarrow> prev = last pre)
   \<Longrightarrow> \<exists>r h' ys. mfind n mh prev h = Some (r, h') \<and> heap_ok M bk h' ys \<and> hp_mem h' = hp_mem h
     \<and> (case r of Last l \<Rightarrow> l = last ys \<and> live h' ys = live h (pre @ suf) | Taken a \<Rightarrow> took bk n a h (pre @ suf) h' ys)"
proof (induction suf arbitrary: mh prev pre h rule: length_induct)
  case (1 suf)
  note ok = "1.prems"(1)
  show ?case
  proof (cases suf)
    case Nil
    then have "pre \<noteq> []" using ok by (auto simp: heap_ok_def)
    then show ?thesis using Nil "1.prems" by (subst mfind.simps) auto
  next
    case (Cons b cs)
    have nz: "b \<noteq> 0" using chain_nz [OF heap_okD(1) [OF ok]] Cons by simp
    have mh: "mh = b" using "1.prems"(3) Cons by simp
    have okc: "heap_ok M bk h (pre @ b # cs)" using ok Cons by simp
    consider (m) "can_merge b h"
      | (sp) "\<not> can_merge b h" "m_free (hp_head h b)" "HSIZE + n \<le> m_size (hp_head h b)"
      | (tk) "\<not> can_merge b h" "m_free (hp_head h b)" "n \<le> m_size (hp_head h b)" "\<not> HSIZE + n \<le> m_size (hp_head h b)"
      | (nx) "\<not> can_merge b h" "\<not> (m_free (hp_head h b) \<and> n \<le> m_size (hp_head h b))"
      using linorder_not_le by blast
    then show ?thesis
    proof cases
      case m
      obtain c ds where cs: "cs = c # ds" "heap_ok M bk (merge_next b h) (pre @ b # ds)"
          "live (merge_next b h) (pre @ b # ds) = live h (pre @ b # cs)"
        using merge_ok [OF okc m] by blast
      have "mfind n mh prev h = mfind n b prev (merge_next b h)" using m nz mh by (subst mfind.simps) simp
      moreover have "hp_mem (merge_next b h) = hp_mem h" by (simp add: merge_next_def Let_def)
      ultimately show ?thesis
        using "1.IH" [rule_format, of "b # ds" "merge_next b h" pre b prev] cs(2) "1.prems"(2,4) Cons
        unfolding took_def Cons cs(1,3) by (simp add: cs(3) [unfolded cs(1)])
    next
      case sp
      have "mfind n mh prev h = Some (Taken b, split_block b n h)" using sp nz mh by (subst mfind.simps) (simp add: Let_def)
      moreover have "hp_mem (split_block b n h) = hp_mem h" by (simp add: split_block_def Let_def)
      moreover have "took bk n b h (pre @ b # cs) (split_block b n h) (pre @ b # (b + n) # cs)"
        using split_ok [OF okc sp(2) "1.prems"(2) sp(3)] live_apart [OF okc _ sp(2)] sp(3)
        unfolding took_def by (fastforce intro!: exI [of _ n])
      ultimately show ?thesis
        using split_ok [OF okc sp(2) "1.prems"(2) sp(3)] Cons by auto
    next
      case tk
      let ?h = "set_head b ((hp_head h b)\<lparr>m_free := False\<rparr>) h"
      have "mfind n mh prev h = Some (Taken b, ?h)" using tk nz mh by (subst mfind.simps) (simp add: Let_def)
      moreover have "took bk n b h (pre @ b # cs) ?h (pre @ b # cs)"
        using take_ok(2) [OF okc _ tk(2)] live_apart [OF okc _ tk(2)] tk(3) unfolding took_def
        by (intro exI [of _ "m_size (hp_head h b)"]) auto
      ultimately show ?thesis using take_ok(1) [OF okc _ tk(2)] Cons by auto
    next
      case nx
      have "mfind n mh prev h = mfind n (m_next (hp_head h b)) b h"
        using nx nz mh by (subst mfind.simps) (auto simp: Let_def)
      moreover have "m_next (hp_head h b) = (case cs of [] \<Rightarrow> 0 | c # _ \<Rightarrow> c)"
        by (rule chain_next [OF heap_okD(1) [OF okc]])
      moreover have e: "(pre @ [b]) @ cs = pre @ suf" using Cons by simp
      ultimately show ?thesis
        using "1.IH" [rule_format, of cs h "pre @ [b]" "m_next (hp_head h b)" b, unfolded e] ok "1.prems"(2) Cons by simp
    qed
  qed
qed

section \<open>Properties\<close>

text \<open>
  \<open>sbrk\<close> moves the break, which is \<open>brk w\<close> in the world \<open>w\<close>, and returns where it was; it
  may refuse. This is what \<open>sys_sbrk\<close> does.
\<close>

definition sbrk_ok :: "(nat \<Rightarrow> 'w \<Rightarrow> nat option \<times> 'w) \<Rightarrow> ('w \<Rightarrow> nat) \<Rightarrow> bool" where
  "sbrk_ok sbrk brk \<longleftrightarrow> (\<forall>n w. case sbrk n w of
     (None, w') \<Rightarrow> brk w' = brk w
   | (Some p, w') \<Rightarrow> p = brk w \<and> p \<noteq> 0 \<and> brk w' = p + n \<and> p + n < 2 ^ 32)"

lemma append_ok:
  assumes ok: "heap_ok M p h xs" and p: "p \<noteq> 0" "p + n < 2 ^ 32" and n: "HSIZE \<le> n"
  defines "h1 \<equiv> set_head (last xs) ((hp_head h (last xs))\<lparr>m_next := p\<rparr>) h"
  defines "h2 \<equiv> set_head p ((hp_head h1 p)\<lparr>m_magic := MMAG, m_size := n, m_next := 0, m_free := False\<rparr>) h1"
  shows "heap_ok M (p + n) h2 (xs @ [p]) \<and> live h2 (xs @ [p]) = insert (p, n) (live h xs)"
proof -
  note ok' = heap_okD [OF ok]
  have ne: "xs \<noteq> []" using ok by (simp add: heap_ok_def)
  then obtain pre l where xs: "xs = pre @ [l]" by (metis append_butlast_last_id)
  have below: "a + m_size (hp_head h a) \<le> p" "a \<noteq> p" if "a \<in> set xs" for a
    using ok'(5) [OF that] by (auto simp: block_ok_def)
  have hd: "hp_head h2 = (hp_head h)(l := (hp_head h l)\<lparr>m_next := p\<rparr>,
      p := \<lparr>m_magic = MMAG, m_free = False, m_size = n, m_next = 0\<rparr>)"
    using xs below by (auto simp: h2_def h1_def)
  have d: "l \<notin> set pre" "p \<notin> set pre" "p \<noteq> l" using ok'(2) xs below by auto
  have M: "M \<in> set xs" using ok'(1) ne by (cases xs) auto
  have "chain h2 M (pre @ l # [p])"
  proof (rule chain_swap_suffix)
    show "chain h M (pre @ l # [])" using ok'(1) xs by simp
    have "l \<noteq> 0" using chain_nz [OF ok'(1)] xs by auto
    then show "chain h2 l (l # [p])" using d p by (simp add: hd)
  qed (use d in \<open>auto simp: hd\<close>)
  moreover have "block_ok M (p + n) h2 a" if "a \<in> set (xs @ [p])" for a
    using that ok'(5) [of a] n xs by (cases "a = p") (auto simp: block_ok_def hd)
  moreover have "apart h2 a b" if "a \<in> set (xs @ [p])" "b \<in> set (xs @ [p])" "a \<noteq> b" for a b
    using that ok'(6) [of a b] below [of a] below [of b] xs by (auto simp: apart_def hd)
  ultimately have "heap_ok M (p + n) h2 (xs @ [p])"
    using ok'(2,4) p xs M d by (auto simp: heap_ok_def hd)
  moreover have "live h2 (xs @ [p]) = insert (p, n) (live h xs)"
    using xs below by (intro equalityI subrelI) (auto simp: live_iff hd split: if_splits)
  ultimately show ?thesis ..
qed

text \<open>
  Property C29. \<open>malloc\<close> always ends. What it returns is null, and then nothing that was in use
  has changed, or a block with room for the size asked for that overlaps no block in use; the other blocks in
  use stay as they are, the list stays well formed, and no byte of a block is touched.
\<close>

theorem malloc_correct:
  assumes "heap_ok M (brk w) h xs" and "sbrk_ok sbrk brk" and "n + 31 < 2 ^ 32"
  shows "\<exists>p h' w' ys. malloc sbrk M n h w = Some (p, h', w') \<and> heap_ok M (brk w') h' ys \<and> hp_mem h' = hp_mem h
     \<and> (if p = 0 then live h' ys = live h xs
        else HSIZE < p \<and> (\<exists>sz \<ge> n + HSIZE. live h' ys = insert (p - HSIZE, sz) (live h xs)
               \<and> (\<forall>(c, k) \<in> live h xs. c + k \<le> p - HSIZE \<or> p - HSIZE + sz \<le> c)))"
proof -
  let ?n = "round_size n"
  have rn: "n + HSIZE \<le> ?n" "HSIZE \<le> ?n"
    using assms(3) by (auto simp: round_size_def)
  have ne: "xs \<noteq> []" "M \<noteq> 0" "xs = M # tl xs" using assms(1) by (auto simp: heap_ok_def) (cases xs; auto)+
  have mh: "M = (case xs of [] \<Rightarrow> 0 | b # _ \<Rightarrow> b)" using ne(3) by (metis list.simps(5))
  have "heap_ok M (brk w) h ([] @ xs)" using assms(1) by simp
  from mfind_spec [OF this rn(2) mh, of 0, unfolded append_Nil] obtain r h1 ys where m:
    "mfind ?n M 0 h = Some (r, h1)" "heap_ok M (brk w) h1 ys" "hp_mem h1 = hp_mem h"
    "case r of Last l \<Rightarrow> l = last ys \<and> live h1 ys = live h xs | Taken a \<Rightarrow> took (brk w) ?n a h xs h1 ys" by auto
  show ?thesis
  proof (cases r)
    case (Taken a)
    then obtain sz where sz: "?n \<le> sz" "live h1 ys = insert (a, sz) (live h xs)" "\<forall>(c, k) \<in> live h xs. c + k \<le> a \<or> a + sz \<le> c"
      using m(4) by (auto simp: took_def)
    have "(a, sz) \<in> live h1 ys" using sz(2) by simp
    then have "a \<noteq> 0" using chain_nz [OF heap_okD(1) [OF m(2)]] by (metis live_iff)
    moreover have "malloc sbrk M n h w = Some (a + HSIZE, h1, w)"
      using m(1) Taken by (simp add: malloc_def Let_def)
    ultimately show ?thesis using m(2,3) sz rn(1)
      by (intro exI [of _ "a + HSIZE"] exI [of _ h1] exI [of _ w] exI [of _ ys]) (auto intro!: exI [of _ sz])
  next
    case (Last l)
    then have l: "l = last ys" "live h1 ys = live h xs" using m(4) by simp_all
    show ?thesis
    proof (cases "sbrk ?n w")
      case (Pair q w1)
      show ?thesis
      proof (cases q)
        case None
        then have "brk w1 = brk w" using assms(2) Pair unfolding sbrk_ok_def by (metis (mono_tags, lifting) case_prod_conv option.simps(4))
        then show ?thesis using m Last l None Pair
          by (intro exI [of _ 0] exI [of _ h1] exI [of _ w1] exI [of _ ys]) (simp add: malloc_def Let_def)
      next
        case (Some p)
        have s: "p = brk w" "p \<noteq> 0" "brk w1 = p + ?n" "p + ?n < 2 ^ 32"
          using spec [OF spec [OF assms(2) [unfolded sbrk_ok_def], of ?n], of w] Pair Some by simp_all
        define g where "g = set_head (last ys) ((hp_head h1 (last ys))\<lparr>m_next := p\<rparr>) h1"
        define h2 where "h2 = set_head p ((hp_head g p)\<lparr>m_magic := MMAG, m_size := ?n, m_next := 0, m_free := False\<rparr>) g"
        have a: "heap_ok M (p + ?n) h2 (ys @ [p])" "live h2 (ys @ [p]) = insert (p, ?n) (live h xs)"
          using append_ok [OF m(2) [folded s(1)] s(2,4) rn(2)] l(2) by (simp_all add: h2_def g_def)
        have "malloc sbrk M n h w = Some (p + HSIZE, h2, w1)"
          using m(1) Last Pair Some l(1) by (simp add: malloc_def Let_def h2_def g_def)
        moreover have "c + k \<le> p" if "(c, k) \<in> live h xs" for c k
          using that heap_okD(5) [OF assms(1), of c] s(1) by (auto simp: live_iff block_ok_def)
        moreover have "hp_mem h2 = hp_mem h" using m(3) by (simp add: h2_def g_def)
        ultimately show ?thesis using a s rn(1)
          by (intro exI [of _ "p + HSIZE"] exI [of _ h2] exI [of _ w1] exI [of _ "ys @ [p]"]) (auto intro!: exI [of _ ?n])
      qed
    qed
  qed
qed

text \<open>
  \<open>free\<close> of a pointer that \<open>malloc\<close> gave and that is still in use makes this block,
  and no other, available again; freeing the null pointer does nothing.
\<close>

theorem free_correct:
  assumes "heap_ok M bk h xs" and "(p - HSIZE, k) \<in> live h xs" and "p - HSIZE \<noteq> M" and "HSIZE < p"
  shows "\<exists>h'. free p h = Some h' \<and> heap_ok M bk h' xs \<and> live h' xs = live h xs - {(p - HSIZE, k)} \<and> free 0 h = Some h"
proof -
  let ?a = "p - HSIZE"
  note ok' = heap_okD [OF assms(1)]
  have a: "?a \<in> set xs" "k = m_size (hp_head h ?a)" using assms(2) by (simp_all add: live_iff)
  have mg: "m_magic (hp_head h ?a) = MMAG" using ok'(5) [OF a(1)] assms(3) by (simp add: block_ok_def)
  let ?h = "set_head ?a ((hp_head h ?a)\<lparr>m_free := True\<rparr>) h"
  have "chain ?h M xs" using ok'(1) chain_cong [of xs ?h h M] by auto
  then have "heap_ok M bk ?h xs"
    using assms(1,3) by (auto simp: heap_ok_def block_ok_def apart_def)
  moreover have "live ?h xs = live h xs - {(?a, k)}"
    using a by (intro equalityI subrelI) (auto simp: live_iff split: if_splits)
  moreover have "free p h = Some ?h" using mg assms(4) by (simp add: free_def Let_def)
  ultimately show ?thesis by (simp add: free_def)
qed

definition ex_heap :: heap where
  "ex_heap = \<lparr>hp_head = (\<lambda>_. \<lparr>m_magic = 0, m_free = False, m_size = 16, m_next = 0\<rparr>), hp_mem = (\<lambda>_. 0)\<rparr>"

definition ex_sbrk :: "nat \<Rightarrow> nat \<Rightarrow> nat option \<times> nat" where
  "ex_sbrk n w = (if w \<noteq> 0 \<and> w + n < 2 ^ 32 then (Some w, w + n) else (None, w))"

lemma ex_heap_ok: "heap_ok 64 80 ex_heap [64]"
  by (simp add: heap_ok_def ex_heap_def block_ok_def)

lemma ex_sbrk_ok: "sbrk_ok ex_sbrk (\<lambda>w. w)"
  by (auto simp: sbrk_ok_def ex_sbrk_def)

theorem malloc_correct_witness:
  "\<exists>p h w ys. malloc ex_sbrk 64 100 ex_heap 80 = Some (p, h, w) \<and> heap_ok 64 w h ys"
  using malloc_correct [of 64 "\<lambda>w. w" 80 ex_heap "[64]" ex_sbrk 100] ex_heap_ok ex_sbrk_ok by auto

theorem free_correct_witness:
  "\<exists>h h'. heap_ok 64 112 h [64, 80] \<and> live h [64, 80] = {(64, 16), (80, 32)} \<and> free 96 h = Some h' \<and> live h' [64, 80] = {(64, 16)}"
proof -
  let ?h = "\<lparr>hp_head = (\<lambda>a. if a = 64 then \<lparr>m_magic = 0, m_free = False, m_size = 16, m_next = 80\<rparr>
      else \<lparr>m_magic = MMAG, m_free = False, m_size = 32, m_next = 0\<rparr>), hp_mem = (\<lambda>_. 0)\<rparr>"
  have ok: "heap_ok 64 112 ?h [64, 80]" by (simp add: heap_ok_def block_ok_def apart_def)
  have l: "live ?h [64, 80] = {(64, 16), (80, 32)}" by (intro equalityI subrelI) (auto simp: live_iff)
  obtain h' where h': "free 96 ?h = Some h'" "live h' [64, 80] = live ?h [64, 80] - {(80, 32)}"
    using free_correct [OF ok, of 96 32] l by auto
  have "live h' [64, 80] = {(64, 16)}" unfolding h'(2) l by auto
  with ok l h'(1) show ?thesis by blast
qed

end
