(* ===== verification/Trap.thy ===== *)
theory Trap
  imports Exit Stdio Pipe
begin

unbundle bit_operations_syntax

text \<open>
  \<open>kern/intr.c\<close>: the interrupt controllers and the interrupt descriptor table, what the
  kernel does for an exception, and the way back to the user program. What is printed on the
  console is a list of bytes. The assembler entry points are known by their addresses.
\<close>

section \<open>The interrupt controllers\<close>

text \<open>
  The ports of the two 8259A. A data port gives back the mask that was last written to it.
\<close>

type_synonym ports = "nat \<Rightarrow> byte"

abbreviation (input) "A8259A_M \<equiv> (0x20::nat)"
abbreviation (input) "A8259A_S \<equiv> (0xA0::nat)"
abbreviation (input) "CASCADE_IRQ \<equiv> (2::nat)"

definition outb :: "nat \<Rightarrow> byte \<Rightarrow> ports \<Rightarrow> ports" where
  "outb a v p = p(a := v)"

definition intr_set8259a :: "byte \<Rightarrow> byte \<Rightarrow> ports \<Rightarrow> ports" where
  "intr_set8259a irq0 irq8 p =
     (let p = outb A8259A_M 0x11 p;
          p = outb (A8259A_M + 1) irq0 p;
          p = outb (A8259A_M + 1) (push_bit CASCADE_IRQ 1) p;
          p = outb (A8259A_M + 1) 0x03 p;
          p = outb A8259A_S 0x11 p;
          p = outb (A8259A_S + 1) irq8 p;
          p = outb (A8259A_S + 1) (of_nat CASCADE_IRQ) p;
          p = outb (A8259A_S + 1) 0x03 p;
          p = outb (A8259A_M + 1) 0xFF p
      in outb (A8259A_S + 1) 0xFF p)"

text \<open>The data port and the bit of an interrupt.\<close>

definition irq_line :: "nat \<Rightarrow> (nat \<times> nat) option" where
  "irq_line nr =
     (if nr < 8 then Some (A8259A_M + 1, nr)
      else if nr - 8 > 7 then None
      else Some (A8259A_S + 1, nr - 8))"

definition irq_ena :: "nat \<Rightarrow> ports \<Rightarrow> ports option" where
  "irq_ena nr p = map_option (\<lambda>(a, n). outb a (p a AND NOT (push_bit n 1)) p) (irq_line nr)"

definition irq_dis :: "nat \<Rightarrow> ports \<Rightarrow> ports option" where
  "irq_dis nr p = map_option (\<lambda>(a, n). outb a (p a OR push_bit n 1) p) (irq_line nr)"

type_synonym irq_handler = "nat \<Rightarrow> intr_regs \<Rightarrow> kst \<Rightarrow> kst option"

definition irq_set :: "nat \<Rightarrow> irq_handler \<Rightarrow> (nat \<Rightarrow> irq_handler) \<Rightarrow> (nat \<Rightarrow> irq_handler) option" where
  "irq_set nr h vect = (if nr > 15 then None else Some (vect(nr := h)))"

definition intr_irq :: "(nat \<Rightarrow> irq_handler) \<Rightarrow> intr_regs \<Rightarrow> nat \<Rightarrow> kst \<Rightarrow> kst option" where
  "intr_irq vect r nr s = map_option wakeup (vect nr nr r s)"

section \<open>The interrupt descriptor table\<close>

type_synonym idt = "nat \<Rightarrow> 16 word" \<comment> \<open>four words for each vector\<close>

abbreviation (input) "KERN_CS \<equiv> (8 :: 16 word)"
abbreviation (input) "USER_CS \<equiv> (0x1B :: nat)"
abbreviation (input) "USER_DS \<equiv> (0x23 :: nat)"

definition intr_setvect4 :: "nat \<Rightarrow> 32 word \<Rightarrow> 16 word \<Rightarrow> nat \<Rightarrow> idt \<Rightarrow> idt" where
  "intr_setvect4 nr addr seg dpl d =
     d(nr * 4 := ucast addr, nr * 4 + 1 := seg, nr * 4 + 2 := 0x8E00 OR push_bit 13 (of_nat dpl),
       nr * 4 + 3 := ucast (drop_bit 16 addr))"

definition intr_setvect :: "nat \<Rightarrow> 32 word \<Rightarrow> nat \<Rightarrow> idt \<Rightarrow> idt" where
  "intr_setvect nr addr dpl d = intr_setvect4 nr addr KERN_CS dpl d"

text \<open>The entry points of the assembler files.\<close>

datatype entry = Asm_irq nat | Asm_exc nat | Asm_syscall | Asm_minix | Asm_v7unx

definition intr_init :: "(entry \<Rightarrow> 32 word) \<Rightarrow> ports \<Rightarrow> idt \<Rightarrow> (ports \<times> idt) option" where
  "intr_init asm p d =
     map_option (\<lambda>p.
       (p, let d = fold (\<lambda>i. intr_setvect (0x40 + i) (asm (Asm_irq i)) 0) [0..<16] d;
               d = fold (\<lambda>i. intr_setvect i (asm (Asm_exc i)) 0) [0..<19] d;
               d = intr_setvect 0x80 (asm Asm_syscall) 3 d;
               d = intr_setvect 0x21 (asm Asm_minix) 3 d
           in intr_setvect 0x30 (asm Asm_v7unx) 3 d))
       (irq_ena CASCADE_IRQ (intr_set8259a 0x40 0x48 p))"

section \<open>Printing the registers\<close>

definition hexdigits :: "byte list" where
  "hexdigits = map of_char ''0123456789abcdef''"

fun prhex_loop :: "32 word \<Rightarrow> nat \<Rightarrow> byte list" where
  "prhex_loop v 0 = []"
| "prhex_loop v (Suc n) = hexdigits ! unat (drop_bit 28 v AND 15) # prhex_loop (push_bit 4 v) n"

definition prhex :: "32 word \<Rightarrow> nat \<Rightarrow> byte list" where
  "prhex v n = prhex_loop (push_bit ((8 - n) * 4) v) n"

definition preg :: "string \<Rightarrow> nat \<Rightarrow> byte list" where
  "preg n v = bytes n @ [0x20] @ prhex (of_nat v) 8 @ [0x20]"

definition prseg :: "string \<Rightarrow> nat \<Rightarrow> byte list" where
  "prseg n v = bytes n @ [0x20] @ prhex (of_nat v) 4 @ [0x20]"

definition pregpair :: "string \<Rightarrow> nat \<Rightarrow> nat \<Rightarrow> byte list" where
  "pregpair n seg v = bytes n @ replicate (7 - length n) 0x20 @ prhex (of_nat seg) 4 @ [0x3A] @ prhex (of_nat v) 8 @ [10]"

text \<open>The words of the stack, and the bytes at the instruction pointer, as far as they can be read.\<close>

fun dump_mem :: "nat \<Rightarrow> nat \<Rightarrow> nat \<Rightarrow> kst \<Rightarrow> (byte list \<times> kst) option" where
  "dump_mem w 0 a s = Some ([], s)"
| "dump_mem w (Suc n) a s = do {
     (r, s) \<leftarrow> fucpy a w s;
     (case r of
        Inl _ \<Rightarrow> Some ([], s)
      | Inr bs \<Rightarrow> do {
          (t, s) \<leftarrow> dump_mem w n ((a + w) mod 2 ^ 32) s;
          Some (0x20 # prhex (of_nat (if w = 1 then unat (bs ! 0) else rd32 bs 0)) (2 * w) @ t, s)
        })
   }"

definition dump_line :: "string \<Rightarrow> nat \<Rightarrow> nat \<Rightarrow> nat \<Rightarrow> kst \<Rightarrow> (byte list \<times> kst) option" where
  "dump_line name w n a s =
     map_option (\<lambda>(t, s). (bytes name @ (if t = [] then bytes '' bad'' else t) @ [10], s)) (dump_mem w n a s)"

definition dumpregs :: "nat \<Rightarrow> nat \<Rightarrow> nat \<Rightarrow> intr_regs \<Rightarrow> kst \<Rightarrow> (byte list \<times> kst) option" where
  "dumpregs cr0 cr2 xecode r s = do {
     let t = preg ''eax'' (r_eax r) @ preg ''ebx'' (r_ebx r) @ preg ''ecx'' (r_ecx r) @ preg ''edx'' (r_edx r) @ [10]
       @ preg ''esi'' (r_esi r) @ preg ''edi'' (r_edi r) @ preg ''ebp'' (r_ebp r) @ preg ''efl'' (r_eflags r) @ [10]
       @ preg ''cr0'' cr0 @ preg ''cr2'' cr2 @ preg ''err'' xecode @ [10]
       @ prseg ''ds'' (r_ds r) @ prseg ''es'' (r_es r) @ prseg ''fs'' (r_fs r) @ prseg ''gs'' (r_gs r) @ [10]
       @ pregpair ''cs:eip'' (r_cs r) (r_eip r)
       @ (if r_cs r mod 4 \<noteq> 0 then pregpair ''ss:esp'' (r_ss r) (r_esp r) else []);
     (u, s) \<leftarrow> (if r_cs r mod 4 \<noteq> 0 \<and> r_ss r = USER_DS then dump_line ''stack'' 4 8 (r_esp r) s else Some ([], s));
     (c, s) \<leftarrow> (if r_cs r = USER_CS then dump_line ''code'' 1 16 (r_eip r) s else Some ([], s));
     Some (t @ u @ c, s)
   }"

section \<open>Calls of other systems\<close>

text \<open>
  The programs of Minix and of the seventh edition of Unix enter the kernel at vectors of their own,
  which passes them on to the compatibility code in the process.
\<close>

definition compat_call :: "nat list \<Rightarrow> intr_regs \<Rightarrow> kst \<Rightarrow> (intr_regs \<times> kst) option" where
  "compat_call stk r s = do {
     (ok, r, s) \<leftarrow> push_words stk (r\<lparr>r_eip := p_compat (cur s)\<rparr>) s;
     Some (r, if ok then s else snd (sendsig (curr s) SIGABRT s))
   }"

definition minix :: "intr_regs \<Rightarrow> kst \<Rightarrow> (intr_regs \<times> kst) option" where
  "minix r s =
     (if p_compat (cur s) = 0 then Some (r, snd (sendsig (curr s) SIGABRT s))
      else compat_call [r_ebx r, r_eip r, r_cs r] (r\<lparr>r_cs := USER_CS\<rparr>) s)"

definition v7unx :: "intr_regs \<Rightarrow> kst \<Rightarrow> (intr_regs \<times> kst) option" where
  "v7unx r s =
     (if p_compat (cur s) = 0 then Some (r, snd (sendsig (curr s) SIGABRT s))
      else compat_call [r_eip r] r s)"

section \<open>Exceptions\<close>

text \<open>
  What the processor's control registers hold, \<open>cr0\<close>, \<open>cr2\<close> and the error code, are arguments. Only the
  super user's programs have their registers printed.
\<close>

record cpu =
  c_cr0 :: nat
  c_cr2 :: nat
  c_xecode :: nat

definition sendxsig :: "cpu \<Rightarrow> intr_regs \<Rightarrow> nat \<Rightarrow> nat \<Rightarrow> kst \<Rightarrow> (byte list \<times> kst) option" where
  "sendxsig x r nr sig s = do {
     (t, s) \<leftarrow> (if p_ruid (cur s) = 0 then do {
          t \<leftarrow> kprintf (bytes ''pid %i comm %s trap %i user 0x%x'' @ [10])
                [Num (of_int (p_pid (cur s))), Str (takeWhile (\<lambda>c. c \<noteq> 0) (p_comm (cur s))), Num (of_nat nr), Num (of_nat (r_eip r))];
          (u, s) \<leftarrow> dumpregs (c_cr0 x) (c_cr2 x) (c_xecode x) r s;
          Some (t @ u, s)
        } else Some ([], s));
     Some (t, snd (sendsig (curr s) sig s))
   }"

definition exception :: "cpu \<Rightarrow> intr_regs \<Rightarrow> nat \<Rightarrow> kst \<Rightarrow> (byte list \<times> kst) option" where
  "exception x r nr s =
     (if r_cs r mod 4 = 0 then None
      else if nr = 0 \<or> nr = 16 then sendxsig x r nr SIGFPE s
      else if nr = 6 \<or> nr = 7 then sendxsig x r nr SIGILL s
      else if nr \<in> {1, 3, 4, 5, 17} then sendxsig x r nr SIGTRAP s
      else if nr = 8 \<or> nr = 13 then sendxsig x r nr SIGBUS s
      else if nr \<in> {9, 11, 12} then sendxsig x r nr SIGSEGV s
      else if nr = 14 then
        (case ufault (c_cr2 x) s of
           (Inl _, s) \<Rightarrow> sendxsig x r nr SIGSEGV s
         | (Inr _, s) \<Rightarrow> Some ([], s))
      else if nr \<in> {2, 10, 15, 18} then None
      else Some ([], s))"

section \<open>The way back\<close>

text \<open>
  The registers are \<open>None\<close> when a signal has ended the process. What happens while another process runs is
  the argument \<open>e\<close>.
\<close>

partial_function (option) intr_return :: "env \<Rightarrow> intr_regs \<Rightarrow> kst \<Rightarrow> (intr_regs option \<times> kst) option" where
  "intr_return e r s =
     (if r_cs r mod 4 = 0 then Some (Some r, s)
      else do {
        (r, s) \<leftarrow> (if p_sig (cur s) \<noteq> 0 then pushsig e r s else Some (Some r, s));
        (case r of
           None \<Rightarrow> Some (None, s)
         | Some r \<Rightarrow> do {
             s \<leftarrow> (if dosync s then psync (e_late e) (s\<lparr>dosync := False\<rparr>) else Some s);
             (if resched s then Option.bind (sched e s) (intr_return e r) else Some (Some r, s))
           })
      })"


section \<open>The gates\<close>

lemma prhex_digits: "n \<le> 8 \<Longrightarrow> prhex v n = digits 16 (unat v) n"
proof -
  have hex: "hexdigits ! k = digit_char k" if "k < 16" for k
    using that by (auto simp: hexdigits_def digit_char_def less_Suc_eq numeral_eq_Suc)
  have "prhex_loop (push_bit ((8 - n) * 4) v) n = digits 16 (unat v) n" if "n \<le> 8"
    using that
  proof (induction n)
    case (Suc n)
    have m: "(15 :: 32 word) = mask 4" by (simp add: mask_eq_exp_minus_1)
    have "drop_bit 28 (push_bit ((8 - Suc n) * 4) v) AND 15 = drop_bit (4 * n) v AND mask 4"
      unfolding m using Suc.prems by (intro bit_word_eqI) (auto simp: bit_simps algebra_simps)
    then have "unat (drop_bit 28 (push_bit ((8 - Suc n) * 4) v) AND 15) = digit 16 (unat v) n"
      using unsigned_less [where 'a = nat, of v]
      by (simp only: take_bit_eq_mask [symmetric] unsigned_take_bit_eq unsigned_drop_bit_eq)
        (simp add: digit_def take_bit_eq_mod drop_bit_eq_div power_mult)
    moreover have "push_bit 4 (push_bit ((8 - Suc n) * 4) v) = push_bit ((8 - n) * 4) v"
      using Suc.prems by (simp add: push_bit_push_bit Suc_diff_Suc [symmetric] algebra_simps)
    ultimately show ?case using Suc by (simp add: digits_def hex [of "unat v div 16 ^ n mod 16"] digit_def)
  qed (simp add: digits_def)
  then show "n \<le> 8 \<Longrightarrow> prhex v n = digits 16 (unat v) n" by (simp add: prhex_def)
qed

text \<open>What the processor takes from the four words of a gate: the address, the segment and the privilege level.\<close>

definition gate :: "idt \<Rightarrow> nat \<Rightarrow> 32 word \<times> 16 word \<times> nat" where
  "gate d n = (ucast (d (n * 4)) OR push_bit 16 (ucast (d (n * 4 + 3))), d (n * 4 + 1),
     unat (drop_bit 13 (d (n * 4 + 2)) AND 3))"

lemma gate_setvect4:
  assumes "dpl < 4"
  shows "gate (intr_setvect4 nr addr seg dpl d) n = (if n = nr then (addr, seg, dpl) else gate d n)"
proof (cases "n = nr")
  case True
  have "ucast (ucast addr :: 16 word) OR push_bit 16 (ucast (ucast (drop_bit 16 addr) :: 16 word)) = addr"
    by (rule bit_word_eqI) (auto simp: bit_simps)
  moreover have "unat (drop_bit 13 (0x8E00 OR push_bit 13 (of_nat dpl) :: 16 word) AND 3) = dpl"
  proof -
    consider "dpl = 0" | "dpl = 1" | "dpl = 2" | "dpl = 3" using assms by linarith
    then show ?thesis by cases simp_all
  qed
  ultimately show ?thesis using True by (simp add: gate_def intr_setvect4_def)
next
  case False
  then have "n * 4 + i \<noteq> nr * 4 + j" if "i < 4" "j < 4" for i j using that by presburger
  from this [of 0 0] this [of 0 1] this [of 0 2] this [of 0 3] this [of 1 0] this [of 1 1] this [of 1 2] this [of 1 3]
    this [of 2 0] this [of 2 1] this [of 2 2] this [of 2 3] this [of 3 0] this [of 3 1] this [of 3 2] this [of 3 3]
  show ?thesis using False by (simp add: gate_def intr_setvect4_def)
qed

lemma gate_fold:
  "gate (fold (\<lambda>i. intr_setvect (b + i) (f i) 0) [0..<m] d) n
   = (if b \<le> n \<and> n < b + m then (f (n - b), KERN_CS, 0) else gate d n)"
  by (induction m) (auto simp: intr_setvect_def gate_setvect4)

text \<open>
  Property C24. After \<open>intr_init\<close> every interrupt and every exception has the gate of its
  entry point, and the only gates that a user program may call are those of the system calls, of Minix
  and of the seventh edition; all interrupts but the cascade are masked. No other gate is changed.
\<close>

theorem intr_init_gates:
  "\<exists>p' d'. intr_init asm p d = Some (p', d') \<and> p' 0x21 = 0xFB \<and> p' 0xA1 = 0xFF
    \<and> (\<forall>n. gate d' n =
        (if n = 0x80 then (asm Asm_syscall, KERN_CS, 3)
         else if n = 0x21 then (asm Asm_minix, KERN_CS, 3)
         else if n = 0x30 then (asm Asm_v7unx, KERN_CS, 3)
         else if n < 19 then (asm (Asm_exc n), KERN_CS, 0)
         else if 0x40 \<le> n \<and> n < 0x50 then (asm (Asm_irq (n - 0x40)), KERN_CS, 0)
         else gate d n))"
proof -
  have exc: "gate (fold (\<lambda>i. intr_setvect i (asm (Asm_exc i)) 0) [0..<19] e) n
      = (if n < 19 then (asm (Asm_exc n), KERN_CS, 0) else gate e n)" for e n
    using gate_fold [of 0 "\<lambda>i. asm (Asm_exc i)" 19 e n] by simp
  show ?thesis
    by (simp add: intr_init_def irq_ena_def irq_line_def intr_set8259a_def outb_def Let_def
        intr_setvect_def [of "0x80"] intr_setvect_def [of "0x21"] intr_setvect_def [of "0x30"] gate_setvect4 exc gate_fold)
qed

text \<open>An interrupt that is enabled or disabled; the others stay as they are.\<close>

definition masked :: "ports \<Rightarrow> nat \<Rightarrow> bool" where
  "masked p nr = (if nr < 8 then bit (p (A8259A_M + 1)) nr else bit (p (A8259A_S + 1)) (nr - 8))"

lemma irq_mask:
  assumes "nr < 16" and "m < 16"
  shows "\<exists>p'. irq_ena nr p = Some p' \<and> masked p' m = (masked p m \<and> m \<noteq> nr)"
    and "\<exists>p'. irq_dis nr p = Some p' \<and> masked p' m = (masked p m \<or> m = nr)"
  using assms by (auto simp: irq_ena_def irq_dis_def irq_line_def outb_def masked_def bit_simps)


section \<open>What is kept\<close>

context um_frame begin

lemma dump_mem_keep [keep]: "obs s = v \<Longrightarrow> keep v (dump_mem w n a s)"
  by (induction n arbitrary: a s) (auto intro!: keep)

lemma dumpregs_keep [keep]: "obs s = v \<Longrightarrow> keep v (dumpregs c0 c2 xc r s)"
  unfolding dumpregs_def dump_line_def by (intro keep; simp)

lemma push_words_keep: "obs s = v \<Longrightarrow> push_words ws r s = Some (ok, r', s') \<Longrightarrow> obs s' = v"
  by (auto simp: push_words_def Let_def dest: keepD [OF tucpy_keep [OF refl]])

end

text \<open>The running process and the signals that it has been sent and that it ignores.\<close>

definition sig_view :: "kst \<Rightarrow> nat \<times> 32 word \<times> 32 word" where
  "sig_view s = (curr s, p_sig (cur s), p_sig_ign (cur s))"

interpretation pnd: um_frame sig_view
  by unfold_locales (simp_all add: sig_view_def upd_defs)

section \<open>Exceptions\<close>

definition exc_sig :: "nat \<Rightarrow> nat option" where
  "exc_sig = map_of [(0, SIGFPE), (1, SIGTRAP), (3, SIGTRAP), (4, SIGTRAP), (5, SIGTRAP), (6, SIGILL), (7, SIGILL),
     (8, SIGBUS), (9, SIGSEGV), (11, SIGSEGV), (12, SIGSEGV), (13, SIGBUS), (14, SIGSEGV), (16, SIGFPE), (17, SIGTRAP)]"

lemma sendxsig_sig:
  assumes "sendxsig x r nr sig s = Some (t, s')" and "sig \<in> {SIGFPE, SIGTRAP, SIGILL, SIGBUS, SIGSEGV}"
  shows "curr s' = curr s \<and> p_sig (cur s') = (p_sig (cur s) OR sigbit sig) AND NOT (p_sig_ign (cur s))"
proof -
  obtain u s1 where m: "(if p_ruid (cur s) = 0 then do {
          t \<leftarrow> kprintf (bytes ''pid %i comm %s trap %i user 0x%x'' @ [10])
                [Num (of_int (p_pid (cur s))), Str (takeWhile (\<lambda>c. c \<noteq> 0) (p_comm (cur s))), Num (of_nat nr), Num (of_nat (r_eip r))];
          (u, s) \<leftarrow> dumpregs (c_cr0 x) (c_cr2 x) (c_xecode x) r s;
          Some (t @ u, s)
        } else Some ([], s)) = Some (u, s1)" and s': "s' = snd (sendsig (curr s1) sig s1)"
    using assms(1) by (auto simp: sendxsig_def bind_eq_Some_conv)
  have "sig_view s1 = sig_view s"
  proof (cases "p_ruid (cur s) = 0")
    case True
    then obtain w where "dumpregs (c_cr0 x) (c_cr2 x) (c_xecode x) r s = Some (w, s1)"
      using m by (auto simp: bind_eq_Some_conv)
    then show ?thesis using pnd.keepD [OF pnd.dumpregs_keep [OF refl]] by blast
  qed (use m in simp)
  moreover have "ksig sig" "sig \<noteq> 0" "sig < NSIG" using assms(2) by (auto simp: ksig_def)
  ultimately show ?thesis unfolding s' by (auto simp: sig_view_def sendsig_def upd_defs)
qed


lemma sendxsig_quiet: "p_ruid (cur s) \<noteq> 0 \<Longrightarrow> sendxsig x r nr sig s = Some ([], snd (sendsig (curr s) sig s))"
  by (simp add: sendxsig_def)

lemma exc_sig_cases: "exc_sig nr = Some sig \<Longrightarrow> r_cs r mod 4 \<noteq> 0 \<Longrightarrow>
    sig \<in> {SIGFPE, SIGTRAP, SIGILL, SIGBUS, SIGSEGV} \<and>
    exception x r nr s = (if nr = 14 then
        (case ufault (c_cr2 x) s of (Inl _, s) \<Rightarrow> sendxsig x r nr sig s | (Inr _, s) \<Rightarrow> Some ([], s))
      else sendxsig x r nr sig s)"
  by (auto simp: exc_sig_def exception_def split: if_splits)

lemma ufault_sig_view: "ufault a s = (res, s') \<Longrightarrow> sig_view s' = sig_view s \<and> p_ruid (cur s') = p_ruid (cur s)"
  by (auto simp: ufault_def Let_def sig_view_def zpalloc_def palloc_def pg_alloc_def zero_page_def put_pte_def
      split: if_splits prod.splits)

text \<open>
  Property C25. An exception of a user program adds its signal, and no other, to those that are
  pending, unless the program ignores it; this does not depend on whether the
  registers are printed. A page fault is such an exception only if \<open>ufault\<close> does not
  find the page. For a process that is not the super user's nothing is printed and the kernel goes on; in
  the kernel itself every exception stops the machine.
\<close>

theorem exception_signals:
  assumes "r_cs r mod 4 \<noteq> 0" and "exc_sig nr = Some sig" and "nr = 14 \<Longrightarrow> fst (ufault (c_cr2 x) s) \<noteq> Inr ()"
  shows "when_returns (exception x r nr s) (\<lambda>(t, s'). curr s' = curr s
      \<and> p_sig (cur s') = (p_sig (cur s) OR sigbit sig) AND NOT (p_sig_ign (cur s)))
    \<and> (p_ruid (cur s) \<noteq> 0 \<longrightarrow> (\<exists>s'. exception x r nr s = Some ([], s')))
    \<and> exception x (r\<lparr>r_cs := 8\<rparr>) nr s = None"
proof -
  note ex = exc_sig_cases [OF assms(2,1), of x s]
  obtain s1 where s1: "exception x r nr s = sendxsig x r nr sig s1" "sig_view s1 = sig_view s" "p_ruid (cur s1) = p_ruid (cur s)"
  proof (cases "nr = 14")
    case True
    obtain e s1 where "ufault (c_cr2 x) s = (Inl e, s1)"
      using assms(3) [OF True] by (cases "ufault (c_cr2 x) s"; cases "fst (ufault (c_cr2 x) s)") auto
    then show ?thesis using that [of s1] ex True ufault_sig_view by auto
  qed (use that [of s] ex in simp)
  have "when_returns (sendxsig x r nr sig s1) (\<lambda>(t, s'). curr s' = curr s
      \<and> p_sig (cur s') = (p_sig (cur s) OR sigbit sig) AND NOT (p_sig_ign (cur s)))"
    using sendxsig_sig [of x r nr sig s1] ex s1(2) by (auto intro!: when_returnsI simp: sig_view_def)
  then show ?thesis using s1 by (simp add: sendxsig_quiet) (simp add: exception_def)
qed

theorem exception_signals_witness:
  "\<exists>s'. exception \<lparr>c_cr0 = 0, c_cr2 = 0, c_xecode = 0\<rparr> (zero_regs\<lparr>r_cs := USER_CS\<rparr>) 6
      (upd_curr (\<lambda>c. c\<lparr>p_ruid := 3\<rparr>) ex_procs) = Some ([], s') \<and> p_sig (cur s') = 8"
proof -
  let ?s = "upd_curr (\<lambda>c. c\<lparr>p_ruid := 3\<rparr>) ex_procs"
  have "p_ruid (cur ?s) = 3" "p_sig (cur ?s) = 0" "p_sig_ign (cur ?s) = 0"
    by (simp_all add: ex_procs_def zero_process_def upd_defs)
  then show ?thesis
    using exception_signals [of "zero_regs\<lparr>r_cs := USER_CS\<rparr>" 6 SIGILL "\<lparr>c_cr0 = 0, c_cr2 = 0, c_xecode = 0\<rparr>" ?s]
    by (auto simp: exc_sig_def sigbit_def)
qed

section \<open>Returning\<close>

lemma push_handlers_sig:
  assumes "push_handlers e usr is r s = Some (Some r', s')" and "r_cs r mod 4 \<noteq> 0"
  shows "sig_view s' = sig_view s \<and> r_cs r' mod 4 \<noteq> 0"
  using assms
proof (induction "is" arbitrary: r s)
  case (Cons i xs)
  show ?case
  proof (cases "bit usr (i - 1)")
    case True
    then obtain r1 s1 where 1: "pushsig1 e i r s = Some (Some r1, s1)" "push_handlers e usr xs r1 s1 = Some (Some r', s')"
      using Cons.prems by (auto simp: bind_eq_Some_conv split: option.splits)
    obtain r2 s2 where 2: "push_words [p_sigret1 (cur s), i, r_eip r] r s = Some (True, r2, s2)"
        "r1 = r2\<lparr>r_eip := unat (p_sig_proc (cur s2) (i - 1))\<rparr>" "s1 = s2"
      using 1(1) by (auto simp: pushsig1_def bind_eq_Some_conv split: if_splits)
    have "r_cs r2 = r_cs r" using 2(1) by (auto simp: push_words_def Let_def)
    moreover have "sig_view s2 = sig_view s" using pnd.push_words_keep [OF refl 2(1)] .
    ultimately show ?thesis using Cons.IH [OF 1(2)] 2 Cons.prems(2) by simp
  qed (use Cons in simp)
qed simp

lemma bind_alive:
  assumes "Option.bind m (\<lambda>(r, s). case r of None \<Rightarrow> Some (None, s)
      | Some r \<Rightarrow> (case f r s of None \<Rightarrow> Some (Some r, s) | Some i \<Rightarrow> map_option (Pair None) (g i r s))) = Some (Some r', s')"
  shows "m = Some (Some r', s')"
  using assms by (auto simp: bind_eq_Some_conv split: option.splits)

lemma push_alive:
  assumes "Option.bind m (\<lambda>(ok, r, s). if ok then h r s else map_option (Pair None) (p s)) = Some (Some r', s')"
  shows "\<exists>r2 s2. m = Some (True, r2, s2) \<and> h r2 s2 = Some (Some r', s')"
  using assms by (auto simp: bind_eq_Some_conv split: if_splits)

lemma pushsig_sig:
  assumes "pushsig e r s = Some (Some r', s')" and "r_cs r mod 4 \<noteq> 0"
  shows "curr s' = curr s \<and> p_sig (cur s') = 0 \<and> r_cs r' mod 4 \<noteq> 0"
proof -
  let ?s = "upd_curr (\<lambda>c. c\<lparr>p_sig := 0\<rparr>) s"
  let ?sig = "p_sig (cur s) AND NOT (p_sig_ign (cur s))"
  let ?usr = "?sig AND p_sig_usr (cur s)"
  have z: "sig_view ?s = (curr s, 0, p_sig_ign (cur s))" by (simp add: sig_view_def upd_defs)
  have u: "p_sig_usr (cur ?s) = p_sig_usr (cur s)" by (simp add: upd_defs)
  show ?thesis
  proof (cases "?sig = 0 \<or> ?usr = 0")
    case True
    then have "s' = ?s" "r' = r"
      using assms(1) by (auto simp: pushsig_def Let_def u split: if_splits option.splits)
    then show ?thesis using z assms(2) by (simp add: sig_view_def)
  next
    case False
    then have nz: "?sig \<noteq> 0" "?usr \<noteq> 0" by simp_all
    obtain r2 s2 where 2: "push_words [r_edi r, r_esi r, r_ebp r, r_esp r, r_ebx r, r_edx r, r_ecx r,
                   r_eax r, r_eflags r, r_eip r, r_cs r] (r\<lparr>r_eip := p_sigret (cur ?s), r_cs := 0x1B\<rparr>) ?s = Some (True, r2, s2)"
        "push_handlers e ?usr [1..<NSIG] r2 (upd_curr (\<lambda>c. c\<lparr>p_sig_usr := p_sig_usr c AND NOT ?usr\<rparr>) s2) = Some (Some r', s')"
      using push_alive [OF bind_alive [OF assms(1) [unfolded pushsig_def Let_def u if_not_P [OF nz(1)] if_not_P [OF nz(2)]]]]
      by blast
    have "sig_view (upd_curr (\<lambda>c. c\<lparr>p_sig_usr := p_sig_usr c AND NOT ?usr\<rparr>) s2) = sig_view ?s"
      using pnd.push_words_keep [OF refl 2(1)] by (auto simp: sig_view_def upd_defs)
    moreover have "r_cs r2 mod 4 \<noteq> 0" using 2(1) by (auto simp: push_words_def Let_def)
    ultimately show ?thesis using push_handlers_sig [OF 2(2)] z by (auto simp: sig_view_def)
  qed
qed


interpretation flg: um_frame "\<lambda>s. (sig_view s, dosync s, resched s)"
  by unfold_locales (simp_all add: sig_view_def upd_defs)

lemma psync_sig: "psync late s = Some s' \<Longrightarrow> sig_view s' = sig_view s \<and> dosync s' = dosync s \<and> resched s' = resched s"
  using flg.keepsD [OF flg.psync_keep [OF refl]] by simp

lemma intr_return_spec:
  assumes "intr_return e r s = Some (Some r', s')" and "r_cs r mod 4 \<noteq> 0"
  shows "p_sig (cur s') = 0 \<and> \<not> dosync s' \<and> \<not> resched s' \<and> r_cs r' mod 4 \<noteq> 0"
proof -
  have "x = (Some r', s') \<longrightarrow> r_cs r mod 4 \<noteq> 0 \<longrightarrow>
      p_sig (cur s') = 0 \<and> \<not> dosync s' \<and> \<not> resched s' \<and> r_cs r' mod 4 \<noteq> 0" if "intr_return e r s = Some x" for x
    using that
  proof (induction rule: intr_return.raw_induct [rotated, consumes 1, case_names step])
    case (step f e r s x)
    show ?case
    proof (intro impI)
      assume x: "x = (Some r', s')" and u: "r_cs r mod 4 \<noteq> 0"
      obtain r1 s1 where 1: "(if p_sig (cur s) \<noteq> 0 then pushsig e r s else Some (Some r, s)) = Some (Some r1, s1)"
          "Option.bind (if dosync s1 then psync (e_late e) (s1\<lparr>dosync := False\<rparr>) else Some s1)
            (\<lambda>s. if resched s then Option.bind (sched e s) (f e r1) else Some (Some r1, s)) = Some (Some r', s')"
        using step.hyps u unfolding x
        by (auto simp: bind_eq_Some_conv simp del: if_split split: option.splits)
      have s1: "curr s1 = curr s" "p_sig (cur s1) = 0" "r_cs r1 mod 4 \<noteq> 0"
        using 1(1) u pushsig_sig [of e r s r1 s1] by (auto split: if_splits)
      obtain s2 where 2: "(if dosync s1 then psync (e_late e) (s1\<lparr>dosync := False\<rparr>) else Some s1) = Some s2"
          "(if resched s2 then Option.bind (sched e s2) (f e r1) else Some (Some r1, s2)) = Some (Some r', s')"
        using 1(2) by (auto simp only: bind_eq_Some_conv)
      have s2: "p_sig (cur s2) = 0" "\<not> dosync s2"
        using 2(1) s1(2) psync_sig [of "e_late e" "s1\<lparr>dosync := False\<rparr>" s2] by (auto simp: sig_view_def split: if_splits)
      show "p_sig (cur s') = 0 \<and> \<not> dosync s' \<and> \<not> resched s' \<and> r_cs r' mod 4 \<noteq> 0"
      proof (cases "resched s2")
        case True
        then obtain s3 where "sched e s2 = Some s3" "f e r1 s3 = Some (Some r', s')"
          using 2(2) by (auto simp: bind_eq_Some_conv)
        then show ?thesis using step.IH s1(3) by blast
      qed (use 2(2) s1 s2 in auto)
    qed
  qed
  then show ?thesis using assms by blast
qed


definition clean :: "kst \<Rightarrow> bool" where
  "clean s \<longleftrightarrow> p_sig (cur s) = 0 \<and> \<not> dosync s \<and> \<not> resched s"

lemma intr_return_now: "clean s \<Longrightarrow> intr_return e r s = Some (Some r, s)"
  by (subst intr_return.simps) (simp add: clean_def)

text \<open>
  Property C26. A program never goes on while a signal is pending, the disks are to be written back or
  another process is to run: when \<open>intr_return\<close> comes back to a user program, all this has
  been done, and the program is still outside the kernel. With nothing to do it returns at once
  and changes nothing, and when another process is to run, it returns after that.
\<close>

theorem intr_return_clean:
  assumes "r_cs r mod 4 \<noteq> 0"
  shows "when_returns (intr_return e r s) (\<lambda>(r', s'). case r' of None \<Rightarrow> True | Some r' \<Rightarrow> clean s' \<and> r_cs r' mod 4 \<noteq> 0)
    \<and> (clean s \<longrightarrow> intr_return e r s = Some (Some r, s))
    \<and> (p_sig (cur s) = 0 \<and> \<not> dosync s \<and> resched s \<longrightarrow>
        (\<forall>t. e_run e (s\<lparr>resched := False\<rparr>) = Some t \<and> clean t \<longrightarrow> intr_return e r s = Some (Some r, t)))"
proof -
  have "intr_return e r s = Some (Some r, t)"
    if "p_sig (cur s) = 0" "\<not> dosync s" "resched s" "e_run e (s\<lparr>resched := False\<rparr>) = Some t" "clean t" for t
    using that assms by (subst intr_return.simps) (simp add: sched_def intr_return_now)
  moreover have "when_returns (intr_return e r s) (\<lambda>(r', s'). case r' of None \<Rightarrow> True | Some r' \<Rightarrow> clean s' \<and> r_cs r' mod 4 \<noteq> 0)"
  proof (rule when_returnsI)
    fix x assume x: "intr_return e r s = Some x"
    show "case x of (r', s') \<Rightarrow> (case r' of None \<Rightarrow> True | Some r' \<Rightarrow> clean s' \<and> r_cs r' mod 4 \<noteq> 0)"
    proof (cases "fst x")
      case (Some r')
      then have "intr_return e r s = Some (Some r', snd x)" using x by (cases x) simp
      then show ?thesis using intr_return_spec [OF _ assms] Some by (cases x) (auto simp: clean_def)
    qed (cases x, simp)
  qed
  ultimately show ?thesis using intr_return_now by blast
qed

theorem intr_return_clean_witness:
  "intr_return (idle_env\<lparr>e_run := Some\<rparr>) (zero_regs\<lparr>r_cs := USER_CS\<rparr>) (ex_procs\<lparr>resched := True\<rparr>)
    = Some (Some (zero_regs\<lparr>r_cs := USER_CS\<rparr>), ex_procs)"
  using intr_return_clean [of "zero_regs\<lparr>r_cs := USER_CS\<rparr>" "idle_env\<lparr>e_run := Some\<rparr>" "ex_procs\<lparr>resched := True\<rparr>"]
  by (simp add: clean_def ex_procs_def zero_kst_def zero_process_def)

end
