(* ===== verification/Console.thy ===== *)
theory Console
  imports Ttyld
begin

unbundle bit_operations_syntax

text \<open>
  The console: \<open>kern/console.c\<close>, the screen driver \<open>kern/dv/condev.c\<close> and the keyboard,
  \<open>kern/pckbd.c\<close>. The variables of these files are the record \<open>con\<close>. \<open>con_fbuf\<close> is the memory of
  the video card from the frame buffer on, of which the screen is the first 25 times 80 cells; the
  registers of its cursor are the last value that was written to them.
\<close>

section \<open>The screen\<close>

abbreviation (input) "NCOL \<equiv> (80::nat)"
abbreviation (input) "NLIN \<equiv> (25::nat)"
abbreviation (input) "VGASZ \<equiv> (4000::nat)"
abbreviation (input) "DMESG \<equiv> (4096::nat)" \<comment> \<open>the size of \<open>dmesg\<close>\<close>

record con =
  con_fbuf :: "nat \<Rightarrow> 16 word"
  con_attr :: "16 word"
  con_kattr :: "16 word"
  con_x :: nat
  con_y :: nat
  con_cursor :: "byte \<times> byte"
  dmesg :: "byte list"
  dmesgi :: nat
  cd_uattr :: "16 word"
  cd_battr :: "16 word"
  cd_attr0 :: "16 word"
  cd_attr :: "16 word"
  cd_bold :: bool
  cd_inv :: bool
  cd_und :: bool
  cd_ctrl :: nat

definition con_setcursor :: "con \<Rightarrow> con" where
  "con_setcursor c =
     (let p = con_x c + con_y c * NCOL in c\<lparr>con_cursor := (of_nat (p div 256), of_nat p)\<rparr>)"

text \<open>A loop that assigns to the cells of a range of indices.\<close>

definition set_cells :: "nat \<Rightarrow> nat \<Rightarrow> (nat \<Rightarrow> (nat \<Rightarrow> 16 word) \<Rightarrow> 16 word) \<Rightarrow> con \<Rightarrow> con" where
  "set_cells lo hi v c = c\<lparr>con_fbuf := fold (\<lambda>i f. f(i := v i f)) [lo..<hi] (con_fbuf c)\<rparr>"

lemma set_cells_simps [simp]:
  "con_x (set_cells lo hi v c) = con_x c" "con_y (set_cells lo hi v c) = con_y c"
  "con_attr (set_cells lo hi v c) = con_attr c" "con_kattr (set_cells lo hi v c) = con_kattr c"
  "con_cursor (set_cells lo hi v c) = con_cursor c" "dmesg (set_cells lo hi v c) = dmesg c"
  "dmesgi (set_cells lo hi v c) = dmesgi c"
  by (simp_all add: set_cells_def)

definition con_clear :: "con \<Rightarrow> con" where
  "con_clear c =
     (let c = con_setcursor (c\<lparr>con_x := 0, con_y := 0\<rparr>)
      in set_cells 0 (NCOL * NLIN) (\<lambda>_ _. con_attr c OR 0x20) c)"

text \<open>With the argument \<open>m\<close>, the memory of the other card.\<close>

definition con_mono :: "(nat \<Rightarrow> 16 word) \<Rightarrow> con \<Rightarrow> con" where
  "con_mono m c = c\<lparr>con_fbuf := m, con_attr := 0x0700, con_kattr := 0x0F00\<rparr>"

definition con_init :: "int \<Rightarrow> (nat \<Rightarrow> 16 word) \<Rightarrow> con \<Rightarrow> con" where
  "con_init cnmode m c = con_clear (if cnmode = 7 then con_mono m c else c)"

definition con_chrxy :: "nat \<Rightarrow> nat \<Rightarrow> byte \<Rightarrow> 16 word \<Rightarrow> con \<Rightarrow> con" where
  "con_chrxy x y ch attr c =
     (let i = x + y * NCOL in
      if i \<ge> NLIN * NCOL then c
      else c\<lparr>con_fbuf := (con_fbuf c)(i := ucast ch OR attr)\<rparr>)"

definition con_scroll :: "16 word \<Rightarrow> con \<Rightarrow> con" where
  "con_scroll attr c =
     set_cells (NCOL * (NLIN - 1)) (NCOL * NLIN) (\<lambda>_ _. attr OR 0x20)
       (set_cells 0 (NCOL * (NLIN - 1)) (\<lambda>i f. f (i + NCOL)) c)"

function con_cscroll :: "16 word \<Rightarrow> con \<Rightarrow> con" where
  "con_cscroll attr c =
     (if con_y c \<ge> NLIN then con_cscroll attr ((con_scroll attr c)\<lparr>con_y := con_y c - 1\<rparr>) else c)"
  by pat_completeness auto
termination by (relation "measure (con_y \<circ> snd)") auto

declare con_cscroll.simps [simp del]

text \<open>
  A character that is shown, which is the default case of \<open>con_putca\<close>; \<open>con_putsp\<close> is the call of
  \<open>con_putca\<close> with a space, by which a tab is written.
\<close>

definition con_put1 :: "byte \<Rightarrow> 16 word \<Rightarrow> con \<Rightarrow> con" where
  "con_put1 ch attr c =
     (let c = (if con_x c \<ge> NCOL then c\<lparr>con_x := 0, con_y := con_y c + 1\<rparr> else c);
          c = con_cscroll attr c;
          c = con_chrxy (con_x c) (con_y c) ch attr c
      in c\<lparr>con_x := con_x c + 1\<rparr>)"

definition con_putsp :: "16 word \<Rightarrow> con \<Rightarrow> con" where
  "con_putsp attr c = con_setcursor (con_put1 0x20 attr c)"

lemma con_x_put [simp]: "con_x (con_put1 ch attr c) = (if con_x c \<ge> NCOL then 1 else con_x c + 1)"
proof -
  have x: "con_x (con_cscroll attr c) = con_x c" for c
    by (induction attr c rule: con_cscroll.induct)
      (subst con_cscroll.simps, simp add: con_scroll_def)
  show ?thesis by (simp add: con_put1_def Let_def x con_chrxy_def)
qed

lemma con_x_putsp [simp]: "con_x (con_putsp attr c) = (if con_x c \<ge> NCOL then 1 else con_x c + 1)"
  by (simp add: con_putsp_def con_setcursor_def Let_def)

function con_tab :: "16 word \<Rightarrow> con \<Rightarrow> con" where
  "con_tab attr c = (if con_x c mod 8 \<noteq> 0 then con_tab attr (con_putsp attr c) else c)"
  by pat_completeness auto
termination
proof (relation "measure (\<lambda>(_, c). if con_x c mod 8 = 0 then 0 else if con_x c \<ge> NCOL then 9 else (NCOL - con_x c) mod 8)", simp)
  fix attr :: "16 word" and c :: con
  assume m: "con_x c mod 8 \<noteq> 0"
  have "(NCOL - (con_x c + 1)) mod 8 < (NCOL - con_x c) mod 8" if "con_x c < 79"
  proof -
    have "\<not> 8 dvd NCOL - con_x c"
    proof
      assume "8 dvd NCOL - con_x c"
      then have "8 dvd NCOL - (NCOL - con_x c)" by (rule dvd_diff_nat [rotated]) simp
      moreover have "NCOL - (NCOL - con_x c) = con_x c" using that by simp
      ultimately show False using m by (simp add: dvd_eq_mod_eq_0)
    qed
    moreover have "NCOL - con_x c = Suc (NCOL - (con_x c + 1))" using that by simp
    ultimately show ?thesis by (auto simp: dvd_eq_mod_eq_0 mod_Suc split: if_splits)
  qed
  then show "((attr, con_putsp attr c), attr, c) \<in> measure (\<lambda>(_, c). if con_x c mod 8 = 0 then 0 else if con_x c \<ge> NCOL then 9 else (NCOL - con_x c) mod 8)"
    using m by (cases "con_x c = 79") auto
qed

declare con_tab.simps [simp del]

definition con_putca :: "byte \<Rightarrow> 16 word \<Rightarrow> con \<Rightarrow> con" where
  "con_putca ch attr c = con_setcursor
     (if ch = 0 then c
      else if ch = 12 then con_clear c
      else if ch = 13 then c\<lparr>con_x := 0\<rparr>
      else if ch = 10 then con_cscroll attr (c\<lparr>con_x := 0, con_y := con_y c + 1\<rparr>)
      else if ch = 7 then c
      else if ch = 8 then (if con_x c \<noteq> 0 then c\<lparr>con_x := con_x c - 1\<rparr> else c)
      else if ch = 9 then con_tab attr (con_putsp attr c)
      else con_put1 ch attr c)"

definition con_putsa :: "byte list \<Rightarrow> 16 word \<Rightarrow> con \<Rightarrow> con" where
  "con_putsa s attr c = fold (\<lambda>ch. con_putca ch attr) s c"

definition con_putk :: "byte \<Rightarrow> con \<Rightarrow> con" where
  "con_putk ch c =
     con_putca ch (con_kattr c) (c\<lparr>dmesg := (dmesg c)[dmesgi c := ch], dmesgi := (dmesgi c + 1) mod DMESG\<rparr>)"

definition con_putc :: "byte \<Rightarrow> con \<Rightarrow> con" where
  "con_putc ch c = con_putca ch (con_attr c) c"

definition con_puts :: "byte list \<Rightarrow> con \<Rightarrow> con" where
  "con_puts s c = fold con_putk s c"

section \<open>The messages of the kernel\<close>

text \<open>
  \<open>sys__dmesg\<close> copies what is in the ring, from the oldest character but one on, and leaves out the zeros.
  The characters are stored one by one, after the whole range has been checked.
\<close>

definition dmesg_text :: "con \<Rightarrow> byte list" where
  "dmesg_text c = filter (\<lambda>ch. ch \<noteq> 0) (map (\<lambda>k. dmesg c ! ((dmesgi c + 1 + k) mod DMESG)) [0..<DMESG - 1])"

definition sys__dmesg :: "con \<Rightarrow> nat \<Rightarrow> 32 word \<Rightarrow> kst \<Rightarrow> (int \<times> kst) option" where
  "sys__dmesg c buf len s = sysret
     (if unat len < DMESG then fail EINVAL s
      else bindE (uwchk buf DMESG s) (\<lambda>_ s.
        map_option (\<lambda>s. (Inr (int (length (dmesg_text c))), s)) (ustore buf (dmesg_text c) s)))"

section \<open>The screen driver\<close>

text \<open>
  \<open>con_cwrite\<close> is what the line discipline calls for a character: an escape character and one or
  more characters after it are a command. \<open>cd_ctrl\<close> is its static variable \<open>ctrl\<close>.
\<close>

definition con_clreol :: "con \<Rightarrow> con" where
  "con_clreol c = set_cells (con_y c * NCOL + con_x c) (con_y c * NCOL + NCOL) (\<lambda>_ _. 0x20 OR cd_attr c) c"

definition cd_nattr :: "con \<Rightarrow> con" where
  "cd_nattr c =
     (let a = cd_attr0 c;
          a = (if cd_bold c \<and> a AND 0x0F00 = 0x0700 then (a AND 0xF0FF) OR cd_battr c else a);
          a = (if cd_und c then (a AND 0xF0FF) OR cd_uattr c else a);
          a = (if cd_inv c then push_bit 4 (cd_attr0 c AND 0x0F00) OR drop_bit 4 (cd_attr0 c AND 0xF000) else a);
          a = (if cd_bold c then a OR 0x0800 else a)
      in c\<lparr>cd_attr := a\<rparr>)"

definition con_command :: "byte \<Rightarrow> con \<Rightarrow> con" where
  "con_command ch c =
     (if ch = 0x75 then (set_cells 0 (VGASZ div 2 - NCOL) (\<lambda>i _. con_fbuf c (i + NCOL)) c)\<lparr>cd_ctrl := 0\<rparr>
      else if ch = 0x64 then (set_cells NCOL (VGASZ div 2) (\<lambda>i _. con_fbuf c (i - NCOL)) c)\<lparr>cd_ctrl := 0\<rparr>
      else if ch = 0x70 then c\<lparr>cd_ctrl := 2\<rparr>
      else if ch = 0x50 then c\<lparr>cd_ctrl := 4\<rparr>
      else if ch = 0x68 then (con_setcursor (c\<lparr>con_x := 0, con_y := 0\<rparr>))\<lparr>cd_ctrl := 0\<rparr>
      else if ch = 0x69 then (cd_nattr (c\<lparr>cd_inv := True\<rparr>))\<lparr>cd_ctrl := 0\<rparr>
      else if ch = 0x49 then (cd_nattr (c\<lparr>cd_inv := False\<rparr>))\<lparr>cd_ctrl := 0\<rparr>
      else if ch = 0x6E then (cd_nattr (c\<lparr>cd_und := True\<rparr>))\<lparr>cd_ctrl := 0\<rparr>
      else if ch = 0x4E then (cd_nattr (c\<lparr>cd_und := False\<rparr>))\<lparr>cd_ctrl := 0\<rparr>
      else if ch = 0x62 then (cd_nattr (c\<lparr>cd_bold := True\<rparr>))\<lparr>cd_ctrl := 0\<rparr>
      else if ch = 0x42 then (cd_nattr (c\<lparr>cd_bold := False\<rparr>))\<lparr>cd_ctrl := 0\<rparr>
      else if ch = 0x55 then
        (if con_y c \<noteq> 0 then con_setcursor (c\<lparr>con_y := con_y c - 1\<rparr>) else c)\<lparr>cd_ctrl := 0\<rparr>
      else if ch = 0x43 then (con_clreol c)\<lparr>cd_ctrl := 0\<rparr>
      else (con_putca ch (cd_attr c) (con_putca 27 (cd_attr c) c))\<lparr>cd_ctrl := 0\<rparr>)"

definition con_cwrite :: "byte \<Rightarrow> con \<Rightarrow> con" where
  "con_cwrite ch c =
     (if cd_ctrl c = 1 then con_command ch c
      else if cd_ctrl c = 2 then c\<lparr>con_x := unat ch, cd_ctrl := 3\<rparr>
      else if cd_ctrl c = 3 then (con_setcursor (c\<lparr>con_y := unat ch\<rparr>))\<lparr>cd_ctrl := 0\<rparr>
      else if cd_ctrl c = 4 then c\<lparr>con_y := unat (ch - 0x20), cd_ctrl := 5\<rparr>
      else if cd_ctrl c = 5 then (con_setcursor (c\<lparr>con_x := unat (ch - 0x20)\<rparr>))\<lparr>cd_ctrl := 0\<rparr>
      else if ch = 27 then c\<lparr>cd_ctrl := 1\<rparr>
      else con_putca ch (cd_attr c) c)"

text \<open>The bytes of the screen, as the device \<open>vga\<close> shows them.\<close>

definition vga_bytes :: "con \<Rightarrow> byte list" where
  "vga_bytes c = concat (map (\<lambda>i. le16 (unat (con_fbuf c i))) [0..<VGASZ div 2])"

definition vga_chk :: "rwreq \<Rightarrow> bool" where
  "vga_chk req \<longleftrightarrow> sint (rw_start req) < int VGASZ \<and> (unat (rw_start req) + rw_count req) mod 2 ^ 32 \<le> VGASZ"

definition vga_read :: "rwreq \<Rightarrow> con \<Rightarrow> kst \<Rightarrow> rwreq res" where
  "vga_read req c s =
     (if \<not> vga_chk req then fail EFAULT s
      else if sint (rw_start req) < 0 then None
      else bindE (tucpy (rw_buf req) (take (rw_count req) (drop (unat (rw_start req)) (vga_bytes c))) s) (\<lambda>_ s.
        Some (Inr (req\<lparr>rw_start := rw_start req + of_nat (rw_count req)\<rparr>), s)))"

definition vga_write :: "rwreq \<Rightarrow> con \<Rightarrow> kst \<Rightarrow> ((errno + rwreq \<times> con) \<times> kst) option" where
  "vga_write req c s =
     (if \<not> vga_chk req then fail EFAULT s
      else if sint (rw_start req) < 0 then None
      else bindE (fucpy (rw_buf req) (rw_count req) s) (\<lambda>bs s.
        let m = splice (unat (rw_start req)) bs (vga_bytes c);
            c = set_cells 0 (VGASZ div 2) (\<lambda>i _. of_nat (rd16 m (2 * i))) c
        in Some (Inr (req\<lparr>rw_start := rw_start req + of_nat (rw_count req)\<rparr>, c), s)))"

text \<open>The part of \<open>condev_init\<close> that sets up the colours; the rest fills in the table of drivers.\<close>

definition condev_init :: "int \<Rightarrow> con \<Rightarrow> con" where
  "condev_init cnmode c = c\<lparr>cd_attr0 := con_attr c, cd_attr := con_attr c,
     cd_battr := (if cnmode = 7 then 0x0F00 else 0x0E00), cd_uattr := (if cnmode = 7 then 0x0100 else 0x0B00)\<rparr>"

section \<open>The keyboard\<close>

abbreviation (input) "KBUF \<equiv> (64::nat)" \<comment> \<open>\<open>PCKBD_BUFSIZE\<close>\<close>

record kbd =
  kb_buf :: "byte list"
  kb_shift :: "32 word"
  kb_outp :: nat
  kb_inp :: nat

abbreviation (input) "SHIFT \<equiv> (1 :: 32 word)"
abbreviation (input) "CTRL \<equiv> (2 :: 32 word)"
abbreviation (input) "ALT \<equiv> (4 :: 32 word)"

definition pckbd_keys :: "byte list \<Rightarrow> byte list \<Rightarrow> byte list \<Rightarrow> byte list \<Rightarrow> byte \<Rightarrow> byte list" where
  "pckbd_keys ks1 ks2 ks3 ks4 bs =
     [0, 0x1B] @ ks1 @ [8, 9] @ ks2 @ [10, 0] @ ks3 @ [0, bs] @ ks4
     @ [0, 0x2A, 0, 0x20] @ replicate 14 0 @ bytes ''k'' @ [0] @ bytes ''-h5l+'' @ [0] @ bytes ''j'' @ [0, 0, 127, 0, 0, bs]
     @ replicate 41 0"

definition pckbd_dfltmap :: "byte list" where
  "pckbd_dfltmap = pckbd_keys (bytes ''1234567890-='') (bytes ''qwertyuiop[]'') (bytes ''asdfghjkl;'' @ [0x27, 0x60])
     (bytes ''zxcvbnm,./'') 0x5C"

definition pckbd_shiftmap :: "byte list" where
  "pckbd_shiftmap = pckbd_keys (bytes ''!@#$%^&*()_+'') (bytes ''QWERTYUIOP{}'') (bytes ''ASDFGHJKL:'' @ [0x22, 0x7E])
     (bytes ''ZXCVBNM<>?'') 0x7C"

definition pckbd_altmap :: "byte list" where
  "pckbd_altmap = pckbd_dfltmap"

text \<open>A character is an \<open>unsigned\<close> in the buffer; 0 also means that there is none.\<close>

definition con_kbhit :: "kbd \<Rightarrow> byte" where
  "con_kbhit k = (if kb_inp k = kb_outp k then 0 else kb_buf k ! kb_outp k)"

text \<open>\<open>con_getch\<close> waits, with interrupts, until there is a character; here is the case that there is one.\<close>

definition con_getch :: "kbd \<Rightarrow> (byte \<times> kbd) option" where
  "con_getch k =
     (if con_kbhit k = 0 then None
      else Some (con_kbhit k, k\<lparr>kb_outp := (kb_outp k + 1) mod KBUF\<rparr>))"

text \<open>\<open>kb_store\<close> is the part of \<open>pckbd_put\<close> behind \<open>ttyld_intr\<close>; the bell is not heard.\<close>

definition kb_store :: "byte \<Rightarrow> kbd \<Rightarrow> kbd" where
  "kb_store ch k = k\<lparr>kb_buf := (kb_buf k)[kb_inp k := ch], kb_inp := (kb_inp k + 1) mod KBUF\<rparr>"

definition pckbd_put :: "tty \<Rightarrow> byte \<Rightarrow> kbd \<times> con \<Rightarrow> kst \<Rightarrow> (kbd \<times> con) \<times> kst" where
  "pckbd_put t ch kc s =
     (case ttyld_intr t ch s of
        (True, s) \<Rightarrow> (kc, s)
      | (False, s) \<Rightarrow>
          let k = kb_store ch (fst kc)
          in ((k, if kb_inp k = kb_outp k then con_putc 7 (snd kc) else snd kc), s))"

text \<open>What a scan code means: the new state of the modifiers, and the character if there is one.\<close>

definition kb_press :: "nat \<Rightarrow> 32 word \<Rightarrow> 32 word" where
  "kb_press code m =
     (if code \<in> {0x1D, 0x3A} then m OR CTRL
      else if code \<in> {0x2A, 0x36} then m OR SHIFT
      else if code = 0x38 then m OR ALT
      else m)"

definition kb_release :: "nat \<Rightarrow> 32 word \<Rightarrow> 32 word" where
  "kb_release code m =
     (if code \<in> {0x1D, 0x3A} then m AND NOT CTRL
      else if code \<in> {0x2A, 0x36} then m AND NOT SHIFT
      else if code = 0x38 then m AND NOT ALT
      else m)"

definition kb_char :: "nat \<Rightarrow> 32 word \<Rightarrow> byte" where
  "kb_char code m =
     (let c = pckbd_dfltmap ! code;
          c = (if m AND SHIFT \<noteq> 0 then pckbd_shiftmap ! code else c);
          c = (if m AND ALT \<noteq> 0 then pckbd_altmap ! code else c)
      in if m AND CTRL \<noteq> 0 then c AND 31 else c)"

text \<open>
  The interrupt, with the code that the keyboard has sent. \<open>None\<close> is \<open>pckbd_reset\<close>; the debug key
  prints nothing in the kernel as it is configured.
\<close>

definition pckbd_intr :: "tty \<Rightarrow> byte \<Rightarrow> kbd \<times> con \<Rightarrow> kst \<Rightarrow> ((kbd \<times> con) \<times> kst) option" where
  "pckbd_intr t code kc s =
     (let (k, c) = kc; m = kb_shift k in
      if code = 0x53 \<and> m AND CTRL \<noteq> 0 \<and> m AND ALT \<noteq> 0 then None
      else
        let m = kb_press (unat code) m;
            m = (if code AND 0x80 \<noteq> 0 then kb_release (unat (code AND 0x7F)) m else m);
            k = k\<lparr>kb_shift := m\<rparr>
        in if code AND 0x80 \<noteq> 0 then Some ((k, c), s)
           else
             let ch = kb_char (unat code) m in
             if ch = 0x64 \<and> m = ALT then Some ((k, c), s)
             else if ch \<noteq> 0 then Some (pckbd_put t ch (k, c) s)
             else Some ((k, c), s))"

text \<open>
  \<open>con_cread\<close> is what the line discipline calls to read a character. Interrupts arrive while it waits in
  \<open>idle\<close>, which is the argument \<open>wait\<close>.
\<close>

partial_function (option) con_cread :: "(kbd \<Rightarrow> kst \<Rightarrow> (kbd \<times> kst) option) \<Rightarrow> bool \<Rightarrow> kbd \<Rightarrow> kst
    \<Rightarrow> ((errno + byte) \<times> kbd \<times> kst) option" where
  "con_cread wait nodelay k s =
     (case con_getch k of
        Some (ch, k) \<Rightarrow> Some (Inr ch, k, s)
      | None \<Rightarrow>
          if nodelay then Some (Inl EAGAIN, k, s)
          else if p_sig (cur s) \<noteq> 0 then Some (Inl EINTR, k, s)
          else Option.bind (wait k s) (\<lambda>(k, s). con_cread wait nodelay k s))"

lemma keymap_lengths: "length pckbd_dfltmap = 128" "length pckbd_shiftmap = 128"
  by (simp_all add: pckbd_dfltmap_def pckbd_shiftmap_def pckbd_keys_def bytes_def)

text \<open>A modifier that is pressed and released again leaves the state as it was, if it was not held.\<close>

lemma kb_release_press: "kb_release code (kb_press code m) = kb_release code m"
  by (auto simp: kb_release_def kb_press_def intro!: bit_word_eqI simp: bit_simps)

section \<open>The screen is a window\<close>

text \<open>
  What is printed is a roll of paper that only grows: the lines that are finished, and the line in which
  the next character goes, with its column. The screen shows the last 25 lines of the roll.
\<close>

record roll =
  ro_lines :: "16 word list list"
  ro_line :: "16 word list"
  ro_col :: nat

definition blank :: "16 word \<Rightarrow> 16 word list" where
  "blank attr = replicate NCOL (attr OR 0x20)"

definition roll_new :: "16 word \<Rightarrow> roll" where
  "roll_new attr = \<lparr>ro_lines = [], ro_line = blank attr, ro_col = 0\<rparr>"

definition roll_nl :: "16 word \<Rightarrow> roll \<Rightarrow> roll" where
  "roll_nl attr r = \<lparr>ro_lines = ro_lines r @ [ro_line r], ro_line = blank attr, ro_col = 0\<rparr>"

definition roll_put :: "16 word \<Rightarrow> byte \<Rightarrow> roll \<Rightarrow> roll" where
  "roll_put attr ch r =
     (let r = (if ro_col r \<ge> NCOL then roll_nl attr r else r)
      in r\<lparr>ro_line := (ro_line r)[ro_col r := ucast ch OR attr], ro_col := ro_col r + 1\<rparr>)"

definition roll_char :: "16 word \<Rightarrow> byte \<Rightarrow> roll \<Rightarrow> roll" where
  "roll_char attr ch r =
     (if ch = 0 \<or> ch = 7 then r
      else if ch = 12 then roll_new attr
      else if ch = 13 then r\<lparr>ro_col := 0\<rparr>
      else if ch = 10 then roll_nl attr r
      else if ch = 8 then r\<lparr>ro_col := ro_col r - 1\<rparr>
      else if ch = 9 then (roll_put attr 0x20 ^^ (8 - ro_col r mod 8)) r
      else roll_put attr ch r)"

definition roll_ok :: "roll \<Rightarrow> bool" where
  "roll_ok r \<longleftrightarrow> length (ro_line r) = NCOL \<and> ro_col r \<le> NCOL"

definition roll_cell :: "16 word \<Rightarrow> roll \<Rightarrow> nat \<Rightarrow> nat \<Rightarrow> 16 word" where
  "roll_cell attr r i k =
     (let n = length (ro_lines r); j = i + (n - (NLIN - 1))
      in if j < n then ro_lines r ! j ! k else if j = n then ro_line r ! k else attr OR 0x20)"

definition window :: "con \<Rightarrow> roll \<Rightarrow> bool" where
  "window c r \<longleftrightarrow> roll_ok r \<and> con_x c = ro_col r \<and> con_y c = min (length (ro_lines r)) (NLIN - 1)
     \<and> (\<forall>i < NLIN. \<forall>k < NCOL. con_fbuf c (i * NCOL + k) = roll_cell (con_attr c) r i k)"

text \<open>Loops over the cells.\<close>

lemma fbuf_set_cells: "con_fbuf (set_cells lo hi (\<lambda>i _. g i) c) i = (if lo \<le> i \<and> i < hi then g i else con_fbuf c i)"
proof -
  have "fold (\<lambda>i f. f(i := g i)) [lo..<hi] f i = (if lo \<le> i \<and> i < hi then g i else f i)" for f :: "nat \<Rightarrow> 16 word"
    by (induction hi) auto
  then show ?thesis by (simp add: set_cells_def)
qed

lemma fbuf_move_cells: "con_fbuf (set_cells 0 hi (\<lambda>i f. f (i + n)) c) i = (if i < hi then con_fbuf c (i + n) else con_fbuf c i)"
proof -
  have "fold (\<lambda>i f. f(i := f (i + n))) [0..<hi] f i = (if i < hi then f (i + n) else f i)" for f :: "nat \<Rightarrow> 16 word"
    by (induction hi arbitrary: i) auto
  then show ?thesis by (simp add: set_cells_def)
qed

lemma con_scroll_simps [simp]:
  "con_x (con_scroll a c) = con_x c" "con_y (con_scroll a c) = con_y c" "con_attr (con_scroll a c) = con_attr c"
  by (simp_all add: con_scroll_def)

lemma fbuf_scroll: "con_fbuf (con_scroll a c) i =
    (if i < 1920 then con_fbuf c (i + NCOL) else if i < 2000 then a OR 0x20 else con_fbuf c i)"
  by (simp add: con_scroll_def fbuf_set_cells fbuf_move_cells)

lemma con_setcursor_simps [simp]:
  "con_x (con_setcursor c) = con_x c" "con_y (con_setcursor c) = con_y c" "con_attr (con_setcursor c) = con_attr c"
  "con_fbuf (con_setcursor c) = con_fbuf c"
  by (simp_all add: con_setcursor_def Let_def)

lemma window_setcursor [simp]: "window (con_setcursor c) r = window c r"
  by (simp add: window_def)

lemma cell_at: "k < NCOL \<Longrightarrow> (i * NCOL + k) div NCOL = i \<and> (i * NCOL + k) mod NCOL = k"
  by simp

text \<open>The card's memory behind the screen.\<close>

definition behind :: "con \<Rightarrow> con \<Rightarrow> bool" where
  "behind c c' \<longleftrightarrow> con_attr c' = con_attr c \<and> (\<forall>i \<ge> 2000. con_fbuf c' i = con_fbuf c i)"

lemma behind_refl [simp]: "behind c c" and behind_trans: "behind c d \<Longrightarrow> behind d e \<Longrightarrow> behind c e"
  by (simp_all add: behind_def)

lemma behind_setcursor [simp]: "behind c (con_setcursor d) = behind c d"
  by (simp add: behind_def)

lemma window_nl:
  assumes "window c r"
  shows "window (con_cscroll (con_attr c) (c\<lparr>con_x := 0, con_y := con_y c + 1\<rparr>)) (roll_nl (con_attr c) r)
    \<and> behind c (con_cscroll (con_attr c) (c\<lparr>con_x := 0, con_y := con_y c + 1\<rparr>))"
proof -
  let ?n = "length (ro_lines r)" and ?c = "c\<lparr>con_x := 0, con_y := con_y c + 1\<rparr>" and ?r = "roll_nl (con_attr c) r"
  have w: "con_y c = min ?n 24" "length (ro_line r) = NCOL"
    and cell: "\<And>i k. i < 25 \<Longrightarrow> k < 80 \<Longrightarrow> con_fbuf c (i * 80 + k) = roll_cell (con_attr c) r i k"
    using assms by (simp_all add: window_def roll_ok_def)
  show ?thesis
  proof (cases "?n < 24")
    case True
    then have "con_cscroll (con_attr c) ?c = ?c" using w by (subst con_cscroll.simps) simp
    moreover have "roll_cell (con_attr c) ?r i k = roll_cell (con_attr c) r i k" if "i < 25" "k < 80" for i k
      using True that by (auto simp: roll_cell_def roll_nl_def nth_append Let_def blank_def)
    ultimately show ?thesis
      using True w cell by (auto simp: window_def roll_ok_def roll_nl_def blank_def behind_def)
  next
    case False
    let ?d = "(con_scroll (con_attr c) ?c)\<lparr>con_y := 24\<rparr>"
    have d: "con_cscroll (con_attr c) ?c = ?d"
      using False w by (subst con_cscroll.simps, simp, subst con_cscroll.simps) simp
    have "con_fbuf ?d (i * 80 + k) = roll_cell (con_attr c) ?r i k" if ik: "i < 25" "k < 80" for i k
    proof (cases "i < 24")
      case True
      have "con_fbuf ?d (i * 80 + k) = con_fbuf c ((i + 1) * 80 + k)"
        using True ik by (simp add: fbuf_scroll algebra_simps)
      also have "\<dots> = roll_cell (con_attr c) r (i + 1) k" using cell [of "i + 1" k] True ik by simp
      also have "\<dots> = roll_cell (con_attr c) ?r i k"
      proof -
        obtain m where "?n = m + 24" using False by (metis add.commute le_Suc_ex not_less)
        then show ?thesis using True ik by (auto simp: roll_cell_def roll_nl_def nth_append Let_def blank_def)
      qed
      finally show ?thesis .
    next
      case False
      then have "con_fbuf ?d (i * 80 + k) = con_attr c OR 0x20" using ik by (simp add: fbuf_scroll)
      then show ?thesis using \<open>\<not> ?n < 24\<close> False ik by (auto simp: roll_cell_def roll_nl_def Let_def blank_def)
    qed
    then show ?thesis unfolding d using False
      by (auto simp: window_def roll_ok_def roll_nl_def blank_def behind_def fbuf_scroll)
  qed
qed

lemma cscroll_y: "con_y (con_cscroll a c) < NLIN"
  by (induction a c rule: con_cscroll.induct) (subst con_cscroll.simps, simp)

lemma cscroll_id: "con_y c < NLIN \<Longrightarrow> con_cscroll a c = c"
  by (subst con_cscroll.simps) simp

lemma window_put_line:
  assumes "window c r" and "ro_col r < NCOL"
  shows "window (con_put1 ch (con_attr c) c) (roll_put (con_attr c) ch r) \<and> behind c (con_put1 ch (con_attr c) c)"
proof -
  let ?n = "length (ro_lines r)" and ?v = "ucast ch OR con_attr c :: 16 word"
  have w: "con_x c = ro_col r" "con_y c = min ?n 24" "length (ro_line r) = NCOL"
    and cell: "\<And>i k. i < 25 \<Longrightarrow> k < 80 \<Longrightarrow> con_fbuf c (i * 80 + k) = roll_cell (con_attr c) r i k"
    using assms by (simp_all add: window_def roll_ok_def)
  let ?p = "ro_col r + con_y c * 80"
  have put: "con_put1 ch (con_attr c) c = c\<lparr>con_fbuf := (con_fbuf c)(?p := ?v), con_x := ro_col r + 1\<rparr>"
    using w assms(2) by (simp add: con_put1_def cscroll_id con_chrxy_def Let_def)
  have "((con_fbuf c)(?p := ?v)) (i * 80 + k) = roll_cell (con_attr c) (roll_put (con_attr c) ch r) i k" if ik: "i < 25" "k < 80" for i k
  proof -
    have "i * 80 + k = ?p \<longleftrightarrow> i = con_y c \<and> k = ro_col r"
      using cell_at [OF ik(2), of i] cell_at [OF assms(2), of "con_y c"] by (metis add.commute)
    then show ?thesis
      using cell [OF ik] ik w assms(2) by (auto simp: roll_cell_def roll_put_def Let_def min_def split: if_splits)
  qed
  then show ?thesis
    using w assms(2) by (auto simp: window_def roll_ok_def put roll_put_def behind_def)
qed

lemma window_put:
  assumes "window c r"
  shows "window (con_put1 ch (con_attr c) c) (roll_put (con_attr c) ch r) \<and> behind c (con_put1 ch (con_attr c) c)"
proof (cases "ro_col r < NCOL")
  case True
  then show ?thesis using window_put_line [OF assms] by blast
next
  case False
  let ?a = "con_attr c"
  let ?c = "con_cscroll ?a (c\<lparr>con_x := 0, con_y := con_y c + 1\<rparr>)"
  have nl: "window ?c (roll_nl ?a r)" "behind c ?c" using window_nl [OF assms] by blast+
  have a: "con_attr ?c = ?a" using nl(2) by (simp add: behind_def)
  have x: "con_x ?c = 0" using nl(1) by (simp add: window_def roll_nl_def)
  have "con_put1 ch ?a c = con_put1 ch ?a ?c"
    using False assms x by (simp add: window_def con_put1_def Let_def cscroll_id cscroll_y)
  moreover have "roll_put ?a ch r = roll_put ?a ch (roll_nl ?a r)"
    using False by (simp add: roll_put_def Let_def roll_nl_def)
  ultimately show ?thesis
    using window_put_line [OF nl(1)] nl(2) a by (auto simp: roll_nl_def intro: behind_trans)
qed

lemma window_tab:
  assumes "window c r" and "con_attr c = a"
  shows "window (con_tab a c) ((roll_put a 0x20 ^^ ((8 - ro_col r mod 8) mod 8)) r) \<and> behind c (con_tab a c)"
  using assms
proof (induction a c arbitrary: r rule: con_tab.induct)
  case (1 a c)
  have x: "con_x c = ro_col r" "ro_col r \<le> 80" using "1.prems" by (simp_all add: window_def roll_ok_def)
  show ?case
  proof (cases "ro_col r mod 8 = 0")
    case True
    then show ?thesis using x "1.prems" by (subst (1 2) con_tab.simps) simp
  next
    case False
    let ?r = "roll_put a 0x20 r"
    have lt: "ro_col r < 80" using False x by (cases "ro_col r = 80") auto
    have p: "window (con_putsp a c) ?r" "behind c (con_putsp a c)"
      using window_put [OF "1.prems"(1), of "0x20"] "1.prems"(2) by (simp_all add: con_putsp_def)
    have "ro_col ?r = ro_col r + 1" using lt by (simp add: roll_put_def Let_def)
    then have "(8 - ro_col r mod 8) mod 8 = Suc ((8 - ro_col ?r mod 8) mod 8)"
      using False by (auto simp: mod_Suc)
    then have "(roll_put a 0x20 ^^ ((8 - ro_col r mod 8) mod 8)) r = (roll_put a 0x20 ^^ ((8 - ro_col ?r mod 8) mod 8)) ?r"
      by (simp add: funpow_swap1)
    then show ?thesis
      using False x p "1.IH" [of ?r] "1.prems"(2) by (subst (1 2) con_tab.simps) (auto simp: behind_def)
  qed
qed

lemma window_clear: "window (con_clear c) (roll_new (con_attr c)) \<and> behind c (con_clear c)"
  by (auto simp: con_clear_def Let_def window_def roll_ok_def roll_new_def roll_cell_def blank_def behind_def fbuf_set_cells)

lemma window_char:
  assumes "window c r"
  shows "window (con_putc ch c) (roll_char (con_attr c) ch r) \<and> behind c (con_putc ch c)"
proof -
  let ?a = "con_attr c"
  have x: "con_x c = ro_col r" "ro_col r \<le> 80" using assms by (simp_all add: window_def roll_ok_def)
  consider "ch = 0" | "ch = 7" | "ch = 12" | "ch = 13 \<or> ch = 8" | "ch = 10" | "ch = 9"
    | "ch \<notin> {0, 7, 8, 9, 10, 12, 13}" by blast
  then show ?thesis
  proof cases
    case 4
    then show ?thesis using assms by (auto simp: con_putc_def con_putca_def roll_char_def window_def roll_ok_def roll_cell_def behind_def Let_def)
  next
    case 6
    have p: "window (con_putsp ?a c) (roll_put ?a 0x20 r)" "behind c (con_putsp ?a c)"
      using window_put [OF assms, of "0x20"] by (simp_all add: con_putsp_def)
    have "(8 - ro_col r mod 8) = Suc ((8 - ro_col (roll_put ?a 0x20 r) mod 8) mod 8)"
      using x(2) by (cases "ro_col r = 80") (auto simp: roll_put_def roll_nl_def Let_def mod_Suc)
    then have "roll_char ?a ch r = (roll_put ?a 0x20 ^^ ((8 - ro_col (roll_put ?a 0x20 r) mod 8) mod 8)) (roll_put ?a 0x20 r)"
      using 6 by (simp add: roll_char_def funpow_swap1)
    then show ?thesis
      using 6 p window_tab [OF p(1), of ?a] by (auto simp: con_putc_def con_putca_def behind_def)
  qed (use assms window_clear window_nl [OF assms] window_put [OF assms] in
      \<open>simp_all add: con_putc_def con_putca_def roll_char_def\<close>)
qed

text \<open>
  Property C27. The screen is a window on what has been printed: after \<open>con_init\<close> it shows an empty roll, and
  when it shows a roll, then after any text it shows the last 25 lines of the roll on which the text
  has been written, with the cursor where the next character goes. Nothing behind
  the screen is written to.
\<close>

theorem console_window:
  assumes "window c r"
  shows "let c' = fold con_putc cs c; r' = fold (roll_char (con_attr c)) cs r in window c' r' \<and> behind c c'
    \<and> (cs \<noteq> [] \<longrightarrow> con_cursor c' = (let p = ro_col r' + NCOL * min (length (ro_lines r')) (NLIN - 1) in (of_nat (p div 256), of_nat p)))
    \<and> (let d = con_init cnmode m c in window d (roll_new (con_attr d)))"
proof -
  have w: "window (fold con_putc cs c) (fold (roll_char (con_attr c)) cs r) \<and> behind c (fold con_putc cs c)"
    using assms(1)
  proof (induction cs arbitrary: c r)
    case (Cons ch cs)
    from window_char [OF Cons.prems, of ch] show ?case
      using Cons.IH [of "con_putc ch c" "roll_char (con_attr c) ch r"] by (auto simp: behind_def)
  qed simp
  define c' where "c' = fold con_putc cs c"
  have "con_cursor c' = (let p = con_x c' + con_y c' * NCOL in (of_nat (p div 256), of_nat p))" if "cs \<noteq> []"
    using that unfolding c'_def
    by (induction cs rule: rev_induct) (simp_all add: con_putc_def con_putca_def con_setcursor_def Let_def)
  moreover have "con_x c' = ro_col r'" "con_y c' = min (length (ro_lines r')) (NLIN - 1)"
    if "r' = fold (roll_char (con_attr c)) cs r" for r'
    using w that by (simp_all add: window_def c'_def)
  moreover have "let d = con_init cnmode m c in window d (roll_new (con_attr d))"
    using window_clear [of "if cnmode = 7 then con_mono m c else c"] by (simp add: con_init_def behind_def Let_def)
  ultimately show ?thesis
    using w by (simp add: c'_def Let_def mult.commute)
qed

theorem console_window_witness:
  "\<exists>c. window c (roll_new 0x0700) \<and> window (fold con_putc (bytes ''ok'') c)
     \<lparr>ro_lines = [], ro_line = [0x076F, 0x076B] @ replicate 78 0x0720, ro_col = 2\<rparr>"
proof -
  define d where "d = \<lparr>con_fbuf = (\<lambda>_. 0), con_attr = 0, con_kattr = 0, con_x = 0, con_y = 0,
    con_cursor = (0, 0), dmesg = [], dmesgi = 0, cd_uattr = 0, cd_battr = 0, cd_attr0 = 0, cd_attr = 0,
    cd_bold = False, cd_inv = False, cd_und = False, cd_ctrl = 0\<rparr>"
  define c where "c = con_init 7 (\<lambda>_. 0) d"
  have a: "con_attr c = 0x0700" by (simp add: c_def con_init_def con_mono_def con_clear_def Let_def)
  have c: "window c (roll_new 0x0700)"
    using window_clear [of "con_mono (\<lambda>_. 0) d"] by (simp add: c_def con_init_def con_mono_def)
  have "replicate 80 (0x0720 :: 16 word) = replicate (Suc (Suc 78)) 0x0720" by simp
  then have b: "blank 0x0700 = 0x0720 # 0x0720 # replicate 78 0x0720" by (simp only: blank_def replicate_Suc) simp
  have eq: "fold (roll_char 0x0700) (bytes ''ok'') (roll_new 0x0700)
      = \<lparr>ro_lines = [], ro_line = [0x076F, 0x076B] @ replicate 78 0x0720, ro_col = 2\<rparr>"
    by (simp add: bytes_def roll_char_def roll_put_def roll_new_def b Let_def)
  have "window (fold con_putc (bytes ''ok'') c) (fold (roll_char (con_attr c)) (bytes ''ok'') (roll_new 0x0700))"
    using console_window [OF c, of "bytes ''ok''"] unfolding Let_def by blast
  then show ?thesis using c unfolding a eq by blast
qed

end
