(* ===== verification/Mkfs.thy ===== *)
theory Mkfs
  imports Dir Super
begin

unbundle bit_operations_syntax

text \<open>
  \<open>cmd/sbin/mkfs.c\<close>, which makes a file system, empty or with a copy of a directory. What it writes is
  read with the kernel's own layout of super blocks, inodes and directories. The device is a function
  from the numbers of its blocks; \<open>None\<close> is an exit with a message. The directory that is copied is
  a tree, an argument, with what \<open>stat\<close>, \<open>readdir\<close> and \<open>read\<close> say of it.
\<close>

section \<open>The state\<close>

abbreviation (input) "BMAP_SIZE \<equiv> (64::nat)"
abbreviation (input) "IBMAP_SIZE \<equiv> (57::nat)"
abbreviation (input) "MAXLNK \<equiv> (64::nat)"

record link =
  l_sdev :: nat
  l_sino :: nat
  l_nino :: nat
  l_nlink :: "16 word"

record mkfs =
  mk_sb :: super
  mk_img :: "nat \<Rightarrow> byte list"
  mk_wok :: "nat \<Rightarrow> bool" \<comment> \<open>whether the device accepts a write of this block\<close>
  mk_links :: "link list"
  mk_time :: "32 word"
  mk_pflag :: bool

record mfile =
  mf_nlink :: nat
  mf_mode :: nat
  mf_blocks :: nat
  mf_size :: nat
  mf_bmap :: "nat list"
  mf_ibmap :: "nat list option list"
  mf_inode :: nat
  mf_uid :: nat
  mf_gid :: nat
  mf_rdev :: nat
  mf_dents :: "byte list list"

section \<open>Blocks\<close>

definition put_block :: "nat \<Rightarrow> byte list \<Rightarrow> mkfs \<Rightarrow> mkfs option" where
  "put_block blk b k = (if mk_wok k blk then Some (k\<lparr>mk_img := (mk_img k)(blk := b)\<rparr>) else None)"

definition writeblock :: "nat \<Rightarrow> byte list \<Rightarrow> mkfs \<Rightarrow> mkfs option" where
  "writeblock blk buf k =
     (if length buf > BLK_SIZE then None else put_block blk (buf @ replicate (BLK_SIZE - length buf) 0) k)"

definition wsuper :: "mkfs \<Rightarrow> mkfs option" where
  "wsuper k = writeblock 1 (encode_super (mk_sb k)) k"

definition allocblk :: "mkfs \<Rightarrow> (nat \<times> mkfs) option" where
  "allocblk k =
     (if s_nblocks (mk_sb k) = s_freeblk (mk_sb k) then None
      else Some (s_freeblk (mk_sb k), k\<lparr>mk_sb := (mk_sb k)\<lparr>s_freeblk := s_freeblk (mk_sb k) + 1\<rparr>\<rparr>))"

text \<open>One block of the map, when \<open>nb\<close> blocks are still to be marked as used.\<close>

definition map_block :: "nat \<Rightarrow> byte list" where
  "map_block nb =
     (let (nbits, l1) = (if nb \<ge> 4096 then (0, 512) else if nb \<noteq> 0 then (nb mod 8, nb div 8) else (0, 0));
          buf = replicate l1 (255 :: byte) @ replicate (512 - l1) 0
      in if nbits \<noteq> 0 then buf[l1 := drop_bit (8 - nbits) 255] else buf)"

fun initmap_loop :: "nat \<Rightarrow> nat \<Rightarrow> nat \<Rightarrow> mkfs \<Rightarrow> mkfs option" where
  "initmap_loop 0 blk nb k = Some k"
| "initmap_loop (Suc n) blk nb k =
     Option.bind (put_block blk (map_block nb) k)
       (initmap_loop n (blk + 1) (if nb \<ge> 4096 then nb - 4096 else 0))"

definition initmap :: "mkfs \<Rightarrow> mkfs option" where
  "initmap k = initmap_loop ((s_nblocks (mk_sb k) + 4095) div 4096) (s_bitmap (mk_sb k)) (s_freeblk (mk_sb k)) k"

section \<open>Files\<close>

definition file_init :: "mkfs \<Rightarrow> (mfile \<times> mkfs) option" where
  "file_init k = map_option (\<lambda>(b, k).
     (\<lparr>mf_nlink = 1, mf_mode = 0, mf_blocks = 0, mf_size = 0, mf_bmap = replicate BMAP_SIZE 0,
       mf_ibmap = replicate IBMAP_SIZE None, mf_inode = b, mf_uid = 0, mf_gid = 0, mf_rdev = 0, mf_dents = []\<rparr>, k)) (allocblk k)"

definition file_addblock :: "mfile \<Rightarrow> byte list \<Rightarrow> mkfs \<Rightarrow> (mfile \<times> mkfs) option" where
  "file_addblock f buf k =
     (if buf = [] then Some (f, k)
      else do {
        (blk, k) \<leftarrow> allocblk k;
        k \<leftarrow> writeblock blk buf k;
        f \<leftarrow> (if mf_blocks f \<ge> BMAP_SIZE then
                let m = (mf_blocks f - BMAP_SIZE) div 128; idx = (mf_blocks f - BMAP_SIZE) mod 128 in
                if m \<ge> IBMAP_SIZE then None
                else
                  let t = (case mf_ibmap f ! m of None \<Rightarrow> replicate 128 0 | Some t \<Rightarrow> t)
                  in Some (f\<lparr>mf_ibmap := (mf_ibmap f)[m := Some (t[idx := blk])]\<rparr>)
              else Some (f\<lparr>mf_bmap := (mf_bmap f)[mf_blocks f := blk]\<rparr>));
        Some (f\<lparr>mf_size := mf_blocks f * BLK_SIZE + length buf, mf_blocks := mf_blocks f + 1\<rparr>, k)
      })"

text \<open>The entries that are not yet written.\<close>

definition file_flushent :: "mfile \<Rightarrow> mkfs \<Rightarrow> (mfile \<times> mkfs) option" where
  "file_flushent f k = map_option (\<lambda>(f, k). (f\<lparr>mf_dents := []\<rparr>, k)) (file_addblock f (concat (mf_dents f)) k)"

definition dirent_of :: "nat \<Rightarrow> byte list \<Rightarrow> byte list" where
  "dirent_of ino name = le32 ino @ take NAME_MAX (name @ replicate NAME_MAX 0)"

definition file_addent :: "mfile \<Rightarrow> nat \<Rightarrow> byte list \<Rightarrow> mkfs \<Rightarrow> (mfile \<times> mkfs) option" where
  "file_addent f ino name k =
     map_option (\<lambda>(f, k). (f\<lparr>mf_dents := mf_dents f @ [dirent_of ino name]\<rparr>, k))
       (if length (mf_dents f) \<ge> DIRENTS then file_flushent f k else Some (f, k))"

text \<open>The indirect maps of a file, each in a block of its own.\<close>

fun write_ibmaps :: "nat list option list \<Rightarrow> mkfs \<Rightarrow> (nat list \<times> mkfs) option" where
  "write_ibmaps [] k = Some ([], k)"
| "write_ibmaps (None # ts) k = map_option (\<lambda>(bs, k). (0 # bs, k)) (write_ibmaps ts k)"
| "write_ibmaps (Some t # ts) k = do {
     (b, k) \<leftarrow> allocblk k;
     k \<leftarrow> writeblock b (le32s t) k;
     (bs, k) \<leftarrow> write_ibmaps ts k;
     Some (b # bs, k)
   }"

definition file_close :: "mfile \<Rightarrow> mkfs \<Rightarrow> (mfile \<times> mkfs) option" where
  "file_close f k = do {
     (f, k) \<leftarrow> file_flushent f k;
     (ib, k) \<leftarrow> write_ibmaps (mf_ibmap f) k;
     let di = \<lparr>bmap0 = mf_bmap f, bmap1 = take BMAP1_SIZE ib, bmap2 = drop BMAP1_SIZE ib,
               d_atime = mk_time k, d_mtime = mk_time k, d_ctime = mk_time k, d_size = of_nat (mf_size f),
               d_blocks = of_nat (mf_blocks f + length (filter (\<lambda>t. t \<noteq> None) (mf_ibmap f))),
               d_uid = of_nat (mf_uid f), d_gid = of_nat (mf_gid f), d_rdev = of_nat (mf_rdev f),
               d_mode = of_nat (mf_mode f), d_nlink = of_nat (mf_nlink f)\<rparr>;
     k \<leftarrow> writeblock (mf_inode f) (encode_dinode di) k;
     Some (f, k)
   }"

text \<open>The entries \<open>.\<close> and \<open>..\<close>; the caller adds the link of the parent.\<close>

definition file_mkdirhead :: "mfile \<Rightarrow> nat \<Rightarrow> mkfs \<Rightarrow> (mfile \<times> mkfs) option" where
  "file_mkdirhead dir parent k = do {
     (dir, k) \<leftarrow> file_addent dir (mf_inode dir) DOT k;
     file_addent dir parent DOTDOT k
   }"

section \<open>Copying a tree\<close>

record hstat =
  h_dev :: nat
  h_ino :: nat
  h_nlink :: nat
  h_mode :: nat
  h_uid :: nat
  h_gid :: nat
  h_rdev :: nat

text \<open>A file with what its reads return, or a directory with its entries but \<open>.\<close> and \<open>..\<close>.\<close>

datatype host = Host hstat hosts "byte list list" and hosts = Hnil | Hcons "byte list" host hosts

definition translate_mode :: "nat \<Rightarrow> nat" where
  "translate_mode m = m mod 4096 + (if m div 4096 mod 16 \<in> {8, 1, 2, 6, 4} then m div 4096 mod 16 * 4096 else 0)"

fun file_copy :: "mfile \<Rightarrow> byte list list \<Rightarrow> mkfs \<Rightarrow> (mfile \<times> mkfs) option" where
  "file_copy f [] k = Some (f, k)"
| "file_copy f (b # bs) k = Option.bind (file_addblock f b k) (\<lambda>(f, k). file_copy f bs k)"

definition same_file :: "hstat \<Rightarrow> link \<Rightarrow> bool" where
  "same_file st l \<longleftrightarrow> l_sino l = h_ino st \<and> l_sdev l = h_dev st"

definition find_link :: "hstat \<Rightarrow> link list \<Rightarrow> nat option" where
  "find_link st ls = (if h_nlink st > 1 then find (\<lambda>i. same_file st (ls ! i)) [0..<length ls] else None)"

definition new_link :: "hstat \<Rightarrow> nat \<Rightarrow> mkfs \<Rightarrow> mkfs" where
  "new_link st ino k =
     (if h_nlink st > 1 \<and> length (mk_links k) < MAXLNK
      then k\<lparr>mk_links := mk_links k @ [\<lparr>l_sdev = h_dev st, l_sino = h_ino st, l_nino = ino, l_nlink = 1\<rparr>]\<rparr> else k)"

text \<open>
  \<open>file_adds\<close> is the loop of \<open>file_copydir\<close>. The names that are made in the directory \<open>dir\<close> are those of
  its entries in the tree.
\<close>

fun file_add :: "mfile \<Rightarrow> byte list \<Rightarrow> host \<Rightarrow> mkfs \<Rightarrow> (mfile \<times> mkfs) option"
  and file_adds :: "mfile \<Rightarrow> hosts \<Rightarrow> mkfs \<Rightarrow> (mfile \<times> mkfs) option" where
  "file_add dir name (Host st hs reads) k =
     (case find_link st (mk_links k) of
        Some i \<Rightarrow>
          map_option (\<lambda>(dir, k). (dir, k\<lparr>mk_links := (mk_links k)[i := (mk_links k ! i)\<lparr>l_nlink := l_nlink (mk_links k ! i) + 1\<rparr>]\<rparr>))
            (file_addent dir (l_nino (mk_links k ! i)) name k)
      | None \<Rightarrow> do {
          (f, k) \<leftarrow> file_init k;
          let f = f\<lparr>mf_mode := translate_mode (h_mode st), mf_uid := (if mk_pflag k then h_uid st else 0),
                    mf_gid := (if mk_pflag k then h_gid st else 0), mf_rdev := h_rdev st\<rparr>;
          (f, dir, k) \<leftarrow>
            (if h_mode st div 4096 mod 16 = 4 then do {
               (f, k) \<leftarrow> file_mkdirhead f (mf_inode dir) k;
               (f, k) \<leftarrow> file_adds f hs k;
               Some (f, dir\<lparr>mf_nlink := mf_nlink dir + 1\<rparr>, k)
             }
             else if h_mode st div 4096 mod 16 = 8 then map_option (\<lambda>(f, k). (f, dir, k)) (file_copy f reads k)
             else Some (f, dir, k));
          (f, k) \<leftarrow> file_close f k;
          (dir, k) \<leftarrow> file_addent dir (mf_inode f) name k;
          Some (dir, new_link st (mf_inode f) k)
        })"
| "file_adds dir Hnil k = Some (dir, k)"
| "file_adds dir (Hcons name h hs) k = Option.bind (file_add dir name h k) (\<lambda>(dir, k). file_adds dir hs k)"

definition patch_link :: "link \<Rightarrow> mkfs \<Rightarrow> mkfs" where
  "patch_link l k = k\<lparr>mk_img := (mk_img k)(l_nino l := splice 510 (le16 (unat (l_nlink l))) (mk_img k (l_nino l)))\<rparr>"

definition patchlinks :: "mkfs \<Rightarrow> mkfs" where
  "patchlinks k = fold patch_link (mk_links k) k"

definition makeroot :: "hosts option \<Rightarrow> mkfs \<Rightarrow> mkfs option" where
  "makeroot tree k = do {
     (root, k) \<leftarrow> file_init k;
     let root = root\<lparr>mf_mode := 0x4000 + 0x1ED\<rparr>;
     (root, k) \<leftarrow> file_mkdirhead root (mf_inode root) k;
     let root = root\<lparr>mf_nlink := mf_nlink root + 1\<rparr>;
     (root, k) \<leftarrow>
       (case tree of
          None \<Rightarrow> Some (root, k)
        | Some hs \<Rightarrow> map_option (\<lambda>(root, k). (root, patchlinks k)) (file_adds root hs k));
     (root, k) \<leftarrow> file_close root k;
     Some (k\<lparr>mk_sb := (mk_sb k)\<lparr>s_root := mf_inode root\<rparr>\<rparr>)
   }"

text \<open>\<open>mkfs_main\<close> for a device with \<open>nblocks\<close> blocks, and the block of the map.\<close>

definition mkfs_main :: "nat \<Rightarrow> nat \<Rightarrow> 32 word \<Rightarrow> bool \<Rightarrow> (nat \<Rightarrow> bool) \<Rightarrow> hosts option \<Rightarrow> (nat \<Rightarrow> byte list)
    \<Rightarrow> mkfs option" where
  "mkfs_main nblocks bitmap t pflag wok tree img =
     (let dblock = (nblocks + 4095) div 4096 + bitmap;
          sb = \<lparr>s_mounted = 0, s_ro = 0, s_dev = 2 ^ 32 - 1, s_bitmap = bitmap, s_dblock = dblock, s_nblocks = nblocks,
                s_freeblk = dblock, s_nfree = 0, s_root = 2 ^ 32 - 1, s_time = unat t\<rparr>
      in if nblocks > 2000000 \<or> nblocks < 8 \<or> bitmap < 2 then None
         else do {
           k \<leftarrow> makeroot tree \<lparr>mk_sb = sb, mk_img = img, mk_wok = wok, mk_links = [], mk_time = t, mk_pflag = pflag\<rparr>;
           k \<leftarrow> initmap k;
           wsuper k
         })"

section \<open>The map of used blocks\<close>

lemma map_block_bits:
  shows "length (map_block nb) = 512"
    and "i < 4096 \<Longrightarrow> map_bit (map_block nb) i = (i < nb)"
proof -
  show "length (map_block nb) = 512" by (simp add: map_block_def Let_def)
  assume i: "i < 4096"
  have b255i: "bit (255 :: int) j = (j < 8)" for j
  proof -
    have "(255 :: int) = mask 8" by (simp add: mask_eq_exp_minus_1)
    then show ?thesis by (simp only: bit_mask_iff) simp
  qed
  have i8: "i div 8 < 512" "i mod 8 < 8" using i by auto
  show "map_bit (map_block nb) i = (i < nb)"
  proof (cases "nb \<ge> 4096 \<or> nb = 0")
    case True
    then show ?thesis using i i8 by (auto simp: map_block_def map_bit_def nth_append b255i)
  next
    case False
    then have l: "nb div 8 < 512" "nb div 8 * 8 + nb mod 8 = nb" by auto
    have e: "i div 8 * 8 + i mod 8 = i" by simp
    consider "i div 8 < nb div 8" | "i div 8 = nb div 8" | "i div 8 > nb div 8" by linarith
    then show ?thesis
    proof cases
      case 1
      then have "i < nb" using l e i8 by linarith
      then show ?thesis using 1 False i8 l by (auto simp: map_block_def map_bit_def nth_append b255i Let_def)
    next
      case 2
      then have "(i < nb) = (i mod 8 < nb mod 8)" using l e by linarith
      then show ?thesis using 2 False i8 l by (auto simp: map_block_def map_bit_def nth_append b255i Let_def bit_simps)
    next
      case 3
      then have "\<not> i < nb" using l e i8 by linarith
      then show ?thesis using 3 False i8 l by (auto simp: map_block_def map_bit_def nth_append Let_def)
    qed
  qed
qed

lemma initmap_loop_spec:
  assumes "\<forall>b. blk \<le> b \<and> b < blk + n \<longrightarrow> mk_wok k b"
  shows "initmap_loop n blk nb k = Some (k\<lparr>mk_img := (\<lambda>b. if blk \<le> b \<and> b < blk + n then map_block (nb - 4096 * (b - blk)) else mk_img k b)\<rparr>)"
  using assms
proof (induction n arbitrary: blk nb k)
  case (Suc n)
  let ?k = "k\<lparr>mk_img := (mk_img k)(blk := map_block nb)\<rparr>"
  have "initmap_loop (Suc n) blk nb k = initmap_loop n (blk + 1) (nb - 4096) ?k"
    using Suc.prems by (simp add: put_block_def)
  also have "\<dots> = Some (?k\<lparr>mk_img := (\<lambda>b. if blk + 1 \<le> b \<and> b < blk + 1 + n then map_block (nb - 4096 - 4096 * (b - (blk + 1))) else mk_img ?k b)\<rparr>)"
    by (rule Suc.IH) (use Suc.prems in auto)
  also have "\<dots> = Some (k\<lparr>mk_img := (\<lambda>b. if blk \<le> b \<and> b < blk + Suc n then map_block (nb - 4096 * (b - blk)) else mk_img k b)\<rparr>)"
  proof -
    have "nb - 4096 - 4096 * (b - (blk + 1)) = nb - 4096 * (b - blk)" if "blk + 1 \<le> b" for b
      using that by (simp add: algebra_simps)
    then show ?thesis by (auto simp: fun_eq_iff)
  qed
  finally show ?case .
next
  case 0
  have "(\<lambda>b. if blk \<le> b \<and> b < blk + 0 then map_block (nb - 4096 * (b - blk)) else mk_img k b) = mk_img k"
    by (auto simp: fun_eq_iff)
  then show ?case by simp
qed

text \<open>The map as the kernel loads it, from blocks one after the other.\<close>

lemma map_bit_concat:
  assumes "\<And>b. b \<in> set bs \<Longrightarrow> length (f b) = 512" and "i < 4096 * length bs"
  shows "map_bit (concat (map f bs)) i = map_bit (f (bs ! (i div 4096))) (i mod 4096)"
  using assms
proof (induction bs arbitrary: i)
  case (Cons b bs)
  show ?case
  proof (cases "i < 4096")
    case True
    then have "i div 8 < 512" by simp
    then show ?thesis using True Cons.prems(1) by (simp add: map_bit_def nth_append)
  next
    case False
    then obtain j where ij: "i = j + 4096" by (metis le_add_diff_inverse2 not_less)
    have d: "i div 8 = j div 8 + 512" "i mod 8 = j mod 8" "i div 4096 = j div 4096 + 1" "i mod 4096 = j mod 4096"
      using mod_mult_self2 [of j 8 512] by (simp_all add: ij)
    have "map_bit (concat (map f (b # bs))) i = map_bit (concat (map f bs)) j"
      using Cons.prems(1) by (simp add: map_bit_def nth_append d)
    also have "\<dots> = map_bit (f (bs ! (j div 4096))) (j mod 4096)"
      using Cons.prems ij by (intro Cons.IH) auto
    finally show ?thesis by (simp add: d)
  qed
qed simp

section \<open>An empty file system\<close>

definition root_inode :: "nat \<Rightarrow> 32 word \<Rightarrow> disk_inode" where
  "root_inode r t = zero_dinode\<lparr>bmap0 := (replicate 64 0)[0 := r + 1], d_atime := t, d_mtime := t, d_ctime := t,
     d_size := 64, d_blocks := 1, d_mode := 0x41ED, d_nlink := 2\<rparr>"

definition root_entries :: "nat \<Rightarrow> byte list" where
  "root_entries r = dirent_of r DOT @ dirent_of r DOTDOT @ replicate 448 0"

lemma length_dirent [simp]: "length (dirent_of ino name) = 32"
  by (simp add: dirent_of_def)

lemma dirent_ne [simp]: "dirent_of ino name \<noteq> []"
  by (simp add: dirent_of_def le32_def le16_def)

lemma write_no_ibmaps: "write_ibmaps (replicate n None) k = Some (replicate n 0, k)"
  by (induction n) simp_all

lemma makeroot_empty:
  assumes "s_freeblk (mk_sb k) = r" and "r + 2 \<le> s_nblocks (mk_sb k)" and "mk_wok k r" and "mk_wok k (r + 1)" and "r + 1 < 2 ^ 32"
  shows "makeroot None k = Some (k\<lparr>mk_sb := (mk_sb k)\<lparr>s_freeblk := r + 2, s_root := r\<rparr>,
    mk_img := (mk_img k)(r + 1 := root_entries r, r := encode_dinode (root_inode r (mk_time k)))\<rparr>)"
proof -
  have wf: "wf_dinode (root_inode r t)" for t
    using assms(5) by (auto simp: wf_dinode_def wf_blks_def root_inode_def zero_dinode_def dest!: set_update_subset_insert [THEN subsetD])
  have di: "\<lparr>bmap0 = (replicate 64 0)[0 := Suc r], bmap1 = replicate 32 0, bmap2 = replicate 25 0,
      d_atime = t, d_mtime = t, d_ctime = t, d_size = 64, d_blocks = 1, d_uid = 0, d_gid = 0, d_rdev = 0,
      d_mode = 0x41ED, d_nlink = 2\<rparr> = root_inode r t" for t
    by (simp add: root_inode_def zero_dinode_def)
  show ?thesis
    using assms(1-4)
    by (simp add: makeroot_def file_init_def allocblk_def file_mkdirhead_def file_addent_def file_close_def file_flushent_def
        file_addblock_def writeblock_def put_block_def write_no_ibmaps di wf root_entries_def Let_def)
qed


definition mkfs_super :: "nat \<Rightarrow> nat \<Rightarrow> 32 word \<Rightarrow> super" where
  "mkfs_super n bm t =
     (let dblock = (n + 4095) div 4096 + bm
      in \<lparr>s_mounted = 0, s_ro = 0, s_dev = 2 ^ 32 - 1, s_bitmap = bm, s_dblock = dblock, s_nblocks = n,
          s_freeblk = dblock + 2, s_nfree = 0, s_root = dblock, s_time = unat t\<rparr>)"

definition mkfs_image :: "nat \<Rightarrow> nat \<Rightarrow> 32 word \<Rightarrow> (nat \<Rightarrow> byte list) \<Rightarrow> nat \<Rightarrow> byte list" where
  "mkfs_image n bm t img b =
     (let dblock = (n + 4095) div 4096 + bm in
      if b = 1 then encode_super (mkfs_super n bm t) @ replicate 472 0
      else if bm \<le> b \<and> b < dblock then map_block (dblock + 2 - 4096 * (b - bm))
      else if b = dblock then encode_dinode (root_inode dblock t)
      else if b = dblock + 1 then root_entries dblock
      else img b)"

lemma mkfs_main_empty:
  assumes "8 \<le> n" "n \<le> 2000000" "2 \<le> bm" "(n + 4095) div 4096 + bm + 2 \<le> n" "\<forall>b < n. wok b"
  shows "\<exists>k. mkfs_main n bm t pflag wok None img = Some k \<and> mk_img k = mkfs_image n bm t img"
proof -
  define nb where "nb = (n + 4095) div 4096"
  define db where "db = nb + bm"
  have db: "db + 2 \<le> n" using assms(4) by (simp add: db_def nb_def)
  let ?sb = "\<lparr>s_mounted = 0, s_ro = 0, s_dev = 2 ^ 32 - 1, s_bitmap = bm, s_dblock = db, s_nblocks = n,
                s_freeblk = db, s_nfree = 0, s_root = 2 ^ 32 - 1, s_time = unat t\<rparr>"
  let ?k = "\<lparr>mk_sb = ?sb, mk_img = img, mk_wok = wok, mk_links = [], mk_time = t, mk_pflag = pflag\<rparr>"
  let ?k1 = "?k\<lparr>mk_sb := mkfs_super n bm t, mk_img := img(db + 1 := root_entries db, db := encode_dinode (root_inode db t))\<rparr>"
  have sup: "?sb\<lparr>s_freeblk := db + 2, s_root := db\<rparr> = mkfs_super n bm t"
    by (simp add: mkfs_super_def Let_def db_def nb_def)
  have "makeroot None ?k = Some (?k\<lparr>mk_sb := (mk_sb ?k)\<lparr>s_freeblk := db + 2, s_root := db\<rparr>,
      mk_img := (mk_img ?k)(db + 1 := root_entries db, db := encode_dinode (root_inode db (mk_time ?k)))\<rparr>)"
    by (rule makeroot_empty) (use db assms(2,5) in simp_all)
  then have 1: "makeroot None ?k = Some ?k1" using sup by simp
  have f: "s_nblocks (mkfs_super n bm t) = n" "s_bitmap (mkfs_super n bm t) = bm" "s_freeblk (mkfs_super n bm t) = db + 2"
    by (simp_all add: mkfs_super_def Let_def db_def nb_def)
  let ?k2 = "?k1\<lparr>mk_img := (\<lambda>b. if bm \<le> b \<and> b < bm + nb then map_block (db + 2 - 4096 * (b - bm)) else mk_img ?k1 b)\<rparr>"
  have "initmap_loop nb bm (db + 2) ?k1 = Some ?k2"
    by (rule initmap_loop_spec) (use db db_def assms(5) in auto)
  then have 2: "initmap ?k1 = Some ?k2" by (simp add: initmap_def f nb_def)
  have 3: "wsuper ?k2 = Some (?k2\<lparr>mk_img := (mk_img ?k2)(1 := encode_super (mkfs_super n bm t) @ replicate 472 0)\<rparr>)"
    using assms(1,5) by (simp add: wsuper_def writeblock_def put_block_def)
  have "mkfs_main n bm t pflag wok None img = Some (?k2\<lparr>mk_img := (mk_img ?k2)(1 := encode_super (mkfs_super n bm t) @ replicate 472 0)\<rparr>)"
    using assms(1-3) 1 2 3 by (simp add: mkfs_main_def Let_def db_def nb_def)
  moreover have "(mk_img ?k2)(1 := encode_super (mkfs_super n bm t) @ replicate 472 0) = mkfs_image n bm t img"
    using assms(3) by (auto simp: fun_eq_iff mkfs_image_def Let_def db_def nb_def)
  ultimately show ?thesis by simp
qed

section \<open>Mounting it\<close>

lemma hit_upd_maps [simp]:
  "hit (s\<lparr>freemap := z\<rparr>) = hit s" "hit (s\<lparr>freedirt := y\<rparr>) = hit s" "hit (upd_super i g s) = hit s"
  by (simp_all add: hit_def fun_eq_iff)

lemma blk_upd_maps [simp]:
  "blk_inv (s\<lparr>freemap := z\<rparr>) = blk_inv s" "blk_view (s\<lparr>freemap := z\<rparr>) = blk_view s"
  "blk_inv (s\<lparr>freedirt := y\<rparr>) = blk_inv s" "blk_view (s\<lparr>freedirt := y\<rparr>) = blk_view s"
  "blk_refs (s\<lparr>freemap := z\<rparr>) = blk_refs s"
  "blk_inv (upd_super i g s) = blk_inv s" "blk_view (upd_super i g s) = blk_view s" "blk_refs (upd_super i g s) = blk_refs s"
  by (simp_all add: blk_inv_def buf_ok_def writable_def blk_view_def blk_refs_def fun_eq_iff cong: option.case_cong)

lemma splice_splice:
  "length new = n \<Longrightarrow> i + n \<le> length old \<Longrightarrow> splice (i + n) rest (splice i new old) = splice i (new @ rest) old"
  by (simp add: splice_def add.assoc add.left_commute add.commute)

lemma load_blocks_spec:
  assumes "blk_inv s" and "freemap s m = Some fm" and "p + 512 * length bns \<le> length fm"
  shows "returns (load_blocks m bns p s) (\<lambda>(r, s'). blk_inv s' \<and> blk_view s' = blk_view s \<and> supers s' = supers s
    \<and> freedirt s' = freedirt s \<and> (r = Inr () \<longrightarrow> freemap s' m = Some (splice p (concat (map (blk_view s (s_dev (supers s m))) bns)) fm)))"
  using assms
proof (induction bns arbitrary: p fm s)
  case (Cons bn bns)
  show ?case
  proof (rule blk_read_spec [OF Cons.prems(1), of "s_dev (supers s m)" bn])
    fix b s1
    assume r: "blk_read (s_dev (supers s m)) bn s = Some (Inr b, s1)" "keeps_blks s s1" "bref_ok b"
      "b_data (bufs s1 b) = blk_view s (s_dev (supers s m)) bn" "blk_refs s1 = (blk_refs s)(b := Suc (blk_refs s b))"
    have k: "blk_inv s1" "blk_view s1 = blk_view s" "supers s1 = supers s" "freemap s1 = freemap s" "freedirt s1 = freedirt s"
      using r(2) blk_frame_simps [of s s1] by (simp_all add: keeps_blks_def)
    let ?d = "blk_view s (s_dev (supers s m)) bn"
    have len: "length ?d = 512" using blk_inv_buf [OF k(1) r(3)] r(4) by (simp add: buf_ok_def Let_def)
    let ?s2 = "s1\<lparr>freemap := (freemap s1)(m \<mapsto> splice p ?d fm)\<rparr>"
    obtain s3 where s3: "blk_put b ?s2 = Some s3" "keeps_blks ?s2 s3"
      using blk_put_spec [of ?s2 b] k(1) r(3,5) by auto
    have k3: "blk_inv s3" "blk_view s3 = blk_view s" "supers s3 = supers s" "freedirt s3 = freedirt s" "freemap s3 m = Some (splice p ?d fm)"
      using s3(2) blk_frame_simps [of ?s2 s3] k by (simp_all add: keeps_blks_def)
    have "load_blocks m (bn # bns) p s = load_blocks m bns (p + 512) s3"
      using r(1,4) k s3(1) Cons.prems(2,3) by simp
    moreover have "returns (load_blocks m bns (p + 512) s3) (\<lambda>(r, s'). blk_inv s' \<and> blk_view s' = blk_view s3 \<and> supers s' = supers s3
       \<and> freedirt s' = freedirt s3 \<and> (r = Inr () \<longrightarrow> freemap s' m = Some (splice (p + 512) (concat (map (blk_view s3 (s_dev (supers s3 m))) bns)) (splice p ?d fm))))"
      using Cons.prems(3) len k3 by (intro Cons.IH) (simp_all add: splice_def)
    ultimately show ?thesis
      using Cons.prems(3) len by (simp add: k3 splice_splice)
  next
    fix e s1
    assume "blk_read (s_dev (supers s m)) bn s = Some (Inl e, s1)" "keeps_blks s s1"
    then show ?thesis using blk_frame_simps [of s s1] by (simp add: keeps_blks_def)
  qed
qed (simp add: splice_def)


text \<open>What \<open>load_freemap\<close> leaves: the map is that of the disk, and covers all blocks.\<close>

lemma load_freemap_spec:
  assumes "blk_inv s" and "freemap s m = None" and "freedirt s m = None"
    and n: "s_nblocks (supers s m) + 4095 < 2 ^ 32" and "s_bitmap (supers s m) + map_blocks (supers s m) < 2 ^ 32"
    and len: "\<And>b. s_bitmap (supers s m) \<le> b \<Longrightarrow> b < s_bitmap (supers s m) + map_blocks (supers s m) \<Longrightarrow>
      length (blk_view s (s_dev (supers s m)) b) = 512"
  shows "returns (load_freemap m s) (\<lambda>(r, s'). blk_inv s' \<and> blk_view s' = blk_view s \<and> supers s' = supers s
    \<and> (r = Inr () \<longrightarrow> maps_ok m s' \<and> freemap s' m =
         Some (concat (map (blk_view s (s_dev (supers s m))) [s_bitmap (supers s m)..<s_bitmap (supers s m) + map_blocks (supers s m)]))))"
proof -
  let ?sb = "supers s m"
  let ?n = "s_nblocks ?sb"
  let ?sz = "((?n + 7) mod 2 ^ 32 div 8 + 511) div 512 * 512" and ?bns = "[s_bitmap ?sb..<s_bitmap ?sb + map_blocks ?sb]"
  have nb: "map_blocks ?sb = (?n + 4095) div 4096" using n by (simp add: map_blocks_def)
  have sz: "?sz = 512 * map_blocks ?sb" unfolding nb using n by simp
  show ?thesis
  proof (cases "\<not> kmalloc s ?sz \<or> \<not> kmalloc s (?sz div 512)")
    case True
    then show ?thesis using assms(1-3) by (auto simp: load_freemap_def Let_def)
  next
    case False
    let ?s = "s\<lparr>freemap := (freemap s)(m \<mapsto> replicate ?sz 0), freedirt := (freedirt s)(m \<mapsto> replicate (?sz div 512) False)\<rparr>"
    have l: "load_freemap m s = Option.bind (load_blocks m ?bns 0 ?s)
        (\<lambda>(r, s). Some (case r of Inl e \<Rightarrow> (Inl e, drop_freemap m s) | Inr _ \<Rightarrow> (Inr (), s)))"
      using False assms(2,3,5) by (simp add: load_freemap_def Let_def)
    have "returns (load_blocks m ?bns 0 ?s) (\<lambda>(r, s'). blk_inv s' \<and> blk_view s' = blk_view ?s \<and> supers s' = supers ?s
      \<and> freedirt s' = freedirt ?s \<and> (r = Inr () \<longrightarrow> freemap s' m = Some (splice 0 (concat (map (blk_view ?s (s_dev (supers ?s m))) ?bns)) (replicate ?sz 0))))"
      using assms(1) sz by (intro load_blocks_spec) simp_all
    moreover have c: "length (concat (map (blk_view s (s_dev ?sb)) ?bns)) = ?sz"
    proof -
      have eq: "map (length \<circ> blk_view s (s_dev ?sb)) ?bns = map (\<lambda>_. 512) ?bns"
        using len by (intro map_cong) auto
      show ?thesis unfolding sz length_concat map_map eq by (simp add: sum_list_triv)
    qed
    moreover have "?n \<le> 8 * ?sz" "?n \<le> 4096 * (?sz div 512)" unfolding sz nb by simp_all
    ultimately show ?thesis
      unfolding l by (auto simp: ret_simps splice_def maps_ok_def drop_freemap_def elim!: returns_mono split: sum.splits)
  qed
qed


lemma read_super_spec:
  assumes "blk_inv s"
  shows "returns (read_super dev 0 s) (\<lambda>(r, s'). blk_inv s' \<and> blk_view s' = blk_view s \<and> freemap s' = freemap s \<and> freedirt s' = freedirt s
    \<and> (\<forall>i. r = Inr i \<longrightarrow> s_mounted (supers s i) = 0 \<and> (let sb = decode_super (blk_view s dev 1) in
        supers s' i = sb\<lparr>s_mounted := 1, s_dev := dev, s_freeblk := s_dblock sb, s_nfree := UNCOUNTED\<rparr>)))"
proof (cases "(\<exists>i \<in> set [0..<MAXMOUNTS]. s_mounted (supers s i) \<noteq> 0 \<and> s_dev (supers s i) = dev)
    \<or> find (\<lambda>i. s_mounted (supers s i) = 0) [0..<MAXMOUNTS] = None")
  case True
  then show ?thesis using assms by (auto simp: read_super_def simp del: set_upt upt_rec_numeral)
next
  case False
  then obtain i where i: "find (\<lambda>i. s_mounted (supers s i) = 0) [0..<MAXMOUNTS] = Some i" by blast
  have m: "s_mounted (supers s i) = 0" using i by (auto simp: find_Some_iff simp del: upt_rec_numeral)
  have rs: "read_super dev 0 s = bindE (blk_read dev 1 s) (\<lambda>b s. do {
            let s = upd_super i (\<lambda>_. decode_super (b_data (bufs s b))) s;
            s \<leftarrow> blk_put b s;
            let s = upd_super i (\<lambda>sb. sb\<lparr>s_mounted := 1, s_dev := dev, s_freeblk := s_dblock sb, s_nfree := UNCOUNTED\<rparr>) s;
            Some (Inr i, s)
          })"
    using False i by (auto simp: read_super_def Let_def simp del: set_upt upt_rec_numeral)
  show ?thesis
  proof (rule blk_read_spec [OF assms, of dev 1])
    fix b s1
    assume r: "blk_read dev 1 s = Some (Inr b, s1)" "keeps_blks s s1" "bref_ok b"
      "b_data (bufs s1 b) = blk_view s dev 1" "blk_refs s1 = (blk_refs s)(b := Suc (blk_refs s b))"
    have k: "blk_inv s1" "blk_view s1 = blk_view s" "supers s1 = supers s" "freemap s1 = freemap s" "freedirt s1 = freedirt s"
      using r(2) blk_frame_simps [of s s1] by (simp_all add: keeps_blks_def)
    let ?sb = "decode_super (blk_view s dev 1)"
    let ?s2 = "upd_super i (\<lambda>_. ?sb) s1"
    obtain s3 where s3: "blk_put b ?s2 = Some s3" "keeps_blks ?s2 s3"
      using blk_put_spec [of ?s2 b] k(1) r(3,5) by auto
    have k3: "blk_inv s3" "blk_view s3 = blk_view s" "supers s3 i = ?sb" "freedirt s3 = freedirt s" "freemap s3 = freemap s"
      using s3(2) blk_frame_simps [of ?s2 s3] k by (simp_all add: keeps_blks_def)
    show ?thesis using m by (simp add: rs r(1,4) s3(1) k3 Let_def del: One_nat_def)
  next
    fix e s1
    assume "blk_read dev 1 s = Some (Inl e, s1)" "keeps_blks s s1"
    then show ?thesis using blk_frame_simps [of s s1] by (simp add: rs keeps_blks_def del: One_nat_def)
  qed
qed

text \<open>The root directory, with the layout that the kernel reads.\<close>

lemma root_entries_read:
  assumes "r < 2 ^ 32"
  shows "length (root_entries r) = 512" "de_ino (root_entries r) 0 = r" "de_ino (root_entries r) 1 = r"
    "cname (de_name (root_entries r) 0) = DOT" "cname (de_name (root_entries r) 1) = DOTDOT"
    "\<forall>e \<in> {2..<DIRENTS}. de_ino (root_entries r) e = 0"
proof -
  have d: "dirent_of r name = le32 r @ take NAME_MAX (name @ replicate NAME_MAX 0)" for name by (simp add: dirent_of_def)
  have l: "length (le32 r) = 4" by (simp add: le32_def le16_def)
  show "length (root_entries r) = 512" by (simp add: root_entries_def)
  show "de_ino (root_entries r) 0 = r" using rd32_le32 [of r] assms by (simp add: de_ino_def root_entries_def d)
  show "de_ino (root_entries r) 1 = r"
    using rd32_append2 [of "dirent_of r DOT" "dirent_of r DOTDOT @ replicate 448 0" 0] rd32_le32 [of r] assms
    by (simp add: de_ino_def root_entries_def) (simp add: d)
  show "cname (de_name (root_entries r) 0) = DOT" "cname (de_name (root_entries r) 1) = DOTDOT"
    by (simp_all add: root_entries_def de_name_def d l cname_def)
  show "\<forall>e \<in> {2..<DIRENTS}. de_ino (root_entries r) e = 0"
    by (auto simp: root_entries_def de_ino_def rd32_def rd16_def nth_append)
qed


text \<open>What a reader of the image finds in it.\<close>

lemma mkfs_image_reads:
  fixes img :: "nat \<Rightarrow> byte list" and n bm db b :: nat and t :: "32 word"
  defines "i \<equiv> mkfs_image n bm t img"
  assumes n: "n \<le> 2000000" "2 \<le> bm" and db: "db = (n + 4095) div 4096 + bm" "db + 2 \<le> n"
  shows "decode_super (i 1) = mkfs_super n bm t" and "decode_dinode (i db) = root_inode db t" and "i (db + 1) = root_entries db"
    and "bm \<le> b \<Longrightarrow> b < db \<Longrightarrow> i b = map_block (db + 2 - 4096 * (b - bm))"
    and "s_nblocks (mkfs_super n bm t) = n" "s_bitmap (mkfs_super n bm t) = bm" "s_dblock (mkfs_super n bm t) = db" "s_root (mkfs_super n bm t) = db"
proof -
  have d2: "2 \<le> db" using n(2) db(1) by simp
  have "wf_super (mkfs_super n bm t)"
  proof -
    have "bm < 2 ^ 32" using n(1) db by simp
    then show ?thesis using n(1) db(2) unat32_less [of t] by (simp add: wf_super_def mkfs_super_def Let_def flip: db(1))
  qed
  then show "decode_super (i 1) = mkfs_super n bm t" by (simp add: i_def mkfs_image_def decode_encode_super)
  have "wf_dinode (root_inode db t)"
    using n(1) db(2) by (auto simp: wf_dinode_def wf_blks_def root_inode_def zero_dinode_def dest!: set_update_subset_insert [THEN subsetD])
  then show "decode_dinode (i db) = root_inode db t"
    using d2 decode_encode_dinode_at [of "root_inode db t" "[]"] by (simp add: i_def mkfs_image_def flip: db(1))
  show "i (db + 1) = root_entries db" using d2 by (simp add: i_def mkfs_image_def flip: db(1))
  show "bm \<le> b \<Longrightarrow> b < db \<Longrightarrow> i b = map_block (db + 2 - 4096 * (b - bm))"
    using n(2) by (simp add: i_def mkfs_image_def flip: db(1))
  show "s_nblocks (mkfs_super n bm t) = n" "s_bitmap (mkfs_super n bm t) = bm" "s_dblock (mkfs_super n bm t) = db" "s_root (mkfs_super n bm t) = db"
    by (simp_all add: mkfs_super_def Let_def db(1))
qed




end
