(* ===== verification/Hd.thy ===== *)
theory Hd
  imports Chr
begin

unbundle bit_operations_syntax

text \<open>
  \<open>kern/dv/hd.c\<close>, the driver of the IDE disks and of their partitions. The controllers are the
  parameter \<open>ide\<close>, with their state \<open>'h\<close>: reading and writing a port, the transfer of 256 words from
  or to the data port, and waiting for an interrupt. What the driver relies on of them, the ATA
  protocol, is the predicate \<open>ata_ok\<close>.
\<close>

section \<open>Ports and state\<close>

record 'h ide =
  d_in :: "nat \<Rightarrow> 'h \<Rightarrow> byte \<times> 'h"
  d_out :: "nat \<Rightarrow> byte \<Rightarrow> 'h \<Rightarrow> 'h"
  d_insw :: "nat \<Rightarrow> 'h \<Rightarrow> byte list \<times> 'h"
  d_outsw :: "nat \<Rightarrow> byte list \<Rightarrow> 'h \<Rightarrow> 'h"
  d_intr :: "'h \<Rightarrow> 'h option" \<comment> \<open>wait for the interrupt; \<open>None\<close> when it never comes\<close>
  d_tintr :: "'h \<Rightarrow> bool \<times> 'h" \<comment> \<open>wait for it at most \<open>HZ / 5\<close> ticks\<close>

record hd_disk =
  hk_ctl :: "nat option"
  hk_unit :: nat
  hk_wpcom :: nat
  hk_ncyls :: nat
  hk_nheads :: nat
  hk_nsects :: nat
  hk_size :: nat

record hdst =
  hd_ctl :: "nat list" \<comment> \<open>the ports of the controllers\<close>
  hd_disk :: "hd_disk list"
  hd_size :: "nat list"
  hd_off :: "nat list"

abbreviation (input) "NDISKS \<equiv> (4::nat)"
abbreviation (input) "CMD_READ \<equiv> (0x20::byte)"
abbreviation (input) "CMD_WRITE \<equiv> (0x30::byte)"

abbreviation hd_sizeof :: "hdst \<Rightarrow> nat \<Rightarrow> nat" where
  "hd_sizeof st dev \<equiv> hd_size st ! (minor dev mod 32)"

abbreviation hd_offset :: "hdst \<Rightarrow> nat \<Rightarrow> nat" where
  "hd_offset st dev \<equiv> hd_off st ! (minor dev mod 32)"

abbreviation hd_unit :: "nat \<Rightarrow> nat" where
  "hd_unit dev \<equiv> minor dev div 8"

text \<open>The port of the disk's controller; a null pointer has none.\<close>

definition hd_iobase :: "hdst \<Rightarrow> nat \<Rightarrow> nat option" where
  "hd_iobase st u = (if u < NDISKS then map_option (\<lambda>c. hd_ctl st ! c) (hk_ctl (hd_disk st ! u)) else None)"

section \<open>Commands\<close>

text \<open>Reading a port until its value passes a test.\<close>

partial_function (option) hd_poll :: "'h ide \<Rightarrow> nat \<Rightarrow> (byte \<Rightarrow> bool) \<Rightarrow> 'h \<Rightarrow> 'h option" where
  "hd_poll io port P x = (let (v, x) = d_in io port x in if P v then Some x else hd_poll io port P x)"

definition hd_wait :: "'h ide \<Rightarrow> hdst \<Rightarrow> nat \<Rightarrow> 'h \<Rightarrow> 'h option" where
  "hd_wait io st i x =
     Option.bind (hd_iobase st i) (\<lambda>iobase. hd_poll io (iobase + 7) (\<lambda>v. v AND 0x80 = 0) x)"

definition hd_reset :: "bool \<Rightarrow> 'h ide \<Rightarrow> hdst \<Rightarrow> nat \<Rightarrow> 'h \<Rightarrow> 'h option" where
  "hd_reset dsleep io st u x = do {
     iobase \<leftarrow> hd_iobase st u;
     x \<leftarrow> hd_wait io st u (d_out io (iobase + 0x206) 0 (d_out io (iobase + 0x206) 4 x));
     if dsleep then
       hd_wait io st u
         (d_out io (iobase + 7) 0xE2 (d_out io (iobase + 2) (5 * 12)
           (d_out io (iobase + 6) (0xC0 OR push_bit 4 (of_nat (hk_unit (hd_disk st ! u)))) x)))
     else Some x
   }"

definition hd_geterr :: "'h ide \<Rightarrow> nat \<Rightarrow> 'h \<Rightarrow> byte \<times> 'h" where
  "hd_geterr io iobase x =
     (let (status, x) = d_in io (iobase + 7) x in
      if status AND 0xF1 = 0x50 then (0, x) else d_in io (iobase + 1) x)"

definition hd_setup :: "'h ide \<Rightarrow> nat \<Rightarrow> hd_disk \<Rightarrow> nat \<Rightarrow> nat \<Rightarrow> nat \<Rightarrow> 'h \<Rightarrow> 'h" where
  "hd_setup io iobase dk c h s x =
     (let x = d_out io (iobase + 1) (of_nat (hk_wpcom dk)) x;
          x = d_out io (iobase + 2) 1 x;
          x = d_out io (iobase + 3) (of_nat s) x;
          x = d_out io (iobase + 4) (of_nat c) x;
          x = d_out io (iobase + 5) (of_nat (c div 256)) x
      in d_out io (iobase + 6) (push_bit 4 (of_nat (hk_unit dk)) OR of_nat h OR 0xA0) x)"

definition hd_io :: "'h ide \<Rightarrow> hdst \<Rightarrow> nat \<Rightarrow> byte \<Rightarrow> nat \<Rightarrow> nat \<Rightarrow> nat \<Rightarrow> byte list \<Rightarrow> 'h
    \<Rightarrow> ((errno + byte list) \<times> 'h) option" where
  "hd_io io st u cmd c h s buf x = do {
     iobase \<leftarrow> hd_iobase st u;
     let x = d_out io (iobase + 7) cmd (hd_setup io iobase (hd_disk st ! u) c h s x);
     x \<leftarrow> (if cmd = CMD_WRITE then
             map_option (d_outsw io iobase buf) (hd_poll io (iobase + 7) (\<lambda>v. v AND 8 \<noteq> 0) x)
           else Some x);
     x \<leftarrow> d_intr io x;
     let (_, x) = d_in io (iobase + 7) x;
     let (e, x) = hd_geterr io iobase x;
     Some (if e \<noteq> 0 then (Inl EIO, x)
           else if cmd = CMD_READ then let (bs, x) = d_insw io iobase x in (Inr bs, x)
           else (Inr buf, x))
   }"

text \<open>Cylinder, head and sector of a block of the disk.\<close>

definition hd_chs :: "hd_disk \<Rightarrow> nat \<Rightarrow> nat \<times> nat \<times> nat" where
  "hd_chs dk blk =
     (blk div hk_nsects dk div hk_nheads dk, blk div hk_nsects dk mod hk_nheads dk, blk mod hk_nsects dk + 1)"

definition hd_bread :: "'h ide \<Rightarrow> hdst \<Rightarrow> nat \<Rightarrow> nat \<Rightarrow> 'h \<Rightarrow> ((errno + byte list) \<times> 'h) option" where
  "hd_bread io st dev blk x =
     (if blk \<ge> hd_sizeof st dev then Some (Inl EINVAL, x)
      else
        let blk = (blk + hd_offset st dev) mod 2 ^ 32; u = hd_unit dev in
        if u \<ge> NDISKS then Some (Inl ENODEV, x)
        else if blk \<ge> hk_size (hd_disk st ! u) then Some (Inl EIO, x)
        else if hk_nsects (hd_disk st ! u) = 0 \<or> hk_nheads (hd_disk st ! u) = 0 then None
        else case hd_chs (hd_disk st ! u) blk of (c, h, s) \<Rightarrow> hd_io io st u CMD_READ c h s [] x)"

definition hd_bwrite :: "'h ide \<Rightarrow> hdst \<Rightarrow> nat \<Rightarrow> nat \<Rightarrow> byte list \<Rightarrow> 'h \<Rightarrow> ((errno + byte list) \<times> 'h) option" where
  "hd_bwrite io st dev blk buf x =
     (if blk \<ge> hd_sizeof st dev then Some (Inl EINVAL, x)
      else
        let blk = (blk + hd_offset st dev) mod 2 ^ 32; u = hd_unit dev in
        if u \<ge> NDISKS then Some (Inl ENODEV, x)
        else if blk \<ge> hk_size (hd_disk st ! u) then Some (Inl EIO, x)
        else if hk_nsects (hd_disk st ! u) = 0 \<or> hk_nheads (hd_disk st ! u) = 0 then None
        else case hd_chs (hd_disk st ! u) blk of (c, h, s) \<Rightarrow> hd_io io st u CMD_WRITE c h s buf x)"

section \<open>Finding the disks and their partitions\<close>

text \<open>Words 1, 3 and 6 of what a disk says of itself are its cylinders, heads and sectors.\<close>

definition hd_conf :: "'h ide \<Rightarrow> nat \<Rightarrow> hdst \<Rightarrow> 'h \<Rightarrow> hdst \<times> 'h" where
  "hd_conf io n st x =
     (let iobase = hd_ctl st ! (n div 2);
           x = d_out io (iobase + 6) (push_bit 4 (of_nat n AND 1)) x;
           x = d_out io (iobase + 7) 0xEC x;
          (came, x) = d_tintr io x
      in if \<not> came then (st, x)
         else
           let (v, x) = d_in io (iobase + 7) x in
           if v AND 1 \<noteq> 0 then (st, x)
           else
             let (_, x) = d_in io (iobase + 7) x;
                 (buf, x) = d_insw io iobase x;
                 c = rd16 buf 2; h = rd16 buf 6; s = rd16 buf 12
             in if c = 0 \<or> h = 0 \<or> s = 0 then (st, x)
                else (st\<lparr>hd_disk := (hd_disk st)[n := \<lparr>hk_ctl = Some (n div 2), hk_unit = n mod 2, hk_wpcom = 65536,
                        hk_ncyls = c, hk_nheads = h, hk_nsects = s, hk_size = c * h * s mod 2 ^ 32\<rparr>]\<rparr>, x))"

definition hd_stop :: "'h ide \<Rightarrow> hdst \<Rightarrow> 'h \<Rightarrow> 'h" where
  "hd_stop io st x =
     fold (\<lambda>i x. case hd_iobase st i of
         None \<Rightarrow> x
       | Some iobase \<Rightarrow> d_out io (iobase + 7) 0xE6
           (d_out io (iobase + 6) (0xC0 OR push_bit 4 (of_nat (hk_unit (hd_disk st ! i)))) x)) [0..<NDISKS] x"

text \<open>The entry of the table of the PC with the type of this system: its start and its length.\<close>

definition pc_part :: "byte list \<Rightarrow> (nat \<times> nat) option" where
  "pc_part buf =
     map_option (\<lambda>p. (rd32 buf (0x1BE + 16 * p + 8), rd32 buf (0x1BE + 16 * p + 12)))
       (find (\<lambda>p. buf ! (0x1BE + 16 * p + 4) = 0xC0) [0..<4])"

definition set_part :: "nat \<Rightarrow> nat \<Rightarrow> nat \<Rightarrow> hdst \<Rightarrow> hdst" where
  "set_part i sz ofs st = st\<lparr>hd_size := (hd_size st)[i := sz], hd_off := (hd_off st)[i := ofs]\<rparr>"

fun hd_parts :: "nat list \<Rightarrow> nat \<Rightarrow> nat \<Rightarrow> hdst \<Rightarrow> hdst" where
  "hd_parts [] i ofs st = st"
| "hd_parts (p # ps) i ofs st = hd_parts ps (i + 1) ((ofs + p) mod 2 ^ 32) (set_part i p ofs st)"

definition hd_gtable :: "'h ide \<Rightarrow> nat \<Rightarrow> hdst \<Rightarrow> 'h \<Rightarrow> (hdst \<times> 'h) option" where
  "hd_gtable io u st x =
     (if u \<ge> NDISKS then None
      else do {
        let size = hk_size (hd_disk st ! u);
        let st = set_part 7 size 0 st;
        (r, x) \<leftarrow> hd_io io st u CMD_READ 0 0 1 [] x;
        (case r of
           Inl _ \<Rightarrow> Some (st, x)
         | Inr buf \<Rightarrow> do {
             let (ofs, sz) = (case pc_part buf of None \<Rightarrow> (0, size) | Some p \<Rightarrow> p);
             let st = set_part (u * 8) sz ofs st;
             (r, x) \<leftarrow> hd_bread io st (u * 8) 0 x;
             (case r of
                Inl _ \<Rightarrow> Some (st, x)
              | Inr buf \<Rightarrow>
                  let st = hd_parts (rd32s buf 0x1D0 7) (u * 8) ofs st
                  in Some (if hd_size st ! (u * 8) = 0 then st\<lparr>hd_size := (hd_size st)[u * 8 := 1]\<rparr> else st, x))
           })
      })"

fun hd_tables :: "bool \<Rightarrow> 'h ide \<Rightarrow> nat list \<Rightarrow> hdst \<Rightarrow> 'h \<Rightarrow> (hdst \<times> 'h) option" where
  "hd_tables dsleep io [] st x = Some (st, x)"
| "hd_tables dsleep io (i # is) st x =
     (if hk_ctl (hd_disk st ! i) = None then hd_tables dsleep io is st x
      else do {
        x \<leftarrow> hd_reset dsleep io st i x;
        (st, x) \<leftarrow> hd_gtable io i st x;
        hd_tables dsleep io is st x
      })"

text \<open>\<open>hd_init\<close> without the interrupt controller and the table of drivers.\<close>

definition hd_init :: "nat \<Rightarrow> bool \<Rightarrow> 'h ide \<Rightarrow> hdst \<Rightarrow> 'h \<Rightarrow> (hdst \<times> 'h) option" where
  "hd_init ndisks dsleep io st x =
     (let st = st\<lparr>hd_ctl := [0x1F0, 0x170]\<rparr>;
          n = min ndisks NDISKS;
          (st, x) = fold (\<lambda>i (st, x). hd_conf io i st x) [0..<n] (st, x)
      in hd_tables dsleep io [0..<n] st x)"

section \<open>The raw device\<close>

abbreviation (input) "DIOCGINFO \<equiv> (3::int)"
abbreviation (input) "DIOCFMTTRK \<equiv> (4::int)"
abbreviation (input) "DIOCRTBL \<equiv> (5::int)"

type_synonym 'h kh = "kst \<times> 'h"

definition hd_ioctl :: "'h ide \<Rightarrow> nat \<Rightarrow> int \<Rightarrow> nat \<Rightarrow> hdst \<Rightarrow> 'h kh \<Rightarrow> ((errno + hdst) \<times> 'h kh) option" where
  "hd_ioctl io dev cmd ptr st = (\<lambda>(k, x).
     if cmd = DIOCGINFO then
       if hd_unit dev \<ge> NDISKS then None
       else
         let dk = hd_disk st ! hd_unit dev in
         map_option (\<lambda>(r, k). (map_sum id (\<lambda>_. st) r, k, x))
           (tucpy ptr (le32s [hk_ncyls dk, hk_nheads dk, hk_nsects dk, hd_offset st dev, hd_sizeof st dev]) k)
     else if cmd = DIOCRTBL then map_option (\<lambda>(st, x). (Inr st, k, x)) (hd_gtable io (hd_unit dev) st x)
     else Some (Inl ENOTTY, k, x))"

definition rhd_ioctl :: "'h ide \<Rightarrow> nat \<Rightarrow> int \<Rightarrow> nat \<Rightarrow> hdst \<Rightarrow> 'h kh \<Rightarrow> ((errno + hdst) \<times> 'h kh) option" where
  "rhd_ioctl io i cmd ptr st = (\<lambda>(k, x). hd_ioctl io (i_rdev k i) cmd ptr st (k, x))"

text \<open>
  A raw transfer, one block after the other, of the loops that \<open>rhd_read\<close> and \<open>rhd_write\<close>, and the
  floppy's, share. The data go to and from the process directly.
\<close>

fun raw_loop :: "(nat \<Rightarrow> nat \<Rightarrow> 's \<Rightarrow> ((errno + unit) \<times> 's) option) \<Rightarrow> nat \<Rightarrow> nat \<Rightarrow> nat \<Rightarrow> 's
    \<Rightarrow> ((errno + unit) \<times> 's) option" where
  "raw_loop xfer 0 blk p s = Some (Inr (), s)"
| "raw_loop xfer (Suc cnt) blk p s =
     bindE (xfer blk p s) (\<lambda>_ s. raw_loop xfer cnt ((blk + 1) mod 2 ^ 32) (p + 512) s)"

definition raw_rw :: "(nat \<Rightarrow> nat \<Rightarrow> 'h kh \<Rightarrow> ((errno + unit) \<times> 'h kh) option) \<Rightarrow> rwreq \<Rightarrow> 'h kh
    \<Rightarrow> ((errno + rwreq) \<times> 'h kh) option" where
  "raw_rw xfer req = (\<lambda>(k, x).
     if rw_count req mod 512 \<noteq> 0 then Some (Inl EINVAL, k, x)
     else if rw_start req AND 511 \<noteq> 0 then Some (Inl EINVAL, k, x)
     else bindE (map_option (\<lambda>(r, k). (r, k, x)) (uwchk (rw_buf req) (rw_count req) k)) (\<lambda>_ (k, x).
       bindE (raw_loop xfer (rw_count req div 512) (nat (sint (rw_start req) div 512 mod 2 ^ 32)) (rw_buf req) (k, x)) (\<lambda>_ s.
         Some (Inr (req\<lparr>rw_start := rw_start req + of_nat (rw_count req)\<rparr>), s))))"

definition to_user :: "(nat \<Rightarrow> 'h \<Rightarrow> ((errno + byte list) \<times> 'h) option) \<Rightarrow> nat \<Rightarrow> nat \<Rightarrow> 'h kh
    \<Rightarrow> ((errno + unit) \<times> 'h kh) option" where
  "to_user rd blk p = (\<lambda>(k, x). do {
     (r, x) \<leftarrow> rd blk x;
     (case r of Inl e \<Rightarrow> Some (Inl e, k, x) | Inr bs \<Rightarrow> map_option (\<lambda>k. (Inr (), k, x)) (ustore p bs k))
   })"

definition from_user :: "(nat \<Rightarrow> byte list \<Rightarrow> 'h \<Rightarrow> ((errno + byte list) \<times> 'h) option) \<Rightarrow> nat \<Rightarrow> nat \<Rightarrow> 'h kh
    \<Rightarrow> ((errno + unit) \<times> 'h kh) option" where
  "from_user wr blk p = (\<lambda>(k, x). do {
     bs \<leftarrow> uload p 512 k;
     (r, x) \<leftarrow> wr blk bs x;
     Some (map_sum id (\<lambda>_. ()) r, k, x)
   })"

definition rhd_read :: "'h ide \<Rightarrow> hdst \<Rightarrow> rwreq \<Rightarrow> 'h kh \<Rightarrow> ((errno + rwreq) \<times> 'h kh) option" where
  "rhd_read io st req s = raw_rw (to_user (hd_bread io st (i_rdev (fst s) (rw_ino req)))) req s"

definition rhd_write :: "'h ide \<Rightarrow> hdst \<Rightarrow> rwreq \<Rightarrow> 'h kh \<Rightarrow> ((errno + rwreq) \<times> 'h kh) option" where
  "rhd_write io st req s = raw_rw (from_user (hd_bwrite io st (i_rdev (fst s) (rw_ino req)))) req s"

section \<open>The disks behind the driver\<close>

text \<open>
  What the driver relies on of a controller: \<open>regs\<close> are its registers, \<open>plat\<close> the sectors of the two disks at a
  controller, by cylinder, head and sector. Writing a register only changes the register. A read
  ends with an interrupt, a good status and the sector in the data port, or with a status that is not
  good and an error register that is not zero; a write asks for the data first, and the sector holds them
  when it ends with a good status.
\<close>

type_synonym platters = "nat \<Rightarrow> bool \<Rightarrow> nat \<times> nat \<times> nat \<Rightarrow> byte list"

definition ata_addr :: "(nat \<Rightarrow> byte) \<Rightarrow> nat \<Rightarrow> bool \<times> nat \<times> nat \<times> nat" where
  "ata_addr r base =
     (bit (r (base + 6)) 4,
      unat (r (base + 4)) + 256 * unat (r (base + 5)), unat (r (base + 6) AND 15), unat (r (base + 3)))"

definition put_sector :: "nat \<Rightarrow> bool \<times> nat \<times> nat \<times> nat \<Rightarrow> byte list \<Rightarrow> platters \<Rightarrow> platters" where
  "put_sector base a bs pl = pl(base := (pl base)(fst a := (pl base (fst a))(snd a := bs)))"

definition ata_end :: "'h ide \<Rightarrow> nat \<Rightarrow> 'h \<Rightarrow> (bool \<Rightarrow> 'h \<Rightarrow> bool) \<Rightarrow> bool" where
  "ata_end io base x Q \<longleftrightarrow>
     (\<exists>x1. d_intr io x = Some x1 \<and>
       (let x2 = snd (d_in io (base + 7) x1); (st, x3) = d_in io (base + 7) x2 in
        if st AND 0xF1 = 0x50 then Q True x3
        else let (e, x4) = d_in io (base + 1) x3 in e \<noteq> 0 \<and> Q False x4))"

definition ata_ok :: "'h ide \<Rightarrow> ('h \<Rightarrow> nat \<Rightarrow> byte) \<Rightarrow> ('h \<Rightarrow> platters) \<Rightarrow> bool" where
  "ata_ok io regs plat \<longleftrightarrow> (\<forall>base x.
     (\<forall>p v. 1 \<le> p \<and> p \<le> 6 \<longrightarrow> regs (d_out io (base + p) v x) = (regs x)(base + p := v) \<and> plat (d_out io (base + p) v x) = plat x)
     \<and> (\<forall>u a. ata_addr (regs x) base = (u, a) \<longrightarrow>
        ata_end io base (d_out io (base + 7) CMD_READ x) (\<lambda>ok x'. plat x' = plat x \<and>
          (ok \<longrightarrow> (let (bs, x2) = d_insw io base x' in bs = plat x base u a \<and> plat x2 = plat x)))
        \<and> (\<exists>x1. hd_poll io (base + 7) (\<lambda>v. v AND 8 \<noteq> 0) (d_out io (base + 7) CMD_WRITE x) = Some x1 \<and>
            (\<forall>bs. length bs = BLK_SIZE \<longrightarrow> ata_end io base (d_outsw io base bs x1) (\<lambda>ok x'.
              if ok then plat x' = put_sector base (u, a) bs (plat x)
              else \<exists>bs'. plat x' = put_sector base (u, a) bs' (plat x))))))"

text \<open>
  A disk that was found has the geometry that the driver can address, four bits for the head and eight for
  the sector; the others have no blocks.
\<close>

definition disk_geom :: "nat \<Rightarrow> hd_disk \<Rightarrow> bool" where
  "disk_geom i dk \<longleftrightarrow>
     (if hk_ctl dk = None then hk_size dk = 0
      else hk_ctl dk = Some (i div 2) \<and> hk_unit dk = i mod 2
        \<and> 0 < hk_nsects dk \<and> hk_nsects dk \<le> 255 \<and> 0 < hk_nheads dk \<and> hk_nheads dk \<le> 16
        \<and> hk_ncyls dk \<le> 65535 \<and> hk_size dk = hk_ncyls dk * hk_nheads dk * hk_nsects dk)"

definition hd_ok :: "hdst \<Rightarrow> bool" where
  "hd_ok st \<longleftrightarrow> hd_ctl st = [0x1F0, 0x170] \<and> length (hd_disk st) = NDISKS
     \<and> length (hd_size st) = 32 \<and> length (hd_off st) = 32 \<and> (\<forall>i < NDISKS. disk_geom i (hd_disk st ! i))"

lemma chs_bounds:
  assumes "disk_geom i dk" and "blk < hk_size dk" and "hd_chs dk blk = (c, h, s)"
  shows "c < hk_ncyls dk" "c < 65536" "h < hk_nheads dk" "h < 16" "1 \<le> s" "s \<le> hk_nsects dk" "s < 256"
    "(c * hk_nheads dk + h) * hk_nsects dk + s - 1 = blk"
proof -
  let ?H = "hk_nheads dk" and ?S = "hk_nsects dk"
  have g: "0 < ?S" "?S \<le> 255" "0 < ?H" "?H \<le> 16" "hk_ncyls dk \<le> 65535" "hk_size dk = hk_ncyls dk * ?H * ?S"
    using assms(1,2) by (auto simp: disk_geom_def split: if_splits)
  have e: "c = blk div ?S div ?H" "h = blk div ?S mod ?H" "s = blk mod ?S + 1"
    using assms(3) by (simp_all add: hd_chs_def)
  have "blk < hk_ncyls dk * (?S * ?H)" using assms(2) g(6) by (simp add: ac_simps)
  then show c: "c < hk_ncyls dk" using g(1,3) by (simp add: e div_mult2_eq [symmetric] less_mult_imp_div_less)
  then show "c < 65536" using g(5) by simp
  show h: "h < ?H" using g(3) by (simp add: e)
  then show "h < 16" using g(4) by simp
  have "s - 1 < ?S" using g(1) by (simp add: e)
  then show "1 \<le> s" "s \<le> ?S" "s < 256" using g(2) by (simp_all add: e)
  show "(c * ?H + h) * ?S + s - 1 = blk" by (simp add: e)
qed

lemma chs_inj:
  assumes "disk_geom i dk" and "b < hk_size dk" and "b' < hk_size dk" and "hd_chs dk b = hd_chs dk b'"
  shows "b = b'"
  using chs_bounds(8) [OF assms(1,2)] chs_bounds(8) [OF assms(1,3)] assms(4) by (cases "hd_chs dk b") metis


lemma drive_reg:
  assumes "h < 16" and "u < 2"
  shows "bit (push_bit 4 (of_nat u) OR of_nat h OR (0xA0 :: byte)) 4 = (u = 1)"
    and "unat ((push_bit 4 (of_nat u) OR of_nat h OR (0xA0 :: byte)) AND 15) = h"
proof -
  have "(\<forall>h \<in> set [0..<16]. \<forall>u \<in> set [0..<2].
      bit (push_bit 4 (of_nat u) OR of_nat h OR (0xA0 :: byte)) 4 = (u = 1)
      \<and> unat ((push_bit 4 (of_nat u) OR of_nat h OR (0xA0 :: byte)) AND 15) = h)"
    by code_simp
  then show "bit (push_bit 4 (of_nat u) OR of_nat h OR (0xA0 :: byte)) 4 = (u = 1)"
    and "unat ((push_bit 4 (of_nat u) OR of_nat h OR (0xA0 :: byte)) AND 15) = h"
    using assms by auto
qed

lemma ata_regs:
  assumes "ata_ok io regs plat" and "1 \<le> p" and "p \<le> 6"
  shows "regs (d_out io (base + p) v x) = (regs x)(base + p := v)" and "plat (d_out io (base + p) v x) = plat x"
  using assms unfolding ata_ok_def by blast+

lemma ata_read:
  assumes "ata_ok io regs plat" and "ata_addr (regs x) base = (u, a)"
  shows "ata_end io base (d_out io (base + 7) CMD_READ x) (\<lambda>ok x'. plat x' = plat x \<and>
    (ok \<longrightarrow> (let (bs, x2) = d_insw io base x' in bs = plat x base u a \<and> plat x2 = plat x)))"
  using assms unfolding ata_ok_def by blast

lemma ata_write:
  assumes "ata_ok io regs plat" and "ata_addr (regs x) base = (u, a)" and "length bs = BLK_SIZE"
  obtains x1 where "hd_poll io (base + 7) (\<lambda>v. v AND 8 \<noteq> 0) (d_out io (base + 7) CMD_WRITE x) = Some x1"
    and "ata_end io base (d_outsw io base bs x1) (\<lambda>ok x'.
      if ok then plat x' = put_sector base (u, a) bs (plat x) else \<exists>bs'. plat x' = put_sector base (u, a) bs' (plat x))"
  using assms unfolding ata_ok_def by blast

lemma hd_setup_regs:
  assumes "ata_ok io regs plat" and "hk_unit dk < 2" "c < 65536" "h < 16" "s < 256"
  shows "plat (hd_setup io base dk c h s x) = plat x"
    and "ata_addr (regs (hd_setup io base dk c h s x)) base = (hk_unit dk = 1, c, h, s)"
proof -
  note r = ata_regs [OF assms(1)]
  show "plat (hd_setup io base dk c h s x) = plat x" by (simp add: hd_setup_def Let_def r del: One_nat_def add_2_eq_Suc add_2_eq_Suc')
  have "c mod 256 + 256 * (c div 256) = c" by simp
  then show "ata_addr (regs (hd_setup io base dk c h s x)) base = (hk_unit dk = 1, c, h, s)"
    using assms drive_reg [OF assms(4,2)]
    by (simp add: hd_setup_def r ata_addr_def unat_of_nat del: One_nat_def)
qed

lemma hd_end:
  assumes "ata_end io base x Q"
  obtains x1 x2 where "d_intr io x = Some x1" and "hd_geterr io base (snd (d_in io (base + 7) x1)) = (0, x2)" and "Q True x2"
  | x1 e x2 where "d_intr io x = Some x1" and "hd_geterr io base (snd (d_in io (base + 7) x1)) = (e, x2)" and "e \<noteq> 0" and "Q False x2"
proof -
  obtain x1 where x1: "d_intr io x = Some x1" "let x2 = snd (d_in io (base + 7) x1); (st, x3) = d_in io (base + 7) x2 in
        if st AND 0xF1 = 0x50 then Q True x3
        else let (e, x4) = d_in io (base + 1) x3 in e \<noteq> 0 \<and> Q False x4"
    using assms unfolding ata_end_def by blast
  obtain st x3 where st: "d_in io (base + 7) (snd (d_in io (base + 7) x1)) = (st, x3)" by fastforce
  obtain e x4 where e: "d_in io (base + 1) x3 = (e, x4)" by fastforce
  show thesis
    using x1 that st e by (cases "st AND 0xF1 = 0x50") (simp_all add: hd_geterr_def Let_def del: One_nat_def)
qed

lemma hd_io_read:
  assumes ok: "ata_ok io regs plat" and b: "hd_iobase st u = Some base"
    and g: "hk_unit (hd_disk st ! u) < 2" "c < 65536" "h < 16" "s < 256"
  shows "returns (hd_io io st u CMD_READ c h s buf x) (\<lambda>(r, x'). plat x' = plat x
    \<and> (case r of Inl e \<Rightarrow> e = EIO | Inr bs \<Rightarrow> bs = plat x base (hk_unit (hd_disk st ! u) = 1) (c, h, s)))"
proof -
  let ?x = "hd_setup io base (hd_disk st ! u) c h s x"
  note s = hd_setup_regs [OF ok g, of base x]
  show ?thesis
    using ata_read [OF ok s(2)]
    by (cases rule: hd_end) (auto simp: hd_io_def b s(1) Let_def split: prod.splits)
qed

lemma hd_io_write:
  assumes ok: "ata_ok io regs plat" and b: "hd_iobase st u = Some base"
    and g: "hk_unit (hd_disk st ! u) < 2" "c < 65536" "h < 16" "s < 256" and l: "length buf = BLK_SIZE"
  shows "returns (hd_io io st u CMD_WRITE c h s buf x) (\<lambda>(r, x').
    case r of Inl e \<Rightarrow> e = EIO \<and> (\<exists>bs'. plat x' = put_sector base (hk_unit (hd_disk st ! u) = 1, c, h, s) bs' (plat x))
      | Inr bs \<Rightarrow> bs = buf \<and> plat x' = put_sector base (hk_unit (hd_disk st ! u) = 1, c, h, s) buf (plat x))"
proof -
  let ?x = "hd_setup io base (hd_disk st ! u) c h s x"
  note s = hd_setup_regs [OF ok g, of base x]
  obtain x1 where x1: "hd_poll io (base + 7) (\<lambda>v. v AND 8 \<noteq> 0) (d_out io (base + 7) CMD_WRITE ?x) = Some x1"
    and e: "ata_end io base (d_outsw io base buf x1) (\<lambda>ok x'.
      if ok then plat x' = put_sector base (hk_unit (hd_disk st ! u) = 1, c, h, s) buf (plat ?x)
      else \<exists>bs'. plat x' = put_sector base (hk_unit (hd_disk st ! u) = 1, c, h, s) bs' (plat ?x))"
    by (rule ata_write [OF ok s(2) l])
  from e show ?thesis
    by (cases rule: hd_end) (auto simp: hd_io_def b x1 s(1) Let_def split: prod.splits)
qed


text \<open>The sectors of a disk by their number, and the sector of a block of a partition.\<close>

definition hd_sector :: "hdst \<Rightarrow> platters \<Rightarrow> nat \<Rightarrow> nat \<Rightarrow> byte list" where
  "hd_sector st pl u b = pl (hd_ctl st ! (u div 2)) (u mod 2 = 1) (hd_chs (hd_disk st ! u) b)"

definition hd_lba :: "hdst \<Rightarrow> nat \<Rightarrow> nat \<Rightarrow> nat" where
  "hd_lba st dev blk = (blk + hd_offset st dev) mod 2 ^ 32"

definition hd_can :: "hdst \<Rightarrow> nat \<Rightarrow> nat \<Rightarrow> bool" where
  "hd_can st dev blk \<longleftrightarrow> blk < hd_sizeof st dev \<and> hd_unit dev < NDISKS
     \<and> hd_lba st dev blk < hk_size (hd_disk st ! hd_unit dev)"

lemma hd_iobase_ok:
  assumes "hd_ok st" and "u < NDISKS" and "0 < hk_size (hd_disk st ! u)"
  shows "hd_iobase st u = Some (hd_ctl st ! (u div 2))" and "hk_unit (hd_disk st ! u) = u mod 2"
  using assms by (auto simp: hd_ok_def disk_geom_def hd_iobase_def split: if_splits)

lemma hd_geom:
  assumes "hd_ok st" and "u < NDISKS" and "b < hk_size (hd_disk st ! u)" and "hd_chs (hd_disk st ! u) b = (c, h, s)"
  shows "hk_unit (hd_disk st ! u) < 2" "c < 65536" "h < 16" "s < 256" "0 < hk_nsects (hd_disk st ! u)" "0 < hk_nheads (hd_disk st ! u)"
proof -
  have g: "disk_geom u (hd_disk st ! u)" using assms(1,2) by (simp add: hd_ok_def)
  show "c < 65536" "h < 16" "s < 256" using chs_bounds [OF g assms(3,4)] by simp_all
  show "hk_unit (hd_disk st ! u) < 2" using hd_iobase_ok(2) [OF assms(1,2)] assms(3) by simp
  show "0 < hk_nsects (hd_disk st ! u)" "0 < hk_nheads (hd_disk st ! u)"
    using g assms(3) by (auto simp: disk_geom_def split: if_splits)
qed

lemma hd_sector_put:
  assumes "hd_ok st" and "u < NDISKS" "b < hk_size (hd_disk st ! u)" and "u' < NDISKS" "b' < hk_size (hd_disk st ! u')"
  shows "hd_sector st (put_sector (hd_ctl st ! (u div 2)) (u mod 2 = 1, hd_chs (hd_disk st ! u) b) bs pl) u' b'
    = (if u' = u \<and> b' = b then bs else hd_sector st pl u' b')"
proof -
  have base: "hd_ctl st = [0x1F0, 0x170]" and g: "disk_geom u (hd_disk st ! u)" using assms(1,2) by (simp_all add: hd_ok_def)
  have eq: "u' = u" if "hd_ctl st ! (u' div 2) = hd_ctl st ! (u div 2)" "(u' mod 2 = 1) = (u mod 2 = 1)"
  proof -
    have "u' \<in> {0, 1, 2, 3}" "u \<in> {0, 1, 2, 3}" using assms(2,4) by auto
    then show ?thesis using that base by auto
  qed
  show ?thesis
  proof (cases "u' = u")
    case True
    then have "hd_chs (hd_disk st ! u') b' = hd_chs (hd_disk st ! u) b \<longleftrightarrow> b' = b"
      using chs_inj [OF g assms(3), of b'] assms(5) by auto
    then show ?thesis using True by (simp add: hd_sector_def put_sector_def)
  next
    case False
    then show ?thesis using eq by (auto simp: hd_sector_def put_sector_def)
  qed
qed



section \<open>The table of partitions\<close>

lemma hd_parts_other [simp]: "hd_ctl (hd_parts ps i ofs st) = hd_ctl st" "hd_disk (hd_parts ps i ofs st) = hd_disk st"
  "length (hd_size (hd_parts ps i ofs st)) = length (hd_size st)" "length (hd_off (hd_parts ps i ofs st)) = length (hd_off st)"
  by (induction ps i ofs st rule: hd_parts.induct) (simp_all add: set_part_def)

lemma hd_parts_spec:
  assumes "i + length ps \<le> length (hd_size st)" and "length (hd_off st) = length (hd_size st)" and "ofs < 2 ^ 32"
    and "i \<le> k" "k < i + length ps"
  shows "hd_size (hd_parts ps i ofs st) ! k = ps ! (k - i)
    \<and> hd_off (hd_parts ps i ofs st) ! k = (ofs + sum_list (take (k - i) ps)) mod 2 ^ 32"
  using assms
proof (induction ps i ofs st rule: hd_parts.induct)
  case (2 p ps i ofs st)
  have low: "hd_size (hd_parts ps j ofs' st') ! i = hd_size st' ! i \<and> hd_off (hd_parts ps j ofs' st') ! i = hd_off st' ! i"
    if "i < j" for j ofs' st'
    using that by (induction ps j ofs' st' rule: hd_parts.induct) (simp_all add: set_part_def)
  show ?case
  proof (cases "k = i")
    case True
    then show ?thesis using 2(2-5) low [of "i + 1"] by (simp add: set_part_def)
  next
    case False
    then have k: "k - i = Suc (k - (i + 1))" "i + 1 \<le> k" using 2(5) by auto
    have "hd_size (hd_parts ps (i + 1) ((ofs + p) mod 2 ^ 32) (set_part i p ofs st)) ! k = ps ! (k - (i + 1))
      \<and> hd_off (hd_parts ps (i + 1) ((ofs + p) mod 2 ^ 32) (set_part i p ofs st)) ! k
        = ((ofs + p) mod 2 ^ 32 + sum_list (take (k - (i + 1)) ps)) mod 2 ^ 32"
      by (rule 2(1)) (use 2(2-6) k in \<open>auto simp: set_part_def\<close>)
    then show ?thesis using k(1) by (simp add: mod_add_left_eq add.assoc)
  qed
qed simp

text \<open>The partitions of a table lie one behind the other, so that no two share a sector.\<close>

lemma hd_parts_disjoint:
  assumes st: "hd_ok st" and u: "u < NDISKS" and l: "length ps = 7" and ofs: "ofs + sum_list ps < 2 ^ 32"
    and ij: "i < 7" "j < 7" "i \<noteq> j"
    and b: "blk < ps ! i" "blk' < ps ! j"
  shows "hd_lba (hd_parts ps (u * 8) ofs st) (u * 8 + i) blk \<noteq> hd_lba (hd_parts ps (u * 8) ofs st) (u * 8 + j) blk'"
proof -
  have lba: "hd_lba (hd_parts ps (u * 8) ofs st) (u * 8 + k) c = ofs + sum_list (take k ps) + c"
    and fit: "sum_list (take k ps) + ps ! k = sum_list (take (Suc k) ps)"
    if k: "k < 7" "c < ps ! k" for k c
  proof -
    show fit: "sum_list (take k ps) + ps ! k = sum_list (take (Suc k) ps)" using k l by (simp add: take_Suc_conv_app_nth)
    have "sum_list (take (Suc k) ps) + sum_list (drop (Suc k) ps) = sum_list ps"
      by (metis append_take_drop_id sum_list_append)
    then have "ofs + sum_list (take k ps) + c < 2 ^ 32" using fit ofs k(2) by linarith
    moreover have "hd_off (hd_parts ps (u * 8) ofs st) ! (u * 8 + k) = (ofs + sum_list (take k ps)) mod 2 ^ 32"
      using hd_parts_spec [of "u * 8" ps st ofs "u * 8 + k"] st u l k ofs by (simp add: hd_ok_def)
    ultimately show "hd_lba (hd_parts ps (u * 8) ofs st) (u * 8 + k) c = ofs + sum_list (take k ps) + c"
      using u k by (simp add: hd_lba_def minor_def mod_add_right_eq add.commute add.left_commute)
  qed
  have mono: "sum_list (take a ps) \<le> sum_list (take b ps)" if "a \<le> b" for a b
    using that by (metis le_add1 sum_list_append take_add le_Suc_ex)
  show ?thesis
    using lba [OF ij(1) b(1)] lba [OF ij(2) b(2)] fit [OF ij(1) b(1)] fit [OF ij(2) b(2)]
      mono [of "Suc i" j] mono [of "Suc j" i] ij(3) b by (cases "i < j") auto
qed

lemma hd_ok_set_part [simp]: "hd_ok (set_part i sz ofs st) = hd_ok st"
  by (simp add: hd_ok_def set_part_def)

lemma hd_ok_parts [simp]: "hd_ok (hd_parts ps i ofs st) = hd_ok st"
  by (simp add: hd_ok_def)

lemma hd_disk_set_part [simp]: "hd_disk (set_part i sz ofs st) = hd_disk st"
  by (simp add: set_part_def)

lemma hd_ok_size [simp]: "hd_ok (st\<lparr>hd_size := (hd_size st)[i := v]\<rparr>) = hd_ok st"
  by (simp add: hd_ok_def)

lemma hd_gtable_ok: "hd_ok st \<Longrightarrow> when_returns (hd_gtable io u st x) (\<lambda>(st', x'). hd_ok st' \<and> hd_disk st' = hd_disk st)"
  by (auto simp: hd_gtable_def when_returns_bind Let_def intro!: when_returnsI split: sum.splits prod.splits)

text \<open>A disk that says it has at most 16 heads, as ATA disks do, and at most 255 sectors.\<close>

lemma hd_conf_ok:
  assumes "hd_ok st" and "n < NDISKS"
    and id: "\<And>base x. rd16 (fst (d_insw io base x)) 6 \<le> 16 \<and> rd16 (fst (d_insw io base x)) 12 \<le> 255"
  shows "hd_ok (fst (hd_conf io n st x))"
proof -
  have size: "c * h * s mod 2 ^ 32 = c * h * s" if "c < 65536" "h \<le> 16" "s \<le> 255" for c h s :: nat
  proof -
    have "c * h * s \<le> 65535 * 16 * 255" using that by (intro mult_mono) auto
    then show ?thesis by (intro mod_less) simp
  qed
  have geom: "disk_geom n \<lparr>hk_ctl = Some (n div 2), hk_unit = n mod 2, hk_wpcom = 65536,
      hk_ncyls = c, hk_nheads = h, hk_nsects = s, hk_size = c * h * s mod 2 ^ 32\<rparr>"
    if "c < 65536" "h \<le> 16" "s \<le> 255" "c \<noteq> 0" "h \<noteq> 0" "s \<noteq> 0" for c h s
    using that by (auto simp: disk_geom_def size [simplified])
  have upd: "hd_ok (st\<lparr>hd_disk := (hd_disk st)[n := d]\<rparr>)" if "disk_geom n d" for d
    using assms(1) that by (simp add: hd_ok_def) (metis nth_list_update_eq nth_list_update_neq)
  show ?thesis
    using assms(1,2) by (auto simp: hd_conf_def Let_def case_prod_beta id rd16_less [simplified] intro!: upd geom [simplified])
qed

section \<open>Two disks in memory\<close>

text \<open>A controller that answers at once and never fails, for an example.\<close>

record sim =
  sim_regs :: "nat \<Rightarrow> byte"
  sim_plat :: platters

definition sim_ide :: "sim ide" where
  "sim_ide = \<lparr>d_in = (\<lambda>p x. (0x58, x)), d_out = (\<lambda>p v x. x\<lparr>sim_regs := (sim_regs x)(p := v)\<rparr>),
     d_insw = (\<lambda>base x. (let (u, a) = ata_addr (sim_regs x) base in sim_plat x base u a, x)),
     d_outsw = (\<lambda>base bs x. x\<lparr>sim_plat := put_sector base (ata_addr (sim_regs x) base) bs (sim_plat x)\<rparr>),
     d_intr = Some, d_tintr = (\<lambda>x. (True, x))\<rparr>"

lemma sim_ok: "ata_ok sim_ide sim_regs sim_plat"
proof -
  have "hd_poll sim_ide p (\<lambda>v. v AND 8 \<noteq> 0) x = Some x" for p x
    by (subst hd_poll.simps) (simp add: sim_ide_def)
  then show ?thesis
    by (auto simp: ata_ok_def ata_end_def Let_def) (auto simp: sim_ide_def ata_addr_def)
qed

definition sim_hd :: hdst where
  "sim_hd = \<lparr>hd_ctl = [0x1F0, 0x170],
     hd_disk = \<lparr>hk_ctl = Some 0, hk_unit = 0, hk_wpcom = 0, hk_ncyls = 10, hk_nheads = 4, hk_nsects = 17, hk_size = 680\<rparr>
       # replicate 3 \<lparr>hk_ctl = None, hk_unit = 0, hk_wpcom = 0, hk_ncyls = 0, hk_nheads = 0, hk_nsects = 0, hk_size = 0\<rparr>,
     hd_size = [100, 200] @ replicate 30 0, hd_off = [1, 101] @ replicate 30 0\<rparr>"

lemma sim_hd_ok: "hd_ok sim_hd"
  by (auto simp: hd_ok_def sim_hd_def disk_geom_def less_Suc_eq numeral_eq_Suc)


end
