(* ===== verification/Fdd.thy ===== *)
theory Fdd
  imports Hd
begin

unbundle bit_operations_syntax

text \<open>
  \<open>kern/dv/fd.c\<close>, the driver of the floppy disks: the controller's commands and their results, the seek, the
  retries, and the motor, which a clock stops. The controller is the parameter \<open>fdc\<close>: its ports,
  the wait for its interrupt and for its data register with a time limit, and the memory
  that the DMA controller shares with it.
\<close>

section \<open>The controller and the driver's variables\<close>

record 'h fdc =
  f_out :: "nat \<Rightarrow> byte \<Rightarrow> 'h \<Rightarrow> 'h"
  f_data :: "'h \<Rightarrow> byte \<times> 'h" \<comment> \<open>read the data register\<close>
  f_ready :: "byte \<Rightarrow> 'h \<Rightarrow> bool \<times> 'h" \<comment> \<open>wait until the status has these bits\<close>
  f_clear :: "'h \<Rightarrow> 'h" \<comment> \<open>forget an interrupt that came\<close>
  f_wait :: "nat \<Rightarrow> 'h \<Rightarrow> bool \<times> 'h" \<comment> \<open>wait for an interrupt at most as many ticks\<close>
  f_delay :: "nat \<Rightarrow> 'h \<Rightarrow> 'h"
  f_dma :: "'h \<Rightarrow> byte list"
  f_set_dma :: "byte list \<Rightarrow> 'h \<Rightarrow> 'h"

record 'h fst =
  fd_motor_timeout :: nat
  fdc_dor :: "32 word"
  need_reset :: bool
  curr_cyl :: "int list"
  fx :: 'h

abbreviation (input) "HZ \<equiv> (250::nat)"
abbreviation (input) "FD_MAX_RETRIES \<equiv> (3::nat)"
abbreviation (input) "FD_IO_TIMEOUT \<equiv> (HZ div 2)"
abbreviation (input) "FD_SEEK_TIMEOUT \<equiv> (HZ * 3)"
abbreviation (input) "FD_FORMAT_TIMEOUT \<equiv> (HZ * 3)"
abbreviation (input) "FD_SPINUP_DELAY \<equiv> HZ"
abbreviation (input) "FD_MOTOR_TIMEOUT \<equiv> (3 * HZ)"
abbreviation (input) "PHYS_UNITS \<equiv> (2::nat)"
abbreviation (input) "FDC_DOR \<equiv> (0x3F2::nat)"
abbreviation (input) "FDC_DATA \<equiv> (0x3F5::nat)"
abbreviation (input) "FDC_CONFIG \<equiv> (0x3F7::nat)"
abbreviation (input) "NCYL \<equiv> (80::nat)"
abbreviation (input) "NHEAD \<equiv> (2::nat)"
abbreviation (input) "NSECT \<equiv> (18::nat)"

type_synonym ('a, 'h) fres = "((errno + 'a) \<times> 'h fst) option"

definition fout :: "'h fdc \<Rightarrow> nat \<Rightarrow> byte \<Rightarrow> 'h fst \<Rightarrow> 'h fst" where
  "fout io p v s = s\<lparr>fx := f_out io p v (fx s)\<rparr>"

definition fd_clock :: "'h fdc \<Rightarrow> 'h fst \<Rightarrow> 'h fst" where
  "fd_clock io s =
     (if fd_motor_timeout s = 0 then s
      else
        let s = s\<lparr>fd_motor_timeout := fd_motor_timeout s - 1\<rparr>
        in if fd_motor_timeout s = 0 then fout io FDC_DOR 0x0C (s\<lparr>fdc_dor := 0x0C\<rparr>) else s)"

section \<open>Commands\<close>

definition fd_wait :: "'h fdc \<Rightarrow> nat \<Rightarrow> 'h fst \<Rightarrow> (unit, 'h) fres" where
  "fd_wait io timeout s =
     (let (came, h) = f_wait io timeout (fx s); s = s\<lparr>fx := h\<rparr>
      in if came then Some (Inr (), s) else Some (Inl EIO, s\<lparr>need_reset := True\<rparr>))"

definition fd_out :: "'h fdc \<Rightarrow> byte \<Rightarrow> 'h fst \<Rightarrow> (unit, 'h) fres" where
  "fd_out io b s =
     (let (ready, h) = f_ready io 0x80 (fx s); s = s\<lparr>fx := h\<rparr>
      in if ready then Some (Inr (), fout io FDC_DATA b s)
         else Some (Inl EIO, s\<lparr>fd_motor_timeout := FD_MOTOR_TIMEOUT, need_reset := True\<rparr>))"

definition fd_in :: "'h fdc \<Rightarrow> 'h fst \<Rightarrow> (byte, 'h) fres" where
  "fd_in io s =
     (let (ready, h) = f_ready io 0xC0 (fx s); s = s\<lparr>fx := h\<rparr>
      in if ready then let (v, h) = f_data io (fx s) in Some (Inr v, s\<lparr>fx := h\<rparr>)
         else Some (Inl EIO, s\<lparr>need_reset := True\<rparr>))"

fun fd_outs :: "'h fdc \<Rightarrow> byte list \<Rightarrow> 'h fst \<Rightarrow> (unit, 'h) fres" where
  "fd_outs io [] s = Some (Inr (), s)"
| "fd_outs io (b # bs) s = bindE (fd_out io b s) (\<lambda>_. fd_outs io bs)"

fun fd_ins :: "'h fdc \<Rightarrow> nat \<Rightarrow> 'h fst \<Rightarrow> (byte list, 'h) fres" where
  "fd_ins io 0 s = Some (Inr [], s)"
| "fd_ins io (Suc n) s = bindE (fd_in io s) (\<lambda>v s. bindE (fd_ins io n s) (\<lambda>vs s. Some (Inr (v # vs), s)))"

text \<open>Calls whose result is ignored.\<close>

definition ignore :: "('a, 'h) fres \<Rightarrow> 'h fst option" where
  "ignore m = map_option snd m"

section \<open>Reset, motor and seek\<close>

definition fd_sense :: "'h fdc \<Rightarrow> 'h fst \<Rightarrow> 'h fst option" where
  "fd_sense io s =
     ignore (bindE (fd_out io 8 s) (\<lambda>_ s. bindE (fd_in io s) (\<lambda>st0 s.
       if st0 AND 0xC0 \<noteq> 0x80 then fd_in io s else Some (Inr 0, s))))"

definition fd_reset :: "'h fdc \<Rightarrow> 'h fst \<Rightarrow> (unit, 'h) fres" where
  "fd_reset io s =
     (let s = s\<lparr>curr_cyl := replicate PHYS_UNITS (-1)\<rparr>;
          s = fout io FDC_DOR 0 s;
          s = s\<lparr>fx := f_delay io 1 (fx s)\<rparr>;
          s = fout io FDC_DOR (ucast (fdc_dor s OR 0x0C)) s
      in bindE (fd_wait io FD_IO_TIMEOUT s) (\<lambda>_ s. do {
           s \<leftarrow> fd_sense io s;
           s \<leftarrow> fd_sense io s;
           s \<leftarrow> fd_sense io s;
           s \<leftarrow> fd_sense io s;
           let s = fout io FDC_CONFIG 0 s;
           s \<leftarrow> ignore (fd_out io 3 s);
           s \<leftarrow> ignore (fd_out io 0x0F s);
           s \<leftarrow> ignore (fd_out io 0xFE s);
           Some (Inr (), s\<lparr>need_reset := False\<rparr>)
         }))"

definition fd_select :: "'h fdc \<Rightarrow> nat \<Rightarrow> 'h fst \<Rightarrow> 'h fst option" where
  "fd_select io u s = do {
     let motor = push_bit u 0x10;
     let s = s\<lparr>fd_motor_timeout := 0\<rparr>;
     s \<leftarrow> (if need_reset s then ignore (fd_reset io s) else Some s);
     let on = fdc_dor s AND motor \<noteq> 0;
     let s = s\<lparr>fdc_dor := motor OR of_nat u OR 0x0C\<rparr>;
     let s = fout io FDC_DOR (ucast (fdc_dor s)) s;
     Some (if on then s else s\<lparr>fx := f_delay io FD_SPINUP_DELAY (fx s)\<rparr>)
   }"

definition set_cyl :: "nat \<Rightarrow> int \<Rightarrow> 'h fst \<Rightarrow> 'h fst option" where
  "set_cyl u c s = (if u < PHYS_UNITS then Some (s\<lparr>curr_cyl := (curr_cyl s)[u := c]\<rparr>) else None)"

definition fail_cyl :: "nat \<Rightarrow> 'h fst \<Rightarrow> (unit, 'h) fres" where
  "fail_cyl u s = map_option (\<lambda>s. (Inl EIO, s)) (set_cyl u (-1) s)"

text \<open>The status after a seek; the result of the first command is ignored.\<close>

definition fd_seek_end :: "'h fdc \<Rightarrow> 'h fst \<Rightarrow> (byte \<times> byte, 'h) fres" where
  "fd_seek_end io s =
     Option.bind (ignore (fd_out io 8 s)) (\<lambda>s.
       bindE (fd_in io s) (\<lambda>st0 s. bindE (fd_in io s) (\<lambda>cyl s. Some (Inr (st0, cyl), s))))"

definition fd_seek0 :: "'h fdc \<Rightarrow> nat \<Rightarrow> 'h fst \<Rightarrow> (unit, 'h) fres" where
  "fd_seek0 io u s =
     bindE (fd_outs io [7, of_nat u] (s\<lparr>fx := f_clear io (fx s)\<rparr>)) (\<lambda>_ s.
     bindE (fd_wait io FD_SEEK_TIMEOUT s) (\<lambda>_ s.
     bindE (fd_seek_end io s) (\<lambda>(st0, cyl) s.
       if st0 AND 0xC0 \<noteq> 0 then fail_cyl u s
       else map_option (\<lambda>s. (Inr (), s)) (set_cyl u 0 s))))"

definition fd_seek :: "'h fdc \<Rightarrow> nat \<Rightarrow> nat \<Rightarrow> nat \<Rightarrow> 'h fst \<Rightarrow> (unit, 'h) fres" where
  "fd_seek io u c h s =
     bindE (fd_outs io [0x0F, of_nat u, of_nat c] (s\<lparr>fx := f_clear io (fx s)\<rparr>)) (\<lambda>_ s.
     bindE (fd_wait io FD_SEEK_TIMEOUT s) (\<lambda>_ s.
     bindE (fd_seek_end io s) (\<lambda>(st0, cyl) s.
       if st0 AND 0xC0 \<noteq> 0 then fail_cyl u s
       else if unat cyl \<noteq> c then fail_cyl u s
       else map_option (\<lambda>s. (Inr (), s)) (set_cyl u (int c) s))))"

text \<open>The address of the buffer for the DMA controller is \<open>addr\<close>.\<close>

definition fd_setup_dma :: "'h fdc \<Rightarrow> nat \<Rightarrow> bool \<Rightarrow> 'h fst \<Rightarrow> 'h fst" where
  "fd_setup_dma io addr wr s =
     fold (\<lambda>(p, v). fout io p v)
       [(0x0A, 6), (0x0B, if wr then 0x4A else 0x46), (0x0C, 0xFF), (4, of_nat addr), (4, of_nat (addr div 256)),
        (5, 0xFF), (5, 1), (0x81, of_nat (addr div 65536)), (0x0A, 2)] s"

section \<open>Reading and writing\<close>

text \<open>Moving the head to the cylinder, where a failure forgets where it is.\<close>

definition fd_goto :: "'h fdc \<Rightarrow> nat \<Rightarrow> nat \<Rightarrow> nat \<Rightarrow> 'h fst \<Rightarrow> (unit, 'h) fres" where
  "fd_goto io u c h s =
     (if u \<ge> PHYS_UNITS then None
      else bindE (if curr_cyl s ! u < 0 then fd_seek0 io u s else Some (Inr (), s)) (\<lambda>_ s.
        if curr_cyl s ! u = int c then Some (Inr (), s)
        else Option.bind (fd_seek io u c h s) (\<lambda>(r, s).
          case r of
            Inl e \<Rightarrow> map_option (\<lambda>s. (Inl e, s)) (set_cyl u (-1) s)
          | Inr _ \<Rightarrow> Some (Inr (), s))))"

text \<open>
  One attempt: the bytes of the command for a sector, the wait, and the seven bytes of the result; before that the
  motor, the seek and the DMA controller.
\<close>

definition fd_cmd :: "bool \<Rightarrow> nat \<Rightarrow> nat \<times> nat \<times> nat \<Rightarrow> byte list" where
  "fd_cmd wr u = (\<lambda>(c, h, t). [if wr then 0x45 else 0xE6, of_nat u OR push_bit 2 (of_nat h), of_nat c, of_nat h, of_nat (t + 1),
     2, of_nat (t + 1), 27, 0xFF])"

definition fd_command :: "'h fdc \<Rightarrow> nat \<Rightarrow> byte list \<Rightarrow> nat \<Rightarrow> 'h fst \<Rightarrow> (unit, 'h) fres" where
  "fd_command io u cmd timeout s =
     bindE (fd_outs io cmd (s\<lparr>fx := f_clear io (fx s)\<rparr>)) (\<lambda>_ s.
     bindE (fd_wait io timeout s) (\<lambda>_ s.
     bindE (fd_ins io 7 s) (\<lambda>res s.
       if hd res AND 0xC0 \<noteq> 0 then fail_cyl u s else Some (Inr (), s))))"

definition fd_xfer :: "'h fdc \<Rightarrow> nat \<Rightarrow> bool \<Rightarrow> nat \<Rightarrow> nat \<times> nat \<times> nat \<Rightarrow> 'h fst \<Rightarrow> (unit, 'h) fres" where
  "fd_xfer io addr wr u chs s =
     Option.bind (fd_select io u s) (\<lambda>s.
     bindE (fd_goto io u (fst chs) (fst (snd chs)) s) (\<lambda>_ s.
       fd_command io u (fd_cmd wr u chs) FD_IO_TIMEOUT (fd_setup_dma io addr wr s)))"

fun fd_retry :: "nat \<Rightarrow> ('h fst \<Rightarrow> (unit, 'h) fres) \<Rightarrow> errno \<Rightarrow> 'h fst \<Rightarrow> (unit, 'h) fres" where
  "fd_retry 0 m err s = Some (Inl err, s)"
| "fd_retry (Suc n) m err s =
     Option.bind (m s) (\<lambda>(r, s). case r of Inl err \<Rightarrow> fd_retry n m err s | Inr _ \<Rightarrow> Some (Inr (), s))"

definition fd_chs :: "nat \<Rightarrow> nat \<times> nat \<times> nat" where
  "fd_chs blk = (blk div NSECT div NHEAD, blk div NSECT mod NHEAD, blk mod NSECT)"

definition fd_bread :: "'h fdc \<Rightarrow> nat \<Rightarrow> nat \<Rightarrow> nat \<Rightarrow> 'h fst \<Rightarrow> (byte list, 'h) fres" where
  "fd_bread io addr dev blk s =
     (let u = minor dev; (c, h, t) = fd_chs blk in
      if c \<ge> NCYL then Some (Inl EIO, s)
      else map_option (\<lambda>(r, s). (map_sum id (\<lambda>_. take 512 (f_dma io (fx s))) r, s\<lparr>fd_motor_timeout := FD_MOTOR_TIMEOUT\<rparr>))
             (fd_retry FD_MAX_RETRIES (fd_xfer io addr False u (c, h, t)) EIO s))"

text \<open>The data are put in the DMA buffer once; the timeout of the motor is only set when the write succeeds.\<close>

definition fd_bwrite :: "'h fdc \<Rightarrow> nat \<Rightarrow> nat \<Rightarrow> nat \<Rightarrow> byte list \<Rightarrow> 'h fst \<Rightarrow> (unit, 'h) fres" where
  "fd_bwrite io addr dev blk buf s =
     (let s = s\<lparr>fx := f_set_dma io buf (fx s)\<rparr>; u = minor dev; (c, h, t) = fd_chs blk in
      if c \<ge> NCYL then Some (Inl EIO, s)
      else bindE (fd_retry FD_MAX_RETRIES (fd_xfer io addr True u (c, h, t)) EIO s) (\<lambda>_ s.
             Some (Inr (), s\<lparr>fd_motor_timeout := FD_MOTOR_TIMEOUT\<rparr>)))"

section \<open>Formatting, control and the raw device\<close>

definition fd_fmttrk :: "'h fdc \<Rightarrow> nat \<Rightarrow> nat \<Rightarrow> int \<Rightarrow> int \<Rightarrow> 'h fst \<Rightarrow> (unit, 'h) fres" where
  "fd_fmttrk io addr u c h s =
     (if c < 0 \<or> c \<ge> 80 \<or> h < 0 \<or> h \<ge> 2 then Some (Inl EINVAL, s)
      else Option.bind (fd_select io u s) (\<lambda>s.
        map_option (\<lambda>(r, s). (r, s\<lparr>fd_motor_timeout := FD_MOTOR_TIMEOUT\<rparr>))
          (if u \<ge> PHYS_UNITS then None
           else bindE (if curr_cyl s ! u < 0 then fd_seek0 io u s else Some (Inr (), s)) (\<lambda>_ s.
           bindE (if curr_cyl s ! u \<noteq> c then fd_seek io u (nat c) (nat h) s else Some (Inr (), s)) (\<lambda>_ s.
           let dma = concat (map (\<lambda>i. [of_int c, of_int h, of_nat i, 2]) [1..<19]);
               s = s\<lparr>fx := f_set_dma io dma (fx s)\<rparr>
           in fd_command io u [0x4D, of_nat u OR push_bit 2 (of_int h), 2, 18, 0x54, 0x58] FD_FORMAT_TIMEOUT
                (fd_setup_dma io addr True s))))))"

definition fd_init :: "'h fdc \<Rightarrow> 'h fst \<Rightarrow> 'h fst" where
  "fd_init io s = fout io FDC_DOR 0x0C (s\<lparr>curr_cyl := replicate PHYS_UNITS (-1)\<rparr>)"

definition fd_stop :: "'h fdc \<Rightarrow> 'h fst \<Rightarrow> 'h fst" where
  "fd_stop io s = fout io FDC_DOR 0x0C (s\<lparr>fd_motor_timeout := 0, fdc_dor := 0x0C\<rparr>)"

definition fd_ioctl :: "'h fdc \<Rightarrow> nat \<Rightarrow> nat \<Rightarrow> int \<Rightarrow> nat \<Rightarrow> 'h fst kh \<Rightarrow> ((errno + unit) \<times> 'h fst kh) option" where
  "fd_ioctl io addr dev cmd ptr = (\<lambda>(k, s).
     if cmd = DIOCGINFO then map_option (\<lambda>(r, k). (r, k, s)) (tucpy ptr (le32s [80, 2, 18, 0, 0]) k)
     else if cmd = DIOCFMTTRK then do {
       (r, k) \<leftarrow> fucpy ptr 8 k;
       (case r of
          Inl e \<Rightarrow> Some (Inl e, k, s)
        | Inr b \<Rightarrow> map_option (\<lambda>(r, s). (r, k, s))
            (fd_fmttrk io addr (dev mod 2) (sint (of_nat (rd32 b 0) :: 32 word)) (sint (of_nat (rd32 b 4) :: 32 word)) s))
     }
     else Some (Inl ENOTTY, k, s))"

definition rfd_ioctl :: "'h fdc \<Rightarrow> nat \<Rightarrow> nat \<Rightarrow> int \<Rightarrow> nat \<Rightarrow> 'h fst kh \<Rightarrow> ((errno + unit) \<times> 'h fst kh) option" where
  "rfd_ioctl io addr i cmd ptr = (\<lambda>(k, s). fd_ioctl io addr (i_rdev k i) cmd ptr (k, s))"

definition rfd_read :: "'h fdc \<Rightarrow> nat \<Rightarrow> rwreq \<Rightarrow> 'h fst kh \<Rightarrow> ((errno + rwreq) \<times> 'h fst kh) option" where
  "rfd_read io addr req s = raw_rw (to_user (fd_bread io addr (i_rdev (fst s) (rw_ino req)))) req s"

definition rfd_write :: "'h fdc \<Rightarrow> nat \<Rightarrow> rwreq \<Rightarrow> 'h fst kh \<Rightarrow> ((errno + rwreq) \<times> 'h fst kh) option" where
  "rfd_write io addr req s' =
     raw_rw (from_user (\<lambda>blk bs s. map_option (\<lambda>(r, s). (map_sum id (\<lambda>_. bs) r, s))
       (fd_bwrite io addr (i_rdev (fst s') (rw_ino req)) blk bs s))) req s'"

section \<open>A read that succeeds is of the right sector\<close>

text \<open>
  \<open>tr\<close> is what has passed through the data register, in order: the bytes the driver wrote and the bytes it
  read; nothing else in the controller changes it. \<open>fd_ok\<close> is the shape of the driver's variables.
\<close>

datatype fdev = Sent byte | Got byte

definition fdc_log :: "'h fdc \<Rightarrow> ('h \<Rightarrow> fdev list) \<Rightarrow> bool" where
  "fdc_log io tr \<longleftrightarrow>
     (\<forall>p v h. tr (f_out io p v h) = (if p = FDC_DATA then tr h @ [Sent v] else tr h))
     \<and> (\<forall>h. tr (snd (f_data io h)) = tr h @ [Got (fst (f_data io h))]) \<and> (\<forall>b h. tr (snd (f_ready io b h)) = tr h)
     \<and> (\<forall>h. tr (f_clear io h) = tr h) \<and> (\<forall>n h. tr (snd (f_wait io n h)) = tr h)
     \<and> (\<forall>n h. tr (f_delay io n h) = tr h) \<and> (\<forall>d h. tr (f_set_dma io d h) = tr h)"

definition fd_ok :: "'h fst \<Rightarrow> bool" where
  "fd_ok s \<longleftrightarrow> length (curr_cyl s) = PHYS_UNITS"

text \<open>
  How often the code of the command that reads a sector was sent; no other byte that the driver sends has this value.
\<close>

definition reads :: "('h \<Rightarrow> fdev list) \<Rightarrow> 'h fst \<Rightarrow> nat" where
  "reads tr s = count_list (tr (fx s)) (Sent 0xE6)"

lemma fout_simps:
  assumes "fdc_log io tr"
  shows "curr_cyl (fout io p v s) = curr_cyl s" "tr (fx (fout io p v s)) = (if p = FDC_DATA then tr (fx s) @ [Sent v] else tr (fx s))"
  using assms by (simp_all add: fout_def fdc_log_def)

lemma count_sent: "count_list (map Sent bs) (Sent b) = count_list bs b" "count_list (map Got bs) (Sent b) = 0"
  by (induction bs) simp_all

lemma fd_wait_ret: "fdc_log io tr \<Longrightarrow> returns (fd_wait io n s) (\<lambda>(r, s'). curr_cyl s' = curr_cyl s \<and> tr (fx s') = tr (fx s))"
  by (simp add: fd_wait_def Let_def case_prod_beta fdc_log_def)

lemma fd_out_ret:
  "fdc_log io tr \<Longrightarrow> returns (fd_out io b s) (\<lambda>(r, s'). curr_cyl s' = curr_cyl s
     \<and> tr (fx s') = tr (fx s) @ (if r = Inr () then [Sent b] else []))"
  by (simp add: fd_out_def Let_def case_prod_beta fout_simps) (simp add: fdc_log_def)

lemma fd_in_ret:
  "fdc_log io tr \<Longrightarrow> returns (fd_in io s) (\<lambda>(r, s'). curr_cyl s' = curr_cyl s
     \<and> tr (fx s') = tr (fx s) @ (case r of Inl _ \<Rightarrow> [] | Inr v \<Rightarrow> [Got v]))"
  by (simp add: fd_in_def Let_def case_prod_beta fdc_log_def)

lemma fd_outs_ret:
  assumes log: "fdc_log io tr"
  shows "returns (fd_outs io bs s) (\<lambda>(r, s'). curr_cyl s' = curr_cyl s
    \<and> (\<exists>k. tr (fx s') = tr (fx s) @ map Sent (take k bs) \<and> (r = Inr () \<longrightarrow> length bs \<le> k)))"
proof (induction bs arbitrary: s)
  case (Cons b bs)
  have part: "\<exists>k. Sent b # map Sent (take j bs) = map Sent (take k (b # bs))" for j by (rule exI [of _ "Suc j"]) simp
  have whole: "\<exists>k. Sent b # map Sent bs = map Sent (take k (b # bs)) \<and> (c \<longrightarrow> Suc (length bs) \<le> k)" for c
    by (rule exI [of _ "Suc (length bs)"]) simp
  show ?case
    by (simp only: fd_outs.simps returns_bindE, rule returns_mono2 [OF fd_out_ret [OF log]])
      (auto split: sum.splits intro!: returns_mono2 [OF Cons.IH] part whole intro: exI [of _ 0])
qed simp

lemma fd_ins_ret:
  assumes log: "fdc_log io tr"
  shows "returns (fd_ins io n s) (\<lambda>(r, s'). curr_cyl s' = curr_cyl s
    \<and> (\<exists>gs. tr (fx s') = tr (fx s) @ map Got gs \<and> (\<forall>vs. r = Inr vs \<longrightarrow> gs = vs \<and> length vs = n)))"
proof (induction n arbitrary: s)
  case (Suc n)
  have part: "\<exists>hs. Got v # map Got gs = map Got hs" for v gs by (rule exI [of _ "v # gs"]) simp
  show ?case
    by (simp only: fd_ins.simps returns_bindE, rule returns_mono2 [OF fd_in_ret [OF log]])
      (auto split: sum.splits intro!: returns_mono2 [OF Suc.IH] part intro: exI [of _ "[]"])
qed simp

lemma returns_ignore: "returns (ignore m) Q = returns m (\<lambda>(r, s). Q s)"
  by (cases m) (auto simp: ignore_def)

text \<open>The steps that do not send that code keep this.\<close>

definition still :: "('h \<Rightarrow> fdev list) \<Rightarrow> nat \<Rightarrow> 'h fst \<Rightarrow> bool" where
  "still tr n s \<longleftrightarrow> fd_ok s \<and> reads tr s = n"

lemma still_simps [simp]:
  "still tr n (s\<lparr>fd_motor_timeout := m\<rparr>) = still tr n s" "still tr n (s\<lparr>fdc_dor := d\<rparr>) = still tr n s"
  "still tr n (s\<lparr>need_reset := b\<rparr>) = still tr n s"
  by (simp_all add: still_def reads_def fd_ok_def)

lemma still_hw [simp]:
  "fdc_log io tr \<Longrightarrow> still tr n (fout io p v s) = (if p = FDC_DATA \<and> v = 0xE6 then still tr n (fout io p v s) else still tr n s)"
  "fdc_log io tr \<Longrightarrow> still tr n (s\<lparr>fx := f_clear io (fx s)\<rparr>) = still tr n s"
  "fdc_log io tr \<Longrightarrow> still tr n (s\<lparr>fx := f_delay io m (fx s)\<rparr>) = still tr n s"
  by (auto simp: still_def reads_def fd_ok_def fout_simps) (simp_all add: fdc_log_def)

lemma fd_wait_still: "fdc_log io tr \<Longrightarrow> still tr n s \<Longrightarrow> returns (fd_wait io m s) (\<lambda>(r, s'). still tr n s')"
  by (rule returns_mono2 [OF fd_wait_ret]) (auto simp: still_def reads_def fd_ok_def)

lemma fd_out_still: "fdc_log io tr \<Longrightarrow> b \<noteq> 0xE6 \<Longrightarrow> still tr n s \<Longrightarrow> returns (fd_out io b s) (\<lambda>(r, s'). still tr n s')"
  by (rule returns_mono2 [OF fd_out_ret]) (auto simp: still_def reads_def fd_ok_def)

lemma fd_in_still: "fdc_log io tr \<Longrightarrow> still tr n s \<Longrightarrow> returns (fd_in io s) (\<lambda>(r, s'). still tr n s')"
  by (rule returns_mono2 [OF fd_in_ret]) (auto simp: still_def reads_def fd_ok_def split: sum.splits)

lemma fd_outs_still:
  "fdc_log io tr \<Longrightarrow> 0xE6 \<notin> set bs \<Longrightarrow> still tr n s \<Longrightarrow> returns (fd_outs io bs s) (\<lambda>(r, s'). still tr n s')"
  by (rule returns_mono2 [OF fd_outs_ret])
    (auto simp: still_def reads_def fd_ok_def count_sent count_list_0_iff dest: in_set_takeD)

lemma fd_sense_still:
  assumes log: "fdc_log io tr" and "still tr n s"
  shows "returns (fd_sense io s) (still tr n)"
  unfolding fd_sense_def returns_ignore returns_bindE
  by (rule returns_mono2 [OF fd_out_still [OF log _ assms(2)]])
    (auto split: sum.splits intro!: returns_mono2 [OF fd_in_still [OF log]])

lemma fd_reset_still:
  assumes log: "fdc_log io tr" and s: "still tr n s"
  shows "returns (fd_reset io s) (\<lambda>(r, s'). still tr n s')"
proof -
  have "still tr n (s\<lparr>curr_cyl := replicate PHYS_UNITS (-1)\<rparr>)" using s by (simp add: still_def reads_def fd_ok_def)
  then show ?thesis
    unfolding fd_reset_def returns_bindE returns_bind returns_ignore Let_def
    by (intro returns_mono2 [OF fd_wait_still [OF log]])
      (auto simp: log returns_bind returns_ignore Let_def split: sum.splits
         intro!: returns_mono [OF fd_sense_still [OF log]] returns_mono2 [OF fd_out_still [OF log]])
qed

lemma fd_select_still:
  assumes log: "fdc_log io tr" and s: "still tr n s"
  shows "returns (fd_select io u s) (still tr n)"
proof -
  have "returns (if need_reset s then ignore (fd_reset io s) else Some s) (still tr n)" if "still tr n s" for s
    using that fd_reset_still [OF log that] by (simp add: returns_ignore)
  then show ?thesis
    unfolding fd_select_def Let_def returns_bind by (rule returns_mono) (use s in \<open>simp_all add: log\<close>)
qed

lemma fd_seek_end_still:
  assumes log: "fdc_log io tr" and s: "still tr n s"
  shows "returns (fd_seek_end io s) (\<lambda>(r, s'). still tr n s')"
  unfolding fd_seek_end_def returns_bind returns_ignore returns_bindE
  by (rule returns_mono2 [OF fd_out_still [OF log _ s]])
    (auto split: sum.splits intro!: returns_mono2 [OF fd_in_still [OF log]])

lemma set_cyl_still: "still tr n s \<Longrightarrow> u < PHYS_UNITS \<Longrightarrow> returns (set_cyl u c s) (\<lambda>t. still tr n t \<and> curr_cyl t ! u = c)"
  by (simp add: set_cyl_def still_def reads_def fd_ok_def)

lemma fail_cyl_still: "still tr n s \<Longrightarrow> u < PHYS_UNITS \<Longrightarrow> returns (fail_cyl u s) (\<lambda>(r, t). still tr n t \<and> r = Inl EIO)"
  unfolding fail_cyl_def returns_map_option by (rule returns_mono [OF set_cyl_still]) auto

lemma small_byte: "k < 0xE6 \<Longrightarrow> (of_nat k :: byte) \<noteq> 0xE6"
proof
  assume k: "k < 0xE6" and "(of_nat k :: byte) = 0xE6"
  then have "unat (of_nat k :: byte) = 0xE6" by simp
  then show False using k by (simp add: unat_of_nat)
qed

lemma fd_seek0_still:
  assumes log: "fdc_log io tr" and s: "still tr n s" and u: "u < PHYS_UNITS"
  shows "returns (fd_seek0 io u s) (\<lambda>(r, s'). still tr n s')"
proof -
  have "(0xE6 :: byte) \<notin> set [7, of_nat u]" using small_byte [of u] u by simp
  then show ?thesis
    unfolding fd_seek0_def returns_bindE
    by (intro returns_mono2 [OF fd_outs_still [OF log]])
      (use s u in \<open>auto simp: log returns_bindE returns_map_option split: sum.splits
         intro!: returns_mono2 [OF fd_wait_still [OF log]] returns_mono2 [OF fd_seek_end_still [OF log]]
           returns_mono2 [OF fail_cyl_still] returns_mono [OF set_cyl_still]\<close>)
qed

lemma fd_seek_still:
  assumes log: "fdc_log io tr" and s: "still tr n s" and u: "u < PHYS_UNITS" and c: "c < NCYL"
  shows "returns (fd_seek io u c h s) (\<lambda>(r, s'). still tr n s' \<and> (r = Inr () \<longrightarrow> curr_cyl s' ! u = int c))"
proof -
  have "(0xE6 :: byte) \<notin> set [0x0F, of_nat u, of_nat c]" using small_byte [of u] small_byte [of c] u c by simp
  then show ?thesis
    unfolding fd_seek_def returns_bindE
    by (intro returns_mono2 [OF fd_outs_still [OF log]])
      (use s u in \<open>auto simp: log returns_bindE returns_map_option split: sum.splits
         intro!: returns_mono2 [OF fd_wait_still [OF log]] returns_mono2 [OF fd_seek_end_still [OF log]]
           returns_mono2 [OF fail_cyl_still] returns_mono [OF set_cyl_still]\<close>)
qed

lemma fd_goto_still:
  assumes log: "fdc_log io tr" and s: "still tr n s" and u: "u < PHYS_UNITS" and c: "c < NCYL"
  shows "returns (fd_goto io u c h s) (\<lambda>(r, s'). still tr n s' \<and> (r = Inr () \<longrightarrow> curr_cyl s' ! u = int c))"
proof -
  have step: "returns (Option.bind (fd_seek io u c h s) (\<lambda>(r, s).
          case r of Inl e \<Rightarrow> map_option (\<lambda>s. (Inl e, s)) (set_cyl u (-1) s) | Inr _ \<Rightarrow> Some (Inr (), s)))
      (\<lambda>(r, s'). still tr n s' \<and> (r = Inr () \<longrightarrow> curr_cyl s' ! u = int c))" if "still tr n s" for s
    by (rule returns_bindI [OF fd_seek_still [OF log that u c]])
      (use u in \<open>auto simp: returns_map_option split: sum.splits intro!: returns_mono [OF set_cyl_still]\<close>)
  have first: "returns (if curr_cyl s ! u < 0 then fd_seek0 io u s else Some (Inr (), s)) (\<lambda>(r, s'). still tr n s')"
    using fd_seek0_still [OF log s u] s by simp
  have "\<not> PHYS_UNITS \<le> u" using u by simp
  then show ?thesis
    by (simp only: fd_goto_def if_False, intro returns_bindEI [OF first]) (simp_all add: step)
qed

lemma fd_setup_dma_simps:
  assumes "fdc_log io tr"
  shows "curr_cyl (fd_setup_dma io a wr s) = curr_cyl s" "still tr n (fd_setup_dma io a wr s) = still tr n s"
  using assms by (simp_all add: fd_setup_dma_def fout_simps)

text \<open>One attempt sends the command once at most; a success comes after the command and a result that reports no error.\<close>

definition answered :: "fdev list \<Rightarrow> byte list \<Rightarrow> bool" where
  "answered es cmd \<longleftrightarrow> (\<exists>w rs. es = w @ map Sent cmd @ map Got rs \<and> length rs = 7 \<and> hd rs AND 0xC0 = 0)"

lemma fd_command_ret:
  fixes io :: "'h fdc" and s :: "'h fst"
  assumes log: "fdc_log io tr" and s: "fd_ok s" and u: "u < PHYS_UNITS"
  shows "returns (fd_command io u cmd m s) (\<lambda>(r, s'). fd_ok s' \<and> reads tr s' \<le> reads tr s + count_list cmd 0xE6
    \<and> (r = Inr () \<longrightarrow> curr_cyl s' = curr_cyl s \<and> answered (tr (fx s')) cmd))" (is "returns _ ?Q")
proof -
  have part: "count_list (take k cmd) b \<le> count_list cmd b" for k and b :: byte
    by (metis append_take_drop_id count_list_append le_add1)
  let ?s = "s\<lparr>fx := f_clear io (fx s)\<rparr>"
  have clear: "curr_cyl ?s = curr_cyl s" "tr (fx ?s) = tr (fx s)" using log by (simp_all add: fdc_log_def)
  have res: "returns (bindE (fd_ins io 7 t) (\<lambda>res s. if hd res AND 0xC0 \<noteq> 0 then fail_cyl u s else Some (Inr (), s))) ?Q"
    if t: "curr_cyl t = curr_cyl s" "tr (fx t) = tr (fx s) @ map Sent cmd" for t
  proof (rule returns_bindEI [OF fd_ins_ret [OF log]])
    fix rs and t' :: "'h fst"
    assume "curr_cyl t' = curr_cyl t \<and> (\<exists>gs. tr (fx t') = tr (fx t) @ map Got gs \<and> (\<forall>vs. Inr rs = Inr vs \<longrightarrow> gs = vs \<and> length vs = 7))"
    then have g: "curr_cyl t' = curr_cyl t" "tr (fx t') = tr (fx s) @ map Sent cmd @ map Got rs" "length rs = 7"
      using t(2) by auto
    then have still: "still tr (reads tr s + count_list cmd 0xE6) t'"
      using s t by (simp add: still_def fd_ok_def reads_def count_sent)
    then show "returns (if hd rs AND 0xC0 \<noteq> 0 then fail_cyl u t' else Some (Inr (), t')) ?Q"
      using g t(1) by (auto simp: still_def answered_def intro!: returns_mono2 [OF fail_cyl_still [OF still u]])
  qed (use s t in \<open>auto simp: fd_ok_def reads_def count_sent\<close>)
  have wait: "returns (bindE (fd_wait io m t) (\<lambda>_ s. bindE (fd_ins io 7 s) (\<lambda>res s.
       if hd res AND 0xC0 \<noteq> 0 then fail_cyl u s else Some (Inr (), s)))) ?Q"
    if t: "curr_cyl t = curr_cyl s" "tr (fx t) = tr (fx s) @ map Sent cmd" for t
    by (rule returns_bindEI [OF fd_wait_ret [OF log]], rule res) (use t s in \<open>auto simp: fd_ok_def reads_def count_sent\<close>)
  show ?thesis
    unfolding fd_command_def
    by (rule returns_bindEI [OF fd_outs_ret [OF log]], rule wait)
      (use s clear part in \<open>auto simp: fd_ok_def reads_def count_sent\<close>)
qed

lemma fd_cmd_reads:
  assumes "u < PHYS_UNITS" and "c < NCYL" and "h < NHEAD" and "t < NSECT"
  shows "fd_cmd False u (c, h, t) = [0xE6, of_nat (4 * h + u), of_nat c, of_nat h, of_nat (t + 1), 2, of_nat (t + 1), 27, 0xFF]"
    and "count_list (fd_cmd False u (c, h, t)) 0xE6 \<le> 1"
proof -
  have "h = 0 \<or> h = 1" "u = 0 \<or> u = 1" using assms by auto
  then show e: "fd_cmd False u (c, h, t) = [0xE6, of_nat (4 * h + u), of_nat c, of_nat h, of_nat (t + 1), 2, of_nat (t + 1), 27, 0xFF]"
    by (auto simp: fd_cmd_def)
  show "count_list (fd_cmd False u (c, h, t)) 0xE6 \<le> 1"
    unfolding e using small_byte [of "4 * h + u"] small_byte [of c] small_byte [of h] small_byte [of "t + 1"] assms by simp
qed

lemma fd_xfer_ret:
  assumes log: "fdc_log io tr" and ok: "fd_ok s" and u: "u < PHYS_UNITS" and c: "c < NCYL"
    and one: "count_list (fd_cmd wr u (c, h, t)) 0xE6 \<le> 1"
  shows "returns (fd_xfer io a wr u (c, h, t) s) (\<lambda>(r, s'). fd_ok s' \<and> reads tr s' \<le> reads tr s + 1
    \<and> (r = Inr () \<longrightarrow> curr_cyl s' ! u = int c \<and> answered (tr (fx s')) (fd_cmd wr u (c, h, t))))" (is "returns _ ?Q")
proof -
  have cmd: "returns (fd_command io u (fd_cmd wr u (c, h, t)) m t') ?Q"
    if "still tr (reads tr s) t'" "curr_cyl t' ! u = int c" for m t'
    by (rule returns_mono2 [OF fd_command_ret [OF log _ u]]) (use that one in \<open>auto simp: still_def\<close>)
  have step: "returns (bindE (fd_goto io u c h t') (\<lambda>_ s. fd_command io u (fd_cmd wr u (c, h, t)) m (fd_setup_dma io a wr s))) ?Q"
    if "still tr (reads tr s) t'" for t' m
    by (rule returns_bindEI [OF fd_goto_still [OF log that u c]], rule cmd)
      (simp_all only: fd_setup_dma_simps [OF log], simp_all add: still_def)
  have s: "still tr (reads tr s) s" using ok by (simp add: still_def)
  show ?thesis
    unfolding fd_xfer_def fst_conv snd_conv by (rule returns_bindI [OF fd_select_still [OF log s]]) (rule step)
qed

lemma fd_retry_ret:
  assumes "\<And>s. fd_ok s \<Longrightarrow> returns (m s) (\<lambda>(r, s'). fd_ok s' \<and> reads tr s' \<le> reads tr s + 1 \<and> (r = Inr () \<longrightarrow> P s'))" and "fd_ok s"
  shows "returns (fd_retry n m err s) (\<lambda>(r, s'). fd_ok s' \<and> reads tr s' \<le> reads tr s + n \<and> (r = Inr () \<longrightarrow> P s'))"
  using assms(2)
proof (induction n arbitrary: err s)
  case (Suc n)
  show ?case
    unfolding fd_retry.simps
    by (rule returns_bindI [OF assms(1) [OF Suc.prems]]) (auto split: sum.split intro!: returns_mono2 [OF Suc.IH])
qed simp

text \<open>Every error of the driver is \<open>EIO\<close>.\<close>

definition eio :: "('a, 'h) fres \<Rightarrow> bool" where
  "eio m \<longleftrightarrow> (\<forall>e s. m = Some (Inl e, s) \<longrightarrow> e = EIO)"

lemma eio_bindE: "eio m \<Longrightarrow> (\<And>x s. eio (f x s)) \<Longrightarrow> eio (bindE m f)"
  by (auto simp: eio_def bindE_def split: bind_splits sum.splits)

lemma eio_bind: "(\<And>s. eio (f s)) \<Longrightarrow> eio (Option.bind m f)"
  by (cases m) (simp_all add: eio_def)

lemma eio_steps: "eio (Some (Inr x, s))" "eio (fd_wait io n s)" "eio (fd_out io b s)" "eio (fd_in io s)" "eio (fail_cyl u s)"
  "eio (map_option (\<lambda>s. (Inr (), s)) m)"
  by (auto simp: eio_def fd_wait_def fd_out_def fd_in_def fail_cyl_def Let_def split: prod.splits if_splits)

lemma eio_lists: "eio (fd_outs io bs s)" "eio (fd_ins io n s)"
proof -
  show "eio (fd_outs io bs s)" by (induction bs arbitrary: s) (auto intro!: eio_bindE eio_steps)
  show "eio (fd_ins io n s)" by (induction n arbitrary: s) (auto intro!: eio_bindE eio_steps)
qed

lemma eio_seeks: "eio (fd_seek0 io u s)" "eio (fd_seek io u c h s)" "eio (fd_goto io u c h s)" "eio (fd_command io u cmd n s)"
proof -
  have "eio (fd_seek_end io s)" for s unfolding fd_seek_end_def by (intro eio_bind eio_bindE eio_steps)
  then show seek: "eio (fd_seek0 io u s)" "eio (fd_seek io u c h s)" for u c h s
    unfolding fd_seek0_def fd_seek_def by (auto intro!: eio_bindE eio_steps eio_lists split: prod.split)
  have "eio (Option.bind (fd_seek io u c h s) (\<lambda>(r, s). case r of Inl e \<Rightarrow> map_option (\<lambda>s. (Inl e, s)) (set_cyl u (-1) s)
      | Inr _ \<Rightarrow> Some (Inr (), s)))" for s
    using seek(2) [of u c h s] by (cases "fd_seek io u c h s") (auto simp: eio_def split: sum.splits)
  then show "eio (fd_goto io u c h s)"
    unfolding fd_goto_def using seek(1) by (auto simp: eio_def [of None] intro!: eio_bindE eio_steps)
  show "eio (fd_command io u cmd n s)"
    unfolding fd_command_def by (auto intro!: eio_bindE eio_steps eio_lists)
qed

lemma eio_xfer: "eio (fd_xfer io a wr u chs s)"
  unfolding fd_xfer_def by (intro eio_bind eio_bindE eio_seeks)

lemma eio_retry:
  assumes "\<And>s. eio (m s)"
  shows "eio (fd_retry n m EIO s)"
proof -
  have "fd_retry n m err s = Some (Inl e, t) \<Longrightarrow> err = EIO \<Longrightarrow> e = EIO" for err e t s
  proof (induction n arbitrary: err s)
    case (Suc n)
    then show ?case using assms unfolding eio_def by (fastforce split: bind_splits sum.splits)
  qed simp
  then show ?thesis by (auto simp: eio_def)
qed

lemma fd_chs_bounds:
  assumes "fd_chs blk = (c, h, t)"
  shows "h < NHEAD" "t < NSECT" "c = blk div 36" "h = blk div 18 mod 2" "t = blk mod 18" "c < NCYL \<longleftrightarrow> blk < 2880"
proof -
  have e: "c = blk div NSECT div NHEAD" "h = blk div NSECT mod NHEAD" "t = blk mod NSECT"
    using assms by (simp_all add: fd_chs_def)
  show "h < NHEAD" "t < NSECT" "h = blk div 18 mod 2" "t = blk mod 18" by (simp_all add: e)
  show c: "c = blk div 36" by (simp add: e div_mult2_eq [symmetric])
  show "c < NCYL \<longleftrightarrow> blk < 2880" unfolding c by linarith
qed

lemma fd_clocks: "n = fd_motor_timeout s \<Longrightarrow> 0 < n \<Longrightarrow> fdc_dor ((fd_clock io ^^ n) s) = 0x0C"
proof (induction n arbitrary: s)
  case (Suc n)
  have "(fd_clock io ^^ Suc n) s = (fd_clock io ^^ n) (fd_clock io s)" by (simp add: funpow_swap1)
  moreover have "fd_motor_timeout (fd_clock io s) = n" "n = 0 \<Longrightarrow> fdc_dor (fd_clock io s) = 0x0C"
    using Suc.prems(1) [symmetric] by (auto simp: fd_clock_def Let_def fout_def)
  ultimately show ?case using Suc.IH [of "fd_clock io s"] by (cases n) simp_all
qed simp

text \<open>
  Property C0. Reading a block of a floppy disk always returns, and sends the command that reads a sector three times
  at most. When it succeeds, the last that went through the data register is this command for the cylinder, the head
  and the sector of the block, sectors counted from one, and a result of seven bytes whose first reports no error; the
  head is on the cylinder, and the data are those in the memory of the DMA controller. A failure is \<open>EIO\<close>;
  a block behind the last cylinder is a failure and sends nothing. However the read ends, the motor is switched off after
  \<open>FD_MOTOR_TIMEOUT\<close> ticks.
\<close>

theorem fd_read_sector:
  assumes log: "fdc_log io tr" and ok: "fd_ok s" and u: "minor dev < PHYS_UNITS"
  shows "if blk < 2880 then
      returns (fd_bread io addr dev blk s) (\<lambda>(r, s'). fd_ok s' \<and> fdc_dor ((fd_clock io ^^ FD_MOTOR_TIMEOUT) s') = 0x0C
        \<and> count_list (tr (fx s')) (Sent 0xE6) \<le> count_list (tr (fx s)) (Sent 0xE6) + 3
        \<and> (case r of Inl e \<Rightarrow> e = EIO | Inr d \<Rightarrow>
            (let c = blk div 36; h = blk div 18 mod 2; t = blk mod 18 + 1 in
             curr_cyl s' ! minor dev = int c \<and> d = take 512 (f_dma io (fx s'))
             \<and> (\<exists>w rs. tr (fx s') = w @ map Sent [0xE6, of_nat (4 * h + minor dev), of_nat c, of_nat h, of_nat t, 2, of_nat t, 27, 0xFF]
                   @ map Got rs \<and> length rs = 7 \<and> hd rs AND 0xC0 = 0))))
    else fd_bread io addr dev blk s = Some (Inl EIO, s)"
proof -
  obtain c h t where a: "fd_chs blk = (c, h, t)" by (metis surj_pair)
  note b = fd_chs_bounds [OF a]
  show ?thesis
  proof (cases "blk < 2880")
    case False
    then show ?thesis using a b(6) by (simp add: fd_bread_def)
  next
    case True
    then have c: "c < NCYL" using b(6) by simp
    note cmd = fd_cmd_reads [OF u c b(1,2)]
    let ?P = "\<lambda>s'. curr_cyl s' ! minor dev = int c \<and> answered (tr (fx s')) (fd_cmd False (minor dev) (c, h, t))"
    have "returns (fd_retry FD_MAX_RETRIES (fd_xfer io addr False (minor dev) (c, h, t)) EIO s)
        (\<lambda>(r, s'). fd_ok s' \<and> reads tr s' \<le> reads tr s + 3 \<and> (r = Inr () \<longrightarrow> ?P s'))"
      by (rule fd_retry_ret [OF fd_xfer_ret [OF log _ u c cmd(2)] ok])
    then obtain r q where q: "fd_retry FD_MAX_RETRIES (fd_xfer io addr False (minor dev) (c, h, t)) EIO s = Some (r, q)"
      "fd_ok q" "reads tr q \<le> reads tr s + 3" "r = Inr () \<Longrightarrow> ?P q"
      by (auto elim!: returnsE)
    have "eio (fd_retry FD_MAX_RETRIES (fd_xfer io addr False (minor dev) (c, h, t)) EIO s)" by (rule eio_retry [OF eio_xfer])
    then have e: "r = Inl e \<Longrightarrow> e = EIO" for e using q(1) by (simp add: eio_def)
    have bread: "fd_bread io addr dev blk s = Some (map_sum id (\<lambda>_. take 512 (f_dma io (fx q))) r, q\<lparr>fd_motor_timeout := FD_MOTOR_TIMEOUT\<rparr>)"
      using c by (simp add: fd_bread_def a q(1))
    have "fdc_dor ((fd_clock io ^^ FD_MOTOR_TIMEOUT) (q\<lparr>fd_motor_timeout := FD_MOTOR_TIMEOUT\<rparr>)) = 0x0C"
      by (rule fd_clocks) simp_all
    then have "returns (fd_bread io addr dev blk s) (\<lambda>(r, s'). fd_ok s' \<and> fdc_dor ((fd_clock io ^^ FD_MOTOR_TIMEOUT) s') = 0x0C
        \<and> reads tr s' \<le> reads tr s + 3
        \<and> (case r of Inl e \<Rightarrow> e = EIO | Inr d \<Rightarrow> ?P s' \<and> d = take 512 (f_dma io (fx s'))))"
      unfolding bread using q(2-4) e by (cases r) (simp_all add: fd_ok_def reads_def)
    then show ?thesis
      using True by (simp only: if_True) (erule returns_mono2, auto simp: reads_def answered_def cmd(1) b(3-5) [symmetric] split: sum.splits)
  qed
qed

text \<open>A controller that always answers that all is well, and remembers what passed through its data register.\<close>

definition sim_fdc :: "fdev list fdc" where
  "sim_fdc = \<lparr>f_out = (\<lambda>p v h. if p = FDC_DATA then h @ [Sent v] else h), f_data = (\<lambda>h. (0, h @ [Got 0])), f_ready = (\<lambda>_ h. (True, h)),
     f_clear = id, f_wait = (\<lambda>_ h. (True, h)), f_delay = (\<lambda>_. id), f_dma = (\<lambda>_. replicate 512 7), f_set_dma = (\<lambda>_. id)\<rparr>"

lemma sim_fdc_steps:
  "fd_out sim_fdc b s = Some (Inr (), s\<lparr>fx := fx s @ [Sent b]\<rparr>)" "fd_in sim_fdc s = Some (Inr 0, s\<lparr>fx := fx s @ [Got 0]\<rparr>)"
  "fd_wait sim_fdc n s = Some (Inr (), s)" "f_clear sim_fdc = id" "f_delay sim_fdc m = id"
  "p \<noteq> FDC_DATA \<Longrightarrow> fout sim_fdc p v s = s" "fd_setup_dma sim_fdc a wr s = s"
  by (simp_all add: fd_out_def fd_in_def fd_wait_def fout_def sim_fdc_def fd_setup_dma_def)

lemma sim_fdc_lists:
  "fd_outs sim_fdc bs s = Some (Inr (), s\<lparr>fx := fx s @ map Sent bs\<rparr>)"
  "\<exists>t. fd_ins sim_fdc n s = Some (Inr (replicate n 0), t) \<and> curr_cyl t = curr_cyl s"
proof -
  show "fd_outs sim_fdc bs s = Some (Inr (), s\<lparr>fx := fx s @ map Sent bs\<rparr>)"
    by (induction bs arbitrary: s) (simp_all add: sim_fdc_steps)
  show "\<exists>t. fd_ins sim_fdc n s = Some (Inr (replicate n 0), t) \<and> curr_cyl t = curr_cyl s"
  proof (induction n arbitrary: s)
    case (Suc n)
    from Suc.IH [of "s\<lparr>fx := fx s @ [Got 0]\<rparr>"] show ?case by (auto simp: sim_fdc_steps)
  qed simp
qed

lemma sim_fdc_command: "\<exists>t. fd_command sim_fdc u cmd m s = Some (Inr (), t)"
proof -
  obtain t where "fd_ins sim_fdc 7 (s\<lparr>fx := fx s @ map Sent cmd\<rparr>) = Some (Inr (replicate 7 0), t)"
    using sim_fdc_lists(2) by blast
  then show ?thesis by (simp add: fd_command_def sim_fdc_steps sim_fdc_lists(1))
qed

lemma sim_fdc_select: "\<exists>t. fd_select sim_fdc u s = Some t \<and> curr_cyl t = (if need_reset s then [-1, -1] else curr_cyl s)"
proof -
  have "\<exists>t. fd_reset sim_fdc s = Some (Inr (), t) \<and> curr_cyl t = [-1, -1]" for s
    by (simp add: fd_reset_def fd_sense_def ignore_def sim_fdc_steps Let_def numeral_2_eq_2)
  from this [of "s\<lparr>fd_motor_timeout := 0\<rparr>"] show ?thesis
    by (auto simp: fd_select_def ignore_def sim_fdc_steps Let_def)
qed

lemma sim_fdc_goto0: "curr_cyl s = [-1, c] \<Longrightarrow> \<exists>t. fd_goto sim_fdc 0 0 h s = Some (Inr (), t)"
  by (simp add: fd_goto_def fd_seek0_def fd_seek_end_def ignore_def sim_fdc_steps set_cyl_def)

theorem fd_read_sector_witness:
  "\<exists>s' w rs. fd_bread sim_fdc 0 0x200 20 \<lparr>fd_motor_timeout = 0, fdc_dor = 0, need_reset = True, curr_cyl = [-1, -1], fx = []\<rparr>
       = Some (Inr (replicate 512 7), s')
     \<and> length rs = 7 \<and> fx s' = w @ map Sent [0xE6, 4, 0, 1, 3, 2, 3, 27, 0xFF] @ map Got rs \<and> curr_cyl s' ! 0 = 0"
proof -
  have log: "fdc_log sim_fdc id" by (simp add: fdc_log_def sim_fdc_def)
  let ?s = "\<lparr>fd_motor_timeout = 0, fdc_dor = 0, need_reset = True, curr_cyl = [-1, -1], fx = []\<rparr> :: fdev list fst"
  have ok: "fd_ok ?s" and u: "minor 0x200 < PHYS_UNITS" by (simp_all add: fd_ok_def minor_def)
  obtain s1 where s1: "fd_select sim_fdc 0 ?s = Some s1" "curr_cyl s1 = [-1, -1]" using sim_fdc_select [of 0 ?s] by auto
  obtain s2 where s2: "fd_goto sim_fdc 0 0 1 s1 = Some (Inr (), s2)" using sim_fdc_goto0 [OF s1(2)] by blast
  obtain s3 where s3: "fd_command sim_fdc 0 (fd_cmd False 0 (0, 1, 2)) 125 s2 = Some (Inr (), s3)" using sim_fdc_command by blast
  have "fd_chs 20 = (0, 1, 2)" by (simp add: fd_chs_def)
  then obtain d s' where r: "fd_bread sim_fdc 0 0x200 20 ?s = Some (Inr d, s')"
    by (simp add: fd_bread_def fd_xfer_def minor_def s1 s2 [simplified] s3 [simplified] sim_fdc_steps numeral_3_eq_3)
  have "minor 0x200 = 0" by (simp add: minor_def)
  then show ?thesis
    using fd_read_sector [OF log ok u, of 20 0] r by (auto simp: Let_def sim_fdc_def)
qed

end
