(* ===== verification/Rs.thy ===== *)
theory Rs
  imports Ttyld Pipe
begin

unbundle bit_operations_syntax

text \<open>
  \<open>kern/dv/rs.c\<close>, the serial lines: each has a ring of characters to send and a ring of characters
  received, which the interrupt handler and the terminal's functions share. The ports are the parameter
  \<open>uart\<close>, and what happens while a process sleeps is \<open>r_idle\<close>: other processes and interrupts.
\<close>

section \<open>The state\<close>

record 'h uart =
  u_in :: "nat \<Rightarrow> 'h \<Rightarrow> byte \<times> 'h"
  u_out :: "nat \<Rightarrow> byte \<Rightarrow> 'h \<Rightarrow> 'h"

record rsu =
  rs_iobase :: nat
  rs_irqno :: nat
  rs_obuf :: "byte list"
  rs_ibuf :: "byte list"
  rs_ocnt :: nat
  rs_otail :: nat
  rs_ohead :: nat
  rs_icnt :: nat
  rs_ihead :: nat
  rs_itail :: nat
  rs_tty :: tty
  rs_local :: bool
  rs_nopen :: int

record 'h rst =
  rk :: kst
  ru :: "nat \<Rightarrow> rsu"
  rx :: 'h

abbreviation (input) "BUF_SIZE \<equiv> (82::nat)"
abbreviation (input) "RS_DEVN \<equiv> (7::nat)"

definition upd_unit :: "nat \<Rightarrow> (rsu \<Rightarrow> rsu) \<Rightarrow> 'h rst \<Rightarrow> 'h rst" where
  "upd_unit n f s = s\<lparr>ru := (ru s)(n := f (ru s n))\<rparr>"

definition rin :: "'h uart \<Rightarrow> nat \<Rightarrow> 'h rst \<Rightarrow> byte \<times> 'h rst" where
  "rin io p s = (let (v, h) = u_in io p (rx s) in (v, s\<lparr>rx := h\<rparr>))"

definition rout :: "'h uart \<Rightarrow> nat \<Rightarrow> byte \<Rightarrow> 'h rst \<Rightarrow> 'h rst" where
  "rout io p v s = s\<lparr>rx := u_out io p v (rx s)\<rparr>"

section \<open>The rings\<close>

text \<open>
  The statements on the rings, which \<open>rs_irq\<close>, \<open>rs_cread\<close> and \<open>rs_cwrite\<close> have in line: storing a character to
  be sent, and taking it to send it; storing a received one, and reading it. An index outside the buffer
  is \<open>None\<close>.
\<close>

definition obuf_put :: "byte \<Rightarrow> rsu \<Rightarrow> rsu option" where
  "obuf_put c u =
     (if rs_otail u \<ge> length (rs_obuf u) then None
      else Some (u\<lparr>rs_obuf := (rs_obuf u)[rs_otail u := c], rs_otail := (rs_otail u + 1) mod BUF_SIZE,
                   rs_ocnt := rs_ocnt u + 1\<rparr>))"

definition obuf_get :: "rsu \<Rightarrow> (byte \<times> rsu) option" where
  "obuf_get u =
     (if rs_ohead u \<ge> length (rs_obuf u) then None
      else Some (rs_obuf u ! rs_ohead u, u\<lparr>rs_ohead := (rs_ohead u + 1) mod BUF_SIZE, rs_ocnt := rs_ocnt u - 1\<rparr>))"

definition ibuf_put :: "byte \<Rightarrow> rsu \<Rightarrow> rsu option" where
  "ibuf_put c u =
     (if rs_itail u \<ge> length (rs_ibuf u) then None
      else Some (u\<lparr>rs_ibuf := (rs_ibuf u)[rs_itail u := c], rs_itail := (rs_itail u + 1) mod BUF_SIZE,
                   rs_icnt := rs_icnt u + 1\<rparr>))"

definition ibuf_get :: "rsu \<Rightarrow> (byte \<times> rsu) option" where
  "ibuf_get u =
     (if rs_ihead u \<ge> length (rs_ibuf u) then None
      else Some (rs_ibuf u ! rs_ihead u, u\<lparr>rs_ihead := (rs_ihead u + 1) mod BUF_SIZE, rs_icnt := rs_icnt u - 1\<rparr>))"

section \<open>Interrupts\<close>

definition rs_send :: "'h uart \<Rightarrow> nat \<Rightarrow> 'h rst \<Rightarrow> 'h rst option" where
  "rs_send io n s = map_option (\<lambda>(c, u). rout io (rs_iobase u) c (s\<lparr>ru := (ru s)(n := u)\<rparr>)) (obuf_get (ru s n))"

definition set_carrier :: "nat \<Rightarrow> bool \<Rightarrow> 'h rst \<Rightarrow> 'h rst" where
  "set_carrier n cd s =
     (let (t, k) = ttyld_carrier (rs_tty (ru s n)) cd (rk s)
      in upd_unit n (\<lambda>u. u\<lparr>rs_tty := t\<rparr>) (s\<lparr>rk := k\<rparr>))"

text \<open>One turn of the handler's loop: what the line reports.\<close>

definition rs_event :: "'h uart \<Rightarrow> nat \<Rightarrow> byte \<Rightarrow> 'h rst \<Rightarrow> 'h rst option" where
  "rs_event io n iir s =
     (let u = ru s n; ev = iir AND 7 in
      if ev = 0 then
        let (v, s) = rin io (rs_iobase u + 6) s
        in Some (set_carrier n (bit v 7 \<or> rs_local u) s)
      else if ev = 2 then
        if rs_ocnt u \<noteq> 0 then rs_send io n s else Some s
      else if ev = 4 then
        let (c, s) = rin io (rs_iobase u) s;
            (handled, k) = ttyld_intr (rs_tty u) c (rk s);
            s = s\<lparr>rk := k\<rparr>
        in if handled then Some s
           else if rs_icnt u < BUF_SIZE then map_option (\<lambda>u. s\<lparr>ru := (ru s)(n := u)\<rparr>) (ibuf_put c u)
           else Some (snd (rin io (rs_iobase u) s))
      else if ev = 6 then Some (snd (rin io (rs_iobase u + 5) s))
      else Some s)"

partial_function (option) rs_irq_loop :: "'h uart \<Rightarrow> nat \<Rightarrow> 'h rst \<Rightarrow> 'h rst option" where
  "rs_irq_loop io n s =
     (let (iir, s) = rin io (rs_iobase (ru s n) + 2) s in
      if iir AND 1 \<noteq> 0 then Some s
      else Option.bind (rs_event io n iir s) (rs_irq_loop io n))"

definition rs_irq :: "'h uart \<Rightarrow> nat \<Rightarrow> 'h rst \<Rightarrow> 'h rst option" where
  "rs_irq io nr s = rs_irq_loop io (if nr = rs_irqno (ru s 0) then 0 else 1) s"

section \<open>Opening and the speed\<close>

text \<open>A speed above 115200 gives the divisor 0, by which the last line divides: that is \<open>None\<close>.\<close>

definition rs_sspeed :: "'h uart \<Rightarrow> nat \<Rightarrow> int \<Rightarrow> 'h rst \<Rightarrow> (int \<times> 'h rst) option" where
  "rs_sspeed io n bps s =
     (let bps = (if bps < 150 then 150 else bps);
          d = 115200 div bps;
          b = rs_iobase (ru s n);
          (v, s) = rin io (b + 3) s;
          s = rout io (b + 3) (v OR 128) s;
          s = rout io b (of_int d) s;
          s = rout io (b + 1) (of_int (d div 256)) s;
          (v, s) = rin io (b + 3) s;
          s = rout io (b + 3) (v AND 127) s
      in if d = 0 then None else Some (115200 div d, s))"

definition rs_ttyname :: "nat \<Rightarrow> byte list" where
  "rs_ttyname rdev = map of_char ''/dev/tty'' @ [48 + of_nat (rdev mod 2), if rdev div 8 mod 2 = 1 then 0x6C else 0x72]"

text \<open>What a process waits for: it sleeps until the test passes, or a signal arrives.\<close>

partial_function (option) rs_sleep :: "('h rst \<Rightarrow> 'h rst option) \<Rightarrow> bool \<Rightarrow> ('h rst \<Rightarrow> bool) \<Rightarrow> 'h rst
    \<Rightarrow> ((errno + unit) \<times> 'h rst) option" where
  "rs_sleep r_idle nodelay stop s =
     (if stop s then Some (Inr (), s)
      else if nodelay then Some (Inl EAGAIN, s)
      else if p_sig (cur (rk s)) \<noteq> 0 then Some (Inl EINTR, s)
      else Option.bind (r_idle s) (rs_sleep r_idle nodelay stop))"

definition rs_open :: "('h rst \<Rightarrow> 'h rst option) \<Rightarrow> nat \<Rightarrow> bool \<Rightarrow> 'h rst \<Rightarrow> ((errno + unit) \<times> 'h rst) option" where
  "rs_open r_idle rdev nodelay s =
     (let n = rdev mod 2; u = ru s n in
      if rdev \<noteq> t_dev (rs_tty u) \<and> rs_nopen u \<noteq> 0 then Some (Inl EBUSY, s)
      else
        let loc = (rdev div 8 mod 2 = 1);
            s = upd_unit n (\<lambda>u. u\<lparr>rs_local := loc, rs_tty := (rs_tty u)\<lparr>t_dev := rdev\<rparr>, rs_nopen := rs_nopen u + 1\<rparr>) s
        in if loc then Some (Inr (), set_carrier n True s)
           else map_option (\<lambda>(r, s). case r of
                    Inl e \<Rightarrow> (Inl e, upd_unit n (\<lambda>u. u\<lparr>rs_nopen := rs_nopen u - 1\<rparr>) s)
                  | Inr _ \<Rightarrow> (Inr (), s))
                (rs_sleep r_idle nodelay (\<lambda>s. t_carrier (rs_tty (ru s n))) s))"

definition rs_close :: "nat \<Rightarrow> 'h rst \<Rightarrow> 'h rst" where
  "rs_close rdev s = upd_unit (rdev mod 2) (\<lambda>u. u\<lparr>rs_nopen := rs_nopen u - 1\<rparr>) s"

section \<open>The functions of the terminal\<close>

definition rs_cread :: "('h rst \<Rightarrow> 'h rst option) \<Rightarrow> nat \<Rightarrow> bool \<Rightarrow> 'h rst \<Rightarrow> ((errno + byte) \<times> 'h rst) option" where
  "rs_cread r_idle n nodelay s =
     bindE (rs_sleep r_idle nodelay (\<lambda>s. rs_icnt (ru s n) \<noteq> 0) s) (\<lambda>_ s.
       map_option (\<lambda>(c, u). (Inr c, s\<lparr>ru := (ru s)(n := u)\<rparr>)) (ibuf_get (ru s n)))"

definition rs_cwrite :: "'h uart \<Rightarrow> ('h rst \<Rightarrow> 'h rst option) \<Rightarrow> nat \<Rightarrow> byte \<Rightarrow> bool \<Rightarrow> 'h rst
    \<Rightarrow> ((errno + unit) \<times> 'h rst) option" where
  "rs_cwrite io r_idle n c nodelay s =
     (if p_sig (cur (rk s)) \<noteq> 0 then Some (Inl EINTR, s)
      else bindE (rs_sleep r_idle nodelay (\<lambda>s. rs_ocnt (ru s n) < BUF_SIZE) s) (\<lambda>_ s. do {
        u \<leftarrow> obuf_put c (ru s n);
        let s = s\<lparr>ru := (ru s)(n := u)\<rparr>;
        let (v, s) = rin io (rs_iobase u + 5) s;
        s \<leftarrow> (if v AND 0x20 \<noteq> 0 then rs_send io n s else Some s);
        Some (Inr (), s)
      }))"

text \<open>The buffers that \<open>sbrk\<close> gives are zeroed; the interrupts are enabled at the end.\<close>

definition rs_init1 :: "'h uart \<Rightarrow> nat \<Rightarrow> nat \<Rightarrow> nat \<Rightarrow> 'h rst \<Rightarrow> 'h rst option" where
  "rs_init1 io n iobase irq s = do {
     let s = upd_unit n (\<lambda>u. u\<lparr>rs_iobase := iobase, rs_irqno := irq,
               rs_obuf := replicate BUF_SIZE 0, rs_ibuf := replicate BUF_SIZE 0\<rparr>) s;
     let s = rout io (iobase + 4) 11 (rout io (iobase + 2) 0 (rout io (iobase + 1) 11 (rout io (iobase + 3) 3 s)));
     (_, s) \<leftarrow> rs_sspeed io n 115200 s;
     s \<leftarrow> rs_irq io irq s;
     let s = upd_unit n (\<lambda>u. u\<lparr>rs_tty := ttyld_init ((rs_tty u)\<lparr>t_dev := RS_DEVN * 256 + n\<rparr>)\<rparr>) s;
     let (v, s) = rin io (iobase + 6) s;
     let s = set_carrier n (bit v 7) s;
     map_option snd (rs_sspeed io n (sint (t_ispeed (rs_tty (ru s n)))) s)
   }"

definition rs_init :: "'h uart \<Rightarrow> 'h rst \<Rightarrow> 'h rst option" where
  "rs_init io s = Option.bind (rs_init1 io 0 0x3F8 4 s) (rs_init1 io 1 0x2F8 3)"

section \<open>The rings are queues\<close>

definition ring :: "byte list \<Rightarrow> nat \<Rightarrow> nat \<Rightarrow> byte list" where
  "ring b h d = map (\<lambda>k. b ! ((h + k) mod BUF_SIZE)) [0..<d]"

definition ring_ok :: "byte list \<Rightarrow> nat \<Rightarrow> nat \<Rightarrow> nat \<Rightarrow> bool" where
  "ring_ok b h d t \<longleftrightarrow> length b = BUF_SIZE \<and> h < BUF_SIZE \<and> d \<le> BUF_SIZE \<and> t = (h + d) mod BUF_SIZE"

lemma length_ring [simp]: "length (ring b h d) = d"
  by (simp add: ring_def)

lemma ring_put:
  assumes "ring_ok b h d t" and "d < BUF_SIZE"
  shows "ring (b[t := c]) h (d + 1) = ring b h d @ [c]" and "ring_ok (b[t := c]) h (d + 1) ((t + 1) mod BUF_SIZE)"
proof -
  have r: "length b = BUF_SIZE" "h < BUF_SIZE" "t = (h + d) mod BUF_SIZE" using assms(1) by (simp_all add: ring_ok_def)
  show "ring (b[t := c]) h (d + 1) = ring b h d @ [c]"
    using ring_other [OF _ assms(2) r(2), THEN not_sym] r by (auto simp: ring_def)
  show "ring_ok (b[t := c]) h (d + 1) ((t + 1) mod BUF_SIZE)" using r assms(2) by (simp add: ring_ok_def mod_Suc_eq)
qed

lemma ring_get:
  assumes "ring_ok b h d t" and "0 < d"
  shows "ring b h d = b ! h # ring b ((h + 1) mod BUF_SIZE) (d - 1)" and "ring_ok b ((h + 1) mod BUF_SIZE) (d - 1) t"
proof -
  have r: "h < BUF_SIZE" using assms(1) by (simp add: ring_ok_def)
  obtain d' where d: "d = Suc d'" using assms(2) by (cases d) auto
  have "[0..<Suc d'] = 0 # map Suc [0..<d']" by (simp add: map_Suc_upt upt_conv_Cons del: upt_Suc)
  then show "ring b h d = b ! h # ring b ((h + 1) mod BUF_SIZE) (d - 1)"
    using r by (simp add: ring_def d mod_add_left_eq comp_def del: upt_Suc)
  show "ring_ok b ((h + 1) mod BUF_SIZE) (d - 1) t" using assms(1) by (simp add: ring_ok_def d mod_add_left_eq)
qed

definition out_data :: "rsu \<Rightarrow> byte list" where
  "out_data u = ring (rs_obuf u) (rs_ohead u) (rs_ocnt u)"

definition in_data :: "rsu \<Rightarrow> byte list" where
  "in_data u = ring (rs_ibuf u) (rs_ihead u) (rs_icnt u)"

definition rs_ok :: "rsu \<Rightarrow> bool" where
  "rs_ok u \<longleftrightarrow> ring_ok (rs_obuf u) (rs_ohead u) (rs_ocnt u) (rs_otail u) \<and> ring_ok (rs_ibuf u) (rs_ihead u) (rs_icnt u) (rs_itail u)"

lemma ring_okD: "ring_ok b h d t \<Longrightarrow> h < length b" "ring_ok b h d t \<Longrightarrow> t < length b"
  by (simp_all add: ring_ok_def)

lemma rings_apart [simp]:
  "obuf_put c u = Some v \<Longrightarrow> in_data v = in_data u" "obuf_get u = Some (c', v) \<Longrightarrow> in_data v = in_data u"
  "ibuf_put c u = Some v \<Longrightarrow> out_data v = out_data u" "ibuf_get u = Some (c', v) \<Longrightarrow> out_data v = out_data u"
  by (auto simp: obuf_put_def obuf_get_def ibuf_put_def ibuf_get_def in_data_def out_data_def split: if_splits)

interpretation outq: byte_queue obuf_put obuf_get out_data rs_ok BUF_SIZE
proof unfold_locales
  show "\<exists>v. obuf_put c u = Some v \<and> rs_ok v \<and> out_data v = out_data u @ [c]" if "rs_ok u" "length (out_data u) < BUF_SIZE" for u c
    using that ring_put [of "rs_obuf u" "rs_ohead u" "rs_ocnt u" "rs_otail u" c] ring_okD(2) [of "rs_obuf u" "rs_ohead u" "rs_ocnt u" "rs_otail u"]
    by (simp add: rs_ok_def obuf_put_def out_data_def)
  show "\<exists>v. obuf_get u = Some (hd (out_data u), v) \<and> rs_ok v \<and> out_data v = tl (out_data u)" if "rs_ok u" "out_data u \<noteq> []" for u
  proof -
    have "0 < rs_ocnt u" using that(2) by (simp add: out_data_def ring_def)
    then show ?thesis
      using that(1) ring_get [of "rs_obuf u" "rs_ohead u" "rs_ocnt u" "rs_otail u"] ring_okD(1) [of "rs_obuf u" "rs_ohead u" "rs_ocnt u" "rs_otail u"]
      by (auto simp: rs_ok_def obuf_get_def out_data_def)
  qed
  show "length (out_data u) \<le> BUF_SIZE" if "rs_ok u" for u
    using that by (simp add: rs_ok_def ring_ok_def out_data_def)
qed

interpretation inq: byte_queue ibuf_put ibuf_get in_data rs_ok BUF_SIZE
proof unfold_locales
  show "\<exists>v. ibuf_put c u = Some v \<and> rs_ok v \<and> in_data v = in_data u @ [c]" if "rs_ok u" "length (in_data u) < BUF_SIZE" for u c
    using that ring_put [of "rs_ibuf u" "rs_ihead u" "rs_icnt u" "rs_itail u" c] ring_okD(2) [of "rs_ibuf u" "rs_ihead u" "rs_icnt u" "rs_itail u"]
    by (simp add: rs_ok_def ibuf_put_def in_data_def)
  show "\<exists>v. ibuf_get u = Some (hd (in_data u), v) \<and> rs_ok v \<and> in_data v = tl (in_data u)" if "rs_ok u" "in_data u \<noteq> []" for u
  proof -
    have "0 < rs_icnt u" using that(2) by (simp add: in_data_def ring_def)
    then show ?thesis
      using that(1) ring_get [of "rs_ibuf u" "rs_ihead u" "rs_icnt u" "rs_itail u"] ring_okD(1) [of "rs_ibuf u" "rs_ihead u" "rs_icnt u" "rs_itail u"]
      by (auto simp: rs_ok_def ibuf_get_def in_data_def)
  qed
  show "length (in_data u) \<le> BUF_SIZE" if "rs_ok u" for u
    using that by (simp add: rs_ok_def ring_ok_def in_data_def)
qed

section \<open>What is written goes out in order\<close>

text \<open>
  \<open>sent\<close> is what was written to the data port at \<open>base\<close>, in order. The characters of a line are those and
  the ones that wait in the ring.
\<close>

definition uart_log :: "'h uart \<Rightarrow> nat \<Rightarrow> ('h \<Rightarrow> byte list) \<Rightarrow> bool" where
  "uart_log io base sent \<longleftrightarrow>
     (\<forall>p v h. sent (u_out io p v h) = (if p = base then sent h @ [v] else sent h))
     \<and> (\<forall>p h. sent (snd (u_in io p h)) = sent h)"

definition rs_line :: "('h \<Rightarrow> byte list) \<Rightarrow> nat \<Rightarrow> 'h rst \<Rightarrow> byte list" where
  "rs_line sent n s = sent (rx s) @ out_data (ru s n)"

definition rs_inv :: "nat \<Rightarrow> nat \<Rightarrow> 'h rst \<Rightarrow> bool" where
  "rs_inv base n s \<longleftrightarrow> rs_ok (ru s n) \<and> rs_iobase (ru s n) = base"

lemma rs_iobase_ring [simp]:
  "obuf_put c u = Some v \<Longrightarrow> rs_iobase v = rs_iobase u" "obuf_get u = Some (c', v) \<Longrightarrow> rs_iobase v = rs_iobase u"
  "ibuf_put c u = Some v \<Longrightarrow> rs_iobase v = rs_iobase u" "ibuf_get u = Some (c', v) \<Longrightarrow> rs_iobase v = rs_iobase u"
  by (auto simp: obuf_put_def obuf_get_def ibuf_put_def ibuf_get_def split: if_splits)

lemma rin_simps [simp]: "ru (snd (rin io p s)) = ru s" "rk (snd (rin io p s)) = rk s"
    "rx (snd (rin io p s)) = snd (u_in io p (rx s))" "fst (rin io p s) = fst (u_in io p (rx s))"
  by (simp_all add: rin_def case_prod_beta)

lemma rin_line:
  assumes "uart_log io base sent"
  shows "rs_line sent n (snd (rin io p s)) = rs_line sent n s" and "rs_inv b n (snd (rin io p s)) = rs_inv b n s"
  using assms by (simp_all add: rs_line_def rs_inv_def uart_log_def)

lemma set_carrier_line [simp]: "rs_line sent n (set_carrier n cd s) = rs_line sent n s" "rs_inv b n (set_carrier n cd s) = rs_inv b n s"
    "in_data (ru (set_carrier n cd s) n) = in_data (ru s n)" "rx (set_carrier n cd s) = rx s"
  by (auto simp: set_carrier_def upd_unit_def rs_line_def rs_inv_def out_data_def in_data_def rs_ok_def split: prod.splits)

lemma rs_send_line:
  assumes "uart_log io base sent" and "rs_inv base n s" and "rs_ocnt (ru s n) \<noteq> 0"
  shows "returns (rs_send io n s) (\<lambda>s'. rs_inv base n s' \<and> rs_line sent n s' = rs_line sent n s \<and> in_data (ru s' n) = in_data (ru s n))"
proof -
  have ne: "out_data (ru s n) \<noteq> []" using assms(3) by (simp add: out_data_def flip: length_0_conv)
  obtain v where v: "obuf_get (ru s n) = Some (hd (out_data (ru s n)), v)" "rs_ok v" "out_data v = tl (out_data (ru s n))"
    using outq.get [OF _ ne] assms(2) by (auto simp: rs_inv_def)
  then show ?thesis
    using assms(1,2) ne by (simp add: rs_send_def rout_def rs_inv_def rs_line_def uart_log_def)
qed

definition received :: "'h uart \<Rightarrow> nat \<Rightarrow> byte \<Rightarrow> 'h rst \<Rightarrow> byte list" where
  "received io n iir s =
     (let u = ru s n; c = fst (u_in io (rs_iobase u) (rx s)) in
      if iir AND 7 = 4 \<and> \<not> fst (ttyld_intr (rs_tty u) c (rk s)) \<and> rs_icnt u < BUF_SIZE then [c] else [])"

lemma rs_event_line:
  assumes log: "uart_log io base sent" and inv: "rs_inv base n s"
  shows "returns (rs_event io n iir s) (\<lambda>s'. rs_inv base n s' \<and> rs_line sent n s' = rs_line sent n s
    \<and> in_data (ru s' n) = in_data (ru s n) @ received io n iir s)"
proof -
  let ?u = "ru s n"
  note r = rin_line [OF log]
  consider "iir AND 7 = 0" | "iir AND 7 = 2" | "iir AND 7 = 4" | "iir AND 7 \<notin> {0, 2, 4}" by blast
  then show ?thesis
  proof cases
    case 1
    then show ?thesis using inv r by (simp add: rs_event_def Let_def case_prod_beta received_def)
  next
    case 2
    then show ?thesis using inv rs_send_line [OF log inv] by (simp add: rs_event_def received_def Let_def)
  next
    case 3
    let ?c = "fst (u_in io (rs_iobase ?u) (rx s))"
    let ?s = "(snd (rin io (rs_iobase ?u) s))\<lparr>rk := snd (ttyld_intr (rs_tty ?u) ?c (rk s))\<rparr>"
    have e: "rs_event io n iir s =
        (if fst (ttyld_intr (rs_tty ?u) ?c (rk s)) then Some ?s
         else if rs_icnt ?u < BUF_SIZE then map_option (\<lambda>u. ?s\<lparr>ru := (ru ?s)(n := u)\<rparr>) (ibuf_put ?c ?u)
         else Some (snd (rin io (rs_iobase ?u) ?s)))"
      using 3 by (simp add: rs_event_def Let_def case_prod_beta)
    have s: "rs_inv base n ?s" "rs_line sent n ?s = rs_line sent n s" "ru ?s = ru s"
      using inv r [where s = s and p = "rs_iobase ?u"] by (simp_all add: rs_inv_def rs_line_def)
    obtain v where v: "ibuf_put ?c ?u = Some v" "rs_ok v" "in_data v = in_data ?u @ [?c]" if "rs_icnt ?u < BUF_SIZE"
      using inq.put [of ?u ?c] inv by (auto simp: rs_inv_def in_data_def)
    have "rs_line sent n (?s\<lparr>ru := (ru ?s)(n := v)\<rparr>) = rs_line sent n ?s" if "ibuf_put ?c ?u = Some v" for v
      using that s(3) by (simp add: rs_line_def)
    then show ?thesis
      using s r [where s = ?s] v inv e 3 by (auto simp: received_def Let_def rs_inv_def)
  next
    case 4
    then show ?thesis using inv r by (simp add: rs_event_def Let_def received_def)
  qed
qed

lemma rs_irq_loop_line:
  assumes log: "uart_log io base sent" and "rs_inv base n s"
  shows "when_returns (rs_irq_loop io n s) (\<lambda>s'. rs_inv base n s' \<and> rs_line sent n s' = rs_line sent n s
    \<and> (\<exists>w. in_data (ru s' n) = in_data (ru s n) @ w))"
proof (rule when_returnsI)
  fix s' assume "rs_irq_loop io n s = Some s'"
  then show "rs_inv base n s' \<and> rs_line sent n s' = rs_line sent n s \<and> (\<exists>w. in_data (ru s' n) = in_data (ru s n) @ w)"
    using assms
  proof (induction rule: rs_irq_loop.raw_induct [rotated, consumes 1, case_names step])
    case (step loop io n s s')
    let ?iir = "fst (u_in io (rs_iobase (ru s n) + 2) (rx s))" and ?s = "snd (rin io (rs_iobase (ru s n) + 2) s)"
    note r = rin_line [OF step.prems(1), where s = s and p = "rs_iobase (ru s n) + 2"]
    show ?case
    proof (cases "?iir AND 1 = 0")
      case False
      then have "s' = ?s" using step.hyps by (simp add: Let_def case_prod_beta)
      then show ?thesis using r step.prems(2) by simp
    next
      case True
      then obtain t where t: "rs_event io n ?iir ?s = Some t" "loop io n t = Some s'"
        using step.hyps by (auto simp: Let_def case_prod_beta bind_eq_Some_conv)
      have "rs_inv base n t \<and> rs_line sent n t = rs_line sent n s \<and> (\<exists>w. in_data (ru t n) = in_data (ru s n) @ w)"
        using rs_event_line [OF step.prems(1), of n ?s ?iir] r step.prems(2) t(1) by auto
      then show ?thesis using step.IH [OF t(2) step.prems(1)] by fastforce
    qed
  qed
qed

lemma rs_sleep_line:
  assumes idle: "\<And>s. rs_inv base n s \<Longrightarrow>
      when_returns (r_idle s) (\<lambda>s'. rs_inv base n s' \<and> (\<exists>w. rs_line sent n s' = rs_line sent n s @ w))"
    and "rs_inv base n s"
  shows "when_returns (rs_sleep r_idle nodelay stop s) (\<lambda>(r, s'). rs_inv base n s'
    \<and> (\<exists>w. rs_line sent n s' = rs_line sent n s @ w) \<and> (r = Inr () \<longrightarrow> stop s'))"
proof (rule when_returnsI)
  fix y assume "rs_sleep r_idle nodelay stop s = Some y"
  then show "case y of (r, s') \<Rightarrow> rs_inv base n s' \<and> (\<exists>w. rs_line sent n s' = rs_line sent n s @ w) \<and> (r = Inr () \<longrightarrow> stop s')"
    using assms
  proof (induction rule: rs_sleep.raw_induct [rotated, consumes 1, case_names step])
    case (step loop r_idle nodelay stop s y)
    show ?case
    proof (cases "stop s \<or> nodelay \<or> p_sig (cur (rk s)) \<noteq> 0")
      case True
      then show ?thesis using step.hyps step.prems(2) by (auto split: if_splits)
    next
      case False
      then obtain t where t: "r_idle s = Some t" "loop r_idle nodelay stop t = Some y"
        using step.hyps by (auto simp: bind_eq_Some_conv)
      obtain w where "rs_inv base n t" "rs_line sent n t = rs_line sent n s @ w"
        using step.prems(1) [OF step.prems(2)] t(1) by auto
      then show ?thesis using step.IH [OF t(2) step.prems(1)] by (cases y) auto
    qed
  qed
qed

lemma rs_put_line:
  assumes log: "uart_log io base sent" and inv: "rs_inv base n s" and room: "rs_ocnt (ru s n) < BUF_SIZE"
  shows "returns (do {
        u \<leftarrow> obuf_put c (ru s n);
        let s = s\<lparr>ru := (ru s)(n := u)\<rparr>;
        let (v, s) = rin io (rs_iobase u + 5) s;
        s \<leftarrow> (if v AND 0x20 \<noteq> 0 then rs_send io n s else Some s);
        Some (Inr () :: errno + unit, s)
      }) (\<lambda>(r, s'). r = Inr () \<and> rs_inv base n s' \<and> rs_line sent n s' = rs_line sent n s @ [c])"
proof -
  obtain u where u: "obuf_put c (ru s n) = Some u" "rs_ok u" "out_data u = out_data (ru s n) @ [c]"
    using outq.put [of "ru s n" c] inv room by (auto simp: rs_inv_def out_data_def)
  let ?s = "snd (rin io (rs_iobase u + 5) (s\<lparr>ru := (ru s)(n := u)\<rparr>))"
  have s: "rs_inv base n ?s" "rs_line sent n ?s = rs_line sent n s @ [c]" "rs_ocnt (ru ?s n) \<noteq> 0"
    using u inv rin_line [OF log] length_ring [of "rs_obuf u" "rs_ohead u" "rs_ocnt u"]
    by (auto simp: rs_inv_def rs_line_def out_data_def simp del: length_ring)
  show ?thesis
    using s rs_send_line [OF log s(1,3)] u(1)
    by (auto simp: Let_def case_prod_beta returns_bind elim!: returns_mono)
qed

text \<open>
  Property C35. A serial line sends what is written to it, in order and nothing twice: writing a character
  puts it behind all that was sent and all that waits, and an interrupt moves characters from the ring to the
  line without changing their order; what an interrupt receives is put behind what was received before.
  Both rings stay well formed, and writing to a ring with room returns. While a writer
  sleeps, others may write.
\<close>

theorem rs_fifo:
  assumes log: "uart_log io base sent" and inv: "rs_inv base n s"
    and idle: "\<And>s. rs_inv base n s \<Longrightarrow>
      when_returns (r_idle s) (\<lambda>s'. rs_inv base n s' \<and> (\<exists>w. rs_line sent n s' = rs_line sent n s @ w))"
  shows "(n = (if nr = rs_irqno (ru s 0) then 0 else 1) \<longrightarrow> when_returns (rs_irq io nr s) (\<lambda>s'.
      rs_inv base n s' \<and> rs_line sent n s' = rs_line sent n s \<and> (\<exists>w. in_data (ru s' n) = in_data (ru s n) @ w)))
    \<and> when_returns (rs_cwrite io r_idle n c nodelay s) (\<lambda>(r, s'). rs_inv base n s'
        \<and> (\<exists>w. rs_line sent n s' = rs_line sent n s @ w @ (if r = Inr () then [c] else [])))
    \<and> (p_sig (cur (rk s)) = 0 \<and> rs_ocnt (ru s n) < BUF_SIZE \<longrightarrow>
        returns (rs_cwrite io r_idle n c nodelay s) (\<lambda>(r, s'). r = Inr () \<and> rs_line sent n s' = rs_line sent n s @ [c]))"
proof (intro conjI impI)
  show "when_returns (rs_irq io nr s) (\<lambda>s'. rs_inv base n s' \<and> rs_line sent n s' = rs_line sent n s
      \<and> (\<exists>w. in_data (ru s' n) = in_data (ru s n) @ w))" if "n = (if nr = rs_irqno (ru s 0) then 0 else 1)"
    using rs_irq_loop_line [OF log inv] by (simp add: rs_irq_def flip: that)
  show "returns (rs_cwrite io r_idle n c nodelay s) (\<lambda>(r, s'). r = Inr () \<and> rs_line sent n s' = rs_line sent n s @ [c])"
    if "p_sig (cur (rk s)) = 0 \<and> rs_ocnt (ru s n) < BUF_SIZE"
  proof -
    have "rs_sleep r_idle nodelay (\<lambda>s. rs_ocnt (ru s n) < BUF_SIZE) s = Some (Inr (), s)"
      using that by (subst rs_sleep.simps) simp
    then show ?thesis
      using that rs_put_line [OF log inv, of c] by (auto simp: rs_cwrite_def elim!: returns_mono)
  qed
  show "when_returns (rs_cwrite io r_idle n c nodelay s) (\<lambda>(r, s'). rs_inv base n s'
        \<and> (\<exists>w. rs_line sent n s' = rs_line sent n s @ w @ (if r = Inr () then [c] else [])))"
  proof (cases "p_sig (cur (rk s)) = 0")
    case False
    then show ?thesis using inv by (simp add: rs_cwrite_def)
  next
    case True
    have put: "when_returns (do {
        u \<leftarrow> obuf_put c (ru s' n);
        let s = s'\<lparr>ru := (ru s')(n := u)\<rparr>;
        let (v, s) = rin io (rs_iobase u + 5) s;
        s \<leftarrow> (if v AND 0x20 \<noteq> 0 then rs_send io n s else Some s);
        Some (Inr () :: errno + unit, s)
      }) (\<lambda>(r, t). rs_inv base n t \<and> (\<exists>w. rs_line sent n t = rs_line sent n s @ w @ (if r = Inr () then [c] else [])))"
      if "rs_inv base n s'" "rs_line sent n s' = rs_line sent n s @ w" "rs_ocnt (ru s' n) < BUF_SIZE" for s' w
      using returns_when [OF rs_put_line [OF log that(1,3), of c]] that(2) by (auto elim!: when_returns_mono)
    show ?thesis
      unfolding rs_cwrite_def
      by (simp only: True if_False simp_thms when_returns_bindE, rule when_returns_mono2 [OF rs_sleep_line [OF idle inv]])
        (use put in \<open>auto split: sum.splits\<close>)
  qed
qed

text \<open>A line that is always ready to send, for an example.\<close>

definition sim_uart :: "byte list uart" where
  "sim_uart = \<lparr>u_in = (\<lambda>p h. (0x21, h)), u_out = (\<lambda>p v h. if p = 0x3F8 then h @ [v] else h)\<rparr>"

definition sim_rs :: "byte list rst" where
  "sim_rs = \<lparr>rk = zero_kst no_disk no_driver,
     ru = (\<lambda>_. \<lparr>rs_iobase = 0x3F8, rs_irqno = 4, rs_obuf = replicate BUF_SIZE 0, rs_ibuf = replicate BUF_SIZE 0,
       rs_ocnt = 0, rs_otail = 81, rs_ohead = 81, rs_icnt = 0, rs_ihead = 0, rs_itail = 0,
       rs_tty = \<lparr>t_dev = 1792, t_carrier = True, t_inplen = 0, t_unread = None, t_buf = replicate MAX_CANON 0,
         t_cc = replicate 5 0, t_cflag = 0, t_iflag = 0, t_lflag = 0, t_oflag = 0, t_ispeed = 9600, t_ospeed = 9600\<rparr>,
       rs_local = True, rs_nopen = 1\<rparr>), rx = []\<rparr>"

theorem rs_fifo_witness:
  "returns (rs_cwrite sim_uart Some 0 65 False sim_rs) (\<lambda>(r, s'). r = Inr () \<and> rs_line id 0 s' = [65])"
proof -
  have "uart_log sim_uart 0x3F8 id" by (simp add: uart_log_def sim_uart_def)
  moreover have "rs_inv 0x3F8 0 sim_rs" by (simp add: rs_inv_def sim_rs_def rs_ok_def ring_ok_def)
  moreover have "p_sig (cur (rk sim_rs)) = 0" "rs_ocnt (ru sim_rs 0) = 0" "rs_line id 0 sim_rs = []"
    by (simp_all add: sim_rs_def zero_kst_def zero_process_def rs_line_def out_data_def ring_def)
  ultimately show ?thesis
    using rs_fifo [of sim_uart "0x3F8" id 0 sim_rs Some 0 65 False] by simp
qed

end
