(* ===== verification/Uucode.thy ===== *)
theory Uucode
  imports Stdio Cstring
begin

unbundle bit_operations_syntax

text \<open>
  \<open>cmd/bin/uuencode.c\<close> and \<open>cmd/bin/uudecode.c\<close>, which carry a file through a text. Files are the lists of
  their bytes; that writing the output succeeds is assumed.
\<close>

section \<open>Encoding\<close>

text \<open>The four characters of three bytes.\<close>

definition uu_group :: "byte \<Rightarrow> byte \<Rightarrow> byte \<Rightarrow> byte list" where
  "uu_group a b c =
     (let w = push_bit 16 (ucast a) OR push_bit 8 (ucast b) OR ucast c :: 32 word
      in [0x20 + ucast (drop_bit 18 w), 0x20 + ucast (drop_bit 12 w AND 63), 0x20 + ucast (drop_bit 6 w AND 63),
          0x20 + ucast (w AND 63)])"

text \<open>One line, of the first \<open>len\<close> bytes of the buffer; the last group may go beyond them.\<close>

definition uuencode1 :: "byte list \<Rightarrow> nat \<Rightarrow> byte list" where
  "uuencode1 p len =
     (if len \<noteq> 0 then 0x20 + of_nat len else 0x60)
       # concat (map (\<lambda>i. uu_group (p ! (3 * i)) (p ! (3 * i + 1)) (p ! (3 * i + 2))) [0..<(len + 2) div 3]) @ [10]"

function uu_lines :: "byte list \<Rightarrow> byte list" where
  "uu_lines inp =
     (let l = take 45 inp; line = uuencode1 (l @ replicate (45 - length l) 0) (length l)
      in if l = [] then line else line @ uu_lines (drop 45 inp))"
  by pat_completeness auto
termination
  by (relation "measure length") auto

declare uu_lines.simps [simp del]

definition uuencode :: "32 word \<Rightarrow> byte list \<Rightarrow> byte list \<Rightarrow> byte list option" where
  "uuencode mode name inp =
     map_option (\<lambda>h. h @ uu_lines inp @ bytes ''end'' @ [10])
       (format_text [] (bytes ''begin %3o %s'' @ [10]) [Num (mode AND 0x1FF), Str name])"

section \<open>Decoding\<close>

fun otoi_loop :: "32 word \<Rightarrow> byte list \<Rightarrow> 32 word" where
  "otoi_loop n [] = n"
| "otoi_loop n (c # cs) = (if 0x30 \<le> c \<and> c \<le> 0x37 then otoi_loop (push_bit 3 n + (ucast c - 0x30)) cs else n)"

definition otoi :: "byte list \<Rightarrow> 32 word" where
  "otoi s = otoi_loop 0 s"

text \<open>\<open>fgets\<close> into the buffer of 256 bytes, which keeps its old contents behind the line; with what follows in the file.\<close>

definition uu_gets :: "byte list \<Rightarrow> byte list \<Rightarrow> bool \<times> byte list \<times> byte list" where
  "uu_gets buf inp =
     (let l = takeWhile (\<lambda>c. c \<noteq> 10) (take 255 inp); n = length l in
      if n < 255 \<and> n < length inp then (True, splice 0 (l @ [10, 0]) buf, drop (n + 1) inp)
      else if n < 255 then (let buf = splice 0 (l @ [0]) buf in (buf ! 0 \<noteq> 0, buf, []))
      else (False, splice 0 l buf, drop 255 inp))"

lemma uu_gets_shorter: "uu_gets buf inp = (True, buf', rest) \<Longrightarrow> length rest < length inp"
  by (auto simp: uu_gets_def Let_def splice_def split: if_splits)

text \<open>\<open>p = strchr(buf, '\n'); if (p) *p = 0;\<close>\<close>

definition uu_chop :: "byte list \<Rightarrow> byte list" where
  "uu_chop buf = (let n = length (takeWhile (\<lambda>c. c \<noteq> 0 \<and> c \<noteq> 10) buf) in if n < length buf \<and> buf ! n = 10 then buf[n := 0] else buf)"

definition uu_word :: "byte list \<Rightarrow> nat \<Rightarrow> 32 word" where
  "uu_word buf p =
     foldl (\<lambda>w i. push_bit 6 w OR ((ucast (buf ! (p + i)) - 0x20) AND 63)) 0 [0..<4]"

fun uu_bytes :: "byte list \<Rightarrow> nat \<Rightarrow> nat \<Rightarrow> byte list" where
  "uu_bytes buf p 0 = []"
| "uu_bytes buf p (Suc n) =
     (let w = uu_word buf p; k = min 3 (Suc n)
      in take k [ucast (drop_bit 16 w), ucast (drop_bit 8 w), ucast w] @ uu_bytes buf (p + 4) (Suc n - k))"

definition uudecode1 :: "byte list \<Rightarrow> byte list option" where
  "uudecode1 buf =
     (let len = uint (buf ! 0) - 0x20 in
      if len < 0 \<or> len > 64 then None
      else Some (uu_bytes buf 1 (if len = 64 then 0 else nat len)))"

datatype uu_end = Done | Badfmt | Eof

function uu_body :: "byte list \<Rightarrow> byte list \<Rightarrow> uu_end \<times> byte list" where
  "uu_body buf inp =
     (case uu_gets buf inp of (got, buf, rest) \<Rightarrow>
        if \<not> got then (Eof, [])
        else
          let buf = uu_chop buf in
          if cname buf = bytes ''end'' then (Done, [])
          else case uudecode1 buf of
              None \<Rightarrow> (Badfmt, [])
            | Some out \<Rightarrow> (case uu_body buf rest of (e, o') \<Rightarrow> (e, out @ o')))"
  by pat_completeness auto
termination
  by (relation "measure (\<lambda>(_, inp). length inp)") (auto dest: uu_gets_shorter [OF sym])

declare uu_body.simps [simp del]

text \<open>The words of the first line: an object, and their places in it.\<close>

definition uu_words :: "byte list \<Rightarrow> (byte list \<times> nat option \<times> nat option \<times> nat option) option" where
  "uu_words buf = do {
     (p, buf, k) \<leftarrow> strtok_next buf 0 [0x20, 0];
     (ms, buf, k) \<leftarrow> strtok_next buf k [0x20, 0];
     (n, buf, k) \<leftarrow> strtok_next buf k [0x20, 0];
     Some (buf, p, ms, n)
   }"

text \<open>
  The name and the mode of the file that is made, what is written to it, and how the decoding ended;
  \<open>None\<close> when there is no line that begins a file.
\<close>

function uudecode :: "byte list \<Rightarrow> byte list \<Rightarrow> (byte list \<times> 32 word \<times> uu_end \<times> byte list) option" where
  "uudecode buf inp =
     (case uu_gets buf inp of (got, buf, rest) \<Rightarrow>
        if \<not> got then None
        else case uu_words (uu_chop buf) of
            Some (buf, Some p, Some ms, Some n) \<Rightarrow>
              if cname (drop p buf) = bytes ''begin''
              then Some (cname (drop n buf), otoi (cname (drop ms buf)), uu_body buf rest)
              else uudecode buf rest
          | Some (buf, _) \<Rightarrow> uudecode buf rest
          | None \<Rightarrow> None)"
  by pat_completeness auto
termination
  by (relation "measure (\<lambda>(_, inp). length inp)") (auto dest: uu_gets_shorter [OF sym])

declare uudecode.simps [simp del]

section \<open>What is decoded is what was encoded\<close>

lemma uu_char:
  fixes x :: "32 word"
  shows "((ucast (0x20 + ucast (x AND 63) :: byte) :: 32 word) - 0x20) AND 63 = x AND 63"
    and "0x20 \<le> (0x20 + ucast (x AND 63) :: byte) \<and> (0x20 + ucast (x AND 63) :: byte) \<le> 0x5F"
proof -
  have all: "\<forall>k \<in> set [0..<64].
      ((ucast (0x20 + ucast (of_nat k :: 32 word) :: byte) :: 32 word) - 0x20) AND 63 = of_nat k
      \<and> 0x20 \<le> (0x20 + ucast (of_nat k :: 32 word) :: byte) \<and> (0x20 + ucast (of_nat k :: 32 word) :: byte) \<le> 0x5F"
    by code_simp
  have "unat (x AND 63) < 64" using word_and_le1 [of x 63] by (simp add: word_le_nat_alt)
  then have k: "unat (x AND 63) \<in> set [0..<64]" by simp
  show "((ucast (0x20 + ucast (x AND 63) :: byte) :: 32 word) - 0x20) AND 63 = x AND 63"
    and "0x20 \<le> (0x20 + ucast (x AND 63) :: byte) \<and> (0x20 + ucast (x AND 63) :: byte) \<le> 0x5F"
    using bspec [OF all k] by simp_all
qed

lemma uu_join:
  "push_bit 6 (push_bit 6 (push_bit 6 (drop_bit 18 w AND 63) OR (drop_bit 12 w AND 63)) OR (drop_bit 6 w AND 63)) OR (w AND 63)
    = (w AND 0xFFFFFF :: 32 word)"
proof -
  have m: "(63 :: 32 word) = mask 6" "(0xFFFFFF :: 32 word) = mask 24" by (simp_all add: mask_eq_exp_minus_1)
  show ?thesis
    unfolding m
  proof (rule bit_word_eqI)
    fix n :: nat
    consider "n < 6" | "6 \<le> n" "n < 12" | "12 \<le> n" "n < 18" | "18 \<le> n" by linarith
    then show "bit (push_bit 6 (push_bit 6 (push_bit 6 (drop_bit 18 w AND mask 6) OR (drop_bit 12 w AND mask 6))
        OR (drop_bit 6 w AND mask 6)) OR (w AND mask 6)) n = bit (w AND mask 24) n"
      by cases (auto simp: bit_simps)
  qed
qed

definition uu_value :: "byte \<Rightarrow> byte \<Rightarrow> byte \<Rightarrow> 32 word" where
  "uu_value a b c = push_bit 16 (ucast a) OR push_bit 8 (ucast b) OR ucast c"

lemma uu_value_bits:
  "uu_value a b c AND 0xFFFFFF = uu_value a b c" "drop_bit 18 (uu_value a b c) = drop_bit 18 (uu_value a b c) AND 63"
  "ucast (drop_bit 16 (uu_value a b c)) = a" "ucast (drop_bit 8 (uu_value a b c)) = b" "ucast (uu_value a b c) = c"
proof -
  have m: "(63 :: 32 word) = mask 6" "(0xFFFFFF :: 32 word) = mask 24" by (simp_all add: mask_eq_exp_minus_1)
  show "uu_value a b c AND 0xFFFFFF = uu_value a b c" "drop_bit 18 (uu_value a b c) = drop_bit 18 (uu_value a b c) AND 63"
    unfolding m uu_value_def by (rule bit_word_eqI, auto simp: bit_simps dest: bit_imp_le_length)+
  show "ucast (drop_bit 16 (uu_value a b c)) = a" "ucast (drop_bit 8 (uu_value a b c)) = b" "ucast (uu_value a b c) = c"
    unfolding uu_value_def by (rule bit_word_eqI, auto simp: bit_simps dest: bit_imp_le_length)+
qed

lemma uu_group_alt:
  "uu_group a b c = [0x20 + ucast (drop_bit 18 (uu_value a b c) AND 63), 0x20 + ucast (drop_bit 12 (uu_value a b c) AND 63),
      0x20 + ucast (drop_bit 6 (uu_value a b c) AND 63), 0x20 + ucast (uu_value a b c AND 63)]"
  unfolding uu_group_def Let_def uu_value_def [symmetric] using uu_value_bits(2) [of a b c] by simp

lemma uu_group_word:
  assumes "\<And>i. i < 4 \<Longrightarrow> buf ! (p + i) = uu_group a b c ! i"
  shows "uu_word buf p = uu_value a b c"
proof -
  let ?v = "uu_value a b c"
  have c: "buf ! (p + 0) = 0x20 + ucast (drop_bit 18 ?v AND 63)" "buf ! (p + 1) = 0x20 + ucast (drop_bit 12 ?v AND 63)"
    "buf ! (p + 2) = 0x20 + ucast (drop_bit 6 ?v AND 63)" "buf ! (p + 3) = 0x20 + ucast (?v AND 63)"
    using assms [of 0] assms [of 1] assms [of 2] assms [of 3] unfolding uu_group_alt by simp_all
  have upt: "[0..<4] = [0, 1, 2, 3 :: nat]" by code_simp
  have "uu_word buf p = push_bit 6 (push_bit 6 (push_bit 6 (push_bit 6 0 OR (drop_bit 18 ?v AND 63))
      OR (drop_bit 12 ?v AND 63)) OR (drop_bit 6 ?v AND 63)) OR (?v AND 63)"
    unfolding uu_word_def upt foldl.simps c uu_char(1) ..
  then show ?thesis by (simp only: push_bit_of_0 or.left_neutral uu_join uu_value_bits(1))
qed

lemma uu_group_chars: "x \<in> set (uu_group a b c) \<Longrightarrow> 0x20 \<le> x \<and> x \<le> 0x5F"
  unfolding uu_group_alt using uu_char(2) by auto

section \<open>One line\<close>

text \<open>The bytes of a line, of a buffer of 45 bytes of which \<open>n\<close> are used, and how they lie in the text.\<close>

definition uu_groups :: "byte list \<Rightarrow> nat \<Rightarrow> byte list" where
  "uu_groups p k = concat (map (\<lambda>i. uu_group (p ! (3 * i)) (p ! (3 * i + 1)) (p ! (3 * i + 2))) [0..<k])"

lemma length_uu_group [simp]: "length (uu_group a b c) = 4"
  by (simp add: uu_group_alt)

lemma length_uu_groups [simp]: "length (uu_groups p k) = 4 * k"
  by (induction k) (simp_all add: uu_groups_def)

lemma uu_groups_Suc: "uu_groups p (Suc k) = uu_groups p k @ uu_group (p ! (3 * k)) (p ! (3 * k + 1)) (p ! (3 * k + 2))"
  by (simp add: uu_groups_def)

lemma uu_groups_nth:
  "g < k \<Longrightarrow> i < 4 \<Longrightarrow> uu_groups p k ! (4 * g + i) = uu_group (p ! (3 * g)) (p ! (3 * g + 1)) (p ! (3 * g + 2)) ! i"
proof (induction k)
  case (Suc k)
  show ?case
  proof (cases "g = k")
    case False
    then have "g < k" "4 * g + i < 4 * k" using Suc.prems by auto
    then show ?thesis using Suc.IH Suc.prems by (simp add: uu_groups_Suc nth_append)
  qed (use Suc.prems in \<open>simp add: uu_groups_Suc nth_append\<close>)
qed simp

lemma take_min_length: "length xs = m \<Longrightarrow> take n (xs @ ys) = take (min m n) xs @ take (n - min m n) ys"
  by (cases "n \<le> m") (simp_all add: min_def)

lemma uu_bytes_groups:
  assumes "\<And>i. i < 4 * k \<Longrightarrow> buf ! Suc i = uu_groups p k ! i" and "g \<le> k" and "3 * g + n \<le> length p" and "3 * g + n \<le> 3 * k"
    and "length p = 3 * m"
  shows "uu_bytes buf (1 + 4 * g) n = take n (drop (3 * g) p)"
  using assms(2-4)
proof (induction n arbitrary: g rule: less_induct)
  case (less n)
  show ?case
  proof (cases n)
    case (Suc n')
    then have g: "g < k" "g < m" using less.prems assms(5) by auto
    have w: "uu_word buf (1 + 4 * g) = uu_value (p ! (3 * g)) (p ! (3 * g + 1)) (p ! (3 * g + 2))"
    proof (rule uu_group_word)
      fix i :: nat assume i: "i < 4"
      then have "4 * g + i < 4 * k" using g(1) by linarith
      then show "buf ! (1 + 4 * g + i) = uu_group (p ! (3 * g)) (p ! (3 * g + 1)) (p ! (3 * g + 2)) ! i"
        using assms(1) [of "4 * g + i"] uu_groups_nth [OF g(1) i, of p] by simp
    qed
    have d: "drop (3 * g) p = [p ! (3 * g), p ! (3 * g + 1), p ! (3 * g + 2)] @ drop (3 * (g + 1)) p"
      using g(2) assms(5) by (simp add: Cons_nth_drop_Suc numeral_eq_Suc)
    let ?j = "min 3 n"
    have "uu_bytes buf (1 + 4 * g) n = take ?j [p ! (3 * g), p ! (3 * g + 1), p ! (3 * g + 2)] @ uu_bytes buf (1 + 4 * (g + 1)) (n - ?j)"
      unfolding Suc uu_bytes.simps Let_def w uu_value_bits(3-5) by (simp add: algebra_simps)
    also have "uu_bytes buf (1 + 4 * (g + 1)) (n - ?j) = take (n - ?j) (drop (3 * (g + 1)) p)"
    proof (cases "n \<le> 3")
      case False
      then show ?thesis using less.prems g Suc by (intro less.IH) auto
    qed simp
    finally show ?thesis unfolding d by (subst take_min_length [where m = 3]) simp_all
  qed simp
qed

text \<open>The character of the length of a line.\<close>

abbreviation uu_len :: "nat \<Rightarrow> byte" where
  "uu_len n \<equiv> (if n \<noteq> 0 then 0x20 + of_nat n else 0x60)"

lemma uu_len_char:
  assumes "n \<le> 45"
  shows "uint (uu_len n) = (if n \<noteq> 0 then 0x20 + int n else 0x60)" and "uu_len n \<notin> {0, 10, 0x65}"
proof -
  have "\<forall>n \<in> set [0..<46]. uint (uu_len n) = (if n \<noteq> 0 then 0x20 + int n else 0x60) \<and> uu_len n \<notin> {0, 10, 0x65}"
    by code_simp
  moreover have "n \<in> set [0..<46]" using assms by simp
  ultimately show "uint (uu_len n) = (if n \<noteq> 0 then 0x20 + int n else 0x60)" and "uu_len n \<notin> {0, 10, 0x65}" by blast+
qed

lemma uudecode1_line:
  assumes n: "n \<le> 45" and p: "length p = 45" and buf: "\<And>i. i \<le> 4 * ((n + 2) div 3) \<Longrightarrow>
      buf ! i = (uu_len n # uu_groups p ((n + 2) div 3)) ! i"
  shows "uudecode1 buf = Some (take n p)"
proof -
  let ?k = "(n + 2) div 3"
  have "uint (buf ! 0) = (if n \<noteq> 0 then 0x20 + int n else 0x60)"
    using uu_len_char(1) [OF n] buf [of 0] by simp
  moreover have "uu_bytes buf (1 + 4 * 0) n = take n (drop (3 * 0) p)"
    by (rule uu_bytes_groups [where k = ?k and m = 15]) (use n p buf [of "Suc _"] in auto)
  ultimately show ?thesis using n by (auto simp: uudecode1_def Let_def)
qed

text \<open>What \<open>fgets\<close> makes of a line that fits.\<close>

lemma uu_gets_line:
  assumes "10 \<notin> set l" and "length l < 255" and "length buf = 256"
  shows "uu_gets buf (l @ 10 # rest) = (True, l @ [10, 0] @ drop (length l + 2) buf, rest)"
proof -
  have "takeWhile (\<lambda>c. c \<noteq> 10) (take 255 (l @ 10 # rest)) = l"
    using assms by (cases "255 - length l") (auto simp: takeWhile_append)
  then show ?thesis using assms by (simp add: uu_gets_def Let_def splice_def)
qed

lemma uu_chop_line: "10 \<notin> set l \<Longrightarrow> 0 \<notin> set l \<Longrightarrow> uu_chop (l @ [10, 0] @ r) = l @ [0, 0] @ r"
proof -
  assume "10 \<notin> set l" "0 \<notin> set l"
  then have "takeWhile (\<lambda>c. c \<noteq> 0 \<and> c \<noteq> 10) (l @ [10, 0] @ r) = l" by (auto simp: takeWhile_append)
  then show ?thesis by (simp add: uu_chop_def Let_def list_update_append)
qed

lemma uu_group_set: "10 \<notin> set (uu_groups p k)" "0 \<notin> set (uu_groups p k)"
  using uu_group_chars by (fastforce simp: uu_groups_def)+

lemma uu_body_line:
  "uu_gets buf inp = (True, c, rest) \<Longrightarrow> uu_chop c = b \<Longrightarrow> cname b \<noteq> bytes ''end'' \<Longrightarrow> uudecode1 b = Some out
    \<Longrightarrow> uu_body buf inp = (case uu_body b rest of (e, o') \<Rightarrow> (e, out @ o'))"
  by (subst uu_body.simps) simp

lemma uu_body_end: "uu_gets buf inp = (True, c, rest) \<Longrightarrow> cname (uu_chop c) = bytes ''end'' \<Longrightarrow> uu_body buf inp = (Done, [])"
  by (subst uu_body.simps) simp

lemma uu_body_lines:
  assumes "length buf = 256"
  shows "uu_body buf (uu_lines inp @ bytes ''end'' @ [10] @ rest) = (Done, inp)"
  using assms
proof (induction inp arbitrary: buf rule: uu_lines.induct)
  case (1 inp)
  let ?l = "take 45 inp" let ?n = "length ?l" let ?p = "?l @ replicate (45 - ?n) 0"
  let ?s = "uu_len ?n # uu_groups ?p ((?n + 2) div 3)"
  have n: "?n \<le> 45" and p: "length ?p = 45" by simp_all
  have k: "4 * ((?n + 2) div 3) \<le> 60" using div_le_mono [of "?n + 2" 47 3] n by simp
  have line: "uuencode1 ?p ?n = ?s @ [10]" by (simp add: uuencode1_def uu_groups_def)
  have s: "10 \<notin> set ?s" "0 \<notin> set ?s" "length ?s < 255" using uu_len_char(2) [OF n] uu_group_set k by auto
  have get: "uu_gets buf (?s @ 10 # r) = (True, ?s @ [10, 0] @ drop (length ?s + 2) buf, r)" for r
    using s "1.prems" by (intro uu_gets_line) auto
  let ?b = "?s @ [0, 0] @ drop (length ?s + 2) buf"
  have chop: "uu_chop (?s @ [10, 0] @ drop (length ?s + 2) buf) = ?b" using s by (intro uu_chop_line) auto
  have b: "length ?b = 256" using "1.prems" k by simp
  have "cname ?b = ?s" using s(2) by (auto simp: cname_def takeWhile_append)
  then have ne: "cname ?b \<noteq> bytes ''end''" using uu_len_char(2) [OF n] by (auto simp: bytes_def)
  have dec: "uudecode1 ?b = Some (take ?n ?p)"
  proof (rule uudecode1_line [OF n p])
    fix i assume "i \<le> 4 * ((?n + 2) div 3)"
    then have "i < length ?s" by simp
    then show "?b ! i = ?s ! i" by (simp only: nth_append if_True)
  qed
  have body: "uu_body buf (?s @ 10 # r) = (case uu_body ?b r of (e, o') \<Rightarrow> (e, ?l @ o'))" for r
    by (rule uu_body_line [OF get chop ne]) (simp only: dec, simp add: min_def)
  show ?case
  proof (cases "?l = []")
    case True
    have e: "uu_gets ?b (bytes ''end'' @ 10 # rest) = (True, bytes ''end'' @ [10, 0] @ drop (length (bytes ''end'') + 2) ?b, rest)"
      using b by (intro uu_gets_line) (auto simp: bytes_def)
    have "uu_chop (bytes ''end'' @ [10, 0] @ drop (length (bytes ''end'') + 2) ?b) = bytes ''end'' @ [0, 0] @ drop (length (bytes ''end'') + 2) ?b"
      by (intro uu_chop_line) (auto simp: bytes_def)
    then have "uu_body ?b (bytes ''end'' @ 10 # rest) = (Done, [])"
      by (intro uu_body_end [OF e]) (simp add: bytes_def)
    moreover have "uu_lines inp = ?s @ [10]" using True line by (subst uu_lines.simps) (simp add: Let_def)
    ultimately show ?thesis using True body [of "bytes ''end'' @ 10 # rest"] by simp
  next
    case False
    have "uu_lines inp = ?s @ [10] @ uu_lines (drop 45 inp)" using False line by (subst uu_lines.simps) (simp add: Let_def)
    moreover have "uu_body ?b (uu_lines (drop 45 inp) @ bytes ''end'' @ [10] @ rest) = (Done, drop 45 inp)"
      by (rule "1.IH" [OF refl refl False b])
    ultimately show ?thesis
      using body [of "uu_lines (drop 45 inp) @ bytes ''end'' @ [10] @ rest"] by (simp del: append_take_drop_id add: append_take_drop_id [of 45 inp])
  qed
qed

section \<open>The first line\<close>

lemma strspn_blanks: "c \<noteq> 0x20 \<Longrightarrow> strspn (replicate k 0x20 @ c # r) [0x20, 0] = Some k"
  by (induction k) simp_all

lemma strcspn_word: "(\<forall>x \<in> set w. x \<noteq> 0x20 \<and> x \<noteq> 0) \<Longrightarrow> c = 0x20 \<or> c = 0 \<Longrightarrow> strcspn (w @ c # r) [0x20, 0] = Some (length w)"
  by (induction w) auto

lemma strtok_word:
  assumes w: "\<forall>x \<in> set w. x \<noteq> 0x20 \<and> x \<noteq> 0" and "w \<noteq> []" and c: "c = 0x20 \<or> c = 0"
  shows "strtok_next (pre @ replicate k 0x20 @ w @ c # r) (length pre) [0x20, 0]
    = Some (Some (length pre + k), pre @ replicate k 0x20 @ w @ 0 # r, length pre + k + length w + (if c = 0 then 0 else 1))"
proof -
  obtain a v where v: "w = a # v" "a \<noteq> 0x20" "a \<noteq> 0" using assms by (cases w) auto
  have sp: "strspn (drop (length pre) (pre @ replicate k 0x20 @ w @ c # r)) [0x20, 0] = Some k"
    using strspn_blanks [of a k "v @ c # r"] v by simp
  have d: "drop (length pre + k) (pre @ replicate k 0x20 @ w @ c # r) = w @ c # r" by simp
  have at: "(pre @ replicate k 0x20 @ w @ c # r) ! (length pre + k) = a"
    "(pre @ replicate k 0x20 @ w @ c # r) ! (length pre + k + length w) = c"
    "(pre @ replicate k 0x20 @ w @ c # r)[length pre + k + length w := 0] = pre @ replicate k 0x20 @ w @ 0 # r"
    using v(1) by (simp_all add: nth_append list_update_append)
  show ?thesis
    using v(3) c by (auto simp add: strtok_next_def sp d at strcspn_word [OF w c] Let_def simp del: append.assoc drop_append nth_append_length_plus)
qed

lemma otoi_digits: "otoi_loop n (digits 8 v j) = n * 8 ^ j + of_nat (v mod 8 ^ j)"
proof (induction j arbitrary: n)
  case 0
  then show ?case by (simp add: digits_def)
next
  case (Suc j)
  have d: "digit 8 v j < 8" by (simp add: digit_def)
  have all: "\<forall>d \<in> set [0..<8]. 0x30 \<le> digit_char d \<and> digit_char d \<le> 0x37 \<and> ucast (digit_char d) - 0x30 = (of_nat d :: 32 word)"
    by code_simp
  have "0x30 \<le> digit_char (digit 8 v j) \<and> digit_char (digit 8 v j) \<le> 0x37
      \<and> ucast (digit_char (digit 8 v j)) - 0x30 = (of_nat (digit 8 v j) :: 32 word)"
    using bspec [OF all, of "digit 8 v j"] d by simp
  then have "otoi_loop n (digits 8 v (Suc j)) = otoi_loop (n * 8 + of_nat (digit 8 v j)) (digits 8 v j)"
    by (simp add: digits_def push_bit_eq_mult)
  also have "\<dots> = n * 8 ^ Suc j + of_nat (digit 8 v j * 8 ^ j + v mod 8 ^ j)"
    by (simp add: Suc.IH algebra_simps)
  finally show ?case using mod_digits [of 8 v j] by simp
qed

lemma octal_chars: "x \<in> set (digits 8 v j) \<Longrightarrow> x \<noteq> 0x20 \<and> x \<noteq> 0 \<and> x \<noteq> 10"
proof -
  assume "x \<in> set (digits 8 v j)"
  then obtain d where d: "x = digit_char d" "d < 8" by (auto simp: digits_def digit_def)
  have "\<forall>d \<in> set [0..<8]. digit_char d \<noteq> 0x20 \<and> digit_char d \<noteq> 0 \<and> digit_char d \<noteq> 10" by code_simp
  then show ?thesis using d by simp
qed

definition octal3 :: fmt where
  "octal3 = no_flags\<lparr>fm_width := 3\<rparr>"

lemma uu_header:
  "format_text [] (bytes ''begin %3o %s'' @ [10]) [Num m, Str name]
    = Some (bytes ''begin '' @ pad_text octal3 (itoa m 8) @ [0x20] @ name @ [10])"
  by (simp add: bytes_def get_format_def no_flags_def isdigit_def conv_text_def num_arg_def num_str_def pad_text_def octal3_def)

lemma uu_words_header:
  assumes d: "\<forall>x \<in> set d. x \<noteq> 0x20 \<and> x \<noteq> 0" "d \<noteq> []" and n: "\<forall>x \<in> set name. x \<noteq> 0x20 \<and> x \<noteq> 0" "name \<noteq> []"
  shows "uu_words (bytes ''begin '' @ replicate k 0x20 @ d @ [0x20] @ name @ 0 # r)
    = Some (bytes ''begin'' @ 0 # replicate k 0x20 @ d @ 0 # name @ 0 # r, Some 0, Some (6 + k), Some (6 + k + length d + 1))"
proof -
  let ?b = "bytes ''begin''"
  have b: "\<forall>x \<in> set ?b. x \<noteq> 0x20 \<and> x \<noteq> 0" "?b \<noteq> []" "length ?b = 5" "bytes ''begin '' = ?b @ [0x20]" by (simp_all add: bytes_def)
  have s1: "strtok_next (?b @ 0x20 # replicate k 0x20 @ d @ 0x20 # name @ 0 # r) 0 [0x20, 0]
      = Some (Some 0, ?b @ 0 # replicate k 0x20 @ d @ 0x20 # name @ 0 # r, 6)"
    using strtok_word [OF b(1,2), of "0x20" "[]" 0 "replicate k 0x20 @ d @ 0x20 # name @ 0 # r"] b by simp
  have s2: "strtok_next (?b @ 0 # replicate k 0x20 @ d @ 0x20 # name @ 0 # r) 6 [0x20, 0]
      = Some (Some (6 + k), ?b @ 0 # replicate k 0x20 @ d @ 0 # name @ 0 # r, 6 + k + length d + 1)"
    using strtok_word [OF d, of "0x20" "?b @ [0]" k "name @ 0 # r"] b(3) by simp
  have s3: "strtok_next (?b @ 0 # replicate k 0x20 @ d @ 0 # name @ 0 # r) (6 + k + length d + 1) [0x20, 0]
      = Some (Some (6 + k + length d + 1), ?b @ 0 # replicate k 0x20 @ d @ 0 # name @ 0 # r, 6 + k + length d + 1 + length name)"
    using strtok_word [OF n, of 0 "?b @ 0 # replicate k 0x20 @ d @ [0]" 0 r] b(3) by simp
  have e: "bytes ''begin '' @ replicate k 0x20 @ d @ [0x20] @ name @ 0 # r = ?b @ 0x20 # replicate k 0x20 @ d @ 0x20 # name @ 0 # r"
    unfolding b(4) by simp
  show ?thesis unfolding uu_words_def e s1 by (simp only: Option.bind.bind_lunit prod.case s2 s3)
qed

lemma cname_word: "0 \<notin> set w \<Longrightarrow> cname (w @ 0 # r) = w"
  by (auto simp: cname_def takeWhile_append)

lemma small_octal:
  assumes "v < 512" and "1 < j \<longrightarrow> digit 8 v (j - 1) \<noteq> 0"
  shows "j \<le> 3"
proof (rule ccontr)
  assume "\<not> j \<le> 3"
  then have "(8 :: nat) ^ 3 \<le> 8 ^ (j - 1)" by (intro power_increasing) auto
  then have "v < 8 ^ (j - 1)" using assms(1) by simp
  then show False using assms(2) \<open>\<not> j \<le> 3\<close> by (simp add: digit_def)
qed

text \<open>
  Property C37. Round trip: what \<open>uuencode\<close> makes of any bytes, of a mode and of a name of at most 244 characters without
  blanks, \<open>uudecode\<close> makes into the same bytes again, in a file of that name and of the mode's permissions, whatever
  comes after the text and whatever the buffer of \<open>uudecode\<close> held before.
\<close>

theorem uu_roundtrip:
  assumes "name \<noteq> []" and "length name \<le> 244" and "set name \<inter> {0, 10, 0x20} = {}" and "length buf = 256"
  shows "\<exists>txt. uuencode mode name inp = Some txt \<and> uudecode buf (txt @ rest) = Some (name, mode AND 0x1FF, Done, inp)"
proof -
  let ?m = "mode AND 0x1FF"
  have "unat ?m < 512" using word_and_le1 [of mode "0x1FF"] by (simp add: word_le_nat_alt)
  moreover obtain j where j: "0 < j" "itoa ?m 8 = digits 8 (unat ?m) j" "unat ?m < 8 ^ j" "1 < j \<longrightarrow> digit 8 (unat ?m) (j - 1) \<noteq> 0"
    using itoa_digits [of 8 8 ?m] by auto
  ultimately have j3: "j \<le> 3" by (auto intro: small_octal)
  let ?d = "digits 8 (unat ?m) j"
  have d: "\<forall>x \<in> set ?d. x \<noteq> 0x20 \<and> x \<noteq> 0" "10 \<notin> set ?d" "length ?d = j" "?d \<noteq> []"
    using octal_chars j(1) by (auto simp: digits_def)
  have n: "\<forall>x \<in> set name. x \<noteq> 0x20 \<and> x \<noteq> 0" "10 \<notin> set name" using assms(3) by auto
  let ?h = "bytes ''begin '' @ replicate (3 - j) 0x20 @ ?d @ [0x20] @ name"
  have "pad_text octal3 (itoa ?m 8) = replicate (3 - j) 0x20 @ ?d"
    unfolding j(2) by (simp add: pad_text_def octal3_def no_flags_def d(3) nat_diff_distrib)
  then have enc: "uuencode mode name inp = Some (?h @ 10 # uu_lines inp @ bytes ''end'' @ [10])"
    unfolding uuencode_def uu_header by simp
  have h: "10 \<notin> set ?h" "0 \<notin> set ?h" "length ?h < 255"
    using d n assms(2) j3 by (auto simp: bytes_def)
  let ?r = "drop (length ?h + 2) buf" and ?t = "uu_lines inp @ bytes ''end'' @ [10] @ rest"
  have get: "uu_gets buf (?h @ 10 # ?t) = (True, ?h @ [10, 0] @ ?r, ?t)"
    using h assms(4) by (intro uu_gets_line) auto
  have chop: "uu_chop (?h @ [10, 0] @ ?r) = bytes ''begin '' @ replicate (3 - j) 0x20 @ ?d @ [0x20] @ name @ 0 # 0 # ?r"
    using uu_chop_line [OF h(1,2), of ?r] by simp
  let ?b = "bytes ''begin'' @ 0 # replicate (3 - j) 0x20 @ ?d @ 0 # name @ 0 # 0 # ?r"
  have words: "uu_words (uu_chop (?h @ [10, 0] @ ?r)) = Some (?b, Some 0, Some (6 + (3 - j)), Some (6 + (3 - j) + length ?d + 1))"
    unfolding chop using uu_words_header [OF d(1,4) n(1) assms(1)] by simp
  have b5: "length (bytes ''begin'') = 5" "0 \<notin> set (bytes ''begin'')" by (simp_all add: bytes_def)
  have lb: "length ?b = 256"
    using h(3) assms(4) d(3) by (simp add: b5) (simp add: bytes_def)
  have "cname (drop 0 ?b) = bytes ''begin''" using cname_word [OF b5(2)] by simp
  moreover have "drop (6 + (3 - j)) ?b = ?d @ 0 # name @ 0 # 0 # ?r" by (simp add: b5(1))
  then have "otoi (cname (drop (6 + (3 - j)) ?b)) = ?m"
    using cname_word [of ?d "name @ 0 # 0 # ?r"] d(1) j(3) otoi_digits [of 0 "unat ?m" j] by (auto simp: otoi_def)
  moreover have "drop (6 + (3 - j) + length ?d + 1) ?b = name @ 0 # 0 # ?r" by (simp add: b5(1))
  then have "cname (drop (6 + (3 - j) + length ?d + 1) ?b) = name"
    using cname_word [of name "0 # ?r"] n(1) by auto
  ultimately have "uudecode buf (?h @ 10 # ?t) = Some (name, ?m, uu_body ?b ?t)"
    by (subst uudecode.simps) (simp only: get words prod.case option.case if_True if_False not_True_eq_False simp_thms)
  then show ?thesis unfolding enc uu_body_lines [OF lb] by simp
qed

theorem uu_roundtrip_witness:
  "length (bytes ''a.out'') \<le> 244
   \<and> (\<exists>txt. uuencode 0x81ED (bytes ''a.out'') [1, 2, 3, 0xFF] = Some txt
        \<and> uudecode (replicate 256 0x65) (txt @ [7]) = Some (bytes ''a.out'', 0x81ED AND 0x1FF, Done, [1, 2, 3, 0xFF]))"
  using uu_roundtrip [of "bytes ''a.out''" "replicate 256 0x65" "0x81ED" "[1, 2, 3, 0xFF]" "[7]"] by (simp add: bytes_def)

end
