(* ===== verification/Fsck.thy ===== *)
theory Fsck
  imports Mkfs
begin

unbundle bit_operations_syntax

text \<open>
  \<open>cmd/sbin/fsck.c\<close>, which checks a file system and repairs it. The device is a function from the numbers of
  blocks to their bytes. What is printed, but for the listings of \<open>-v\<close>, is a list of messages. The arrays are
  as long as \<open>calloc\<close> made them: an index behind them is \<open>None\<close>. That memory can be had is assumed.
\<close>

section \<open>State\<close>

datatype fsmsg =
    Io_error
  | Bad_entry nat nat
  | Dir_size nat nat nat
  | Bad_block nat nat
  | Bad_ibmap nat nat
  | Bad_indir nat nat nat
  | Bad_indir2 nat nat nat nat
  | Bad_count nat nat nat
  | Bad_type nat
  | Bad_nlink nat
  | Bad_bam nat nat

text \<open>The options \<open>-f\<close> and \<open>-l\<close>, and which blocks the device reads and writes.\<close>

record fsenv =
  fe_f :: bool
  fe_l :: bool
  fe_rok :: "nat \<Rightarrow> bool"
  fe_wok :: "nat \<Rightarrow> bool"

record fsck =
  fk_sb :: super
  fk_img :: "nat \<Rightarrow> byte list"
  fk_bam :: "byte list"
  fk_lcm :: "16 word list"
  fk_rcm :: "16 word list"
  fk_out :: "fsmsg list"
  fk_modf :: bool

definition say :: "fsmsg \<Rightarrow> fsck \<Rightarrow> fsck" where
  "say m s = s\<lparr>fk_out := fk_out s @ [m]\<rparr>"

definition brange :: "fsck \<Rightarrow> nat \<Rightarrow> bool" where
  "brange s b \<longleftrightarrow> b < s_dblock (fk_sb s) \<or> b \<ge> s_nblocks (fk_sb s)"

text \<open>\<open>lseek\<close> takes a signed offset: blocks from \<open>2 ^ 22\<close> are an error, and from \<open>2 ^ 23\<close> the product wraps.\<close>

definition rdblk :: "fsenv \<Rightarrow> nat \<Rightarrow> fsck \<Rightarrow> byte list option \<times> fsck" where
  "rdblk e b s =
     (let b = b mod 2 ^ 23 in
      if b \<ge> 2 ^ 22 \<or> \<not> fe_rok e b then (None, say Io_error s) else (Some (fk_img s b), s))"

definition wrblk :: "fsenv \<Rightarrow> byte list \<Rightarrow> nat \<Rightarrow> fsck \<Rightarrow> fsck" where
  "wrblk e buf b s =
     (let b = b mod 2 ^ 23 in
      if b \<ge> 2 ^ 22 \<or> \<not> fe_wok e b then say Io_error s else s\<lparr>fk_img := (fk_img s)(b := buf)\<rparr>)"

text \<open>\<open>wrblk(buf, b); modf = 1;\<close>\<close>

definition repair :: "fsenv \<Rightarrow> byte list \<Rightarrow> nat \<Rightarrow> fsck \<Rightarrow> fsck" where
  "repair e buf b s = (wrblk e buf b s)\<lparr>fk_modf := True\<rparr>"

definition clink :: "nat \<Rightarrow> fsck \<Rightarrow> fsck option" where
  "clink ino s = (if ino < length (fk_rcm s) then Some (s\<lparr>fk_rcm := (fk_rcm s)[ino := fk_rcm s ! ino + 1]\<rparr>) else None)"

definition bused :: "nat \<Rightarrow> fsck \<Rightarrow> fsck option" where
  "bused blk s =
     (if blk div 8 < length (fk_bam s)
      then Some (s\<lparr>fk_bam := (fk_bam s)[blk div 8 := fk_bam s ! (blk div 8) OR push_bit (blk mod 8) 1]\<rparr>)
      else None)"

text \<open>A loop over indices.\<close>

fun each :: "('a \<Rightarrow> 's \<Rightarrow> 's option) \<Rightarrow> 'a list \<Rightarrow> 's \<Rightarrow> 's option" where
  "each f [] s = Some s"
| "each f (x # xs) s = Option.bind (f x s) (each f xs)"

section \<open>The maps of an inode\<close>

text \<open>The loops of \<open>cinode\<close> carry the inode or the map, the count of blocks, and the state.\<close>

definition chk0 :: "fsenv \<Rightarrow> nat \<Rightarrow> nat \<Rightarrow> disk_inode \<times> nat \<times> fsck \<Rightarrow> (disk_inode \<times> nat \<times> fsck) option" where
  "chk0 e ino i = (\<lambda>(di, bc, s).
     let b = bmap0 di ! i in
     if b = 0 then Some (di, bc, s)
     else if brange s b then
       let s = say (Bad_block ino b) s in
       if fe_f e then let di = di\<lparr>bmap0 := (bmap0 di)[i := 0]\<rparr> in Some (di, bc + 1, repair e (encode_dinode di) ino s)
       else Some (di, bc + 1, s)
     else map_option (\<lambda>s. (di, bc + 1, s)) (bused b s))"

definition chk_ent :: "fsenv \<Rightarrow> nat \<Rightarrow> nat \<Rightarrow> nat \<Rightarrow> nat list \<times> nat \<times> fsck \<Rightarrow> (nat list \<times> nat \<times> fsck) option" where
  "chk_ent e ino b n = (\<lambda>(map, bc, s).
     let x = map ! n in
     if x = 0 then Some (map, bc, s)
     else if brange s x then
       let s = say (Bad_indir ino b x) s in
       if fe_f e then let map = map[n := 0] in Some (map, bc, repair e (le32s map) b s) else Some (map, bc, s)
     else map_option (\<lambda>s. (map, bc + 1, s)) (bused x s))"

text \<open>A map block in range, with the test of its entries; both loops over such blocks have this.\<close>

definition chk_map :: "(nat \<Rightarrow> nat list \<times> nat \<times> fsck \<Rightarrow> (nat list \<times> nat \<times> fsck) option) \<Rightarrow> fsenv \<Rightarrow> nat \<Rightarrow> nat \<Rightarrow> fsck \<Rightarrow> (nat \<times> fsck) option" where
  "chk_map te e b bc s =
     Option.bind (bused b s) (\<lambda>s.
       case rdblk e b s of
         (None, s) \<Rightarrow> Some (bc + 1, s)
       | (Some buf, s) \<Rightarrow> map_option snd (each te [0..<128] (rd32s buf 0 128, bc + 1, s)))"

definition chk1 :: "fsenv \<Rightarrow> nat \<Rightarrow> nat \<Rightarrow> disk_inode \<times> nat \<times> fsck \<Rightarrow> (disk_inode \<times> nat \<times> fsck) option" where
  "chk1 e ino i = (\<lambda>(di, bc, s).
     let b = bmap1 di ! i in
     if b = 0 then Some (di, bc, s)
     else if brange s b then
       let s = say (Bad_ibmap ino b) s in
       if fe_f e then let di = di\<lparr>bmap1 := (bmap1 di)[i := 0]\<rparr> in Some (di, bc, repair e (encode_dinode di) ino s)
       else Some (di, bc, s)
     else map_option (\<lambda>(bc, s). (di, bc, s)) (chk_map (chk_ent e ino b) e b bc s))"

text \<open>The third level: after the message, an entry out of range is marked as used all the same.\<close>

definition chk_ent3 :: "fsenv \<Rightarrow> nat \<Rightarrow> nat \<Rightarrow> nat \<Rightarrow> nat \<Rightarrow> nat list \<times> nat \<times> fsck \<Rightarrow> (nat list \<times> nat \<times> fsck) option" where
  "chk_ent3 e ino b x m = (\<lambda>(map2, bc, s).
     let y = map2 ! m in
     if y = 0 then Some (map2, bc, s)
     else
       let (map2, s) =
         (if brange s y then
            let s = say (Bad_indir2 ino b x y) s in
            if fe_f e then let map2 = map2[m := 0] in (map2, repair e (le32s map2) x s) else (map2, s)
          else (map2, s))
       in map_option (\<lambda>s. (map2, bc + 1, s)) (bused (map2 ! m) s))"

definition chk_ent2 :: "fsenv \<Rightarrow> nat \<Rightarrow> nat \<Rightarrow> nat \<Rightarrow> nat list \<times> nat \<times> fsck \<Rightarrow> (nat list \<times> nat \<times> fsck) option" where
  "chk_ent2 e ino b n = (\<lambda>(map, bc, s).
     let x = map ! n in
     if x = 0 then Some (map, bc, s)
     else if brange s x then
       let s = say (Bad_indir ino b x) s in
       if fe_f e then let map = map[n := 0] in Some (map, bc, repair e (le32s map) b s) else Some (map, bc, s)
     else case rdblk e x s of
         (None, s) \<Rightarrow> Some (map, bc, s)
       | (Some buf, s) \<Rightarrow>
           Option.bind (each (chk_ent3 e ino b x) [0..<128] (rd32s buf 0 128, bc, s)) (\<lambda>(_, bc, s).
             map_option (\<lambda>s. (map, bc + 1, s)) (bused x s)))"

definition chk2 :: "fsenv \<Rightarrow> nat \<Rightarrow> nat \<Rightarrow> disk_inode \<times> nat \<times> fsck \<Rightarrow> (disk_inode \<times> nat \<times> fsck) option" where
  "chk2 e ino i = (\<lambda>(di, bc, s).
     let b = bmap2 di ! i in
     if b = 0 then Some (di, bc, s)
     else if brange s b then
       let s = say (Bad_ibmap ino b) s in
       if fe_f e then let di = di\<lparr>bmap2 := (bmap2 di)[i := 0]\<rparr> in Some (di, bc, repair e (encode_dinode di) ino s)
       else Some (di, bc, s)
     else map_option (\<lambda>(bc, s). (di, bc, s)) (chk_map (chk_ent2 e ino b) e b bc s))"

text \<open>\<open>cinode\<close> up to its last switch; without an inode when it returns before that.\<close>

definition cinode_maps :: "fsenv \<Rightarrow> nat \<Rightarrow> fsck \<Rightarrow> (disk_inode option \<times> fsck) option" where
  "cinode_maps e ino s = do {
     s \<leftarrow> bused ino s;
     s \<leftarrow> clink ino s;
     (if 1 <s fk_rcm s ! ino then Some (None, s)
      else case rdblk e ino s of
          (None, s) \<Rightarrow> Some (None, s)
        | (Some buf, s) \<Rightarrow> do {
            let di = decode_dinode buf;
            let s = s\<lparr>fk_lcm := (fk_lcm s)[ino := d_nlink di]\<rparr>;
            (di, bc, s) \<leftarrow> each (chk0 e ino) [0..<BMAP0_SIZE] (di, 0, s);
            (di, bc, s) \<leftarrow> each (chk1 e ino) [0..<BMAP1_SIZE] (di, bc, s);
            (di, bc, s) \<leftarrow> each (chk2 e ino) [0..<BMAP2_SIZE] (di, bc, s);
            (if unat (d_blocks di) \<noteq> bc then
               let s = say (Bad_count ino (unat (d_blocks di)) bc) s in
               if fe_f e then let di = di\<lparr>d_blocks := of_nat bc\<rparr> in Some (Some di, repair e (encode_dinode di) ino s)
               else Some (Some di, s)
             else Some (Some di, s))
          })
   }"

section \<open>The walk\<close>

text \<open>
  The functions that call each other take \<open>cinode\<close> as an argument. The walk is not entered again at an inode whose
  count of references is above 1; but this count has 16 bits, so that it can wrap, and \<open>cinode\<close> is a
  partial function.
\<close>

definition dot_entry :: "byte list \<Rightarrow> nat \<Rightarrow> bool" where
  "dot_entry buf k \<longleftrightarrow> strncmp (drop (32 * k + 4) buf) (cstr DOT) (NAME_MAX + 1) = Some 0
     \<or> strncmp (drop (32 * k + 4) buf) (cstr DOTDOT) (NAME_MAX + 1) = Some 0"

fun cdirb_loop :: "(nat \<Rightarrow> nat \<Rightarrow> fsck \<Rightarrow> fsck option) \<Rightarrow> fsenv \<Rightarrow> nat \<Rightarrow> nat \<Rightarrow> byte list \<Rightarrow> nat list \<Rightarrow> nat \<Rightarrow> fsck
    \<Rightarrow> (nat \<times> fsck) option" where
  "cdirb_loop ci e dir blk buf [] sz s = Some (sz, s)"
| "cdirb_loop ci e dir blk buf (k # ks) sz s =
     (let ino = de_ino buf k in
      if ino = 0 then cdirb_loop ci e dir blk buf ks sz s
      else
        let sz = (k + 1) * 32 in
        if brange s ino then
          let s = say (Bad_entry blk ino) s in
          Some (sz, if fe_f e then repair e (splice (32 * k) (replicate 32 0) buf) blk s else s)
        else if \<not> dot_entry buf k then Option.bind (ci dir ino s) (cdirb_loop ci e dir blk buf ks sz)
        else cdirb_loop ci e dir blk buf ks sz s)"

text \<open>The result of \<open>rdblk\<close> is ignored: when it fails, the block is read uninitialised.\<close>

definition cdirb :: "(nat \<Rightarrow> nat \<Rightarrow> fsck \<Rightarrow> fsck option) \<Rightarrow> fsenv \<Rightarrow> nat \<Rightarrow> nat \<Rightarrow> fsck \<Rightarrow> (nat \<times> fsck) option" where
  "cdirb ci e dir blk s =
     (case rdblk e blk s of (None, s) \<Rightarrow> None | (Some buf, s) \<Rightarrow> cdirb_loop ci e dir blk buf [0..<DIRENTS] 0 s)"

definition cdir :: "(nat \<Rightarrow> nat \<Rightarrow> fsck \<Rightarrow> fsck option) \<Rightarrow> fsenv \<Rightarrow> disk_inode \<Rightarrow> nat \<Rightarrow> fsck \<Rightarrow> fsck option" where
  "cdir ci e di ino s =
     Option.bind (each (\<lambda>i (sz, s).
         let b = bmap0 di ! i in
         if b = 0 then Some (sz, s)
         else Option.bind (cdirb ci e ino b s) (\<lambda>(n, s). Some (i * BLK_SIZE + n, s))) [0..<BMAP0_SIZE] (0, s))
       (\<lambda>(sz, s).
         if sint (d_size di) < int sz then
           let s = say (Dir_size ino (unat (d_size di)) sz) s in
           Some (if fe_f e then repair e (encode_dinode (di\<lparr>d_size := of_nat sz\<rparr>)) ino s else s)
         else Some s)"

text \<open>\<open>cinode\<close> may call itself in these loops.\<close>

lemma each_mono [partial_function_mono]:
  assumes "\<And>x s. mono_option (\<lambda>F. C F x s)"
  shows "mono_option (\<lambda>F. each (C F) xs s)"
proof (induction xs arbitrary: s)
  case (Cons x xs)
  show ?case by (simp, rule partial_function_mono) (rule assms Cons.IH)+
qed (simp add: partial_function_mono)

lemma cdirb_loop_mono [partial_function_mono]:
  assumes "\<And>d i s. mono_option (\<lambda>F. C F d i s)"
  shows "mono_option (\<lambda>F. cdirb_loop (C F) e dir blk buf ks sz s)"
proof (induction ks arbitrary: sz s)
  case (Cons k ks)
  show ?case
    unfolding cdirb_loop.simps Let_def
    by (intro partial_function_mono assms Cons.IH)
qed (simp add: partial_function_mono)

lemma cdirb_mono [partial_function_mono]:
  assumes "\<And>d i s. mono_option (\<lambda>F. C F d i s)"
  shows "mono_option (\<lambda>F. cdirb (C F) e dir blk s)"
  by (cases "rdblk e blk s"; cases "fst (rdblk e blk s)") (simp_all add: cdirb_def partial_function_mono assms)

lemma cdir_mono [partial_function_mono]:
  assumes "\<And>d i s. mono_option (\<lambda>F. C F d i s)"
  shows "mono_option (\<lambda>F. cdir (C F) e di ino s)"
  unfolding cdir_def Let_def split_def by (intro partial_function_mono assms)

partial_function (option) cinode :: "fsenv \<Rightarrow> nat \<Rightarrow> nat \<Rightarrow> fsck \<Rightarrow> fsck option" where
  "cinode e dir ino s =
     Option.bind (cinode_maps e ino s) (\<lambda>(di, s).
       case di of
         None \<Rightarrow> Some s
       | Some di \<Rightarrow>
           if d_mode di AND S_IFMT \<in> {S_IFBLK, S_IFCHR, S_IFIFO, S_IFREG} then Some s
           else if d_mode di AND S_IFMT = S_IFDIR then
             Option.bind (clink dir s) (\<lambda>s. Option.bind (clink ino s) (\<lambda>s. cdir (\<lambda>d i s. cinode e d i s) e di ino s))
           else
             let s = say (Bad_type ino) s in
             Some (if fe_f e then repair e (encode_dinode (di\<lparr>d_mode := d_mode di AND 0xFFF OR S_IFREG\<rparr>)) ino s else s))"

section \<open>The counts and the map\<close>

definition cnlink1 :: "fsenv \<Rightarrow> nat \<Rightarrow> fsck \<Rightarrow> fsck option" where
  "cnlink1 e i s =
     (if fk_lcm s ! i = fk_rcm s ! i then Some s
      else
        let s = (if fe_l e then s else say (Bad_nlink i) s) in
        if fe_f e \<or> fe_l e then
          case rdblk e i s of
            (None, s) \<Rightarrow> Some s
          | (Some buf, s) \<Rightarrow> Some (repair e (encode_dinode ((decode_dinode buf)\<lparr>d_nlink := fk_rcm s ! i\<rparr>)) i s)
        else Some s)"

definition cnlink :: "fsenv \<Rightarrow> fsck \<Rightarrow> fsck option" where
  "cnlink e s = each (cnlink1 e) [0..<s_nblocks (fk_sb s)] s"

definition cbam1 :: "fsenv \<Rightarrow> nat \<Rightarrow> fsck \<Rightarrow> fsck option" where
  "cbam1 e i s =
     (case rdblk e (i + s_bitmap (fk_sb s)) s of
        (None, s) \<Rightarrow> Some s
      | (Some buf, s) \<Rightarrow>
          if i * 512 + 512 > length (fk_bam s) then None
          else
            let real = take 512 (drop (i * 512) (fk_bam s));
                bad = filter (\<lambda>n. buf ! n \<noteq> real ! n) [0..<512];
                s = fold (\<lambda>n. say (Bad_bam i n)) bad s
            in Some (if fe_f e \<and> bad \<noteq> [] then repair e real (i + s_bitmap (fk_sb s)) s else s))"

definition cbam :: "fsenv \<Rightarrow> fsck \<Rightarrow> fsck option" where
  "cbam e s = each (cbam1 e) [0..<(s_nblocks (fk_sb s) + 4095) mod 2 ^ 32 div 4096] s"

definition fsck_start :: "(nat \<Rightarrow> byte list) \<Rightarrow> super \<Rightarrow> fsck" where
  "fsck_start img sb =
     \<lparr>fk_sb = sb, fk_img = img, fk_bam = replicate (s_nblocks sb) 0, fk_lcm = replicate (s_nblocks sb) 0,
      fk_rcm = replicate (s_nblocks sb) 0, fk_out = [], fk_modf = False\<rparr>"

definition fsck1 :: "fsenv \<Rightarrow> (nat \<Rightarrow> byte list) \<Rightarrow> fsck option" where
  "fsck1 e img =
     (let sb = decode_super (img 1); s = fsck_start img sb in
      if \<not> fe_rok e 1 then Some (say Io_error s)
      else do {
        s \<leftarrow> each bused [0..<s_dblock sb] s;
        s \<leftarrow> cinode e (s_root sb) (s_root sb) s;
        let s = s\<lparr>fk_rcm := (fk_rcm s)[s_root sb := fk_rcm s ! s_root sb - 1]\<rparr>;
        s \<leftarrow> cnlink e s;
        cbam e s
      })"

section \<open>What a run without messages has seen\<close>

declare upt_rec_numeral [simp del]

definition used :: "fsck \<Rightarrow> nat set" where
  "used s = {b. b div 8 < length (fk_bam s) \<and> bit (fk_bam s ! (b div 8)) (b mod 8)}"

abbreviation nz :: "nat list \<Rightarrow> nat set" where
  "nz xs \<equiv> set xs - {0}"

text \<open>The blocks of a file, its maps included.\<close>

definition ents :: "(nat \<Rightarrow> byte list) \<Rightarrow> nat \<Rightarrow> nat set" where
  "ents img b = nz (rd32s (img b) 0 128)"

definition refs1 :: "(nat \<Rightarrow> byte list) \<Rightarrow> nat \<Rightarrow> nat set" where
  "refs1 img b = insert b (ents img b)"

definition refs2 :: "(nat \<Rightarrow> byte list) \<Rightarrow> nat \<Rightarrow> nat set" where
  "refs2 img b = insert b (\<Union>x \<in> ents img b. insert x (ents img x))"

definition file_refs :: "(nat \<Rightarrow> byte list) \<Rightarrow> disk_inode \<Rightarrow> nat set" where
  "file_refs img d = nz (bmap0 d) \<union> (\<Union>b \<in> nz (bmap1 d). refs1 img b) \<union> (\<Union>b \<in> nz (bmap2 d). refs2 img b)"

text \<open>A step that marks the blocks \<open>A\<close> and changes nothing else, when no message has been printed after it.\<close>

definition qs :: "nat set \<Rightarrow> fsck \<Rightarrow> fsck \<Rightarrow> bool" where
  "qs A s s' \<longleftrightarrow> fk_out s = [] \<and> fk_img s' = fk_img s \<and> fk_sb s' = fk_sb s \<and> length (fk_bam s') = length (fk_bam s)
     \<and> fk_rcm s' = fk_rcm s \<and> used s' = used s \<union> A"

lemma qs_trans: "qs A s t \<Longrightarrow> qs B t u \<Longrightarrow> qs (A \<union> B) s u"
  by (auto simp: qs_def)

lemma qs_refl: "fk_out s = [] \<Longrightarrow> qs {} s s"
  by (simp add: qs_def)

lemma say_out [simp]: "fk_out (say m s) \<noteq> []"
  by (simp add: say_def)

lemma repair_out: "fk_out (repair e buf b s) = [] \<Longrightarrow> fk_out s = []"
  by (auto simp: repair_def wrblk_def Let_def split: if_splits)

lemma repair_say [simp]: "fk_out (repair e buf b (say m s)) \<noteq> []"
  using repair_out say_out by blast

lemma rdblk_ok: "b < 2 ^ 22 \<Longrightarrow> rdblk e b s = (r, s') \<Longrightarrow> fk_out s' = [] \<Longrightarrow> r = Some (fk_img s b) \<and> s' = s"
  by (auto simp: rdblk_def split: if_splits)

lemma rdblk_out: "rdblk e b s = (r, s') \<Longrightarrow> fk_out s' = [] \<Longrightarrow> s' = s"
  by (auto simp: rdblk_def Let_def split: if_splits)

lemma bit_one_mod: "bit (2 ^ (b mod 8) :: byte) k \<longleftrightarrow> k = b mod 8"
  by (auto simp: bit_simps)

lemma bused_qs: "bused b s = Some s' \<Longrightarrow> fk_out s' = [] \<Longrightarrow> qs {b} s s'"
proof -
  assume b: "bused b s = Some s'" and o': "fk_out s' = []"
  then have l: "b div 8 < length (fk_bam s)"
    and s': "s' = s\<lparr>fk_bam := (fk_bam s)[b div 8 := fk_bam s ! (b div 8) OR push_bit (b mod 8) 1]\<rparr>"
    by (auto simp: bused_def split: if_splits)
  have "used s' = used s \<union> {b}"
  proof (rule set_eqI)
    fix x
    have "x = b" if "x div 8 = b div 8" "x mod 8 = b mod 8" using that by (metis div_mult_mod_eq)
    then show "x \<in> used s' \<longleftrightarrow> x \<in> used s \<union> {b}"
      using l by (cases "x div 8 = b div 8") (auto simp: used_def s' bit_or_iff bit_one_mod)
  qed
  then show ?thesis using o' by (simp add: qs_def s')
qed

text \<open>A step of a loop never takes a message back.\<close>

definition keeps_out :: "('a \<Rightarrow> 'm \<times> nat \<times> fsck \<Rightarrow> ('m \<times> nat \<times> fsck) option) \<Rightarrow> bool" where
  "keeps_out f \<longleftrightarrow> (\<forall>x m bc s m' bc' s'. f x (m, bc, s) = Some (m', bc', s') \<longrightarrow> fk_out s' = [] \<longrightarrow> fk_out s = [])"

lemma each_out: "keeps_out f \<Longrightarrow> each f xs (m, bc, s) = Some (m', bc', s') \<Longrightarrow> fk_out s' = [] \<Longrightarrow> fk_out s = []"
proof (induction xs arbitrary: m bc s)
  case (Cons x xs)
  obtain m1 bc1 s1 where "f x (m, bc, s) = Some (m1, bc1, s1)" "each f xs (m1, bc1, s1) = Some (m', bc', s')"
    using Cons.prems(2) by (auto simp: bind_eq_Some_conv)
  then show ?case using Cons.IH Cons.prems(1,3) unfolding keeps_out_def by blast
qed simp

text \<open>
  The steps that, without a message, mark \<open>A x\<close> and keep the map: \<open>G x\<close> is what they have tested.
\<close>

definition marks :: "(nat \<Rightarrow> byte list) \<Rightarrow> super \<Rightarrow> 'm \<Rightarrow> ('a \<Rightarrow> nat set) \<Rightarrow> ('a \<Rightarrow> bool)
    \<Rightarrow> ('a \<Rightarrow> 'm \<times> nat \<times> fsck \<Rightarrow> ('m \<times> nat \<times> fsck) option) \<Rightarrow> 'a \<Rightarrow> bool" where
  "marks img sb m A G f x \<longleftrightarrow> (\<forall>bc s m' bc' s'. fk_img s = img \<longrightarrow> fk_sb s = sb \<longrightarrow> f x (m, bc, s) = Some (m', bc', s') \<longrightarrow>
     fk_out s' = [] \<longrightarrow> m' = m \<and> qs (A x) s s' \<and> G x)"

lemma marksD:
  "marks img sb m A G f x \<Longrightarrow> fk_img s = img \<Longrightarrow> fk_sb s = sb \<Longrightarrow> f x (m, bc, s) = Some (m', bc', s') \<Longrightarrow> fk_out s' = []
    \<Longrightarrow> m' = m \<and> qs (A x) s s' \<and> G x"
  unfolding marks_def by blast

lemma each_marks:
  assumes "keeps_out f" and "\<And>x. x \<in> set xs \<Longrightarrow> marks img sb m A G f x"
    and "each f xs (m, bc, s) = Some (m', bc', s')" and "fk_out s' = []" and "fk_img s = img" and "fk_sb s = sb"
  shows "m' = m \<and> qs (\<Union>x \<in> set xs. A x) s s' \<and> (\<forall>x \<in> set xs. G x)"
  using assms(2-)
proof (induction xs arbitrary: bc s)
  case Nil
  then show ?case by (simp add: qs_refl)
next
  case (Cons x xs)
  obtain m1 bc1 s1 where 1: "f x (m, bc, s) = Some (m1, bc1, s1)" "each f xs (m1, bc1, s1) = Some (m', bc', s')"
    using Cons.prems(2) by (auto simp: bind_eq_Some_conv)
  have o1: "fk_out s1 = []" by (rule each_out [OF assms(1) 1(2) Cons.prems(3)])
  have x: "m1 = m \<and> qs (A x) s s1 \<and> G x"
    using marksD [of img sb m A G f x s bc m1 bc1 s1] Cons.prems(1,4,5) 1(1) o1 by simp
  then have "fk_img s1 = img" "fk_sb s1 = sb" using Cons.prems(4,5) by (auto simp: qs_def)
  then have "m' = m \<and> qs (\<Union>x \<in> set xs. A x) s1 s' \<and> (\<forall>x \<in> set xs. G x)"
    using Cons.IH Cons.prems(1,3) 1(2) x by simp
  then show ?case using x qs_trans [of "A x" s s1 "\<Union>x \<in> set xs. A x" s'] by simp
qed

abbreviation in_data :: "super \<Rightarrow> nat set \<Rightarrow> bool" where
  "in_data sb B \<equiv> B \<subseteq> {s_dblock sb..<s_nblocks sb}"

lemma bused_out: "bused b s = Some s' \<Longrightarrow> fk_out s' = fk_out s"
  by (auto simp: bused_def split: if_splits)

lemma chk_out: "keeps_out (chk0 e ino)" "keeps_out (chk_ent e ino b)" "keeps_out (chk_ent3 e ino b x)"
  by (auto simp: keeps_out_def chk0_def chk_ent_def chk_ent3_def Let_def bused_out split: if_splits dest: repair_out bused_out)

lemma not_brange: "fk_sb s = sb \<Longrightarrow> \<not> brange s b \<longleftrightarrow> in_data sb {b}"
  by (auto simp: brange_def)

lemma chk0_marks: "marks img sb di (\<lambda>i. {bmap0 di ! i} - {0}) (\<lambda>i. in_data sb ({bmap0 di ! i} - {0})) (chk0 e ino) i"
  using not_brange bused_qs by (fastforce simp: marks_def chk0_def Let_def qs_refl split: if_splits)

lemma chk_ent_marks: "marks img sb m (\<lambda>n. {m ! n} - {0}) (\<lambda>n. in_data sb ({m ! n} - {0})) (chk_ent e ino b) n"
  using not_brange bused_qs by (fastforce simp: marks_def chk_ent_def Let_def qs_refl split: if_splits)

lemma chk_ent3_marks: "marks img sb m (\<lambda>n. {m ! n} - {0}) (\<lambda>n. in_data sb ({m ! n} - {0})) (chk_ent3 e ino b x) n"
  using not_brange bused_qs
  by (fastforce simp: marks_def chk_ent3_def Let_def qs_refl bused_out split: if_splits dest: bused_out)

definition on_nz :: "(nat \<Rightarrow> nat set) \<Rightarrow> nat \<Rightarrow> nat set" where
  "on_nz F b = (if b = 0 then {} else F b)"

lemma on_nz_UN: "length xs = n \<Longrightarrow> (\<Union>i \<in> set [0..<n]. on_nz F (xs ! i)) = (\<Union>b \<in> nz xs. F b)"
  by (fastforce simp: on_nz_def in_set_conv_nth split: if_splits)

lemma ents_UN: "(\<Union>n \<in> set [0..<128]. {rd32s (img b) 0 128 ! n} - {0}) = ents img b"
  by (fastforce simp: ents_def in_set_conv_nth rd32s_def)

lemma each_ents:
  assumes "keeps_out f" and "\<And>n. marks img sb (rd32s (img b) 0 128) (\<lambda>n. on_nz F (rd32s (img b) 0 128 ! n)) (\<lambda>n. in_data sb (on_nz F (rd32s (img b) 0 128 ! n))) f n"
    and "each f [0..<128] (rd32s (img b) 0 128, bc, s) = Some (m', bc', s')" and "fk_out s' = []" and "fk_img s = img" and "fk_sb s = sb"
  shows "qs (\<Union>x \<in> ents img b. F x) s s' \<and> in_data sb (\<Union>x \<in> ents img b. F x)"
proof -
  have "length (rd32s (img b) 0 128) = 128" by (simp add: rd32s_def)
  from on_nz_UN [OF this, of F] each_marks [OF assms(1) _ assms(3-6), of "\<lambda>n. on_nz F (rd32s (img b) 0 128 ! n)"
      "\<lambda>n. in_data sb (on_nz F (rd32s (img b) 0 128 ! n))"] assms(2)
  show ?thesis unfolding ents_def by (metis (no_types, lifting) UN_least)
qed

lemma on_nz_single: "on_nz (\<lambda>b. {b}) x = {x} - {0}"
  by (simp add: on_nz_def)

lemma chk_map_cases:
  assumes "chk_map te e b bc s = Some (bc', s')"
  obtains s1 where "bused b s = Some s1" "rdblk e b s1 = (None, s')"
  | s1 s2 buf m' where "bused b s = Some s1" "rdblk e b s1 = (Some buf, s2)" "each te [0..<128] (rd32s buf 0 128, bc + 1, s2) = Some (m', bc', s')"
proof -
  obtain s1 where s1: "bused b s = Some s1" using assms by (cases "bused b s") (simp_all add: chk_map_def)
  obtain r s2 where r: "rdblk e b s1 = (r, s2)" by force
  show thesis
  proof (cases r)
    case None
    then show thesis using that(1) assms s1 r by (simp add: chk_map_def)
  next
    case (Some buf)
    then obtain m' where "each te [0..<128] (rd32s buf 0 128, bc + 1, s2) = Some (m', bc', s')"
      using assms s1 r by (auto simp: chk_map_def)
    then show thesis using that(2) s1 r Some by blast
  qed
qed

lemma chk_map_out: "keeps_out te \<Longrightarrow> chk_map te e b bc s = Some (bc', s') \<Longrightarrow> fk_out s' = [] \<Longrightarrow> fk_out s = []"
  by (elim chk_map_cases) (metis bused_out rdblk_out each_out)+

lemma chk_map_marks:
  assumes "keeps_out te" and "\<And>n. marks img sb (rd32s (img b) 0 128) (\<lambda>n. on_nz F (rd32s (img b) 0 128 ! n)) (\<lambda>n. in_data sb (on_nz F (rd32s (img b) 0 128 ! n))) te n"
    and "chk_map te e b bc s = Some (bc', s')" and o': "fk_out s' = []" and s: "fk_img s = img" "fk_sb s = sb" and b: "b < 2 ^ 22"
  shows "qs (insert b (\<Union>x \<in> ents img b. F x)) s s' \<and> in_data sb (\<Union>x \<in> ents img b. F x)"
  using assms(3)
proof (cases rule: chk_map_cases)
  case (1 s1)
  then show ?thesis using rdblk_ok [OF b 1(2) o'] by simp
next
  case (2 s1 s2 buf m')
  have o2: "fk_out s2 = []" by (rule each_out [OF assms(1) 2(3) o'])
  have r: "buf = fk_img s1 b" "s2 = s1" using rdblk_ok [OF b 2(2) o2] by auto
  have q1: "qs {b} s s1" by (rule bused_qs [OF 2(1)]) (use o2 r in simp)
  then have s1: "fk_img s1 = img" "fk_sb s1 = sb" using s by (auto simp: qs_def)
  have "each te [0..<128] (rd32s (img b) 0 128, bc + 1, s1) = Some (m', bc', s')" using 2(3) r s1(1) by simp
  from each_ents [OF assms(1,2) this o' s1] show ?thesis using qs_trans [OF q1, of _ s'] by auto
qed

lemma chk1_eq:
  assumes "chk1 e ino i (di, bc, s) = Some (m', bc', s')" and "fk_out s' = []"
  obtains "bmap1 di ! i = 0" "m' = di" "s' = s"
  | "bmap1 di ! i \<noteq> 0" "\<not> brange s (bmap1 di ! i)" "m' = di" "chk_map (chk_ent e ino (bmap1 di ! i)) e (bmap1 di ! i) bc s = Some (bc', s')"
  using assms by (auto simp: chk1_def Let_def split: if_splits)

lemma chk1_out: "keeps_out (chk1 e ino)"
  unfolding keeps_out_def
proof (intro allI impI)
  fix i m bc s m' bc' s' assume c: "chk1 e ino i (m, bc, s) = Some (m', bc', s')" and o': "fk_out s' = []"
  from c o' show "fk_out s = []"
    by (cases rule: chk1_eq) (use o' chk_map_out [OF chk_out(2) _ o'] in auto)
qed

lemma chk1_marks:
  assumes "s_nblocks sb \<le> 2 ^ 22"
  shows "marks img sb di (\<lambda>i. on_nz (refs1 img) (bmap1 di ! i)) (\<lambda>i. in_data sb (on_nz (refs1 img) (bmap1 di ! i))) (chk1 e ino) i"
  unfolding marks_def
proof (intro allI impI)
  fix bc s m' bc' s'
  assume s: "fk_img s = img" "fk_sb s = sb" and c: "chk1 e ino i (di, bc, s) = Some (m', bc', s')" and o': "fk_out s' = []"
  let ?b = "bmap1 di ! i"
  show "m' = di \<and> qs (on_nz (refs1 img) ?b) s s' \<and> in_data sb (on_nz (refs1 img) ?b)"
    using c o'
  proof (cases rule: chk1_eq)
    case 1
    then show ?thesis using o' by (simp add: on_nz_def qs_refl)
  next
    case 2
    then have b: "in_data sb {?b}" "?b < 2 ^ 22" using not_brange [OF s(2)] assms by auto
    have "qs (insert ?b (\<Union>x \<in> ents img ?b. {x})) s s' \<and> in_data sb (\<Union>x \<in> ents img ?b. {x})"
      by (rule chk_map_marks [OF chk_out(2) _ 2(4) o' s b(2)]) (simp only: on_nz_single chk_ent_marks)
    then show ?thesis using b(1) 2(1,3) by (simp add: on_nz_def refs1_def)
  qed
qed

text \<open>The same with one level more.\<close>

lemma chk_ent2_eq:
  assumes "chk_ent2 e ino b n (m, bc, s) = Some (m', bc', s')" and "fk_out s' = []"
  obtains "m ! n = 0" "m' = m" "s' = s"
  | s2 buf m2 bc2 s3 where "m ! n \<noteq> 0" "\<not> brange s (m ! n)" "m' = m" "rdblk e (m ! n) s = (Some buf, s2)"
      "each (chk_ent3 e ino b (m ! n)) [0..<128] (rd32s buf 0 128, bc, s2) = Some (m2, bc2, s3)" "bused (m ! n) s3 = Some s'"
  | "\<not> brange s (m ! n)" "m' = m" "rdblk e (m ! n) s = (None, s')"
proof (cases "m ! n = 0 \<or> brange s (m ! n)")
  case True
  then show thesis using assms that(1) by (auto simp: chk_ent2_def Let_def split: if_splits)
next
  case False
  obtain r s2 where r: "rdblk e (m ! n) s = (r, s2)" by force
  show thesis
  proof (cases r)
    case None
    then show thesis using assms r False that(3) by (auto simp: chk_ent2_def)
  next
    case (Some buf)
    then obtain m2 bc2 s3 where "each (chk_ent3 e ino b (m ! n)) [0..<128] (rd32s buf 0 128, bc, s2) = Some (m2, bc2, s3)"
      "bused (m ! n) s3 = Some s'" "m' = m"
      using assms r False by (auto simp: chk_ent2_def Let_def bind_eq_Some_conv)
    then show thesis using that(2) False r Some by blast
  qed
qed

lemma chk_ent2_out: "keeps_out (chk_ent2 e ino b)"
  unfolding keeps_out_def
proof (intro allI impI)
  fix n m bc s m' bc' s' assume "chk_ent2 e ino b n (m, bc, s) = Some (m', bc', s')" and o': "fk_out s' = []"
  then show "fk_out s = []"
  proof (cases rule: chk_ent2_eq)
    case (2 s2 buf m2 bc2 s3)
    then have "fk_out s2 = []" using each_out [OF chk_out(3) 2(5)] bused_out [OF 2(6)] o' by simp
    then show ?thesis using rdblk_out [OF 2(4)] by simp
  next
    case 3
    then show ?thesis using rdblk_out [OF 3(3) o'] o' by simp
  qed (use o' in simp)
qed

lemma chk_ent2_marks:
  assumes "s_nblocks sb \<le> 2 ^ 22"
  shows "marks img sb m (\<lambda>n. on_nz (\<lambda>x. insert x (ents img x)) (m ! n)) (\<lambda>n. in_data sb (on_nz (\<lambda>x. insert x (ents img x)) (m ! n))) (chk_ent2 e ino b) n"
  unfolding marks_def
proof (intro allI impI)
  fix bc s m' bc' s'
  assume s: "fk_img s = img" "fk_sb s = sb" and c: "chk_ent2 e ino b n (m, bc, s) = Some (m', bc', s')" and o': "fk_out s' = []"
  show "m' = m \<and> qs (on_nz (\<lambda>x. insert x (ents img x)) (m ! n)) s s' \<and> in_data sb (on_nz (\<lambda>x. insert x (ents img x)) (m ! n))"
    using c o'
  proof (cases rule: chk_ent2_eq)
    case (2 s2 buf m2 bc2 s3)
    then have b: "in_data sb {m ! n}" "m ! n < 2 ^ 22" using not_brange [OF s(2)] assms by auto
    have o3: "fk_out s3 = []" using bused_out [OF 2(6)] o' by simp
    have o2: "fk_out s2 = []" by (rule each_out [OF chk_out(3) 2(5) o3])
    have r: "buf = img (m ! n)" "s2 = s" using rdblk_ok [OF b(2) 2(4) o2] s(1) by auto
    have e: "each (chk_ent3 e ino b (m ! n)) [0..<128] (rd32s (img (m ! n)) 0 128, bc, s) = Some (m2, bc2, s3)"
      using 2(5) r by simp
    have "qs (\<Union>x \<in> ents img (m ! n). {x}) s s3 \<and> in_data sb (\<Union>x \<in> ents img (m ! n). {x})"
      by (rule each_ents [OF chk_out(3) _ e o3 s]) (simp only: on_nz_single chk_ent3_marks)
    then show ?thesis using qs_trans [of _ s s3 "{m ! n}" s'] bused_qs [OF 2(6) o'] b(1) 2(1,3) by (auto simp: on_nz_def)
  next
    case 3
    then have "m ! n < 2 ^ 22" using not_brange [OF s(2)] assms by auto
    then show ?thesis using rdblk_ok [OF _ 3(3) o'] by simp
  next
    case 1
    then show ?thesis using o' by (simp add: on_nz_def qs_refl)
  qed
qed

lemma chk2_eq:
  assumes "chk2 e ino i (di, bc, s) = Some (m', bc', s')" and "fk_out s' = []"
  obtains "bmap2 di ! i = 0" "m' = di" "s' = s"
  | "bmap2 di ! i \<noteq> 0" "\<not> brange s (bmap2 di ! i)" "m' = di" "chk_map (chk_ent2 e ino (bmap2 di ! i)) e (bmap2 di ! i) bc s = Some (bc', s')"
  using assms by (auto simp: chk2_def Let_def split: if_splits)

lemma chk2_out: "keeps_out (chk2 e ino)"
  unfolding keeps_out_def
proof (intro allI impI)
  fix i m bc s m' bc' s' assume c: "chk2 e ino i (m, bc, s) = Some (m', bc', s')" and o': "fk_out s' = []"
  from c o' show "fk_out s = []"
    by (cases rule: chk2_eq) (use o' chk_map_out [OF chk_ent2_out _ o'] in auto)
qed

lemma chk2_marks:
  assumes "s_nblocks sb \<le> 2 ^ 22"
  shows "marks img sb di (\<lambda>i. on_nz (refs2 img) (bmap2 di ! i)) (\<lambda>i. in_data sb (on_nz (refs2 img) (bmap2 di ! i))) (chk2 e ino) i"
  unfolding marks_def
proof (intro allI impI)
  fix bc s m' bc' s'
  assume s: "fk_img s = img" "fk_sb s = sb" and c: "chk2 e ino i (di, bc, s) = Some (m', bc', s')" and o': "fk_out s' = []"
  let ?b = "bmap2 di ! i"
  show "m' = di \<and> qs (on_nz (refs2 img) ?b) s s' \<and> in_data sb (on_nz (refs2 img) ?b)"
    using c o'
  proof (cases rule: chk2_eq)
    case 1
    then show ?thesis using o' by (simp add: on_nz_def qs_refl)
  next
    case 2
    then have b: "in_data sb {?b}" "?b < 2 ^ 22" using not_brange [OF s(2)] assms by auto
    have "qs (insert ?b (\<Union>x \<in> ents img ?b. insert x (ents img x))) s s' \<and> in_data sb (\<Union>x \<in> ents img ?b. insert x (ents img x))"
      by (rule chk_map_marks [OF chk_ent2_out chk_ent2_marks [OF assms] 2(4) o' s b(2)])
    then show ?thesis using b(1) 2(1,3) by (simp add: on_nz_def refs2_def)
  qed
qed

section \<open>The walk marks what can be reached\<close>

abbreviation dinode_at :: "(nat \<Rightarrow> byte list) \<Rightarrow> nat \<Rightarrow> disk_inode" where
  "dinode_at img i \<equiv> decode_dinode (img i)"

text \<open>The block of an inode and the blocks of its file.\<close>

definition node :: "(nat \<Rightarrow> byte list) \<Rightarrow> nat \<Rightarrow> nat set" where
  "node img i = insert i (file_refs img (dinode_at img i))"

text \<open>The three loops over the maps together.\<close>

lemma maps_marks:
  assumes "each (chk0 e ino) [0..<BMAP0_SIZE] (di, 0, s) = Some (d1, b1, s1)"
    and "each (chk1 e ino) [0..<BMAP1_SIZE] (d1, b1, s1) = Some (d2, b2, s2)"
    and "each (chk2 e ino) [0..<BMAP2_SIZE] (d2, b2, s2) = Some (d3, b3, s3)"
    and o3: "fk_out s3 = []" and s: "fk_img s = img" "fk_sb s = sb" and n: "s_nblocks sb \<le> 2 ^ 22" and wf: "wf_dinode di"
  shows "d3 = di \<and> qs (file_refs img di) s s3 \<and> in_data sb (file_refs img di)"
proof -
  note l = wf [unfolded wf_dinode_def wf_blks_def]
  have o2: "fk_out s2 = []" by (rule each_out [OF chk2_out assms(3) o3])
  have o1: "fk_out s1 = []" by (rule each_out [OF chk1_out assms(2) o2])
  have 0: "d1 = di \<and> qs (\<Union>i \<in> set [0..<BMAP0_SIZE]. {bmap0 di ! i} - {0}) s s1 \<and> (\<forall>i \<in> set [0..<BMAP0_SIZE]. in_data sb ({bmap0 di ! i} - {0}))"
    by (rule each_marks [OF chk_out(1) chk0_marks assms(1) o1 s])
  then have s1: "fk_img s1 = img" "fk_sb s1 = sb" using s by (auto simp: qs_def)
  have 1: "d2 = d1 \<and> qs (\<Union>i \<in> set [0..<BMAP1_SIZE]. on_nz (refs1 img) (bmap1 d1 ! i)) s1 s2
      \<and> (\<forall>i \<in> set [0..<BMAP1_SIZE]. in_data sb (on_nz (refs1 img) (bmap1 d1 ! i)))"
    by (rule each_marks [OF chk1_out chk1_marks [OF n] assms(2) o2 s1])
  then have s2: "fk_img s2 = img" "fk_sb s2 = sb" using s1 by (auto simp: qs_def)
  have 2: "d3 = d2 \<and> qs (\<Union>i \<in> set [0..<BMAP2_SIZE]. on_nz (refs2 img) (bmap2 d2 ! i)) s2 s3
      \<and> (\<forall>i \<in> set [0..<BMAP2_SIZE]. in_data sb (on_nz (refs2 img) (bmap2 d2 ! i)))"
    by (rule each_marks [OF chk2_out chk2_marks [OF n] assms(3) o3 s2])
  have u: "(\<Union>i \<in> set [0..<BMAP0_SIZE]. {bmap0 di ! i} - {0}) = nz (bmap0 di)"
    "(\<Union>i \<in> set [0..<BMAP1_SIZE]. on_nz (refs1 img) (bmap1 di ! i)) = (\<Union>b \<in> nz (bmap1 di). refs1 img b)"
    "(\<Union>i \<in> set [0..<BMAP2_SIZE]. on_nz (refs2 img) (bmap2 di ! i)) = (\<Union>b \<in> nz (bmap2 di). refs2 img b)"
    unfolding on_nz_single [symmetric] using l by (simp_all only: on_nz_UN UN_singleton)
  have "d3 = di" using 0 1 2 by simp
  moreover have "qs (file_refs img di) s s3"
    unfolding file_refs_def using 0 1 2 u qs_trans [OF qs_trans] by metis
  moreover have "in_data sb (file_refs img di)"
    unfolding file_refs_def u [symmetric] using 0 1 2 by blast
  ultimately show ?thesis by blast
qed

lemma cinode_maps_cases:
  assumes "cinode_maps e ino s = Some (r, s')" and "fk_out s' = []"
  obtains s1 s2 where "bused ino s = Some s1" "clink ino s1 = Some s2" "1 <s fk_rcm s2 ! ino" "r = None" "s' = s2"
  | s1 s2 where "bused ino s = Some s1" "clink ino s1 = Some s2" "rdblk e ino s2 = (None, s')" "r = None"
  | s1 s2 buf s3 d1 b1 t1 d2 b2 t2 d3 b3 where "bused ino s = Some s1" "clink ino s1 = Some s2" "rdblk e ino s2 = (Some buf, s3)" "r = Some d3"
      "each (chk0 e ino) [0..<BMAP0_SIZE] (decode_dinode buf, 0, s3\<lparr>fk_lcm := (fk_lcm s3)[ino := d_nlink (decode_dinode buf)]\<rparr>) = Some (d1, b1, t1)"
      "each (chk1 e ino) [0..<BMAP1_SIZE] (d1, b1, t1) = Some (d2, b2, t2)" "each (chk2 e ino) [0..<BMAP2_SIZE] (d2, b2, t2) = Some (d3, b3, s')"
proof -
  obtain s1 s2 where 1: "bused ino s = Some s1" "clink ino s1 = Some s2" using assms(1) by (auto simp: cinode_maps_def bind_eq_Some_conv)
  obtain rr s3 where rd: "rdblk e ino s2 = (rr, s3)" by force
  show thesis
  proof (cases "1 <s fk_rcm s2 ! ino")
    case True
    then show thesis using that(1) 1 assms(1) by (simp add: cinode_maps_def)
  next
    case ns: False
    show thesis
    proof (cases rr)
      case None
      then show thesis using that(2) 1 rd ns assms(1) by (simp add: cinode_maps_def)
    next
      case (Some buf)
      let ?t = "s3\<lparr>fk_lcm := (fk_lcm s3)[ino := d_nlink (decode_dinode buf)]\<rparr>"
      obtain d1 b1 t1 d2 b2 t2 d3 b3 t3 where e: "each (chk0 e ino) [0..<BMAP0_SIZE] (decode_dinode buf, 0, ?t) = Some (d1, b1, t1)"
        "each (chk1 e ino) [0..<BMAP1_SIZE] (d1, b1, t1) = Some (d2, b2, t2)" "each (chk2 e ino) [0..<BMAP2_SIZE] (d2, b2, t2) = Some (d3, b3, t3)"
        and f: "(if unat (d_blocks d3) \<noteq> b3 then
               let s = say (Bad_count ino (unat (d_blocks d3)) b3) t3 in
               if fe_f e then let di = d3\<lparr>d_blocks := of_nat b3\<rparr> in Some (Some di, repair e (encode_dinode di) ino s)
               else Some (Some d3, s)
             else Some (Some d3, t3)) = Some (r, s')"
        using assms(1) 1 rd ns Some by (auto simp: cinode_maps_def Let_def bind_eq_Some_conv)
      then have "r = Some d3 \<and> s' = t3" using assms(2) by (auto simp: Let_def split: if_splits)
      then show thesis using that(3) [OF 1 rd [unfolded Some]] e by blast
    qed
  qed
qed

lemma cinode_maps_spec:
  assumes c: "cinode_maps e ino s = Some (r, s')" and o': "fk_out s' = []" and s: "fk_img s = img" "fk_sb s = sb"
    and n: "s_nblocks sb \<le> 2 ^ 22" "length (fk_rcm s) \<le> 2 ^ 22"
  shows "fk_out s = [] \<and> fk_img s' = img \<and> fk_sb s' = sb \<and> length (fk_bam s') = length (fk_bam s)
    \<and> ino < length (fk_rcm s) \<and> fk_rcm s' = (fk_rcm s)[ino := fk_rcm s ! ino + 1]
    \<and> (case r of None \<Rightarrow> 1 <s fk_rcm s ! ino + 1 \<and> used s' = insert ino (used s)
         | Some di \<Rightarrow> di = dinode_at img ino \<and> used s' = used s \<union> node img ino \<and> in_data sb (file_refs img di))"
proof -
  have link: "ino < length (fk_rcm s) \<and> ino < 2 ^ 22 \<and> fk_rcm s2 = (fk_rcm s)[ino := fk_rcm s ! ino + 1] \<and> fk_out s2 = fk_out s
      \<and> fk_img s2 = img \<and> fk_sb s2 = sb \<and> length (fk_bam s2) = length (fk_bam s) \<and> used s2 = insert ino (used s)"
    if "bused ino s = Some s1" "clink ino s1 = Some s2" "fk_out s2 = []" for s1 s2
  proof -
    have 2: "ino < length (fk_rcm s1)" "s2 = s1\<lparr>fk_rcm := (fk_rcm s1)[ino := fk_rcm s1 ! ino + 1]\<rparr>"
      using that(2) by (auto simp: clink_def split: if_splits)
    then have "fk_out s1 = []" using that(3) by simp
    then have q: "qs {ino} s s1" by (rule bused_qs [OF that(1)])
    have u: "used s2 = used s1" by (simp add: used_def 2(2))
    show ?thesis unfolding u using q 2 n(2) s that(3) by (simp add: qs_def)
  qed
  from c o' show ?thesis
  proof (cases rule: cinode_maps_cases)
    case (1 s1 s2)
    then show ?thesis using link [OF 1(1,2)] o' by auto
  next
    case (2 s1 s2)
    have "fk_out s2 = []" using rdblk_out [OF 2(3) o'] o' by simp
    then show ?thesis using link [OF 2(1,2)] rdblk_ok [OF _ 2(3) o'] by auto
  next
    case (3 s1 s2 buf s3 d1 b1 t1 d2 b2 t2 d3 b3)
    let ?t = "s3\<lparr>fk_lcm := (fk_lcm s3)[ino := d_nlink (decode_dinode buf)]\<rparr>"
    have "fk_out t2 = []" by (rule each_out [OF chk2_out 3(7) o'])
    then have "fk_out t1 = []" by (rule each_out [OF chk1_out 3(6)])
    then have ot: "fk_out ?t = []" by (rule each_out [OF chk_out(1) 3(5)])
    then have o3: "fk_out s3 = []" by simp
    have o2: "fk_out s2 = []" using rdblk_out [OF 3(3) o3] o3 by simp
    note l = link [OF 3(1,2) o2]
    have r: "buf = fk_img s2 ino" "s3 = s2" using rdblk_ok [OF _ 3(3) o3] l by auto
    have u: "used ?t = used s2" by (simp add: used_def r)
    have "d3 = decode_dinode buf \<and> qs (file_refs img (decode_dinode buf)) ?t s' \<and> in_data sb (file_refs img (decode_dinode buf))"
      by (rule maps_marks [OF 3(5-7) o' _ _ n(1)]) (use l r in simp_all)
    then show ?thesis using l r u o2 3(4) by (simp add: qs_def node_def Un_assoc)
  qed
qed

text \<open>The inodes that a directory names, and those that can be reached from the root by names.\<close>

definition kids :: "(nat \<Rightarrow> byte list) \<Rightarrow> nat \<Rightarrow> nat set" where
  "kids img i = (if S_ISDIR (d_mode (dinode_at img i))
     then {de_ino (img b) k |b k. b \<in> nz (bmap0 (dinode_at img i)) \<and> k < DIRENTS \<and> de_ino (img b) k \<noteq> 0
             \<and> cname (de_name (img b) k) \<notin> {DOT, DOTDOT}}
     else {})"

inductive in_tree :: "(nat \<Rightarrow> byte list) \<Rightarrow> nat \<Rightarrow> nat \<Rightarrow> bool" for img root where
  root: "in_tree img root root"
| kid: "in_tree img root i \<Longrightarrow> j \<in> kids img i \<Longrightarrow> in_tree img root j"

definition sound :: "(nat \<Rightarrow> byte list) \<Rightarrow> super \<Rightarrow> nat \<Rightarrow> bool" where
  "sound img sb i \<longleftrightarrow> in_data sb (file_refs img (dinode_at img i)) \<and> in_data sb (kids img i)
     \<and> d_mode (dinode_at img i) AND S_IFMT \<in> {S_IFBLK, S_IFCHR, S_IFIFO, S_IFREG, S_IFDIR}"

lemma dot_entry_name:
  assumes "length buf = 512" and "k < DIRENTS"
  shows "dot_entry buf k \<longleftrightarrow> cname (de_name buf k) \<in> {DOT, DOTDOT}"
proof -
  have "3 \<le> length (drop (32 * k + 4) buf)" using assms by simp
  then obtain a b c r where d: "drop (32 * k + 4) buf = a # b # c # r"
    by (metis Suc_le_length_iff numeral_3_eq_3)
  have sint_eq: "sint x = 0x2E \<longleftrightarrow> x = 0x2E" "sint x = 0 \<longleftrightarrow> x = 0" for x :: byte
    using word_eq_iff_signed [of x "0x2E"] word_eq_iff_signed [of x 0] by auto
  have "strncmp (a # b # c # r) [0x2E, 0] (Suc (Suc (Suc n))) = Some 0 \<longleftrightarrow> a = 0x2E \<and> b = 0"
    "strncmp (a # b # c # r) [0x2E, 0x2E, 0] (Suc (Suc (Suc n))) = Some 0 \<longleftrightarrow> a = 0x2E \<and> b = 0x2E \<and> c = 0" for n
    by (auto simp: sint_eq split: if_splits)
  from this [of 26] have n: "strncmp (a # b # c # r) [0x2E, 0] 29 = Some 0 \<longleftrightarrow> a = 0x2E \<and> b = 0"
    "strncmp (a # b # c # r) [0x2E, 0x2E, 0] 29 = Some 0 \<longleftrightarrow> a = 0x2E \<and> b = 0x2E \<and> c = 0"
    by simp_all
  show ?thesis unfolding dot_entry_def de_name_def d by (auto simp: cstr_def cname_def n)
qed

text \<open>
  \<open>seen V s\<close>: the blocks that are marked are \<open>U0\<close> and those of the inodes \<open>V\<close>, and only these have references. A
  step from \<open>V\<close> to \<open>V'\<close> closes the inodes it adds.
\<close>

definition seen :: "(nat \<Rightarrow> byte list) \<Rightarrow> super \<Rightarrow> nat set \<Rightarrow> nat set \<Rightarrow> nat set \<Rightarrow> fsck \<Rightarrow> bool" where
  "seen img sb U0 T V s \<longleftrightarrow> fk_img s = img \<and> fk_sb s = sb \<and> length (fk_rcm s) = s_nblocks sb \<and> length (fk_bam s) = s_nblocks sb \<and> V \<subseteq> T
     \<and> used s = U0 \<union> (\<Union>i \<in> V. node img i) \<and> (\<forall>i < length (fk_rcm s). fk_rcm s ! i \<noteq> 0 \<longrightarrow> i \<in> V)"

definition closes :: "(nat \<Rightarrow> byte list) \<Rightarrow> super \<Rightarrow> nat set \<Rightarrow> nat set \<Rightarrow> bool" where
  "closes img sb V V' \<longleftrightarrow> V \<subseteq> V' \<and> (\<forall>i \<in> V' - V. sound img sb i \<and> kids img i \<subseteq> V')"

lemma closes_trans: "closes img sb V V' \<Longrightarrow> closes img sb V' V'' \<Longrightarrow> closes img sb V V''"
  unfolding closes_def by blast

lemma closes_refl: "closes img sb V V"
  by (simp add: closes_def)

text \<open>What \<open>cinode\<close> does, as its callers need it.\<close>

definition walks :: "(nat \<Rightarrow> byte list) \<Rightarrow> super \<Rightarrow> nat set \<Rightarrow> nat set \<Rightarrow> nat \<Rightarrow> nat \<Rightarrow> fsck \<Rightarrow> fsck \<Rightarrow> bool" where
  "walks img sb U0 T dir ino s s' \<longleftrightarrow> (fk_out s' = [] \<longrightarrow> fk_out s = []
     \<and> (\<forall>V. seen img sb U0 T V s \<longrightarrow> ino \<in> T \<longrightarrow> dir \<in> insert ino V
          \<longrightarrow> (\<exists>V'. seen img sb U0 T V' s' \<and> ino \<in> V' \<and> closes img sb V V')))"

lemma cdirb_loop_walks:
  assumes ci: "\<And>d i s s'. ci d i s = Some s' \<Longrightarrow> walks img sb U0 T d i s s'"
    and "cdirb_loop ci e dir blk buf ks sz s = Some (sz', s')" and "fk_out s' = []"
  shows "fk_out s = [] \<and> (\<forall>V. seen img sb U0 T V s \<longrightarrow> dir \<in> V
      \<longrightarrow> (\<forall>k \<in> set ks. de_ino buf k \<noteq> 0 \<and> \<not> dot_entry buf k \<longrightarrow> de_ino buf k \<in> T)
      \<longrightarrow> (\<exists>V'. seen img sb U0 T V' s' \<and> closes img sb V V'
            \<and> (\<forall>k \<in> set ks. de_ino buf k \<noteq> 0 \<and> \<not> dot_entry buf k \<longrightarrow> de_ino buf k \<in> V' \<and> in_data sb {de_ino buf k})))"
  using assms(2,3)
proof (induction ks arbitrary: sz s)
  case Nil
  then show ?case using closes_refl by auto
next
  case (Cons k ks)
  let ?i = "de_ino buf k"
  consider "?i = 0 \<or> dot_entry buf k" "\<exists>sz. cdirb_loop ci e dir blk buf ks sz s = Some (sz', s')"
    | s1 where "?i \<noteq> 0" "\<not> dot_entry buf k" "\<not> brange s ?i" "ci dir ?i s = Some s1"
      "\<exists>sz. cdirb_loop ci e dir blk buf ks sz s1 = Some (sz', s')"
    using Cons.prems by (auto simp: Let_def bind_eq_Some_conv split: if_splits)
  then show ?case
  proof cases
    case 1
    then show ?thesis using Cons.IH Cons.prems(2) by fastforce
  next
    case 2
    have r: "fk_out s1 = []" using Cons.IH Cons.prems(2) 2(5) by auto
    have w: "walks img sb U0 T dir ?i s s1" by (rule ci [OF 2(4)])
    have l: "fk_out s = []" using w r(1) by (auto simp: walks_def)
    have "\<exists>V'. seen img sb U0 T V' s' \<and> closes img sb V V'
        \<and> (\<forall>k \<in> set (k # ks). de_ino buf k \<noteq> 0 \<and> \<not> dot_entry buf k \<longrightarrow> de_ino buf k \<in> V' \<and> in_data sb {de_ino buf k})"
      if V: "seen img sb U0 T V s" "dir \<in> V" and T: "\<forall>k \<in> set (k # ks). de_ino buf k \<noteq> 0 \<and> \<not> dot_entry buf k \<longrightarrow> de_ino buf k \<in> T" for V
    proof -
      have i: "?i \<in> T" "in_data sb {?i}" using T 2(1-3) V(1) not_brange [of s sb ?i] by (auto simp: seen_def)
      obtain V1 where V1: "seen img sb U0 T V1 s1" "?i \<in> V1" "closes img sb V V1"
        using w r(1) V i(1) unfolding walks_def by blast
      have "dir \<in> V1" using V(2) V1(3) by (auto simp: closes_def)
      then obtain V2 where V2: "seen img sb U0 T V2 s'" "closes img sb V1 V2"
        "\<forall>k \<in> set ks. de_ino buf k \<noteq> 0 \<and> \<not> dot_entry buf k \<longrightarrow> de_ino buf k \<in> V2 \<and> in_data sb {de_ino buf k}"
        using Cons.IH Cons.prems(2) 2(5) V1(1) T by (metis list.set_intros(2))
      have "?i \<in> V2" using V1(2) V2(2) by (auto simp: closes_def)
      then show ?thesis using V2 i(2) closes_trans [OF V1(3) V2(2)] by auto
    qed
    then show ?thesis using l r by simp
  qed
qed

lemma cdirb_walks:
  assumes ci: "\<And>d i s s'. ci d i s = Some s' \<Longrightarrow> walks img sb U0 T d i s s'"
    and c: "cdirb ci e dir b s = Some (sz', s')" and o': "fk_out s' = []"
    and b: "length (img b) = 512"
  shows "fk_out s = [] \<and> (\<forall>V. seen img sb U0 T V s \<longrightarrow> dir \<in> V \<longrightarrow> b < 2 ^ 22
      \<longrightarrow> (\<forall>k < DIRENTS. de_ino (img b) k \<noteq> 0 \<and> cname (de_name (img b) k) \<notin> {DOT, DOTDOT} \<longrightarrow> de_ino (img b) k \<in> T)
      \<longrightarrow> (\<exists>V'. seen img sb U0 T V' s' \<and> closes img sb V V'
            \<and> (\<forall>k < DIRENTS. de_ino (img b) k \<noteq> 0 \<and> cname (de_name (img b) k) \<notin> {DOT, DOTDOT} \<longrightarrow> de_ino (img b) k \<in> V' \<and> in_data sb {de_ino (img b) k})))"
proof -
  obtain buf s1 where r: "rdblk e b s = (Some buf, s1)" "cdirb_loop ci e dir b buf [0..<DIRENTS] 0 s1 = Some (sz', s')"
    using c by (auto simp: cdirb_def split: prod.splits option.splits)
  have o1: "s1 = s"
    using r(1) by (auto simp: rdblk_def Let_def split: if_splits)
  note w = cdirb_loop_walks [of ci img sb U0 T, OF ci r(2) [unfolded o1] o']
  have k: "k \<in> set [0..<DIRENTS] \<longleftrightarrow> k < DIRENTS" for k by simp
  have buf: "buf = img b" if "seen img sb U0 T V s" "b < 2 ^ 22" for V
    using that r(1) by (auto simp: seen_def rdblk_def Let_def split: if_splits)
  show ?thesis
  proof (intro conjI allI impI)
    fix V assume V: "seen img sb U0 T V s" "dir \<in> V" and b22: "b < 2 ^ 22"
      and T: "\<forall>k < DIRENTS. de_ino (img b) k \<noteq> 0 \<and> cname (de_name (img b) k) \<notin> {DOT, DOTDOT} \<longrightarrow> de_ino (img b) k \<in> T"
    show "\<exists>V'. seen img sb U0 T V' s' \<and> closes img sb V V'
        \<and> (\<forall>k < DIRENTS. de_ino (img b) k \<noteq> 0 \<and> cname (de_name (img b) k) \<notin> {DOT, DOTDOT} \<longrightarrow> de_ino (img b) k \<in> V' \<and> in_data sb {de_ino (img b) k})"
    proof -
      have "\<forall>k \<in> set [0..<DIRENTS]. de_ino buf k \<noteq> 0 \<and> \<not> dot_entry buf k \<longrightarrow> de_ino buf k \<in> T"
        using T dot_entry_name [OF b] unfolding buf [OF V(1) b22] by (simp add: k)
      then obtain V' where "seen img sb U0 T V' s'" "closes img sb V V'"
        "\<forall>k \<in> set [0..<DIRENTS]. de_ino buf k \<noteq> 0 \<and> \<not> dot_entry buf k \<longrightarrow> de_ino buf k \<in> V' \<and> in_data sb {de_ino buf k}"
        using w V by blast
      then show ?thesis using dot_entry_name [OF b] unfolding buf [OF V(1) b22] by (intro exI [of _ V']) (simp add: k)
    qed
  qed (use w in blast)+
qed

text \<open>All blocks of a directory.\<close>

lemma cdir_walks:
  assumes ci: "\<And>d i s s'. ci d i s = Some s' \<Longrightarrow> walks img sb U0 T d i s s'"
    and c: "cdir ci e di ino s = Some s'" and o': "fk_out s' = []"
    and b: "\<And>b. length (img b) = 512"
  shows "fk_out s = [] \<and> (\<forall>V. seen img sb U0 T V s \<longrightarrow> ino \<in> V
      \<longrightarrow> length (bmap0 di) = BMAP0_SIZE \<longrightarrow> (\<forall>b \<in> nz (bmap0 di). b < 2 ^ 22)
      \<longrightarrow> (\<forall>b \<in> nz (bmap0 di). \<forall>k < DIRENTS. de_ino (img b) k \<noteq> 0 \<and> cname (de_name (img b) k) \<notin> {DOT, DOTDOT} \<longrightarrow> de_ino (img b) k \<in> T)
      \<longrightarrow> (\<exists>V'. seen img sb U0 T V' s' \<and> closes img sb V V'
            \<and> (\<forall>b \<in> nz (bmap0 di). \<forall>k < DIRENTS. de_ino (img b) k \<noteq> 0 \<and> cname (de_name (img b) k) \<notin> {DOT, DOTDOT} \<longrightarrow>
                  de_ino (img b) k \<in> V' \<and> in_data sb {de_ino (img b) k})))"
proof -
  let ?f = "\<lambda>i (sz, s). let b = bmap0 di ! i in if b = 0 then Some (sz, s)
      else Option.bind (cdirb ci e ino b s) (\<lambda>(n, s). Some (i * BLK_SIZE + n, s))"
  let ?P = "\<lambda>T b. \<forall>k < DIRENTS. de_ino (img b) k \<noteq> 0 \<and> cname (de_name (img b) k) \<notin> {DOT, DOTDOT} \<longrightarrow> de_ino (img b) k \<in> T"
  let ?Q = "\<lambda>V b. \<forall>k < DIRENTS. de_ino (img b) k \<noteq> 0 \<and> cname (de_name (img b) k) \<notin> {DOT, DOTDOT} \<longrightarrow>
      de_ino (img b) k \<in> V \<and> in_data sb {de_ino (img b) k}"
  have loop: "fk_out s = [] \<and> (\<forall>V. seen img sb U0 T V s \<longrightarrow> ino \<in> V
      \<longrightarrow> (\<forall>i \<in> set is. i < length (bmap0 di)) \<longrightarrow> (\<forall>b \<in> nz (bmap0 di). b < 2 ^ 22)
      \<longrightarrow> (\<forall>b \<in> nz (bmap0 di). ?P T b) \<longrightarrow> (\<exists>V'. seen img sb U0 T V' s1 \<and> closes img sb V V' \<and> (\<forall>i \<in> set is. bmap0 di ! i \<noteq> 0 \<longrightarrow> ?Q V' (bmap0 di ! i))))"
    if "each ?f is (sz, s) = Some (sz1, s1)" "fk_out s1 = []" for "is" sz s sz1 s1
    using that
  proof (induction "is" arbitrary: sz s)
    case Nil
    then show ?case using closes_refl by auto
  next
    case (Cons i "is")
    let ?b = "bmap0 di ! i"
    show ?case
    proof (cases "?b = 0")
      case True
      then show ?thesis using Cons by simp
    next
      case False
      then obtain n s2 where r: "cdirb ci e ino ?b s = Some (n, s2)" "each ?f is (i * BLK_SIZE + n, s2) = Some (sz1, s1)"
        using Cons.prems(1) by (auto simp: Let_def bind_eq_Some_conv)
      note IH = Cons.IH [OF r(2) Cons.prems(2)]
      have o2: "fk_out s2 = []" by (rule conjunct1 [OF IH])
      note w = cdirb_walks [of ci img sb U0 T, OF ci r(1) o2 b]
      have "\<exists>V'. seen img sb U0 T V' s1 \<and> closes img sb V V' \<and> (\<forall>i \<in> set (i # is). bmap0 di ! i \<noteq> 0 \<longrightarrow> ?Q V' (bmap0 di ! i))"
        if V: "seen img sb U0 T V s" "ino \<in> V" and lt: "\<forall>i \<in> set (i # is). i < length (bmap0 di)" and b22: "\<forall>b \<in> nz (bmap0 di). b < 2 ^ 22" and T: "\<forall>b \<in> nz (bmap0 di). ?P T b" for V
      proof -
        have nz: "?b \<in> nz (bmap0 di)" using False lt by simp
        obtain V1 where V1: "seen img sb U0 T V1 s2" "closes img sb V V1" "?Q V1 ?b" using spec [OF conjunct2 [OF w], of V] V bspec [OF b22 nz] bspec [OF T nz] by blast
        have "ino \<in> V1" using V(2) V1(2) by (auto simp: closes_def)
        then obtain V2 where V2: "seen img sb U0 T V2 s1" "closes img sb V1 V2" "\<forall>i \<in> set is. bmap0 di ! i \<noteq> 0 \<longrightarrow> ?Q V2 (bmap0 di ! i)"
          using spec [OF conjunct2 [OF IH], of V1] V1(1) lt b22 T by auto
        have "?Q V2 ?b" using V1(3) V2(2) unfolding closes_def by blast
        then show ?thesis using V2 closes_trans [OF V1(2) V2(2)] by auto
      qed
      then show ?thesis using conjunct1 [OF w] by blast
    qed
  qed
  obtain sz s1 where r: "each ?f [0..<BMAP0_SIZE] (0, s) = Some (sz, s1)" "s' = s1"
    using c o' by (auto simp: cdir_def bind_eq_Some_conv Let_def split: if_splits)
  note l = loop [OF r(1) o' [unfolded r(2)]]
  show ?thesis
    unfolding r(2)
  proof (intro conjI allI impI)
    fix V assume V: "seen img sb U0 T V s" "ino \<in> V" and len: "length (bmap0 di) = BMAP0_SIZE" and b22: "\<forall>b \<in> nz (bmap0 di). b < 2 ^ 22"
      and T: "\<forall>b \<in> nz (bmap0 di). ?P T b"
    have nz: "b \<in> nz (bmap0 di) \<Longrightarrow> \<exists>i \<in> set [0..<BMAP0_SIZE]. bmap0 di ! i = b \<and> b \<noteq> 0" for b
      using len by (auto simp: in_set_conv_nth)
    have "\<forall>i \<in> set [0..<BMAP0_SIZE]. i < length (bmap0 di)" using len by simp
    then obtain V' where "seen img sb U0 T V' s1" "closes img sb V V'" "\<forall>i \<in> set [0..<BMAP0_SIZE]. bmap0 di ! i \<noteq> 0 \<longrightarrow> ?Q V' (bmap0 di ! i)"
      using spec [OF conjunct2 [OF l], of V] V b22 T by blast
    then show "\<exists>V'. seen img sb U0 T V' s1 \<and> closes img sb V V' \<and> (\<forall>b \<in> nz (bmap0 di). ?Q V' b)"
      using nz by (intro exI [of _ V']) (metis (no_types, lifting))
  qed (rule conjunct1 [OF l])
qed

lemma clink_spec: "clink x s = Some s' \<Longrightarrow> x < length (fk_rcm s) \<and> s' = s\<lparr>fk_rcm := (fk_rcm s)[x := fk_rcm s ! x + 1]\<rparr>"
  by (auto simp: clink_def split: if_splits)

lemma seen_link: "seen img sb U0 T V s \<Longrightarrow> x \<in> V \<Longrightarrow> seen img sb U0 T V (s\<lparr>fk_rcm := (fk_rcm s)[x := v]\<rparr>)"
proof -
  assume V: "seen img sb U0 T V s" and x: "x \<in> V"
  have "i \<in> V" if "i < length (fk_rcm s)" "(fk_rcm s)[x := v] ! i \<noteq> 0" for i
    using that V x by (cases "i = x") (simp_all add: seen_def)
  moreover have "used (s\<lparr>fk_rcm := (fk_rcm s)[x := v]\<rparr>) = used s" by (simp add: used_def)
  ultimately show ?thesis using V by (simp add: seen_def)
qed

lemma seen_visit:
  assumes V: "seen img sb U0 T V s" and "ino \<in> T" and m: "fk_img s' = img" "fk_sb s' = sb" "length (fk_bam s') = length (fk_bam s)"
    "fk_rcm s' = (fk_rcm s)[ino := v]" "used s' = used s \<union> node img ino"
  shows "seen img sb U0 T (insert ino V) s'"
  using V assms(2) unfolding seen_def m by (auto simp: nth_list_update split: if_splits)

lemma cinode_maps_out: "cinode_maps e ino s = Some (r, s') \<Longrightarrow> fk_out s' = [] \<Longrightarrow> fk_out s = []"
proof -
  assume c: "cinode_maps e ino s = Some (r, s')" and o': "fk_out s' = []"
  have l: "fk_out s = []" if "bused ino s = Some s1" "clink ino s1 = Some s2" "fk_out s2 = []" for s1 s2
    using that bused_out clink_spec by fastforce
  from c o' show ?thesis
  proof (cases rule: cinode_maps_cases)
    case (1 s1 s2)
    then show ?thesis using l [OF 1(1,2)] o' by simp
  next
    case (2 s1 s2)
    then show ?thesis using l [OF 2(1,2)] rdblk_out [OF 2(3) o'] o' by simp
  next
    case (3 s1 s2 buf s3 d1 b1 t1 d2 b2 t2 d3 b3)
    have "fk_out t2 = []" by (rule each_out [OF chk2_out 3(7) o'])
    then have "fk_out t1 = []" by (rule each_out [OF chk1_out 3(6)])
    then have "fk_out s3 = []" using each_out [OF chk_out(1) 3(5)] by simp
    then show ?thesis using l [OF 3(1,2)] rdblk_out [OF 3(3)] by simp
  qed
qed

lemma cinode_walks:
  assumes n: "s_nblocks sb \<le> 2 ^ 22" and len: "\<And>b. length (img b) = 512"
    and T: "\<And>i j. i \<in> T \<Longrightarrow> j \<in> kids img i \<Longrightarrow> j \<in> T" and c: "cinode e dir ino s = Some s'"
  shows "walks img sb U0 T dir ino s s'"
  using c
proof (induction rule: cinode.raw_induct [rotated, consumes 1, case_names step])
  case (step ci e dir ino s s')
  have IH: "walks img sb U0 T d i s s'" if "ci e d i s = Some s'" for d i s s'
    by (rule step(1) [OF that])
  obtain r s1 where m: "cinode_maps e ino s = Some (r, s1)" using step(2) by (auto simp: bind_eq_Some_conv)
  note ms = cinode_maps_spec [OF m _ _ _ n]
  show ?case
  proof (cases r)
    case None
    then have s': "s' = s1" using step(2) m by simp
    show ?thesis
      unfolding walks_def s'
    proof (intro impI conjI allI)
      fix V assume o': "fk_out s1 = []" and V: "seen img sb U0 T V s" and i: "ino \<in> T"
      have sp: "ino < length (fk_rcm s)" "1 <s fk_rcm s ! ino + 1" "used s1 = insert ino (used s)" "fk_img s1 = img" "fk_sb s1 = sb"
        "length (fk_bam s1) = length (fk_bam s)" "fk_rcm s1 = (fk_rcm s)[ino := fk_rcm s ! ino + 1]"
        using ms [of img] o' V n None by (auto simp: seen_def)
      have "fk_rcm s ! ino \<noteq> 0" using sp(2) by auto
      then have v: "ino \<in> V" using V sp(1) by (simp add: seen_def)
      have "used s1 = used s \<union> node img ino" using V v sp(3) by (auto simp: seen_def node_def)
      from seen_visit [OF V i sp(4-7) this] have "seen img sb U0 T V s1" using v by (simp add: insert_absorb)
      then show "\<exists>V'. seen img sb U0 T V' s1 \<and> ino \<in> V' \<and> closes img sb V V'" using v closes_refl by blast
    qed (use cinode_maps_out [OF m] in blast)
  next
    case (Some di)
    have visit: "seen img sb U0 T (insert ino V) s1 \<and> di = dinode_at img ino \<and> in_data sb (file_refs img di)"
      if "fk_out s1 = []" and V: "seen img sb U0 T V s" and i: "ino \<in> T" for V
    proof -
      have "fk_img s1 = img" "fk_sb s1 = sb" "length (fk_bam s1) = length (fk_bam s)" "fk_rcm s1 = (fk_rcm s)[ino := fk_rcm s ! ino + 1]"
        "used s1 = used s \<union> node img ino" "di = dinode_at img ino" "in_data sb (file_refs img di)"
        using ms [of img] that(1) V n Some by (auto simp: seen_def)
      then show ?thesis using seen_visit [OF V i] by simp
    qed
    consider (leaf) "d_mode di AND S_IFMT \<in> {S_IFBLK, S_IFCHR, S_IFIFO, S_IFREG}" "s' = s1"
      | (dir) s2 s3 where "d_mode di AND S_IFMT = S_IFDIR" "clink dir s1 = Some s2" "clink ino s2 = Some s3" "cdir (\<lambda>d i s. ci e d i s) e di ino s3 = Some s'"
      | (bad) "fk_out s' \<noteq> []"
      using step(2) m Some by (auto simp: bind_eq_Some_conv Let_def split: if_splits)
    then show ?thesis
    proof cases
      case leaf
      show ?thesis
        unfolding walks_def leaf(2)
      proof (intro impI conjI allI)
        fix V assume o': "fk_out s1 = []" and V: "seen img sb U0 T V s" and i: "ino \<in> T"
        have v: "seen img sb U0 T (insert ino V) s1" "di = dinode_at img ino" "in_data sb (file_refs img di)"
          using visit [OF o' V i] by auto
        have "\<not> S_ISDIR (d_mode di)" using leaf(1) by (auto simp: S_ISDIR_def)
        then have "kids img ino = {}" "sound img sb ino" using v leaf(1) by (auto simp: kids_def sound_def)
        then show "\<exists>V'. seen img sb U0 T V' s1 \<and> ino \<in> V' \<and> closes img sb V V'"
          using v(1) by (intro exI [of _ "insert ino V"]) (auto simp: closes_def)
      qed (use cinode_maps_out [OF m] in blast)
    next
      case (dir s2 s3)
      show ?thesis
        unfolding walks_def
      proof (rule impI)
        assume o': "fk_out s' = []"
        note w = cdir_walks [of "\<lambda>d i s. ci e d i s" img sb U0 T, OF IH dir(4) o' len]
        have l: "s2 = s1\<lparr>fk_rcm := (fk_rcm s1)[dir := fk_rcm s1 ! dir + 1]\<rparr>" "s3 = s2\<lparr>fk_rcm := (fk_rcm s2)[ino := fk_rcm s2 ! ino + 1]\<rparr>"
          using clink_spec [OF dir(2)] clink_spec [OF dir(3)] by auto
        have o1: "fk_out s1 = []" using conjunct1 [OF w] l by simp
        have "\<exists>V'. seen img sb U0 T V' s' \<and> ino \<in> V' \<and> closes img sb V V'"
          if V: "seen img sb U0 T V s" and i: "ino \<in> T" and d: "dir \<in> insert ino V" for V
        proof -
          have v: "seen img sb U0 T (insert ino V) s1" "di = dinode_at img ino" "in_data sb (file_refs img di)"
            using visit [OF o1 V i] by auto
          have v3: "seen img sb U0 T (insert ino V) s3" unfolding l by (intro seen_link v(1) d insertI1)
          have sd: "S_ISDIR (d_mode di)" using dir(1) by (simp add: S_ISDIR_def)
          have b64: "length (bmap0 di) = BMAP0_SIZE" using wf_decode_dinode [of "img ino"] v(2) by (simp add: wf_dinode_def wf_blks_def)
          have b: "\<forall>b \<in> nz (bmap0 di). b < 2 ^ 22" using v(3) n by (fastforce simp: file_refs_def)
          have kT: "\<forall>b \<in> nz (bmap0 di). \<forall>k < DIRENTS. de_ino (img b) k \<noteq> 0 \<and> cname (de_name (img b) k) \<notin> {DOT, DOTDOT} \<longrightarrow> de_ino (img b) k \<in> T"
            using T [OF i] sd unfolding kids_def v(2) [symmetric] by auto
          obtain V' where V': "seen img sb U0 T V' s'" "closes img sb (insert ino V) V'"
            "\<forall>b \<in> nz (bmap0 di). \<forall>k < DIRENTS. de_ino (img b) k \<noteq> 0 \<and> cname (de_name (img b) k) \<notin> {DOT, DOTDOT} \<longrightarrow>
                  de_ino (img b) k \<in> V' \<and> in_data sb {de_ino (img b) k}"
            using spec [OF conjunct2 [OF w], of "insert ino V"] v3 b64 b kT by blast
          then have "kids img ino \<subseteq> V'" "in_data sb (kids img ino)" using sd unfolding kids_def v(2) [symmetric] by auto
          moreover have "sound img sb ino" using v(2,3) dir(1) calculation(2) by (simp add: sound_def)
          ultimately have "closes img sb V V'" "ino \<in> V'" using V'(2) by (auto simp: closes_def)
          then show ?thesis using V'(1) by blast
        qed
        then show "fk_out s = [] \<and> (\<forall>V. seen img sb U0 T V s \<longrightarrow> ino \<in> T \<longrightarrow> dir \<in> insert ino V
            \<longrightarrow> (\<exists>V'. seen img sb U0 T V' s' \<and> ino \<in> V' \<and> closes img sb V V'))"
          using cinode_maps_out [OF m o1] by blast
      qed
    qed (simp add: walks_def)
  qed
qed

section \<open>A clean file system\<close>

text \<open>Whether the map of used blocks on the disk has the bit of a block.\<close>

definition marked :: "(nat \<Rightarrow> byte list) \<Rightarrow> super \<Rightarrow> nat \<Rightarrow> bool" where
  "marked img sb b \<longleftrightarrow> bit (img (s_bitmap sb + b div 4096) ! (b mod 4096 div 8)) (b mod 8)"

lemma each_bused: "each bused bs s = Some s' \<Longrightarrow> fk_out s = [] \<Longrightarrow> qs (set bs) s s' \<and> fk_out s' = []"
proof (induction bs arbitrary: s)
  case (Cons b bs)
  then obtain s1 where 1: "bused b s = Some s1" "each bused bs s1 = Some s'" by (auto simp: bind_eq_Some_conv)
  have o1: "fk_out s1 = []" using bused_out [OF 1(1)] Cons.prems(2) by simp
  show ?case using qs_trans [OF bused_qs [OF 1(1) o1]] Cons.IH [OF 1(2) o1] by fastforce
qed (simp add: qs_refl)

lemma each_same:
  assumes "\<And>x s s'. f x s = Some s' \<Longrightarrow> fk_out s' = [] \<Longrightarrow> s' = s \<and> P x s" and "each f xs s = Some s'" and "fk_out s' = []"
  shows "s' = s \<and> (\<forall>x \<in> set xs. P x s)"
  using assms(2)
proof (induction xs arbitrary: s)
  case (Cons x xs)
  then obtain s1 where 1: "f x s = Some s1" "each f xs s1 = Some s'" by (auto simp: bind_eq_Some_conv)
  from Cons.IH [OF 1(2)] assms(3) assms(1) [OF 1(1)] show ?case by auto
qed simp

lemma cnlink1_same:
  assumes "cnlink1 e i s = Some s'" and "fk_out s' = []" and "\<not> fe_l e"
  shows "s' = s \<and> True"
proof (cases "fk_lcm s ! i = fk_rcm s ! i")
  case False
  then have "fk_out s' \<noteq> []"
    using assms(1,3) rdblk_out [of e i "say (Bad_nlink i) s"]
    by (auto simp: cnlink1_def Let_def split: if_splits prod.splits option.splits dest: repair_out)
  then show ?thesis using assms(2) by simp
qed (use assms(1) in \<open>simp add: cnlink1_def\<close>)

lemma fold_say: "fk_out (fold (\<lambda>n. say (f n)) bad s) = fk_out s @ map f bad"
  by (induction bad arbitrary: s) (simp_all add: say_def)

lemma cbam1_same:
  assumes c: "cbam1 e i s = Some s'" and o': "fk_out s' = []"
  shows "s' = s \<and> (i + s_bitmap (fk_sb s) < 2 ^ 22 \<longrightarrow> i * 512 + 512 \<le> length (fk_bam s)
    \<and> (\<forall>k < 512. fk_img s (i + s_bitmap (fk_sb s)) ! k = fk_bam s ! (i * 512 + k)))"
proof -
  let ?b = "i + s_bitmap (fk_sb s)"
  obtain r s1 where r: "rdblk e ?b s = (r, s1)" by force
  show ?thesis
  proof (cases r)
    case None
    then have "fk_out s1 \<noteq> []" "s' = s1" using r c by (auto simp: rdblk_def cbam1_def Let_def split: if_splits)
    then show ?thesis using o' by simp
  next
    case (Some buf)
    then have s1: "s1 = s" using r by (auto simp: rdblk_def Let_def split: if_splits)
    let ?real = "take 512 (drop (i * 512) (fk_bam s))"
    let ?bad = "filter (\<lambda>n. buf ! n \<noteq> ?real ! n) [0..<512]"
    let ?t = "fold (\<lambda>n. say (Bad_bam i n)) ?bad s"
    have e: "(if i * 512 + 512 > length (fk_bam s) then None
        else Some (if fe_f e \<and> ?bad \<noteq> [] then repair e ?real (i + s_bitmap (fk_sb ?t)) ?t else ?t)) = Some s'"
      using c by (simp only: cbam1_def r Some s1 prod.case option.case Let_def)
    have l: "i * 512 + 512 \<le> length (fk_bam s)" by (rule ccontr) (use e in \<open>simp only: not_le if_True option.distinct\<close>)
    then have s': "s' = (if fe_f e \<and> ?bad \<noteq> [] then repair e ?real (i + s_bitmap (fk_sb ?t)) ?t else ?t)"
      using e unfolding not_less [symmetric] by (simp only: if_False option.inject)
    have "fk_out ?t = []"
    proof (cases "fe_f e \<and> ?bad \<noteq> []")
      case True
      show ?thesis using o' unfolding s' if_P [OF True] by (rule repair_out)
    qed (use o' in \<open>simp only: s' if_False\<close>)
    then have bad: "?bad = []" by (simp add: fold_say)
    then have "buf ! k = ?real ! k" if "k < 512" for k using that unfolding filter_empty_conv by simp
    then have "\<forall>k < 512. buf ! k = fk_bam s ! (i * 512 + k)" using l by simp
    moreover have "s' = s" unfolding s' bad by simp
    moreover have "buf = fk_img s ?b" if "?b < 2 ^ 22" using rdblk_ok [OF that r] Some s1 o' calculation(2) by simp
    ultimately show ?thesis using l by blast
  qed
qed

text \<open>
  Property C38. What a silent \<open>fsck\<close> means: when it ends without a message, it has written nothing; every inode that can be
  reached from the root by names has one of the types of the kernel, and all blocks of its file, and all inodes
  that it names, lie in the data area of the device; and the map on the disk has the bits of exactly the blocks
  before the data area, the inodes that can be reached, and the blocks of their files. So no block in use can
  be handed out, and no free block is lost.
\<close>

theorem fsck_sound:
  fixes img :: "nat \<Rightarrow> byte list"
  defines "sb \<equiv> decode_super (img 1)"
  assumes run: "fsck1 e img = Some s" and silent: "fk_out s = []" and l: "\<not> fe_l e"
    and n: "s_nblocks sb \<le> 2 ^ 22" and bm: "s_bitmap sb + (s_nblocks sb + 4095) div 4096 \<le> 2 ^ 22"
    and len: "\<And>b. length (img b) = 512"
  shows "fk_img s = img \<and> (\<forall>i. in_tree img (s_root sb) i \<longrightarrow> sound img sb i)
    \<and> (\<forall>b < s_nblocks sb. marked img sb b \<longleftrightarrow> b < s_dblock sb \<or> (\<exists>i. in_tree img (s_root sb) i \<and> b \<in> node img i))"
proof -
  let ?r = "s_root sb" and ?s0 = "fsck_start img sb" and ?T = "{i. in_tree img (s_root sb) i}"
  have rok: "fe_rok e 1"
  proof (rule ccontr)
    assume "\<not> fe_rok e 1"
    then have "s = say Io_error (fsck_start img (decode_super (img 1)))" using run by (simp add: fsck1_def Let_def)
    then show False using silent by simp
  qed
  obtain s1 s2 s3 where s1: "each bused [0..<s_dblock sb] ?s0 = Some s1" and s2: "cinode e ?r ?r s1 = Some s2"
    and s3: "cnlink e (s2\<lparr>fk_rcm := (fk_rcm s2)[?r := fk_rcm s2 ! ?r - 1]\<rparr>) = Some s3" and s4: "cbam e s3 = Some s"
    using run rok unfolding fsck1_def Let_def sb_def [symmetric] by (auto simp: bind_eq_Some_conv)
  have c: "s = s3 \<and> (\<forall>i \<in> set [0..<(s_nblocks (fk_sb s3) + 4095) mod 2 ^ 32 div 4096]. i + s_bitmap (fk_sb s3) < 2 ^ 22 \<longrightarrow>
      i * 512 + 512 \<le> length (fk_bam s3) \<and> (\<forall>k < 512. fk_img s3 (i + s_bitmap (fk_sb s3)) ! k = fk_bam s3 ! (i * 512 + k)))"
    using s4 unfolding cbam_def by (intro each_same [OF _ _ silent]) (rule cbam1_same)
  have b: "s3 = s2\<lparr>fk_rcm := (fk_rcm s2)[?r := fk_rcm s2 ! ?r - 1]\<rparr> \<and> (\<forall>i \<in> set [0..<s_nblocks (fk_sb (s2\<lparr>fk_rcm := (fk_rcm s2)[?r := fk_rcm s2 ! ?r - 1]\<rparr>))]. True)"
    using s3 silent c unfolding cnlink_def by (intro each_same) (auto dest: cnlink1_same [OF _ _ l])
  have o2: "fk_out s2 = []" using b c silent by simp
  have q1: "qs {0..<s_dblock sb} ?s0 s1" using each_bused [OF s1] by (simp add: fsck_start_def)
  have "used ?s0 = {}" by (auto simp: used_def fsck_start_def)
  then have "seen img sb {0..<s_dblock sb} ?T {} s1"
    using q1 by (auto simp: seen_def qs_def fsck_start_def)
  moreover have "?r \<in> ?T" by (simp add: in_tree.root)
  moreover have "walks img sb {0..<s_dblock sb} ?T ?r ?r s1 s2"
    by (rule cinode_walks [OF n len _ s2]) (simp add: in_tree.kid)
  ultimately obtain V where V: "seen img sb {0..<s_dblock sb} ?T V s2" "?r \<in> V" "closes img sb {} V"
    using o2 unfolding walks_def by blast
  have "in_tree img ?r i \<Longrightarrow> i \<in> V" for i
    by (induction rule: in_tree.induct) (use V in \<open>auto simp: closes_def\<close>)
  then have VT: "V = ?T" using V(1) by (auto simp: seen_def)
  have f: "fk_img s = img" "fk_sb s3 = sb" "fk_img s3 = img" "fk_bam s3 = fk_bam s2" "length (fk_bam s2) = s_nblocks sb"
    using b c V(1) by (auto simp: seen_def)
  have used: "used s2 = {0..<s_dblock sb} \<union> (\<Union>i \<in> ?T. node img i)" using V(1) VT by (simp add: seen_def)
  have "marked img sb x \<longleftrightarrow> x \<in> used s2" if x: "x < s_nblocks sb" for x
  proof -
    have i: "x div 4096 < (s_nblocks sb + 4095) mod 2 ^ 32 div 4096" using x n by simp
    then have "x div 4096 + s_bitmap sb < 2 ^ 22" using bm n by simp
    then have *: "\<forall>k < 512. img (x div 4096 + s_bitmap sb) ! k = fk_bam s2 ! (x div 4096 * 512 + k)"
      using c i f by auto
    have "x div 8 = (x mod 4096 + x div 4096 * 512 * 8) div 8" by (simp add: mult.assoc)
    also have "\<dots> = x div 4096 * 512 + x mod 4096 div 8" by (rule div_mult_self1) simp
    finally have "x div 4096 * 512 + x mod 4096 div 8 = x div 8" ..
    moreover have "x mod 4096 div 8 < 512" by simp
    ultimately show ?thesis using * x f(5) by (auto simp: marked_def used_def add.commute)
  qed
  then show ?thesis using f(1) V(3) VT used by (auto simp: closes_def)
qed

section \<open>What \<open>mkfs\<close> makes is clean\<close>

lemma bused_run: "b div 8 < length (fk_bam s) \<Longrightarrow> \<exists>bam. bused b s = Some (s\<lparr>fk_bam := bam\<rparr>) \<and> length bam = length (fk_bam s)"
  unfolding bused_def by (metis length_list_update)

lemma each_bused_run:
  "\<forall>b \<in> set bs. b div 8 < length (fk_bam s) \<Longrightarrow> \<exists>bam. each bused bs s = Some (s\<lparr>fk_bam := bam\<rparr>) \<and> length bam = length (fk_bam s)"
proof (induction bs arbitrary: s)
  case Nil
  show ?case by (intro exI [of _ "fk_bam s"]) simp
next
  case (Cons b bs)
  then obtain bam where b: "bused b s = Some (s\<lparr>fk_bam := bam\<rparr>)" "length bam = length (fk_bam s)" using bused_run by fastforce
  from Cons.IH [of "s\<lparr>fk_bam := bam\<rparr>"] Cons.prems b(2) show ?case by (auto simp: b)
qed

lemma each_skip: "\<forall>x \<in> set xs. f x t = Some t \<Longrightarrow> each f xs t = Some t"
  by (induction xs) simp_all

lemma cdirb_skip: "\<forall>k \<in> set ks. de_ino buf k = 0 \<Longrightarrow> cdirb_loop ci e dir blk buf ks sz s = Some (sz, s)"
  by (induction ks) (simp_all add: Let_def)

text \<open>The walk over a file system whose only inode is a root directory of one block, that names nothing else.\<close>

lemma lone_root:
  assumes di: "decode_dinode (img r) = root_inode r t" and ents: "img (r + 1) = root_entries r"
    and r: "r + 1 < s_nblocks sb" "s_nblocks sb \<le> 2 ^ 22" "s_dblock sb \<le> r" "0 < r" and rok: "fe_rok e r" "fe_rok e (r + 1)"
    and s: "fk_img s = img" "fk_sb s = sb" "length (fk_bam s) = s_nblocks sb" "fk_lcm s = replicate (s_nblocks sb) 0"
      "fk_rcm s = replicate (s_nblocks sb) 0" "fk_out s = []"
  shows "\<exists>bam. cinode e r r s = Some (s\<lparr>fk_bam := bam, fk_lcm := (fk_lcm s)[r := 2], fk_rcm := (fk_rcm s)[r := 3]\<rparr>)
    \<and> length bam = s_nblocks sb \<and> used (s\<lparr>fk_bam := bam\<rparr>) = used s \<union> {r, r + 1}"
proof -
  let ?n = "s_nblocks sb" and ?d = "root_inode r t"
  have i8: "r div 8 < ?n" "(r + 1) div 8 < ?n"
    using r(1) le_less_trans [OF div_le_dividend [of r 8]] le_less_trans [OF div_le_dividend [of "r + 1" 8]] by auto
  have small: "r < 2 ^ 22" "r + 1 < 2 ^ 22" using r by simp_all
  obtain bam1 where 1: "bused r s = Some (s\<lparr>fk_bam := bam1\<rparr>)" "length bam1 = ?n" using bused_run [of r s] i8 s(3) by auto
  let ?s2 = "s\<lparr>fk_bam := bam1, fk_rcm := (fk_rcm s)[r := 1]\<rparr>"
  have 2: "clink r (s\<lparr>fk_bam := bam1\<rparr>) = Some ?s2" using r(1) s(5) by (simp add: clink_def)
  have rd: "rdblk e r ?s2 = (Some (img r), ?s2)" using small(1) rok(1) s(1) by (simp add: rdblk_def)
  let ?s3 = "?s2\<lparr>fk_lcm := (fk_lcm s)[r := 2]\<rparr>"
  obtain bam2 where 3: "bused (r + 1) ?s3 = Some (?s3\<lparr>fk_bam := bam2\<rparr>)" "length bam2 = ?n"
    using bused_run [of "r + 1" ?s3] 1(2) i8(2) by auto
  let ?s4 = "?s3\<lparr>fk_bam := bam2\<rparr>"
  have m: "bmap0 ?d ! 0 = r + 1" "\<And>i. 0 < i \<Longrightarrow> i < BMAP0_SIZE \<Longrightarrow> bmap0 ?d ! i = 0" "\<And>i. i < BMAP1_SIZE \<Longrightarrow> bmap1 ?d ! i = 0"
    "\<And>i. i < BMAP2_SIZE \<Longrightarrow> bmap2 ?d ! i = 0" "d_nlink ?d = 2" "d_blocks ?d = 1" "d_mode ?d = 0x41ED" "d_size ?d = 64"
    by (simp_all add: root_inode_def zero_dinode_def)
  have u64: "[0..<BMAP0_SIZE] = 0 # [1..<BMAP0_SIZE]" by (simp add: upt_conv_Cons)
  have "chk0 e r 0 (?d, 0, ?s3) = Some (?d, 1, ?s4)"
    using r(1,3) s(2) 3(1) by (simp add: chk0_def m brange_def)
  moreover have "each (chk0 e r) [1..<BMAP0_SIZE] (?d, 1, ?s4) = Some (?d, 1, ?s4)"
    by (rule each_skip) (simp add: chk0_def m)
  ultimately have c0: "each (chk0 e r) [0..<BMAP0_SIZE] (?d, 0, ?s3) = Some (?d, 1, ?s4)" unfolding u64 by simp
  have c1: "each (chk1 e r) [0..<BMAP1_SIZE] (?d, 1, ?s4) = Some (?d, 1, ?s4)" by (rule each_skip) (simp add: chk1_def m)
  have c2: "each (chk2 e r) [0..<BMAP2_SIZE] (?d, 1, ?s4) = Some (?d, 1, ?s4)" by (rule each_skip) (simp add: chk2_def m)
  have maps: "cinode_maps e r s = Some (Some ?d, ?s4)"
    using 1(1) 2 rd c0 c1 c2 r(1) s(4,5) di by (simp add: cinode_maps_def m)
  let ?s5 = "?s4\<lparr>fk_rcm := (fk_rcm s)[r := 3]\<rparr>"
  have k: "clink r ?s4 = Some (?s4\<lparr>fk_rcm := (fk_rcm s)[r := 2]\<rparr>)"
    "clink r (?s4\<lparr>fk_rcm := (fk_rcm s)[r := 2]\<rparr>) = Some ?s5"
    using r(1) s(5) by (simp_all add: clink_def)
  have r32: "r < 2 ^ 32" using small(1) by simp
  note re = root_entries_read [OF r32]
  have dots: "dot_entry (root_entries r) 0" "dot_entry (root_entries r) 1"
    using dot_entry_name [OF re(1), of 0] dot_entry_name [OF re(1), of 1] re(4,5) by simp_all
  have u16: "[0..<DIRENTS] = 0 # 1 # [2..<DIRENTS]" by (simp add: upt_conv_Cons)
  have nb: "\<not> brange ?s5 r" using r(1,3) s(2) by (simp add: brange_def)
  have "cdirb_loop (\<lambda>d i s. cinode e d i s) e r (r + 1) (root_entries r) [2..<DIRENTS] 64 ?s5 = Some (64, ?s5)"
    by (rule cdirb_skip) (use re(6) in simp)
  then have l: "cdirb_loop (\<lambda>d i s. cinode e d i s) e r (r + 1) (root_entries r) [0..<DIRENTS] 0 ?s5 = Some (64, ?s5)"
    using re(2,3) dots nb r(4) unfolding u16 by simp
  have "rdblk e (r + 1) ?s5 = (Some (root_entries r), ?s5)" using small(2) rok(2) s(1) ents by (simp add: rdblk_def)
  then have "cdirb (\<lambda>d i s. cinode e d i s) e r (r + 1) ?s5 = Some (64, ?s5)" using l by (simp add: cdirb_def)
  then have 0: "(\<lambda>i (sz, s). let b = bmap0 ?d ! i in if b = 0 then Some (sz, s)
      else Option.bind (cdirb (\<lambda>d i s. cinode e d i s) e r b s) (\<lambda>(n, s). Some (i * BLK_SIZE + n, s))) 0 (0, ?s5) = Some (64, ?s5)"
    by (simp add: m)
  have "each (\<lambda>i (sz, s). let b = bmap0 ?d ! i in if b = 0 then Some (sz, s)
      else Option.bind (cdirb (\<lambda>d i s. cinode e d i s) e r b s) (\<lambda>(n, s). Some (i * BLK_SIZE + n, s))) [1..<BMAP0_SIZE] (64, ?s5) = Some (64, ?s5)"
    by (rule each_skip) (simp add: m)
  then have "cdir (\<lambda>d i s. cinode e d i s) e ?d r ?s5 = Some ?s5"
    unfolding cdir_def u64 each.simps 0 by (simp add: m)
  then have "cinode e r r s = Some ?s5"
    using maps k by (subst cinode.simps) (simp add: m)
  moreover have "used (s\<lparr>fk_bam := bam2\<rparr>) = used s \<union> {r, r + 1}"
  proof -
    have "used (s\<lparr>fk_bam := bam2\<rparr>) = used ?s4" by (simp add: used_def)
    also have "\<dots> = used ?s3 \<union> {r + 1}" using bused_qs [OF 3(1)] s(6) by (simp add: qs_def)
    also have "used ?s3 = used (s\<lparr>fk_bam := bam1\<rparr>)" by (simp add: used_def)
    also have "\<dots> = used s \<union> {r}" using bused_qs [OF 1(1)] s(6) by (simp add: qs_def)
    finally show ?thesis by auto
  qed
  ultimately show ?thesis using 3(2) by (intro exI [of _ bam2]) simp
qed

lemma cbam1_run:
  assumes len: "length (fk_bam s) = n" and b: "i * 512 + 512 \<le> n" "i + s_bitmap (fk_sb s) < 2 ^ 22" "fe_rok e (i + s_bitmap (fk_sb s))"
    and m: "fk_img s (i + s_bitmap (fk_sb s)) = map_block (k - 4096 * i)" and u: "used s = {0..<k}"
  shows "cbam1 e i s = Some s"
proof -
  let ?real = "take 512 (drop (i * 512) (fk_bam s))"
  have "map_block (k - 4096 * i) ! j = ?real ! j" if j: "j < 512" for j
  proof (rule bit_word_eqI)
    fix t :: nat assume t: "t < LENGTH(8)"
    have "bit (map_block (k - 4096 * i) ! j) t \<longleftrightarrow> 8 * j + t < k - 4096 * i"
      using map_block_bits(2) [of "8 * j + t" "k - 4096 * i"] j t by (simp add: map_bit_def)
    also have "\<dots> \<longleftrightarrow> (i * 512 + j) * 8 + t \<in> used s" using u by auto
    also have "\<dots> \<longleftrightarrow> bit (fk_bam s ! (i * 512 + j)) t"
    proof -
      have "(m * 8 + t) div 8 = m" "(m * 8 + t) mod 8 = t" for m using t by simp_all
      note dm = this [of "i * 512 + j"]
      show ?thesis unfolding used_def mem_Collect_eq dm using b(1) len j by auto
    qed
    finally show "bit (map_block (k - 4096 * i) ! j) t = bit (?real ! j) t" using j b(1) len by simp
  qed
  then have "filter (\<lambda>n. map_block (k - 4096 * i) ! n \<noteq> ?real ! n) [0..<512] = []" by (simp add: filter_empty_conv)
  moreover have "rdblk e (i + s_bitmap (fk_sb s)) s = (Some (map_block (k - 4096 * i)), s)"
    using b(2,3) m by (simp add: rdblk_def)
  ultimately show ?thesis using b(1) len by (simp add: cbam1_def)
qed

lemma mkfs_fsck:
  fixes img :: "nat \<Rightarrow> byte list" and n bm :: nat and t :: "32 word"
  defines "im \<equiv> mkfs_image n bm t img"
  assumes n: "512 \<le> n" "n \<le> 2000000" "2 \<le> bm" "(n + 4095) div 4096 + bm + 2 \<le> n" and rok: "\<forall>b < n. fe_rok e b"
  shows "\<exists>s. fsck1 e im = Some s \<and> fk_out s = [] \<and> fk_img s = im"
proof -
  define db where "db = (n + 4095) div 4096 + bm"
  have db: "db + 2 \<le> n" "2 \<le> db" "bm < 2000000" using n by (simp_all add: db_def)
  note r = mkfs_image_reads(1-4) [where t = t and img = img, OF n(2,3) db_def db(1), folded im_def]
  let ?sb = "mkfs_super n bm t"
  note sb = mkfs_image_reads(5-8) [where t = t, OF n(2,3) db_def db(1)]
  let ?s0 = "fsck_start im ?sb"
  have f: "fk_out ?s0 = []" "fk_img ?s0 = im" "fk_sb ?s0 = ?sb" "length (fk_bam ?s0) = n" "fk_lcm ?s0 = replicate n 0"
    "fk_rcm ?s0 = replicate n 0" "used ?s0 = {}"
    by (auto simp: fsck_start_def sb used_def)
  have "\<forall>b \<in> set [0..<db]. b div 8 < length (fk_bam ?s0)" using db f(4) by (auto intro: le_less_trans [OF div_le_dividend])
  then obtain bam where 1: "each bused [0..<db] ?s0 = Some (?s0\<lparr>fk_bam := bam\<rparr>)" "length bam = n"
    using each_bused_run f(4) by metis
  let ?s1 = "?s0\<lparr>fk_bam := bam\<rparr>"
  have u1: "used ?s1 = {0..<db}" using each_bused [OF 1(1) f(1)] f(7) by (simp add: qs_def)
  have lr: "fk_lcm ?s1 = replicate n 0" "fk_rcm ?s1 = replicate n 0" using f(5,6) by simp_all
  have "\<exists>bam. cinode e db db ?s1 = Some (?s1\<lparr>fk_bam := bam, fk_lcm := (fk_lcm ?s1)[db := 2], fk_rcm := (fk_rcm ?s1)[db := 3]\<rparr>)
    \<and> length bam = s_nblocks ?sb \<and> used (?s1\<lparr>fk_bam := bam\<rparr>) = used ?s1 \<union> {db, db + 1}"
  proof (rule lone_root [OF r(2,3)])
    show "db + 1 < s_nblocks ?sb" "s_nblocks ?sb \<le> 2 ^ 22" "s_dblock ?sb \<le> db" "0 < db" using db n(2) by (simp_all add: sb)
    show "fe_rok e db" "fe_rok e (db + 1)" using db rok by simp_all
    show "fk_img ?s1 = im" "fk_sb ?s1 = ?sb" "length (fk_bam ?s1) = s_nblocks ?sb" "fk_lcm ?s1 = replicate (s_nblocks ?sb) 0"
      "fk_rcm ?s1 = replicate (s_nblocks ?sb) 0" "fk_out ?s1 = []" using f 1(2) by (simp_all add: sb)
  qed
  then obtain bam2 where 2: "cinode e db db ?s1 = Some (?s1\<lparr>fk_bam := bam2, fk_lcm := (replicate n 0)[db := 2], fk_rcm := (replicate n 0)[db := 3]\<rparr>)"
    "length bam2 = n" "used (?s1\<lparr>fk_bam := bam2\<rparr>) = {0..<db} \<union> {db, db + 1}"
    unfolding lr u1 sb by (elim exE conjE) (rule that)
  let ?s2 = "?s1\<lparr>fk_bam := bam2, fk_lcm := (replicate n 0)[db := 2], fk_rcm := (replicate n 0)[db := 2]\<rparr>"
  have 3: "cnlink e ?s2 = Some ?s2" unfolding cnlink_def by (rule each_skip) (simp add: cnlink1_def)
  have "used ?s2 = used (?s1\<lparr>fk_bam := bam2\<rparr>)" by (simp add: used_def)
  moreover have "{0..<db} \<union> {db, db + 1} = {0..<db + 2}" by auto
  ultimately have u2: "used ?s2 = {0..<db + 2}" using 2(3) by (simp only:)
  have cnt: "(n + 4095) mod 2 ^ 32 div 4096 = db - bm" using n(2) by (simp add: db_def)
  have "cbam1 e i ?s2 = Some ?s2" if i: "i < db - bm" for i
  proof (rule cbam1_run [OF _ _ _ _ _ u2])
    have "(n + 4095) div 4096 * 4096 \<le> n + 4095" by (rule div_times_less_eq_dividend)
    moreover have "(i + 1) * 4096 \<le> (n + 4095) div 4096 * 4096" using i by (simp add: db_def)
    ultimately have "(i + 1) * 4096 \<le> n + 4095" by (rule order_trans [rotated])
    then have "4096 * i < n" by simp
    then show "i * 512 + 512 \<le> n" using n(1) by (cases i) auto
    show "fk_img ?s2 (i + s_bitmap (fk_sb ?s2)) = map_block (db + 2 - 4096 * i)" using r(4) [of "i + bm"] i by (simp add: f sb)
    show "i + s_bitmap (fk_sb ?s2) < 2 ^ 22" "fe_rok e (i + s_bitmap (fk_sb ?s2))" using i db n(2) rok by (simp_all add: f sb)
  qed (simp add: 2(2))
  moreover have "s_nblocks (fk_sb ?s2) = n" by (simp add: f sb)
  ultimately have 4: "cbam e ?s2 = Some ?s2" using cnt unfolding cbam_def by (intro each_skip) simp
  have "fe_rok e 1" using rok n(1) by simp
  then have "fsck1 e im = Some ?s2"
    using 1(1) 2(1) 3 4 db(1) unfolding fsck1_def r(1) Let_def sb by simp
  then show ?thesis by (intro exI [of _ ?s2]) (simp add: f)
qed

theorem fsck_sound_witness:
  "\<exists>img s. \<forall>b < 600. marked img (decode_super (img 1)) b \<longleftrightarrow> b < s_dblock (decode_super (img 1))
     \<or> (\<exists>i. in_tree img (s_root (decode_super (img 1))) i \<and> b \<in> node img i)"
proof -
  let ?e = "\<lparr>fe_f = False, fe_l = False, fe_rok = \<lambda>_. True, fe_wok = \<lambda>_. True\<rparr>"
  let ?im = "mkfs_image 600 2 0 (\<lambda>_. replicate 512 0)"
  obtain s where s: "fsck1 ?e ?im = Some s" "fk_out s = []" using mkfs_fsck [of 600 2 ?e 0 "\<lambda>_. replicate 512 0"] by (auto simp del: One_nat_def)
  have d: "decode_super (?im 1) = mkfs_super 600 2 0" by (rule mkfs_image_reads(1) [where db = 3]) simp_all
  have f: "s_nblocks (mkfs_super 600 2 0) = 600" "s_bitmap (mkfs_super 600 2 0) = 2" by (simp_all add: mkfs_super_def Let_def)
  have "decode_dinode (?im 3) = root_inode 3 0" by (rule mkfs_image_reads(2)) simp_all
  then have "length (encode_dinode (root_inode 3 0)) = 512" by (metis length_encode_dinode wf_decode_dinode)
  then have len: "length (?im b) = 512" for b
    by (simp add: mkfs_image_def map_block_bits root_entries_def numeral_3_eq_3)
  have "\<forall>b < s_nblocks (decode_super (?im 1)). marked ?im (decode_super (?im 1)) b \<longleftrightarrow> b < s_dblock (decode_super (?im 1))
     \<or> (\<exists>i. in_tree ?im (s_root (decode_super (?im 1))) i \<and> b \<in> node ?im i)"
    using fsck_sound [OF s _ _ _ len] unfolding d f by simp
  then show ?thesis using s unfolding d f by (metis d)
qed



end
