(* ===== verification/Dev.thy ===== *)
theory Dev
  imports Chr Cstring
begin

unbundle bit_operations_syntax

text \<open>
  Two character devices without hardware: \<open>kern/dv/tty.c\<close>, the terminal of the calling process, and
  \<open>kern/dv/procdev.c\<close>, the table of processes.
\<close>

section \<open>The terminal of the process\<close>

definition tty_ioctl :: "env \<Rightarrow> nat \<Rightarrow> int \<Rightarrow> nat \<Rightarrow> kst \<Rightarrow> unit res" where
  "tty_ioctl e i cmd p s = (case p_tty (cur s) of None \<Rightarrow> fail ENODEV s | Some t \<Rightarrow> chr_ioctl e t cmd p s)"

definition tty_read :: "env \<Rightarrow> rwreq \<Rightarrow> kst \<Rightarrow> rwreq res" where
  "tty_read e req s = (case p_tty (cur s) of None \<Rightarrow> fail ENODEV s | Some t \<Rightarrow> chr_read e (req\<lparr>rw_ino := t\<rparr>) s)"

definition tty_write :: "env \<Rightarrow> rwreq \<Rightarrow> kst \<Rightarrow> rwreq res" where
  "tty_write e req s = (case p_tty (cur s) of None \<Rightarrow> fail ENODEV s | Some t \<Rightarrow> chr_write e (req\<lparr>rw_ino := t\<rparr>) s)"

definition tty_ttyname :: "env \<Rightarrow> nat \<Rightarrow> kst \<Rightarrow> byte list res" where
  "tty_ttyname e i s = (case p_tty (cur s) of None \<Rightarrow> fail ENODEV s | Some t \<Rightarrow> chr_ttyname e t s)"

abbreviation (input) "TTY_DEVN \<equiv> (0::nat)"
abbreviation (input) "PROC_DEVN \<equiv> (3::nat)"

definition ttydev_init :: "env \<Rightarrow> (nat \<Rightarrow> chr_driver) \<Rightarrow> nat \<Rightarrow> chr_driver" where
  "ttydev_init e drv = drv(TTY_DEVN := (drv TTY_DEVN)\<lparr>cd_ttyname := Some (tty_ttyname e), cd_read := Some (tty_read e),
     cd_write := Some (tty_write e), cd_ioctl := Some (tty_ioctl e)\<rparr>)"

section \<open>The table of processes\<close>

record procinfo =
  pi_pid :: int
  pi_ppid :: int
  pi_psid :: int
  pi_euid :: "16 word"
  pi_egid :: "16 word"
  pi_ruid :: "16 word"
  pi_rgid :: "16 word"
  pi_tty :: "32 word"
  pi_time_slice :: int
  pi_size :: nat
  pi_ptab :: nat
  pi_comm :: "byte list"
  pi_compat :: "byte list"

text \<open>The struct as it lies in memory: the two names have 29 and 30 characters, and one byte fills the last word.\<close>

definition encode_procinfo :: "procinfo \<Rightarrow> byte list" where
  "encode_procinfo pi =
     le32s (map (\<lambda>x. unat (of_int x :: 32 word)) [pi_pid pi, pi_ppid pi, pi_psid pi])
     @ concat (map (\<lambda>w. le16 (unat w)) [pi_euid pi, pi_egid pi, pi_ruid pi, pi_rgid pi])
     @ le32s [unat (pi_tty pi), unat (of_int (pi_time_slice pi) :: 32 word), pi_size pi, pi_ptab pi]
     @ pi_comm pi @ pi_compat pi @ [0]"

text \<open>
  What is told of an entry of the table. The entries of no process are zero, their parent is a null pointer.
  \<open>None\<close> would be a name without an end.
\<close>

definition proc_info :: "kst \<Rightarrow> nat \<Rightarrow> procinfo option" where
  "proc_info s i =
     (let q = procs s i in do {
        compat \<leftarrow> (case p_cpname q of
            None \<Rightarrow> Some (replicate (NAME_MAX + 2) 0)
          | Some n \<Rightarrow> do {
              p \<leftarrow> strrchr (cstr n) 0x2F;
              strncpy (replicate (NAME_MAX + 2) 0) (drop (case p of None \<Rightarrow> 0 | Some k \<Rightarrow> k + 1) (cstr n)) (NAME_MAX + 1)
            });
        Some \<lparr>pi_pid = p_pid q, pi_ppid = (if p_pid q \<noteq> 0 then p_pid (procs s (p_parent q)) else 0), pi_psid = p_psid q,
              pi_euid = p_euid q, pi_egid = p_egid q, pi_ruid = p_ruid q, pi_rgid = p_rgid q,
              pi_tty = (case p_tty q of None \<Rightarrow> -1 | Some t \<Rightarrow> ucast (d_rdev (i_d (inodes s t)))),
              pi_time_slice = p_time_slice q, pi_size = p_size q * 4096 mod 2 ^ 32, pi_ptab = p_ptab q,
              pi_comm = (p_comm q)[NAME_MAX := 0], pi_compat = compat\<rparr>
      })"

definition proc_read :: "rwreq \<Rightarrow> kst \<Rightarrow> rwreq res" where
  "proc_read req s =
     (if rw_count req \<noteq> 96 then fail EINVAL s
      else let i = unat (rw_start req) in
        if i \<ge> MAXPROCS then Some (Inr (req\<lparr>rw_count := 0\<rparr>), s)
        else do {
          pi \<leftarrow> proc_info s i;
          map_option (\<lambda>(r, s). (map_sum id (\<lambda>_. req\<lparr>rw_start := rw_start req + 1\<rparr>) r, s)) (tucpy (rw_buf req) (encode_procinfo pi) s)
        })"

definition proc_write :: "rwreq \<Rightarrow> kst \<Rightarrow> rwreq res" where
  "proc_write req s = fail EPERM s"

definition procdev_init :: "(nat \<Rightarrow> chr_driver) \<Rightarrow> nat \<Rightarrow> chr_driver" where
  "procdev_init drv = drv(PROC_DEVN := (drv PROC_DEVN)\<lparr>cd_read := Some proc_read, cd_write := Some proc_write\<rparr>)"

section \<open>What is read\<close>

lemma strncpy_room: "0 \<in> set src \<Longrightarrow> n \<le> length ds \<Longrightarrow> \<exists>l. strncpy ds src n = Some l \<and> length l = length ds"
proof (induction ds src n rule: strncpy.induct)
  case (2 d ds c cs n)
  then show ?case by (cases "c = 0") (auto simp: memset_def)
qed auto

lemma strlen_cstr: "\<exists>k \<le> length n. strlen (cstr n) = Some k"
  by (induction n) (auto simp: cstr_def)

text \<open>An entry can always be told, and takes the 96 bytes of the struct when the name of the process fills its array.\<close>

lemma proc_info_some: "\<exists>pi. proc_info s i = Some pi \<and> length (pi_compat pi) = NAME_MAX + 2 \<and> pi_comm pi = (p_comm (procs s i))[NAME_MAX := 0]"
proof (cases "p_cpname (procs s i)")
  case None
  then show ?thesis by (simp add: proc_info_def Let_def)
next
  case (Some n)
  obtain k where k: "k \<le> length n" "strlen (cstr n) = Some k" using strlen_cstr by blast
  define p where "p = find (\<lambda>i. cstr n ! i = 0x2F) (rev [0..<Suc k])"
  define d :: nat where "d = (case p of None \<Rightarrow> 0 | Some k \<Rightarrow> k + 1)"
  have "d \<le> length n"
  proof (cases p)
    case (Some j)
    then have "j \<le> k" "cstr n ! j = 0x2F" unfolding p_def by (auto simp: find_Some_iff rev_nth simp del: upt_Suc)
    then have "j \<noteq> length n" by (auto simp: cstr_def)
    then show ?thesis using \<open>j \<le> k\<close> k(1) Some by (simp add: d_def)
  qed (simp add: d_def)
  then have "0 \<in> set (drop d (cstr n))" by (simp add: cstr_def)
  from strncpy_room [OF this, of "NAME_MAX + 1" "replicate (NAME_MAX + 2) 0"]
  obtain l where l: "strncpy (replicate (NAME_MAX + 2) 0) (drop d (cstr n)) (NAME_MAX + 1) = Some l" "length l = NAME_MAX + 2"
    by auto
  moreover have "strrchr (cstr n) 0x2F = Some p" by (simp only: strrchr_def k(2) option.map p_def)
  ultimately show ?thesis using Some by (simp add: proc_info_def Let_def d_def [symmetric])
qed

lemma length_encode_procinfo: "length (pi_comm pi) = NAME_MAX + 1 \<Longrightarrow> length (pi_compat pi) = NAME_MAX + 2 \<Longrightarrow> length (encode_procinfo pi) = 96"
  by (simp add: encode_procinfo_def le32s_def)

end
