(* ===== verification/Expr.thy ===== *)
theory Expr
  imports Stdio Ctime
begin

unbundle bit_operations_syntax

text \<open>
  \<open>cmd/bin/expr.c\<close>: the value of an expression that is given as a list of arguments. The expression is parsed
  and evaluated in one pass, by recursive descent. An exit with a message, and the signal of a division that traps,
  are errors.
\<close>

section \<open>Values and operators\<close>

datatype xerr = Eox | No_paren | Badtype | Junk | Sigfpe

datatype xval = VInt "32 word" | VStr "byte list"

abbreviation (input) "P_MOD \<equiv> (0::int)"
abbreviation (input) "P_DIV \<equiv> (1::int)"
abbreviation (input) "P_MUL \<equiv> (2::int)"
abbreviation (input) "P_ADD \<equiv> (3::int)"
abbreviation (input) "P_CMP \<equiv> (4::int)"
abbreviation (input) "P_AND \<equiv> (5::int)"
abbreviation (input) "P_OR \<equiv> (6::int)"
abbreviation (input) "P_ALL \<equiv> (7::int)"

text \<open>The \<open>idiv\<close> instruction traps when the quotient does not exist or does not fit.\<close>

definition idiv_ok :: "32 word \<Rightarrow> 32 word \<Rightarrow> bool" where
  "idiv_ok a b \<longleftrightarrow> b \<noteq> 0 \<and> \<not> (a = 0x80000000 \<and> b = -1)"

definition of_bool32 :: "bool \<Rightarrow> 32 word" where
  "of_bool32 b = (if b then 1 else 0)"

text \<open>The operators on two integers; \<open>None\<close> is the signal.\<close>

definition int_op :: "byte list \<Rightarrow> 32 word \<Rightarrow> 32 word \<Rightarrow> 32 word option" where
  "int_op t a b =
     (if t = bytes ''%'' then if idiv_ok a b then Some (of_int (sint a smod sint b)) else None
      else if t = bytes ''/'' then if idiv_ok a b then Some (of_int (sint a sdiv sint b)) else None
      else if t = bytes ''*'' then Some (a * b)
      else if t = bytes ''+'' then Some (a + b)
      else if t = bytes ''-'' then Some (a - b)
      else if t = bytes ''<'' then Some (of_bool32 (a <s b))
      else if t = bytes ''<='' then Some (of_bool32 (a \<le>s b))
      else if t = bytes ''>'' then Some (of_bool32 (b <s a))
      else if t = bytes ''=='' then Some (of_bool32 (a = b))
      else Some (of_bool32 (a \<noteq> b)))"

definition is_null :: "xval \<Rightarrow> bool" where
  "is_null v = (case v of VInt n \<Rightarrow> n = 0 | VStr s \<Rightarrow> s = [])"

text \<open>
  What the branch of an operator does with its operands. The test of the types of \<open>>=\<close> is missing: what is left of
  it always fails.
\<close>

definition apply_op :: "byte list \<Rightarrow> xval \<Rightarrow> xval \<Rightarrow> xerr + xval" where
  "apply_op t v1 v2 =
     (if t = bytes ''>='' then Inl Badtype
      else if t = bytes ''&'' then
        Inr (if is_null v2 then VInt 0 else case v1 of VStr [] \<Rightarrow> VInt 0 | _ \<Rightarrow> v1)
      else if t = bytes ''|'' then Inr (if is_null v1 then v2 else v1)
      else case (v1, v2) of
          (VInt a, VInt b) \<Rightarrow> (case int_op t a b of None \<Rightarrow> Inl Sigfpe | Some n \<Rightarrow> Inr (VInt n))
        | _ \<Rightarrow> Inl Badtype)"

text \<open>
  The chain of tests in \<open>getvalue\<close>: the priority of an operator, at which the chain is left when the argument \<open>p\<close> is
  below it. The right operand is parsed with this priority, that of \<open>&\<close> and \<open>|\<close> with the one of the comparisons.
\<close>

definition op_prio :: "byte list \<Rightarrow> int option" where
  "op_prio t =
     (if t = bytes ''%'' then Some P_MOD
      else if t = bytes ''/'' then Some P_DIV
      else if t = bytes ''*'' then Some P_MUL
      else if t = bytes ''+'' \<or> t = bytes ''-'' then Some P_ADD
      else if t \<in> {bytes ''<'', bytes ''<='', bytes ''>'', bytes ''>='', bytes ''=='', bytes ''!=''} then Some P_CMP
      else if t = bytes ''&'' then Some P_AND
      else if t = bytes ''|'' then Some P_OR
      else None)"

definition right_prio :: "int \<Rightarrow> int" where
  "right_prio q = (if q \<ge> P_AND then P_CMP else q)"

section \<open>The parser\<close>

text \<open>An argument of digits, the empty one too, is a number.\<close>

definition single :: "byte list \<Rightarrow> xval" where
  "single t = (if \<forall>c \<in> set t. isdigit (sint c) then VInt (atoi (t @ [0])) else VStr t)"

text \<open>
  \<open>getvalue\<close>: without a value it begins with \<open>getsingleval\<close>, with the value \<open>v1\<close> it is in its loop. The result is the
  value and the arguments that are left.
\<close>

partial_function (option) getval :: "int \<Rightarrow> xval option \<Rightarrow> byte list list \<Rightarrow> (xerr + xval \<times> byte list list) option" where
  "getval p v ts =
     (case v of
        None \<Rightarrow>
          (case ts of
             [] \<Rightarrow> Some (Inl Eox)
           | t # ts \<Rightarrow>
               if t = bytes ''('' then
                 Option.bind (getval P_ALL None ts) (\<lambda>r. case r of
                     Inl e \<Rightarrow> Some (Inl e)
                   | Inr (v, ts) \<Rightarrow> (case ts of
                         [] \<Rightarrow> Some (Inl No_paren)
                       | t # ts \<Rightarrow> if t \<noteq> bytes '')'' then Some (Inl No_paren) else getval p (Some v) ts))
               else getval p (Some (single t)) ts)
      | Some v1 \<Rightarrow>
          (case ts of
             [] \<Rightarrow> Some (Inr (v1, []))
           | t # rest \<Rightarrow>
               (case op_prio t of
                  None \<Rightarrow> Some (Inr (v1, ts))
                | Some q \<Rightarrow>
                    if p < q then Some (Inr (v1, ts))
                    else Option.bind (getval (right_prio q) None rest) (\<lambda>r. case r of
                        Inl e \<Rightarrow> Some (Inl e)
                      | Inr (v2, ts) \<Rightarrow> (case apply_op t v1 v2 of Inl e \<Rightarrow> Some (Inl e) | Inr v \<Rightarrow> getval p (Some v) ts)))))"

definition getvalue :: "int \<Rightarrow> byte list list \<Rightarrow> (xerr + xval \<times> byte list list) option" where
  "getvalue p ts = getval p None ts"

text \<open>What \<open>main\<close> prints for an expression, or the error.\<close>

definition expr_main :: "byte list list \<Rightarrow> (xerr + byte list) option" where
  "expr_main ts =
     Option.bind (getvalue P_ALL ts) (\<lambda>r. case r of
         Inl e \<Rightarrow> Some (Inl e)
       | Inr (v, rest) \<Rightarrow>
           if rest \<noteq> [] then Some (Inl Junk)
           else (case v of
               VInt n \<Rightarrow> map_option Inr (format_text [] (bytes ''%li'' @ [10]) [Num n])
             | VStr s \<Rightarrow> Some (Inr (s @ [10]))))"

section \<open>The parser ends\<close>

lemma getval_ends:
  "(\<forall>v. \<exists>r. getval p (Some v) ts = Some r \<and> (\<forall>w rest. r = Inr (w, rest) \<longrightarrow> length rest \<le> length ts))
    \<and> (\<exists>r. getval p None ts = Some r \<and> (\<forall>w rest. r = Inr (w, rest) \<longrightarrow> length rest < length ts))"
proof (induction "length ts" arbitrary: p ts rule: less_induct)
  case less
  have start: "\<exists>r. getval q None us = Some r \<and> (\<forall>w rest. r = Inr (w, rest) \<longrightarrow> length rest < length us)"
    if "length us < length ts" for q us using less that by blast
  have loop: "\<exists>r. getval q (Some v) us = Some r \<and> (\<forall>w rest. r = Inr (w, rest) \<longrightarrow> length rest \<le> length us)"
    if "length us < length ts" for q v us using less that by blast
  have "\<exists>r. getval p (Some v) ts = Some r \<and> (\<forall>w rest. r = Inr (w, rest) \<longrightarrow> length rest \<le> length ts)" for v
  proof (cases ts)
    case (Cons t rest)
    show ?thesis
    proof (cases "\<exists>q. op_prio t = Some q \<and> \<not> p < q")
      case True
      then obtain q where q: "op_prio t = Some q" "\<not> p < q" by blast
      obtain r where r: "getval (right_prio q) None rest = Some r" "\<forall>w ts'. r = Inr (w, ts') \<longrightarrow> length ts' < length rest"
        using start [of rest "right_prio q"] Cons by auto
      show ?thesis
      proof (cases r)
        case (Inr vt)
        obtain v2 ts' where vt: "vt = (v2, ts')" by force
        show ?thesis
        proof (cases "apply_op t v v2")
          case (Inr w)
          obtain r' where "getval p (Some w) ts' = Some r'" "\<forall>w rest. r' = Inr (w, rest) \<longrightarrow> length rest \<le> length ts'"
            using loop [of ts' p w] r(2) \<open>r = Inr vt\<close> vt Cons by auto
          then show ?thesis using q r \<open>r = Inr vt\<close> vt Inr Cons by (subst getval.simps) (fastforce dest: spec)
        qed (use q r Inr vt Cons in \<open>subst getval.simps, simp\<close>)
      qed (use q r Cons in \<open>subst getval.simps, simp\<close>)
    qed (subst getval.simps, auto simp: Cons split: option.splits)
  qed (subst getval.simps, simp)
  moreover have "\<exists>r. getval p None ts = Some r \<and> (\<forall>w rest. r = Inr (w, rest) \<longrightarrow> length rest < length ts)"
  proof (cases ts)
    case (Cons t rest)
    show ?thesis
    proof (cases "t = bytes ''(''")
      case True
      obtain r where r: "getval P_ALL None rest = Some r" "\<forall>w ts'. r = Inr (w, ts') \<longrightarrow> length ts' < length rest"
        using start [of rest P_ALL] Cons by auto
      show ?thesis
      proof (cases "\<exists>v ts'. r = Inr (v, bytes '')'' # ts')")
        case True
        then obtain v ts' where v: "r = Inr (v, bytes '')'' # ts')" by blast
        then obtain r' where "getval p (Some v) ts' = Some r'" "\<forall>w rest. r' = Inr (w, rest) \<longrightarrow> length rest \<le> length ts'"
          using loop [of ts' p v] r(2) Cons by fastforce
        then show ?thesis using r v Cons \<open>t = bytes ''(''\<close> by (subst getval.simps) fastforce
      next
        case False
        then show ?thesis using r Cons \<open>t = bytes ''(''\<close> by (subst getval.simps) (auto split: sum.splits list.splits)
      qed
    next
      case False
      then show ?thesis using loop [of rest p "single t"] Cons by (subst getval.simps) fastforce
    qed
  qed (subst getval.simps, simp)
  ultimately show ?case by blast
qed

section \<open>The arguments of a tree\<close>

text \<open>
  The order in which the parser applies the operators, as a tree over the tokens.
\<close>

datatype xtree = Leaf "byte list" | Node "byte list" xtree xtree

fun xsem :: "xtree \<Rightarrow> xerr + xval" where
  "xsem (Leaf t) = Inr (single t)"
| "xsem (Node t a b) =
     (case xsem a of Inl e \<Rightarrow> Inl e | Inr v \<Rightarrow> (case xsem b of Inl e \<Rightarrow> Inl e | Inr w \<Rightarrow> apply_op t v w))"

definition prio :: "byte list \<Rightarrow> int" where
  "prio t = (case op_prio t of None \<Rightarrow> P_ALL | Some q \<Rightarrow> q)"

definition left_prio :: "int \<Rightarrow> int" where
  "left_prio q = (if q \<ge> P_AND then q else q - 1)"

fun xprint :: "int \<Rightarrow> xtree \<Rightarrow> byte list list" where
  "xprint p (Leaf t) = [t]"
| "xprint p (Node t a b) =
     (let q = prio t; ts = xprint (left_prio q) a @ t # xprint (right_prio q) b
      in if p < q then bytes ''('' # ts @ [bytes '')''] else ts)"

fun xwf :: "xtree \<Rightarrow> bool" where
  "xwf (Leaf t) \<longleftrightarrow> t \<noteq> bytes ''(''"
| "xwf (Node t a b) \<longleftrightarrow> op_prio t \<noteq> None \<and> xwf a \<and> xwf b"

text \<open>The value, and then the rest of the loop.\<close>

definition after :: "(xerr + xval) \<Rightarrow> (xval \<Rightarrow> (xerr + 'a) option) \<Rightarrow> (xerr + 'a) option" where
  "after m f = (case m of Inl e \<Rightarrow> Some (Inl e) | Inr v \<Rightarrow> f v)"

text \<open>The arguments \<open>rest\<close> do not go on with an operator of a priority up to \<open>m\<close>.\<close>

definition stops :: "int \<Rightarrow> byte list list \<Rightarrow> bool" where
  "stops m rest \<longleftrightarrow> rest = [] \<or> (\<forall>q. op_prio (hd rest) = Some q \<longrightarrow> m < q)"

lemma stops_mono: "stops m rest \<Longrightarrow> m' \<le> m \<Longrightarrow> stops m' rest"
  by (auto simp: stops_def)

lemma getval_stop: "stops p rest \<Longrightarrow> getval p (Some v) rest = Some (Inr (v, rest))"
  by (subst getval.simps) (auto simp: stops_def split: list.splits option.splits)

lemma getval_leaf: "t \<noteq> bytes ''('' \<Longrightarrow> getval p None (t # rest) = getval p (Some (single t)) rest"
  by (subst getval.simps) simp

lemma getval_paren:
  "getval P_ALL None (ts @ bytes '')'' # rest) = after m (\<lambda>v. Some (Inr (v, bytes '')'' # rest))) \<Longrightarrow>
    getval p None (bytes ''('' # ts @ bytes '')'' # rest) = after m (\<lambda>v. getval p (Some v) rest)"
  by (subst getval.simps) (auto simp: after_def split: sum.splits)

lemma getval_op:
  "op_prio t = Some q \<Longrightarrow> q \<le> p \<Longrightarrow> getval (right_prio q) None (ts @ rest) = after m (\<lambda>w. Some (Inr (w, rest))) \<Longrightarrow>
    getval p (Some v) (t # ts @ rest)
      = after (case m of Inl e \<Rightarrow> Inl e | Inr w \<Rightarrow> apply_op t v w) (\<lambda>w. getval p (Some w) rest)"
  by (subst getval.simps) (auto simp: after_def split: sum.splits)

lemma op_prio_range: "op_prio t = Some q \<Longrightarrow> 0 \<le> q \<and> q \<le> 6"
  by (auto simp: op_prio_def split: if_splits)

lemma close_no_op: "op_prio (bytes '')'') = None"
  by (simp add: op_prio_def bytes_def)

lemma getval_print:
  "xwf x \<Longrightarrow> l \<le> p \<Longrightarrow> stops (min l P_CMP) rest \<Longrightarrow> getval p None (xprint l x @ rest) = after (xsem x) (\<lambda>v. getval p (Some v) rest)"
proof (induction x arbitrary: l p rest)
  case (Leaf t)
  then show ?case by (simp add: getval_leaf after_def)
next
  case (Node t a b)
  obtain q where q: "op_prio t = Some q" "prio t = q" "0 \<le> q" "q \<le> 6"
    using Node.prems(1) op_prio_range by (fastforce simp: prio_def)
  let ?ts = "xprint (left_prio q) a @ t # xprint (right_prio q) b"
  have plain: "getval p' None (?ts @ rest') = after (xsem (Node t a b)) (\<lambda>v. getval p' (Some v) rest')"
    if "q \<le> p'" "stops (min q P_CMP) rest'" for p' rest'
  proof -
    have r: "right_prio q \<le> min q P_CMP" by (simp add: right_prio_def)
    have "stops (min (left_prio q) P_CMP) (t # xprint (right_prio q) b @ rest')"
      using q(1) by (simp add: stops_def left_prio_def)
    then have a: "getval p' None (xprint (left_prio q) a @ t # xprint (right_prio q) b @ rest')
        = after (xsem a) (\<lambda>v. getval p' (Some v) (t # xprint (right_prio q) b @ rest'))"
      using Node.IH(1) [of "left_prio q" p'] Node.prems(1) that(1) by (simp add: left_prio_def)
    have "getval (right_prio q) None (xprint (right_prio q) b @ rest') = after (xsem b) (\<lambda>v. getval (right_prio q) (Some v) rest')"
      using Node.IH(2) [of "right_prio q" "right_prio q" rest'] Node.prems(1) stops_mono [OF that(2)] r by simp
    also have "\<dots> = after (xsem b) (\<lambda>w. Some (Inr (w, rest')))"
      using getval_stop [OF stops_mono [OF that(2) r]] by simp
    finally have b: "getval p' (Some v) (t # xprint (right_prio q) b @ rest')
        = after (case xsem b of Inl e \<Rightarrow> Inl e | Inr w \<Rightarrow> apply_op t v w) (\<lambda>w. getval p' (Some w) rest')" for v
      by (rule getval_op [OF q(1) that(1)])
    show ?thesis unfolding append_assoc append_Cons a b by (simp add: after_def split: sum.splits)
  qed
  show ?case
  proof (cases "l < q")
    case True
    have "getval P_ALL None (?ts @ bytes '')'' # rest) = after (xsem (Node t a b)) (\<lambda>v. getval P_ALL (Some v) (bytes '')'' # rest))"
      by (rule plain) (use q(4) in \<open>simp_all add: stops_def close_no_op\<close>)
    also have "\<dots> = after (xsem (Node t a b)) (\<lambda>v. Some (Inr (v, bytes '')'' # rest)))"
      using getval_stop [of P_ALL "bytes '')'' # rest"] by (simp add: stops_def close_no_op)
    finally show ?thesis using getval_paren [of ?ts rest] True q(2) by (simp add: Let_def)
  next
    case False
    then show ?thesis using plain [of p rest] Node.prems(2,3) stops_mono [of "min l P_CMP" rest "min q P_CMP"] q(2) by (simp add: Let_def)
  qed
qed

section \<open>What an expression means\<close>

text \<open>
  The expressions with their mathematical values, without regard to the code: integers, and strings. The numbers have
  32 bits with a sign. A division truncates; it traps when there is no quotient or the quotient does not fit.
\<close>

datatype xop = OMod | ODiv | OMul | OAdd | OSub | OLt | OLe | OGt | OEq | ONe | OAnd | OOr

datatype xexp = Number nat | Word_arg "byte list" | Op xop xexp xexp

datatype xmeaning = MInt int | MStr "byte list"

definition wrap32 :: "int \<Rightarrow> int" where
  "wrap32 z = (z + 2 ^ 31) mod 2 ^ 32 - 2 ^ 31"

definition quot :: "int \<Rightarrow> int \<Rightarrow> int" where
  "quot a b = (if (a < 0) = (b < 0) then \<bar>a\<bar> div \<bar>b\<bar> else - (\<bar>a\<bar> div \<bar>b\<bar>))"

definition div_traps :: "int \<Rightarrow> int \<Rightarrow> bool" where
  "div_traps a b \<longleftrightarrow> b = 0 \<or> a = - (2 ^ 31) \<and> b = -1"

definition truth :: "bool \<Rightarrow> int" where
  "truth b = (if b then 1 else 0)"

definition arith_op :: "xop \<Rightarrow> int \<Rightarrow> int \<Rightarrow> int option" where
  "arith_op f a b = (case f of
       OMod \<Rightarrow> if div_traps a b then None else Some (a - quot a b * b)
     | ODiv \<Rightarrow> if div_traps a b then None else Some (quot a b)
     | OMul \<Rightarrow> Some (wrap32 (a * b))
     | OAdd \<Rightarrow> Some (wrap32 (a + b))
     | OSub \<Rightarrow> Some (wrap32 (a - b))
     | OLt \<Rightarrow> Some (truth (a < b))
     | OLe \<Rightarrow> Some (truth (a \<le> b))
     | OGt \<Rightarrow> Some (truth (a > b))
     | OEq \<Rightarrow> Some (truth (a = b))
     | _ \<Rightarrow> Some (truth (a \<noteq> b)))"

definition null_value :: "xmeaning \<Rightarrow> bool" where
  "null_value v \<longleftrightarrow> v = MInt 0 \<or> v = MStr []"

definition op_means :: "xop \<Rightarrow> xmeaning \<Rightarrow> xmeaning \<Rightarrow> xerr + xmeaning" where
  "op_means f v w =
     (if f = OAnd then Inr (if null_value v \<or> null_value w then MInt 0 else v)
      else if f = OOr then Inr (if null_value v then w else v)
      else case (v, w) of
          (MInt a, MInt b) \<Rightarrow> (case arith_op f a b of None \<Rightarrow> Inl Sigfpe | Some c \<Rightarrow> Inr (MInt c))
        | _ \<Rightarrow> Inl Badtype)"

fun xmean :: "xexp \<Rightarrow> xerr + xmeaning" where
  "xmean (Number n) = Inr (MInt (wrap32 (int n)))"
| "xmean (Word_arg t) = Inr (MStr t)"
| "xmean (Op f a b) =
     (case xmean a of Inl e \<Rightarrow> Inl e | Inr v \<Rightarrow> (case xmean b of Inl e \<Rightarrow> Inl e | Inr w \<Rightarrow> op_means f v w))"

text \<open>
  How an expression is written, with parentheses only where the levels ask for them. The operators bind to the right, but for
  \<open>&\<close> and \<open>|\<close>, which bind to the left and have only comparisons as right operands.
\<close>

definition op_name :: "xop \<Rightarrow> string" where
  "op_name f = (case f of OMod \<Rightarrow> ''%'' | ODiv \<Rightarrow> ''/'' | OMul \<Rightarrow> ''*'' | OAdd \<Rightarrow> ''+'' | OSub \<Rightarrow> ''-'' | OLt \<Rightarrow> ''<''
     | OLe \<Rightarrow> ''<='' | OGt \<Rightarrow> ''>'' | OEq \<Rightarrow> ''=='' | ONe \<Rightarrow> ''!='' | OAnd \<Rightarrow> ''&'' | OOr \<Rightarrow> ''|'')"

definition level :: "xop \<Rightarrow> int" where
  "level f = (case f of OMod \<Rightarrow> 0 | ODiv \<Rightarrow> 1 | OMul \<Rightarrow> 2 | OAdd \<Rightarrow> 3 | OSub \<Rightarrow> 3 | OAnd \<Rightarrow> 5 | OOr \<Rightarrow> 6 | _ \<Rightarrow> 4)"

fun written :: "int \<Rightarrow> xexp \<Rightarrow> byte list list" where
  "written p (Number n) = [numeral_text 10 n]"
| "written p (Word_arg t) = [t]"
| "written p (Op f a b) =
     (let q = level f; (l, r) = (if f = OAnd \<or> f = OOr then (q, 4) else (q - 1, q));
          ts = written l a @ bytes (op_name f) # written r b
      in if p < q then bytes ''('' # ts @ [bytes '')''] else ts)"

text \<open>The words are not numbers and not an opening parenthesis.\<close>

fun words_ok :: "xexp \<Rightarrow> bool" where
  "words_ok (Number n) \<longleftrightarrow> True"
| "words_ok (Word_arg t) \<longleftrightarrow> t \<noteq> bytes ''('' \<and> (\<exists>c \<in> set t. uint c < 0x30 \<or> uint c > 0x39)"
| "words_ok (Op f a b) \<longleftrightarrow> words_ok a \<and> words_ok b"

subsection \<open>The values of the code\<close>

definition meaning :: "xval \<Rightarrow> xmeaning" where
  "meaning v = (case v of VInt n \<Rightarrow> MInt (sint n) | VStr t \<Rightarrow> MStr t)"

lemma wrap32_take_bit: "wrap32 z = signed_take_bit 31 z"
  by (simp add: wrap32_def signed_take_bit_eq_take_bit_shift take_bit_eq_mod)

lemma wrap32_word: "sint (of_int z :: 32 word) = wrap32 z"
  by (simp add: wrap32_take_bit sint_sbintrunc')

lemma wrap32_ops:
  "sint (a + b :: 32 word) = wrap32 (sint a + sint b)" "sint (a - b :: 32 word) = wrap32 (sint a - sint b)"
  "sint (a * b :: 32 word) = wrap32 (sint a * sint b)"
  by (simp_all add: wrap32_take_bit sint_word_ariths)

lemma wrap32_small: "- (2 ^ 31) \<le> z \<Longrightarrow> z < 2 ^ 31 \<Longrightarrow> wrap32 z = z"
  by (simp add: wrap32_def)

lemma quot_sdiv: "quot a b = a sdiv b"
  by (auto simp: quot_def signed_divide_int_def sgn_if)

lemma quot_range:
  assumes "- (2 ^ 31) \<le> a" "a < 2 ^ 31" "\<not> div_traps a b"
  shows "- (2 ^ 31) \<le> quot a b" "quot a b < 2 ^ 31"
proof -
  have b: "b \<noteq> 0" using assms(3) by (simp add: div_traps_def)
  have q: "0 \<le> \<bar>a\<bar> div \<bar>b\<bar>" "\<bar>a\<bar> div \<bar>b\<bar> \<le> \<bar>a\<bar>" using b zdiv_mono2 [of "\<bar>a\<bar>" 1 "\<bar>b\<bar>"] by (simp_all add: pos_imp_zdiv_nonneg_iff)
  show "- (2 ^ 31) \<le> quot a b" using q assms(1,2) by (auto simp: quot_def)
  show "quot a b < 2 ^ 31"
  proof (cases "a = - (2 ^ 31)")
    case True
    then have "b \<noteq> -1" using assms(3) by (simp add: div_traps_def)
    then consider "b > 0" | "\<bar>b\<bar> \<ge> 2" using b by linarith
    then show ?thesis
    proof cases
      case 1
      then show ?thesis using True q by (simp add: quot_def)
    next
      case 2
      then have "\<bar>a\<bar> div \<bar>b\<bar> \<le> \<bar>a\<bar> div 2" by (intro zdiv_mono2) simp_all
      then show ?thesis using True q by (auto simp: quot_def)
    qed
  qed (use q assms(1,2) in \<open>auto simp: quot_def\<close>)
qed

lemma sint_inj: "sint (x :: 32 word) = sint y \<longleftrightarrow> x = y"
  by (rule word_eq_iff_signed [symmetric])

lemma idiv_traps: "idiv_ok a b \<longleftrightarrow> \<not> div_traps (sint a) (sint b)"
proof -
  have "a = 0x80000000 \<longleftrightarrow> sint a = - (2 ^ 31)" "b = -1 \<longleftrightarrow> sint b = -1" "b = 0 \<longleftrightarrow> sint b = 0"
    by (simp_all flip: sint_inj)
  then show ?thesis by (simp add: idiv_ok_def div_traps_def)
qed

lemma smod_between: "a \<ge> 0 \<Longrightarrow> 0 \<le> a smod b \<and> a smod b \<le> a" "a \<le> 0 \<Longrightarrow> a \<le> a smod b \<and> a smod b \<le> (0 :: int)"
proof -
  have "\<bar>a\<bar> mod \<bar>b\<bar> \<le> \<bar>a\<bar>" by (cases "b = 0") (simp_all add: zmod_le_nonneg_dividend)
  moreover have "0 \<le> \<bar>a\<bar> mod \<bar>b\<bar>" by (cases "b = 0") simp_all
  ultimately show "a \<ge> 0 \<Longrightarrow> 0 \<le> a smod b \<and> a smod b \<le> a" "a \<le> 0 \<Longrightarrow> a \<le> a smod b \<and> a smod b \<le> (0 :: int)"
    by (auto simp: smod_int_alt_def sgn_if)
qed

lemma int_op_means: "f \<noteq> OAnd \<Longrightarrow> f \<noteq> OOr \<Longrightarrow> map_option sint (int_op (bytes (op_name f)) a b) = arith_op f (sint a) (sint b)"
proof -
  have "sint (of_int (sint a sdiv sint b) :: 32 word) = quot (sint a) (sint b)" if "\<not> div_traps (sint a) (sint b)"
    using quot_range [OF sint_low sint_high that] by (simp add: wrap32_word wrap32_small quot_sdiv)
  moreover have "sint (of_int (sint a smod sint b) :: 32 word) = sint a - quot (sint a) (sint b) * sint b"
    using smod_between [of "sint a" "sint b"] sint_low [of a] sint_high [of a]
    by (cases "sint a \<ge> 0") (simp_all add: wrap32_word wrap32_small quot_sdiv minus_sdiv_mult_eq_smod)
  moreover assume "f \<noteq> OAnd" "f \<noteq> OOr"
  ultimately show ?thesis
    by (cases f) (simp_all add: op_name_def bytes_def int_op_def arith_op_def idiv_traps wrap32_ops of_bool32_def truth_def
        word_sless_alt word_sle_eq sint_inj)
qed

lemma null_meaning: "null_value (meaning v) = is_null v"
  using sint_inj [of _ 0] by (auto simp: null_value_def meaning_def is_null_def split: xval.split)

lemma apply_op_means: "map_sum id meaning (apply_op (bytes (op_name f)) v w) = op_means f (meaning v) (meaning w)"
proof (cases "f = OAnd \<or> f = OOr")
  case True
  then show ?thesis unfolding op_means_def null_meaning
    by (auto simp: apply_op_def op_name_def bytes_def is_null_def meaning_def split: xval.splits list.splits)
next
  case False
  define t where "t = bytes (op_name f)"
  have "t \<noteq> bytes ''>=''" "t \<noteq> bytes ''&''" "t \<noteq> bytes ''|''"
    using False by (cases f; simp add: t_def op_name_def bytes_def)+
  then have "apply_op t v w = (case (v, w) of
      (VInt a, VInt b) \<Rightarrow> (case int_op t a b of None \<Rightarrow> Inl Sigfpe | Some n \<Rightarrow> Inr (VInt n)) | _ \<Rightarrow> Inl Badtype)"
    by (simp add: apply_op_def)
  then show ?thesis
    using False int_op_means [of f, folded t_def]
    unfolding t_def [symmetric]
    by (auto simp: op_means_def meaning_def split: xval.split option.split) (metis option.simps(8) option.simps(9) option.inject option.distinct(1))+
qed

fun tree_of :: "xexp \<Rightarrow> xtree" where
  "tree_of (Number n) = Leaf (numeral_text 10 n)"
| "tree_of (Word_arg t) = Leaf t"
| "tree_of (Op f a b) = Node (bytes (op_name f)) (tree_of a) (tree_of b)"

lemma op_prio_level: "op_prio (bytes (op_name f)) = Some (level f)"
  by (cases f) (simp_all add: op_prio_def op_name_def bytes_def level_def)

lemma written_print: "written p x = xprint p (tree_of x)"
  by (induction p x rule: written.induct)
    (auto simp: Let_def prio_def op_prio_level left_prio_def right_prio_def level_def split: xop.splits)

lemma digits_val_width: "digits_val n s = fst (get_width n s)"
  by (induction n s rule: digits_val.induct) simp_all

lemma numeral_text_digits: "c \<in> set (numeral_text 10 n) \<Longrightarrow> isdigit (sint c)"
proof (induction "10 :: nat" n rule: numeral_text.induct)
  case (1 n)
  have "isdigit (sint (numeral_char (n mod 10)))" using signed_digit(1) [of "n mod 10"] by (simp add: numeral_char [symmetric])
  then show ?case using 1 by (auto simp: numeral_text.simps [of 10 n] split: if_splits)
qed

lemma numeral_text_nonempty: "numeral_text b n \<noteq> []"
  by (simp add: numeral_text.simps [of b n])

lemma single_number: "single (numeral_text 10 n) = VInt (of_nat n)"
proof -
  obtain c cs where c: "numeral_text 10 n = c # cs" using numeral_text_nonempty [of 10 n] by (cases "numeral_text 10 n") auto
  then have "isdigit (sint c)" using numeral_text_digits [of c n] by simp
  then have "atoi (numeral_text 10 n @ [0]) = digits_val 0 (numeral_text 10 n @ [0])" using c by (auto simp: atoi_def isdigit_def)
  also have "\<dots> = of_nat n" using get_width_text [of 0 n "[0]"] by (simp add: digits_val_width isdigit_def)
  finally show ?thesis using numeral_text_digits by (auto simp: single_def)
qed

lemma single_word: "\<exists>c \<in> set t. uint c < 0x30 \<or> uint c > 0x39 \<Longrightarrow> single t = VStr t"
proof -
  have "\<not> isdigit (sint c)" if "uint c < 0x30 \<or> uint c > 0x39" for c :: byte
  proof -
    have "0 \<le> uint c" "uint c < 256" using uint_lt2p [of c] by simp_all
    moreover have "sint c = (uint c + 128) mod 256 - 128"
      by (simp add: sint_uint signed_take_bit_eq_take_bit_shift take_bit_eq_mod)
    ultimately show ?thesis using that unfolding isdigit_def by presburger
  qed
  then show "\<exists>c \<in> set t. uint c < 0x30 \<or> uint c > 0x39 \<Longrightarrow> single t = VStr t" by (auto simp: single_def)
qed

lemma xmean_tree: "words_ok x \<Longrightarrow> map_sum id meaning (xsem (tree_of x)) = xmean x"
proof (induction x)
  case (Number n)
  then show ?case using wrap32_word [of "int n"] by (simp add: single_number meaning_def)
next
  case (Word_arg t)
  then show ?case by (simp add: single_word meaning_def)
next
  case (Op f a b)
  then show ?case
    by (cases "xsem (tree_of a)"; cases "xsem (tree_of b)") (auto simp: Op.IH [symmetric] apply_op_means [unfolded id_def] id_def)
qed

lemma xwf_tree: "words_ok x \<Longrightarrow> xwf (tree_of x)"
proof (induction x)
  case (Number n)
  have "\<not> isdigit (sint (0x28 :: byte))" by (simp add: isdigit_def)
  then show ?case using numeral_text_digits [of "0x28" n] by (auto simp: bytes_def)
qed (simp_all add: op_prio_level)

text \<open>
  Property C40. \<open>expr\<close> computes what its argument means: it ends for every list of arguments, and for every expression of the
  operators of its usage message but \<open>>=\<close>,
  written with no more parentheses than the priorities ask for, it gives the mathematical value of the expression in 32 bits, or the
  error that its evaluation meets first. The arithmetic operators bind to the right: \<open>expr 9 - 4 - 3\<close> is 8.
  \<open>>=\<close> never works: on the values of any two expressions it ends with the message of a wrong type, where the usage
  message lists it as a comparison.
\<close>

theorem expr_correct:
  "(\<exists>r. getvalue P_ALL ts = Some r)
   \<and> (words_ok x \<longrightarrow> map_option (map_sum id (\<lambda>(v, rest). (meaning v, rest))) (getvalue P_ALL (written 7 x))
        = Some (case xmean x of Inl e \<Rightarrow> Inl e | Inr v \<Rightarrow> Inr (v, [])))
   \<and> (words_ok x \<and> words_ok y \<and> xmean x = Inr v \<and> xmean y = Inr w \<longrightarrow>
        getvalue P_ALL (written 3 x @ bytes ''>='' # written 4 y) = Some (Inl Badtype))"
proof (intro conjI impI)
  show "\<exists>r. getvalue P_ALL ts = Some r" using getval_ends [of P_ALL ts] by (auto simp: getvalue_def)
next
  assume x: "words_ok x"
  then have "getval P_ALL None (xprint P_ALL (tree_of x) @ []) = after (xsem (tree_of x)) (\<lambda>v. getval P_ALL (Some v) [])"
    by (intro getval_print xwf_tree) (simp_all add: stops_def)
  then show "map_option (map_sum id (\<lambda>(v, rest). (meaning v, rest))) (getvalue P_ALL (written 7 x))
      = Some (case xmean x of Inl e \<Rightarrow> Inl e | Inr v \<Rightarrow> Inr (v, []))"
    using xmean_tree [OF x]
    by (auto simp: written_print getvalue_def after_def getval_stop stops_def split: sum.splits)
next
  assume a: "words_ok x \<and> words_ok y \<and> xmean x = Inr v \<and> xmean y = Inr w"
  let ?t = "Node (bytes ''>='') (tree_of x) (tree_of y)"
  have ge: "op_prio (bytes ''>='') = Some P_CMP" "apply_op (bytes ''>='') v w = Inl Badtype" for v w
    by (simp_all add: op_prio_def apply_op_def bytes_def)
  have "xsem ?t = Inl Badtype"
    using a xmean_tree [of x] xmean_tree [of y] ge(2)
    by (cases "xsem (tree_of x)"; cases "xsem (tree_of y)") auto
  moreover have "getval P_ALL None (xprint P_ALL ?t @ []) = after (xsem ?t) (\<lambda>v. getval P_ALL (Some v) [])"
    using a ge(1) by (intro getval_print) (simp_all add: xwf_tree stops_def)
  ultimately show "getvalue P_ALL (written 3 x @ bytes ''>='' # written 4 y) = Some (Inl Badtype)"
    using ge(1) by (simp add: written_print getvalue_def after_def prio_def left_prio_def right_prio_def)
qed

theorem expr_correct_witness:
  "getvalue P_ALL (map bytes [''9'', ''-'', ''4'', ''-'', ''3'']) = Some (Inr (VInt 8, []))
   \<and> getvalue P_ALL (map bytes [''9'', ''>='', ''4'']) = Some (Inl Badtype)"
proof -
  let ?n = "\<lambda>n. Number n"
  let ?x = "Op OSub (?n 9) (Op OSub (?n 4) (?n 3))"
  have "map_option (map_sum id (\<lambda>(v, rest). (meaning v, rest))) (getvalue P_ALL (written 7 ?x)) = Some (Inr (MInt 8, []))"
    using expr_correct [of "[]" ?x "?n 0"] by (simp add: op_means_def arith_op_def wrap32_def)
  moreover have "written 7 ?x = map bytes [''9'', ''-'', ''4'', ''-'', ''3'']"
    by (simp add: Let_def level_def op_name_def bytes_def numeral_text.simps numeral_char_def)
  moreover have "v = VInt 8" if "meaning v = MInt 8" for v
    using that sint_inj [of _ 8] by (auto simp: meaning_def split: xval.splits)
  ultimately have "getvalue P_ALL (map bytes [''9'', ''-'', ''4'', ''-'', ''3'']) = Some (Inr (VInt 8, []))"
    by (cases "getvalue P_ALL (written 7 ?x)"; cases "the (getvalue P_ALL (written 7 ?x))") (auto simp del: written.simps)
  moreover have "getvalue P_ALL (map bytes [''9'', ''>='', ''4'']) = Some (Inl Badtype)"
    using expr_correct [of "[]" "?n 9" "?n 4"] by (simp add: bytes_def numeral_text.simps numeral_char_def)
  ultimately show ?thesis by simp
qed

end
