(* ===== verification/Spec2Isabelle.thy ===== *)
theory Spec2Isabelle
  imports Creds Ttyld Ctime Malloc Trap Console Mkfs Fdd Rs Uucode Fsck Dev Expr
begin

text \<open>
  A verification development for Xenus, a Unix-like system for the i386.

  The kernel (\<open>src/kern\<close>) is modelled as functions on one state, the record \<open>kst\<close> of
  theory Kstate, which holds its global variables: the table of processes, the pool of
  pages and the page tables, the buffer cache and what the disks hold, the super blocks, the
  inodes, the open files. A C function becomes a function of the same name that takes the
  state and returns it:

    \<^item> \<open>None\<close> is a panic, or an access outside an object; \<open>Some (Inl e, s)\<close> is the error
      \<open>e\<close> with the state the code leaves behind; \<open>Some (Inr x, s)\<close> is success.
    \<^item> A pointer to a table entry is its index; a null pointer is \<open>None\<close>, or 0 for addresses.
    \<^item> Integers have the width of the code where it matters: \<open>32 word\<close> and \<open>16 word\<close>,
      or \<open>nat\<close> with the reduction \<open>mod 2 ^ 32\<close> written where the code can wrap.
    \<^item> A loop over a table is a recursion over the list of its indices. A loop whose end depends
      on the state is a \<open>partial_function (option)\<close>, where \<open>None\<close> also stands for not
      returning; the properties that say that it returns are stated as such.

  What is not in the repository, or is hardware, is a parameter: the block drivers are a field
  of the state, with the contents of the disks; the character drivers and what other processes do
  while a process sleeps are the record \<open>env\<close> of theory Sched (\<open>e_run\<close>); the handlers
  that only talk to the hardware are the record \<open>sysenv\<close> of theory Systab.

  The theories, in the order in which they build on each other:

    \<^item> Prelude: sequencing with errors, what it means to return, little-endian access.
    \<^item> Kstate: the structs of \<open>include/xenus\<close>, the state, the layout of super blocks and inodes
      on disk.
    \<^item> Page, Vm, Umem: \<open>kern/page.c\<close>, \<open>kern/umem.c\<close>, \<open>kern/ualloc.c\<close>. The invariant \<open>vm_ok\<close>
      says that every page is free, or mapped exactly once.
    \<^item> Blk: \<open>kern/fs/blk.c\<close>. The invariant \<open>blk_inv\<close> of the cache, and \<open>blk_view\<close>, what a
      device holds for the kernel, whether it is in the cache or on the disk.
    \<^item> Frame: the locales \<open>frame\<close>, \<open>fs_frame\<close> and \<open>um_frame\<close>, in which every theory after it
      proves what its operations leave alone; they are interpreted for the parts of the state that a property
      is about.
    \<^item> Alloc, Bmap, Inode, Super: \<open>kern/fs/alloc.c\<close>, \<open>bmap.c\<close>, \<open>inode.c\<close> and \<open>mount.c\<close>.
      \<open>fs_ok\<close> ties the map of used blocks to the super block; \<open>bmap_ref\<close> is what the
      maps of a file mean; \<open>inodes_ok\<close> says that an inode is in one entry only.
    \<^item> Sched: signals and the scheduler of \<open>kern/process.c\<close>. Chr, Pipe, File: character devices,
      pipes, descriptors; a pipe implements the interface \<open>byte_queue\<close>.
    \<^item> Cstring: \<open>lib/string\<close>, on lists of bytes; the kernel compares names with it.
    \<^item> Dir, Mknod, Rw, Open, Mount: the rest of \<open>kern/fs\<close>.
    \<^item> Exit, Clock, Syscall, Exec, Systab: the end of a process, \<open>fork\<close> and \<open>wait\<close>, the clock, the
      remaining system calls, \<open>exec\<close>, and the table of system calls with their entry.
    \<^item> Creds: no system call but \<open>exec\<close> raises the rights of a process.
    \<^item> Ttyld: the terminal line discipline, \<open>kern/ttyld.c\<close>, and the line editor it implements.

  The C library (\<open>src/lib\<close>) is modelled beside the kernel, on lists and on a state \<open>'w\<close> of the
  world outside the process, which its system calls change; these are parameters.

    \<^item> Stdlib: \<open>lib/ctype\<close>, \<open>atoi\<close> and \<open>qsort\<close>, which is shown to end and to sort.
    \<^item> Stdio: \<open>lib/stdio\<close> and \<open>kern/lib/printf.c\<close>: a buffered file keeps the order of what is put,
      and \<open>vfprintf\<close> prints what \<open>format_text\<close> says a format means.
    \<^item> Malloc: \<open>lib/malloc\<close>. \<open>heap_ok\<close> says that the blocks do not overlap.
    \<^item> Ctime: \<open>lib/time/time.c\<close>, against the Gregorian calendar.

    \<^item> Trap, among the kernel's: \<open>kern/intr.c\<close>, the gates, exceptions, and the return to a program.
    \<^item> Console, among the kernel's: \<open>kern/console.c\<close>, \<open>kern/dv/condev.c\<close> and \<open>kern/pckbd.c\<close>; the
      screen is a window on the roll of all that was printed.

    \<^item> Hd, Fdd, Rs, among the kernel's: \<open>kern/dv/hd.c\<close>, \<open>fd.c\<close> and \<open>rs.c\<close>, the disks and the serial lines. The
      hardware is a parameter, a record of what reading and writing its ports does; what a driver relies on of it are
      the predicates \<open>ata_ok\<close>, \<open>fdc_log\<close> and \<open>uart_log\<close>.
    \<^item> Dev, among the kernel's: \<open>kern/dv/tty.c\<close> and \<open>procdev.c\<close>.

  Of the commands:

    \<^item> Mkfs: \<open>cmd/sbin/mkfs.c\<close>, which makes a file system; the kernel mounts what it makes.
    \<^item> Uucode: \<open>cmd/bin/uuencode.c\<close> and \<open>uudecode.c\<close>.
    \<^item> Fsck: \<open>cmd/sbin/fsck.c\<close>. \<open>in_tree\<close> are the inodes that can be reached, \<open>node\<close> the blocks of one;
      a run that prints nothing means that the map marks exactly these.
    \<^item> Expr: \<open>cmd/bin/expr.c\<close>. \<open>xtree\<close> are the expressions, \<open>xsem\<close> their values.

  No fuel is used. The bounds in the definitions are the sizes of the tables of the code.

  Not modelled: the context switch (\<open>setjmp\<close>, the assembler files), the drivers of the memory (its bytes are not
  in the state of the kernel) and of the printer, the boot loader, most of the messages the kernel prints, the shell
  and the other commands.
\<close>

end
